(* ===== verification/Prelude.thy ===== *)
theory Prelude
  imports Main
begin

text \<open>
  Shared material of the development: JavaScript's \<open>Map\<close> as an association list in
  insertion order, \<open>Number.isSafeInteger\<close>, \<open>String.prototype.trim\<close>, stable
  sorting by a comparator, and the generic lemmas the component theories use. Strings are
  character lists, numbers are integers; \<open>undefined\<close> and \<open>null\<close> are \<^const>\<open>None\<close>.
  The collections \<open>ledger_defs\<close>, \<open>lease_defs\<close> and \<open>queue_defs\<close> gather the
  definitions that the proofs about the run ledger, the leases and the queue unfold.
\<close>

named_theorems ledger_defs \<open>definitions of the run ledger\<close>
named_theorems lease_defs \<open>definitions of the lease stores\<close>
named_theorems queue_defs \<open>definitions of the message queue\<close>

section \<open>Maps in insertion order\<close>

type_synonym ('k, 'v) js_map = "('k \<times> 'v) list"

text \<open>\<open>Map.get\<close>, \<open>Map.has\<close>, \<open>Map.set\<close> (an existing key keeps its place),
  \<open>Map.delete\<close> and \<open>Map.values\<close>.\<close>

definition js_get :: "('k, 'v) js_map \<Rightarrow> 'k \<Rightarrow> 'v option" where
  "js_get m k = map_of m k"

definition js_has :: "('k, 'v) js_map \<Rightarrow> 'k \<Rightarrow> bool" where
  "js_has m k \<longleftrightarrow> js_get m k \<noteq> None"

fun js_set :: "'k \<Rightarrow> 'v \<Rightarrow> ('k, 'v) js_map \<Rightarrow> ('k, 'v) js_map" where
  "js_set k v [] = [(k, v)]"
| "js_set k v ((k', v') # m) = (if k = k' then (k, v) # m else (k', v') # js_set k v m)"

definition js_delete :: "'k \<Rightarrow> ('k, 'v) js_map \<Rightarrow> ('k, 'v) js_map" where
  "js_delete k m = filter (\<lambda>p. fst p \<noteq> k) m"

definition js_values :: "('k, 'v) js_map \<Rightarrow> 'v list" where
  "js_values m = map snd m"

definition js_keys :: "('k, 'v) js_map \<Rightarrow> 'k list" where
  "js_keys m = map fst m"

definition js_wf :: "('k, 'v) js_map \<Rightarrow> bool" where
  "js_wf m \<longleftrightarrow> distinct (js_keys m)"

lemma js_get_Nil [simp]: "js_get [] k = None"
  by (simp add: js_get_def)

lemma js_get_set [simp]: "js_get (js_set k v m) k' = (if k' = k then Some v else js_get m k')"
  by (induction k v m rule: js_set.induct) (auto simp: js_get_def)

lemma js_get_delete [simp]: "js_get (js_delete k m) k' = (if k' = k then None else js_get m k')"
  by (induction m) (auto simp: js_get_def js_delete_def)

lemma js_has_set [simp]: "js_has (js_set k v m) k' \<longleftrightarrow> k' = k \<or> js_has m k'"
  by (simp add: js_has_def)

lemma js_has_delete [simp]: "js_has (js_delete k m) k' \<longleftrightarrow> k' \<noteq> k \<and> js_has m k'"
  by (simp add: js_has_def)

lemma js_keys_set: "js_keys (js_set k v m) = (if k \<in> set (js_keys m) then js_keys m else js_keys m @ [k])"
  by (induction k v m rule: js_set.induct) (auto simp: js_keys_def)

lemma js_wf_Nil [simp]: "js_wf []"
  by (simp add: js_wf_def js_keys_def)

lemma js_wf_set [simp, intro]: "js_wf m \<Longrightarrow> js_wf (js_set k v m)"
  by (auto simp: js_wf_def js_keys_set)

lemma js_wf_delete [simp, intro]: "js_wf m \<Longrightarrow> js_wf (js_delete k m)"
  by (simp add: js_wf_def js_keys_def js_delete_def distinct_map_filter)

lemma js_get_in_set: "js_get m k = Some v \<Longrightarrow> (k, v) \<in> set m"
  by (simp add: js_get_def map_of_SomeD)

lemma js_get_iff: "js_wf m \<Longrightarrow> js_get m k = Some v \<longleftrightarrow> (k, v) \<in> set m"
  by (simp add: js_get_def js_wf_def js_keys_def)

lemma js_values_get: "js_get m k = Some v \<Longrightarrow> v \<in> set (js_values m)"
  by (force simp: js_values_def dest: js_get_in_set)

text \<open>Building a map from entries with distinct keys.\<close>

lemma js_set_new: "k \<notin> set (js_keys m) \<Longrightarrow> js_set k v m = m @ [(k, v)]"
  by (induction k v m rule: js_set.induct) (auto simp: js_keys_def)

lemma fold_js_set_distinct: "distinct (js_keys (m @ es)) \<Longrightarrow> fold (\<lambda>(k, v). js_set k v) es m = m @ es"
proof (induction es arbitrary: m)
  case (Cons e es)
  obtain k v where e: "e = (k, v)" by fastforce
  have "js_set k v m = m @ [(k, v)]" using Cons.prems e by (intro js_set_new) (auto simp: js_keys_def)
  then show ?case using Cons e by simp
qed simp

section \<open>Numbers and strings\<close>

text \<open>\<open>Number.MAX_SAFE_INTEGER\<close> and \<open>Number.isSafeInteger\<close>.\<close>

definition max_safe_integer :: int where
  "max_safe_integer = 9007199254740991"

definition is_safe_integer :: "int \<Rightarrow> bool" where
  "is_safe_integer n \<longleftrightarrow> - max_safe_integer \<le> n \<and> n \<le> max_safe_integer"

text \<open>The white space that \<open>trim\<close> and the regular expression class \<open>\s\<close> recognise
  among the characters modelled here.\<close>

definition js_space :: "char \<Rightarrow> bool" where
  "js_space c \<longleftrightarrow> (of_char c :: nat) \<in> {9, 10, 11, 12, 13, 32, 160}"

definition js_trim :: "string \<Rightarrow> string" where
  "js_trim s = rev (dropWhile js_space (rev (dropWhile js_space s)))"

definition js_blank :: "string \<Rightarrow> bool" where
  "js_blank s \<longleftrightarrow> js_trim s = []"

lemma js_blank_iff: "js_blank s \<longleftrightarrow> (\<forall>c \<in> set s. js_space c)"
proof (cases "dropWhile js_space s")
  case Nil
  then have "\<forall>c \<in> set s. js_space c"
    by (simp add: dropWhile_eq_Nil_conv)
  moreover from Nil have "js_blank s"
    by (simp only: js_blank_def js_trim_def) simp
  ultimately show ?thesis by simp
next
  case (Cons c cs)
  then have "\<not> js_space c"
    by (simp add: dropWhile_eq_Cons_conv)
  moreover from this Cons have "js_trim s \<noteq> []"
    by (simp add: js_trim_def dropWhile_append)
  moreover have "c \<in> set s"
    using Cons by (metis list.set_intros(1) set_dropWhileD)
  ultimately show ?thesis by (auto simp: js_blank_def)
qed

lemma js_trim_id: "s \<noteq> [] \<Longrightarrow> \<not> js_space (hd s) \<Longrightarrow> \<not> js_space (last s) \<Longrightarrow> js_trim s = s"
proof -
  assume a: "s \<noteq> []" "\<not> js_space (hd s)" "\<not> js_space (last s)"
  then have "dropWhile js_space s = s" by (cases s) auto
  moreover have "dropWhile js_space (rev s) = rev s" using a by (cases s rule: rev_cases) auto
  ultimately show ?thesis by (simp add: js_trim_def)
qed

lemma js_trim_ends: "js_trim s \<noteq> [] \<Longrightarrow> \<not> js_space (hd (js_trim s)) \<and> \<not> js_space (last (js_trim s))"
proof
  assume ne: "js_trim s \<noteq> []"
  let ?d = "dropWhile js_space s"
  have d: "?d \<noteq> []"
  proof
    assume "?d = []"
    then show False using ne by (simp only: js_trim_def) simp
  qed
  have "\<not> js_space (hd ?d)" using hd_dropWhile [OF d] .
  moreover have "hd (js_trim s) = hd ?d"
  proof -
    obtain q where q: "?d = js_trim s @ q"
      using takeWhile_dropWhile_id [of js_space "rev ?d"] by (metis js_trim_def rev_append rev_rev_ident)
    then show ?thesis using ne by simp
  qed
  ultimately show "\<not> js_space (hd (js_trim s))" by simp
  have "dropWhile js_space (rev ?d) \<noteq> []" using ne by (simp add: js_trim_def)
  from hd_dropWhile [OF this] show "\<not> js_space (last (js_trim s))" by (simp add: js_trim_def last_rev)
qed

lemma js_trim_idem [simp]: "js_trim (js_trim s) = js_trim s"
proof (cases "js_trim s = []")
  case True
  have "js_trim [] = []" by (simp add: js_trim_def)
  then show ?thesis by (simp only: True)
qed (use js_trim_ends [of s] js_trim_id [of "js_trim s"] in simp)

section \<open>Sets in insertion order\<close>

text \<open>A JavaScript \<open>Set\<close> is the list of its members in insertion order: \<open>set.add(x)\<close>, and
  \<open>[...new Set(xs)]\<close>, which keeps the first occurrence of each element.\<close>

definition js_set_add :: "'a \<Rightarrow> 'a list \<Rightarrow> 'a list" where
  "js_set_add x xs = (if x \<in> set xs then xs else xs @ [x])"

definition js_dedup :: "'a list \<Rightarrow> 'a list" where
  "js_dedup xs = rev (remdups (rev xs))"

lemma set_js_set_add [simp]: "set (js_set_add x xs) = insert x (set xs)"
  by (auto simp: js_set_add_def)

lemma distinct_js_set_add [simp]: "distinct xs \<Longrightarrow> distinct (js_set_add x xs)"
  by (auto simp: js_set_add_def)

lemma js_dedup_distinct: "distinct xs \<Longrightarrow> js_dedup xs = xs"
  by (simp add: js_dedup_def distinct_remdups_id)

lemma js_dedup_add: "distinct xs \<Longrightarrow> js_dedup (xs @ [x]) = js_set_add x xs"
  by (simp add: js_dedup_def js_set_add_def distinct_remdups_id)

lemma distinct_js_dedup [simp]: "distinct (js_dedup xs)"
  by (simp add: js_dedup_def)

lemma set_js_dedup [simp]: "set (js_dedup xs) = set xs"
  by (simp add: js_dedup_def)

section \<open>Joining and splitting\<close>

text \<open>\<open>xs.join(sep)\<close>.\<close>

fun join_with :: "string \<Rightarrow> string list \<Rightarrow> string" where
  "join_with sep [] = []"
| "join_with sep [x] = x"
| "join_with sep (x # y # ys) = x @ sep @ join_with sep (y # ys)"

text \<open>\<open>s.split(c)\<close> for a one-character separator.\<close>

fun js_split :: "char \<Rightarrow> string \<Rightarrow> string list" where
  "js_split c [] = [[]]"
| "js_split c (x # xs) =
     (if x = c then [] # js_split c xs
      else case js_split c xs of [] \<Rightarrow> [[x]] | p # ps \<Rightarrow> (x # p) # ps)"

lemma js_split_no: "c \<notin> set s \<Longrightarrow> js_split c s = [s]"
  by (induction s) auto

lemma js_split_app: "c \<notin> set a \<Longrightarrow> js_split c (a @ c # b) = a # js_split c b"
  by (induction a) auto

lemma js_split_join:
  assumes "xs \<noteq> []" "\<forall>x \<in> set xs. c \<notin> set x"
  shows "js_split c (join_with [c] xs) = xs"
  using assms by (induction "[c]" xs rule: join_with.induct) (auto simp: js_split_no js_split_app)

lemma js_split_nonempty [simp]: "js_split c s \<noteq> []"
  by (cases s) (auto split: list.splits)

lemma js_split_single: "js_split c s = [x] \<Longrightarrow> x = s"
  by (induction s arbitrary: x) (auto split: list.splits if_splits)

section \<open>Results\<close>

text \<open>A rejected promise or a thrown error is \<^const>\<open>Inl\<close>, a returned value \<^const>\<open>Inr\<close>.\<close>

definition returned :: "'e + 'a \<Rightarrow> bool" where
  "returned r \<longleftrightarrow> (case r of Inl _ \<Rightarrow> False | Inr _ \<Rightarrow> True)"

text \<open>Sequential composition: the rest runs only when the first part returned.\<close>

definition chain :: "'e + 'a \<Rightarrow> ('a \<Rightarrow> 'e + 'b) \<Rightarrow> 'e + 'b" where
  "chain r f = (case r of Inl e \<Rightarrow> Inl e | Inr v \<Rightarrow> f v)"

lemma chain_simps [simp]: "chain (Inl e) f = Inl e" "chain (Inr v) f = f v"
  by (simp_all add: chain_def)

lemma chain_Inr_iff: "chain r f = Inr w \<longleftrightarrow> (\<exists>v. r = Inr v \<and> f v = Inr w)"
  by (cases r) auto

lemma chain_Inr_elim [elim!]:
  assumes "chain r f = Inr w"
  obtains v where "r = Inr v" "f v = Inr w"
  using assms by (auto simp: chain_Inr_iff)

text \<open>A guard that throws \<open>e\<close> when its condition holds.\<close>

definition throw_if :: "bool \<Rightarrow> 'e \<Rightarrow> 'e + unit" where
  "throw_if b e = (if b then Inl e else Inr ())"

lemma throw_if_Inr [simp]: "throw_if b e = Inr u \<longleftrightarrow> \<not> b"
  by (simp add: throw_if_def)

lemma throw_if_simps [simp]: "throw_if True e = Inl e" "throw_if False e = Inr ()"
  by (simp_all add: throw_if_def)

lemma returned_simps [simp]: "\<not> returned (Inl e)" "returned (Inr v)"
  by (simp_all add: returned_def)

section \<open>Stable sorting\<close>

text \<open>\<open>Array.prototype.sort\<close> is stable; insertion sort with a comparator that keeps equal
  elements in order is its result for every consistent comparator.\<close>

fun js_insert :: "('a \<Rightarrow> 'a \<Rightarrow> int) \<Rightarrow> 'a \<Rightarrow> 'a list \<Rightarrow> 'a list" where
  "js_insert cmp x [] = [x]"
| "js_insert cmp x (y # ys) = (if cmp x y \<le> 0 then x # y # ys else y # js_insert cmp x ys)"

definition js_sort :: "('a \<Rightarrow> 'a \<Rightarrow> int) \<Rightarrow> 'a list \<Rightarrow> 'a list" where
  "js_sort cmp xs = foldr (js_insert cmp) xs []"

lemma set_js_insert [simp]: "set (js_insert cmp x ys) = insert x (set ys)"
  by (induction ys) auto

lemma js_sort_simps [simp]:
  "js_sort cmp [] = []"
  "js_sort cmp (x # xs) = js_insert cmp x (js_sort cmp xs)"
  by (simp_all add: js_sort_def)

lemma set_js_sort [simp]: "set (js_sort cmp xs) = set xs"
  by (induction xs) auto

text \<open>A consistent comparator is total and transitive; the result is then in order.\<close>

definition js_comparator :: "('a \<Rightarrow> 'a \<Rightarrow> int) \<Rightarrow> bool" where
  "js_comparator cmp \<longleftrightarrow> (\<forall>a b. cmp a b \<le> 0 \<or> cmp b a \<le> 0) \<and> (\<forall>a b c. cmp a b \<le> 0 \<longrightarrow> cmp b c \<le> 0 \<longrightarrow> cmp a c \<le> 0)"

lemma js_insert_sorted:
  assumes "js_comparator cmp" "sorted_wrt (\<lambda>a b. cmp a b \<le> 0) ys"
  shows "sorted_wrt (\<lambda>a b. cmp a b \<le> 0) (js_insert cmp x ys)"
  using assms(2)
proof (induction ys)
  case (Cons y ys)
  have trans: "cmp a b \<le> 0 \<Longrightarrow> cmp b c \<le> 0 \<Longrightarrow> cmp a c \<le> 0" and total: "cmp a b \<le> 0 \<or> cmp b a \<le> 0" for a b c
    using assms(1) unfolding js_comparator_def by blast+
  show ?case
  proof (cases "cmp x y \<le> 0")
    case True
    then show ?thesis using Cons.prems trans [OF True] by auto
  next
    case False
    then have "cmp y x \<le> 0" using total by blast
    then show ?thesis using False Cons by auto
  qed
qed simp

lemma js_sort_sorted: "js_comparator cmp \<Longrightarrow> sorted_wrt (\<lambda>a b. cmp a b \<le> 0) (js_sort cmp xs)"
  by (induction xs) (auto intro: js_insert_sorted)

lemma length_js_insert [simp]: "length (js_insert cmp x ys) = Suc (length ys)"
  by (induction ys) auto

lemma length_js_sort [simp]: "length (js_sort cmp xs) = length xs"
  by (induction xs) auto

lemma distinct_js_insert: "x \<notin> set ys \<Longrightarrow> distinct ys \<Longrightarrow> distinct (js_insert cmp x ys)"
  by (induction ys) auto

lemma distinct_js_sort: "distinct xs \<Longrightarrow> distinct (js_sort cmp xs)"
  by (induction xs) (auto intro: distinct_js_insert)

lemma js_sort_Nil_iff [simp]: "js_sort cmp xs = [] \<longleftrightarrow> xs = []"
  by (metis set_empty set_js_sort)

end
