(* ===== verification/Js_Date.thy ===== *)
theory Js_Date
  imports Prelude "HOL-Library.Monad_Syntax"
begin

text \<open>
  The part of JavaScript's \<open>Date\<close> that the sources use, after the ECMAScript
  definitions: time values in milliseconds, the proleptic Gregorian calendar in UTC,
  \<open>toISOString\<close>, \<open>Date.parse\<close> on the date time string format, and string
  comparison by code units. The main lemmas are the calendar decomposition and its
  inverse, the round trip of \<open>Date.parse\<close> after \<open>toISOString\<close>, and that ISO
  strings of four-digit years compare as the times they denote.
  \<open>Date.parse\<close> gives \<^const>\<open>None\<close> (NaN) on a string outside that format, where an
  engine may apply formats of its own; a date time without offset is read as UTC.
\<close>

section \<open>Time values and the calendar\<close>

abbreviation ms_per_day :: int where "ms_per_day \<equiv> 86400000"

text \<open>\<open>TimeClip\<close>: a \<open>Date\<close> holds a time value of this range, or NaN.\<close>

definition time_clip :: "int \<Rightarrow> int option" where
  "time_clip t = (if \<bar>t\<bar> \<le> 8640000000000000 then Some t else None)"

definition day_from_year :: "int \<Rightarrow> int" where
  "day_from_year y =
     365 * (y - 1970) + (y - 1969) div 4 - (y - 1901) div 100 + (y - 1601) div 400"

definition leap_year :: "int \<Rightarrow> bool" where
  "leap_year y \<longleftrightarrow> y mod 4 = 0 \<and> (y mod 100 \<noteq> 0 \<or> y mod 400 = 0)"

text \<open>The largest year whose first day is not after day \<open>d\<close>.\<close>

definition year_from_day :: "int \<Rightarrow> int" where
  "year_from_day d =
     (let y = 1970 + (400 * d) div 146097
      in if d < day_from_year y then y - 1
         else if day_from_year (y + 1) \<le> d then y + 1 else y)"

definition leap_days :: "int \<Rightarrow> int" where
  "leap_days y = (if leap_year y then 1 else 0)"

text \<open>Days before the first of a month (counted from 0) in a year with \<open>l\<close> leap days.\<close>

definition days_before_month :: "int \<Rightarrow> int \<Rightarrow> int" where
  "days_before_month l m =
     (if m \<le> 0 then 0 else if m = 1 then 31
      else l + (if m = 2 then 59 else if m = 3 then 90 else if m = 4 then 120
        else if m = 5 then 151 else if m = 6 then 181 else if m = 7 then 212
        else if m = 8 then 243 else if m = 9 then 273 else if m = 10 then 304 else 334))"

text \<open>\<open>MonthFromTime\<close>: the month (0 to 11) of day \<open>w\<close> of a year.\<close>

definition month_of_year_day :: "int \<Rightarrow> int \<Rightarrow> int" where
  "month_of_year_day l w =
     (if w < 31 then 0 else if w < 59 + l then 1 else if w < 90 + l then 2
      else if w < 120 + l then 3 else if w < 151 + l then 4 else if w < 181 + l then 5
      else if w < 212 + l then 6 else if w < 243 + l then 7 else if w < 273 + l then 8
      else if w < 304 + l then 9 else if w < 334 + l then 10 else 11)"

definition utc_day :: "int \<Rightarrow> int" where "utc_day t = t div ms_per_day"

definition getUTCFullYear :: "int \<Rightarrow> int" where
  "getUTCFullYear t = year_from_day (utc_day t)"

definition year_day :: "int \<Rightarrow> int" where
  "year_day d = d - day_from_year (year_from_day d)"

definition month_from_day :: "int \<Rightarrow> int" where
  "month_from_day d = month_of_year_day (leap_days (year_from_day d)) (year_day d)"

definition date_from_day :: "int \<Rightarrow> int" where
  "date_from_day d =
     year_day d - days_before_month (leap_days (year_from_day d)) (month_from_day d) + 1"

definition getUTCMonth :: "int \<Rightarrow> int" where
  "getUTCMonth t = month_from_day (utc_day t)"

definition getUTCDate :: "int \<Rightarrow> int" where
  "getUTCDate t = date_from_day (utc_day t)"

definition getUTCDay :: "int \<Rightarrow> int" where "getUTCDay t = (utc_day t + 4) mod 7"

definition getUTCHours :: "int \<Rightarrow> int" where "getUTCHours t = t div 3600000 mod 24"

definition getUTCMinutes :: "int \<Rightarrow> int" where "getUTCMinutes t = t div 60000 mod 60"

definition getUTCSeconds :: "int \<Rightarrow> int" where "getUTCSeconds t = t div 1000 mod 60"

definition getUTCMilliseconds :: "int \<Rightarrow> int" where "getUTCMilliseconds t = t mod 1000"

text \<open>\<open>MakeDay\<close> for a month of 0 to 11, \<open>MakeTime\<close>, \<open>MakeDate\<close>.\<close>

definition make_day :: "int \<Rightarrow> int \<Rightarrow> int \<Rightarrow> int" where
  "make_day y m dt = day_from_year y + days_before_month (leap_days y) m + dt - 1"

definition make_date :: "int \<Rightarrow> int \<Rightarrow> int \<Rightarrow> int \<Rightarrow> int \<Rightarrow> int \<Rightarrow> int \<Rightarrow> int" where
  "make_date y m dt h mi s ms =
     make_day y m dt * ms_per_day + h * 3600000 + mi * 60000 + s * 1000 + ms"

section \<open>The calendar decomposition\<close>

lemma int_div_bounds: "(0::int) < n \<Longrightarrow> n * (x div n) \<le> x \<and> x < n * (x div n) + n"
  using mult_div_mod_eq [of n x] pos_mod_bound [of n x] pos_mod_sign [of n x] by linarith

text \<open>One step of a quotient: it grows exactly at the multiples of the divisor.\<close>

lemma int_div_step:
  assumes "(0::int) < n"
  shows "(x + 1) div n = x div n + (if (x + 1) mod n = 0 then 1 else 0)"
proof (cases "(x + 1) mod n = 0")
  case True
  have "x + 1 = n * ((x + 1) div n) + (x + 1) mod n" by simp
  with True have "x = n * ((x + 1) div n - 1) + (n - 1)" by (simp add: algebra_simps)
  then have "x div n = (x + 1) div n - 1"
    using assms by (intro int_div_pos_eq [where r = "n - 1"]) auto
  with True show ?thesis by simp
next
  case False
  have "x = n * ((x + 1) div n) + ((x + 1) mod n - 1)" by (simp add: algebra_simps)
  moreover have "0 \<le> (x + 1) mod n" "(x + 1) mod n < n" using assms by auto
  ultimately have "x div n = (x + 1) div n"
    using False by (intro int_div_pos_eq [where r = "(x + 1) mod n - 1"]) linarith+
  with False show ?thesis by simp
qed

lemma year_from_day_bounds:
  "day_from_year (year_from_day d) \<le> d \<and> d < day_from_year (year_from_day d + 1)"
proof -
  define k where "k = (400 * d) div 146097"
  have k: "146097 * k \<le> 400 * d" "400 * d < 146097 * k + 146097"
    using int_div_bounds [of 146097 "400 * d"] by (simp_all add: k_def)
  have 1: "day_from_year (1970 + k - 1) \<le> d"
    using k int_div_bounds [of 4 k] int_div_bounds [of 100 "k + 68"] int_div_bounds [of 400 "k + 368"]
    by (simp add: day_from_year_def algebra_simps)
  have 2: "d < day_from_year (1970 + k + 2)"
    using k int_div_bounds [of 4 "k + 3"] int_div_bounds [of 100 "k + 71"] int_div_bounds [of 400 "k + 371"]
    by (simp add: day_from_year_def algebra_simps)
  show ?thesis
    using 1 2 unfolding year_from_day_def k_def [symmetric] Let_def
    by (auto simp: algebra_simps)
qed

lemma leap_days_count:
  "leap_days y = (if y mod 4 = 0 then 1 else 0) - (if y mod 100 = 0 then 1 else 0)
     + (if y mod 400 = 0 then 1 else 0)"
proof -
  have "100 dvd y \<Longrightarrow> 4 dvd y" by (rule dvd_trans [of 4 100]) simp_all
  moreover have "400 dvd y \<Longrightarrow> 100 dvd y" by (rule dvd_trans [of 100 400]) simp_all
  ultimately show ?thesis
    unfolding leap_days_def leap_year_def mod_eq_0_iff_dvd
    by (cases "4 dvd y"; cases "100 dvd y"; cases "400 dvd y"; simp)
qed

lemma day_from_year_Suc: "day_from_year (y + 1) = day_from_year y + 365 + leap_days y"
proof -
  have 4: "(y + 1 - 1969) div 4 = (y - 1969) div 4 + (if y mod 4 = 0 then 1 else 0)"
    using int_div_step [of 4 "y - 1969"] mod_mult_self1 [of y "- 492" 4]
    by (simp add: add_diff_eq [symmetric] del: mod_mult_self1 mod_mult_self2)
  have 100: "(y + 1 - 1901) div 100 = (y - 1901) div 100 + (if y mod 100 = 0 then 1 else 0)"
    using int_div_step [of 100 "y - 1901"] mod_mult_self1 [of y "- 19" 100]
    by (simp add: add_diff_eq [symmetric] del: mod_mult_self1 mod_mult_self2)
  have 400: "(y + 1 - 1601) div 400 = (y - 1601) div 400 + (if y mod 400 = 0 then 1 else 0)"
    using int_div_step [of 400 "y - 1601"] mod_mult_self1 [of y "- 4" 400]
    by (simp add: add_diff_eq [symmetric] del: mod_mult_self1 mod_mult_self2)
  show ?thesis
    unfolding day_from_year_def 4 100 400 leap_days_count by (simp only: algebra_simps)
qed

lemma leap_days_bounds: "0 \<le> leap_days y \<and> leap_days y \<le> 1"
  by (simp add: leap_days_def)

lemma day_from_year_mono: "y \<le> y' \<Longrightarrow> day_from_year y + 365 * (y' - y) \<le> day_from_year y'"
proof (induction "nat (y' - y)" arbitrary: y')
  case 0
  then show ?case by simp
next
  case (Suc n)
  then have "day_from_year y + 365 * (y' - 1 - y) \<le> day_from_year (y' - 1)"
    by (intro Suc.hyps(1)) auto
  moreover have "day_from_year y' = day_from_year (y' - 1) + 365 + leap_days (y' - 1)"
    using day_from_year_Suc [of "y' - 1"] by simp
  ultimately show ?case using leap_days_bounds [of "y' - 1"] by simp
qed

lemma year_from_day_unique:
  assumes "day_from_year y \<le> d" "d < day_from_year (y + 1)"
  shows "year_from_day d = y"
proof (rule ccontr)
  assume "year_from_day d \<noteq> y"
  then consider "year_from_day d + 1 \<le> y" | "y + 1 \<le> year_from_day d" by linarith
  then show False
    using assms year_from_day_bounds [of d] day_from_year_mono by cases fastforce+
qed

lemma year_day_bounds: "0 \<le> year_day d \<and> year_day d < 365 + leap_days (year_from_day d)"
  using year_from_day_bounds [of d] day_from_year_Suc [of "year_from_day d"]
  by (simp add: year_day_def)

lemma month_from_day_bounds: "0 \<le> month_from_day d \<and> month_from_day d \<le> 11"
  by (simp add: month_from_day_def month_of_year_day_def)

lemma date_from_day_bounds: "1 \<le> date_from_day d \<and> date_from_day d \<le> 31"
  using year_day_bounds [of d] leap_days_bounds [of "year_from_day d"]
  by (auto simp: date_from_day_def month_from_day_def month_of_year_day_def
      days_before_month_def split: if_splits)

text \<open>The fields of a day denote that day again.\<close>

lemma make_day_from_day: "make_day (year_from_day d) (month_from_day d) (date_from_day d) = d"
  by (simp add: make_day_def date_from_day_def year_day_def)

lemma time_in_day_parts:
  fixes t :: int
  shows "t = t div 86400000 * 86400000 + t div 3600000 mod 24 * 3600000 + t div 60000 mod 60 * 60000
           + t div 1000 mod 60 * 1000 + t mod 1000"
proof -
  have a: "t = t div 1000 * 1000 + t mod 1000" by simp
  have b: "t div 1000 = t div 60000 * 60 + t div 1000 mod 60"
    using div_mult_mod_eq [of "t div 1000" 60] by (simp add: zdiv_zmult2_eq [symmetric])
  have c: "t div 60000 = t div 3600000 * 60 + t div 60000 mod 60"
    using div_mult_mod_eq [of "t div 60000" 60] by (simp add: zdiv_zmult2_eq [symmetric])
  have d: "t div 3600000 = t div 86400000 * 24 + t div 3600000 mod 24"
    using div_mult_mod_eq [of "t div 3600000" 24] by (simp add: zdiv_zmult2_eq [symmetric])
  show ?thesis using a b c d by linarith
qed

lemma make_date_fields:
  "make_date (getUTCFullYear t) (getUTCMonth t) (getUTCDate t)
     (getUTCHours t) (getUTCMinutes t) (getUTCSeconds t) (getUTCMilliseconds t) = t"
  unfolding make_date_def getUTCFullYear_def getUTCMonth_def getUTCDate_def
    make_day_from_day getUTCHours_def getUTCMinutes_def getUTCSeconds_def
    getUTCMilliseconds_def utc_day_def
  by (rule time_in_day_parts [symmetric])

lemma clock_range:
  "0 \<le> getUTCHours t" "getUTCHours t < 24" "0 \<le> getUTCMinutes t" "getUTCMinutes t < 60"
  "0 \<le> getUTCSeconds t" "getUTCSeconds t < 60" "0 \<le> getUTCMilliseconds t" "getUTCMilliseconds t < 1000"
  by (simp_all add: getUTCHours_def getUTCMinutes_def getUTCSeconds_def getUTCMilliseconds_def)

lemma time_of_clock:
  "t = utc_day t * ms_per_day + (getUTCHours t * 3600000 + getUTCMinutes t * 60000
         + getUTCSeconds t * 1000 + getUTCMilliseconds t)"
  unfolding utc_day_def getUTCHours_def getUTCMinutes_def getUTCSeconds_def getUTCMilliseconds_def
  using time_in_day_parts [of t] by linarith

section \<open>ISO strings\<close>

definition digit_char :: "nat \<Rightarrow> char" where
  "digit_char k = char_of (48 + k)"

definition is_digit :: "char \<Rightarrow> bool" where
  "is_digit c \<longleftrightarrow> 48 \<le> (of_char c :: nat) \<and> (of_char c :: nat) \<le> 57"

definition digit_value :: "char \<Rightarrow> nat" where
  "digit_value c = of_char c - 48"

text \<open>\<open>String(k)\<close> of a natural number.\<close>

fun show_nat :: "nat \<Rightarrow> string" where
  "show_nat k = (if k < 10 then [digit_char k] else show_nat (k div 10) @ [digit_char (k mod 10)])"

declare show_nat.simps [simp del]

definition show_int :: "int \<Rightarrow> string" where
  "show_int k = (if k < 0 then CHR ''-'' # show_nat (nat (- k)) else show_nat (nat k))"

text \<open>\<open>n\<close> decimal digits with leading zeros, and reading \<open>n\<close> digits back.\<close>

fun pad_digits :: "nat \<Rightarrow> nat \<Rightarrow> string" where
  "pad_digits 0 k = []"
| "pad_digits (Suc n) k = pad_digits n (k div 10) @ [digit_char (k mod 10)]"

fun read_digits :: "nat \<Rightarrow> nat \<Rightarrow> string \<Rightarrow> (nat \<times> string) option" where
  "read_digits 0 acc s = Some (acc, s)"
| "read_digits (Suc n) acc [] = None"
| "read_digits (Suc n) acc (c # s) =
     (if is_digit c then read_digits n (10 * acc + digit_value c) s else None)"

fun expect_char :: "char \<Rightarrow> string \<Rightarrow> string option" where
  "expect_char c [] = None"
| "expect_char c (x # s) = (if x = c then Some s else None)"

definition iso_year :: "int \<Rightarrow> string" where
  "iso_year y =
     (if 0 \<le> y \<and> y \<le> 9999 then pad_digits 4 (nat y)
      else (if y < 0 then CHR ''-'' else CHR ''+'') # pad_digits 6 (nat \<bar>y\<bar>))"

text \<open>\<open>toISOString\<close> of a time value.\<close>

definition iso_string :: "int \<Rightarrow> string" where
  "iso_string t =
     iso_year (getUTCFullYear t) @ ''-'' @ pad_digits 2 (nat (getUTCMonth t + 1)) @ ''-''
     @ pad_digits 2 (nat (getUTCDate t)) @ ''T'' @ pad_digits 2 (nat (getUTCHours t)) @ '':''
     @ pad_digits 2 (nat (getUTCMinutes t)) @ '':'' @ pad_digits 2 (nat (getUTCSeconds t)) @ ''.''
     @ pad_digits 3 (nat (getUTCMilliseconds t)) @ ''Z''"

text \<open>\<open>new Date(n).toISOString()\<close>: \<^const>\<open>None\<close> is the RangeError of an invalid date.\<close>

definition to_iso_string :: "int \<Rightarrow> string option" where
  "to_iso_string n = map_option iso_string (time_clip n)"

definition read_year :: "string \<Rightarrow> (int \<times> string) option" where
  "read_year s =
     (case s of [] \<Rightarrow> None
      | c # r \<Rightarrow>
          if c = CHR ''+'' then map_option (map_prod int id) (read_digits 6 0 r)
          else if c = CHR ''-'' then
            Option.bind (read_digits 6 0 r)
              (\<lambda>(y, r'). if y = 0 then None else Some (- int y, r'))
          else map_option (map_prod int id) (read_digits 4 0 s))"

text \<open>The part after the seconds: an optional fraction of one or more digits, of which the
  first three count.\<close>

definition read_fraction :: "string \<Rightarrow> (nat \<times> string) option" where
  "read_fraction s =
     (case s of
        c # r \<Rightarrow>
          if c = CHR ''.'' then
            (let ds = takeWhile is_digit r
             in if ds = [] then None
                else Option.bind (read_digits 3 0 (take 3 (ds @ ''00'')))
                       (\<lambda>(ms, _). Some (ms, dropWhile is_digit r)))
          else Some (0, s)
      | [] \<Rightarrow> Some (0, s))"

text \<open>\<open>Z\<close>, an offset in minutes, or nothing.\<close>

definition read_zone :: "string \<Rightarrow> int option" where
  "read_zone s =
     (case s of [] \<Rightarrow> Some 0
      | c # r \<Rightarrow>
          if c = CHR ''Z'' then (if r = [] then Some 0 else None)
          else if c = CHR ''+'' \<or> c = CHR ''-'' then do {
            (h, r) \<leftarrow> read_digits 2 0 r;
            r \<leftarrow> expect_char (CHR '':'') r;
            (mi, r) \<leftarrow> read_digits 2 0 r;
            if r = [] \<and> h \<le> 23 \<and> mi \<le> 59
            then Some ((if c = CHR ''+'' then 1 else -1) * (60 * int h + int mi)) else None }
          else None)"

definition read_time :: "string \<Rightarrow> int option" where
  "read_time s = do {
     (h, r) \<leftarrow> read_digits 2 0 s;
     r \<leftarrow> expect_char (CHR '':'') r;
     (mi, r) \<leftarrow> read_digits 2 0 r;
     (sec, r) \<leftarrow> (case expect_char (CHR '':'') r of
                     None \<Rightarrow> Some (0, r) | Some r' \<Rightarrow> read_digits 2 0 r');
     (ms, r) \<leftarrow> read_fraction r;
     z \<leftarrow> read_zone r;
     if mi \<le> 59 \<and> sec \<le> 59 \<and> (h \<le> 23 \<or> h = 24 \<and> mi = 0 \<and> sec = 0 \<and> ms = 0)
     then Some (int h * 3600000 + int mi * 60000 + int sec * 1000 + int ms - z * 60000)
     else None }"

definition days_in_month :: "int \<Rightarrow> int \<Rightarrow> int" where
  "days_in_month y m =
     (if m = 1 then 28 + leap_days y else if m \<in> {3, 5, 8, 10} then 30 else 31)"

definition read_date :: "string \<Rightarrow> (int \<times> string) option" where
  "read_date s = do {
     (y, r) \<leftarrow> read_year s;
     case expect_char (CHR ''-'') r of
       None \<Rightarrow> Some (make_day y 0 1, r)
     | Some r \<Rightarrow> do {
         (m, r) \<leftarrow> read_digits 2 0 r;
         if m < 1 \<or> 12 < m then None
         else case expect_char (CHR ''-'') r of
           None \<Rightarrow> Some (make_day y (int m - 1) 1, r)
         | Some r \<Rightarrow> do {
             (d, r) \<leftarrow> read_digits 2 0 r;
             if d < 1 \<or> days_in_month y (int m - 1) < int d then None
             else Some (make_day y (int m - 1) (int d), r) } } }"

definition date_parse :: "string \<Rightarrow> int option" where
  "date_parse s = do {
     (d, r) \<leftarrow> read_date s;
     t \<leftarrow> (if r = [] then Some 0 else Option.bind (expect_char (CHR ''T'') r) read_time);
     time_clip (d * ms_per_day + t) }"

section \<open>Round trip\<close>

lemma digit_char_simps:
  assumes "k < 10"
  shows "is_digit (digit_char k)" "digit_value (digit_char k) = k"
  using assms by (simp_all add: is_digit_def digit_value_def digit_char_def)

fun decimal_value :: "nat \<Rightarrow> string \<Rightarrow> nat" where
  "decimal_value acc [] = acc"
| "decimal_value acc (c # s) = decimal_value (10 * acc + digit_value c) s"

lemma decimal_value_append: "decimal_value acc (xs @ ys) = decimal_value (decimal_value acc xs) ys"
  by (induction acc xs rule: decimal_value.induct) auto

lemma decimal_value_show_nat: "decimal_value 0 (show_nat k) = k"
proof (induction k rule: show_nat.induct)
  case (1 k)
  then show ?case
    by (cases "k < 10") (simp_all add: show_nat.simps [of k] decimal_value_append digit_char_simps)
qed

lemma show_nat_inject: "show_nat a = show_nat b \<Longrightarrow> a = b"
  by (metis decimal_value_show_nat)

lemma show_nat_digits: "c \<in> set (show_nat k) \<Longrightarrow> is_digit c"
proof (induction k rule: show_nat.induct)
  case (1 k)
  then show ?case
    by (cases "k < 10") (auto simp: show_nat.simps [of k] digit_char_simps)
qed

lemma show_nat_nonempty [simp]: "show_nat k \<noteq> []"
  by (subst show_nat.simps) simp

lemma read_digits_add:
  "read_digits (m + n) acc s = Option.bind (read_digits m acc s) (\<lambda>(v, r). read_digits n v r)"
  by (induction m acc s rule: read_digits.induct) auto

lemma read_pad_digits:
  "k < 10 ^ n \<Longrightarrow> read_digits n acc (pad_digits n k @ s) = Some (acc * 10 ^ n + k, s)"
proof (induction n arbitrary: acc k s)
  case 0
  then show ?case by simp
next
  case (Suc n)
  then have "k div 10 < 10 ^ n" by (simp add: div_less_iff_less_mult)
  from Suc.IH [OF this] have "read_digits (n + 1) acc (pad_digits (Suc n) k @ s) =
      read_digits 1 (acc * 10 ^ n + k div 10) (digit_char (k mod 10) # s)"
    unfolding read_digits_add by simp
  then show ?case by (simp add: digit_char_simps algebra_simps)
qed

lemmas read_pad_2 = read_pad_digits [of _ 2 0, simplified]
lemmas read_pad_3 = read_pad_digits [of _ 3 0 "[]", simplified]
lemmas read_pad_4 = read_pad_digits [of _ 4 0, simplified]
lemmas read_pad_6 = read_pad_digits [of _ 6 0, simplified]

lemma pad_digits_all: "c \<in> set (pad_digits n k) \<Longrightarrow> is_digit c"
  by (induction n arbitrary: k) (auto simp: digit_char_simps)

lemma length_pad_digits [simp]: "length (pad_digits n k) = n"
  by (induction n arbitrary: k) auto

lemma pad_digits_hd: "0 < n \<Longrightarrow> \<exists>c r. pad_digits n k = c # r \<and> is_digit c"
  using length_pad_digits [of n k] pad_digits_all [of _ n k] by (cases "pad_digits n k") auto

lemma is_digit_neq: "is_digit c \<Longrightarrow> c \<noteq> CHR ''+'' \<and> c \<noteq> CHR ''-''"
  by (auto simp: is_digit_def)

lemma read_iso_year:
  assumes "\<bar>y\<bar> < 1000000"
  shows "read_year (iso_year y @ s) = Some (y, s)"
proof (cases "0 \<le> y \<and> y \<le> 9999")
  case True
  then have "nat y < 10000" by linarith
  from read_pad_4 [OF this, of s] have r: "read_digits 4 0 (pad_digits 4 (nat y) @ s) = Some (nat y, s)" .
  obtain c cs where c: "pad_digits 4 (nat y) = c # cs" "is_digit c"
    using pad_digits_hd [of 4 "nat y"] by auto
  then show ?thesis
    using True r is_digit_neq [OF c(2)] by (simp add: read_year_def iso_year_def)
next
  case False
  have "nat \<bar>y\<bar> < 1000000" using assms by simp
  from read_pad_6 [OF this, of s] have "read_digits 6 0 (pad_digits 6 (nat \<bar>y\<bar>) @ s) = Some (nat \<bar>y\<bar>, s)" .
  then show ?thesis
    using False by (auto simp: read_year_def iso_year_def)
qed

lemma day_of_time_bounds: "time_clip n = Some t \<Longrightarrow> - 100000000 \<le> utc_day t \<and> utc_day t \<le> 100000000"
  by (auto simp: time_clip_def utc_day_def split: if_splits)

lemma year_of_time_bounds: "time_clip n = Some t \<Longrightarrow> \<bar>getUTCFullYear t\<bar> < 1000000"
proof -
  assume "time_clip n = Some t"
  then have d: "- 100000000 \<le> utc_day t" "utc_day t \<le> 100000000"
    by (simp_all add: day_of_time_bounds)
  define y where "y = year_from_day (utc_day t)"
  have b: "day_from_year y \<le> utc_day t" "utc_day t < day_from_year (y + 1)"
    using year_from_day_bounds [of "utc_day t"] by (simp_all add: y_def)
  have z: "day_from_year 0 = - 719528" by (simp add: day_from_year_def)
  have "y < 1000000"
  proof (rule ccontr)
    assume "\<not> y < 1000000"
    then show False using day_from_year_mono [of 0 y] z b d by simp
  qed
  moreover have "- 1000000 < y"
  proof (rule ccontr)
    assume "\<not> - 1000000 < y"
    then show False using day_from_year_mono [of "y + 1" 0] z b d by simp
  qed
  ultimately show ?thesis by (simp add: getUTCFullYear_def y_def)
qed

lemma date_within_month: "date_from_day d \<le> days_in_month (year_from_day d) (month_from_day d)"
  using year_day_bounds [of d] leap_days_bounds [of "year_from_day d"]
  by (auto simp: date_from_day_def month_from_day_def month_of_year_day_def
      days_before_month_def days_in_month_def split: if_splits)

lemma read_fraction_iso:
  "k < 1000 \<Longrightarrow> read_fraction (CHR ''.'' # pad_digits 3 k @ ''Z'') = Some (k, ''Z'')"
proof -
  assume k: "k < 1000"
  have z: "\<not> is_digit (CHR ''Z'')" by (simp add: is_digit_def)
  have "takeWhile is_digit (pad_digits 3 k @ ''Z'') = pad_digits 3 k"
    "dropWhile is_digit (pad_digits 3 k @ ''Z'') = ''Z''"
    using z pad_digits_all [of _ 3 k] by (simp_all add: takeWhile_append2 dropWhile_append2)
  moreover have "take 3 (pad_digits 3 k @ ''00'') = pad_digits 3 k" by simp
  moreover have "pad_digits 3 k \<noteq> []" using pad_digits_hd [of 3 k] by auto
  ultimately show ?thesis
    using k read_pad_3 [of k] by (simp only: read_fraction_def) simp
qed

lemma read_time_iso:
  assumes "0 \<le> h" "h \<le> 23" "0 \<le> mi" "mi \<le> 59" "0 \<le> sec" "sec \<le> 59" "0 \<le> ms" "ms \<le> 999"
  shows "read_time (pad_digits 2 (nat h) @ CHR '':'' # pad_digits 2 (nat mi) @ CHR '':''
           # pad_digits 2 (nat sec) @ CHR ''.'' # pad_digits 3 (nat ms) @ ''Z'')
         = Some (h * 3600000 + mi * 60000 + sec * 1000 + ms)"
proof -
  have "nat h < 100" "nat mi < 100" "nat sec < 100" "nat ms < 1000" using assms by simp_all
  then show ?thesis
    using assms by (simp add: read_time_def read_pad_2 read_fraction_iso read_zone_def nat_le_iff)
qed

lemma read_date_iso:
  assumes "\<bar>year_from_day d\<bar> < 1000000"
  shows "read_date (iso_year (year_from_day d) @ CHR ''-'' # pad_digits 2 (nat (month_from_day d + 1))
           @ CHR ''-'' # pad_digits 2 (nat (date_from_day d)) @ s) = Some (d, s)"
proof -
  have "nat (month_from_day d + 1) < 100" "nat (date_from_day d) < 100"
    using month_from_day_bounds [of d] date_from_day_bounds [of d] by linarith+
  moreover have "int (nat (month_from_day d + 1)) = month_from_day d + 1"
    "int (nat (date_from_day d)) = date_from_day d"
    using month_from_day_bounds [of d] date_from_day_bounds [of d] by simp_all
  moreover have "\<not> nat (month_from_day d + 1) < 1" "\<not> 12 < nat (month_from_day d + 1)"
    "\<not> nat (date_from_day d) < 1"
    using month_from_day_bounds [of d] date_from_day_bounds [of d] by linarith+
  ultimately show ?thesis
    using assms date_within_month [of d]
    by (simp add: read_date_def read_iso_year read_pad_2 make_day_from_day not_less)
qed

text \<open>\<open>Date.parse\<close> inverts \<open>toISOString\<close> on every valid time value.\<close>

lemma date_parse_iso:
  assumes "time_clip n = Some t"
  shows "date_parse (iso_string t) = Some t"
proof -
  define tp where "tp = pad_digits 2 (nat (getUTCHours t)) @ CHR '':'' # pad_digits 2 (nat (getUTCMinutes t))
        @ CHR '':'' # pad_digits 2 (nat (getUTCSeconds t)) @ CHR ''.''
        # pad_digits 3 (nat (getUTCMilliseconds t)) @ ''Z''"
  have d: "\<bar>year_from_day (utc_day t)\<bar> < 1000000"
    using year_of_time_bounds [OF assms] by (simp add: getUTCFullYear_def)
  have c: "time_clip t = Some t" using assms by (auto simp: time_clip_def split: if_splits)
  note sum = time_of_clock [of t, symmetric]
  have time: "read_time tp
      = Some (getUTCHours t * 3600000 + getUTCMinutes t * 60000 + getUTCSeconds t * 1000 + getUTCMilliseconds t)"
    unfolding tp_def
    by (rule read_time_iso)
       (simp_all add: getUTCHours_def getUTCMinutes_def getUTCSeconds_def getUTCMilliseconds_def)
  have "iso_string t = iso_year (year_from_day (utc_day t)) @ CHR ''-''
      # pad_digits 2 (nat (month_from_day (utc_day t) + 1)) @ CHR ''-''
      # pad_digits 2 (nat (date_from_day (utc_day t))) @ CHR ''T'' # tp"
    by (simp add: iso_string_def tp_def getUTCFullYear_def getUTCMonth_def getUTCDate_def)
  then have "read_date (iso_string t) = Some (utc_day t, CHR ''T'' # tp)"
    using read_date_iso [OF d] by simp
  then show ?thesis
    by (simp add: date_parse_def time sum c)
qed

lemma date_parse_to_iso: "to_iso_string n = Some s \<Longrightarrow> date_parse s = Some n"
  by (auto simp: to_iso_string_def time_clip_def split: if_splits intro!: date_parse_iso [of n n])

section \<open>String order\<close>

text \<open>The operators \<open><\<close> and \<open><=\<close> on strings compare code units.\<close>

fun js_less :: "string \<Rightarrow> string \<Rightarrow> bool" where
  "js_less [] [] = False"
| "js_less [] (y # ys) = True"
| "js_less (x # xs) [] = False"
| "js_less (x # xs) (y # ys) =
     ((of_char x :: nat) < of_char y \<or> x = y \<and> js_less xs ys)"

definition js_le :: "string \<Rightarrow> string \<Rightarrow> bool" where
  "js_le a b \<longleftrightarrow> \<not> js_less b a"

lemma js_less_irrefl [simp]: "\<not> js_less a a"
  by (induction a) auto

lemma js_less_trans: "js_less a b \<Longrightarrow> js_less b c \<Longrightarrow> js_less a c"
proof (induction a b arbitrary: c rule: js_less.induct)
  case (2 y ys)
  then show ?case by (cases c) auto
next
  case (4 x xs y ys)
  then show ?case by (cases c) auto
qed auto

lemma js_less_linear: "js_less a b \<or> a = b \<or> js_less b a"
proof (induction a b rule: js_less.induct)
  case (4 x xs y ys)
  then show ?case
    by (metis js_less.simps(4) linorder_neqE_nat of_char_eq_iff)
qed auto

lemma js_le_refl [simp]: "js_le a a"
  by (simp add: js_le_def)

lemma js_le_trans: "js_le a b \<Longrightarrow> js_le b c \<Longrightarrow> js_le a c"
  unfolding js_le_def by (metis js_less_linear js_less_trans)

lemma js_le_total: "js_le a b \<or> js_le b a"
  unfolding js_le_def by (metis js_less_irrefl js_less_trans)

lemma js_le_antisym: "js_le a b \<Longrightarrow> js_le b a \<Longrightarrow> a = b"
  unfolding js_le_def by (metis js_less_linear)

lemma digit_char_less: "a < 10 \<Longrightarrow> b < 10 \<Longrightarrow> (of_char (digit_char a) :: nat) < of_char (digit_char b) \<longleftrightarrow> a < b"
  by (simp add: digit_char_def)

lemma digit_char_inject: "a < 10 \<Longrightarrow> b < 10 \<Longrightarrow> digit_char a = digit_char b \<longleftrightarrow> a = b"
  by (metis digit_char_simps(2))

lemma decimal_less:
  fixes a b a' b' :: nat
  assumes "b < 10" "b' < 10"
  shows "a < a' \<or> a = a' \<and> (b < b' \<or> b = b' \<and> P) \<longleftrightarrow>
    a * 10 + b < a' * 10 + b' \<or> a * 10 + b = a' * 10 + b' \<and> P"
proof -
  consider "a < a'" | "a = a'" | "a' < a" by linarith
  then show ?thesis using assms by cases auto
qed

lemma pad_digits_less:
  "k < 10 ^ n \<Longrightarrow> k' < 10 ^ n \<Longrightarrow>
   js_less (pad_digits n k @ s) (pad_digits n k' @ s') \<longleftrightarrow> k < k' \<or> k = k' \<and> js_less s s'"
proof (induction n arbitrary: k k' s s')
  case 0
  then show ?case by simp
next
  case (Suc n)
  from Suc.prems have "k div 10 < 10 ^ n" "k' div 10 < 10 ^ n"
    by (simp_all add: div_less_iff_less_mult)
  from Suc.IH [OF this] have "js_less (pad_digits (Suc n) k @ s) (pad_digits (Suc n) k' @ s') \<longleftrightarrow>
      k div 10 < k' div 10 \<or> k div 10 = k' div 10 \<and> (k mod 10 < k' mod 10 \<or> k mod 10 = k' mod 10 \<and> js_less s s')"
    by (simp add: digit_char_less digit_char_inject)
  also have "\<dots> \<longleftrightarrow> k < k' \<or> k = k' \<and> js_less s s'"
    using decimal_less [of "k mod 10" "k' mod 10" "k div 10" "k' div 10" "js_less s s'"] by simp
  finally show ?case .
qed

lemma pad_int_less:
  fixes x x' :: int
  assumes "0 \<le> x" "x < 10 ^ n" "0 \<le> x'" "x' < 10 ^ n"
  shows "js_less (pad_digits n (nat x) @ s) (pad_digits n (nat x') @ s') \<longleftrightarrow> x < x' \<or> x = x' \<and> js_less s s'"
proof -
  have "nat x < 10 ^ n" "nat x' < 10 ^ n"
    using assms by (simp_all add: nat_less_iff)
  then show ?thesis
    using assms by (subst pad_digits_less) (auto simp: nat_less_eq_zless eq_nat_nat_iff)
qed

lemma month_of_year_day_mono: "0 \<le> l \<Longrightarrow> w \<le> w' \<Longrightarrow> month_of_year_day l w \<le> month_of_year_day l w'"
  unfolding month_of_year_day_def by (simp split: if_split)

lemma days_lex:
  assumes "year_from_day d < year_from_day d'
    \<or> year_from_day d = year_from_day d' \<and> (month_from_day d < month_from_day d'
      \<or> month_from_day d = month_from_day d' \<and> date_from_day d < date_from_day d')"
  shows "d < d'"
proof (cases "year_from_day d < year_from_day d'")
  case True
  then have "day_from_year (year_from_day d + 1) \<le> day_from_year (year_from_day d')"
    using day_from_year_mono [of "year_from_day d + 1" "year_from_day d'"] by simp
  then show ?thesis using year_from_day_bounds [of d] year_from_day_bounds [of d'] by linarith
next
  case False
  then have y: "year_from_day d = year_from_day d'" using assms by simp
  have "year_day d < year_day d'"
  proof (cases "month_from_day d < month_from_day d'")
    case True
    then show ?thesis
      using month_of_year_day_mono [of "leap_days (year_from_day d)" "year_day d'" "year_day d"]
        leap_days_bounds [of "year_from_day d"] y
      by (fastforce simp: month_from_day_def)
  next
    case False
    then show ?thesis using assms y by (auto simp: date_from_day_def)
  qed
  then show ?thesis using y by (simp add: year_day_def)
qed

definition time_fields_less :: "int \<Rightarrow> int \<Rightarrow> bool" where
  "time_fields_less t t' \<longleftrightarrow>
     getUTCFullYear t < getUTCFullYear t' \<or> getUTCFullYear t = getUTCFullYear t' \<and>
     (getUTCMonth t < getUTCMonth t' \<or> getUTCMonth t = getUTCMonth t' \<and>
     (getUTCDate t < getUTCDate t' \<or> getUTCDate t = getUTCDate t' \<and>
     (getUTCHours t < getUTCHours t' \<or> getUTCHours t = getUTCHours t' \<and>
     (getUTCMinutes t < getUTCMinutes t' \<or> getUTCMinutes t = getUTCMinutes t' \<and>
     (getUTCSeconds t < getUTCSeconds t' \<or> getUTCSeconds t = getUTCSeconds t' \<and>
      getUTCMilliseconds t < getUTCMilliseconds t')))))"

lemma time_fields_less_imp:
  assumes "time_fields_less t t'"
  shows "t < t'"
proof -
  have "utc_day t < utc_day t' \<or> utc_day t = utc_day t' \<and>
     (getUTCHours t < getUTCHours t' \<or> getUTCHours t = getUTCHours t' \<and>
     (getUTCMinutes t < getUTCMinutes t' \<or> getUTCMinutes t = getUTCMinutes t' \<and>
     (getUTCSeconds t < getUTCSeconds t' \<or> getUTCSeconds t = getUTCSeconds t' \<and>
      getUTCMilliseconds t < getUTCMilliseconds t')))"
    using assms days_lex [of "utc_day t" "utc_day t'"]
      make_day_from_day [of "utc_day t"] make_day_from_day [of "utc_day t'"]
    unfolding time_fields_less_def getUTCFullYear_def getUTCMonth_def getUTCDate_def by metis
  then show ?thesis
  proof (elim disjE conjE)
    assume "utc_day t < utc_day t'"
    then show ?thesis
      using time_of_clock [of t] time_of_clock [of t'] clock_range [of t] clock_range [of t'] by linarith
  qed (use time_of_clock [of t] time_of_clock [of t'] clock_range [of t] clock_range [of t'] in linarith)+
qed

lemma time_fields_less_linear: "time_fields_less t t' \<or> t = t' \<or> time_fields_less t' t"
proof -
  have "getUTCFullYear t = getUTCFullYear t' \<Longrightarrow> getUTCMonth t = getUTCMonth t' \<Longrightarrow>
      getUTCDate t = getUTCDate t' \<Longrightarrow> getUTCHours t = getUTCHours t' \<Longrightarrow>
      getUTCMinutes t = getUTCMinutes t' \<Longrightarrow> getUTCSeconds t = getUTCSeconds t' \<Longrightarrow>
      getUTCMilliseconds t = getUTCMilliseconds t' \<Longrightarrow> t = t'"
    using make_date_fields [of t] make_date_fields [of t'] by metis
  then show ?thesis unfolding time_fields_less_def by (metis linorder_neqE)
qed

lemma time_fields_less_iff: "time_fields_less t t' \<longleftrightarrow> t < t'"
  using time_fields_less_imp [of t t'] time_fields_less_imp [of t' t] time_fields_less_linear [of t t']
  by fastforce

definition four_digit_time :: "int \<Rightarrow> bool" where
  "four_digit_time t \<longleftrightarrow> 0 \<le> getUTCFullYear t \<and> getUTCFullYear t \<le> 9999"

text \<open>ISO strings of four-digit years compare as the times they denote.\<close>

lemma iso_string_less:
  assumes "four_digit_time t" "four_digit_time t'"
  shows "js_less (iso_string t) (iso_string t') \<longleftrightarrow> t < t'"
proof -
  have iso: "iso_string x = pad_digits 4 (nat (getUTCFullYear x)) @ CHR ''-''
      # pad_digits 2 (nat (getUTCMonth x + 1)) @ CHR ''-'' # pad_digits 2 (nat (getUTCDate x)) @ CHR ''T''
      # pad_digits 2 (nat (getUTCHours x)) @ CHR '':'' # pad_digits 2 (nat (getUTCMinutes x)) @ CHR '':''
      # pad_digits 2 (nat (getUTCSeconds x)) @ CHR ''.'' # pad_digits 3 (nat (getUTCMilliseconds x)) @ ''Z''"
    if "four_digit_time x" for x
    using that by (simp add: iso_string_def iso_year_def four_digit_time_def)
  have range: "0 \<le> getUTCFullYear x" "getUTCFullYear x < 10 ^ 4" "0 \<le> getUTCMonth x + 1" "getUTCMonth x + 1 < 10 ^ 2"
    "0 \<le> getUTCDate x" "getUTCDate x < 10 ^ 2" "0 \<le> getUTCHours x" "getUTCHours x < 10 ^ 2"
    "0 \<le> getUTCMinutes x" "getUTCMinutes x < 10 ^ 2" "0 \<le> getUTCSeconds x" "getUTCSeconds x < 10 ^ 2"
    "0 \<le> getUTCMilliseconds x" "getUTCMilliseconds x < 10 ^ 3"
    if "four_digit_time x" for x
    using that clock_range [of x] month_from_day_bounds [of "utc_day x"] date_from_day_bounds [of "utc_day x"]
    by (simp_all add: four_digit_time_def getUTCMonth_def getUTCDate_def)
  note less = pad_int_less [OF range(1,2) [OF assms(1)] range(1,2) [OF assms(2)]]
    pad_int_less [OF range(3,4) [OF assms(1)] range(3,4) [OF assms(2)]]
    pad_int_less [OF range(5,6) [OF assms(1)] range(5,6) [OF assms(2)]]
    pad_int_less [OF range(7,8) [OF assms(1)] range(7,8) [OF assms(2)]]
    pad_int_less [OF range(9,10) [OF assms(1)] range(9,10) [OF assms(2)]]
    pad_int_less [OF range(11,12) [OF assms(1)] range(11,12) [OF assms(2)]]
    pad_int_less [OF range(13,14) [OF assms(1)] range(13,14) [OF assms(2)]]
  have "js_less (iso_string t) (iso_string t') \<longleftrightarrow> time_fields_less t t'"
    unfolding iso [OF assms(1)] iso [OF assms(2)] less js_less.simps time_fields_less_def by (simp only: add_less_cancel_right add_right_cancel) simp
  then show ?thesis by (simp add: time_fields_less_iff)
qed

lemma iso_string_le:
  "four_digit_time t \<Longrightarrow> four_digit_time t' \<Longrightarrow> js_le (iso_string t) (iso_string t') \<longleftrightarrow> t \<le> t'"
  by (simp add: js_le_def iso_string_less not_less)

text \<open>The comparison of two strings by code units as a comparator of \<open>sort\<close>.\<close>

definition code_unit_compare :: "string \<Rightarrow> string \<Rightarrow> int" where
  "code_unit_compare a b = (if js_less a b then -1 else if a = b then 0 else 1)"

lemma code_unit_le: "code_unit_compare a b \<le> 0 \<longleftrightarrow> js_le a b"
  using js_less_linear [of a b] by (auto simp: code_unit_compare_def js_le_def dest: js_less_trans)

lemma code_unit_sorted: "sorted_wrt js_le (js_sort code_unit_compare xs)"
proof -
  have "js_comparator code_unit_compare"
    using js_le_total js_le_trans unfolding js_comparator_def code_unit_le by blast
  from js_sort_sorted [OF this] show ?thesis by (simp add: code_unit_le)
qed

end
