(* ===== verification/Workspace_Rows.thy ===== *)
theory Workspace_Rows
  imports Js_Date
begin

text \<open>
  The rows of the Workspace ledger and the predicates over them that the in-memory store and
  the SQL store of \<open>core/domains/deploy-control/store.ts\<close> share: management authority
  (state and epoch), membership evidence, and the checks a replacement, a membership
  mutation, an owner repair and a bootstrap pass before they write. A row is a record with
  the fields the store reads; what remains of it is one string, its stable serialisation,
  because the store only compares whole rows. An error is a value of
  \<open>store_error\<close>; as the source throws before it writes, an error carries no state.
\<close>

section \<open>Rows\<close>

datatype management_state = Active | Draining | Frozen | Released

record management =
  mgmt_workspaceId :: string
  managementState :: management_state
  managementEpoch :: int

record workspace =
  ws_id :: string
  ws_handle :: string
  ws_displayName :: string
  ws_type :: string
  ws_ownerUserId :: string
  ws_archivedAt :: "string option"
  ws_createdAt :: string
  ws_updatedAt :: string
  ws_rest :: string

record member =
  mem_id :: string
  mem_workspaceId :: string
  mem_accountId :: string
  mem_roles :: "string list"
  mem_status :: string
  mem_createdAt :: string
  mem_updatedAt :: string

datatype store_error =
    TypeError string
  | PlainError string
  | RangeError string
  | WorkspaceMemberRowError string
  | WorkspaceManagementAdmissionConflictError string
  | CapsuleApplyRunAdmissionConflictError "string option"
  | CapsulePlanCreationFenceConflictError string
  | PlanRunPreparationConflictError string

section \<open>Management authority\<close>

fun validWorkspaceManagementState :: "string \<Rightarrow> management_state option" where
  "validWorkspaceManagementState v =
     (if v = ''active'' then Some Active else if v = ''draining'' then Some Draining
      else if v = ''frozen'' then Some Frozen else if v = ''released'' then Some Released
      else None)"

definition normalizeWorkspaceManagement ::
    "string \<Rightarrow> string \<Rightarrow> int option \<Rightarrow> store_error + management" where
  "normalizeWorkspaceManagement workspaceId state epoch =
     (case (validWorkspaceManagementState state, epoch) of
        (Some st, Some n) \<Rightarrow>
          if is_safe_integer n \<and> 1 \<le> n
          then Inr \<lparr>mgmt_workspaceId = workspaceId, managementState = st, managementEpoch = n\<rparr>
          else Inl (TypeError (''Workspace '' @ workspaceId @ '' management state is invalid''))
      | _ \<Rightarrow> Inl (TypeError (''Workspace '' @ workspaceId @ '' management state is invalid'')))"

definition assertWorkspaceFreezeExpectation :: "management \<Rightarrow> store_error + unit" where
  "assertWorkspaceFreezeExpectation expected =
     throw_if (js_blank (mgmt_workspaceId expected) \<or> managementState expected \<noteq> Draining
         \<or> \<not> is_safe_integer (managementEpoch expected) \<or> managementEpoch expected < 1)
       (TypeError ''Workspace freeze requires one exact draining management observation'')"

definition assertWorkspaceManagementAuthorityInput ::
    "management \<Rightarrow> string \<Rightarrow> store_error + unit" where
  "assertWorkspaceManagementAuthorityInput expected workspaceId =
     throw_if (js_blank (mgmt_workspaceId expected) \<or> mgmt_workspaceId expected \<noteq> workspaceId
         \<or> managementState expected \<noteq> Active
         \<or> \<not> is_safe_integer (managementEpoch expected) \<or> managementEpoch expected < 1)
       (TypeError (''Workspace '' @ workspaceId @ '' management authority expectation is invalid''))"

definition assertWorkspaceManagementAdmission ::
    "management option \<Rightarrow> string \<Rightarrow> management option \<Rightarrow> store_error + management" where
  "assertWorkspaceManagementAdmission actual workspaceId expected =
     chain (case expected of None \<Rightarrow> Inr ()
            | Some e \<Rightarrow> assertWorkspaceManagementAuthorityInput e workspaceId)
       (\<lambda>_. case actual of
          None \<Rightarrow> Inl (WorkspaceManagementAdmissionConflictError workspaceId)
        | Some a \<Rightarrow>
            if mgmt_workspaceId a \<noteq> workspaceId \<or> managementState a \<noteq> Active
               \<or> (case expected of None \<Rightarrow> False | Some e \<Rightarrow> managementEpoch a \<noteq> managementEpoch e)
            then Inl (WorkspaceManagementAdmissionConflictError workspaceId)
            else Inr a)"

section \<open>Membership evidence\<close>

definition isCanonicalMemberTimestamp :: "string \<Rightarrow> bool" where
  "isCanonicalMemberTimestamp v =
     (case date_parse v of None \<Rightarrow> False | Some t \<Rightarrow> iso_string t = v)"

definition isWorkspaceRole :: "string \<Rightarrow> bool" where
  "isWorkspaceRole r \<longleftrightarrow> r \<in> {''owner'', ''admin'', ''member'', ''viewer''}"

definition isWorkspaceMemberStatus :: "string \<Rightarrow> bool" where
  "isWorkspaceMemberStatus v \<longleftrightarrow> v \<in> {''active'', ''invited'', ''suspended''}"

definition parseWorkspaceMemberRecord :: "member \<Rightarrow> store_error + member" where
  "parseWorkspaceMemberRecord m =
     (if mem_id m = [] \<or> \<not> isWorkspaceMemberStatus (mem_status m)
         \<or> \<not> list_all isWorkspaceRole (mem_roles m) \<or> \<not> distinct (mem_roles m)
         \<or> \<not> isCanonicalMemberTimestamp (mem_createdAt m)
         \<or> \<not> isCanonicalMemberTimestamp (mem_updatedAt m)
      then Inl (WorkspaceMemberRowError ''Workspace membership evidence is malformed'')
      else Inr m)"

definition has_role :: "string \<Rightarrow> member \<Rightarrow> bool" where
  "has_role r m \<longleftrightarrow> r \<in> set (mem_roles m)"

definition isCanonicalActiveWorkspaceOwner :: "member \<Rightarrow> bool" where
  "isCanonicalActiveWorkspaceOwner m =
     (case parseWorkspaceMemberRecord m of Inl _ \<Rightarrow> False
      | Inr m \<Rightarrow> mem_status m = ''active'' \<and> has_role ''owner'' m)"

record account_authority =
  actorAccountId :: string
  aa_expectedWorkspace :: workspace
  aa_expectedActor :: "member option"
  requireCurrentMembership :: bool

definition workspaceAccountAuthorityAllowed :: "account_authority \<Rightarrow> store_error + bool" where
  "workspaceAccountAuthorityAllowed input =
     (if actorAccountId input = [] then Inr False
      else if \<not> requireCurrentMembership input
           \<and> ws_ownerUserId (aa_expectedWorkspace input) = actorAccountId input then Inr True
      else case aa_expectedActor input of
          None \<Rightarrow> Inr False
        | Some actor \<Rightarrow> chain (parseWorkspaceMemberRecord actor) (\<lambda>_.
            Inr (mem_accountId actor = actorAccountId input
              \<and> mem_workspaceId actor = ws_id (aa_expectedWorkspace input)
              \<and> mem_status actor = ''active''
              \<and> (has_role ''owner'' actor \<or> has_role ''admin'' actor))))"

record replacement_input =
  ri_workspace :: workspace
  ri_expectedWorkspace :: workspace
  ri_authority :: management

definition validateWorkspaceReplacement :: "replacement_input \<Rightarrow> store_error + unit" where
  "validateWorkspaceReplacement input =
     (let w = ri_workspace input; e = ri_expectedWorkspace input in
      chain (assertWorkspaceManagementAuthorityInput (ri_authority input) (ws_id w)) (\<lambda>_.
        if ws_id w \<noteq> ws_id e then Inl (TypeError ''Workspace replacement cannot change id'')
        else if ws_handle w \<noteq> ws_handle e then Inl (TypeError ''Workspace replacement cannot change handle'')
        else if ws_type w \<noteq> ws_type e then Inl (TypeError ''Workspace replacement cannot change type'')
        else if ws_ownerUserId w \<noteq> ws_ownerUserId e
          then Inl (TypeError ''Workspace replacement cannot change ownerUserId'')
        else if ws_createdAt w \<noteq> ws_createdAt e
          then Inl (TypeError ''Workspace replacement cannot change createdAt'')
        else Inr ()))"

record repair_input =
  mi_authority :: management
  mi_expectedWorkspace :: workspace
  mi_expectedMember :: "member option"
  mi_member :: member

record mutation_input = repair_input +
  mi_expectedActor :: member
  mi_requiredActorRole :: "string option"

definition validateWorkspaceMemberReplacement ::
    "('a) repair_input_scheme \<Rightarrow> store_error + unit" where
  "validateWorkspaceMemberReplacement input =
     (let m = mi_member input in
      chain (parseWorkspaceMemberRecord m) (\<lambda>_.
      chain (case mi_expectedMember input of None \<Rightarrow> Inr m | Some em \<Rightarrow> parseWorkspaceMemberRecord em) (\<lambda>_.
      chain (assertWorkspaceManagementAuthorityInput (mi_authority input) (mem_workspaceId m)) (\<lambda>_.
        throw_if (ws_id (mi_expectedWorkspace input) \<noteq> mem_workspaceId m
            \<or> (case mi_expectedMember input of None \<Rightarrow> False
               | Some em \<Rightarrow> mem_workspaceId em \<noteq> mem_workspaceId m \<or> mem_accountId em \<noteq> mem_accountId m
                   \<or> mem_id em \<noteq> mem_id m \<or> mem_createdAt em \<noteq> mem_createdAt m)
            \<or> mem_roles m = []
            \<or> list_ex (\<lambda>r. \<not> isWorkspaceRole r) (mem_roles m)
            \<or> \<not> isWorkspaceMemberStatus (mem_status m))
          (TypeError ''Workspace membership replacement is invalid'')))))"

definition workspaceMemberMutationAllowed :: "mutation_input \<Rightarrow> store_error + bool" where
  "workspaceMemberMutationAllowed input =
     (let actor = mi_expectedActor input; m = mi_member input in
      chain (parseWorkspaceMemberRecord actor) (\<lambda>_.
        Inr (mem_workspaceId actor = mem_workspaceId m \<and> mem_status actor = ''active''
          \<and> (has_role ''owner'' actor \<or> has_role ''admin'' actor)
          \<and> (mi_requiredActorRole input \<noteq> Some ''owner'' \<or> has_role ''owner'' actor)
          \<and> (\<not> (has_role ''owner'' m
                 \<or> (case mi_expectedMember input of None \<Rightarrow> False | Some c \<Rightarrow> has_role ''owner'' c))
             \<or> has_role ''owner'' actor)
          \<and> (mem_accountId m \<noteq> ws_ownerUserId (mi_expectedWorkspace input)
             \<or> mem_status m = ''active'' \<and> has_role ''owner'' m))))"

definition workspaceMemberMutationDropsOwner :: "('a) repair_input_scheme \<Rightarrow> bool" where
  "workspaceMemberMutationDropsOwner input =
     (case mi_expectedMember input of None \<Rightarrow> False
      | Some em \<Rightarrow> mem_status em = ''active'' \<and> has_role ''owner'' em
          \<and> (mem_status (mi_member input) \<noteq> ''active'' \<or> \<not> has_role ''owner'' (mi_member input)))"

definition validateWorkspaceOwnerMemberRepair ::
    "('a) repair_input_scheme \<Rightarrow> store_error + unit" where
  "validateWorkspaceOwnerMemberRepair input =
     chain (validateWorkspaceMemberReplacement input) (\<lambda>_.
       throw_if (mem_accountId (mi_member input) \<noteq> ws_ownerUserId (mi_expectedWorkspace input)
           \<or> mem_status (mi_member input) \<noteq> ''active'' \<or> mem_roles (mi_member input) \<noteq> [''owner''])
         (TypeError ''Workspace owner repair must derive the stored namespace owner''))"

definition initial_authority :: "string \<Rightarrow> management" where
  "initial_authority workspaceId =
     \<lparr>mgmt_workspaceId = workspaceId, managementState = Active, managementEpoch = 1\<rparr>"

definition validateWorkspaceInitialOwner :: "workspace \<Rightarrow> member \<Rightarrow> store_error + unit" where
  "validateWorkspaceInitialOwner candidate m =
     chain (throw_if (mem_createdAt m \<noteq> ws_createdAt candidate \<or> mem_updatedAt m \<noteq> ws_updatedAt candidate)
              (TypeError ''Initial member must match the new Workspace candidate'')) (\<lambda>_.
       validateWorkspaceOwnerMemberRepair
         \<lparr>mi_authority = initial_authority (ws_id candidate), mi_expectedWorkspace = candidate,
          mi_expectedMember = None, mi_member = m\<rparr>)"

definition validatePersonalWorkspaceBootstrapOwnerMember ::
    "string \<Rightarrow> workspace \<Rightarrow> member \<Rightarrow> store_error + unit" where
  "validatePersonalWorkspaceBootstrapOwnerMember ownerUserId candidate m =
     chain (throw_if (ws_ownerUserId candidate \<noteq> ownerUserId \<or> ws_type candidate \<noteq> ''personal''
               \<or> mem_createdAt m \<noteq> ws_createdAt candidate \<or> mem_updatedAt m \<noteq> ws_updatedAt candidate)
              (TypeError ''Personal bootstrap member must match the new owner candidate''))
       (\<lambda>_. validateWorkspaceInitialOwner candidate m)"

definition sharedWorkspaceCreationAllowed :: "workspace \<Rightarrow> workspace \<Rightarrow> member option \<Rightarrow> bool" where
  "sharedWorkspaceCreationAllowed current candidate m \<longleftrightarrow>
     ws_handle current = ws_handle candidate \<and> ws_displayName current = ws_displayName candidate
     \<and> ws_type current = ws_type candidate \<and> ws_ownerUserId current = ws_ownerUserId candidate
     \<and> (case m of None \<Rightarrow> False
        | Some m \<Rightarrow> mem_workspaceId m = ws_id current \<and> mem_accountId m = ws_ownerUserId current
            \<and> isCanonicalActiveWorkspaceOwner m)"
section \<open>Lemmas\<close>

lemma management_eqI [intro?]:
  "mgmt_workspaceId a = mgmt_workspaceId b \<Longrightarrow> managementState a = managementState b \<Longrightarrow>
   managementEpoch a = managementEpoch b \<Longrightarrow> (a :: management) = b"
  by (cases a; cases b) simp

text \<open>What an admitted write has observed.\<close>

lemma admission_iff:
  "assertWorkspaceManagementAdmission actual k (Some e) = Inr a \<longleftrightarrow>
     actual = Some a \<and> mgmt_workspaceId a = k \<and> managementState a = Active
     \<and> managementEpoch a = managementEpoch e \<and> mgmt_workspaceId e = k \<and> managementState e = Active
     \<and> \<not> js_blank k \<and> is_safe_integer (managementEpoch e) \<and> 1 \<le> managementEpoch e"
  by (auto simp: assertWorkspaceManagementAdmission_def assertWorkspaceManagementAuthorityInput_def
      chain_Inr_iff split: option.splits if_splits)

lemma authority_input_iff:
  "assertWorkspaceManagementAuthorityInput e k = Inr u \<longleftrightarrow>
     \<not> js_blank k \<and> mgmt_workspaceId e = k \<and> managementState e = Active
     \<and> is_safe_integer (managementEpoch e) \<and> 1 \<le> managementEpoch e"
  by (auto simp: assertWorkspaceManagementAuthorityInput_def)

lemma validated_member_owner:
  "validateWorkspaceMemberReplacement input = Inr u \<Longrightarrow>
   isCanonicalActiveWorkspaceOwner (mi_member input) \<longleftrightarrow>
     mem_status (mi_member input) = ''active'' \<and> has_role ''owner'' (mi_member input)"
  by (auto simp: validateWorkspaceMemberReplacement_def isCanonicalActiveWorkspaceOwner_def Let_def
      parseWorkspaceMemberRecord_def split: if_splits)

lemma owner_status_role:
  "isCanonicalActiveWorkspaceOwner m \<Longrightarrow> mem_status m = ''active'' \<and> has_role ''owner'' m"
  by (auto simp: isCanonicalActiveWorkspaceOwner_def parseWorkspaceMemberRecord_def split: if_splits)

end
