(* ===== verification/Financial_Source.thy ===== *)
theory Financial_Source
  imports Workspace_Rows
begin

text \<open>
  \<open>MemoryWorkspaceFinancialSource\<close> of \<open>core/domains/workspaces/financial-source.ts\<close>:
  the journal of permission changes of an enrolled Workspace, its materialisation into a
  digest chain, and the receipts of the enrolled receivers. A JSON text the source keeps
  (the payload of an event, the billing binding of a head) is represented by the value it
  serialises; digests are strings the callers supply, as in the source.

  Lemmas: an inductive step relation over the four mutators and an invariant that every
  step keeps: the events of a source are numbered without gap and linked to their
  predecessor, the materialised prefix is a digest chain from the genesis digest, a receipt
  exists only behind the receipts of all earlier events, and a closed source never changes
  again. From it: a snapshot is only handed out when every event of the source has been
  materialised and acknowledged by every required receiver.
\<close>

section \<open>Rows\<close>

record billing_intent =
  bb_intentId :: string
  bb_workspaceId :: string
  bb_billingAuthority :: string
  bb_workspaceRef :: string
  bb_workspaceCreatedAt :: string
  bb_actorAccountId :: string
  bb_managementEpoch :: int
  bb_createdAt :: string

record billing_binding = billing_intent +
  bb_organizationRef :: string
  bb_ownerAcknowledgementRef :: string
  bb_boundAt :: string

record fin_candidate =
  fc_workspace :: workspace
  fc_management :: management
  fc_binding :: billing_binding
  fc_members :: "member list"

record fin_receiver =
  receiverRef :: string
  targetRef :: string

record fin_registration =
  reg_sourceRef :: string
  reg_incarnation :: string
  genesisDigest :: string
  requiredReceivers :: "fin_receiver list"

record fin_head = fin_registration +
  fh_workspaceId :: string
  workspaceCreatedAt :: string
  fh_organizationRef :: string
  fh_workspaceRef :: string
  bindingIntentId :: string
  fh_binding :: billing_binding
  permissionSequence :: int
  lastEventRef :: "string option"
  fh_managementState :: management_state
  fh_closed :: bool
  materializedSequence :: int
  materializedDigest :: string
  enrolledAt :: string

datatype fin_kind = MemberInsert | MemberUpdate | MemberDelete
  | WorkspaceUpdate | WorkspaceDelete | ManagementUpdate

datatype fin_value = FWorkspace workspace | FMember member | FManagement management

type_synonym fin_payload = "fin_value option \<times> fin_value option"

record fin_event =
  eventRef :: string
  fe_sourceRef :: string
  fe_incarnation :: string
  fe_workspaceId :: string
  fe_sequence :: int
  previousEventRef :: "string option"
  fe_kind :: fin_kind
  fe_payload :: fin_payload
  fe_closed :: bool
  fe_recordedAt :: string

record fin_materialization =
  fm_eventRef :: string
  fm_sourceRef :: string
  fm_incarnation :: string
  fm_sequence :: int
  fm_payload :: fin_payload
  previousDigest :: string
  wireJson :: string
  fm_digest :: string

record fin_receipt =
  fr_eventRef :: string
  fr_sourceRef :: string
  fr_incarnation :: string
  fr_sequence :: int
  fr_receiverRef :: string
  fr_targetRef :: string
  fr_digest :: string
  receiptRef :: string
  receiptJson :: string

record financial_source =
  fin_heads :: "(string, fin_head) js_map"
  fin_enrollments :: "(string, fin_candidate) js_map"
  fin_events :: "(string, fin_event) js_map"
  fin_materializations :: "(string, fin_materialization) js_map"
  fin_receipts :: "(string \<times> string, fin_receipt) js_map"
  fin_materializationHeads :: "(string, fin_head) js_map"

definition empty_financial_source :: financial_source where
  "empty_financial_source = \<lparr>fin_heads = [], fin_enrollments = [], fin_events = [],
     fin_materializations = [], fin_receipts = [], fin_materializationHeads = []\<rparr>"

section \<open>Validation\<close>

definition page_limit :: int where
  "page_limit = 64"

definition alnum :: "char \<Rightarrow> bool" where
  "alnum c \<longleftrightarrow> (let n = (of_char c :: nat) in 48 \<le> n \<and> n \<le> 57 \<or> 65 \<le> n \<and> n \<le> 90 \<or> 97 \<le> n \<and> n \<le> 122)"

definition reference_ok :: "string \<Rightarrow> bool" where
  "reference_ok v \<longleftrightarrow> v \<noteq> [] \<and> alnum (hd v) \<and> length v \<le> 256
     \<and> list_all (\<lambda>c. alnum c \<or> c \<in> set ''._:/-'') (tl v)"

definition workspaceFinancialReference :: "string \<Rightarrow> store_error + string" where
  "workspaceFinancialReference v =
     (if \<not> reference_ok v then Inl (TypeError ''Exact Workspace financial source reference required'')
      else Inr v)"

definition workspaceFinancialPage :: "int \<Rightarrow> int \<Rightarrow> store_error + unit" where
  "workspaceFinancialPage afterSequence limit =
     throw_if (\<not> is_safe_integer afterSequence \<or> afterSequence < 0
         \<or> \<not> is_safe_integer limit \<or> limit < 1 \<or> page_limit < limit)
       (TypeError ''Bounded Workspace financial source cursor required'')"

definition is_digest :: "string \<Rightarrow> bool" where
  "is_digest v \<longleftrightarrow> length v = 64 \<and> list_all (\<lambda>c. c \<in> set ''0123456789abcdef'') v"

fun check_receivers :: "fin_receiver list \<Rightarrow> store_error + fin_receiver list" where
  "check_receivers [] = Inr []"
| "check_receivers (r # rs) =
     chain (workspaceFinancialReference (receiverRef r)) (\<lambda>a.
     chain (workspaceFinancialReference (targetRef r)) (\<lambda>b.
     chain (check_receivers rs) (\<lambda>rs. Inr (\<lparr>receiverRef = a, targetRef = b\<rparr> # rs))))"

definition workspaceFinancialRegistration :: "fin_registration \<Rightarrow> store_error + fin_registration" where
  "workspaceFinancialRegistration input =
     chain (workspaceFinancialReference (reg_sourceRef input)) (\<lambda>_.
     if 220 < length (reg_sourceRef input)
     then Inl (TypeError ''Bounded original source/event reference required'')
     else chain (workspaceFinancialReference (reg_incarnation input)) (\<lambda>_.
     if \<not> is_digest (genesisDigest input) \<or> length (requiredReceivers input) < 1
        \<or> 8 < length (requiredReceivers input)
     then Inl (TypeError ''Qualified original source genesis/complete receiver set required'')
     else chain (check_receivers (requiredReceivers input)) (\<lambda>result.
     if \<not> distinct (map receiverRef result)
     then Inl (TypeError ''Distinct original receiver set required'')
     else Inr \<lparr>reg_sourceRef = reg_sourceRef input, reg_incarnation = reg_incarnation input,
               genesisDigest = genesisDigest input, requiredReceivers = result\<rparr>)))"

definition candidateAllowed :: "fin_candidate option \<Rightarrow> bool" where
  "candidateAllowed c =
     (case c of None \<Rightarrow> False
      | Some c \<Rightarrow> managementState (fc_management c) = Active
          \<and> ws_archivedAt (fc_workspace c) \<in> {None, Some []}
          \<and> 0 < length (fc_members c) \<and> int (length (fc_members c)) \<le> page_limit
          \<and> bb_workspaceId (fc_binding c) = ws_id (fc_workspace c)
          \<and> list_all (\<lambda>m. mem_workspaceId m = ws_id (fc_workspace c)) (fc_members c))"

text \<open>The length in bytes of the UTF-8 encoding of a string of the modelled characters.\<close>

definition utf8_length :: "string \<Rightarrow> nat" where
  "utf8_length v = sum_list (map (\<lambda>c. if (of_char c :: nat) < 128 then 1 else 2) v)"

record materialization_input =
  mat_original :: fin_event
  mat_expectedHead :: fin_head
  mat_materialization :: fin_materialization

definition materializationMatches :: "materialization_input \<Rightarrow> bool" where
  "materializationMatches input \<longleftrightarrow>
     (let e = mat_original input; h = mat_expectedHead input; m = mat_materialization input in
      is_safe_integer (fe_sequence e) \<and> 0 < fe_sequence e
      \<and> fm_eventRef m = eventRef e \<and> fm_sourceRef m = fe_sourceRef e \<and> fm_incarnation m = fe_incarnation e
      \<and> fm_sequence m = fe_sequence e \<and> fm_payload m = fe_payload e
      \<and> fh_workspaceId h = fe_workspaceId e \<and> reg_sourceRef h = fe_sourceRef e
      \<and> reg_incarnation h = fe_incarnation e
      \<and> materializedSequence h = fe_sequence e - 1 \<and> previousDigest m = materializedDigest h
      \<and> is_digest (fm_digest m) \<and> is_digest (previousDigest m) \<and> utf8_length (wireJson m) \<le> 16384)"

definition newHead :: "fin_candidate \<Rightarrow> fin_registration \<Rightarrow> string \<Rightarrow> fin_head" where
  "newHead original registration at =
     \<lparr>reg_sourceRef = reg_sourceRef registration, reg_incarnation = reg_incarnation registration,
      genesisDigest = genesisDigest registration, requiredReceivers = requiredReceivers registration,
      fh_workspaceId = ws_id (fc_workspace original), workspaceCreatedAt = ws_createdAt (fc_workspace original),
      fh_organizationRef = bb_organizationRef (fc_binding original),
      fh_workspaceRef = bb_workspaceRef (fc_binding original),
      bindingIntentId = bb_intentId (fc_binding original), fh_binding = fc_binding original,
      permissionSequence = 0, lastEventRef = None,
      fh_managementState = managementState (fc_management original), fh_closed = False,
      materializedSequence = 0, materializedDigest = genesisDigest registration, enrolledAt = at\<rparr>"

section \<open>Operations\<close>

definition enroll ::
    "fin_candidate option \<Rightarrow> fin_candidate \<Rightarrow> fin_registration \<Rightarrow> string \<Rightarrow> financial_source
     \<Rightarrow> store_error + (fin_head option \<times> financial_source)" where
  "enroll current original reg at fs =
     chain (workspaceFinancialRegistration reg) (\<lambda>registration.
     case js_get (fin_heads fs) (ws_id (fc_workspace original)) of
       Some existing \<Rightarrow>
         Inr (if js_get (fin_enrollments fs) (fh_workspaceId existing) = Some original
                 \<and> fin_registration.truncate existing = registration
              then Some existing else None, fs)
     | None \<Rightarrow>
         if \<not> candidateAllowed current \<or> current \<noteq> Some original
            \<or> list_ex (\<lambda>h. reg_sourceRef h = reg_sourceRef registration) (js_values (fin_heads fs))
         then Inr (None, fs)
         else
           (let head = newHead original registration at in
            Inr (Some head, fs\<lparr>fin_enrollments := js_set (fh_workspaceId head) original (fin_enrollments fs),
                               fin_heads := js_set (fh_workspaceId head) head (fin_heads fs)\<rparr>)))"

definition fin_event_ref :: "string \<Rightarrow> int \<Rightarrow> string" where
  "fin_event_ref sourceRef n = sourceRef @ ''/event/'' @ show_int n"

text \<open>\<open>record\<close> at the clock reading \<open>now\<close>.\<close>

definition fin_record ::
    "string \<Rightarrow> string \<Rightarrow> fin_kind \<Rightarrow> fin_value option \<Rightarrow> fin_value option \<Rightarrow> management_state option
     \<Rightarrow> financial_source \<Rightarrow> store_error + financial_source" where
  "fin_record now workspaceId kind before after mstate fs =
     (case js_get (fin_heads fs) workspaceId of
        None \<Rightarrow> Inr fs
      | Some head \<Rightarrow>
          if before = after then Inr fs
          else if fh_closed head then
            (if kind = MemberDelete then Inr fs
             else Inl (PlainError ''Financial source is permanently closed''))
          else if \<not> is_safe_integer (permissionSequence head + 1)
            then Inl (PlainError ''Financial source sequence exhausted'')
          else
            (let n = permissionSequence head + 1;
                 ref = fin_event_ref (reg_sourceRef head) n;
                 ev = \<lparr>eventRef = ref, fe_sourceRef = reg_sourceRef head,
                       fe_incarnation = reg_incarnation head, fe_workspaceId = workspaceId,
                       fe_sequence = n, previousEventRef = lastEventRef head, fe_kind = kind,
                       fe_payload = (before, after), fe_closed = (kind = WorkspaceDelete),
                       fe_recordedAt = now\<rparr>
             in Inr (fs\<lparr>fin_events := js_set ref ev (fin_events fs),
                        fin_heads := js_set workspaceId
                          (head\<lparr>permissionSequence := n, lastEventRef := Some ref, fh_closed := fe_closed ev,
                                fh_managementState := (case mstate of None \<Rightarrow> fh_managementState head | Some m \<Rightarrow> m)\<rparr>)
                          (fin_heads fs)\<rparr>)))"

definition hasReceipt :: "financial_source \<Rightarrow> string \<Rightarrow> string \<Rightarrow> bool" where
  "hasReceipt fs e r \<longleftrightarrow> js_has (fin_receipts fs) (e, r)"

definition acknowledged :: "financial_source \<Rightarrow> fin_head \<Rightarrow> bool" where
  "acknowledged fs head \<longleftrightarrow> permissionSequence head = 0
     \<or> (case lastEventRef head of None \<Rightarrow> False
        | Some ref \<Rightarrow> list_all (\<lambda>r. hasReceipt fs ref (receiverRef r)) (requiredReceivers head))"

record fin_snapshot =
  sn_workspace :: workspace
  sn_member :: member
  sn_binding :: billing_binding
  sn_management :: management
  sn_head :: fin_head

definition snapshot :: "financial_source \<Rightarrow> fin_candidate option \<Rightarrow> string \<Rightarrow> fin_snapshot option" where
  "snapshot fs candidate actor =
     (case candidate of None \<Rightarrow> None
      | Some c \<Rightarrow>
        (case (js_get (fin_heads fs) (ws_id (fc_workspace c)),
               List.find (\<lambda>m. mem_accountId m = actor \<and> mem_status m = ''active'') (fc_members c)) of
           (Some head, Some m) \<Rightarrow>
             if \<not> candidateAllowed candidate \<or> fh_closed head
                \<or> workspaceCreatedAt head \<noteq> ws_createdAt (fc_workspace c)
                \<or> fh_binding head \<noteq> fc_binding c
                \<or> permissionSequence head \<noteq> materializedSequence head \<or> \<not> acknowledged fs head
             then None
             else Some \<lparr>sn_workspace = fc_workspace c, sn_member = m, sn_binding = fc_binding c,
                        sn_management = fc_management c, sn_head = head\<rparr>
         | _ \<Rightarrow> None))"

definition materialize :: "materialization_input \<Rightarrow> financial_source \<Rightarrow> bool \<times> financial_source" where
  "materialize input fs =
     (let e = mat_original input; m = mat_materialization input in
      if \<not> materializationMatches input \<or> js_get (fin_events fs) (eventRef e) \<noteq> Some e then (False, fs)
      else case js_get (fin_materializations fs) (eventRef e) of
        Some existing \<Rightarrow>
          (existing = m \<and> js_get (fin_materializationHeads fs) (eventRef e) = Some (mat_expectedHead input), fs)
      | None \<Rightarrow>
          (case js_get (fin_heads fs) (fe_workspaceId e) of
             None \<Rightarrow> (False, fs)
           | Some head \<Rightarrow>
               if head \<noteq> mat_expectedHead input then (False, fs)
               else if 1 < fe_sequence e
                 \<and> (case Option.bind (previousEventRef e) (js_get (fin_materializations fs)) of
                      None \<Rightarrow> True
                    | Some p \<Rightarrow> fm_sequence p \<noteq> fe_sequence e - 1 \<or> fm_digest p \<noteq> previousDigest m)
               then (False, fs)
               else (True, fs\<lparr>fin_materializations := js_set (eventRef e) m (fin_materializations fs),
                      fin_materializationHeads :=
                        js_set (eventRef e) (mat_expectedHead input) (fin_materializationHeads fs),
                      fin_heads := js_set (fh_workspaceId head)
                        (head\<lparr>materializedSequence := fe_sequence e, materializedDigest := fm_digest m\<rparr>)
                        (fin_heads fs)\<rparr>)))"

definition receipt :: "fin_receipt \<Rightarrow> financial_source \<Rightarrow> bool \<times> financial_source" where
  "receipt input fs =
     (case (js_get (fin_events fs) (fr_eventRef input), js_get (fin_materializations fs) (fr_eventRef input)) of
        (Some event, Some m) \<Rightarrow>
          (case js_get (fin_heads fs) (fe_workspaceId event) of
             None \<Rightarrow> (False, fs)
           | Some head \<Rightarrow>
               if fe_sourceRef event \<noteq> fr_sourceRef input \<or> fe_incarnation event \<noteq> fr_incarnation input
                  \<or> fe_sequence event \<noteq> fr_sequence input \<or> fm_digest m \<noteq> fr_digest input
                  \<or> \<not> list_ex (\<lambda>r. receiverRef r = fr_receiverRef input \<and> targetRef r = fr_targetRef input)
                        (requiredReceivers head)
               then (False, fs)
               else if 1 < fe_sequence event
                 \<and> (case previousEventRef event of None \<Rightarrow> True
                    | Some p \<Rightarrow>
                        (case js_get (fin_receipts fs) (p, fr_receiverRef input) of None \<Rightarrow> True
                         | Some prior \<Rightarrow> fr_targetRef prior \<noteq> fr_targetRef input
                             \<or> fr_sequence prior \<noteq> fe_sequence event - 1
                             \<or> fr_incarnation prior \<noteq> fr_incarnation input))
               then (False, fs)
               else (case js_get (fin_receipts fs) (fr_eventRef input, fr_receiverRef input) of
                       Some existing \<Rightarrow> (existing = input, fs)
                     | None \<Rightarrow> (True, fs\<lparr>fin_receipts :=
                         js_set (fr_eventRef input, fr_receiverRef input) input (fin_receipts fs)\<rparr>)))
      | _ \<Rightarrow> (False, fs))"

text \<open>The pages the store reads: events after a sequence number, and materialised events a
  receiver has not acknowledged, both in sequence order.\<close>

definition listRawEvents ::
    "string \<Rightarrow> int \<Rightarrow> int \<Rightarrow> financial_source \<Rightarrow> store_error + fin_event list" where
  "listRawEvents workspaceId afterSequence limit fs =
     chain (workspaceFinancialPage afterSequence limit) (\<lambda>_.
       Inr (take (nat limit) (js_sort (\<lambda>a b. fe_sequence a - fe_sequence b)
         (filter (\<lambda>e. fe_workspaceId e = workspaceId \<and> afterSequence < fe_sequence e)
           (js_values (fin_events fs))))))"

definition listPendingEvents ::
    "string \<Rightarrow> string \<Rightarrow> int \<Rightarrow> int \<Rightarrow> financial_source \<Rightarrow> store_error + fin_materialization list" where
  "listPendingEvents workspaceId receiver afterSequence limit fs =
     chain (workspaceFinancialPage afterSequence limit) (\<lambda>_.
       Inr (take (nat limit) (js_sort (\<lambda>a b. fm_sequence a - fm_sequence b)
         (filter (\<lambda>m. map_option fe_workspaceId (js_get (fin_events fs) (fm_eventRef m)) = Some workspaceId
                      \<and> afterSequence < fm_sequence m \<and> \<not> hasReceipt fs (fm_eventRef m) receiver)
           (js_values (fin_materializations fs))))))"

section \<open>Reachable journals\<close>

inductive fin_step :: "financial_source \<Rightarrow> financial_source \<Rightarrow> bool" where
  step_enroll: "enroll current original reg at fs = Inr (r, fs') \<Longrightarrow> fin_step fs fs'"
| step_record: "fin_record now k kind before after st fs = Inr fs' \<Longrightarrow> fin_step fs fs'"
| step_materialize: "materialize input fs = (b, fs') \<Longrightarrow> fin_step fs fs'"
| step_receipt: "receipt rcpt fs = (b, fs') \<Longrightarrow> fin_step fs fs'"

inductive fin_reachable :: "financial_source \<Rightarrow> bool" where
  fin_init: "fin_reachable empty_financial_source"
| fin_next: "fin_reachable fs \<Longrightarrow> fin_step fs fs' \<Longrightarrow> fin_reachable fs'"

text \<open>The invariant. \<open>eref h i\<close> is the reference of event \<open>i\<close> of the source of head \<open>h\<close>.\<close>

abbreviation eref :: "fin_head \<Rightarrow> int \<Rightarrow> string" where
  "eref h i \<equiv> fin_event_ref (reg_sourceRef h) i"

definition event_ok :: "fin_head \<Rightarrow> int \<Rightarrow> fin_event \<Rightarrow> bool" where
  "event_ok h i e \<longleftrightarrow> eventRef e = eref h i \<and> fe_sourceRef e = reg_sourceRef h
     \<and> fe_incarnation e = reg_incarnation h \<and> fe_workspaceId e = fh_workspaceId h \<and> fe_sequence e = i
     \<and> previousEventRef e = (if i = 1 then None else Some (eref h (i - 1)))
     \<and> fe_closed e = (fh_closed h \<and> i = permissionSequence h)"

definition digest_at :: "financial_source \<Rightarrow> fin_head \<Rightarrow> int \<Rightarrow> string option" where
  "digest_at fs h i = (if i = 0 then Some (genesisDigest h)
     else map_option fm_digest (js_get (fin_materializations fs) (eref h i)))"

definition head_ok :: "financial_source \<Rightarrow> string \<Rightarrow> fin_head \<Rightarrow> bool" where
  "head_ok fs k h \<longleftrightarrow> fh_workspaceId h = k \<and> 0 \<le> materializedSequence h
     \<and> materializedSequence h \<le> permissionSequence h
     \<and> lastEventRef h = (if permissionSequence h = 0 then None else Some (eref h (permissionSequence h)))
     \<and> digest_at fs h (materializedSequence h) = Some (materializedDigest h)
     \<and> (\<forall>i. 1 \<le> i \<and> i \<le> permissionSequence h \<longrightarrow>
          (\<exists>e. js_get (fin_events fs) (eref h i) = Some e \<and> event_ok h i e))
     \<and> (\<forall>i. 1 \<le> i \<and> i \<le> materializedSequence h \<longrightarrow>
          (\<exists>m. js_get (fin_materializations fs) (eref h i) = Some m \<and> fm_sequence m = i
             \<and> map_option fe_payload (js_get (fin_events fs) (eref h i)) = Some (fm_payload m)
             \<and> digest_at fs h (i - 1) = Some (previousDigest m)))"

definition receipt_ok :: "financial_source \<Rightarrow> string \<Rightarrow> string \<Rightarrow> fin_receipt \<Rightarrow> bool" where
  "receipt_ok fs er rr c \<longleftrightarrow>
     (\<exists>k h i. js_get (fin_heads fs) k = Some h \<and> 1 \<le> i \<and> i \<le> materializedSequence h \<and> er = eref h i
        \<and> digest_at fs h i = Some (fr_digest c) \<and> fr_sequence c = i
        \<and> (1 < i \<longrightarrow> js_has (fin_receipts fs) (eref h (i - 1), rr)))"

definition journal_inv :: "financial_source \<Rightarrow> bool" where
  "journal_inv fs \<longleftrightarrow>
     (\<forall>k h. js_get (fin_heads fs) k = Some h \<longrightarrow> head_ok fs k h)
     \<and> (\<forall>k h k' h'. js_get (fin_heads fs) k = Some h \<and> js_get (fin_heads fs) k' = Some h'
          \<and> reg_sourceRef h = reg_sourceRef h' \<longrightarrow> k = k')
     \<and> (\<forall>r e. js_get (fin_events fs) r = Some e \<longrightarrow>
          (\<exists>k h i. js_get (fin_heads fs) k = Some h \<and> 1 \<le> i \<and> i \<le> permissionSequence h \<and> r = eref h i))
     \<and> (\<forall>r m. js_get (fin_materializations fs) r = Some m \<longrightarrow>
          (\<exists>k h i. js_get (fin_heads fs) k = Some h \<and> 1 \<le> i \<and> i \<le> materializedSequence h \<and> r = eref h i))
     \<and> (\<forall>er rr c. js_get (fin_receipts fs) (er, rr) = Some c \<longrightarrow> receipt_ok fs er rr c)"

section \<open>References are unambiguous\<close>

lemma takeWhile_slash: "takeWhile (\<lambda>c. c \<noteq> CHR ''/'') (rev (src @ ''/event/'' @ show_nat k)) = rev (show_nat k)"
proof -
  have "\<forall>c \<in> set (rev (show_nat k)). c \<noteq> CHR ''/''"
    using show_nat_digits by (fastforce simp: is_digit_def)
  then show ?thesis by (simp add: takeWhile_append)
qed

lemma fin_event_ref_inject [simp]:
  assumes "0 \<le> i" "0 \<le> j"
  shows "fin_event_ref a i = fin_event_ref b j \<longleftrightarrow> a = b \<and> i = j"
proof
  assume "fin_event_ref a i = fin_event_ref b j"
  then have eq: "a @ ''/event/'' @ show_nat (nat i) = b @ ''/event/'' @ show_nat (nat j)"
    using assms by (simp add: fin_event_ref_def show_int_def)
  then have "show_nat (nat i) = show_nat (nat j)"
    by (metis takeWhile_slash rev_rev_ident)
  then show "a = b \<and> i = j" using eq assms show_nat_inject by fastforce
qed simp

section \<open>What each operation changes\<close>

lemma enroll_cases:
  assumes "enroll current original reg at fs = Inr (r, fs')"
  obtains (unchanged) "fs' = fs"
  | (added) head where "js_get (fin_heads fs) (fh_workspaceId head) = None"
      "\<forall>k h. js_get (fin_heads fs) k = Some h \<longrightarrow> reg_sourceRef h \<noteq> reg_sourceRef head"
      "permissionSequence head = 0" "materializedSequence head = 0" "lastEventRef head = None"
      "materializedDigest head = genesisDigest head" "r = Some head"
      "fs' = fs\<lparr>fin_enrollments := js_set (fh_workspaceId head) original (fin_enrollments fs),
                fin_heads := js_set (fh_workspaceId head) head (fin_heads fs)\<rparr>"
proof (cases "fs' = fs")
  case False
  obtain registration where reg: "workspaceFinancialRegistration reg = Inr registration"
    using assms unfolding enroll_def by (auto simp: chain_Inr_iff)
  let ?head = "newHead original registration at"
  have none: "js_get (fin_heads fs) (ws_id (fc_workspace original)) = None"
    using assms False by (auto simp: enroll_def reg split: option.splits)
  have ok: "\<not> list_ex (\<lambda>h. reg_sourceRef h = reg_sourceRef registration) (js_values (fin_heads fs))"
    using assms False none by (auto simp: enroll_def reg split: if_splits)
  have "r = Some ?head" "fs' = fs\<lparr>fin_enrollments := js_set (fh_workspaceId ?head) original (fin_enrollments fs),
                fin_heads := js_set (fh_workspaceId ?head) ?head (fin_heads fs)\<rparr>"
    using assms False none by (auto simp: enroll_def reg Let_def split: if_splits)
  then show thesis
    using none ok
    by (intro added [of ?head]) (auto simp: newHead_def list_ex_iff dest: js_values_get)
qed

lemma fin_record_cases:
  assumes "fin_record now k kind before after st fs = Inr fs'"
  obtains (unchanged) "fs' = fs"
  | (appended) head ev where "js_get (fin_heads fs) k = Some head" "\<not> fh_closed head" "before \<noteq> after"
      "ev = \<lparr>eventRef = eref head (permissionSequence head + 1),
             fe_sourceRef = reg_sourceRef head, fe_incarnation = reg_incarnation head, fe_workspaceId = k,
             fe_sequence = permissionSequence head + 1, previousEventRef = lastEventRef head, fe_kind = kind,
             fe_payload = (before, after), fe_closed = (kind = WorkspaceDelete), fe_recordedAt = now\<rparr>"
      "fs' = fs\<lparr>fin_events := js_set (eventRef ev) ev (fin_events fs),
         fin_heads := js_set k (head\<lparr>permissionSequence := permissionSequence head + 1,
          lastEventRef := Some (eventRef ev), fh_closed := (kind = WorkspaceDelete),
          fh_managementState := (case st of None \<Rightarrow> fh_managementState head | Some m \<Rightarrow> m)\<rparr>) (fin_heads fs)\<rparr>"
  using assms unfolding fin_record_def
  by (auto simp: Let_def split: option.splits if_splits)

lemma materialize_cases:
  assumes "materialize input fs = (b, fs')"
  obtains (unchanged) "fs' = fs"
  | (added) head e m where "js_get (fin_heads fs) (fe_workspaceId e) = Some head"
      "js_get (fin_events fs) (eventRef e) = Some e" "js_get (fin_materializations fs) (eventRef e) = None"
      "reg_sourceRef head = fe_sourceRef e" "fh_workspaceId head = fe_workspaceId e"
      "fm_sequence m = fe_sequence e" "fm_payload m = fe_payload e" "0 < fe_sequence e"
      "materializedSequence head = fe_sequence e - 1" "previousDigest m = materializedDigest head"
      "fs' = fs\<lparr>fin_materializations := js_set (eventRef e) m (fin_materializations fs),
         fin_materializationHeads := js_set (eventRef e) head (fin_materializationHeads fs),
         fin_heads := js_set (fe_workspaceId e)
           (head\<lparr>materializedSequence := fe_sequence e, materializedDigest := fm_digest m\<rparr>) (fin_heads fs)\<rparr>"
proof (cases "fs' = fs")
  case False
  let ?e = "mat_original input" and ?m = "mat_materialization input"
  have ok: "materializationMatches input" "js_get (fin_events fs) (eventRef ?e) = Some ?e"
    and none: "js_get (fin_materializations fs) (eventRef ?e) = None"
    using assms False by (auto simp: materialize_def Let_def split: if_splits option.splits)
  obtain head where head: "js_get (fin_heads fs) (fe_workspaceId ?e) = Some head"
    using assms False ok none by (auto simp: materialize_def Let_def split: if_splits option.splits)
  have eq: "head = mat_expectedHead input"
    using assms False ok none head by (simp add: materialize_def Let_def split: if_split_asm)
  show thesis
    using assms False ok none head eq
    by (intro added [of ?e head ?m])
      (simp_all add: materialize_def Let_def materializationMatches_def split: if_split_asm)
qed

lemma receipt_cases:
  assumes "receipt c fs = (b, fs')"
  obtains (unchanged) "fs' = fs"
  | (added) e m head where "js_get (fin_events fs) (fr_eventRef c) = Some e"
      "js_get (fin_materializations fs) (fr_eventRef c) = Some m"
      "js_get (fin_heads fs) (fe_workspaceId e) = Some head" "fe_sequence e = fr_sequence c"
      "fm_digest m = fr_digest c"
      "\<exists>r \<in> set (requiredReceivers head). receiverRef r = fr_receiverRef c \<and> targetRef r = fr_targetRef c"
      "1 < fe_sequence e \<longrightarrow> (\<exists>p. previousEventRef e = Some p \<and> js_has (fin_receipts fs) (p, fr_receiverRef c))"
      "fs' = fs\<lparr>fin_receipts := js_set (fr_eventRef c, fr_receiverRef c) c (fin_receipts fs)\<rparr>"
proof (cases "fs' = fs")
  case False
  from assms False obtain e m where em: "js_get (fin_events fs) (fr_eventRef c) = Some e"
    "js_get (fin_materializations fs) (fr_eventRef c) = Some m"
    by (auto simp: receipt_def split: option.splits)
  from assms False em obtain head where head: "js_get (fin_heads fs) (fe_workspaceId e) = Some head"
    by (auto simp: receipt_def split: option.splits)
  show thesis
  proof (rule added [of e m head])
    show "1 < fe_sequence e \<longrightarrow> (\<exists>p. previousEventRef e = Some p \<and> js_has (fin_receipts fs) (p, fr_receiverRef c))"
      using assms False em head
      by (cases "previousEventRef e") (auto simp: receipt_def js_has_def split: if_split_asm option.splits)
  qed (use assms False em head in
      \<open>auto simp: receipt_def list_ex_iff split: if_split_asm option.split_asm\<close>)
qed

section \<open>The invariant is kept\<close>

lemma head_ok_frame:
  assumes "head_ok fs k h"
    "\<And>i. 1 \<le> i \<Longrightarrow> i \<le> permissionSequence h \<Longrightarrow>
       js_get (fin_events fs') (eref h i) = js_get (fin_events fs) (eref h i)"
    "\<And>i. 1 \<le> i \<Longrightarrow> i \<le> materializedSequence h \<Longrightarrow>
       js_get (fin_materializations fs') (eref h i) = js_get (fin_materializations fs) (eref h i)"
  shows "head_ok fs' k h"
proof -
  have bounds: "0 \<le> materializedSequence h" "materializedSequence h \<le> permissionSequence h"
    using assms(1) by (simp_all add: head_ok_def)
  have digest: "0 \<le> i \<Longrightarrow> i \<le> materializedSequence h \<Longrightarrow> digest_at fs' h i = digest_at fs h i" for i
    using assms(3) by (simp add: digest_at_def)
  have events: "1 \<le> i \<Longrightarrow> i \<le> permissionSequence h \<Longrightarrow>
      \<exists>e. js_get (fin_events fs') (eref h i) = Some e \<and> event_ok h i e" for i
    using assms(1,2) by (simp add: head_ok_def)
  have mats: "1 \<le> i \<Longrightarrow> i \<le> materializedSequence h \<Longrightarrow>
      \<exists>m. js_get (fin_materializations fs') (eref h i) = Some m \<and> fm_sequence m = i
        \<and> map_option fe_payload (js_get (fin_events fs') (eref h i)) = Some (fm_payload m)
        \<and> digest_at fs' h (i - 1) = Some (previousDigest m)" for i
    using assms(1) assms(2) [of i] assms(3) [of i] digest [of "i - 1"] bounds by (simp add: head_ok_def)
  show ?thesis
    using assms(1) bounds digest events mats by (simp add: head_ok_def)
qed

lemma journal_invD:
  assumes "journal_inv fs"
  shows "js_get (fin_heads fs) k = Some h \<Longrightarrow> head_ok fs k h"
    "js_get (fin_heads fs) k = Some h \<Longrightarrow> js_get (fin_heads fs) k' = Some h' \<Longrightarrow>
       reg_sourceRef h = reg_sourceRef h' \<Longrightarrow> k = k'"
    "js_get (fin_events fs) r = Some e \<Longrightarrow>
       \<exists>k h i. js_get (fin_heads fs) k = Some h \<and> 1 \<le> i \<and> i \<le> permissionSequence h \<and> r = eref h i"
    "js_get (fin_materializations fs) r = Some m \<Longrightarrow>
       \<exists>k h i. js_get (fin_heads fs) k = Some h \<and> 1 \<le> i \<and> i \<le> materializedSequence h \<and> r = eref h i"
    "js_get (fin_receipts fs) (er, rr) = Some c \<Longrightarrow> receipt_ok fs er rr c"
  using assms unfolding journal_inv_def by blast+

lemma head_okD:
  assumes "head_ok fs k h"
  shows "fh_workspaceId h = k" "0 \<le> materializedSequence h" "materializedSequence h \<le> permissionSequence h"
    "0 \<le> permissionSequence h"
    "lastEventRef h = (if permissionSequence h = 0 then None else Some (eref h (permissionSequence h)))"
    "digest_at fs h (materializedSequence h) = Some (materializedDigest h)"
    "1 \<le> i \<Longrightarrow> i \<le> permissionSequence h \<Longrightarrow>
       \<exists>e. js_get (fin_events fs) (eref h i) = Some e \<and> event_ok h i e"
    "1 \<le> i \<Longrightarrow> i \<le> materializedSequence h \<Longrightarrow>
       \<exists>m. js_get (fin_materializations fs) (eref h i) = Some m \<and> fm_sequence m = i
         \<and> map_option fe_payload (js_get (fin_events fs) (eref h i)) = Some (fm_payload m)
         \<and> digest_at fs h (i - 1) = Some (previousDigest m)"
  using assms unfolding head_ok_def by auto

lemma journal_inv_empty: "journal_inv empty_financial_source"
  by (simp add: journal_inv_def empty_financial_source_def)

text \<open>The journal only grows: heads keep their source and advance, and no event,
  materialisation or receipt is removed or replaced.\<close>

definition fin_extends :: "financial_source \<Rightarrow> financial_source \<Rightarrow> bool" where
  "fin_extends fs fs' \<longleftrightarrow>
     (\<forall>k h. js_get (fin_heads fs) k = Some h \<longrightarrow>
        (\<exists>h'. js_get (fin_heads fs') k = Some h'
           \<and> fin_registration.truncate h' = fin_registration.truncate h
           \<and> permissionSequence h \<le> permissionSequence h' \<and> materializedSequence h \<le> materializedSequence h'
           \<and> (fh_closed h \<longrightarrow> fh_closed h' \<and> permissionSequence h' = permissionSequence h)))
     \<and> (\<forall>r e. js_get (fin_events fs) r = Some e \<longrightarrow> js_get (fin_events fs') r = Some e)
     \<and> (\<forall>r m. js_get (fin_materializations fs) r = Some m \<longrightarrow> js_get (fin_materializations fs') r = Some m)
     \<and> (\<forall>r c. js_get (fin_receipts fs) r = Some c \<longrightarrow> js_get (fin_receipts fs') r = Some c)"

lemma fin_extends_refl [simp]: "fin_extends fs fs"
  by (simp add: fin_extends_def)

lemma fin_extendsD:
  assumes "fin_extends fs fs'"
  shows "js_get (fin_heads fs) k = Some h \<Longrightarrow>
      \<exists>h'. js_get (fin_heads fs') k = Some h'
         \<and> fin_registration.truncate h' = fin_registration.truncate h
         \<and> permissionSequence h \<le> permissionSequence h' \<and> materializedSequence h \<le> materializedSequence h'
         \<and> (fh_closed h \<longrightarrow> fh_closed h' \<and> permissionSequence h' = permissionSequence h)"
    "js_get (fin_events fs) r = Some e \<Longrightarrow> js_get (fin_events fs') r = Some e"
    "js_get (fin_materializations fs) r = Some m \<Longrightarrow> js_get (fin_materializations fs') r = Some m"
    "js_get (fin_receipts fs) q = Some c \<Longrightarrow> js_get (fin_receipts fs') q = Some c"
  using assms unfolding fin_extends_def by blast+

lemma truncate_eqD:
  assumes "fin_registration.truncate a = fin_registration.truncate b"
  shows "reg_sourceRef a = reg_sourceRef b" "reg_incarnation a = reg_incarnation b"
    "genesisDigest a = genesisDigest b" "requiredReceivers a = requiredReceivers b"
  using assms by (simp_all add: fin_registration.truncate_def)

lemma fin_extends_trans:
  assumes "fin_extends a b" "fin_extends b c"
  shows "fin_extends a c"
  unfolding fin_extends_def
proof (intro conjI allI impI)
  fix k h assume "js_get (fin_heads a) k = Some h"
  from fin_extendsD(1) [OF assms(1) this] obtain h1 where h1: "js_get (fin_heads b) k = Some h1"
    "fin_registration.truncate h1 = fin_registration.truncate h"
    "permissionSequence h \<le> permissionSequence h1" "materializedSequence h \<le> materializedSequence h1"
    "fh_closed h \<longrightarrow> fh_closed h1 \<and> permissionSequence h1 = permissionSequence h" by blast
  from fin_extendsD(1) [OF assms(2) h1(1)] h1 show
    "\<exists>h'. js_get (fin_heads c) k = Some h' \<and> fin_registration.truncate h' = fin_registration.truncate h
       \<and> permissionSequence h \<le> permissionSequence h' \<and> materializedSequence h \<le> materializedSequence h'
       \<and> (fh_closed h \<longrightarrow> fh_closed h' \<and> permissionSequence h' = permissionSequence h)" by force
qed (blast intro: fin_extendsD(2,3,4) [OF assms(1)] fin_extendsD(2,3,4) [OF assms(2)])+

lemma receipt_ok_extends:
  assumes "receipt_ok fs er rr c" "fin_extends fs fs'"
  shows "receipt_ok fs' er rr c"
proof -
  obtain k h i where r: "js_get (fin_heads fs) k = Some h" "1 \<le> i" "i \<le> materializedSequence h" "er = eref h i"
    "digest_at fs h i = Some (fr_digest c)" "fr_sequence c = i"
    "1 < i \<longrightarrow> js_has (fin_receipts fs) (eref h (i - 1), rr)"
    using assms(1) unfolding receipt_ok_def by blast
  obtain h' where h': "js_get (fin_heads fs') k = Some h'"
    "fin_registration.truncate h' = fin_registration.truncate h" "materializedSequence h \<le> materializedSequence h'"
    using fin_extendsD(1) [OF assms(2) r(1)] by blast
  note src = truncate_eqD [OF h'(2)]
  have "digest_at fs' h' i = Some (fr_digest c)"
    using r(2,5) fin_extendsD(3) [OF assms(2)] src by (auto simp: digest_at_def)
  moreover have "1 < i \<longrightarrow> js_has (fin_receipts fs') (eref h' (i - 1), rr)"
    using r(7) fin_extendsD(4) [OF assms(2)] src by (auto simp: js_has_def)
  ultimately show ?thesis
    using r h' src unfolding receipt_ok_def by (intro exI [of _ k] exI [of _ h'] exI [of _ i]) auto
qed

text \<open>What is left to show for a step that only extends the journal.\<close>

lemma journal_inv_extends:
  assumes inv: "journal_inv fs" and ext: "fin_extends fs fs'"
    and heads: "\<And>k h. js_get (fin_heads fs') k = Some h \<Longrightarrow> head_ok fs' k h"
    and uniq: "\<And>k h k' h'. js_get (fin_heads fs') k = Some h \<Longrightarrow> js_get (fin_heads fs') k' = Some h' \<Longrightarrow>
        reg_sourceRef h = reg_sourceRef h' \<Longrightarrow> k = k'"
    and events: "\<And>r e. js_get (fin_events fs') r = Some e \<Longrightarrow> js_get (fin_events fs) r = None \<Longrightarrow>
        \<exists>k h i. js_get (fin_heads fs') k = Some h \<and> 1 \<le> i \<and> i \<le> permissionSequence h \<and> r = eref h i"
    and mats: "\<And>r m. js_get (fin_materializations fs') r = Some m \<Longrightarrow> js_get (fin_materializations fs) r = None \<Longrightarrow>
        \<exists>k h i. js_get (fin_heads fs') k = Some h \<and> 1 \<le> i \<and> i \<le> materializedSequence h \<and> r = eref h i"
    and receipts: "\<And>er rr c. js_get (fin_receipts fs') (er, rr) = Some c \<Longrightarrow>
        js_get (fin_receipts fs) (er, rr) = None \<Longrightarrow> receipt_ok fs' er rr c"
  shows "journal_inv fs'"
  unfolding journal_inv_def
proof (intro conjI allI impI)
  have keep: "\<exists>h'. js_get (fin_heads fs') k = Some h' \<and> reg_sourceRef h' = reg_sourceRef h
      \<and> permissionSequence h \<le> permissionSequence h' \<and> materializedSequence h \<le> materializedSequence h'"
    if "js_get (fin_heads fs) k = Some h" for k h
    using fin_extendsD(1) [OF ext that] truncate_eqD(1) by metis
  fix r e assume e: "js_get (fin_events fs') r = Some e"
  show "\<exists>k h i. js_get (fin_heads fs') k = Some h \<and> 1 \<le> i \<and> i \<le> permissionSequence h \<and> r = eref h i"
    using events [OF e] journal_invD(3) [OF inv] keep by (cases "js_get (fin_events fs) r") (simp, metis order_trans)
next
  have keep: "\<exists>h'. js_get (fin_heads fs') k = Some h' \<and> reg_sourceRef h' = reg_sourceRef h
      \<and> permissionSequence h \<le> permissionSequence h' \<and> materializedSequence h \<le> materializedSequence h'"
    if "js_get (fin_heads fs) k = Some h" for k h
    using fin_extendsD(1) [OF ext that] truncate_eqD(1) by metis
  fix r m assume m: "js_get (fin_materializations fs') r = Some m"
  show "\<exists>k h i. js_get (fin_heads fs') k = Some h \<and> 1 \<le> i \<and> i \<le> materializedSequence h \<and> r = eref h i"
    using mats [OF m] journal_invD(4) [OF inv] keep
    by (cases "js_get (fin_materializations fs) r") (simp, metis order_trans)
next
  fix er rr c assume c: "js_get (fin_receipts fs') (er, rr) = Some c"
  show "receipt_ok fs' er rr c"
  proof (cases "js_get (fin_receipts fs) (er, rr)")
    case None
    then show ?thesis by (rule receipts [OF c])
  next
    case (Some c')
    then have "c' = c" using fin_extendsD(4) [OF ext Some] c by simp
    then show ?thesis using journal_invD(5) [OF inv Some] ext by (auto intro: receipt_ok_extends)
  qed
qed (use heads uniq in blast)+

lemma journal_inv_enroll:
  assumes inv: "journal_inv fs" and "enroll current original reg at fs = Inr (r, fs')"
  shows "journal_inv fs' \<and> fin_extends fs fs'"
  using assms(2)
proof (cases rule: enroll_cases)
  case (added head)
  let ?k = "fh_workspaceId head"
  have new: "head_ok fs' ?k head"
    using added by (auto simp: head_ok_def digest_at_def)
  have old: "head_ok fs' k h" if "js_get (fin_heads fs) k = Some h" for k h
    by (rule head_ok_frame [OF journal_invD(1) [OF inv that]]) (simp_all add: added)
  have heads: "js_get (fin_heads fs') k = (if k = ?k then Some head else js_get (fin_heads fs) k)" for k
    by (simp add: added)
  have ext: "fin_extends fs fs'"
    using added(1) by (auto simp: fin_extends_def added(8))
  have "journal_inv fs'"
  proof (rule journal_inv_extends [OF inv ext])
    show "head_ok fs' k h" if "js_get (fin_heads fs') k = Some h" for k h
      using that new old heads by (auto split: if_splits)
    show "k = k'" if "js_get (fin_heads fs') k = Some h" "js_get (fin_heads fs') k' = Some h'"
      "reg_sourceRef h = reg_sourceRef h'" for k h k' h'
      using that added(2) heads journal_invD(2) [OF inv] by (auto split: if_splits)
  qed (simp_all add: added(8))
  then show ?thesis using ext by simp
qed (simp add: inv)

lemma journal_inv_record:
  assumes inv: "journal_inv fs" and "fin_record now k kind before after st fs = Inr fs'"
  shows "journal_inv fs' \<and> fin_extends fs fs'"
  using assms(2)
proof (cases rule: fin_record_cases)
  case (appended head ev)
  let ?n = "permissionSequence head + 1"
  let ?h = "head\<lparr>permissionSequence := ?n, lastEventRef := Some (eventRef ev), fh_closed := (kind = WorkspaceDelete),
      fh_managementState := (case st of None \<Rightarrow> fh_managementState head | Some m \<Rightarrow> m)\<rparr>"
  note ok = journal_invD(1) [OF inv appended(1)]
  note hd = head_okD [OF ok]
  have ref: "eventRef ev = eref head ?n" by (simp add: appended(4))
  have heads: "js_get (fin_heads fs') k' = (if k' = k then Some ?h else js_get (fin_heads fs) k')" for k'
    by (simp add: appended(5))
  have events: "js_get (fin_events fs') r = (if r = eref head ?n then Some ev else js_get (fin_events fs) r)" for r
    by (simp add: appended(5) ref)
  have rest: "fin_materializations fs' = fin_materializations fs" "fin_receipts fs' = fin_receipts fs"
    by (simp_all add: appended(5))
  have fresh: "js_get (fin_events fs) (eref head ?n) = None"
  proof (rule ccontr)
    assume "js_get (fin_events fs) (eref head ?n) \<noteq> None"
    then obtain k' h' i where h': "js_get (fin_heads fs) k' = Some h'" "1 \<le> i" "i \<le> permissionSequence h'"
      "eref head ?n = eref h' i" using journal_invD(3) [OF inv] by blast
    then have "reg_sourceRef head = reg_sourceRef h'" "i = ?n" using hd(4) by simp_all
    then show False using journal_invD(2) [OF inv appended(1) h'(1)] h' appended(1) by simp
  qed
  have old: "head_ok fs' k' h" if "js_get (fin_heads fs) k' = Some h" "k' \<noteq> k" for k' h
  proof (rule head_ok_frame [OF journal_invD(1) [OF inv that(1)]])
    fix i :: int assume "1 \<le> i"
    then have "eref h i \<noteq> eref head ?n"
      using journal_invD(2) [OF inv that(1) appended(1)] that(2) hd(4) by auto
    then show "js_get (fin_events fs') (eref h i) = js_get (fin_events fs) (eref h i)" by (simp add: events)
  qed (simp add: rest)
  have "\<exists>e. js_get (fin_events fs') (eref head i) = Some e \<and> event_ok ?h i e" if i: "1 \<le> i" "i \<le> ?n" for i
  proof (cases "i = ?n")
    case True
    then have "event_ok ?h i ev" using hd(1,4,5) by (simp add: appended(4) event_ok_def)
    then show ?thesis using True events by simp
  next
    case False
    then obtain e where "js_get (fin_events fs) (eref head i) = Some e" "event_ok head i e"
      using hd(7) [of i] i by auto
    moreover from this have "event_ok ?h i e"
      using appended(2) False by (simp add: event_ok_def)
    moreover have "eref head i \<noteq> eref head ?n" using False i hd(4) by simp
    ultimately show ?thesis by (simp add: events)
  qed
  note new_events = this
  have dg: "digest_at fs' ?h i = digest_at fs head i" for i by (simp add: digest_at_def rest)
  have new_mats: "\<exists>m. js_get (fin_materializations fs') (eref head i) = Some m \<and> fm_sequence m = i
        \<and> map_option fe_payload (js_get (fin_events fs') (eref head i)) = Some (fm_payload m)
        \<and> digest_at fs' ?h (i - 1) = Some (previousDigest m)"
    if i: "1 \<le> i" "i \<le> materializedSequence head" for i
  proof -
    have "eref head i \<noteq> eref head ?n" using i hd(2,3) by simp
    then show ?thesis using hd(8) [OF i] unfolding dg rest by (simp add: events)
  qed
  have new: "head_ok fs' k ?h"
    unfolding head_ok_def
    using hd(1-6) new_events new_mats dg [of "materializedSequence head"] by (simp add: ref)
  have ext: "fin_extends fs fs'"
    using appended(1,2) fresh unfolding fin_extends_def
    by (auto simp: heads events rest fin_registration.truncate_def)
  have "journal_inv fs'"
  proof (rule journal_inv_extends [OF inv ext])
    show "head_ok fs' k' h" if "js_get (fin_heads fs') k' = Some h" for k' h
      using that new old heads by (cases "k' = k") auto
    show "k1 = k2" if "js_get (fin_heads fs') k1 = Some h1" "js_get (fin_heads fs') k2 = Some h2"
      "reg_sourceRef h1 = reg_sourceRef h2" for k1 h1 k2 h2
      using that heads appended(1) journal_invD(2) [OF inv] by (auto split: if_splits)
    show "\<exists>k h i. js_get (fin_heads fs') k = Some h \<and> 1 \<le> i \<and> i \<le> permissionSequence h \<and> r = eref h i"
      if "js_get (fin_events fs') r = Some e" "js_get (fin_events fs) r = None" for r e
      using that events heads hd(4) by (intro exI [of _ k] exI [of _ ?h] exI [of _ ?n]) (auto split: if_splits)
  qed (simp_all add: rest)
  then show ?thesis using ext by simp
qed (simp add: inv)

lemma journal_inv_materialize:
  assumes inv: "journal_inv fs" and "materialize input fs = (b, fs')"
  shows "journal_inv fs' \<and> fin_extends fs fs'"
  using assms(2)
proof (cases rule: materialize_cases)
  case (added head e m)
  let ?n = "fe_sequence e" and ?k = "fe_workspaceId e"
  let ?h = "head\<lparr>materializedSequence := ?n, materializedDigest := fm_digest m\<rparr>"
  note ok = journal_invD(1) [OF inv added(1)]
  note hd = head_okD [OF ok]
  have "eventRef e = eref head ?n \<and> ?n \<le> permissionSequence head"
  proof -
    obtain k' h' i where h': "js_get (fin_heads fs) k' = Some h'" "1 \<le> i" "i \<le> permissionSequence h'"
      "eventRef e = eref h' i" using journal_invD(3) [OF inv added(2)] by blast
    from head_okD(7) [OF journal_invD(1) [OF inv h'(1)] h'(2,3)] have "event_ok h' i e"
      using h'(4) added(2) by auto
    then have "fe_workspaceId e = k'" "fe_sequence e = i"
      using head_okD(1) [OF journal_invD(1) [OF inv h'(1)]] by (simp_all add: event_ok_def)
    then show ?thesis using h' added(1) by simp
  qed
  then have ref: "eventRef e = eref head ?n" and le: "?n \<le> permissionSequence head" by auto
  have heads: "js_get (fin_heads fs') k' = (if k' = ?k then Some ?h else js_get (fin_heads fs) k')" for k'
    by (simp add: added(11))
  have mats: "js_get (fin_materializations fs') r =
      (if r = eref head ?n then Some m else js_get (fin_materializations fs) r)" for r
    by (simp add: added(11) ref)
  have rest: "fin_events fs' = fin_events fs" "fin_receipts fs' = fin_receipts fs"
    by (simp_all add: added(11))
  have old: "head_ok fs' k' h" if "js_get (fin_heads fs) k' = Some h" "k' \<noteq> ?k" for k' h
  proof (rule head_ok_frame [OF journal_invD(1) [OF inv that(1)]])
    fix i :: int assume "1 \<le> i"
    then have "eref h i \<noteq> eref head ?n"
      using journal_invD(2) [OF inv that(1) added(1)] that(2) added(8) by auto
    then show "js_get (fin_materializations fs') (eref h i) = js_get (fin_materializations fs) (eref h i)"
      by (simp add: mats)
  qed (simp add: rest)
  have dg: "digest_at fs' ?h i = digest_at fs head i" if "0 \<le> i" "i < ?n" for i
    using that added(8) by (simp add: digest_at_def mats)
  have new_mats: "\<exists>m'. js_get (fin_materializations fs') (eref head i) = Some m' \<and> fm_sequence m' = i
        \<and> map_option fe_payload (js_get (fin_events fs') (eref head i)) = Some (fm_payload m')
        \<and> digest_at fs' ?h (i - 1) = Some (previousDigest m')"
    if i: "1 \<le> i" "i \<le> ?n" for i
  proof (cases "i = ?n")
    case True
    then show ?thesis
      using added(2,6,7,8,9,10) hd(6) dg [of "i - 1"] by (simp add: mats rest ref)
  next
    case False
    then have "eref head i \<noteq> eref head ?n" "i \<le> materializedSequence head" using i added(9) by simp_all
    then show ?thesis using hd(8) [of i] i dg [of "i - 1"] by (simp add: mats rest)
  qed
  have "event_ok ?h i e'" if "event_ok head i e'" for i e'
    using that by (simp add: event_ok_def)
  then have new: "head_ok fs' ?k ?h"
    unfolding head_ok_def
    using hd(1-5,7) new_mats le added(8) by (fastforce simp: digest_at_def mats rest)
  have ext: "fin_extends fs fs'"
    using added(1,3,9) unfolding fin_extends_def
    by (auto simp: heads mats rest ref fin_registration.truncate_def)
  have "journal_inv fs'"
  proof (rule journal_inv_extends [OF inv ext])
    show "head_ok fs' k' h" if "js_get (fin_heads fs') k' = Some h" for k' h
      using that new old heads by (cases "k' = ?k") auto
    show "k1 = k2" if "js_get (fin_heads fs') k1 = Some h1" "js_get (fin_heads fs') k2 = Some h2"
      "reg_sourceRef h1 = reg_sourceRef h2" for k1 h1 k2 h2
      using that heads added(1) journal_invD(2) [OF inv] by (auto split: if_splits)
    show "\<exists>k h i. js_get (fin_heads fs') k = Some h \<and> 1 \<le> i \<and> i \<le> materializedSequence h \<and> r = eref h i"
      if "js_get (fin_materializations fs') r = Some m'" "js_get (fin_materializations fs) r = None" for r m'
      using that mats heads added(8)
      by (intro exI [of _ ?k] exI [of _ ?h] exI [of _ ?n]) (auto split: if_splits)
  qed (simp_all add: rest)
  then show ?thesis using ext by simp
qed (simp add: inv)

lemma journal_inv_receipt:
  assumes inv: "journal_inv fs" and "receipt c fs = (b, fs')"
  shows "journal_inv fs' \<and> fin_extends fs fs'"
proof (cases "fs' = fs")
  case False
  then have new: "js_get (fin_receipts fs) (fr_eventRef c, fr_receiverRef c) = None"
    using assms(2) by (auto simp: receipt_def split: option.splits if_split_asm)
  from assms(2) show ?thesis
  proof (cases rule: receipt_cases)
    case (added e m head)
    have rest: "fin_events fs' = fin_events fs" "fin_materializations fs' = fin_materializations fs"
      "fin_heads fs' = fin_heads fs" by (simp_all add: added(8))
    have rc: "js_get (fin_receipts fs') q = (if q = (fr_eventRef c, fr_receiverRef c) then Some c
        else js_get (fin_receipts fs) q)" for q by (simp add: added(8))
    have ext: "fin_extends fs fs'" using new by (auto simp: fin_extends_def rest rc)
    obtain k h i where h: "js_get (fin_heads fs) k = Some h" "1 \<le> i" "i \<le> materializedSequence h"
      "fr_eventRef c = eref h i" using journal_invD(4) [OF inv added(2)] by blast
    note ok = journal_invD(1) [OF inv h(1)]
    have "i \<le> permissionSequence h" using h(3) head_okD(3) [OF ok] by linarith
    then have e: "event_ok h i e" using head_okD(7) [OF ok h(2)] added(1) h(4) by auto
    have "digest_at fs' h i = Some (fr_digest c)"
      using added(2,5) h(2,4) by (simp add: digest_at_def rest)
    moreover have "1 < i \<longrightarrow> js_has (fin_receipts fs') (eref h (i - 1), fr_receiverRef c)"
      using added(7) e by (auto simp: event_ok_def js_has_def rc)
    ultimately have "receipt_ok fs' (fr_eventRef c) (fr_receiverRef c) c"
      using h e added(4) unfolding receipt_ok_def rest
      by (intro exI [of _ k] exI [of _ h] exI [of _ i]) (simp add: event_ok_def)
    then have new_ok: "receipt_ok fs' er rr c'" if "js_get (fin_receipts fs') (er, rr) = Some c'"
      "js_get (fin_receipts fs) (er, rr) = None" for er rr c'
      using that rc by (auto split: if_splits)
    have "head_ok fs' k' h'" if "js_get (fin_heads fs) k' = Some h'" for k' h'
      by (rule head_ok_frame [OF journal_invD(1) [OF inv that]]) (simp_all add: rest)
    then have "journal_inv fs'"
      using journal_invD(2) [OF inv] new_ok
      by (intro journal_inv_extends [OF inv ext]) (auto simp: rest)
    then show ?thesis using ext by simp
  qed (simp add: inv)
qed (simp add: inv)

section \<open>Reachable journals satisfy the invariant\<close>

lemma fin_step_inv:
  assumes "fin_step fs fs'" "journal_inv fs"
  shows "journal_inv fs' \<and> fin_extends fs fs'"
  using assms
  by cases (auto dest: journal_inv_enroll journal_inv_record journal_inv_materialize journal_inv_receipt)

lemma fin_reachable_inv: "fin_reachable fs \<Longrightarrow> journal_inv fs"
  by (induction rule: fin_reachable.induct) (auto simp: journal_inv_empty dest: fin_step_inv)

lemma fin_steps_extends:
  assumes "fin_step\<^sup>*\<^sup>* fs fs'" "journal_inv fs"
  shows "journal_inv fs' \<and> fin_extends fs fs'"
  using assms(1)
proof (induction rule: rtranclp_induct)
  case base
  then show ?case using assms(2) by simp
next
  case (step y z)
  then show ?case using fin_step_inv fin_extends_trans by blast
qed

text \<open>A receipt for an event implies receipts for all earlier events of its source.\<close>

lemma receipt_earlier:
  assumes inv: "journal_inv fs" and h: "js_get (fin_heads fs) k = Some h"
    and "hasReceipt fs (eref h j) rr" "1 \<le> i" "i \<le> j"
  shows "hasReceipt fs (eref h i) rr"
  using assms(3,5)
proof (induction "nat (j - i)" arbitrary: j)
  case 0
  then show ?case by simp
next
  case (Suc d)
  obtain c where c: "js_get (fin_receipts fs) (eref h j, rr) = Some c"
    using Suc.prems(1) by (auto simp: hasReceipt_def js_has_def)
  from journal_invD(5) [OF inv c] obtain k' h' i' where r: "js_get (fin_heads fs) k' = Some h'" "1 \<le> i'"
    "eref h j = eref h' i'" "1 < i' \<longrightarrow> js_has (fin_receipts fs) (eref h' (i' - 1), rr)"
    unfolding receipt_ok_def by blast
  have src: "reg_sourceRef h' = reg_sourceRef h" "i' = j" using r(2,3) Suc assms(4) by simp_all
  have "1 < j" using Suc assms(4) by linarith
  then have "hasReceipt fs (eref h (j - 1)) rr" using r(4) src by (simp add: hasReceipt_def)
  then show ?case using Suc(1) [of "j - 1"] Suc(2,4) assms(4) by simp
qed

lemma snapshotD:
  assumes "snapshot fs c actor = Some sn"
  shows "js_get (fin_heads fs) (ws_id (sn_workspace sn)) = Some (sn_head sn)" "\<not> fh_closed (sn_head sn)"
    "permissionSequence (sn_head sn) = materializedSequence (sn_head sn)" "acknowledged fs (sn_head sn)"
    "mem_accountId (sn_member sn) = actor" "mem_status (sn_member sn) = ''active''"
    "managementState (sn_management sn) = Active" "fh_binding (sn_head sn) = sn_binding sn"
  using assms
  by (auto simp: snapshot_def candidateAllowed_def find_Some_iff split: option.splits if_splits)

lemma snapshot_acknowledged:
  assumes inv: "journal_inv fs" and sn: "snapshot fs c actor = Some sn"
    and i: "1 \<le> i" "i \<le> permissionSequence (sn_head sn)" and r: "r \<in> set (requiredReceivers (sn_head sn))"
  shows "hasReceipt fs (eref (sn_head sn) i) (receiverRef r)"
proof -
  note sd = snapshotD [OF sn]
  have "lastEventRef (sn_head sn) = Some (eref (sn_head sn) (permissionSequence (sn_head sn)))"
    using head_okD(5) [OF journal_invD(1) [OF inv sd(1)]] i by simp
  then have "hasReceipt fs (eref (sn_head sn) (permissionSequence (sn_head sn))) (receiverRef r)"
    using sd(4) i r by (simp add: acknowledged_def list_all_iff)
  then show ?thesis using receipt_earlier [OF inv sd(1)] i by blast
qed

text \<open>Retries.\<close>

lemma truncate_newHead: "fin_registration.truncate (newHead c reg at) = reg"
  by (cases reg) (simp add: newHead_def fin_registration.truncate_def)

lemma enroll_retry:
  assumes "enroll current original reg at fs = Inr (Some h, fs')"
  shows "enroll current' original reg at' fs' = Inr (Some h, fs')"
proof -
  obtain registration where reg: "workspaceFinancialRegistration reg = Inr registration"
    using assms unfolding enroll_def by (auto simp: chain_Inr_iff)
  show ?thesis
  proof (cases "js_get (fin_heads fs) (ws_id (fc_workspace original))")
    case None
    then have "h = newHead original registration at"
      "js_get (fin_heads fs') (ws_id (fc_workspace original)) = Some (newHead original registration at)"
      "js_get (fin_enrollments fs') (ws_id (fc_workspace original)) = Some original"
      using assms by (auto simp: enroll_def reg Let_def newHead_def split: if_splits)
    then show ?thesis by (simp add: enroll_def reg truncate_newHead) (simp add: newHead_def)
  next
    case (Some existing)
    then show ?thesis using assms by (auto simp: enroll_def reg split: if_splits)
  qed
qed

lemma materialize_retry:
  assumes "materialize input fs = (True, fs')"
  shows "materialize input fs' = (True, fs')"
proof (cases "js_get (fin_materializations fs) (eventRef (mat_original input))")
  case None
  then show ?thesis
    using assms by (auto simp: materialize_def Let_def split: if_split_asm option.split_asm)
next
  case (Some m)
  then have "fs' = fs" using assms by (auto simp: materialize_def Let_def split: if_split_asm)
  then show ?thesis using assms by simp
qed

lemma receipt_retry:
  assumes inv: "journal_inv fs" and rc: "receipt c fs = (True, fs')"
  shows "receipt c fs' = (True, fs')"
proof (cases "fs' = fs")
  case False
  obtain e m where em: "js_get (fin_events fs) (fr_eventRef c) = Some e"
    "js_get (fin_materializations fs) (fr_eventRef c) = Some m"
    using rc by (auto simp: receipt_def split: option.splits)
  obtain head where head: "js_get (fin_heads fs) (fe_workspaceId e) = Some head"
    using rc em by (auto simp: receipt_def split: option.splits)
  obtain k h i where h: "js_get (fin_heads fs) k = Some h" "1 \<le> i" "i \<le> permissionSequence h"
    "fr_eventRef c = eref h i" using journal_invD(3) [OF inv em(1)] by blast
  have e: "event_ok h i e" using head_okD(7) [OF journal_invD(1) [OF inv h(1)] h(2,3)] em(1) h(4) by auto
  have prior: "previousEventRef e = Some p \<Longrightarrow> p \<noteq> fr_eventRef c" for p
    using e h(2,4) by (auto simp: event_ok_def split: if_splits)
  let ?rc = "js_set (fr_eventRef c, fr_receiverRef c) c (fin_receipts fs)"
  have fs': "fs' = fs\<lparr>fin_receipts := ?rc\<rparr>"
    using rc False em head by (auto simp: receipt_def split: if_split_asm option.split_asm)
  have same: "previousEventRef e = Some p \<Longrightarrow>
      js_get ?rc (p, fr_receiverRef c) = js_get (fin_receipts fs) (p, fr_receiverRef c)" for p
    using prior by simp
  show ?thesis
  proof (cases "1 < fe_sequence e")
    case True
    then obtain p where p: "previousEventRef e = Some p"
      using rc False em head by (auto simp: receipt_def split: if_split_asm option.split_asm)
    show ?thesis using rc True em head p same [OF p] prior [OF p] unfolding fs'
      by (auto simp: receipt_def split: if_split_asm option.split_asm)
  next
    case no: False
    then show ?thesis using rc em head unfolding fs'
      by (auto simp: receipt_def split: if_split_asm option.split_asm)
  qed
qed (use rc in simp)

section \<open>A concrete source\<close>

text \<open>A Workspace with one owner, an enrolled source with one receiver, one recorded change,
  its materialisation and its receipt.\<close>

definition ex_workspace :: workspace where
  "ex_workspace = \<lparr>ws_id = ''ws_1'', ws_handle = ''acme'', ws_displayName = ''Acme'', ws_type = ''personal'',
     ws_ownerUserId = ''usr_1'', ws_archivedAt = None, ws_createdAt = ''2026-01-01T00:00:00.000Z'',
     ws_updatedAt = ''2026-01-01T00:00:00.000Z'', ws_rest = []\<rparr>"

definition ex_member :: member where
  "ex_member = \<lparr>mem_id = ''mem_1'', mem_workspaceId = ''ws_1'', mem_accountId = ''usr_1'',
     mem_roles = [''owner''], mem_status = ''active'', mem_createdAt = ''2026-01-01T00:00:00.000Z'',
     mem_updatedAt = ''2026-01-01T00:00:00.000Z''\<rparr>"

definition ex_candidate :: fin_candidate where
  "ex_candidate = \<lparr>fc_workspace = ex_workspace, fc_management = initial_authority ''ws_1'',
     fc_binding = \<lparr>bb_intentId = ''int_1'', bb_workspaceId = ''ws_1'', bb_billingAuthority = ''auth'',
       bb_workspaceRef = ''wr'', bb_workspaceCreatedAt = ''2026-01-01T00:00:00.000Z'', bb_actorAccountId = ''usr_1'',
       bb_managementEpoch = 1, bb_createdAt = ''2026-01-01T00:00:00.000Z'', bb_organizationRef = ''org'',
       bb_ownerAcknowledgementRef = ''ack'', bb_boundAt = ''2026-01-01T00:00:00.000Z''\<rparr>,
     fc_members = [ex_member]\<rparr>"

definition ex_registration :: fin_registration where
  "ex_registration = \<lparr>reg_sourceRef = ''src'', reg_incarnation = ''inc'', genesisDigest = replicate 64 (CHR ''0''),
     requiredReceivers = [\<lparr>receiverRef = ''r1'', targetRef = ''t1''\<rparr>]\<rparr>"

definition ex_head :: fin_head where
  "ex_head = newHead ex_candidate ex_registration ''2026-01-02T00:00:00.000Z''"

definition ex_fs1 :: financial_source where
  "ex_fs1 = empty_financial_source\<lparr>fin_enrollments := [(''ws_1'', ex_candidate)], fin_heads := [(''ws_1'', ex_head)]\<rparr>"

definition ex_event :: fin_event where
  "ex_event = \<lparr>eventRef = ''src/event/1'', fe_sourceRef = ''src'', fe_incarnation = ''inc'', fe_workspaceId = ''ws_1'',
     fe_sequence = 1, previousEventRef = None, fe_kind = WorkspaceUpdate,
     fe_payload = (Some (FWorkspace ex_workspace), Some (FWorkspace (ex_workspace\<lparr>ws_displayName := ''A''\<rparr>))),
     fe_closed = False, fe_recordedAt = ''t''\<rparr>"

definition ex_head2 :: fin_head where
  "ex_head2 = ex_head\<lparr>permissionSequence := 1, lastEventRef := Some ''src/event/1''\<rparr>"

definition ex_fs2 :: financial_source where
  "ex_fs2 = ex_fs1\<lparr>fin_events := [(''src/event/1'', ex_event)], fin_heads := [(''ws_1'', ex_head2)]\<rparr>"

definition ex_materialization :: fin_materialization where
  "ex_materialization = \<lparr>fm_eventRef = ''src/event/1'', fm_sourceRef = ''src'', fm_incarnation = ''inc'',
     fm_sequence = 1, fm_payload = fe_payload ex_event, previousDigest = replicate 64 (CHR ''0''), wireJson = ''{}'',
     fm_digest = replicate 64 (CHR ''a'')\<rparr>"

definition ex_fs3 :: financial_source where
  "ex_fs3 = ex_fs2\<lparr>fin_materializations := [(''src/event/1'', ex_materialization)],
     fin_materializationHeads := [(''src/event/1'', ex_head2)],
     fin_heads := [(''ws_1'', ex_head2\<lparr>materializedSequence := 1, materializedDigest := replicate 64 (CHR ''a'')\<rparr>)]\<rparr>"

definition ex_receipt :: fin_receipt where
  "ex_receipt = \<lparr>fr_eventRef = ''src/event/1'', fr_sourceRef = ''src'', fr_incarnation = ''inc'', fr_sequence = 1,
     fr_receiverRef = ''r1'', fr_targetRef = ''t1'', fr_digest = replicate 64 (CHR ''a''), receiptRef = ''x'', receiptJson = ''y''\<rparr>"

definition ex_fs4 :: financial_source where
  "ex_fs4 = ex_fs3\<lparr>fin_receipts := [((''src/event/1'', ''r1''), ex_receipt)]\<rparr>"

definition ex_materialization_input :: materialization_input where
  "ex_materialization_input = \<lparr>mat_original = ex_event, mat_expectedHead = ex_head2,
     mat_materialization = ex_materialization\<rparr>"

lemma ex_enrolled:
  "enroll (Some ex_candidate) ex_candidate ex_registration ''2026-01-02T00:00:00.000Z'' empty_financial_source
   = Inr (Some ex_head, ex_fs1)"
  by code_simp

lemma ex_recorded:
  "fin_record ''t'' ''ws_1'' WorkspaceUpdate (Some (FWorkspace ex_workspace))
     (Some (FWorkspace (ex_workspace\<lparr>ws_displayName := ''A''\<rparr>))) None ex_fs1 = Inr ex_fs2"
  by code_simp

lemma ex_materialized: "materialize ex_materialization_input ex_fs2 = (True, ex_fs3)"
  by code_simp

lemma ex_receipted: "receipt ex_receipt ex_fs3 = (True, ex_fs4)"
  by code_simp

lemma ex_reachable: "fin_reachable ex_fs4"
  by (rule fin_next [OF fin_next [OF fin_next [OF fin_next [OF fin_init step_enroll [OF ex_enrolled]]
      step_record [OF ex_recorded]] step_materialize [OF ex_materialized]] step_receipt [OF ex_receipted]])

section \<open>Properties\<close>

text \<open>C14: a snapshot of an enrolled source is handed out only when the source is open and the
  actor an active member, and then every event of the source, from the first to the last, has
  a materialisation of its payload chained to the digest of its predecessor (the genesis
  digest for the first) and a receipt of every required receiver.\<close>

theorem snapshot_complete:
  assumes "fin_reachable fs" "snapshot fs c actor = Some sn"
  shows "\<not> fh_closed (sn_head sn) \<and> mem_accountId (sn_member sn) = actor \<and> mem_status (sn_member sn) = ''active''
    \<and> (\<forall>i. 1 \<le> i \<and> i \<le> permissionSequence (sn_head sn) \<longrightarrow>
        (\<exists>e m. js_get (fin_events fs) (eref (sn_head sn) i) = Some e \<and> fe_sequence e = i
           \<and> js_get (fin_materializations fs) (eref (sn_head sn) i) = Some m \<and> fm_payload m = fe_payload e
           \<and> digest_at fs (sn_head sn) (i - 1) = Some (previousDigest m)
           \<and> (\<forall>r \<in> set (requiredReceivers (sn_head sn)). hasReceipt fs (eref (sn_head sn) i) (receiverRef r))))"
proof (intro conjI allI impI)
  note inv = fin_reachable_inv [OF assms(1)] and sd = snapshotD [OF assms(2)]
  note ok = journal_invD(1) [OF inv sd(1)]
  fix i assume i: "1 \<le> i \<and> i \<le> permissionSequence (sn_head sn)"
  obtain e where e: "js_get (fin_events fs) (eref (sn_head sn) i) = Some e" "fe_sequence e = i"
    using head_okD(7) [OF ok] i by (auto simp: event_ok_def)
  obtain m where m: "js_get (fin_materializations fs) (eref (sn_head sn) i) = Some m" "fm_payload m = fe_payload e"
    "digest_at fs (sn_head sn) (i - 1) = Some (previousDigest m)"
    using head_okD(8) [OF ok, of i] i sd(3) e(1) by auto
  show "\<exists>e m. js_get (fin_events fs) (eref (sn_head sn) i) = Some e \<and> fe_sequence e = i
           \<and> js_get (fin_materializations fs) (eref (sn_head sn) i) = Some m \<and> fm_payload m = fe_payload e
           \<and> digest_at fs (sn_head sn) (i - 1) = Some (previousDigest m)
           \<and> (\<forall>r \<in> set (requiredReceivers (sn_head sn)). hasReceipt fs (eref (sn_head sn) i) (receiverRef r))"
    using e m snapshot_acknowledged [OF inv assms(2)] i by blast
qed (use snapshotD [OF assms(2)] in simp_all)

theorem snapshot_complete_witness:
  "\<exists>sn. snapshot ex_fs4 (Some ex_candidate) ''usr_1'' = Some sn \<and> permissionSequence (sn_head sn) = 1
     \<and> hasReceipt ex_fs4 (eref (sn_head sn) 1) ''r1''"
proof -
  obtain sn where sn: "snapshot ex_fs4 (Some ex_candidate) ''usr_1'' = Some sn"
    "permissionSequence (sn_head sn) = 1" "requiredReceivers (sn_head sn) = [\<lparr>receiverRef = ''r1'', targetRef = ''t1''\<rparr>]"
  proof
    show "snapshot ex_fs4 (Some ex_candidate) ''usr_1'' = Some \<lparr>sn_workspace = ex_workspace, sn_member = ex_member,
      sn_binding = fc_binding ex_candidate, sn_management = fc_management ex_candidate,
      sn_head = ex_head2\<lparr>materializedSequence := 1, materializedDigest := replicate 64 (CHR ''a'')\<rparr>\<rparr>"
      by code_simp
  qed (code_simp+)
  from snapshot_complete [OF ex_reachable sn(1)] sn show ?thesis by auto
qed

text \<open>Whatever sequence of enrolments, records, materialisations and receipts follows, no event,
  materialisation or receipt is ever removed or replaced, no enrolled source changes its
  registration or loses progress, and a source closed by the deletion of its Workspace stays
  closed at the same sequence number.\<close>

theorem journal_append_only:
  assumes "fin_reachable fs" "fin_step\<^sup>*\<^sup>* fs fs'"
  shows "fin_extends fs fs'"
  using fin_steps_extends [OF assms(2) fin_reachable_inv [OF assms(1)]] by simp

theorem journal_append_only_witness: "fin_extends ex_fs1 ex_fs3"
proof -
  have "fin_reachable ex_fs1" by (rule fin_next [OF fin_init step_enroll [OF ex_enrolled]])
  moreover have "fin_step\<^sup>*\<^sup>* ex_fs1 ex_fs3"
    using step_record [OF ex_recorded] step_materialize [OF ex_materialized] by (meson rtranclp.simps)
  ultimately show ?thesis by (rule journal_append_only)
qed

text \<open>C15: the events of an enrolled source are numbered from one without gap, each refers to its
  predecessor, and only the last event of a closed source is a closing one.\<close>

theorem journal_chain:
  assumes "fin_reachable fs" "js_get (fin_heads fs) k = Some h" "1 \<le> i" "i \<le> permissionSequence h"
  shows "\<exists>e. js_get (fin_events fs) (eref h i) = Some e \<and> fe_workspaceId e = k \<and> fe_sequence e = i
    \<and> previousEventRef e = (if i = 1 then None else Some (eref h (i - 1)))
    \<and> fe_closed e = (fh_closed h \<and> i = permissionSequence h)"
  using head_okD(1,7) [OF journal_invD(1) [OF fin_reachable_inv [OF assms(1)] assms(2)]] assms(3,4)
  by (fastforce simp: event_ok_def)

theorem journal_chain_witness:
  "\<exists>e. js_get (fin_events ex_fs4) ''src/event/1'' = Some e \<and> fe_sequence e = 1 \<and> previousEventRef e = None"
proof -
  let ?h = "ex_head2\<lparr>materializedSequence := 1, materializedDigest := replicate 64 (CHR ''a'')\<rparr>"
  have h: "js_get (fin_heads ex_fs4) ''ws_1'' = Some ?h" by code_simp
  have ref: "eref ?h 1 = ''src/event/1''" and p: "permissionSequence ?h = 1" by code_simp+
  from journal_chain [OF ex_reachable h, of 1] show ?thesis unfolding ref p by auto
qed

text \<open>An enrolment, a materialisation or a receipt whose acknowledgement was lost can be sent
  again: it is answered as before and changes nothing.\<close>

theorem financial_retry:
  assumes "fin_reachable fs"
  shows "(enroll current original reg at fs = Inr (Some h, fs') \<longrightarrow>
            enroll current' original reg at' fs' = Inr (Some h, fs'))
       \<and> (materialize input fs = (True, fs') \<longrightarrow> materialize input fs' = (True, fs'))
       \<and> (receipt rc fs = (True, fs') \<longrightarrow> receipt rc fs' = (True, fs'))"
  using enroll_retry materialize_retry receipt_retry [OF fin_reachable_inv [OF assms]] by blast

theorem financial_retry_witness: "materialize ex_materialization_input ex_fs3 = (True, ex_fs3)"
proof -
  have "fin_reachable ex_fs2"
    by (rule fin_next [OF fin_next [OF fin_init step_enroll [OF ex_enrolled]] step_record [OF ex_recorded]])
  from financial_retry [OF this, where fs' = ex_fs3] ex_materialized show ?thesis by blast
qed

end
