(* ===== verification/Workspace_Store.thy ===== *)
theory Workspace_Store
  imports Financial_Source
begin

text \<open>
  The Workspace part of \<open>InMemoryOpenTofuControlStore\<close>
  (\<open>core/domains/deploy-control/store.ts\<close>): the management lifecycle (active, draining,
  frozen, released) with its epoch, the membership ledger, the personal bootstrap claim, and
  the financial source journal that every Workspace write passes through. The state is a
  record of the store's maps; each operation takes the clock reading and the state and
  returns an error or its result with the new state.
\<close>

section \<open>The Workspace store\<close>

record stored_billing_intent = billing_intent +
  originalWorkspace :: workspace
  originalActor :: member
  originalAuthority :: management

record workspace_store =
  workspaces :: "(string, workspace) js_map"
  workspaceManagement :: "(string, management) js_map"
  workspaceMembers :: "(string, member) js_map"
  personalWorkspaceBootstrapIds :: "(string, string) js_map"
  workspaceBillingIntents :: "(string, stored_billing_intent) js_map"
  workspaceBillingBindings :: "(string, billing_binding) js_map"
  financialSource :: financial_source

definition workspaceMemberKey :: "string \<Rightarrow> string \<Rightarrow> string" where
  "workspaceMemberKey workspaceId accountId = workspaceId @ [CHR 0x00] @ accountId"

definition financialPutWorkspace ::
    "string \<Rightarrow> string \<Rightarrow> workspace \<Rightarrow> ('a) workspace_store_scheme \<Rightarrow> store_error + ('a) workspace_store_scheme" where
  "financialPutWorkspace now k w s =
     chain (fin_record now k WorkspaceUpdate (map_option FWorkspace (js_get (workspaces s) k))
              (Some (FWorkspace w)) None (financialSource s)) (\<lambda>fs.
       Inr (s\<lparr>workspaces := js_set k w (workspaces s), financialSource := fs\<rparr>))"

definition financialPutMember ::
    "string \<Rightarrow> string \<Rightarrow> member \<Rightarrow> ('a) workspace_store_scheme \<Rightarrow> store_error + ('a) workspace_store_scheme" where
  "financialPutMember now key m s =
     (let before = js_get (workspaceMembers s) key in
      chain (fin_record now (mem_workspaceId m) (if before = None then MemberInsert else MemberUpdate)
               (map_option FMember before) (Some (FMember m)) None (financialSource s)) (\<lambda>fs.
        Inr (s\<lparr>workspaceMembers := js_set key m (workspaceMembers s), financialSource := fs\<rparr>)))"

definition financialPutManagement ::
    "string \<Rightarrow> string \<Rightarrow> management \<Rightarrow> ('a) workspace_store_scheme \<Rightarrow> store_error + ('a) workspace_store_scheme" where
  "financialPutManagement now k m s =
     (let before = js_get (workspaceManagement s) k in
      chain (case before of None \<Rightarrow> Inr (financialSource s)
             | Some b \<Rightarrow> fin_record now k ManagementUpdate (Some (FManagement b)) (Some (FManagement m))
                 (Some (managementState m)) (financialSource s)) (\<lambda>fs.
        Inr (s\<lparr>workspaceManagement := js_set k m (workspaceManagement s), financialSource := fs\<rparr>)))"

definition financialDeleteWorkspace ::
    "string \<Rightarrow> string \<Rightarrow> ('a) workspace_store_scheme \<Rightarrow> store_error + (bool \<times> ('a) workspace_store_scheme)" where
  "financialDeleteWorkspace now k s =
     (case js_get (workspaces s) k of
        None \<Rightarrow> Inr (False, s)
      | Some w \<Rightarrow>
          chain (fin_record now k WorkspaceDelete (Some (FWorkspace w)) None None (financialSource s)) (\<lambda>fs.
            Inr (True, s\<lparr>workspaces := js_delete k (workspaces s), financialSource := fs\<rparr>)))"

definition financialDeleteMember ::
    "string \<Rightarrow> string \<Rightarrow> ('a) workspace_store_scheme \<Rightarrow> store_error + (bool \<times> ('a) workspace_store_scheme)" where
  "financialDeleteMember now key s =
     (case js_get (workspaceMembers s) key of
        None \<Rightarrow> Inr (False, s)
      | Some m \<Rightarrow>
          chain (fin_record now (mem_workspaceId m) MemberDelete (Some (FMember m)) None None (financialSource s)) (\<lambda>fs.
            Inr (True, s\<lparr>workspaceMembers := js_delete key (workspaceMembers s), financialSource := fs\<rparr>)))"

definition financialCandidate ::
    "(string \<Rightarrow> string \<Rightarrow> int) \<Rightarrow> ('a) workspace_store_scheme \<Rightarrow> string \<Rightarrow> fin_candidate option" where
  "financialCandidate localeCompare s k =
     (case (js_get (workspaces s) k, js_get (workspaceManagement s) k, js_get (workspaceBillingBindings s) k) of
        (Some w, Some m, Some b) \<Rightarrow>
          Some \<lparr>fc_workspace = w, fc_management = m, fc_binding = b,
            fc_members = js_sort (\<lambda>l r. let c = localeCompare (mem_createdAt l) (mem_createdAt r)
                                        in if c \<noteq> 0 then c else localeCompare (mem_id l) (mem_id r))
              (filter (\<lambda>m. mem_workspaceId m = k) (js_values (workspaceMembers s)))\<rparr>
      | _ \<Rightarrow> None)"

definition prepareWorkspaceFinancialEnrollment ::
    "(string \<Rightarrow> string \<Rightarrow> int) \<Rightarrow> ('a) workspace_store_scheme \<Rightarrow> string \<Rightarrow> fin_candidate option" where
  "prepareWorkspaceFinancialEnrollment localeCompare s k =
     (case financialCandidate localeCompare s k of None \<Rightarrow> None
      | Some c \<Rightarrow> if length (fc_members c) \<le> 64 \<and> managementState (fc_management c) = Active
            \<and> ws_archivedAt (fc_workspace c) \<in> {None, Some []} then Some c else None)"

text \<open>Detaching the stored rows from the caller's references has no counterpart on values.\<close>

definition enrollWorkspaceFinancialSource ::
    "(string \<Rightarrow> string \<Rightarrow> int) \<Rightarrow> fin_candidate \<Rightarrow> fin_registration \<Rightarrow> string \<Rightarrow> ('a) workspace_store_scheme
     \<Rightarrow> store_error + (fin_head option \<times> ('a) workspace_store_scheme)" where
  "enrollWorkspaceFinancialSource localeCompare original reg at s =
     chain (enroll (financialCandidate localeCompare s (ws_id (fc_workspace original))) original reg at (financialSource s))
       (\<lambda>(head, fs). Inr (head, s\<lparr>financialSource := fs\<rparr>))"

definition captureWorkspaceFinancialSourceSnapshot ::
    "(string \<Rightarrow> string \<Rightarrow> int) \<Rightarrow> string \<Rightarrow> string \<Rightarrow> ('a) workspace_store_scheme \<Rightarrow> fin_snapshot option" where
  "captureWorkspaceFinancialSourceSnapshot localeCompare workspaceId actor s =
     snapshot (financialSource s) (financialCandidate localeCompare s workspaceId) actor"

definition putWorkspace ::
    "string \<Rightarrow> workspace \<Rightarrow> ('a) workspace_store_scheme \<Rightarrow> store_error + ('a) workspace_store_scheme" where
  "putWorkspace now w s =
     chain (financialPutWorkspace now (ws_id w) w s) (\<lambda>s.
       if js_has (workspaceManagement s) (ws_id w) then Inr s
       else financialPutManagement now (ws_id w) (initial_authority (ws_id w)) s)"

definition isWorkspaceManagementAdmissionAllowed ::
    "('a) workspace_store_scheme \<Rightarrow> string \<Rightarrow> management option \<Rightarrow> store_error + bool" where
  "isWorkspaceManagementAdmissionAllowed s workspaceId expected =
     chain (case expected of None \<Rightarrow> Inr ()
            | Some e \<Rightarrow> assertWorkspaceManagementAuthorityInput e (mgmt_workspaceId e)) (\<lambda>_.
       Inr (js_has (workspaces s) workspaceId
         \<and> (case js_get (workspaceManagement s) workspaceId of None \<Rightarrow> False
            | Some c \<Rightarrow> mgmt_workspaceId c = workspaceId \<and> managementState c = Active
                \<and> (case expected of None \<Rightarrow> True
                   | Some e \<Rightarrow> mgmt_workspaceId e = workspaceId \<and> managementEpoch e = managementEpoch c))))"

definition isWorkspaceManagementDraining ::
    "('a) workspace_store_scheme \<Rightarrow> management \<Rightarrow> store_error + bool" where
  "isWorkspaceManagementDraining s expected =
     chain (assertWorkspaceFreezeExpectation expected) (\<lambda>_.
       Inr (js_has (workspaces s) (mgmt_workspaceId expected)
         \<and> (case js_get (workspaceManagement s) (mgmt_workspaceId expected) of None \<Rightarrow> False
            | Some c \<Rightarrow> mgmt_workspaceId c = mgmt_workspaceId expected \<and> managementState c = Draining
                \<and> managementEpoch c = managementEpoch expected)))"

definition createWorkspaceWithInitialOwner ::
    "string \<Rightarrow> workspace \<Rightarrow> member \<Rightarrow> ('a) workspace_store_scheme
     \<Rightarrow> store_error + (workspace option \<times> ('a) workspace_store_scheme)" where
  "createWorkspaceWithInitialOwner now w m s =
     chain (validateWorkspaceInitialOwner w m) (\<lambda>_.
     case List.find (\<lambda>row. ws_handle row = ws_handle w \<or> ws_id row = ws_id w) (js_values (workspaces s)) of
       Some existing \<Rightarrow>
         if ws_handle existing \<noteq> ws_handle w then Inr (None, s)
         else chain (isWorkspaceManagementAdmissionAllowed s (ws_id existing) None) (\<lambda>allowed.
           Inr (if allowed \<and> sharedWorkspaceCreationAllowed existing w
                   (js_get (workspaceMembers s) (workspaceMemberKey (ws_id existing) (ws_ownerUserId w)))
                then Some existing else None, s))
     | None \<Rightarrow>
         if js_has (workspaceMembers s) (workspaceMemberKey (ws_id w) (mem_accountId m))
            \<or> list_ex (\<lambda>row. mem_id row = mem_id m) (js_values (workspaceMembers s))
         then Inl (PlainError ''Workspace member identity already exists'')
         else chain (financialPutWorkspace now (ws_id w) w s) (\<lambda>s.
              chain (financialPutManagement now (ws_id w) (initial_authority (ws_id w)) s) (\<lambda>s.
              chain (financialPutMember now (workspaceMemberKey (ws_id w) (mem_accountId m)) m s) (\<lambda>s.
                Inr (Some w, s)))))"

definition deleteWorkspace ::
    "string \<Rightarrow> string \<Rightarrow> management option \<Rightarrow> ('a) workspace_store_scheme
     \<Rightarrow> store_error + (bool \<times> ('a) workspace_store_scheme)" where
  "deleteWorkspace now k expected s =
     chain (case expected of None \<Rightarrow> Inr (initial_authority k)
            | Some e \<Rightarrow> assertWorkspaceManagementAdmission
                (if js_has (workspaces s) k then js_get (workspaceManagement s) k else None) k (Some e)) (\<lambda>_.
     chain (financialDeleteWorkspace now k s) (\<lambda>(existed, s).
       Inr (existed, s\<lparr>workspaceManagement := js_delete k (workspaceManagement s)\<rparr>)))"

definition replaceWorkspace ::
    "string \<Rightarrow> replacement_input \<Rightarrow> ('a) workspace_store_scheme
     \<Rightarrow> store_error + (bool \<times> ('a) workspace_store_scheme)" where
  "replaceWorkspace now input s =
     (let k = ws_id (ri_workspace input) in
      chain (validateWorkspaceReplacement input) (\<lambda>_.
      chain (assertWorkspaceManagementAdmission (js_get (workspaceManagement s) k) k (Some (ri_authority input))) (\<lambda>_.
        if js_get (workspaces s) k \<noteq> Some (ri_expectedWorkspace input) then Inr (False, s)
        else chain (financialPutWorkspace now k (ri_workspace input) s) (\<lambda>s. Inr (True, s)))))"

definition replaceWorkspaceForAccount ::
    "string \<Rightarrow> replacement_input \<Rightarrow> string \<Rightarrow> member option \<Rightarrow> bool \<Rightarrow> ('a) workspace_store_scheme
     \<Rightarrow> store_error + (bool \<times> ('a) workspace_store_scheme)" where
  "replaceWorkspaceForAccount now input actor expectedActor requireMembership s =
     (let k = ws_id (ri_workspace input) in
      chain (validateWorkspaceReplacement input) (\<lambda>_.
      chain (assertWorkspaceManagementAdmission (js_get (workspaceManagement s) k) k (Some (ri_authority input))) (\<lambda>_.
      chain (if k \<noteq> ws_id (ri_expectedWorkspace input) then Inr False
             else workspaceAccountAuthorityAllowed
               \<lparr>actorAccountId = actor, aa_expectedWorkspace = ri_expectedWorkspace input,
                aa_expectedActor = expectedActor, requireCurrentMembership = requireMembership\<rparr>) (\<lambda>allowed.
        if \<not> allowed then Inr (False, s)
        else if (requireMembership \<or> ws_ownerUserId (ri_expectedWorkspace input) \<noteq> actor)
             \<and> js_get (workspaceMembers s) (workspaceMemberKey k actor) \<noteq> expectedActor then Inr (False, s)
        else replaceWorkspace now input s))))"

definition workspaceMemberReplacementMatches ::
    "('b) workspace_store_scheme \<Rightarrow> ('a) repair_input_scheme \<Rightarrow> bool" where
  "workspaceMemberReplacementMatches s input \<longleftrightarrow>
     js_get (workspaces s) (mem_workspaceId (mi_member input)) = Some (mi_expectedWorkspace input)
     \<and> js_get (workspaceMembers s)
         (workspaceMemberKey (mem_workspaceId (mi_member input)) (mem_accountId (mi_member input)))
       = mi_expectedMember input"

definition putWorkspaceMember ::
    "string \<Rightarrow> member \<Rightarrow> ('a) workspace_store_scheme \<Rightarrow> store_error + ('a) workspace_store_scheme" where
  "putWorkspaceMember now m s =
     financialPutMember now (workspaceMemberKey (mem_workspaceId m) (mem_accountId m)) m s"

definition mutateWorkspaceMember ::
    "string \<Rightarrow> mutation_input \<Rightarrow> ('a) workspace_store_scheme
     \<Rightarrow> store_error + (bool \<times> ('a) workspace_store_scheme)" where
  "mutateWorkspaceMember now input s =
     (let m = mi_member input; ws = mem_workspaceId m in
      chain (validateWorkspaceMemberReplacement input) (\<lambda>_.
      chain (assertWorkspaceManagementAdmission (js_get (workspaceManagement s) ws) ws (Some (mi_authority input))) (\<lambda>_.
      chain (workspaceMemberMutationAllowed input) (\<lambda>allowed.
        if \<not> allowed \<or> \<not> workspaceMemberReplacementMatches s input
           \<or> js_get (workspaceMembers s) (workspaceMemberKey ws (mem_accountId (mi_expectedActor input)))
               \<noteq> Some (mi_expectedActor input)
        then Inr (False, s)
        else if workspaceMemberMutationDropsOwner input
           \<and> \<not> list_ex (\<lambda>row. mem_workspaceId row = ws \<and> mem_accountId row \<noteq> mem_accountId m
                  \<and> isCanonicalActiveWorkspaceOwner row) (js_values (workspaceMembers s))
        then Inr (False, s)
        else chain (financialPutMember now (workspaceMemberKey ws (mem_accountId m)) m s) (\<lambda>s. Inr (True, s))))))"

definition repairWorkspaceOwnerMember ::
    "string \<Rightarrow> repair_input \<Rightarrow> ('a) workspace_store_scheme
     \<Rightarrow> store_error + (bool \<times> ('a) workspace_store_scheme)" where
  "repairWorkspaceOwnerMember now input s =
     (let m = mi_member input; ws = mem_workspaceId m in
      chain (validateWorkspaceOwnerMemberRepair input) (\<lambda>_.
      chain (assertWorkspaceManagementAdmission (js_get (workspaceManagement s) ws) ws (Some (mi_authority input))) (\<lambda>_.
        if \<not> workspaceMemberReplacementMatches s input then Inr (False, s)
        else chain (financialPutMember now (workspaceMemberKey ws (mem_accountId m)) m s) (\<lambda>s. Inr (True, s)))))"

definition getWorkspaceManagement ::
    "string \<Rightarrow> string \<Rightarrow> ('a) workspace_store_scheme
     \<Rightarrow> store_error + (management option \<times> ('a) workspace_store_scheme)" where
  "getWorkspaceManagement now k s =
     (if \<not> js_has (workspaces s) k then Inr (None, s)
      else case js_get (workspaceManagement s) k of
          Some c \<Rightarrow> Inr (Some c, s)
        | None \<Rightarrow> chain (financialPutManagement now k (initial_authority k) s) (\<lambda>s.
            Inr (Some (initial_authority k), s)))"

datatype drain_result = DrainStarted management | DrainExisting management
  | DrainConflict management | DrainNotFound

definition current_management :: "('a) workspace_store_scheme \<Rightarrow> string \<Rightarrow> management" where
  "current_management s k =
     (case js_get (workspaceManagement s) k of None \<Rightarrow> initial_authority k | Some c \<Rightarrow> c)"

definition beginWorkspaceDraining ::
    "string \<Rightarrow> string \<Rightarrow> management \<Rightarrow> ('a) workspace_store_scheme
     \<Rightarrow> store_error + (drain_result \<times> ('a) workspace_store_scheme)" where
  "beginWorkspaceDraining now k expected s =
     chain (assertWorkspaceManagementAuthorityInput expected k) (\<lambda>_.
     if \<not> js_has (workspaces s) k then Inr (DrainNotFound, s)
     else
       (let current = current_management s k in
        if managementState current = Active \<and> managementEpoch current = managementEpoch expected then
          (if max_safe_integer \<le> managementEpoch current
           then Inl (TypeError (''Workspace '' @ k @ '' management epoch cannot advance safely''))
           else
             (let draining = \<lparr>mgmt_workspaceId = k, managementState = Draining,
                              managementEpoch = managementEpoch current + 1\<rparr>
              in chain (financialPutManagement now k draining s) (\<lambda>s. Inr (DrainStarted draining, s))))
        else if managementState current = Draining \<and> managementEpoch current = managementEpoch expected + 1
          then Inr (DrainExisting current, s)
        else Inr (DrainConflict current, s)))"

definition claimPersonalWorkspaceBootstrap ::
    "(string \<Rightarrow> string \<Rightarrow> int) \<Rightarrow> string \<Rightarrow> string \<Rightarrow> workspace \<Rightarrow> member option \<Rightarrow> ('a) workspace_store_scheme
     \<Rightarrow> store_error + (workspace option \<times> ('a) workspace_store_scheme)" where
  "claimPersonalWorkspaceBootstrap localeCompare now ownerUserId candidate initialOwner s =
     chain (case initialOwner of None \<Rightarrow> Inr ()
            | Some m \<Rightarrow> validatePersonalWorkspaceBootstrapOwnerMember ownerUserId candidate m) (\<lambda>_.
     case js_get (personalWorkspaceBootstrapIds s) ownerUserId of
       Some claimedId \<Rightarrow>
         (case js_get (workspaces s) claimedId of
            None \<Rightarrow> Inl (PlainError ''personal Workspace bootstrap claim is dangling'')
          | Some claimed \<Rightarrow> Inr (Some claimed, s))
     | None \<Rightarrow>
         (case js_sort (\<lambda>l r. let c = localeCompare (ws_createdAt l) (ws_createdAt r)
                              in if c \<noteq> 0 then c else localeCompare (ws_id l) (ws_id r))
                 (filter (\<lambda>w. ws_ownerUserId w = ownerUserId \<and> ws_type w = ''personal'')
                   (js_values (workspaces s))) of
            adoptable # _ \<Rightarrow>
              (let s = s\<lparr>personalWorkspaceBootstrapIds :=
                        js_set ownerUserId (ws_id adoptable) (personalWorkspaceBootstrapIds s)\<rparr>
               in if js_has (workspaceManagement s) (ws_id adoptable) then Inr (Some adoptable, s)
                  else chain (financialPutManagement now (ws_id adoptable) (initial_authority (ws_id adoptable)) s)
                    (\<lambda>s. Inr (Some adoptable, s)))
          | [] \<Rightarrow>
              if js_has (workspaces s) (ws_id candidate)
                 \<or> list_ex (\<lambda>w. ws_handle w = ws_handle candidate) (js_values (workspaces s))
              then Inr (None, s)
              else if (case initialOwner of None \<Rightarrow> False
                       | Some m \<Rightarrow> list_ex (\<lambda>row. mem_id row = mem_id m) (js_values (workspaceMembers s)))
              then Inl (PlainError ''Initial personal Workspace member identity is occupied'')
              else
                chain (financialPutWorkspace now (ws_id candidate) candidate s) (\<lambda>s.
                chain (financialPutManagement now (ws_id candidate) (initial_authority (ws_id candidate)) s) (\<lambda>s.
                let s = s\<lparr>personalWorkspaceBootstrapIds :=
                          js_set ownerUserId (ws_id candidate) (personalWorkspaceBootstrapIds s)\<rparr> in
                chain (case initialOwner of None \<Rightarrow> Inr s
                       | Some m \<Rightarrow> financialPutMember now (workspaceMemberKey (ws_id candidate) ownerUserId) m s)
                  (\<lambda>s. Inr (Some candidate, s))))))"

section \<open>Billing bindings\<close>

datatype 'a billing_result = BillingCreated 'a | BillingExisting 'a | BillingConflict | BillingRefused

definition workspaceBillingIntentMatches ::
    "('a) billing_intent_scheme \<Rightarrow> ('b) billing_intent_scheme \<Rightarrow> bool" where
  "workspaceBillingIntentMatches l r \<longleftrightarrow>
     bb_intentId l = bb_intentId r \<and> bb_workspaceId l = bb_workspaceId r
     \<and> bb_billingAuthority l = bb_billingAuthority r \<and> bb_workspaceRef l = bb_workspaceRef r
     \<and> bb_workspaceCreatedAt l = bb_workspaceCreatedAt r \<and> bb_actorAccountId l = bb_actorAccountId r
     \<and> bb_managementEpoch l = bb_managementEpoch r \<and> bb_createdAt l = bb_createdAt r"

definition workspaceBillingBindingMatches :: "billing_binding \<Rightarrow> billing_binding \<Rightarrow> bool" where
  "workspaceBillingBindingMatches l r \<longleftrightarrow> workspaceBillingIntentMatches l r
     \<and> bb_organizationRef l = bb_organizationRef r
     \<and> bb_ownerAcknowledgementRef l = bb_ownerAcknowledgementRef r"

definition bounded_text :: "string \<Rightarrow> bool" where
  "bounded_text v \<longleftrightarrow> v \<noteq> [] \<and> length v \<le> 256"

definition workspace_ref_ok :: "string \<Rightarrow> bool" where
  "workspace_ref_ok v \<longleftrightarrow> 8 \<le> length v \<and> length v \<le> 128 \<and> list_all (\<lambda>c. alnum c \<or> c \<in> set ''_-'') v"

text \<open>\<open>v !== new Date(v).toISOString()\<close>, which throws on a text that is no date.\<close>

fun some_not_iso :: "string list \<Rightarrow> store_error + bool" where
  "some_not_iso [] = Inr False"
| "some_not_iso (v # vs) =
     (case date_parse v of None \<Rightarrow> Inl (RangeError ''Invalid time value'')
      | Some t \<Rightarrow> if iso_string t \<noteq> v then Inr True else some_not_iso vs)"

definition assertWorkspaceBillingBindingRecord :: "billing_binding \<Rightarrow> store_error + unit" where
  "assertWorkspaceBillingBindingRecord b =
     (let err = TypeError ''Invalid retained Workspace billing binding'' in
      if \<not> list_all bounded_text [bb_workspaceId b, bb_intentId b, bb_billingAuthority b, bb_workspaceRef b,
             bb_actorAccountId b, bb_organizationRef b, bb_ownerAcknowledgementRef b]
         \<or> \<not> workspace_ref_ok (bb_workspaceRef b) \<or> \<not> is_safe_integer (bb_managementEpoch b)
         \<or> bb_managementEpoch b < 1
      then Inl err
      else chain (some_not_iso [bb_workspaceCreatedAt b, bb_createdAt b, bb_boundAt b]) (\<lambda>bad. throw_if bad err))"

definition assertWorkspaceBillingIntent :: "stored_billing_intent \<Rightarrow> store_error + unit" where
  "assertWorkspaceBillingIntent input =
     (let err = TypeError ''Invalid Workspace billing intent'' in
      if \<not> list_all bounded_text [bb_intentId input, bb_workspaceId input, bb_billingAuthority input,
             bb_workspaceRef input, bb_actorAccountId input]
         \<or> \<not> workspace_ref_ok (bb_workspaceRef input)
      then Inl err
      else chain (some_not_iso [bb_createdAt input]) (\<lambda>bad.
      if bad \<or> bb_workspaceCreatedAt input \<noteq> ws_createdAt (originalWorkspace input)
         \<or> bb_workspaceId input \<noteq> ws_id (originalWorkspace input)
         \<or> bb_managementEpoch input \<noteq> managementEpoch (originalAuthority input)
      then Inl err
      else chain (assertWorkspaceManagementAuthorityInput (originalAuthority input) (bb_workspaceId input)) (\<lambda>_.
      chain (parseWorkspaceMemberRecord (originalActor input)) (\<lambda>m.
        throw_if (mem_workspaceId m \<noteq> bb_workspaceId input \<or> mem_accountId m \<noteq> bb_actorAccountId input
            \<or> mem_status m \<noteq> ''active'' \<or> \<not> has_role ''owner'' m \<and> \<not> has_role ''admin'' m)
          (TypeError ''Workspace billing intent requires current owner/admin membership'')))))"

definition assertWorkspaceBillingClaim :: "stored_billing_intent \<Rightarrow> billing_binding \<Rightarrow> store_error + unit" where
  "assertWorkspaceBillingClaim expectedIntent binding =
     (let err = TypeError ''Invalid Workspace billing owner acknowledgement'' in
      chain (assertWorkspaceBillingIntent expectedIntent) (\<lambda>_.
      chain (assertWorkspaceBillingBindingRecord binding) (\<lambda>_.
      if \<not> workspaceBillingIntentMatches binding expectedIntent
         \<or> \<not> bounded_text (bb_organizationRef binding) \<or> \<not> bounded_text (bb_ownerAcknowledgementRef binding)
      then Inl err
      else chain (some_not_iso [bb_boundAt binding]) (\<lambda>bad. throw_if bad err))))"

definition workspaceBillingPreparationMatches ::
    "stored_billing_intent \<Rightarrow> stored_billing_intent \<Rightarrow> bool" where
  "workspaceBillingPreparationMatches l r \<longleftrightarrow>
     (bb_intentId l \<noteq> bb_intentId r
      \<or> bb_workspaceRef l = bb_workspaceRef r \<and> bb_actorAccountId l = bb_actorAccountId r
        \<and> bb_createdAt l = bb_createdAt r \<and> bb_managementEpoch l = bb_managementEpoch r
        \<and> originalWorkspace l = originalWorkspace r \<and> originalActor l = originalActor r
        \<and> originalAuthority l = originalAuthority r)
     \<and> bb_workspaceId l = bb_workspaceId r \<and> bb_billingAuthority l = bb_billingAuthority r
     \<and> bb_workspaceCreatedAt l = bb_workspaceCreatedAt r
     \<and> ws_ownerUserId (originalWorkspace l) = ws_ownerUserId (originalWorkspace r)
     \<and> ws_type (originalWorkspace l) = ws_type (originalWorkspace r)
     \<and> ws_handle (originalWorkspace l) = ws_handle (originalWorkspace r)"

definition workspaceBillingAuthorityMatches ::
    "('a) workspace_store_scheme \<Rightarrow> stored_billing_intent \<Rightarrow> bool" where
  "workspaceBillingAuthorityMatches s intent \<longleftrightarrow>
     js_get (workspaces s) (bb_workspaceId intent) = Some (originalWorkspace intent)
     \<and> (case js_get (workspaceManagement s) (bb_workspaceId intent) of None \<Rightarrow> False
        | Some m \<Rightarrow> managementState m = Active \<and> managementEpoch m = managementEpoch (originalAuthority intent))
     \<and> (case js_get (workspaceMembers s) (workspaceMemberKey (bb_workspaceId intent) (bb_actorAccountId intent)) of
          None \<Rightarrow> False
        | Some m \<Rightarrow> m = originalActor intent \<and> mem_status m = ''active''
            \<and> (has_role ''owner'' m \<or> has_role ''admin'' m))"

definition prepareWorkspaceBillingBinding ::
    "stored_billing_intent \<Rightarrow> ('a) workspace_store_scheme
     \<Rightarrow> store_error + (stored_billing_intent billing_result \<times> ('a) workspace_store_scheme)" where
  "prepareWorkspaceBillingBinding intent s =
     chain (assertWorkspaceBillingIntent intent) (\<lambda>_.
     (let current = js_get (workspaceBillingIntents s) (bb_workspaceId intent) in
      if (case current of None \<Rightarrow> False | Some c \<Rightarrow> \<not> workspaceBillingPreparationMatches c intent)
      then Inr (BillingConflict, s)
      else if \<not> workspaceBillingAuthorityMatches s intent
         \<or> (case current of None \<Rightarrow> False | Some c \<Rightarrow> \<not> workspaceBillingAuthorityMatches s c)
      then Inr (BillingRefused, s)
      else case current of
        Some c \<Rightarrow> Inr (BillingExisting c, s)
      | None \<Rightarrow>
          if list_ex (\<lambda>row. bb_intentId row = bb_intentId intent
                 \<or> bb_billingAuthority row = bb_billingAuthority intent \<and> bb_workspaceRef row = bb_workspaceRef intent)
               (js_values (workspaceBillingIntents s))
          then Inr (BillingConflict, s)
          else Inr (BillingCreated intent, s\<lparr>workspaceBillingIntents :=
                 js_set (bb_workspaceId intent) intent (workspaceBillingIntents s)\<rparr>)))"

definition claimWorkspaceBillingBinding ::
    "stored_billing_intent \<Rightarrow> billing_binding \<Rightarrow> ('a) workspace_store_scheme
     \<Rightarrow> store_error + (billing_binding billing_result \<times> ('a) workspace_store_scheme)" where
  "claimWorkspaceBillingBinding expectedIntent binding s =
     chain (assertWorkspaceBillingClaim expectedIntent binding) (\<lambda>_.
     case js_get (workspaceBillingIntents s) (bb_workspaceId binding) of
       None \<Rightarrow> Inr (BillingConflict, s)
     | Some intent \<Rightarrow>
         (let existing = js_get (workspaceBillingBindings s) (bb_workspaceId binding) in
          if intent \<noteq> expectedIntent then Inr (BillingConflict, s)
          else if (case existing of None \<Rightarrow> False | Some e \<Rightarrow> \<not> workspaceBillingBindingMatches e binding)
          then Inr (BillingConflict, s)
          else if \<not> workspaceBillingAuthorityMatches s intent then Inr (BillingRefused, s)
          else case existing of
            Some e \<Rightarrow> Inr (BillingExisting e, s)
          | None \<Rightarrow>
              if list_ex (\<lambda>row. bb_billingAuthority row = bb_billingAuthority binding
                     \<and> (bb_organizationRef row = bb_organizationRef binding
                        \<or> bb_workspaceRef row = bb_workspaceRef binding)) (js_values (workspaceBillingBindings s))
              then Inr (BillingConflict, s)
              else Inr (BillingCreated binding, s\<lparr>workspaceBillingBindings :=
                     js_set (bb_workspaceId binding) binding (workspaceBillingBindings s)\<rparr>)))"

section \<open>Lemmas: the writes and their frames\<close>

text \<open>Each write updates one map and takes a step of the journal.\<close>

lemma financialPutWorkspaceD:
  "financialPutWorkspace now k w s = Inr s' \<Longrightarrow>
   \<exists>fs. fin_step\<^sup>*\<^sup>* (financialSource s) fs
     \<and> s' = s\<lparr>workspaces := js_set k w (workspaces s), financialSource := fs\<rparr>"
  by (auto simp: financialPutWorkspace_def dest!: step_record)

lemma financialPutMemberD:
  "financialPutMember now key m s = Inr s' \<Longrightarrow>
   \<exists>fs. fin_step\<^sup>*\<^sup>* (financialSource s) fs
     \<and> s' = s\<lparr>workspaceMembers := js_set key m (workspaceMembers s), financialSource := fs\<rparr>"
  by (auto simp: financialPutMember_def Let_def dest!: step_record)

lemma financialPutManagementD:
  "financialPutManagement now k m s = Inr s' \<Longrightarrow>
   \<exists>fs. fin_step\<^sup>*\<^sup>* (financialSource s) fs
     \<and> s' = s\<lparr>workspaceManagement := js_set k m (workspaceManagement s), financialSource := fs\<rparr>"
  by (auto simp: financialPutManagement_def Let_def dest!: step_record split: option.splits)

lemma financialDeleteWorkspaceD:
  "financialDeleteWorkspace now k s = Inr (b, s') \<Longrightarrow>
   \<exists>fs. fin_step\<^sup>*\<^sup>* (financialSource s) fs
     \<and> s' = s\<lparr>workspaces := (if b then js_delete k (workspaces s) else workspaces s), financialSource := fs\<rparr>
     \<and> b = js_has (workspaces s) k"
  by (auto simp: financialDeleteWorkspace_def js_has_def dest!: step_record split: option.splits
      intro: exI [of _ "financialSource s"])

section \<open>The store invariant\<close>

definition management_ok :: "string \<Rightarrow> management \<Rightarrow> bool" where
  "management_ok k m \<longleftrightarrow> mgmt_workspaceId m = k \<and> 1 \<le> managementEpoch m \<and> managementEpoch m \<le> max_safe_integer"

definition billing_unique :: "(string, billing_binding) js_map \<Rightarrow> bool" where
  "billing_unique bs \<longleftrightarrow>
     (\<forall>k b. js_get bs k = Some b \<longrightarrow> bb_workspaceId b = k)
     \<and> (\<forall>k b k' b'. js_get bs k = Some b \<and> js_get bs k' = Some b' \<and> bb_billingAuthority b = bb_billingAuthority b'
          \<and> (bb_organizationRef b = bb_organizationRef b' \<or> bb_workspaceRef b = bb_workspaceRef b') \<longrightarrow> k = k')"

definition ws_inv :: "('a) workspace_store_scheme \<Rightarrow> bool" where
  "ws_inv s \<longleftrightarrow>
     (\<forall>k m. js_get (workspaceManagement s) k = Some m \<longrightarrow> js_has (workspaces s) k \<and> management_ok k m)
     \<and> (\<forall>k w. js_get (workspaces s) k = Some w \<longrightarrow> ws_id w = k)
     \<and> (\<forall>key m. js_get (workspaceMembers s) key = Some m \<longrightarrow>
          workspaceMemberKey (mem_workspaceId m) (mem_accountId m) = key)
     \<and> js_wf (workspaceMembers s) \<and> js_wf (workspaces s)
     \<and> billing_unique (workspaceBillingBindings s) \<and> fin_reachable (financialSource s)"

text \<open>Management rows are kept and their epoch only advances.\<close>

definition epochs_advance :: "('a) workspace_store_scheme \<Rightarrow> ('a) workspace_store_scheme \<Rightarrow> bool" where
  "epochs_advance s s' \<longleftrightarrow>
     (\<forall>k m. js_get (workspaceManagement s) k = Some m \<longrightarrow>
        (\<exists>m'. js_get (workspaceManagement s') k = Some m'
           \<and> (m' = m \<or> managementEpoch m < managementEpoch m' \<and> managementState m' = Draining)))"

definition ws_ok :: "('a) workspace_store_scheme \<Rightarrow> ('a) workspace_store_scheme \<Rightarrow> bool" where
  "ws_ok s s' \<longleftrightarrow> (ws_inv s \<longrightarrow> ws_inv s' \<and> epochs_advance s s')"

lemma ws_ok_refl [simp, intro]: "ws_ok s s"
  by (simp add: ws_ok_def epochs_advance_def)

lemma ws_ok_trans:
  assumes "ws_ok a b" "ws_ok b c"
  shows "ws_ok a c"
proof (unfold ws_ok_def, intro impI conjI)
  assume "ws_inv a"
  then have b: "ws_inv b" "epochs_advance a b" using assms(1) by (simp_all add: ws_ok_def)
  then have c: "ws_inv c" "epochs_advance b c" using assms(2) by (simp_all add: ws_ok_def)
  show "ws_inv c" by (fact c)
  show "epochs_advance a c"
    unfolding epochs_advance_def
  proof (intro allI impI)
    fix k m assume "js_get (workspaceManagement a) k = Some m"
    then obtain m1 where m1: "js_get (workspaceManagement b) k = Some m1"
      "m1 = m \<or> managementEpoch m < managementEpoch m1 \<and> managementState m1 = Draining"
      using b(2) unfolding epochs_advance_def by blast
    then obtain m2 where m2: "js_get (workspaceManagement c) k = Some m2"
      "m2 = m1 \<or> managementEpoch m1 < managementEpoch m2 \<and> managementState m2 = Draining"
      using c(2) unfolding epochs_advance_def by blast
    then show "\<exists>m'. js_get (workspaceManagement c) k = Some m'
        \<and> (m' = m \<or> managementEpoch m < managementEpoch m' \<and> managementState m' = Draining)"
      using m1(2) by auto
  qed
qed

lemma fin_reachable_steps: "fin_step\<^sup>*\<^sup>* fs fs' \<Longrightarrow> fin_reachable fs \<Longrightarrow> fin_reachable fs'"
  by (induction rule: rtranclp_induct) (auto intro: fin_next)

lemma ws_ok_putWorkspace:
  assumes "financialPutWorkspace now (ws_id w) w s = Inr s'"
  shows "ws_ok s s'"
  using financialPutWorkspaceD [OF assms]
  by (auto simp: ws_ok_def ws_inv_def epochs_advance_def fin_reachable_steps split: if_splits)

lemma ws_ok_putMember:
  assumes "financialPutMember now (workspaceMemberKey (mem_workspaceId m) (mem_accountId m)) m s = Inr s'"
  shows "ws_ok s s'"
  using financialPutMemberD [OF assms]
  by (auto simp: ws_ok_def ws_inv_def epochs_advance_def fin_reachable_steps split: if_splits)

lemma ws_ok_putManagement:
  assumes "financialPutManagement now k m s = Inr s'" "js_has (workspaces s) k"
    and "\<And>m0. ws_inv s \<Longrightarrow> js_get (workspaceManagement s) k = Some m0 \<Longrightarrow>
       managementEpoch m0 < managementEpoch m \<and> managementState m = Draining"
    and "ws_inv s \<Longrightarrow> management_ok k m"
  shows "ws_ok s s'"
proof -
  obtain fs where fs: "fin_step\<^sup>*\<^sup>* (financialSource s) fs"
    "s' = s\<lparr>workspaceManagement := js_set k m (workspaceManagement s), financialSource := fs\<rparr>"
    using financialPutManagementD [OF assms(1)] by blast
  show ?thesis
  proof (unfold ws_ok_def, intro impI conjI)
    assume inv: "ws_inv s"
    then show "ws_inv s'"
      using assms(2) assms(4) fs(1) by (auto simp: fs(2) ws_inv_def fin_reachable_steps)
    show "epochs_advance s s'"
      using assms(3) [OF inv] by (auto simp: fs(2) epochs_advance_def)
  qed
qed

lemma management_ok_initial [simp]: "management_ok k (initial_authority k)"
  by (simp add: management_ok_def initial_authority_def max_safe_integer_def)

lemma ws_ok_putInitial:
  assumes "financialPutManagement now k (initial_authority k) s = Inr s'" "js_has (workspaces s) k"
    "ws_inv s \<Longrightarrow> \<not> js_has (workspaceManagement s) k"
  shows "ws_ok s s'"
  using assms by (intro ws_ok_putManagement) (auto simp: js_has_def)

section \<open>Every operation keeps the invariant\<close>

lemma putWorkspace_frame:
  "financialPutWorkspace now k w s = Inr s' \<Longrightarrow> js_has (workspaces s') k \<and> js_get (workspaces s') k = Some w
     \<and> workspaceManagement s' = workspaceManagement s \<and> workspaceMembers s' = workspaceMembers s"
  by (auto dest!: financialPutWorkspaceD)

lemma putManagement_frame:
  "financialPutManagement now k m s = Inr s' \<Longrightarrow> workspaces s' = workspaces s
     \<and> js_get (workspaceManagement s') k = Some m \<and> workspaceMembers s' = workspaceMembers s"
  by (auto dest!: financialPutManagementD)

lemma put_initial_ok:
  assumes "financialPutWorkspace now (ws_id w) w s = Inr s1"
    "financialPutManagement now (ws_id w) (initial_authority (ws_id w)) s1 = Inr s2"
    "ws_inv s \<Longrightarrow> \<not> js_has (workspaceManagement s) (ws_id w)"
  shows "ws_ok s s2"
proof (cases "ws_inv s")
  case True
  have "js_has (workspaces s1) (ws_id w)" "workspaceManagement s1 = workspaceManagement s"
    using putWorkspace_frame [OF assms(1)] by simp_all
  then have "ws_ok s1 s2"
    using assms(3) [OF True] by (intro ws_ok_putInitial [OF assms(2)]) simp_all
  with ws_ok_putWorkspace [OF assms(1)] show ?thesis by (rule ws_ok_trans)
qed (simp add: ws_ok_def)

lemma putWorkspace_ok:
  assumes "putWorkspace now w s = Inr s'"
  shows "ws_ok s s'"
proof -
  obtain s1 where s1: "financialPutWorkspace now (ws_id w) w s = Inr s1"
    "(if js_has (workspaceManagement s1) (ws_id w) then Inr s1
      else financialPutManagement now (ws_id w) (initial_authority (ws_id w)) s1) = Inr s'"
    using assms unfolding putWorkspace_def by blast
  show ?thesis
    using s1 ws_ok_putWorkspace [OF s1(1)] putWorkspace_frame [OF s1(1)] put_initial_ok [OF s1(1)]
    by (auto split: if_splits)
qed

lemma absent_workspace: "ws_inv s \<Longrightarrow> \<not> js_has (workspaces s) k \<Longrightarrow> \<not> js_has (workspaceManagement s) k"
  unfolding ws_inv_def js_has_def by (metis not_None_eq)

lemma find_None_absent:
  assumes "ws_inv s" "List.find (\<lambda>row. ws_handle row = h \<or> ws_id row = k) (js_values (workspaces s)) = None"
  shows "\<not> js_has (workspaces s) k"
proof
  assume "js_has (workspaces s) k"
  then obtain w where w: "js_get (workspaces s) k = Some w" by (auto simp: js_has_def)
  then have "ws_id w = k" using assms(1) by (simp add: ws_inv_def)
  then show False using assms(2) js_values_get [OF w] by (auto simp: find_None_iff)
qed

lemma createWorkspaceWithInitialOwner_cases:
  assumes "createWorkspaceWithInitialOwner now w m s = Inr (r, s')"
  obtains (known) "s' = s" "r \<noteq> None \<longrightarrow> (\<exists>existing. r = Some existing \<and> existing \<in> set (js_values (workspaces s))
      \<and> isWorkspaceManagementAdmissionAllowed s (ws_id existing) None = Inr True
      \<and> sharedWorkspaceCreationAllowed existing w
         (js_get (workspaceMembers s) (workspaceMemberKey (ws_id existing) (ws_ownerUserId w))))"
  | (created) s1 s2 where "r = Some w" "validateWorkspaceInitialOwner w m = Inr ()"
      "List.find (\<lambda>row. ws_handle row = ws_handle w \<or> ws_id row = ws_id w) (js_values (workspaces s)) = None"
      "financialPutWorkspace now (ws_id w) w s = Inr s1"
      "financialPutManagement now (ws_id w) (initial_authority (ws_id w)) s1 = Inr s2"
      "financialPutMember now (workspaceMemberKey (ws_id w) (mem_accountId m)) m s2 = Inr s'"
proof (cases "List.find (\<lambda>row. ws_handle row = ws_handle w \<or> ws_id row = ws_id w) (js_values (workspaces s))")
  case None
  then show thesis
    using assms by (auto simp: createWorkspaceWithInitialOwner_def split: if_splits intro: created)
next
  case (Some existing)
  then have "existing \<in> set (js_values (workspaces s))" by (auto simp: find_Some_iff)
  moreover obtain u where "validateWorkspaceInitialOwner w m = Inr u"
    using assms by (auto simp: createWorkspaceWithInitialOwner_def)
  moreover obtain al where "isWorkspaceManagementAdmissionAllowed s (ws_id existing) None = Inr al"
    by (simp add: isWorkspaceManagementAdmissionAllowed_def)
  ultimately show thesis
    using assms Some by (intro known) (auto simp: createWorkspaceWithInitialOwner_def split: if_splits)
qed

lemma validInitialOwner_ids:
  "validateWorkspaceInitialOwner w m = Inr u \<Longrightarrow>
     mem_workspaceId m = ws_id w \<and> mem_accountId m = ws_ownerUserId w \<and> mem_status m = ''active''
     \<and> mem_roles m = [''owner''] \<and> parseWorkspaceMemberRecord m = Inr m"
  by (auto simp: validateWorkspaceInitialOwner_def validateWorkspaceOwnerMemberRepair_def
      validateWorkspaceMemberReplacement_def Let_def parseWorkspaceMemberRecord_def split: if_splits)

lemma createWorkspaceWithInitialOwner_ok:
  assumes "createWorkspaceWithInitialOwner now w m s = Inr (r, s')"
  shows "ws_ok s s'"
  using assms
proof (cases rule: createWorkspaceWithInitialOwner_cases)
  case (created s1 s2)
  have "ws_ok s s2"
    using put_initial_ok [OF created(4,5)] find_None_absent [OF _ created(3)] absent_workspace by blast
  moreover have "ws_ok s2 s'"
    using ws_ok_putMember [of now m s2 s'] created(6) validInitialOwner_ids [OF created(2)] by simp
  ultimately show ?thesis by (rule ws_ok_trans)
qed simp

lemma replaceWorkspace_ok: "replaceWorkspace now input s = Inr (b, s') \<Longrightarrow> ws_ok s s'"
  by (auto simp: replaceWorkspace_def Let_def split: if_splits dest: ws_ok_putWorkspace)

lemma replaceWorkspaceForAccount_ok:
  "replaceWorkspaceForAccount now input actor ea rm s = Inr (b, s') \<Longrightarrow> ws_ok s s'"
  by (auto simp: replaceWorkspaceForAccount_def Let_def split: if_splits dest: replaceWorkspace_ok)

lemma putWorkspaceMember_ok: "putWorkspaceMember now m s = Inr s' \<Longrightarrow> ws_ok s s'"
  by (simp add: putWorkspaceMember_def ws_ok_putMember)

lemma mutateWorkspaceMember_ok: "mutateWorkspaceMember now input s = Inr (b, s') \<Longrightarrow> ws_ok s s'"
  unfolding mutateWorkspaceMember_def Let_def
  by (elim chain_Inr_elim) (auto split: if_split_asm dest: ws_ok_putMember)

lemma repairWorkspaceOwnerMember_ok: "repairWorkspaceOwnerMember now input s = Inr (b, s') \<Longrightarrow> ws_ok s s'"
  unfolding repairWorkspaceOwnerMember_def Let_def
  by (elim chain_Inr_elim) (auto split: if_split_asm dest: ws_ok_putMember)

lemma getWorkspaceManagement_ok: "getWorkspaceManagement now k s = Inr (r, s') \<Longrightarrow> ws_ok s s'"
  by (auto simp: getWorkspaceManagement_def js_has_def split: if_splits option.splits
      intro!: ws_ok_putInitial [of now k])

lemma beginWorkspaceDraining_cases:
  assumes "beginWorkspaceDraining now k expected s = Inr (r, s')"
  obtains (unchanged) "s' = s" "\<forall>d. r \<noteq> DrainStarted d"
  | (started) "r = DrainStarted \<lparr>mgmt_workspaceId = k, managementState = Draining,
        managementEpoch = managementEpoch expected + 1\<rparr>"
      "js_has (workspaces s) k" "managementEpoch (current_management s k) = managementEpoch expected"
      "managementState (current_management s k) = Active" "managementEpoch expected < max_safe_integer"
      "1 \<le> managementEpoch expected" "mgmt_workspaceId expected = k" "managementState expected = Active"
      "assertWorkspaceManagementAuthorityInput expected k = Inr ()"
      "financialPutManagement now k \<lparr>mgmt_workspaceId = k, managementState = Draining,
        managementEpoch = managementEpoch expected + 1\<rparr> s = Inr s'"
proof -
  have e: "assertWorkspaceManagementAuthorityInput expected k = Inr ()"
    using assms by (auto simp: beginWorkspaceDraining_def)
  note ei = e [unfolded authority_input_iff]
  show thesis
  proof (cases "js_has (workspaces s) k \<and> managementState (current_management s k) = Active
      \<and> managementEpoch (current_management s k) = managementEpoch expected")
    case True
    then show thesis
      using assms e ei by (intro started) (auto simp: beginWorkspaceDraining_def Let_def split: if_split_asm)
  next
    case False
    then show thesis
      using assms e by (intro unchanged) (auto simp: beginWorkspaceDraining_def Let_def split: if_split_asm)
  qed
qed

lemma beginWorkspaceDraining_ok:
  assumes "beginWorkspaceDraining now k expected s = Inr (r, s')"
  shows "ws_ok s s'"
  using assms
proof (cases rule: beginWorkspaceDraining_cases)
  case started
  then show ?thesis
    by (intro ws_ok_putManagement [OF started(10)]) (auto simp: current_management_def management_ok_def)
qed simp

lemma ws_inv_bootstrapIds [simp]: "ws_inv (s\<lparr>personalWorkspaceBootstrapIds := x\<rparr>) = ws_inv s"
  by (simp only: ws_inv_def) simp

lemma epochs_bootstrapIds [simp]:
  "epochs_advance s (s'\<lparr>personalWorkspaceBootstrapIds := x\<rparr>) = epochs_advance s s'"
  by (simp only: epochs_advance_def) simp

lemma ws_ok_bootstrapIds: "ws_ok s s' \<Longrightarrow> ws_ok s (s'\<lparr>personalWorkspaceBootstrapIds := x\<rparr>)"
  by (simp add: ws_ok_def)

lemma validBootstrap_ids:
  "validatePersonalWorkspaceBootstrapOwnerMember u w m = Inr x \<Longrightarrow>
     ws_ownerUserId w = u \<and> validateWorkspaceInitialOwner w m = Inr ()"
  by (auto simp: validatePersonalWorkspaceBootstrapOwnerMember_def)

lemma claimPersonal_adopt_ok:
  assumes "(let s = s\<lparr>personalWorkspaceBootstrapIds := x\<rparr>
      in if js_has (workspaceManagement s) (ws_id w) then Inr (Some w, s)
         else chain (financialPutManagement now (ws_id w) (initial_authority (ws_id w)) s)
           (\<lambda>s. Inr (Some w, s))) = Inr (r, s')"
    "w \<in> set (js_values (workspaces s))"
  shows "ws_ok s s'"
proof (cases "ws_inv s")
  case inv: True
  let ?s = "s\<lparr>personalWorkspaceBootstrapIds := x\<rparr>"
  have 1: "ws_ok s ?s" by (intro ws_ok_bootstrapIds ws_ok_refl)
  show ?thesis
  proof (cases "js_has (workspaceManagement ?s) (ws_id w)")
    case True
    then show ?thesis using assms(1) 1 by (simp add: Let_def)
  next
    case False
    then have put: "financialPutManagement now (ws_id w) (initial_authority (ws_id w)) ?s = Inr s'"
      using assms(1) by (auto simp: Let_def)
    obtain k where "js_get (workspaces s) k = Some w"
      using assms(2) inv by (auto simp: js_values_def ws_inv_def js_get_iff)
    then have "js_has (workspaces ?s) (ws_id w)" using inv by (auto simp: ws_inv_def js_has_def)
    then have "ws_ok ?s s'" using False by (intro ws_ok_putInitial [OF put]) auto
    with 1 show ?thesis by (rule ws_ok_trans)
  qed
qed (simp add: ws_ok_def)

lemma claimPersonal_create_ok:
  assumes "chain (financialPutWorkspace now (ws_id w) w s) (\<lambda>s.
      chain (financialPutManagement now (ws_id w) (initial_authority (ws_id w)) s) (\<lambda>s.
      let s = s\<lparr>personalWorkspaceBootstrapIds := js_set u (ws_id w) (personalWorkspaceBootstrapIds s)\<rparr> in
      chain (case mo of None \<Rightarrow> Inr s
             | Some m \<Rightarrow> financialPutMember now (workspaceMemberKey (ws_id w) u) m s)
        (\<lambda>s. Inr (Some w, s)))) = Inr (r, s')"
    "\<not> js_has (workspaces s) (ws_id w)"
    "\<And>m. mo = Some m \<Longrightarrow> mem_workspaceId m = ws_id w \<and> mem_accountId m = u"
  shows "ws_ok s s'"
proof -
  obtain s1 s2 where s12: "financialPutWorkspace now (ws_id w) w s = Inr s1"
    "financialPutManagement now (ws_id w) (initial_authority (ws_id w)) s1 = Inr s2"
    and m: "(case mo of None \<Rightarrow> Inr (s2\<lparr>personalWorkspaceBootstrapIds := js_set u (ws_id w) (personalWorkspaceBootstrapIds s2)\<rparr>)
      | Some m \<Rightarrow> financialPutMember now (workspaceMemberKey (ws_id w) u) m
          (s2\<lparr>personalWorkspaceBootstrapIds := js_set u (ws_id w) (personalWorkspaceBootstrapIds s2)\<rparr>)) = Inr s'"
    using assms(1) unfolding Let_def by (elim chain_Inr_elim) auto
  let ?s = "s2\<lparr>personalWorkspaceBootstrapIds := js_set u (ws_id w) (personalWorkspaceBootstrapIds s2)\<rparr>"
  have 1: "ws_ok s ?s"
    using put_initial_ok [OF s12] absent_workspace assms(2) by (blast intro: ws_ok_bootstrapIds)
  show ?thesis
  proof (cases mo)
    case None
    then show ?thesis using m 1 by simp
  next
    case (Some mm)
    then have "ws_ok ?s s'" using m assms(3) [OF Some] ws_ok_putMember [of now mm ?s s'] by simp
    with 1 show ?thesis by (rule ws_ok_trans)
  qed
qed

lemma claimPersonalWorkspaceBootstrap_ok:
  assumes "claimPersonalWorkspaceBootstrap lc now u w mo s = Inr (r, s')"
  shows "ws_ok s s'"
proof -
  let ?sorted = "js_sort (\<lambda>l r. let c = lc (ws_createdAt l) (ws_createdAt r)
      in if c \<noteq> 0 then c else lc (ws_id l) (ws_id r))
      (filter (\<lambda>w. ws_ownerUserId w = u \<and> ws_type w = ''personal'') (js_values (workspaces s)))"
  have valid: "mo = Some m \<Longrightarrow> validatePersonalWorkspaceBootstrapOwnerMember u w m = Inr ()" for m
    using assms by (auto simp: claimPersonalWorkspaceBootstrap_def)
  then have ids: "mo = Some m \<Longrightarrow> mem_workspaceId m = ws_id w \<and> mem_accountId m = u" for m
    using validBootstrap_ids validInitialOwner_ids by blast
  show ?thesis
  proof (cases "js_get (personalWorkspaceBootstrapIds s) u")
    case (Some c)
    then have "s' = s" using assms by (auto simp: claimPersonalWorkspaceBootstrap_def split: option.splits)
    then show ?thesis by simp
  next
    case None
    show ?thesis
    proof (cases ?sorted)
      case (Cons a rest)
      have "a \<in> set ?sorted" using Cons by simp
      then have "a \<in> set (js_values (workspaces s))" by simp
      then show ?thesis
        using assms None Cons unfolding claimPersonalWorkspaceBootstrap_def
        by (auto simp only: option.case list.case elim!: chain_Inr_elim intro!: claimPersonal_adopt_ok)
    next
      case Nil
      have v: "(case mo of None \<Rightarrow> Inr () | Some m \<Rightarrow> validatePersonalWorkspaceBootstrapOwnerMember u w m) = Inr ()"
        using valid by (cases mo) auto
      note body = assms [unfolded claimPersonalWorkspaceBootstrap_def v None Nil, unfolded chain_simps option.case list.case]
      show ?thesis
      proof (cases "js_has (workspaces s) (ws_id w) \<or> list_ex (\<lambda>x. ws_handle x = ws_handle w) (js_values (workspaces s))")
        case True
        then show ?thesis using body by simp
      next
        case False
        then show ?thesis
          using body ids by (intro claimPersonal_create_ok [of now w s u mo r s']) (simp_all only: if_False simp_thms de_Morgan_disj sum.distinct split: if_split_asm)
      qed
    qed
  qed
qed

lemma ws_ok_financialSource:
  assumes "fin_step\<^sup>*\<^sup>* (financialSource s) fs"
  shows "ws_ok s (s\<lparr>financialSource := fs\<rparr>)"
proof -
  have "ws_inv s \<Longrightarrow> ws_inv (s\<lparr>financialSource := fs\<rparr>)"
    unfolding ws_inv_def using fin_reachable_steps [OF assms] by simp
  moreover have "epochs_advance s (s\<lparr>financialSource := fs\<rparr>)" by (simp add: epochs_advance_def)
  ultimately show ?thesis by (simp add: ws_ok_def)
qed

lemma enrollWorkspaceFinancialSource_ok:
  "enrollWorkspaceFinancialSource lc original reg at s = Inr (r, s') \<Longrightarrow> ws_ok s s'"
  by (auto simp: enrollWorkspaceFinancialSource_def intro!: ws_ok_financialSource dest: step_enroll)

lemma ws_inv_intents [simp]: "ws_inv (s\<lparr>workspaceBillingIntents := x\<rparr>) = ws_inv s"
  by (simp only: ws_inv_def) simp

lemma prepareWorkspaceBillingBinding_ok: "prepareWorkspaceBillingBinding intent s = Inr (r, s') \<Longrightarrow> ws_ok s s'"
  by (auto simp: prepareWorkspaceBillingBinding_def Let_def ws_ok_def epochs_advance_def
      split: if_split_asm option.split_asm)

lemma claimWorkspaceBillingBinding_cases:
  assumes "claimWorkspaceBillingBinding e b s = Inr (r, s')"
  obtains (unchanged) "s' = s"
  | (created) "js_get (workspaceBillingBindings s) (bb_workspaceId b) = None" "r = BillingCreated b"
      "\<forall>row \<in> set (js_values (workspaceBillingBindings s)). bb_billingAuthority row = bb_billingAuthority b \<longrightarrow>
         bb_organizationRef row \<noteq> bb_organizationRef b \<and> bb_workspaceRef row \<noteq> bb_workspaceRef b"
      "js_get (workspaceBillingIntents s) (bb_workspaceId b) = Some e" "workspaceBillingAuthorityMatches s e"
      "workspaceBillingIntentMatches b e"
      "s' = s\<lparr>workspaceBillingBindings := js_set (bb_workspaceId b) b (workspaceBillingBindings s)\<rparr>"
proof (cases "s' = s")
  case False
  have "workspaceBillingIntentMatches b e"
    using assms by (auto simp: claimWorkspaceBillingBinding_def assertWorkspaceBillingClaim_def Let_def split: if_split_asm)
  moreover have "js_get (workspaceBillingBindings s) (bb_workspaceId b) = None" "r = BillingCreated b"
    "js_get (workspaceBillingIntents s) (bb_workspaceId b) = Some e" "workspaceBillingAuthorityMatches s e"
    "s' = s\<lparr>workspaceBillingBindings := js_set (bb_workspaceId b) b (workspaceBillingBindings s)\<rparr>"
    "\<not> list_ex (\<lambda>row. bb_billingAuthority row = bb_billingAuthority b
       \<and> (bb_organizationRef row = bb_organizationRef b \<or> bb_workspaceRef row = bb_workspaceRef b))
       (js_values (workspaceBillingBindings s))"
    using assms False
    by (auto simp: claimWorkspaceBillingBinding_def Let_def split: if_split_asm option.split_asm)
  ultimately show thesis by (intro created) (auto simp: list_ex_iff)
qed (rule unchanged)

lemma billing_unique_set:
  assumes u: "billing_unique bs"
    and new: "\<And>k c. js_get bs k = Some c \<Longrightarrow> bb_billingAuthority c = bb_billingAuthority b \<Longrightarrow>
        bb_organizationRef c \<noteq> bb_organizationRef b \<and> bb_workspaceRef c \<noteq> bb_workspaceRef b"
  shows "billing_unique (js_set (bb_workspaceId b) b bs)"
proof (unfold billing_unique_def, rule conjI; intro allI impI)
  fix k c assume "js_get (js_set (bb_workspaceId b) b bs) k = Some c"
  then have "c = b \<and> k = bb_workspaceId b \<or> js_get bs k = Some c" by (simp split: if_split_asm)
  then show "bb_workspaceId c = k" using u unfolding billing_unique_def by blast
next
  fix k c k' c' assume h: "js_get (js_set (bb_workspaceId b) b bs) k = Some c
    \<and> js_get (js_set (bb_workspaceId b) b bs) k' = Some c'
    \<and> bb_billingAuthority c = bb_billingAuthority c'
    \<and> (bb_organizationRef c = bb_organizationRef c' \<or> bb_workspaceRef c = bb_workspaceRef c')"
  have in_bs: "k \<noteq> bb_workspaceId b \<Longrightarrow> js_get bs k = Some c" "k = bb_workspaceId b \<Longrightarrow> c = b"
    "k' \<noteq> bb_workspaceId b \<Longrightarrow> js_get bs k' = Some c'" "k' = bb_workspaceId b \<Longrightarrow> c' = b"
    using h by simp_all
  then show "k = k'" using h new u unfolding billing_unique_def by metis
qed

lemma claimWorkspaceBillingBinding_ok:
  assumes "claimWorkspaceBillingBinding e b s = Inr (r, s')"
  shows "ws_ok s s'"
  using assms
proof (cases rule: claimWorkspaceBillingBinding_cases)
  case created
  have "billing_unique (js_set (bb_workspaceId b) b (workspaceBillingBindings s))"
    if "billing_unique (workspaceBillingBindings s)"
    using that created(3) js_values_get by (metis billing_unique_set)
  then have "ws_inv s \<Longrightarrow> ws_inv s'" unfolding ws_inv_def created(7) by simp
  moreover have "epochs_advance s s'" by (simp add: epochs_advance_def created(7))
  ultimately show ?thesis by (simp add: ws_ok_def)
qed simp

lemma deleteWorkspaceD:
  assumes "deleteWorkspace now k expected s = Inr (b, s')"
  shows "\<exists>fs. fin_step\<^sup>*\<^sup>* (financialSource s) fs
    \<and> s' = s\<lparr>workspaces := (if b then js_delete k (workspaces s) else workspaces s),
            workspaceManagement := js_delete k (workspaceManagement s), financialSource := fs\<rparr>
    \<and> b = js_has (workspaces s) k"
  using assms unfolding deleteWorkspace_def
  by (elim chain_Inr_elim) (auto dest!: financialDeleteWorkspaceD)

lemma deleteWorkspace_inv:
  assumes "deleteWorkspace now k expected s = Inr (b, s')" "ws_inv s"
  shows "ws_inv s'"
proof -
  obtain fs where "fin_step\<^sup>*\<^sup>* (financialSource s) fs"
    "s' = s\<lparr>workspaces := (if b then js_delete k (workspaces s) else workspaces s),
            workspaceManagement := js_delete k (workspaceManagement s), financialSource := fs\<rparr>"
    using deleteWorkspaceD [OF assms(1)] by blast
  then show ?thesis using assms(2) by (auto simp: ws_inv_def fin_reachable_steps split: if_splits)
qed

section \<open>Steps of the Workspace store\<close>

text \<open>The label names the Workspace a step deletes.\<close>

inductive ws_step :: "string option \<Rightarrow> ('a) workspace_store_scheme \<Rightarrow> ('a) workspace_store_scheme \<Rightarrow> bool" where
  "putWorkspace now w s = Inr s' \<Longrightarrow> ws_step None s s'"
| "createWorkspaceWithInitialOwner now w m s = Inr (r, s') \<Longrightarrow> ws_step None s s'"
| "deleteWorkspace now k expected s = Inr (b, s') \<Longrightarrow> ws_step (Some k) s s'"
| "replaceWorkspace now ri s = Inr (b, s') \<Longrightarrow> ws_step None s s'"
| "replaceWorkspaceForAccount now ri actor ea rm s = Inr (b, s') \<Longrightarrow> ws_step None s s'"
| "putWorkspaceMember now m s = Inr s' \<Longrightarrow> ws_step None s s'"
| "mutateWorkspaceMember now mi s = Inr (b, s') \<Longrightarrow> ws_step None s s'"
| "repairWorkspaceOwnerMember now rpi s = Inr (b, s') \<Longrightarrow> ws_step None s s'"
| "getWorkspaceManagement now k s = Inr (mr, s') \<Longrightarrow> ws_step None s s'"
| "beginWorkspaceDraining now k expected' s = Inr (dr, s') \<Longrightarrow> ws_step None s s'"
| "claimPersonalWorkspaceBootstrap lc now u w mo s = Inr (r, s') \<Longrightarrow> ws_step None s s'"
| "enrollWorkspaceFinancialSource lc original reg at s = Inr (h, s') \<Longrightarrow> ws_step None s s'"
| "materialize mt (financialSource s) = (b, fs) \<Longrightarrow> ws_step None s (s\<lparr>financialSource := fs\<rparr>)"
| "receipt rc (financialSource s) = (b, fs) \<Longrightarrow> ws_step None s (s\<lparr>financialSource := fs\<rparr>)"
| "prepareWorkspaceBillingBinding intent s = Inr (bi, s') \<Longrightarrow> ws_step None s s'"
| "claimWorkspaceBillingBinding intent binding s = Inr (bb, s') \<Longrightarrow> ws_step None s s'"

lemmas ws_step_oks = putWorkspace_ok createWorkspaceWithInitialOwner_ok replaceWorkspace_ok
  replaceWorkspaceForAccount_ok putWorkspaceMember_ok mutateWorkspaceMember_ok
  repairWorkspaceOwnerMember_ok getWorkspaceManagement_ok beginWorkspaceDraining_ok
  claimPersonalWorkspaceBootstrap_ok enrollWorkspaceFinancialSource_ok
  prepareWorkspaceBillingBinding_ok claimWorkspaceBillingBinding_ok

lemma ws_step_ok: "ws_step l s s' \<Longrightarrow> l = None \<Longrightarrow> ws_ok s s'"
  by (cases rule: ws_step.cases)
    (auto dest: ws_step_oks intro!: ws_ok_financialSource dest: step_materialize step_receipt)

lemma ws_step_inv: "ws_step l s s' \<Longrightarrow> ws_inv s \<Longrightarrow> ws_inv s'"
  by (cases l) (auto dest: ws_step_ok simp: ws_ok_def elim: ws_step.cases deleteWorkspace_inv)

text \<open>The Workspace operations leave the rest of a larger store alone.\<close>

lemma put_more:
  "financialPutWorkspace now k w s = Inr s' \<Longrightarrow> workspace_store.more s' = workspace_store.more s"
  "financialPutMember now key m s = Inr s' \<Longrightarrow> workspace_store.more s' = workspace_store.more s"
  "financialPutManagement now k mg s = Inr s' \<Longrightarrow> workspace_store.more s' = workspace_store.more s"
  "financialDeleteWorkspace now k s = Inr (b, s') \<Longrightarrow> workspace_store.more s' = workspace_store.more s"
  by (auto dest!: financialPutWorkspaceD financialPutMemberD financialPutManagementD financialDeleteWorkspaceD)

lemma mutateWorkspaceMember_more:
  "mutateWorkspaceMember now mi s = Inr (b, s') \<Longrightarrow> workspace_store.more s' = workspace_store.more s"
  unfolding mutateWorkspaceMember_def Let_def
  by (elim chain_Inr_elim) (auto split: if_split_asm dest: put_more)

lemma repairWorkspaceOwnerMember_more:
  "repairWorkspaceOwnerMember now ri s = Inr (b, s') \<Longrightarrow> workspace_store.more s' = workspace_store.more s"
  unfolding repairWorkspaceOwnerMember_def Let_def
  by (elim chain_Inr_elim) (auto split: if_split_asm dest: put_more)

lemma workspace_ops_more:
  "putWorkspaceMember now m s = Inr s' \<Longrightarrow> workspace_store.more s' = workspace_store.more s"
  "putWorkspace now w s = Inr s' \<Longrightarrow> workspace_store.more s' = workspace_store.more s"
  "replaceWorkspace now rin s = Inr (b, s') \<Longrightarrow> workspace_store.more s' = workspace_store.more s"
  "getWorkspaceManagement now k s = Inr (r, s') \<Longrightarrow> workspace_store.more s' = workspace_store.more s"
  unfolding putWorkspaceMember_def putWorkspace_def replaceWorkspace_def getWorkspaceManagement_def Let_def
  by (auto split: if_split_asm option.split_asm dest!: put_more)

lemma replaceWorkspaceForAccount_more:
  "replaceWorkspaceForAccount now rin actor ea rm s = Inr (b, s') \<Longrightarrow> workspace_store.more s' = workspace_store.more s"
  by (auto simp: replaceWorkspaceForAccount_def Let_def split: if_splits dest: workspace_ops_more)

lemma createWorkspaceWithInitialOwner_more:
  assumes "createWorkspaceWithInitialOwner now w m s = Inr (r, s')"
  shows "workspace_store.more s' = workspace_store.more s"
  using assms by (cases rule: createWorkspaceWithInitialOwner_cases) (auto dest!: put_more)

lemma beginWorkspaceDraining_more:
  assumes "beginWorkspaceDraining now k e s = Inr (r, s')"
  shows "workspace_store.more s' = workspace_store.more s"
  using assms by (cases rule: beginWorkspaceDraining_cases) (auto dest!: put_more)

lemma claimPersonalWorkspaceBootstrap_more:
  "claimPersonalWorkspaceBootstrap lc now u w mo s = Inr (r, s') \<Longrightarrow>
   workspace_store.more s' = workspace_store.more s"
  unfolding claimPersonalWorkspaceBootstrap_def Let_def
  by (elim chain_Inr_elim) (auto split: option.split_asm list.split_asm if_split_asm dest!: put_more)

lemma deleteWorkspace_more:
  "deleteWorkspace now k e s = Inr (b, s') \<Longrightarrow> workspace_store.more s' = workspace_store.more s"
  by (auto dest!: deleteWorkspaceD)

lemma billing_more:
  "prepareWorkspaceBillingBinding intent s = Inr (bi, s') \<Longrightarrow> workspace_store.more s' = workspace_store.more s"
  "enrollWorkspaceFinancialSource lc original reg at s = Inr (h, s') \<Longrightarrow> workspace_store.more s' = workspace_store.more s"
  by (auto simp: prepareWorkspaceBillingBinding_def enrollWorkspaceFinancialSource_def Let_def
      split: if_split_asm option.split_asm)

lemma claimWorkspaceBillingBinding_more:
  assumes "claimWorkspaceBillingBinding e b s = Inr (r, s')"
  shows "workspace_store.more s' = workspace_store.more s"
  using assms by (cases rule: claimWorkspaceBillingBinding_cases) auto

lemma ws_step_more: "ws_step l s s' \<Longrightarrow> workspace_store.more s' = workspace_store.more s"
  by (cases rule: ws_step.cases)
    (auto dest: workspace_ops_more mutateWorkspaceMember_more repairWorkspaceOwnerMember_more
      replaceWorkspaceForAccount_more createWorkspaceWithInitialOwner_more beginWorkspaceDraining_more
      claimPersonalWorkspaceBootstrap_more deleteWorkspace_more billing_more claimWorkspaceBillingBinding_more)

text \<open>A deletion touches the management row of its own Workspace only.\<close>

lemma ws_step_delete_other:
  assumes "ws_step (Some k) s s'" "k' \<noteq> k"
  shows "js_get (workspaceManagement s') k' = js_get (workspaceManagement s) k'"
  using assms by (cases rule: ws_step.cases) (auto dest!: deleteWorkspaceD)

definition empty_workspace_store :: workspace_store where
  "empty_workspace_store = \<lparr>workspaces = [], workspaceManagement = [], workspaceMembers = [],
     personalWorkspaceBootstrapIds = [], workspaceBillingIntents = [], workspaceBillingBindings = [],
     financialSource = empty_financial_source\<rparr>"

inductive ws_reachable :: "workspace_store \<Rightarrow> bool" where
  ws_init: "ws_reachable empty_workspace_store"
| ws_next: "ws_reachable s \<Longrightarrow> ws_step l s s' \<Longrightarrow> ws_reachable s'"

lemma ws_inv_empty: "ws_inv empty_workspace_store"
  by (simp add: ws_inv_def empty_workspace_store_def billing_unique_def fin_init)

lemma ws_reachable_inv: "ws_reachable s \<Longrightarrow> ws_inv s"
  by (induction rule: ws_reachable.induct) (auto simp: ws_inv_empty intro: ws_step_inv)

section \<open>Lemmas: membership\<close>

definition has_active_owner :: "('a) workspace_store_scheme \<Rightarrow> string \<Rightarrow> bool" where
  "has_active_owner s ws \<longleftrightarrow>
     (\<exists>(k, m) \<in> set (workspaceMembers s). mem_workspaceId m = ws \<and> isCanonicalActiveWorkspaceOwner m)"

lemma has_active_ownerI:
  "js_get (workspaceMembers s) k = Some m \<Longrightarrow> mem_workspaceId m = ws \<Longrightarrow>
   isCanonicalActiveWorkspaceOwner m \<Longrightarrow> has_active_owner s ws"
  by (auto simp: has_active_owner_def dest!: js_get_in_set)

lemma has_active_owner_iff:
  "js_wf (workspaceMembers s) \<Longrightarrow> has_active_owner s ws \<longleftrightarrow>
     (\<exists>k m. js_get (workspaceMembers s) k = Some m \<and> mem_workspaceId m = ws \<and> isCanonicalActiveWorkspaceOwner m)"
  by (auto simp: has_active_owner_def js_get_iff)

lemma mutateWorkspaceMember_cases:
  assumes "mutateWorkspaceMember now input s = Inr (b, s')"
  obtains (refused) "b = False" "s' = s"
  | (written) fs where "b = True" "validateWorkspaceMemberReplacement input = Inr ()"
      "workspaceMemberReplacementMatches s input"
      "workspaceMemberMutationDropsOwner input \<longrightarrow>
         (\<exists>row \<in> set (js_values (workspaceMembers s)). mem_workspaceId row = mem_workspaceId (mi_member input)
           \<and> mem_accountId row \<noteq> mem_accountId (mi_member input) \<and> isCanonicalActiveWorkspaceOwner row)"
      "s' = s\<lparr>workspaceMembers := js_set (workspaceMemberKey (mem_workspaceId (mi_member input))
          (mem_accountId (mi_member input))) (mi_member input) (workspaceMembers s), financialSource := fs\<rparr>"
proof -
  let ?m = "mi_member input" and ?ws = "mem_workspaceId (mi_member input)"
  let ?refuse = "\<lambda>allowed. \<not> allowed \<or> \<not> workspaceMemberReplacementMatches s input
    \<or> js_get (workspaceMembers s) (workspaceMemberKey ?ws (mem_accountId (mi_expectedActor input)))
        \<noteq> Some (mi_expectedActor input)"
  let ?other = "list_ex (\<lambda>row. mem_workspaceId row = ?ws \<and> mem_accountId row \<noteq> mem_accountId ?m
      \<and> isCanonicalActiveWorkspaceOwner row) (js_values (workspaceMembers s))"
  let ?key = "workspaceMemberKey ?ws (mem_accountId ?m)"
  obtain allowed where valid: "validateWorkspaceMemberReplacement input = Inr ()"
    and body: "(if ?refuse allowed then Inr (False, s)
       else if workspaceMemberMutationDropsOwner input \<and> \<not> ?other then Inr (False, s)
       else chain (financialPutMember now ?key ?m s) (\<lambda>s. Inr (True, s))) = Inr (b, s')"
    using assms unfolding mutateWorkspaceMember_def Let_def by (elim chain_Inr_elim) simp
  consider (no) "?refuse allowed \<or> workspaceMemberMutationDropsOwner input \<and> \<not> ?other"
    | (yes) "\<not> ?refuse allowed" "\<not> (workspaceMemberMutationDropsOwner input \<and> \<not> ?other)"
    by blast
  then show thesis
  proof cases
    case no
    then have "b = False" "s' = s" using body by (simp_all split: if_split_asm)
    then show thesis by (rule refused)
  next
    case yes
    then have "chain (financialPutMember now ?key ?m s) (\<lambda>s. Inr (True, s)) = Inr (b, s')"
      using body by (simp only: if_False simp_thms)
    then obtain s1 where put: "financialPutMember now ?key ?m s = Inr s1" "b = True" "s' = s1"
      by (auto simp: chain_Inr_iff)
    from financialPutMemberD [OF put(1)] obtain fs where
      "s1 = s\<lparr>workspaceMembers := js_set ?key ?m (workspaceMembers s), financialSource := fs\<rparr>" by blast
    moreover have "workspaceMemberReplacementMatches s input" using yes(1) by blast
    moreover have "workspaceMemberMutationDropsOwner input \<Longrightarrow> ?other" using yes(2) by blast
    ultimately show thesis using put valid by (intro written [of fs]) (auto simp: list_ex_iff)
  qed
qed

lemma mutateWorkspaceMember_keeps_owner_aux:
  assumes "mutateWorkspaceMember now input s = Inr (b, s')" "js_wf (workspaceMembers s)"
    "has_active_owner s ws"
  shows "has_active_owner s' ws"
  using assms(1)
proof (cases rule: mutateWorkspaceMember_cases)
  case refused
  then show ?thesis using assms(3) by simp
next
  case (written fs)
  let ?m = "mi_member input"
  let ?key = "workspaceMemberKey (mem_workspaceId ?m) (mem_accountId ?m)"
  note wf = assms(2)
  have members: "workspaceMembers s' = js_set ?key ?m (workspaceMembers s)" using written(5) by simp
  have old: "js_get (workspaceMembers s) ?key = mi_expectedMember input"
    using written(3) by (simp add: workspaceMemberReplacementMatches_def)
  obtain k m where m: "js_get (workspaceMembers s) k = Some m" "mem_workspaceId m = ws"
    "isCanonicalActiveWorkspaceOwner m"
    using assms(3) wf by (auto simp: has_active_owner_iff)
  show ?thesis
  proof (cases "k = ?key")
    case False
    then have "js_get (workspaceMembers s') k = Some m" using m members by simp
    then show ?thesis using m by (intro has_active_ownerI)
  next
    case True
    then have em: "mi_expectedMember input = Some m" using old m by simp
    then have ids: "mem_workspaceId m = mem_workspaceId ?m" "mem_accountId m = mem_accountId ?m"
      using written(2) by (auto simp: validateWorkspaceMemberReplacement_def Let_def)
    show ?thesis
    proof (cases "workspaceMemberMutationDropsOwner input")
      case True
      then obtain row where row: "row \<in> set (js_values (workspaceMembers s))"
        "mem_workspaceId row = mem_workspaceId ?m" "mem_accountId row \<noteq> mem_accountId ?m"
        "isCanonicalActiveWorkspaceOwner row"
        using written(4) by blast
      then obtain kr where kr: "js_get (workspaceMembers s) kr = Some row"
        using wf by (auto simp: js_values_def js_get_iff)
      then have "kr \<noteq> ?key" using old em row ids by auto
      then have "js_get (workspaceMembers s') kr = Some row" using kr members by simp
      then show ?thesis using row ids m by (intro has_active_ownerI) auto
    next
      case False
      then have "isCanonicalActiveWorkspaceOwner ?m"
        using em owner_status_role [OF m(3)] validated_member_owner [OF written(2)]
        by (auto simp: workspaceMemberMutationDropsOwner_def)
      then show ?thesis using members m ids by (intro has_active_ownerI [of s' ?key ?m]) auto
    qed
  qed
qed

section \<open>Properties\<close>

definition ex_store :: workspace_store where
  "ex_store = empty_workspace_store\<lparr>workspaces := [(''ws_1'', ex_workspace)],
     workspaceManagement := [(''ws_1'', initial_authority ''ws_1'')],
     workspaceMembers := [(workspaceMemberKey ''ws_1'' ''usr_1'', ex_member)]\<rparr>"

definition ex_member2 :: member where
  "ex_member2 = ex_member\<lparr>mem_id := ''mem_2'', mem_accountId := ''usr_2''\<rparr>"

definition ex_mutation :: mutation_input where
  "ex_mutation = \<lparr>mi_authority = initial_authority ''ws_1'', mi_expectedWorkspace = ex_workspace,
     mi_expectedMember = None, mi_member = ex_member2, mi_expectedActor = ex_member, mi_requiredActorRole = None\<rparr>"

definition ex_store2 :: workspace_store where
  "ex_store2 = ex_store\<lparr>workspaceMembers := [(workspaceMemberKey ''ws_1'' ''usr_1'', ex_member),
     (workspaceMemberKey ''ws_1'' ''usr_2'', ex_member2)]\<rparr>"

definition ex_intent :: stored_billing_intent where
  "ex_intent = \<lparr>bb_intentId = ''int_1'', bb_workspaceId = ''ws_1'', bb_billingAuthority = ''auth'',
     bb_workspaceRef = ''workspace_ref'', bb_workspaceCreatedAt = ''2026-01-01T00:00:00.000Z'', bb_actorAccountId = ''usr_1'',
     bb_managementEpoch = 1, bb_createdAt = ''2026-01-02T00:00:00.000Z'', originalWorkspace = ex_workspace,
     originalActor = ex_member, originalAuthority = initial_authority ''ws_1''\<rparr>"

definition ex_binding :: billing_binding where
  "ex_binding = \<lparr>bb_intentId = ''int_1'', bb_workspaceId = ''ws_1'', bb_billingAuthority = ''auth'',
     bb_workspaceRef = ''workspace_ref'', bb_workspaceCreatedAt = ''2026-01-01T00:00:00.000Z'', bb_actorAccountId = ''usr_1'',
     bb_managementEpoch = 1, bb_createdAt = ''2026-01-02T00:00:00.000Z'', bb_organizationRef = ''org'',
     bb_ownerAcknowledgementRef = ''ack'', bb_boundAt = ''2026-01-03T00:00:00.000Z''\<rparr>"

definition ex_store3 :: workspace_store where
  "ex_store3 = ex_store\<lparr>workspaceBillingIntents := [(''ws_1'', ex_intent)]\<rparr>"

definition ex_store4 :: workspace_store where
  "ex_store4 = ex_store3\<lparr>workspaceBillingBindings := [(''ws_1'', ex_binding)]\<rparr>"

lemma ex_prepared: "prepareWorkspaceBillingBinding ex_intent ex_store = Inr (BillingCreated ex_intent, ex_store3)"
  by code_simp

lemma ex_claimed: "claimWorkspaceBillingBinding ex_intent ex_binding ex_store3 = Inr (BillingCreated ex_binding, ex_store4)"
  by code_simp

lemma ex_created:
  "createWorkspaceWithInitialOwner ''t'' ex_workspace ex_member empty_workspace_store = Inr (Some ex_workspace, ex_store)"
  by code_simp

lemma ex_mutated: "mutateWorkspaceMember ''t'' ex_mutation ex_store = Inr (True, ex_store2)"
  by code_simp

lemma ex_store_reachable: "ws_reachable ex_store"
  by (rule ws_next [OF ws_init ws_step.intros(2) [OF ex_created]])

text \<open>C13: a membership mutation never takes the last canonical active owner away from a Workspace,
  whichever member it writes and whatever it answers.\<close>

theorem mutateWorkspaceMember_keeps_owner:
  assumes "ws_reachable s" "has_active_owner s ws" "mutateWorkspaceMember now input s = Inr (b, s')"
  shows "has_active_owner s' ws"
proof -
  have "js_wf (workspaceMembers s)" using ws_reachable_inv [OF assms(1)] by (simp add: ws_inv_def)
  then show ?thesis using mutateWorkspaceMember_keeps_owner_aux [OF assms(3)] assms(2) by blast
qed

theorem mutateWorkspaceMember_keeps_owner_witness: "has_active_owner ex_store2 ''ws_1''"
proof -
  have "has_active_owner ex_store ''ws_1''"
    by (rule has_active_ownerI [of _ "workspaceMemberKey ''ws_1'' ''usr_1''" ex_member]) code_simp+
  from mutateWorkspaceMember_keeps_owner [OF ex_store_reachable this ex_mutated] show ?thesis .
qed

text \<open>An answered creation leaves the answered Workspace stored and active, with its namespace
  owner a canonical active owner.\<close>

theorem createWorkspace_has_owner:
  assumes "ws_reachable s" "createWorkspaceWithInitialOwner now w m s = Inr (Some w', s')"
  shows "js_get (workspaces s') (ws_id w') = Some w' \<and> has_active_owner s' (ws_id w')
    \<and> isWorkspaceManagementAdmissionAllowed s' (ws_id w') None = Inr True"
proof -
  note inv = ws_reachable_inv [OF assms(1)]
  from assms(2) show ?thesis
  proof (cases rule: createWorkspaceWithInitialOwner_cases)
    case known
    then have k: "w' \<in> set (js_values (workspaces s))"
      "isWorkspaceManagementAdmissionAllowed s (ws_id w') None = Inr True"
      "sharedWorkspaceCreationAllowed w' w
         (js_get (workspaceMembers s) (workspaceMemberKey (ws_id w') (ws_ownerUserId w)))" by auto
    then obtain key where "js_get (workspaces s) key = Some w'"
      using inv by (auto simp: js_values_def js_get_iff ws_inv_def)
    moreover from this have "ws_id w' = key" using inv by (simp add: ws_inv_def)
    moreover have "has_active_owner s (ws_id w')"
      using k(3) by (auto simp: sharedWorkspaceCreationAllowed_def split: option.splits intro: has_active_ownerI)
    ultimately show ?thesis using known(1) k(2) by auto
  next
    case (created s1 s2)
    have f1: "js_get (workspaces s1) (ws_id w) = Some w" using putWorkspace_frame [OF created(4)] by simp
    have f2: "workspaces s2 = workspaces s1"
      "js_get (workspaceManagement s2) (ws_id w) = Some (initial_authority (ws_id w))"
      using putManagement_frame [OF created(5)] by simp_all
    obtain fs where s': "s' = s2\<lparr>workspaceMembers := js_set (workspaceMemberKey (ws_id w) (mem_accountId m)) m
        (workspaceMembers s2), financialSource := fs\<rparr>" using financialPutMemberD [OF created(6)] by blast
    note ids = validInitialOwner_ids [OF created(2)]
    have "isCanonicalActiveWorkspaceOwner m"
      using ids by (simp add: isCanonicalActiveWorkspaceOwner_def has_role_def)
    then have "has_active_owner s' (ws_id w)"
      using ids by (intro has_active_ownerI [of s' "workspaceMemberKey (ws_id w) (mem_accountId m)" m]) (simp_all add: s')
    then show ?thesis
      using created(1) f1 f2
      by (simp add: s' isWorkspaceManagementAdmissionAllowed_def initial_authority_def js_has_def)
  qed
qed

theorem createWorkspace_has_owner_witness: "has_active_owner ex_store (ws_id ex_workspace)"
  using createWorkspace_has_owner [OF ws_init ex_created] by blast

text \<open>Once draining has begun, no admission of the Workspace succeeds, with or without an
  expected authority; the deletion and replacement guarded by the old authority are refused,
  and a retry of the same request is answered with the draining row and writes nothing.\<close>

theorem draining_closes_admission:
  assumes "beginWorkspaceDraining now k expected s = Inr (DrainStarted d, s')"
  shows "managementState d = Draining \<and> managementEpoch d = managementEpoch expected + 1
    \<and> js_get (workspaceManagement s') k = Some d
    \<and> isWorkspaceManagementAdmissionAllowed s' k None = Inr False
    \<and> isWorkspaceManagementAdmissionAllowed s' k (Some expected) = Inr False
    \<and> \<not> returned (assertWorkspaceManagementAdmission (js_get (workspaceManagement s') k) k e)
    \<and> \<not> returned (deleteWorkspace now' k (Some expected) s')
    \<and> beginWorkspaceDraining now' k expected s' = Inr (DrainExisting d, s')"
  using assms
proof (cases rule: beginWorkspaceDraining_cases)
  case started
  then have d: "d = \<lparr>mgmt_workspaceId = k, managementState = Draining, managementEpoch = managementEpoch expected + 1\<rparr>"
    by simp
  have f: "workspaces s' = workspaces s" "js_get (workspaceManagement s') k = Some d"
    using putManagement_frame [OF started(10)] d by simp_all
  have refuse: "assertWorkspaceManagementAdmission (Some d) k e \<noteq> Inr a" for e a
    by (cases e) (auto simp: d assertWorkspaceManagementAdmission_def)
  then have "\<not> returned (assertWorkspaceManagementAdmission (Some d) k e)" for e
    by (cases "assertWorkspaceManagementAdmission (Some d) k e") auto
  moreover have "\<not> returned (deleteWorkspace now' k (Some expected) s')"
    using f started(2) refuse by (auto simp: deleteWorkspace_def returned_def split: sum.split dest!: chain_Inr_iff [THEN iffD1])
  moreover have "isWorkspaceManagementAdmissionAllowed s' k (Some expected) = Inr False"
    using f started(7,9) by (simp add: isWorkspaceManagementAdmissionAllowed_def d)
  ultimately show ?thesis
    using f started(2,9)
    by (simp add: d isWorkspaceManagementAdmissionAllowed_def beginWorkspaceDraining_def current_management_def)
qed simp

theorem draining_closes_admission_witness:
  "\<exists>s'. beginWorkspaceDraining ''t'' ''ws_1'' (initial_authority ''ws_1'') ex_store
      = Inr (DrainStarted \<lparr>mgmt_workspaceId = ''ws_1'', managementState = Draining, managementEpoch = 2\<rparr>, s')
    \<and> isWorkspaceManagementAdmissionAllowed s' ''ws_1'' None = Inr False"
proof -
  let ?d = "\<lparr>mgmt_workspaceId = ''ws_1'', managementState = Draining, managementEpoch = 2\<rparr>"
  let ?s = "ex_store\<lparr>workspaceManagement := [(''ws_1'', ?d)]\<rparr>"
  have b: "beginWorkspaceDraining ''t'' ''ws_1'' (initial_authority ''ws_1'') ex_store = Inr (DrainStarted ?d, ?s)"
    by code_simp
  from draining_closes_admission [OF this] b show ?thesis by blast
qed

text \<open>While a Workspace is not deleted its management row is kept, its epoch never decreases,
  and the row changes only by a draining that advances the epoch.\<close>

theorem management_epoch_monotone:
  assumes "ws_reachable s" "ws_step None s s'" "js_get (workspaceManagement s) k = Some m"
  shows "\<exists>m'. js_get (workspaceManagement s') k = Some m' \<and> management_ok k m'
    \<and> (m' = m \<or> managementEpoch m < managementEpoch m' \<and> managementState m' = Draining)"
proof -
  have "epochs_advance s s'" "ws_inv s'"
    using ws_step_ok [OF assms(2)] ws_reachable_inv [OF assms(1)] by (auto simp: ws_ok_def)
  then obtain m' where "js_get (workspaceManagement s') k = Some m'"
    "m' = m \<or> managementEpoch m < managementEpoch m' \<and> managementState m' = Draining"
    using assms(3) unfolding epochs_advance_def by blast
  then show ?thesis using \<open>ws_inv s'\<close> by (auto simp: ws_inv_def)
qed

theorem management_epoch_monotone_witness:
  "\<exists>m'. js_get (workspaceManagement ex_store2) ''ws_1'' = Some m' \<and> management_ok ''ws_1'' m'"
  using management_epoch_monotone [OF ex_store_reachable ws_step.intros(7) [OF ex_mutated],
      of "''ws_1''" "initial_authority ''ws_1''"]
  by (auto simp: ex_store_def js_get_def)

text \<open>In every reachable store a billing authority has at most one bound Workspace per
  organisation and per Workspace reference, and each binding sits under its own Workspace.\<close>

theorem billing_bindings_unique:
  assumes "ws_reachable s" "js_get (workspaceBillingBindings s) k = Some b"
    "js_get (workspaceBillingBindings s) k' = Some b'" "bb_billingAuthority b = bb_billingAuthority b'"
    "bb_organizationRef b = bb_organizationRef b' \<or> bb_workspaceRef b = bb_workspaceRef b'"
  shows "k = k' \<and> bb_workspaceId b = k"
  using assms ws_reachable_inv [OF assms(1)] unfolding ws_inv_def billing_unique_def by blast

theorem billing_bindings_unique_witness: "bb_workspaceId ex_binding = ''ws_1''"
proof -
  have r: "ws_reachable ex_store4"
    by (rule ws_next [OF ws_next [OF ex_store_reachable ws_step.intros(15) [OF ex_prepared]]
          ws_step.intros(16) [OF ex_claimed]])
  have b: "js_get (workspaceBillingBindings ex_store4) ''ws_1'' = Some ex_binding"
    by (simp add: ex_store4_def js_get_def)
  from billing_bindings_unique [OF r b b] show ?thesis by blast
qed

end
