(* ===== verification/Run_Rows.thy ===== *)
theory Run_Rows
  imports Workspace_Rows
begin

text \<open>
  The rows of the run ledger (\<open>StoredRunRecord\<close>: Plan, Apply, SourceSync and public Runs),
  Capsules and their ownership, and the pure predicates of
  \<open>core/domains/deploy-control/store.ts\<close>, \<open>app_run_admission.ts\<close> and
  \<open>run_finalization.ts\<close> that the store's admission and transition operations share.

  A stored run is a JavaScript object whose family is read off the keys it has; the record
  \<open>run\<close> therefore has one optional field per key the code tests or reads. The fields that
  are only compared as a whole are two strings: \<open>r_identity\<close>, the stable serialisation of
  the remaining immutable preparation identity, and \<open>r_rest\<close>, of everything else. Times are
  numbers on Plan and Apply runs and ISO texts on the others.
\<close>

section \<open>Rows\<close>

datatype run_status = Queued | Running | WaitingApproval | Succeeded | Failed | Cancelled | Expired
  | LegacyBlocked

datatype run_operation = OpCreate | OpUpdate | OpDestroy

datatype run_kind = KPlan | KApply | KSourceSync | KRestore

datatype stamp = Num int | Txt string

record audit_data =
  providerDispatched :: "bool option"
  lifecycleActionDispatched :: "bool option"
  actionDispatched :: "bool option"
  ad_rest :: string

record audit_event =
  ae_id :: string
  ae_type :: string
  ae_at :: int
  ae_data :: "audit_data option"
  ae_rest :: string

record run_guard =
  g_capsuleId :: "string option"
  g_currentStateVersionId :: "string option option"
  g_capsuleExecutionAuthorityEpoch :: "int option"

record recovery_evidence =
  failedApplyRunId :: string
  recoveredStateVersionId :: string
  re_sourceSnapshotId :: string
  plaintextSha256 :: string
  encryptedDigest :: string
  artifactEvidenceDigest :: string

record service_receipt =
  sr_status :: string
  sr_ref :: string
  sr_digest :: string

record run =
  run_id :: string
  r_workspaceId :: string
  r_status :: run_status
  r_kind :: "string option"
  r_type :: "string option"
  r_operation :: "run_operation option"
  r_capsuleId :: "string option"
  r_environment :: "string option"
  r_sourceId :: "string option"
  r_sourceDigest :: "string option"
  r_variablesDigest :: "string option"
  r_planRunId :: "string option"
  r_expected :: "run_guard option"
  r_driftCheck :: "bool option"
  r_requiresApproval :: "bool option"
  r_approvedAt :: "int option"
  r_appliedApplyRunId :: "string option"
  r_stateVersionId :: "string option"
  r_outputId :: "string option"
  r_executionEvidence :: "string option"
  r_ownershipEpoch :: "int option"
  r_appManagementEpoch :: "int option"
  r_auditEvents :: "audit_event list"
  r_createdAt :: stamp
  r_updatedAt :: "stamp option"
  r_startedAt :: "stamp option"
  r_finishedAt :: "stamp option"
  r_heartbeatAt :: "int option"
  r_restoredStateVersionId :: "string option"
  r_restoredFromStateVersionId :: "string option"
  r_restoreStateGeneration :: "int option"
  r_restoreServiceData :: "bool option"
  r_restoredServiceData :: "service_receipt option"
  r_stateRecovery :: "recovery_evidence option"
  r_sourceSnapshotId :: "string option"
  r_snapshotId :: "string option"
  r_resolvedCommit :: "string option"
  r_archiveDigest :: "string option"
  r_archiveSizeBytes :: "int option"
  r_phaseTimings :: "string option"
  r_error :: "string option"
  r_errorCode :: "string option"
  r_executionInputsDigest :: "string option"
  r_dependencySnapshotId :: "string option"
  r_identity :: string
  r_rest :: string
  r_authority :: "management option"

record uninstall_request =
  un_id :: string
  un_phase :: string
  un_blockedReason :: "string option"
  un_destroyPlanRunId :: "string option"

record capsule =
  cap_id :: string
  cap_workspaceId :: string
  cap_environment :: string
  cap_status :: string
  cap_installConfigId :: string
  cap_currentStateVersionId :: "string option"
  cap_currentStateGeneration :: int
  cap_uninstall :: "uninstall_request option"
  cap_ownerAccountId :: "string option"
  cap_ownershipEpoch :: "int option"
  cap_managementState :: "management_state option"
  cap_managementEpoch :: "int option"
  cap_scopeRef :: "string option"
  cap_projectId :: string
  cap_name :: string
  cap_slug :: string
  cap_sourceId :: string
  cap_compatibilityStatus :: "string option"
  cap_storageRoot :: "string option"
  cap_createdAt :: string
  cap_rest :: string

record capsule_ownership =
  own_capsuleId :: string
  own_ownerAccountId :: string
  own_ownershipEpoch :: int
  own_managementState :: management_state
  own_managementEpoch :: int
  own_storageRoot :: string

section \<open>Families of runs\<close>

definition isPlanRunRecord :: "run \<Rightarrow> bool" where
  "isPlanRunRecord r \<longleftrightarrow> r_sourceDigest r \<noteq> None \<and> r_variablesDigest r \<noteq> None"

definition isApplyRunRecord :: "run \<Rightarrow> bool" where
  "isApplyRunRecord r \<longleftrightarrow> r_planRunId r \<noteq> None \<and> r_expected r \<noteq> None"

definition isSourceSyncRunRecord :: "run \<Rightarrow> bool" where
  "isSourceSyncRunRecord r \<longleftrightarrow> r_kind r = Some ''source_sync''"

definition isPublicRunRecord :: "run \<Rightarrow> bool" where
  "isPublicRunRecord r \<longleftrightarrow> \<not> isPlanRunRecord r \<and> \<not> isApplyRunRecord r \<and> \<not> isSourceSyncRunRecord r"

definition isRestoreRunRecord :: "run \<Rightarrow> bool" where
  "isRestoreRunRecord r \<longleftrightarrow> isPublicRunRecord r \<and> r_type r = Some ''restore''"

definition transitionKindForRun :: "run \<Rightarrow> run_kind option" where
  "transitionKindForRun r =
     (if isPlanRunRecord r then Some KPlan
      else if isApplyRunRecord r then Some KApply
      else if isSourceSyncRunRecord r then Some KSourceSync
      else if isRestoreRunRecord r then Some KRestore else None)"

definition coerceRunStatus :: "run_status \<Rightarrow> run_status" where
  "coerceRunStatus st = (if st = LegacyBlocked then Failed else st)"

definition coerceRunRowStatus :: "run \<Rightarrow> run" where
  "coerceRunRowStatus r = (if r_status r \<noteq> LegacyBlocked then r else r\<lparr>r_status := coerceRunStatus (r_status r)\<rparr>)"

definition runIsInFlight :: "run_status \<Rightarrow> bool" where
  "runIsInFlight st \<longleftrightarrow> st = Queued \<or> st = Running"

definition planRunAwaitsApproval :: "run \<Rightarrow> bool" where
  "planRunAwaitsApproval r =
     (if r_appliedApplyRunId r \<notin> {None, Some []} \<or> r_approvedAt r \<noteq> None then False
      else if r_status r = WaitingApproval then True
      else if r_driftCheck r = Some True \<or> r_status r \<noteq> Succeeded then False
      else r_operation r = Some OpDestroy \<or> r_requiresApproval r = Some True)"

section \<open>Stored management authority of a run\<close>

definition runStoredIdentityMatches :: "run \<Rightarrow> run \<Rightarrow> bool" where
  "runStoredIdentityMatches l r \<longleftrightarrow>
     run_id l = run_id r \<and> r_workspaceId l = r_workspaceId r \<and> transitionKindForRun l = transitionKindForRun r"

definition runRequiresStoredManagementAuthority :: "run \<Rightarrow> bool" where
  "runRequiresStoredManagementAuthority r \<longleftrightarrow>
     transitionKindForRun r \<in> {Some KPlan, Some KApply, Some KRestore, Some KSourceSync}"

definition runManagementAuthority :: "run \<Rightarrow> management option" where
  "runManagementAuthority r =
     (case r_authority r of None \<Rightarrow> None
      | Some a \<Rightarrow>
          (case assertWorkspaceManagementAuthorityInput a (r_workspaceId r) of
             Inl _ \<Rightarrow> None
           | Inr _ \<Rightarrow> Some \<lparr>mgmt_workspaceId = mgmt_workspaceId a, managementState = Active,
                            managementEpoch = managementEpoch a\<rparr>))"

definition runManagementAuthorityForIdentity ::
    "run \<Rightarrow> string \<Rightarrow> string \<Rightarrow> run_kind \<Rightarrow> management option" where
  "runManagementAuthorityForIdentity r k workspaceId kind =
     (if run_id r \<noteq> k \<or> r_workspaceId r \<noteq> workspaceId \<or> transitionKindForRun r \<noteq> Some kind then None
      else runManagementAuthority r)"

definition publicStoredRun :: "run \<Rightarrow> run" where
  "publicStoredRun r = r\<lparr>r_authority := None\<rparr>"

definition preserveStoredRunManagementAuthority :: "run \<Rightarrow> run option \<Rightarrow> store_error + run" where
  "preserveStoredRunManagementAuthority r current =
     (case current of None \<Rightarrow> Inr (publicStoredRun r)
      | Some c \<Rightarrow>
          if r_authority c = None then Inr (publicStoredRun r)
          else if \<not> runStoredIdentityMatches c r
          then Inl (TypeError ''Run update cannot change stored management owner or kind'')
          else Inr (r\<lparr>r_authority := r_authority c\<rparr>))"

definition storeRunManagementAuthority :: "run \<Rightarrow> management \<Rightarrow> store_error + run" where
  "storeRunManagementAuthority r a =
     chain (assertWorkspaceManagementAuthorityInput a (r_workspaceId r)) (\<lambda>_.
       Inr (r\<lparr>r_authority := Some \<lparr>mgmt_workspaceId = mgmt_workspaceId a, managementState = Active,
                                 managementEpoch = managementEpoch a\<rparr>\<rparr>))"

section \<open>Pending finalisation of an Apply\<close>

fun latest_index :: "string \<Rightarrow> audit_event list \<Rightarrow> int \<Rightarrow> int \<Rightarrow> int" where
  "latest_index t [] i acc = acc"
| "latest_index t (e # es) i acc = latest_index t es (i + 1) (if ae_type e = t then i else acc)"

definition pendingAfterCompletion :: "run \<Rightarrow> string \<Rightarrow> string \<Rightarrow> bool" where
  "pendingAfterCompletion r pending completed \<longleftrightarrow>
     latest_index completed (r_auditEvents r) 0 (- 1) < latest_index pending (r_auditEvents r) 0 (- 1)"

definition applyRunBillingCapturePending :: "run \<Rightarrow> bool" where
  "applyRunBillingCapturePending r =
     pendingAfterCompletion r ''billing.capture.pending'' ''billing.capture.completed''"

definition applyRunRuntimeSecretRetirementPending :: "run \<Rightarrow> bool" where
  "applyRunRuntimeSecretRetirementPending r =
     pendingAfterCompletion r ''runtime_secret.retirement.pending'' ''runtime_secret.retirement.completed''"

definition applyRunRunnerUsagePending :: "run \<Rightarrow> bool" where
  "applyRunRunnerUsagePending r \<longleftrightarrow> r_status r = Failed \<and> r_operation r = Some OpDestroy
     \<and> pendingAfterCompletion r ''runner_usage.pending'' ''runner_usage.completed''"

section \<open>Application authority\<close>

datatype app_authority = LegacyApp
  | OwnedApp (aa_owner: string) (aa_ownershipEpoch: int) (aa_managementEpoch: int) (aa_managementState: management_state)

definition appRunAuthority :: "capsule option \<Rightarrow> app_authority option" where
  "appRunAuthority capsule =
     (case capsule of None \<Rightarrow> None
      | Some c \<Rightarrow>
          if cap_ownerAccountId c = None \<and> cap_ownershipEpoch c = None
             \<and> cap_managementEpoch c = None \<and> cap_managementState c = None
          then Some LegacyApp
          else (case (cap_ownerAccountId c, cap_ownershipEpoch c, cap_managementEpoch c, cap_managementState c) of
                  (Some owner, Some oe, Some me, Some st) \<Rightarrow>
                    if js_blank owner \<or> \<not> is_safe_integer oe \<or> oe < 0 \<or> \<not> is_safe_integer me \<or> me < 0
                       \<or> st \<notin> {Active, Draining, Frozen}
                    then None else Some (OwnedApp owner oe me st)
                | _ \<Rightarrow> None))"

definition app_epochs_absent :: "run \<Rightarrow> bool" where
  "app_epochs_absent r \<longleftrightarrow> r_ownershipEpoch r = None \<and> r_appManagementEpoch r = None"

definition appPlanAdmission :: "capsule option \<Rightarrow> run \<Rightarrow> bool" where
  "appPlanAdmission capsule r =
     (case capsule of None \<Rightarrow> app_epochs_absent r
      | Some c \<Rightarrow>
          (case appRunAuthority capsule of None \<Rightarrow> False
           | Some a \<Rightarrow>
               if Some (cap_id c) \<noteq> r_capsuleId r \<or> cap_workspaceId c \<noteq> r_workspaceId r then False
               else (case a of LegacyApp \<Rightarrow> app_epochs_absent r
                     | OwnedApp _ oe me st \<Rightarrow> st = Active \<and> r_ownershipEpoch r = Some oe
                         \<and> r_appManagementEpoch r = Some me)))"

definition appApplyAdmission :: "capsule option \<Rightarrow> run option \<Rightarrow> run \<Rightarrow> bool" where
  "appApplyAdmission capsule plan apply =
     (if appRunAuthority capsule = Some LegacyApp
      then (case plan of None \<Rightarrow> True | Some p \<Rightarrow> app_epochs_absent p)
      else (case plan of None \<Rightarrow> False
            | Some p \<Rightarrow> Some (run_id p) = r_planRunId apply \<and> r_capsuleId p = r_capsuleId apply
                \<and> r_workspaceId p = r_workspaceId apply \<and> appPlanAdmission capsule p))"

definition appClaimAdmission :: "capsule option \<Rightarrow> run option \<Rightarrow> run \<Rightarrow> bool \<Rightarrow> bool" where
  "appClaimAdmission capsule plan r staleRunning =
     (case capsule of None \<Rightarrow> (case plan of None \<Rightarrow> True | Some p \<Rightarrow> app_epochs_absent p)
      | Some c \<Rightarrow>
          if appRunAuthority capsule = Some LegacyApp
          then (case plan of None \<Rightarrow> True | Some p \<Rightarrow> app_epochs_absent p)
          else (case (plan, appRunAuthority capsule) of
                  (Some p, Some (OwnedApp _ oe me st)) \<Rightarrow>
                    if r_capsuleId p \<noteq> r_capsuleId r \<or> r_workspaceId p \<noteq> r_workspaceId r then False
                    else if Some (cap_id c) \<noteq> r_capsuleId r \<or> cap_workspaceId c \<noteq> r_workspaceId r then False
                    else (case (r_ownershipEpoch p, r_appManagementEpoch p) of
                            (Some poe, Some pme) \<Rightarrow>
                              if poe \<noteq> oe \<or> \<not> is_safe_integer pme then False
                              else if st = Active then me = pme
                              else staleRunning \<and> r_status r = Running \<and> st = Draining \<and> me = pme + 1
                          | _ \<Rightarrow> False)
                | _ \<Rightarrow> False))"

definition capsuleWithOwnershipForAdmission :: "capsule option \<Rightarrow> capsule_ownership option \<Rightarrow> capsule option" where
  "capsuleWithOwnershipForAdmission capsule ownership =
     (case capsule of None \<Rightarrow> None
      | Some c \<Rightarrow>
          Some (case ownership of
             None \<Rightarrow> c\<lparr>cap_ownerAccountId := None, cap_ownershipEpoch := None,
                       cap_managementState := None, cap_managementEpoch := None\<rparr>
           | Some own \<Rightarrow> c\<lparr>cap_ownerAccountId := Some (own_ownerAccountId own),
                           cap_ownershipEpoch := Some (own_ownershipEpoch own),
                           cap_managementState := Some (own_managementState own),
                           cap_managementEpoch := Some (own_managementEpoch own)\<rparr>))"

section \<open>Capsule fences\<close>

record plan_fence =
  pf_installConfigId :: string
  pf_executionAuthorityEpoch :: int
  pf_currentStateGeneration :: int
  pf_currentStateVersionId :: "string option"

record apply_fence =
  af_capsuleId :: string
  af_workspaceId :: string
  af_environment :: string
  af_status :: string
  af_installConfigId :: string
  af_executionAuthorityEpoch :: int
  af_currentStateVersionId :: "string option"
  af_currentStateGeneration :: int
  af_uninstall :: "(string \<times> string) option"

definition isCapsuleApplyRunAdmissionStatus :: "string \<Rightarrow> bool" where
  "isCapsuleApplyRunAdmissionStatus v \<longleftrightarrow>
     v \<in> {''pending'', ''active'', ''stale'', ''error'', ''disabled'', ''uninstalled''}"

definition isCapsuleApplyRunAdmissionFenceShape :: "apply_fence \<Rightarrow> bool" where
  "isCapsuleApplyRunAdmissionFenceShape f \<longleftrightarrow>
     \<not> js_blank (af_capsuleId f) \<and> \<not> js_blank (af_workspaceId f) \<and> \<not> js_blank (af_environment f)
     \<and> isCapsuleApplyRunAdmissionStatus (af_status f) \<and> \<not> js_blank (af_installConfigId f)
     \<and> is_safe_integer (af_executionAuthorityEpoch f) \<and> 1 \<le> af_executionAuthorityEpoch f
     \<and> (case af_currentStateVersionId f of None \<Rightarrow> True | Some v \<Rightarrow> \<not> js_blank v)
     \<and> is_safe_integer (af_currentStateGeneration f) \<and> 0 \<le> af_currentStateGeneration f
     \<and> (case af_uninstall f of None \<Rightarrow> True
        | Some (uid, planRunId) \<Rightarrow> af_status f = ''uninstalled'' \<and> \<not> js_blank uid \<and> \<not> js_blank planRunId)"

definition assertCapsuleApplyRunAdmissionFenceInput :: "apply_fence \<Rightarrow> store_error + unit" where
  "assertCapsuleApplyRunAdmissionFenceInput f =
     throw_if (\<not> isCapsuleApplyRunAdmissionFenceShape f) (TypeError ''Capsule ApplyRun admission fence is invalid'')"

definition capsuleApplyRunAdmissionFence ::
    "capsule \<Rightarrow> int \<Rightarrow> (string \<times> string) option \<Rightarrow> store_error + apply_fence" where
  "capsuleApplyRunAdmissionFence c epoch uninstall =
     (let f = \<lparr>af_capsuleId = cap_id c, af_workspaceId = cap_workspaceId c, af_environment = cap_environment c,
               af_status = cap_status c, af_installConfigId = cap_installConfigId c,
               af_executionAuthorityEpoch = epoch, af_currentStateVersionId = cap_currentStateVersionId c,
               af_currentStateGeneration = cap_currentStateGeneration c, af_uninstall = uninstall\<rparr>
      in chain (assertCapsuleApplyRunAdmissionFenceInput f) (\<lambda>_. Inr f))"

definition capsuleApplyRunAdmissionFenceMatchesRun :: "run \<Rightarrow> apply_fence \<Rightarrow> bool" where
  "capsuleApplyRunAdmissionFenceMatchesRun r f =
     (if \<not> isCapsuleApplyRunAdmissionFenceShape f then False
      else case r_expected r of None \<Rightarrow> False
        | Some g \<Rightarrow>
            r_capsuleId r = Some (af_capsuleId f) \<and> r_workspaceId r = af_workspaceId f
            \<and> (case af_uninstall f of None \<Rightarrow> True
               | Some (uid, planRunId) \<Rightarrow> r_operation r = Some OpDestroy \<and> r_planRunId r = Some planRunId)
            \<and> g_capsuleId g = Some (af_capsuleId f)
            \<and> g_currentStateVersionId g = Some (af_currentStateVersionId f)
            \<and> (case g_capsuleExecutionAuthorityEpoch g of None \<Rightarrow> 1 | Some e \<Rightarrow> e) = af_executionAuthorityEpoch f)"

definition capsuleApplyRunAdmissionFenceMatchesCurrent ::
    "capsule option \<Rightarrow> int option \<Rightarrow> apply_fence \<Rightarrow> bool" where
  "capsuleApplyRunAdmissionFenceMatchesCurrent capsule epoch f =
     (case (capsule, epoch) of
        (Some c, Some e) \<Rightarrow>
          isCapsuleApplyRunAdmissionFenceShape f
          \<and> cap_id c = af_capsuleId f \<and> cap_workspaceId c = af_workspaceId f
          \<and> cap_environment c = af_environment f \<and> cap_status c = af_status f
          \<and> cap_installConfigId c = af_installConfigId f \<and> e = af_executionAuthorityEpoch f
          \<and> cap_currentStateVersionId c = af_currentStateVersionId f
          \<and> cap_currentStateGeneration c = af_currentStateGeneration f
          \<and> (case af_uninstall f of None \<Rightarrow> True
             | Some (uid, planRunId) \<Rightarrow>
                 (case cap_uninstall c of None \<Rightarrow> False
                  | Some u \<Rightarrow> un_phase u \<noteq> ''cancelled'' \<and> un_blockedReason u = None
                      \<and> un_id u = uid \<and> un_destroyPlanRunId u = Some planRunId))
      | _ \<Rightarrow> False)"

definition assertCapsulePlanCreationFence ::
    "capsule option \<Rightarrow> int option \<Rightarrow> plan_fence \<Rightarrow> store_error + unit" where
  "assertCapsulePlanCreationFence capsule epoch f =
     (case capsule of None \<Rightarrow> Inl (CapsulePlanCreationFenceConflictError ''unknown'')
      | Some c \<Rightarrow>
          throw_if (epoch \<noteq> Some (pf_executionAuthorityEpoch f) \<or> cap_installConfigId c \<noteq> pf_installConfigId f
              \<or> cap_currentStateGeneration c \<noteq> pf_currentStateGeneration f
              \<or> cap_currentStateVersionId c \<noteq> pf_currentStateVersionId f)
            (CapsulePlanCreationFenceConflictError (cap_id c)))"

section \<open>Preparation of a Plan\<close>

record sealed_inputs =
  sealed_contentDigest :: string
  sealed_names :: "string list"
  sealed_ciphertext :: string

record plan_inputs =
  pi_planRunId :: string
  pi_body :: string
  pi_sealed :: "sealed_inputs option"

record prepare_input =
  pp_run :: run
  pp_inputs :: plan_inputs
  pp_capsuleFence :: "plan_fence option"
  pp_authority :: "management option"

definition planRunPreparationPersistsInputs :: "run \<Rightarrow> bool" where
  "planRunPreparationPersistsInputs r \<longleftrightarrow> r_status r \<noteq> Failed"

definition assertPlanRunPreparation :: "prepare_input \<Rightarrow> store_error + unit" where
  "assertPlanRunPreparation input =
     (if (case r_executionInputsDigest (pp_run input) of None \<Rightarrow> True | Some d \<Rightarrow> js_blank d)
      then Inl (TypeError ''prepared PlanRun must carry executionInputsDigest'')
      else if pi_planRunId (pp_inputs input) \<noteq> run_id (pp_run input)
      then Inl (TypeError ''PlanRunInputs must reference the prepared PlanRun'')
      else throw_if (r_dependencySnapshotId (pp_run input) \<noteq> None)
        (TypeError ''new PlanRun preparation cannot carry a legacy dependencySnapshotId''))"

definition planRunInputsPreparationExactlyMatches :: "plan_inputs \<Rightarrow> plan_inputs \<Rightarrow> bool" where
  "planRunInputsPreparationExactlyMatches existing candidate =
     (if pi_planRunId existing = [] \<or> pi_planRunId existing \<noteq> pi_planRunId candidate then False
      else case (pi_sealed existing, pi_sealed candidate) of
        (None, None) \<Rightarrow> existing = candidate
      | (Some a, Some b) \<Rightarrow> sealed_contentDigest a = sealed_contentDigest b \<and> sealed_names a = sealed_names b
      | _ \<Rightarrow> False)"

record preparation_identity =
  id_run :: string
  id_workspaceId :: string
  id_ownershipEpoch :: "int option"
  id_appManagementEpoch :: "int option"
  id_capsuleId :: "string option"
  id_sourceDigest :: "string option"
  id_operation :: "run_operation option"
  id_dependencySnapshotId :: "string option"
  id_variablesDigest :: "string option"
  id_executionInputsDigest :: "string option"
  id_sourceSnapshotId :: "string option"
  id_driftCheck :: "bool option"
  id_identity :: string

definition planRunPreparationIdentity :: "run \<Rightarrow> preparation_identity" where
  "planRunPreparationIdentity r =
     \<lparr>id_run = run_id r, id_workspaceId = r_workspaceId r, id_ownershipEpoch = r_ownershipEpoch r,
      id_appManagementEpoch = r_appManagementEpoch r, id_capsuleId = r_capsuleId r,
      id_sourceDigest = r_sourceDigest r, id_operation = r_operation r,
      id_dependencySnapshotId = r_dependencySnapshotId r, id_variablesDigest = r_variablesDigest r,
      id_executionInputsDigest = r_executionInputsDigest r, id_sourceSnapshotId = r_sourceSnapshotId r,
      id_driftCheck = r_driftCheck r, id_identity = r_identity r\<rparr>"

definition planRunPreparationExactlyMatches :: "run option \<Rightarrow> plan_inputs option \<Rightarrow> prepare_input \<Rightarrow> bool" where
  "planRunPreparationExactlyMatches existingRun existingInputs candidate =
     (case existingRun of None \<Rightarrow> False
      | Some e \<Rightarrow>
          r_executionInputsDigest e = r_executionInputsDigest (pp_run candidate)
          \<and> planRunPreparationIdentity e = planRunPreparationIdentity (pp_run candidate)
          \<and> (case existingInputs of
               None \<Rightarrow> r_status e = Failed \<and> \<not> planRunPreparationPersistsInputs e
             | Some ei \<Rightarrow> planRunInputsPreparationExactlyMatches ei (pp_inputs candidate)))"

end
