(* ===== verification/Management_Blockers.thy ===== *)
theory Management_Blockers
  imports Run_Rows
begin

text \<open>
  \<open>core/domains/deploy-control/workspace_management_blockers.ts\<close>: the quiescence predicate
  that decides whether a run or an Interface intent still blocks the freezing of its
  Workspace. The ledgers are the maps of the store. Where the source re-checks the type of a
  value, the typed record makes the check trivial; a text must be non-blank, an integer safe
  and not below its minimum. Lemmas: what a run that does not block has settled.
\<close>

section \<open>Rows\<close>

record state_version =
  sv_id :: string
  sv_workspaceId :: string
  sv_capsuleId :: string
  sv_environment :: string
  sv_generation :: int
  sv_stateRef :: string
  sv_digest :: string
  sv_createdByRunId :: string
  sv_createdAt :: string

record intent_error =
  ie_code :: string
  ie_detailDigest :: string
  ie_recordedAt :: string

record intent_receipt =
  ir_disposition :: string
  ir_blueprintsDigest :: string
  ir_completedAt :: string

datatype intent_status = IPending | ICompleted | IDeadLetter

record interface_intent =
  int_id :: string
  int_applyRunId :: "string option"
  int_restoreRunId :: "string option"
  int_sourceIntentId :: "string option"
  int_workspaceId :: string
  int_capsuleId :: string
  int_installConfigId :: string
  int_stateVersionId :: string
  int_outputId :: string
  int_stateGeneration :: int
  int_blueprintsDigest :: string
  int_blueprints :: string
  int_totalItems :: int
  int_nextItemIndex :: int
  int_status :: intent_status
  int_attempts :: int
  int_nextRetryAt :: string
  int_leaseToken :: "string option"
  int_leaseExpiresAt :: "string option"
  int_error :: "intent_error option"
  int_receipt :: "intent_receipt option"
  int_createdAt :: string
  int_updatedAt :: string
  int_completedAt :: "string option"
  int_deadLetteredAt :: "string option"

record ledgers =
  l_runs :: "(string, run) js_map"
  l_stateVersions :: "(string, state_version) js_map"
  l_interfaceIntents :: "(string, interface_intent) js_map"

section \<open>Values\<close>

definition is_text :: "string \<Rightarrow> bool" where
  "is_text v \<longleftrightarrow> \<not> js_blank v"

definition opt_text :: "string option \<Rightarrow> bool" where
  "opt_text v = (case v of None \<Rightarrow> False | Some t \<Rightarrow> is_text t)"

definition absentOrText :: "string option \<Rightarrow> bool" where
  "absentOrText v = (case v of None \<Rightarrow> True | Some t \<Rightarrow> is_text t)"

definition is_integer :: "int \<Rightarrow> int \<Rightarrow> bool" where
  "is_integer minimum n \<longleftrightarrow> is_safe_integer n \<and> minimum \<le> n"

definition stamp_integer :: "stamp \<Rightarrow> bool" where
  "stamp_integer v = (case v of Num n \<Rightarrow> is_integer 0 n | Txt _ \<Rightarrow> False)"

definition stamp_text :: "stamp \<Rightarrow> bool" where
  "stamp_text v = (case v of Num _ \<Rightarrow> False | Txt t \<Rightarrow> is_text t)"

definition sha256_ref :: "string \<Rightarrow> bool" where
  "sha256_ref v \<longleftrightarrow> take 7 v = ''sha256:'' \<and> length v = 71
     \<and> list_all (\<lambda>c. c \<in> set ''0123456789abcdef'') (drop 7 v)"

definition hasTerminalStatus :: "run \<Rightarrow> bool" where
  "hasTerminalStatus r \<longleftrightarrow> r_status r \<in> {Succeeded, Failed, Cancelled, Expired}"

section \<open>Families\<close>

datatype run_family = FPlan | FApply | FSourceSync | FBackup | FCompatibilityCheck | FRestore | FStateRecovery

definition runFamily :: "run \<Rightarrow> run_family option" where
  "runFamily r =
     (let plan = r_type r = None \<and> (r_sourceDigest r \<noteq> None \<or> r_variablesDigest r \<noteq> None);
          apply = r_type r = None \<and> (r_planRunId r \<noteq> None \<or> r_expected r \<noteq> None);
          source = r_kind r = Some ''source_sync'' in
      if plan \<and> apply \<or> plan \<and> source \<or> apply \<and> source then None
      else if plan \<or> apply then
        (if r_type r \<noteq> None \<or> r_kind r \<noteq> None \<or> r_operation r = None then None
         else if apply then (if opt_text (r_planRunId r) \<and> r_expected r \<noteq> None then Some FApply else None)
         else if opt_text (r_sourceDigest r) \<and> opt_text (r_variablesDigest r)
              \<and> r_driftCheck r \<in> {None, Some True}
              \<and> \<not> (r_driftCheck r = Some True \<and> r_operation r \<noteq> Some OpUpdate)
         then Some FPlan else None)
      else if source then (if r_type r = None \<and> opt_text (r_sourceId r) then Some FSourceSync else None)
      else if r_kind r \<noteq> None \<or> r_operation r \<noteq> None then None
      else if r_type r = Some ''backup'' then Some FBackup
      else if r_type r = Some ''compatibility_check'' then Some FCompatibilityCheck
      else if r_type r = Some ''restore'' then Some FRestore
      else if r_type r = Some ''state_recovery'' then Some FStateRecovery
      else None)"

definition validAuditEvents :: "audit_event list \<Rightarrow> bool" where
  "validAuditEvents es \<longleftrightarrow> list_all (\<lambda>e. is_text (ae_type e)) es"

definition starts_with :: "string \<Rightarrow> string \<Rightarrow> bool" where
  "starts_with p v \<longleftrightarrow> take (length p) v = p"

definition event_flag :: "(audit_data \<Rightarrow> bool option) \<Rightarrow> bool \<Rightarrow> audit_event \<Rightarrow> bool" where
  "event_flag f b e = (case ae_data e of None \<Rightarrow> False | Some d \<Rightarrow> f d = Some b)"

definition dispatched :: "run \<Rightarrow> bool" where
  "dispatched r = list_ex (\<lambda>e. event_flag providerDispatched True e \<or> event_flag lifecycleActionDispatched True e
     \<or> starts_with ''lifecycle_action.'' (ae_type e) \<and> event_flag actionDispatched True e) (r_auditEvents r)"

definition hasApplyEffects :: "run \<Rightarrow> bool" where
  "hasApplyEffects r \<longleftrightarrow> r_stateVersionId r \<noteq> None \<or> r_outputId r \<noteq> None \<or> r_executionEvidence r \<noteq> None"

definition matchingState :: "state_version option \<Rightarrow> run \<Rightarrow> bool" where
  "matchingState state r =
     (case state of None \<Rightarrow> False
      | Some s \<Rightarrow> is_text (sv_id s) \<and> is_text (sv_createdByRunId s) \<and> sv_workspaceId s = r_workspaceId r
          \<and> Some (sv_capsuleId s) = r_capsuleId r \<and> Some (sv_environment s) = r_environment r
          \<and> is_integer 1 (sv_generation s))"

definition intent_of_run :: "ledgers \<Rightarrow> string \<Rightarrow> interface_intent option" where
  "intent_of_run l runId =
     (case js_get (l_interfaceIntents l) (''cimi_'' @ runId) of
        Some i \<Rightarrow> Some i
      | None \<Rightarrow> js_get (l_interfaceIntents l) (''cimi_restore_'' @ runId))"

definition restoreIsSettled :: "run \<Rightarrow> ledgers \<Rightarrow> bool" where
  "restoreIsSettled r l =
     (if \<not> opt_text (r_capsuleId r) \<or> \<not> opt_text (r_environment r) then False
      else if r_status r = Cancelled then
        r_startedAt r = None \<and> r_heartbeatAt r = None \<and> r_restoredStateVersionId r = None
        \<and> r_restoredServiceData r = None
      else case (r_restoredStateVersionId r, r_restoredFromStateVersionId r) of
        (Some targetId, Some sourceId) \<Rightarrow>
          if r_status r \<noteq> Succeeded \<or> \<not> is_text targetId \<or> \<not> is_text sourceId then False
          else (case (js_get (l_stateVersions l) targetId, js_get (l_stateVersions l) sourceId) of
             (Some target, Some source) \<Rightarrow>
               if \<not> matchingState (Some target) r \<or> \<not> matchingState (Some source) r
                  \<or> sv_id target \<noteq> targetId \<or> sv_id source \<noteq> sourceId
                  \<or> sv_createdByRunId target \<noteq> run_id r
                  \<or> Some (sv_generation source) \<noteq> r_restoreStateGeneration r
                  \<or> sv_generation target \<le> sv_generation source then False
               else if (if r_restoreServiceData r = Some True
                        then (case r_restoredServiceData r of None \<Rightarrow> True
                              | Some receipt \<Rightarrow> sr_status receipt \<noteq> ''restored'' \<or> \<not> is_text (sr_ref receipt)
                                  \<or> \<not> is_text (sr_digest receipt))
                        else r_restoredServiceData r \<noteq> None) then False
               else (case intent_of_run l (sv_createdByRunId source) of
                  None \<Rightarrow> True
                | Some intent \<Rightarrow>
                    int_workspaceId intent = r_workspaceId r \<and> Some (int_capsuleId intent) = r_capsuleId r
                    \<and> int_stateVersionId intent = sv_id source \<and> int_stateGeneration intent = sv_generation source
                    \<and> (case js_get (l_interfaceIntents l) (''cimi_restore_'' @ run_id r) of
                         None \<Rightarrow> False
                       | Some replacement \<Rightarrow>
                           int_restoreRunId replacement = Some (run_id r)
                           \<and> int_sourceIntentId replacement = Some (int_id intent)
                           \<and> int_workspaceId replacement = r_workspaceId r
                           \<and> Some (int_capsuleId replacement) = r_capsuleId r
                           \<and> int_stateVersionId replacement = sv_id target
                           \<and> int_stateGeneration replacement = sv_generation target
                           \<and> int_blueprintsDigest replacement = int_blueprintsDigest intent))
           | _ \<Rightarrow> False)
      | _ \<Rightarrow> False)"

definition recoveryIsSettled :: "run \<Rightarrow> ledgers \<Rightarrow> bool" where
  "recoveryIsSettled r l =
     (case r_stateRecovery r of None \<Rightarrow> False
      | Some ev \<Rightarrow>
          if r_status r \<noteq> Succeeded \<or> \<not> opt_text (r_capsuleId r) \<or> \<not> opt_text (r_environment r)
             \<or> \<not> opt_text (r_planRunId r) \<or> \<not> is_text (failedApplyRunId ev)
             \<or> \<not> is_text (recoveredStateVersionId ev) \<or> \<not> is_text (re_sourceSnapshotId ev)
             \<or> Some (re_sourceSnapshotId ev) \<noteq> r_sourceSnapshotId r
             \<or> \<not> sha256_ref (plaintextSha256 ev) \<or> \<not> sha256_ref (encryptedDigest ev)
             \<or> \<not> sha256_ref (artifactEvidenceDigest ev)
          then False
          else (case (js_get (l_stateVersions l) (recoveredStateVersionId ev), js_get (l_runs l) (failedApplyRunId ev)) of
             (Some state, Some failed) \<Rightarrow>
               matchingState (Some state) r \<and> sv_id state = recoveredStateVersionId ev
               \<and> sv_generation state = 1 \<and> sv_createdByRunId state = run_id r
               \<and> sv_digest state = plaintextSha256 ev
               \<and> r_status failed = Failed \<and> r_operation failed = Some OpCreate
               \<and> run_id failed = failedApplyRunId ev \<and> r_planRunId failed = r_planRunId r
               \<and> r_workspaceId failed = r_workspaceId r \<and> r_capsuleId failed = r_capsuleId r
               \<and> r_stateVersionId failed = None \<and> r_outputId failed = None
           | _ \<Rightarrow> False))"

definition failedApplyHasRecovery :: "run \<Rightarrow> ledgers \<Rightarrow> bool" where
  "failedApplyHasRecovery r l =
     (if r_status r \<noteq> Failed \<or> r_operation r \<noteq> Some OpCreate \<or> r_stateVersionId r \<noteq> None \<or> r_outputId r \<noteq> None
      then False
      else list_ex (\<lambda>candidate. r_type candidate = Some ''state_recovery''
          \<and> (case r_stateRecovery candidate of None \<Rightarrow> False | Some ev \<Rightarrow> failedApplyRunId ev = run_id r)
          \<and> recoveryIsSettled candidate l) (js_values (l_runs l)))"

definition runBlocksWorkspaceManagement :: "run \<Rightarrow> ledgers \<Rightarrow> bool" where
  "runBlocksWorkspaceManagement r l =
     (if \<not> is_text (run_id r) \<or> \<not> is_text (r_workspaceId r) \<or> \<not> hasTerminalStatus r then True
      else case runFamily r of
        None \<Rightarrow> True
      | Some family \<Rightarrow>
        (let internal = family = FPlan \<or> family = FApply;
             bad_time = (\<lambda>v. case v of None \<Rightarrow> False
                          | Some t \<Rightarrow> if internal then \<not> stamp_integer t else \<not> stamp_text t) in
         if \<not> absentOrText (r_capsuleId r) \<or> \<not> absentOrText (r_sourceId r) \<or> \<not> absentOrText (r_environment r)
            \<or> (case r_heartbeatAt r of None \<Rightarrow> False | Some n \<Rightarrow> \<not> is_integer 0 n) then True
         else if (if internal
                  then \<not> stamp_integer (r_createdAt r)
                     \<or> (case r_updatedAt r of None \<Rightarrow> True | Some t \<Rightarrow> \<not> stamp_integer t)
                  else \<not> stamp_text (r_createdAt r)) then True
         else if bad_time (r_startedAt r) \<or> bad_time (r_finishedAt r) then True
         else if family = FSourceSync then r_status r \<noteq> Succeeded \<and> r_status r \<noteq> Failed
         else if family = FRestore then \<not> restoreIsSettled r l
         else if family = FStateRecovery then \<not> recoveryIsSettled r l
         else if family = FPlan then
           (if \<not> absentOrText (r_appliedApplyRunId r)
               \<or> (case r_approvedAt r of None \<Rightarrow> False | Some n \<Rightarrow> \<not> is_integer 0 n) then True
            else r_status r = Succeeded \<and> r_driftCheck r \<noteq> Some True
              \<and> (r_operation r = Some OpDestroy \<or> r_requiresApproval r = Some True)
              \<and> r_approvedAt r = None \<and> r_appliedApplyRunId r = None)
         else if family \<noteq> FApply then False
         else if \<not> validAuditEvents (r_auditEvents r) then True
         else if applyRunBillingCapturePending r \<or> applyRunRuntimeSecretRetirementPending r
            \<or> applyRunRunnerUsagePending r then True
         else if r_status r = Succeeded then False
         else if failedApplyHasRecovery r l then False
         else if dispatched r \<or> hasApplyEffects r then True
         else if r_status r = Failed then
           \<not> list_ex (\<lambda>e. (ae_type e = ''apply.failed''
                  \<or> r_operation r = Some OpDestroy \<and> ae_type e = ''destroy.failed'')
                \<and> event_flag providerDispatched False e) (r_auditEvents r)
         else r_startedAt r \<noteq> None \<or> r_heartbeatAt r \<noteq> None))"

text \<open>The Restore branch of the intent check: the predecessor intent must be the exact source.\<close>

definition restore_intent_unsettled :: "ledgers \<Rightarrow> interface_intent \<Rightarrow> run \<Rightarrow> bool" where
  "restore_intent_unsettled l v restoreRun =
     (case r_restoredFromStateVersionId restoreRun of None \<Rightarrow> True
      | Some fromId \<Rightarrow>
          if \<not> is_text fromId then True
          else (case js_get (l_stateVersions l) fromId of
             None \<Rightarrow> True
           | Some sourceState \<Rightarrow>
               if \<not> matchingState (Some sourceState) restoreRun then True
               else (case intent_of_run l (sv_createdByRunId sourceState) of
                  None \<Rightarrow> True
                | Some sourceIntent \<Rightarrow>
                    Some (int_id sourceIntent) \<noteq> int_sourceIntentId v
                    \<or> int_workspaceId sourceIntent \<noteq> int_workspaceId v \<or> int_capsuleId sourceIntent \<noteq> int_capsuleId v
                    \<or> int_installConfigId sourceIntent \<noteq> int_installConfigId v
                    \<or> int_blueprintsDigest sourceIntent \<noteq> int_blueprintsDigest v
                    \<or> int_stateVersionId sourceIntent \<noteq> fromId
                    \<or> int_stateGeneration sourceIntent \<noteq> sv_generation sourceState)))"

definition interfaceIntentBlocksWorkspaceManagement :: "interface_intent \<Rightarrow> ledgers \<Rightarrow> bool" where
  "interfaceIntentBlocksWorkspaceManagement v l =
     (if int_status v \<noteq> ICompleted \<or> int_leaseToken v \<noteq> None \<or> int_leaseExpiresAt v \<noteq> None
         \<or> int_error v \<noteq> None \<or> int_deadLetteredAt v \<noteq> None
         \<or> \<not> is_text (int_id v) \<or> \<not> is_text (int_workspaceId v) \<or> \<not> is_text (int_capsuleId v)
         \<or> \<not> is_text (int_installConfigId v) \<or> \<not> is_text (int_stateVersionId v) \<or> \<not> is_text (int_outputId v)
         \<or> \<not> opt_text (int_completedAt v)
         \<or> \<not> is_integer 1 (int_stateGeneration v) \<or> \<not> is_integer 1 (int_totalItems v)
         \<or> \<not> is_integer 0 (int_nextItemIndex v) \<or> int_totalItems v < int_nextItemIndex v
         \<or> \<not> is_integer 0 (int_attempts v) \<or> \<not> sha256_ref (int_blueprintsDigest v) then True
      else
       (let apply = opt_text (int_applyRunId v); restore = opt_text (int_restoreRunId v) in
        if apply = restore
           \<or> apply \<and> (int_restoreRunId v \<noteq> None \<or> int_sourceIntentId v \<noteq> None
                \<or> int_id v \<noteq> ''cimi_'' @ the (int_applyRunId v))
           \<or> restore \<and> (int_applyRunId v \<noteq> None \<or> \<not> opt_text (int_sourceIntentId v)
                \<or> int_id v \<noteq> ''cimi_restore_'' @ the (int_restoreRunId v)) then True
        else
         (let originId = (if apply then the (int_applyRunId v) else the (int_restoreRunId v)) in
          case js_get (l_runs l) originId of
            None \<Rightarrow> True
          | Some origin \<Rightarrow>
              if run_id origin \<noteq> originId \<or> r_workspaceId origin \<noteq> int_workspaceId v
                 \<or> r_capsuleId origin \<noteq> Some (int_capsuleId v) \<or> r_status origin \<noteq> Succeeded
                 \<or> apply \<and> r_operation origin = Some OpDestroy
                 \<or> runFamily origin \<noteq> Some (if apply then FApply else FRestore) then True
              else (case js_get (l_stateVersions l) (int_stateVersionId v) of
                 None \<Rightarrow> True
               | Some state \<Rightarrow>
                   if sv_id state \<noteq> int_stateVersionId v \<or> sv_workspaceId state \<noteq> int_workspaceId v
                      \<or> sv_capsuleId state \<noteq> int_capsuleId v \<or> sv_generation state \<noteq> int_stateGeneration v
                      \<or> sv_createdByRunId state \<noteq> run_id origin then True
                   else if restore \<and> restore_intent_unsettled l v origin then True
                   else (case int_receipt v of
                      None \<Rightarrow> True
                    | Some receipt \<Rightarrow>
                        if ir_blueprintsDigest receipt \<noteq> int_blueprintsDigest v
                           \<or> Some (ir_completedAt receipt) \<noteq> int_completedAt v then True
                        else if ir_disposition receipt = ''materialized''
                        then int_nextItemIndex v \<noteq> int_totalItems v
                        else ir_disposition receipt \<noteq> ''retired_before_materialization''
                           \<and> ir_disposition receipt \<noteq> ''superseded_before_materialization'')))))"

section \<open>Lemmas: what a non-blocking row has settled\<close>

lemma unblocked_terminal:
  "\<not> runBlocksWorkspaceManagement r l \<Longrightarrow> hasTerminalStatus r \<and> (\<exists>f. runFamily r = Some f)"
  by (cases "runFamily r") (simp_all add: runBlocksWorkspaceManagement_def split: if_split_asm)

lemma unblocked_plan:
  assumes "\<not> runBlocksWorkspaceManagement r l" "runFamily r = Some FPlan"
  shows "\<not> planRunAwaitsApproval r"
proof -
  have t: "hasTerminalStatus r" using unblocked_terminal [OF assms(1)] by simp
  have "absentOrText (r_appliedApplyRunId r)"
    "\<not> (r_status r = Succeeded \<and> r_driftCheck r \<noteq> Some True
      \<and> (r_operation r = Some OpDestroy \<or> r_requiresApproval r = Some True)
      \<and> r_approvedAt r = None \<and> r_appliedApplyRunId r = None)"
    using assms unfolding runBlocksWorkspaceManagement_def Let_def by (auto split: if_split_asm)
  then show ?thesis
    using t by (auto simp: planRunAwaitsApproval_def hasTerminalStatus_def absentOrText_def is_text_def js_blank_def
        js_trim_def split: option.splits if_splits)
qed

lemma unblocked_apply:
  assumes "\<not> runBlocksWorkspaceManagement r l" "runFamily r = Some FApply"
  shows "\<not> applyRunBillingCapturePending r \<and> \<not> applyRunRuntimeSecretRetirementPending r
    \<and> \<not> applyRunRunnerUsagePending r"
proof -
  have "\<not> (applyRunBillingCapturePending r \<or> applyRunRuntimeSecretRetirementPending r
      \<or> applyRunRunnerUsagePending r)"
    using assms unfolding runBlocksWorkspaceManagement_def Let_def
    by (simp only: option.case run_family.distinct simp_thms if_False if_True split: if_split_asm)
  then show ?thesis by simp
qed

lemma unblocked_intent:
  "\<not> interfaceIntentBlocksWorkspaceManagement i l \<Longrightarrow>
     int_status i = ICompleted \<and> int_leaseToken i = None \<and> int_leaseExpiresAt i = None"
  unfolding interfaceIntentBlocksWorkspaceManagement_def by (simp only: split: if_split_asm) blast+

end
