(* ===== verification/Run_Ledger.thy ===== *)
theory Run_Ledger
  imports Workspace_Store Management_Blockers
begin

text \<open>
  The run ledger of \<open>InMemoryOpenTofuControlStore\<close>
  (\<open>core/domains/deploy-control/store.ts\<close>): admission of Plan and Apply runs
  (\<open>preparePlanRun\<close>, \<open>beginApplyRun\<close>), the compare-and-set \<open>transitionRun\<close> with its
  lease, heartbeat, management, drain and exact-observation fences, the append-only audit
  write of a running owner, and the freezing of a drained Workspace. The state extends the
  Workspace store by the maps these operations touch. \<open>structuredClone\<close> is the identity on
  values, and an operation runs to completion between two awaits of the single-threaded
  store, so every operation is one atomic step. The blockers of the paired Git install-plan
  store are an argument of the freeze.
\<close>

section \<open>State\<close>

record run_store = workspace_store +
  runs :: "(string, run) js_map"
  runLeases :: "(string, string) js_map"
  planRunInputs :: "(string, plan_inputs) js_map"
  capsules :: "(string, capsule) js_map"
  capsuleExecutionAuthorityEpochs :: "(string, int) js_map"
  capsuleOwnership :: "(string, capsule_ownership) js_map"
  stateVersions :: "(string, state_version) js_map"
  interfaceIntents :: "(string, interface_intent) js_map"
  sourceWorkspaces :: "(string, string) js_map"
  usageWorkspaces :: "(string, string) js_map"
  backupWorkspaces :: "(string, string) js_map"

definition capsuleForAppAdmission :: "run_store \<Rightarrow> string \<Rightarrow> capsule option" where
  "capsuleForAppAdmission s k =
     capsuleWithOwnershipForAdmission (js_get (capsules s) k) (js_get (capsuleOwnership s) k)"

section \<open>Admission\<close>

definition putPlanRun :: "run \<Rightarrow> run_store \<Rightarrow> store_error + (run \<times> run_store)" where
  "putPlanRun r s =
     chain (preserveStoredRunManagementAuthority r (js_get (runs s) (run_id r))) (\<lambda>stored.
       Inr (publicStoredRun r, s\<lparr>runs := js_set (run_id r) stored (runs s)\<rparr>))"

definition putApplyRun :: "run \<Rightarrow> run_store \<Rightarrow> store_error + (run \<times> run_store)" where
  "putApplyRun r s =
     chain (preserveStoredRunManagementAuthority r (js_get (runs s) (run_id r))) (\<lambda>stored.
       Inr (publicStoredRun r, s\<lparr>runs := js_set (run_id r) stored (runs s)\<rparr>))"

datatype admission_result = Created run | Existing run | AdmissionConflict

definition preparePlanRun :: "prepare_input \<Rightarrow> run_store \<Rightarrow> store_error + (admission_result \<times> run_store)" where
  "preparePlanRun input s =
     (let r = pp_run input; ws = r_workspaceId r in
      chain (assertPlanRunPreparation input) (\<lambda>_.
      chain (case pp_authority input of None \<Rightarrow> Inr ()
             | Some a \<Rightarrow> assertWorkspaceManagementAuthorityInput a ws) (\<lambda>_.
      case js_get (runs s) (run_id r) of
        Some current \<Rightarrow>
          (let currentRun = (if isPlanRunRecord current then Some (coerceRunRowStatus current) else None) in
           if planRunPreparationExactlyMatches currentRun (js_get (planRunInputs s) (run_id r)) input
           then Inr (Existing (publicStoredRun (the currentRun)), s)
           else Inl (PlanRunPreparationConflictError (run_id r)))
      | None \<Rightarrow>
         (case pp_authority input of
            None \<Rightarrow> Inl (WorkspaceManagementAdmissionConflictError ws)
          | Some a \<Rightarrow>
              chain (assertWorkspaceManagementAdmission (js_get (workspaceManagement s) ws) ws (Some a)) (\<lambda>_.
              if js_has (planRunInputs s) (run_id r) then Inl (PlanRunPreparationConflictError (run_id r))
              else
              chain (case pp_capsuleFence input of None \<Rightarrow> Inr ()
                     | Some fence \<Rightarrow>
                         (case r_capsuleId r of
                            None \<Rightarrow> assertCapsulePlanCreationFence None None fence
                          | Some c \<Rightarrow>
                              if c = [] then assertCapsulePlanCreationFence None None fence
                              else assertCapsulePlanCreationFence (js_get (capsules s) c)
                                (Some (case js_get (capsuleExecutionAuthorityEpochs s) c of None \<Rightarrow> 1 | Some e \<Rightarrow> e))
                                fence)) (\<lambda>_.
              if (case r_capsuleId r of None \<Rightarrow> False
                  | Some c \<Rightarrow> \<not> appPlanAdmission (capsuleForAppAdmission s c) r)
              then Inl (CapsulePlanCreationFenceConflictError (the (r_capsuleId r)))
              else
              chain (storeRunManagementAuthority r a) (\<lambda>stored.
                Inr (Created (publicStoredRun r),
                     s\<lparr>planRunInputs := (if planRunPreparationPersistsInputs r
                         then js_set (run_id r) (pp_inputs input) (planRunInputs s) else planRunInputs s),
                       runs := js_set (run_id r) stored (runs s)\<rparr>))))))))"

definition beginApplyRun ::
    "run \<Rightarrow> management option \<Rightarrow> apply_fence option \<Rightarrow> run_store \<Rightarrow> store_error + (admission_result \<times> run_store)" where
  "beginApplyRun r expected expectedCapsule s =
     (let ws = r_workspaceId r in
      chain (case expected of None \<Rightarrow> Inr () | Some a \<Rightarrow> assertWorkspaceManagementAuthorityInput a ws) (\<lambda>_.
      chain (case expectedCapsule of None \<Rightarrow> Inr () | Some f \<Rightarrow> assertCapsuleApplyRunAdmissionFenceInput f) (\<lambda>_.
      case js_get (runs s) (run_id r) of
        Some current \<Rightarrow>
          Inr (if isApplyRunRecord current then Existing (publicStoredRun (coerceRunRowStatus current))
               else AdmissionConflict, s)
      | None \<Rightarrow>
         (case expected of
            None \<Rightarrow> Inl (WorkspaceManagementAdmissionConflictError ws)
          | Some a \<Rightarrow>
              chain (assertWorkspaceManagementAdmission (js_get (workspaceManagement s) ws) ws (Some a)) (\<lambda>_.
              chain (case r_capsuleId r of
                       None \<Rightarrow>
                         throw_if ((case r_expected r of None \<Rightarrow> False | Some g \<Rightarrow> g_capsuleId g \<noteq> None)
                             \<or> expectedCapsule \<noteq> None)
                           (CapsuleApplyRunAdmissionConflictError None)
                     | Some c \<Rightarrow>
                         (case expectedCapsule of
                            None \<Rightarrow> Inl (CapsuleApplyRunAdmissionConflictError (Some c))
                          | Some f \<Rightarrow>
                             (let capsule = js_get (capsules s) c;
                                  epoch = map_option (\<lambda>cap. case js_get (capsuleExecutionAuthorityEpochs s) (cap_id cap) of
                                            None \<Rightarrow> 1 | Some e \<Rightarrow> e) capsule;
                                  storedPlan = (case Option.bind (r_planRunId r) (js_get (runs s)) of
                                      Some p \<Rightarrow> if isPlanRunRecord p then Some p else None | None \<Rightarrow> None) in
                              throw_if (\<not> capsuleApplyRunAdmissionFenceMatchesRun r f
                                  \<or> \<not> capsuleApplyRunAdmissionFenceMatchesCurrent capsule epoch f
                                  \<or> \<not> appApplyAdmission (capsuleForAppAdmission s c) storedPlan r)
                                (CapsuleApplyRunAdmissionConflictError (Some c))))) (\<lambda>_.
              chain (storeRunManagementAuthority r a) (\<lambda>stored.
                Inr (Created (publicStoredRun r), s\<lparr>runs := js_set (run_id r) stored (runs s)\<rparr>)))))))) "

definition getPlanRun :: "run_store \<Rightarrow> string \<Rightarrow> run option" where
  "getPlanRun s k =
     (case js_get (runs s) k of None \<Rightarrow> None
      | Some r \<Rightarrow> if isPlanRunRecord r then Some (publicStoredRun (coerceRunRowStatus r)) else None)"

definition getApplyRun :: "run_store \<Rightarrow> string \<Rightarrow> run option" where
  "getApplyRun s k =
     (case js_get (runs s) k of None \<Rightarrow> None
      | Some r \<Rightarrow> if isApplyRunRecord r then Some (publicStoredRun (coerceRunRowStatus r)) else None)"

definition getPlanRunsByIds :: "run_store \<Rightarrow> string list \<Rightarrow> run list" where
  "getPlanRunsByIds s ids = List.map_filter (getPlanRun s) (rev (remdups (rev ids)))"

definition getRunManagementAuthority :: "run_store \<Rightarrow> string \<Rightarrow> string \<Rightarrow> run_kind \<Rightarrow> management option" where
  "getRunManagementAuthority s k ws kind =
     (case js_get (runs s) k of None \<Rightarrow> None | Some r \<Rightarrow> runManagementAuthorityForIdentity r k ws kind)"

definition putPlanRunInputs :: "plan_inputs \<Rightarrow> run_store \<Rightarrow> run_store" where
  "putPlanRunInputs inputs s = s\<lparr>planRunInputs := js_set (pi_planRunId inputs) inputs (planRunInputs s)\<rparr>"

definition deletePlanRunInputs :: "string \<Rightarrow> run_store \<Rightarrow> run_store" where
  "deletePlanRunInputs k s = s\<lparr>planRunInputs := js_delete k (planRunInputs s)\<rparr>"

definition setCapsuleOwnership ::
    "capsule_ownership \<Rightarrow> bool \<Rightarrow> int option \<Rightarrow> 'a run_store_scheme \<Rightarrow> bool \<times> 'a run_store_scheme" where
  "setCapsuleOwnership record onlyIfMissing expectedEpoch s =
     (let current = js_get (capsuleOwnership s) (own_capsuleId record) in
      if \<not> js_has (capsules s) (own_capsuleId record) \<or> onlyIfMissing \<and> current \<noteq> None
         \<or> (case expectedEpoch of None \<Rightarrow> False
            | Some e \<Rightarrow> (case current of None \<Rightarrow> 0 | Some c \<Rightarrow> own_ownershipEpoch c) \<noteq> e)
      then (False, s)
      else (True, s\<lparr>capsuleOwnership := js_set (own_capsuleId record) record (capsuleOwnership s)\<rparr>))"

section \<open>Transitions\<close>

record transition_input =
  t_id :: string
  t_kind :: run_kind
  expectFrom :: "run_status list"
  expectLeaseToken :: "string option"
  expectHeartbeatAt :: "int option option"
  expectStartedAt :: "stamp option option"
  expectExactRun :: "run option"
  expectDrainSettlement :: "(management \<times> run) option"
  t_run :: run
  setLeaseToken :: "string option"
  clearLeaseToken :: bool
  clearHeartbeat :: bool
  t_heartbeatAt :: "int option"
  t_expectedAuthority :: "management option"
  requireStoredManagementAuthority :: "bool option"

record transition_result =
  won :: bool
  tr_run :: "run option"

definition mergeRunAuditEvents :: "run \<Rightarrow> run \<Rightarrow> run" where
  "mergeRunAuditEvents candidate current =
     candidate\<lparr>r_auditEvents := r_auditEvents current
       @ filter (\<lambda>e. ae_id e \<notin> ae_id ` set (r_auditEvents current)) (r_auditEvents candidate)\<rparr>"

definition runCanCancelDuringDrain :: "run \<Rightarrow> bool" where
  "runCanCancelDuringDrain r =
     (let plan = isPlanRunRecord r;
          bad = (\<lambda>v. case v of None \<Rightarrow> False | Some t \<Rightarrow> \<not> stamp_integer t) in
      if plan = isApplyRunRecord r \<or> r_kind r \<noteq> None \<or> r_type r \<noteq> None then False
      else if \<not> stamp_integer (r_createdAt r)
         \<or> (case r_updatedAt r of None \<Rightarrow> True | Some t \<Rightarrow> \<not> stamp_integer t)
         \<or> bad (r_startedAt r) \<or> bad (r_finishedAt r)
         \<or> (case r_heartbeatAt r of None \<Rightarrow> False | Some n \<Rightarrow> \<not> is_integer 0 n) then False
      else if plan \<and> (r_approvedAt r \<noteq> None \<or> r_appliedApplyRunId r \<noteq> None) then False
      else if r_status r = Queued
      then r_startedAt r = None \<and> r_heartbeatAt r = None \<and> r_finishedAt r = None
      else plan \<and> planRunAwaitsApproval r)"

definition drainIsoTimestamp :: "stamp option \<Rightarrow> int option" where
  "drainIsoTimestamp v =
     (case v of Some (Txt t) \<Rightarrow>
        (case date_parse t of None \<Rightarrow> None
         | Some n \<Rightarrow> if is_safe_integer n \<and> 0 \<le> n \<and> iso_string n = t then Some n else None)
      | _ \<Rightarrow> None)"

definition sourceSyncRunForDrainFailure :: "run \<Rightarrow> stamp option \<Rightarrow> run option" where
  "sourceSyncRunForDrainFailure r finishedAt =
     (if \<not> isSourceSyncRunRecord r \<or> isPlanRunRecord r \<or> isApplyRunRecord r \<or> r_type r \<noteq> None
         \<or> r_status r \<noteq> Queued then None
      else if r_startedAt r \<noteq> None \<or> r_heartbeatAt r \<noteq> None \<or> r_finishedAt r \<noteq> None
         \<or> r_resolvedCommit r \<noteq> None \<or> r_archiveDigest r \<noteq> None \<or> r_archiveSizeBytes r \<noteq> None
         \<or> r_phaseTimings r \<noteq> None \<or> r_error r \<noteq> None \<or> r_errorCode r \<noteq> None then None
      else if r_snapshotId r = Some [] then None
      else case (drainIsoTimestamp (Some (r_createdAt r)), drainIsoTimestamp (r_updatedAt r), drainIsoTimestamp finishedAt) of
        (Some created, Some updated, Some finished) \<Rightarrow>
          if updated < created \<or> finished < updated then None
          else Some (r\<lparr>r_status := Failed, r_errorCode := Some ''workspace_management_draining'',
                 r_error := Some ''Workspace management stopped before this source sync was started.'',
                 r_updatedAt := finishedAt, r_finishedAt := finishedAt\<rparr>)
      | _ \<Rightarrow> None)"

definition restoreRunForDrainCancellation :: "run \<Rightarrow> stamp option \<Rightarrow> run option" where
  "restoreRunForDrainCancellation r finishedAt =
     (if \<not> isRestoreRunRecord r \<or> r_kind r \<noteq> None \<or> r_status r \<noteq> Queued \<and> r_status r \<noteq> WaitingApproval
         \<or> r_capsuleId r \<in> {None, Some []} \<or> r_environment r \<in> {None, Some []} then None
      else if r_startedAt r \<noteq> None \<or> r_heartbeatAt r \<noteq> None \<or> r_finishedAt r \<noteq> None
         \<or> r_restoredStateVersionId r \<noteq> None \<or> r_restoredServiceData r \<noteq> None
         \<or> r_executionEvidence r \<noteq> None \<or> r_errorCode r \<noteq> None then None
      else case (drainIsoTimestamp (Some (r_createdAt r)), drainIsoTimestamp finishedAt) of
        (Some created, Some finished) \<Rightarrow>
          if finished < created then None
          else Some (r\<lparr>r_status := Cancelled, r_finishedAt := finishedAt\<rparr>)
      | _ \<Rightarrow> None)"

definition kind_name :: "run_kind \<Rightarrow> string" where
  "kind_name k = (case k of KPlan \<Rightarrow> ''plan'' | KApply \<Rightarrow> ''apply''
     | KSourceSync \<Rightarrow> ''source_sync'' | KRestore \<Rightarrow> ''restore'')"

definition drain_cancelled :: "transition_input \<Rightarrow> run \<Rightarrow> int \<Rightarrow> run" where
  "drain_cancelled input expected now =
     (let eventType = kind_name (t_kind input) @ ''.cancelled'' in
      (publicStoredRun expected)\<lparr>r_status := Cancelled,
        r_auditEvents := r_auditEvents expected @
          [\<lparr>ae_id = run_id expected @ '':'' @ eventType @ '':'' @ show_int now, ae_type = eventType, ae_at = now,
            ae_data = None, ae_rest = []\<rparr>],
        r_updatedAt := Some (Num now), r_finishedAt := Some (Num now)\<rparr>)"

definition assertDrainRunSettlementInput :: "transition_input \<Rightarrow> store_error + unit" where
  "assertDrainRunSettlementInput input =
     (case expectDrainSettlement input of None \<Rightarrow> Inr ()
      | Some (management, expected) \<Rightarrow>
        chain (assertWorkspaceFreezeExpectation management) (\<lambda>_.
        if run_id expected \<noteq> t_id input \<or> transitionKindForRun expected \<noteq> Some (t_kind input)
           \<or> expectFrom input \<noteq> [r_status expected]
           \<or> expectExactRun input \<noteq> None \<or> t_expectedAuthority input \<noteq> None
           \<or> requireStoredManagementAuthority input \<noteq> None
           \<or> setLeaseToken input \<noteq> None \<or> expectLeaseToken input \<noteq> None
           \<or> t_heartbeatAt input \<noteq> None \<or> clearHeartbeat input \<or> expectHeartbeatAt input \<noteq> None
           \<or> (case expectStartedAt input of None \<Rightarrow> False
              | Some v \<Rightarrow> v \<noteq> None \<or> r_status expected \<noteq> Queued
                  \<and> \<not> (isRestoreRunRecord expected \<and> r_status expected = WaitingApproval))
        then Inl (TypeError ''Drain settlement requires an exact unclaimed Run observation'')
        else if isSourceSyncRunRecord expected then
          (let failed = (if isSourceSyncRunRecord (t_run input)
                         then sourceSyncRunForDrainFailure expected (r_updatedAt (t_run input)) else None) in
           throw_if (map_option publicStoredRun failed \<noteq> Some (publicStoredRun (t_run input)))
             (TypeError ''Drain settlement may only fail a never-started SourceSync''))
        else if isRestoreRunRecord expected then
          (let cancelled = (if isRestoreRunRecord (t_run input)
                              \<and> (case r_finishedAt (t_run input) of Some (Txt _) \<Rightarrow> True | _ \<Rightarrow> False)
                            then restoreRunForDrainCancellation expected (r_finishedAt (t_run input)) else None) in
           throw_if (map_option publicStoredRun cancelled \<noteq> Some (publicStoredRun (t_run input)))
             (TypeError ''Drain settlement may only cancel a never-started Restore''))
        else if \<not> runCanCancelDuringDrain expected
           \<or> \<not> isPlanRunRecord (t_run input) \<and> \<not> isApplyRunRecord (t_run input)
        then Inl (TypeError ''Drain settlement requires an exact unclaimed Plan or Apply observation'')
        else (case r_updatedAt (t_run input) of
           Some (Num now) \<Rightarrow>
             throw_if (\<not> is_safe_integer now
                 \<or> (case r_updatedAt expected of Some (Num u) \<Rightarrow> now < u | _ \<Rightarrow> False)
                 \<or> publicStoredRun (t_run input) \<noteq> drain_cancelled input expected now)
               (TypeError ''Drain cancellation may only append its cancellation event and terminal timestamps'')
         | _ \<Rightarrow> Inl (TypeError ''Drain cancellation may only append its cancellation event and terminal timestamps''))))"

definition runDrainSettlementMatches :: "run \<Rightarrow> transition_input \<Rightarrow> bool" where
  "runDrainSettlementMatches current input =
     (case expectDrainSettlement input of None \<Rightarrow> True
      | Some (management, expected) \<Rightarrow>
          (case runManagementAuthority current of None \<Rightarrow> False
           | Some original \<Rightarrow> r_workspaceId current = mgmt_workspaceId management
               \<and> managementEpoch original < managementEpoch management
               \<and> publicStoredRun current = publicStoredRun expected))"

text \<open>A row without its audit history and \<open>updatedAt\<close>, the two things a finaliser may change.\<close>

definition without_progress :: "run \<Rightarrow> run" where
  "without_progress r = (publicStoredRun r)\<lparr>r_auditEvents := [], r_updatedAt := None\<rparr>"

definition assertExactRunTransitionInput :: "transition_input \<Rightarrow> store_error + unit" where
  "assertExactRunTransitionInput input =
     (case expectExactRun input of None \<Rightarrow> Inr ()
      | Some expected \<Rightarrow>
        if t_kind input \<noteq> KApply \<or> \<not> isApplyRunRecord expected \<or> \<not> isApplyRunRecord (t_run input)
           \<or> run_id expected \<noteq> t_id input \<or> \<not> runStoredIdentityMatches expected (t_run input)
           \<or> r_operation expected \<noteq> r_operation (t_run input)
           \<or> r_status expected \<noteq> Succeeded \<and> r_status expected \<noteq> Failed
           \<or> r_status (t_run input) \<noteq> r_status expected
           \<or> expectFrom input \<noteq> [r_status expected]
           \<or> setLeaseToken input \<noteq> None \<or> clearLeaseToken input \<or> expectLeaseToken input \<noteq> None
           \<or> t_heartbeatAt input \<noteq> None \<or> clearHeartbeat input \<or> expectHeartbeatAt input \<noteq> None
           \<or> expectStartedAt input \<noteq> None \<or> r_heartbeatAt (t_run input) \<noteq> r_heartbeatAt expected
        then Inl (TypeError ''Exact Run observation requires a terminal Apply finalizer transition'')
        else
         (let beforeEvents = r_auditEvents expected; afterEvents = r_auditEvents (t_run input);
              appendedType = (if afterEvents = [] then None else Some (ae_type (last afterEvents)));
              finalizesPendingWork =
                (if appendedType = Some ''billing.capture.completed'' then applyRunBillingCapturePending expected
                 else (appendedType = Some ''runtime_secret.retirement.completed''
                       \<or> appendedType = Some ''runtime_secret.retirement.deferred'')
                      \<and> applyRunRuntimeSecretRetirementPending expected
                      \<or> appendedType = Some ''runner_usage.completed'' \<and> applyRunRunnerUsagePending expected) in
          throw_if (without_progress expected \<noteq> without_progress (t_run input)
              \<or> length afterEvents \<noteq> length beforeEvents + 1
              \<or> take (length beforeEvents) afterEvents \<noteq> beforeEvents \<or> \<not> finalizesPendingWork)
            (TypeError ''Exact Run finalization may only append one pending-work outcome'')))"

definition resolvedHeartbeat :: "transition_input \<Rightarrow> int option" where
  "resolvedHeartbeat input =
     (case t_heartbeatAt input of Some h \<Rightarrow> Some h | None \<Rightarrow> r_heartbeatAt (t_run input))"

definition stripRunHeartbeat :: "run \<Rightarrow> run" where
  "stripRunHeartbeat r = r\<lparr>r_heartbeatAt := None\<rparr>"

text \<open>The refusals of \<open>transitionRun\<close> in the order of the source; each answers
  \<open>won: false\<close> with the row as it is.\<close>

definition identity_lost :: "transition_input \<Rightarrow> run \<Rightarrow> bool" where
  "identity_lost input current \<longleftrightarrow> runRequiresStoredManagementAuthority current
     \<and> (run_id (t_run input) \<noteq> t_id input \<or> \<not> runStoredIdentityMatches current (t_run input))"

definition expected_authority_lost :: "transition_input \<Rightarrow> run_store \<Rightarrow> run \<Rightarrow> bool" where
  "expected_authority_lost input s current =
     (case t_expectedAuthority input of None \<Rightarrow> False
      | Some e \<Rightarrow> r_workspaceId current \<noteq> mgmt_workspaceId e
          \<or> (case js_get (workspaceManagement s) (r_workspaceId current) of None \<Rightarrow> True
             | Some m \<Rightarrow> managementState m \<noteq> Active \<or> managementEpoch m \<noteq> managementEpoch e))"

definition lease_admission_lost :: "transition_input \<Rightarrow> run_store \<Rightarrow> run \<Rightarrow> bool" where
  "lease_admission_lost input s current =
     (case setLeaseToken input of None \<Rightarrow> False
      | Some _ \<Rightarrow>
        (let management = js_get (workspaceManagement s) (r_workspaceId current) in
         map_option managementState management \<noteq> Some Active
         \<or> runRequiresStoredManagementAuthority current
           \<and> (case runManagementAuthority current of None \<Rightarrow> True
              | Some a \<Rightarrow> map_option managementEpoch management \<noteq> Some (managementEpoch a)
                  \<or> r_workspaceId (t_run input) \<noteq> r_workspaceId current)
         \<or> (isPlanRunRecord current \<or> isApplyRunRecord current)
           \<and> (case r_capsuleId current of None \<Rightarrow> False
              | Some c \<Rightarrow>
                 (let storedPlan =
                    (if isPlanRunRecord current then Some current
                     else if isApplyRunRecord current
                     then (case Option.bind (r_planRunId current) (js_get (runs s)) of
                             Some p \<Rightarrow> if isPlanRunRecord p then Some p else None | None \<Rightarrow> None)
                     else None) in
                  \<not> appClaimAdmission (capsuleForAppAdmission s c) storedPlan current
                      (r_status current = Running \<and> Running \<in> set (expectFrom input)
                       \<and> expectHeartbeatAt input \<noteq> None)))))"

definition stored_authority_lost :: "transition_input \<Rightarrow> run_store \<Rightarrow> run \<Rightarrow> bool" where
  "stored_authority_lost input s current \<longleftrightarrow>
     requireStoredManagementAuthority input = Some True
     \<and> (case runManagementAuthority current of None \<Rightarrow> True
        | Some a \<Rightarrow> mgmt_workspaceId a \<noteq> r_workspaceId current
            \<or> (case js_get (workspaceManagement s) (r_workspaceId current) of None \<Rightarrow> True
               | Some m \<Rightarrow> managementState m \<noteq> Active \<or> managementEpoch m \<noteq> managementEpoch a))"

definition drain_lost :: "transition_input \<Rightarrow> run_store \<Rightarrow> run \<Rightarrow> bool" where
  "drain_lost input s current =
     (case expectDrainSettlement input of None \<Rightarrow> False
      | Some (expected, _) \<Rightarrow>
          (case js_get (workspaceManagement s) (r_workspaceId current) of None \<Rightarrow> True
           | Some m \<Rightarrow> managementState m \<noteq> Draining \<or> managementEpoch m \<noteq> managementEpoch expected)
          \<or> js_has (runLeases s) (t_id input) \<or> \<not> runDrainSettlementMatches current input)"

definition fences_match :: "transition_input \<Rightarrow> run_store \<Rightarrow> run \<Rightarrow> bool" where
  "fences_match input s current \<longleftrightarrow>
     r_status current \<in> set (expectFrom input)
     \<and> (expectLeaseToken input = None \<or> expectLeaseToken input = js_get (runLeases s) (t_id input))
     \<and> (expectHeartbeatAt input = None \<or> expectHeartbeatAt input = Some (r_heartbeatAt current))
     \<and> (expectStartedAt input = None \<or> expectStartedAt input = Some (r_startedAt current))
     \<and> (case expectExactRun input of None \<Rightarrow> True
        | Some e \<Rightarrow> \<not> js_has (runLeases s) (t_id input) \<and> publicStoredRun current = publicStoredRun e)"

definition persisted_run :: "transition_input \<Rightarrow> run \<Rightarrow> run" where
  "persisted_run input current =
     (let p = (if clearHeartbeat input then stripRunHeartbeat (t_run input)
               else (t_run input)\<lparr>r_heartbeatAt := resolvedHeartbeat input\<rparr>) in
      if t_kind input = KPlan \<and> isPlanRunRecord current then mergeRunAuditEvents p current
      else if t_kind input = KApply \<and> isApplyRunRecord current then mergeRunAuditEvents p current
      else p)"

definition transitionRun ::
    "transition_input \<Rightarrow> run_store \<Rightarrow> store_error + (transition_result \<times> run_store)" where
  "transitionRun input s =
     chain (assertExactRunTransitionInput input) (\<lambda>_.
     chain (assertDrainRunSettlementInput input) (\<lambda>_.
     case js_get (runs s) (t_id input) of
       None \<Rightarrow> Inr (\<lparr>won = False, tr_run = None\<rparr>, s)
     | Some current \<Rightarrow>
        (let lost = Inr (\<lparr>won = False, tr_run = Some (publicStoredRun current)\<rparr>, s) in
         if transitionKindForRun current \<noteq> Some (t_kind input) then Inr (\<lparr>won = False, tr_run = None\<rparr>, s)
         else if identity_lost input current then lost
         else chain (case t_expectedAuthority input of None \<Rightarrow> Inr ()
                     | Some e \<Rightarrow> assertWorkspaceManagementAuthorityInput e (mgmt_workspaceId e)) (\<lambda>_.
           if expected_authority_lost input s current then lost
           else if lease_admission_lost input s current then lost
           else if stored_authority_lost input s current then lost
           else if drain_lost input s current then lost
           else if \<not> fences_match input s current then lost
           else
            (let persisted = persisted_run input current in
             chain (preserveStoredRunManagementAuthority persisted (Some current)) (\<lambda>stored.
               Inr (\<lparr>won = True, tr_run = Some (publicStoredRun persisted)\<rparr>,
                 s\<lparr>runs := js_set (t_id input) stored (runs s),
                   runLeases := (if clearLeaseToken input then js_delete (t_id input) (runLeases s)
                     else case setLeaseToken input of None \<Rightarrow> runLeases s
                          | Some t \<Rightarrow> js_set (t_id input) t (runLeases s))\<rparr>))))))) "

definition appendRunningRunAuditEvent ::
    "string \<Rightarrow> run_kind \<Rightarrow> string \<Rightarrow> string \<Rightarrow> audit_event \<Rightarrow> run_store \<Rightarrow> bool \<times> run_store" where
  "appendRunningRunAuditEvent k kind ws leaseToken ev s =
     (case js_get (runs s) k of None \<Rightarrow> (False, s)
      | Some current \<Rightarrow>
          if r_workspaceId current \<noteq> ws \<or> transitionKindForRun current \<noteq> Some kind \<or> r_status current \<noteq> Running
             \<or> js_get (runLeases s) k \<noteq> Some leaseToken
             \<or> \<not> (isPlanRunRecord current \<or> isApplyRunRecord current) then (False, s)
          else if list_ex (\<lambda>e. ae_id e = ae_id ev) (r_auditEvents current) then (False, s)
          else (True, s\<lparr>runs := js_set k (current\<lparr>r_auditEvents := r_auditEvents current @ [ev]\<rparr>) (runs s)\<rparr>))"

section \<open>Freezing and exclusive deletion\<close>

datatype freeze_result = FreezeNotFound | FreezeConflict management | FreezeExisting management
  | FreezeBlocked management | Frozen_now management

definition run_ledgers :: "run_store \<Rightarrow> ledgers" where
  "run_ledgers s = \<lparr>l_runs = runs s, l_stateVersions = stateVersions s, l_interfaceIntents = interfaceIntents s\<rparr>"

definition freezeWorkspaceManagementIfQuiescent ::
    "(string \<Rightarrow> bool) option \<Rightarrow> string \<Rightarrow> management \<Rightarrow> run_store \<Rightarrow> store_error + (freeze_result \<times> run_store)" where
  "freezeWorkspaceManagementIfQuiescent gitBlockers now expected s =
     chain (assertWorkspaceFreezeExpectation expected) (\<lambda>_.
     (let ws = mgmt_workspaceId expected in
      if \<not> js_has (workspaces s) ws then Inr (FreezeNotFound, s)
      else
       (let management = current_management s ws in
        if managementEpoch management \<noteq> managementEpoch expected then Inr (FreezeConflict management, s)
        else if managementState management = Frozen then Inr (FreezeExisting management, s)
        else if managementState management \<noteq> Draining then Inr (FreezeConflict management, s)
        else case gitBlockers of
          None \<Rightarrow> Inl (TypeError ''Workspace freeze requires the paired in-memory Git store'')
        | Some git \<Rightarrow>
            if git ws
               \<or> list_ex (\<lambda>(k, r). r_workspaceId r = ws
                    \<and> (k \<noteq> run_id r \<or> js_has (runLeases s) k \<or> runBlocksWorkspaceManagement r (run_ledgers s))) (runs s)
               \<or> list_ex (\<lambda>(k, i). int_workspaceId i = ws
                    \<and> (k \<noteq> int_id i \<or> interfaceIntentBlocksWorkspaceManagement i (run_ledgers s))) (interfaceIntents s)
            then Inr (FreezeBlocked management, s)
            else
             (let frozen = management\<lparr>managementState := Frozen\<rparr> in
              chain (financialPutManagement now ws frozen s) (\<lambda>s. Inr (Frozen_now frozen, s))))))"

datatype delete_result = DeleteNotFound | DeleteConflict | DeleteBlocked "string list" | Deleted

fun financialDeleteMembers :: "string \<Rightarrow> string list \<Rightarrow> ('a) workspace_store_scheme \<Rightarrow> store_error + ('a) workspace_store_scheme" where
  "financialDeleteMembers now [] s = Inr s"
| "financialDeleteMembers now (key # keys) s =
     chain (financialDeleteMember now key s) (\<lambda>(_, s). financialDeleteMembers now keys s)"

definition exclusive_blockers :: "run_store \<Rightarrow> string \<Rightarrow> string list" where
  "exclusive_blockers s ws =
     (if list_ex (\<lambda>c. cap_workspaceId c = ws \<and> cap_status c \<noteq> ''destroyed'') (js_values (capsules s))
      then [''capsule_exists''] else [])
     @ (if list_ex (\<lambda>w. w = ws) (js_values (sourceWorkspaces s)) then [''source_exists''] else [])
     @ (if list_ex (\<lambda>r. r_workspaceId r = ws \<and> runIsInFlight (r_status r)) (js_values (runs s))
        then [''run_in_flight''] else [])
     @ (if list_ex (\<lambda>w. w = ws) (js_values (usageWorkspaces s)) then [''usage_exists''] else [])
     @ (if list_ex (\<lambda>w. w = ws) (js_values (backupWorkspaces s)) then [''backup_exists''] else [])"

definition is_admission_conflict :: "store_error \<Rightarrow> bool" where
  "is_admission_conflict e = (case e of WorkspaceManagementAdmissionConflictError _ \<Rightarrow> True | _ \<Rightarrow> False)"

text \<open>The early returns of \<open>deleteWorkspaceExclusive\<close>, then the deletes themselves.\<close>

definition exclusive_refusal ::
    "workspace \<Rightarrow> management \<Rightarrow> bool \<Rightarrow> member option \<Rightarrow> run_store \<Rightarrow> store_error + delete_result option" where
  "exclusive_refusal w authority requireMembership actor s =
     (let ws = ws_id w in
      chain (assertWorkspaceManagementAuthorityInput authority ws) (\<lambda>_.
      if js_get (workspaces s) ws = None then Inr (Some DeleteNotFound)
      else if js_get (workspaces s) ws \<noteq> Some w then Inr (Some DeleteConflict)
      else if requireMembership \<and>
         (case actor of None \<Rightarrow> True
          | Some a \<Rightarrow> mem_workspaceId a \<noteq> ws \<or> \<not> isCanonicalActiveWorkspaceOwner a
              \<or> js_get (workspaceMembers s) (workspaceMemberKey ws (mem_accountId a)) \<noteq> Some a)
      then Inr (Some DeleteConflict)
      else case assertWorkspaceManagementAdmission (js_get (workspaceManagement s) ws) ws (Some authority) of
        Inl e \<Rightarrow> if is_admission_conflict e then Inr (Some DeleteConflict) else Inl e
      | Inr _ \<Rightarrow>
          Inr (if exclusive_blockers s ws \<noteq> [] then Some (DeleteBlocked (exclusive_blockers s ws)) else None)))"

definition exclusive_delete :: "string \<Rightarrow> string \<Rightarrow> run_store \<Rightarrow> store_error + run_store" where
  "exclusive_delete now ws s =
     chain (financialDeleteWorkspace now ws s) (\<lambda>(_, s).
     chain (financialDeleteMembers now
              (map fst (filter (\<lambda>p. mem_workspaceId (snd p) = ws) (workspaceMembers s))) s) (\<lambda>s.
       Inr (s\<lparr>workspaceManagement := js_delete ws (workspaceManagement s)\<rparr>)))"

definition deleteWorkspaceExclusive ::
    "string \<Rightarrow> workspace \<Rightarrow> management \<Rightarrow> bool \<Rightarrow> member option \<Rightarrow> run_store
     \<Rightarrow> store_error + (delete_result \<times> run_store)" where
  "deleteWorkspaceExclusive now w authority requireMembership actor s =
     chain (exclusive_refusal w authority requireMembership actor s) (\<lambda>refusal.
     case refusal of Some r \<Rightarrow> Inr (r, s)
     | None \<Rightarrow> chain (exclusive_delete now (ws_id w) s) (\<lambda>s. Inr (Deleted, s)))"

section \<open>Lemmas: admission\<close>

lemma transitionKind_authority [simp]: "transitionKindForRun (r\<lparr>r_authority := a\<rparr>) = transitionKindForRun r"
  by (simp add: transitionKindForRun_def isPlanRunRecord_def isApplyRunRecord_def isSourceSyncRunRecord_def
      isRestoreRunRecord_def isPublicRunRecord_def)

lemma storeRunManagementAuthorityD:
  "storeRunManagementAuthority r a = Inr stored \<Longrightarrow>
     stored = r\<lparr>r_authority := Some a\<rparr> \<and> mgmt_workspaceId a = r_workspaceId r \<and> managementState a = Active
     \<and> runManagementAuthority stored = Some a"
  by (cases a) (auto simp: storeRunManagementAuthority_def authority_input_iff runManagementAuthority_def
      assertWorkspaceManagementAuthorityInput_def)

lemma preparePlanRun_cases:
  assumes "preparePlanRun input s = Inr (res, s')"
  obtains (existing) current where "js_get (runs s) (run_id (pp_run input)) = Some current" "isPlanRunRecord current"
      "res = Existing (publicStoredRun (coerceRunRowStatus current))" "s' = s"
  | (created) a where "js_get (runs s) (run_id (pp_run input)) = None" "pp_authority input = Some a"
      "assertPlanRunPreparation input = Inr ()"
      "js_get (workspaceManagement s) (r_workspaceId (pp_run input)) = Some a"
      "managementState a = Active" "mgmt_workspaceId a = r_workspaceId (pp_run input)"
      "\<not> js_has (planRunInputs s) (run_id (pp_run input))"
      "\<forall>c. r_capsuleId (pp_run input) = Some c \<longrightarrow> appPlanAdmission (capsuleForAppAdmission s c) (pp_run input)"
      "res = Created (publicStoredRun (pp_run input))"
      "s' = s\<lparr>planRunInputs := (if planRunPreparationPersistsInputs (pp_run input)
           then js_set (run_id (pp_run input)) (pp_inputs input) (planRunInputs s) else planRunInputs s),
           runs := js_set (run_id (pp_run input)) ((pp_run input)\<lparr>r_authority := Some a\<rparr>) (runs s)\<rparr>"
      "runManagementAuthority ((pp_run input)\<lparr>r_authority := Some a\<rparr>) = Some a"
proof -
  let ?r = "pp_run input"
  have v: "assertPlanRunPreparation input = Inr ()"
    using assms unfolding preparePlanRun_def Let_def by (elim chain_Inr_elim) simp
  show thesis
  proof (cases "js_get (runs s) (run_id ?r)")
    case (Some current)
    have "(let currentRun = (if isPlanRunRecord current then Some (coerceRunRowStatus current) else None) in
           if planRunPreparationExactlyMatches currentRun (js_get (planRunInputs s) (run_id ?r)) input
           then Inr (Existing (publicStoredRun (the currentRun)), s)
           else Inl (PlanRunPreparationConflictError (run_id ?r))) = Inr (res, s')"
      using assms unfolding preparePlanRun_def by (simp only: Let_def Some option.case) (elim chain_Inr_elim)
    then show thesis
      using Some by (intro existing [of current]) (auto simp: planRunPreparationExactlyMatches_def split: if_split_asm)
  next
    case None
    then obtain a where a: "pp_authority input = Some a"
      using assms by (auto simp: preparePlanRun_def Let_def split: option.splits)
    have ai: "assertWorkspaceManagementAuthorityInput a (r_workspaceId ?r) = Inr ()"
      using assms a by (auto simp: preparePlanRun_def Let_def)
    have body: "chain (assertWorkspaceManagementAdmission (js_get (workspaceManagement s) (r_workspaceId ?r))
          (r_workspaceId ?r) (Some a)) (\<lambda>_.
        if js_has (planRunInputs s) (run_id ?r) then Inl (PlanRunPreparationConflictError (run_id ?r))
        else chain (case pp_capsuleFence input of None \<Rightarrow> Inr ()
             | Some fence \<Rightarrow>
                 (case r_capsuleId ?r of
                    None \<Rightarrow> assertCapsulePlanCreationFence None None fence
                  | Some c \<Rightarrow>
                      if c = [] then assertCapsulePlanCreationFence None None fence
                      else assertCapsulePlanCreationFence (js_get (capsules s) c)
                        (Some (case js_get (capsuleExecutionAuthorityEpochs s) c of None \<Rightarrow> 1 | Some e \<Rightarrow> e)) fence)) (\<lambda>_.
        if (case r_capsuleId ?r of None \<Rightarrow> False
            | Some c \<Rightarrow> \<not> appPlanAdmission (capsuleForAppAdmission s c) ?r)
        then Inl (CapsulePlanCreationFenceConflictError (the (r_capsuleId ?r)))
        else chain (storeRunManagementAuthority ?r a) (\<lambda>stored.
          Inr (Created (publicStoredRun ?r),
             s\<lparr>planRunInputs := (if planRunPreparationPersistsInputs ?r
                 then js_set (run_id ?r) (pp_inputs input) (planRunInputs s) else planRunInputs s),
               runs := js_set (run_id ?r) stored (runs s)\<rparr>)))) = Inr (res, s')"
      using assms unfolding preparePlanRun_def by (simp only: Let_def None a v ai option.case chain_simps)
    then obtain m where m: "assertWorkspaceManagementAdmission (js_get (workspaceManagement s) (r_workspaceId ?r))
        (r_workspaceId ?r) (Some a) = Inr m" by (elim chain_Inr_elim)
    note mi = m [unfolded admission_iff]
    have "m = a" using mi by (auto intro: management_eqI)
    obtain stored where st: "storeRunManagementAuthority ?r a = Inr stored"
      "res = Created (publicStoredRun ?r)" "\<not> js_has (planRunInputs s) (run_id ?r)"
      "\<forall>c. r_capsuleId ?r = Some c \<longrightarrow> appPlanAdmission (capsuleForAppAdmission s c) ?r"
      "s' = s\<lparr>planRunInputs := (if planRunPreparationPersistsInputs ?r
           then js_set (run_id ?r) (pp_inputs input) (planRunInputs s) else planRunInputs s),
           runs := js_set (run_id ?r) stored (runs s)\<rparr>"
      using body by (elim chain_Inr_elim) (auto split: if_split_asm option.split_asm)
    show thesis
      using None a v mi \<open>m = a\<close> st storeRunManagementAuthorityD [OF st(1)] by (intro created [of a]) auto
  qed
qed

lemma beginApplyRun_cases:
  assumes "beginApplyRun r expected fence s = Inr (res, s')"
  obtains (existing) current where "js_get (runs s) (run_id r) = Some current" "s' = s"
      "res = (if isApplyRunRecord current then Existing (publicStoredRun (coerceRunRowStatus current)) else AdmissionConflict)"
  | (created) a where "js_get (runs s) (run_id r) = None" "expected = Some a"
      "js_get (workspaceManagement s) (r_workspaceId r) = Some a"
      "managementState a = Active" "mgmt_workspaceId a = r_workspaceId r"
      "\<forall>c. r_capsuleId r = Some c \<longrightarrow> (\<exists>f cap. fence = Some f \<and> js_get (capsules s) c = Some cap
         \<and> capsuleApplyRunAdmissionFenceMatchesRun r f
         \<and> capsuleApplyRunAdmissionFenceMatchesCurrent (Some cap)
             (Some (case js_get (capsuleExecutionAuthorityEpochs s) (cap_id cap) of None \<Rightarrow> 1 | Some e \<Rightarrow> e)) f)"
      "res = Created (publicStoredRun r)"
      "s' = s\<lparr>runs := js_set (run_id r) (r\<lparr>r_authority := Some a\<rparr>) (runs s)\<rparr>"
      "runManagementAuthority (r\<lparr>r_authority := Some a\<rparr>) = Some a"
proof (cases "js_get (runs s) (run_id r)")
  case (Some current)
  then show thesis
    using assms by (intro existing [of current]) (auto simp: beginApplyRun_def Let_def)
next
  case None
  then obtain a where a: "expected = Some a"
    using assms by (auto simp: beginApplyRun_def Let_def split: option.split_asm)
  let ?capsule_check = "case r_capsuleId r of
         None \<Rightarrow>
           throw_if ((case r_expected r of None \<Rightarrow> False | Some g \<Rightarrow> g_capsuleId g \<noteq> None) \<or> fence \<noteq> None)
             (CapsuleApplyRunAdmissionConflictError None)
       | Some c \<Rightarrow>
           (case fence of
              None \<Rightarrow> Inl (CapsuleApplyRunAdmissionConflictError (Some c))
            | Some f \<Rightarrow>
               (let capsule = js_get (capsules s) c;
                    epoch = map_option (\<lambda>cap. case js_get (capsuleExecutionAuthorityEpochs s) (cap_id cap) of
                              None \<Rightarrow> 1 | Some e \<Rightarrow> e) capsule;
                    storedPlan = (case Option.bind (r_planRunId r) (js_get (runs s)) of
                        Some p \<Rightarrow> if isPlanRunRecord p then Some p else None | None \<Rightarrow> None) in
                throw_if (\<not> capsuleApplyRunAdmissionFenceMatchesRun r f
                    \<or> \<not> capsuleApplyRunAdmissionFenceMatchesCurrent capsule epoch f
                    \<or> \<not> appApplyAdmission (capsuleForAppAdmission s c) storedPlan r)
                  (CapsuleApplyRunAdmissionConflictError (Some c))))"
  obtain m stored u where m: "assertWorkspaceManagementAdmission (js_get (workspaceManagement s) (r_workspaceId r))
        (r_workspaceId r) (Some a) = Inr m"
    and cc: "?capsule_check = Inr u" and st: "storeRunManagementAuthority r a = Inr stored"
    and res: "res = Created (publicStoredRun r)" "s' = s\<lparr>runs := js_set (run_id r) stored (runs s)\<rparr>"
    using assms unfolding beginApplyRun_def a by (simp only: Let_def None option.case) (elim chain_Inr_elim, simp)
  note mi = m [unfolded admission_iff]
  have "m = a" using mi by (auto intro: management_eqI)
  have "\<forall>c. r_capsuleId r = Some c \<longrightarrow> (\<exists>f cap. fence = Some f \<and> js_get (capsules s) c = Some cap
         \<and> capsuleApplyRunAdmissionFenceMatchesRun r f
         \<and> capsuleApplyRunAdmissionFenceMatchesCurrent (Some cap)
             (Some (case js_get (capsuleExecutionAuthorityEpochs s) (cap_id cap) of None \<Rightarrow> 1 | Some e \<Rightarrow> e)) f)"
  proof (intro allI impI)
    fix c assume c: "r_capsuleId r = Some c"
    then obtain f where f: "fence = Some f" using cc by (cases fence) auto
    show "\<exists>f cap. fence = Some f \<and> js_get (capsules s) c = Some cap
         \<and> capsuleApplyRunAdmissionFenceMatchesRun r f
         \<and> capsuleApplyRunAdmissionFenceMatchesCurrent (Some cap)
             (Some (case js_get (capsuleExecutionAuthorityEpochs s) (cap_id cap) of None \<Rightarrow> 1 | Some e \<Rightarrow> e)) f"
      using cc c f by (cases "js_get (capsules s) c")
        (auto simp: Let_def capsuleApplyRunAdmissionFenceMatchesCurrent_def)
  qed
  then show thesis
    using None a mi \<open>m = a\<close> res storeRunManagementAuthorityD [OF st] by (intro created [of a]) auto
qed

section \<open>Lemmas: transitions\<close>

lemma persisted_run_fields [simp]:
  "run_id (persisted_run input current) = run_id (t_run input)"
  "r_workspaceId (persisted_run input current) = r_workspaceId (t_run input)"
  "r_status (persisted_run input current) = r_status (t_run input)"
  "transitionKindForRun (persisted_run input current) = transitionKindForRun (t_run input)"
  by (auto simp: persisted_run_def Let_def mergeRunAuditEvents_def stripRunHeartbeat_def
      transitionKindForRun_def isPlanRunRecord_def isApplyRunRecord_def isSourceSyncRunRecord_def
      isRestoreRunRecord_def isPublicRunRecord_def)

lemma kind_requires: "transitionKindForRun r = Some k \<Longrightarrow> runRequiresStoredManagementAuthority r"
  by (cases k) (simp_all add: runRequiresStoredManagementAuthority_def)

lemma transitionRun_cases:
  assumes "transitionRun input s = Inr (res, s')"
  obtains (lost) "won res = False" "s' = s"
  | (won) current where "js_get (runs s) (t_id input) = Some current" "won res = True"
      "assertExactRunTransitionInput input = Inr ()" "assertDrainRunSettlementInput input = Inr ()"
      "transitionKindForRun current = Some (t_kind input)"
      "run_id (t_run input) = t_id input" "runStoredIdentityMatches current (t_run input)"
      "\<not> expected_authority_lost input s current" "\<not> lease_admission_lost input s current"
      "\<not> stored_authority_lost input s current" "\<not> drain_lost input s current" "fences_match input s current"
      "tr_run res = Some (publicStoredRun (persisted_run input current))"
      "s' = s\<lparr>runs := js_set (t_id input) ((persisted_run input current)\<lparr>r_authority := r_authority current\<rparr>) (runs s),
             runLeases := (if clearLeaseToken input then js_delete (t_id input) (runLeases s)
               else case setLeaseToken input of None \<Rightarrow> runLeases s
                    | Some t \<Rightarrow> js_set (t_id input) t (runLeases s))\<rparr>"
proof (cases "won res")
  case False
  have "s' = s"
  proof (rule ccontr)
    assume "s' \<noteq> s"
    then show False
      using assms False unfolding transitionRun_def Let_def
      by (auto split: option.split_asm if_split_asm elim!: chain_Inr_elim)
  qed
  then show thesis using False by (intro lost) simp_all
next
  case True
  have pre: "assertExactRunTransitionInput input = Inr ()" "assertDrainRunSettlementInput input = Inr ()"
    using assms unfolding transitionRun_def by (elim chain_Inr_elim, simp)+
  obtain current where cur: "js_get (runs s) (t_id input) = Some current"
    using assms True by (auto simp: transitionRun_def pre split: option.split_asm)
  note body = assms [unfolded transitionRun_def pre cur Let_def, unfolded chain_simps option.case]
  have kind: "transitionKindForRun current = Some (t_kind input)"
    using body True by (auto split: if_split_asm)
  have idm: "\<not> identity_lost input current"
    using body True kind by (auto split: if_split_asm)
  then have ids: "run_id (t_run input) = t_id input" "runStoredIdentityMatches current (t_run input)"
    using kind_requires [OF kind] by (auto simp: identity_lost_def)
  then have "preserveStoredRunManagementAuthority (persisted_run input current) (Some current)
      = Inr ((persisted_run input current)\<lparr>r_authority := r_authority current\<rparr>)"
    by (auto simp: preserveStoredRunManagementAuthority_def publicStoredRun_def runStoredIdentityMatches_def)
  note body2 = body [unfolded this]
  have checks: "\<not> expected_authority_lost input s current" "\<not> lease_admission_lost input s current"
    "\<not> stored_authority_lost input s current" "\<not> drain_lost input s current" "fences_match input s current"
    using body2 True kind idm by (auto split: if_split_asm elim!: chain_Inr_elim)
  show thesis
    using body2 True kind idm checks
    by (intro won [OF cur _ pre kind ids]) (auto elim!: chain_Inr_elim)
qed

lemma transition_authority_kept:
  assumes "transitionRun input s = Inr (res, s')" "js_get (runs s) k = Some r"
  shows "\<exists>r'. js_get (runs s') k = Some r' \<and> r_authority r' = r_authority r \<and> runStoredIdentityMatches r r'"
  using assms(1)
proof (cases rule: transitionRun_cases)
  case lost
  then show ?thesis using assms(2) by (simp add: runStoredIdentityMatches_def)
next
  case (won current)
  then show ?thesis using assms(2) by (cases "k = t_id input") (auto simp: runStoredIdentityMatches_def)
qed

lemma lease_admissionD:
  assumes "\<not> lease_admission_lost input s current" "setLeaseToken input = Some t"
    "transitionKindForRun current = Some k"
  shows "\<exists>m. js_get (workspaceManagement s) (r_workspaceId current) = Some m \<and> managementState m = Active
    \<and> (\<exists>a. runManagementAuthority current = Some a \<and> managementEpoch a = managementEpoch m)"
  using assms kind_requires [OF assms(3)]
  by (auto simp: lease_admission_lost_def Let_def split: option.split_asm)

text \<open>The audit history of Plan and Apply rows.\<close>

lemma persisted_audit_prefix:
  assumes "transitionKindForRun current = Some (t_kind input)" "isPlanRunRecord current \<or> isApplyRunRecord current"
  shows "\<exists>new. r_auditEvents (persisted_run input current) = r_auditEvents current @ new
    \<and> (\<forall>e \<in> set new. ae_id e \<notin> ae_id ` set (r_auditEvents current))"
proof -
  have "t_kind input = KPlan \<and> isPlanRunRecord current \<or> t_kind input = KApply \<and> isApplyRunRecord current"
    using assms by (auto simp: transitionKindForRun_def split: if_split_asm)
  then show ?thesis by (auto simp: persisted_run_def Let_def mergeRunAuditEvents_def)
qed

section \<open>Lemmas: pending work\<close>

lemma latest_index_append [simp]:
  "latest_index t (es @ [e]) i acc = (if ae_type e = t then i + int (length es) else latest_index t es i acc)"
  by (induction es arbitrary: i acc) auto

lemma latest_index_bound: "acc < i \<Longrightarrow> latest_index t es i acc < i + int (length es)"
  by (induction es rule: rev_induct) (auto split: if_splits)

text \<open>Work is pending when the last event of the two kinds is a pending one.\<close>

definition pending_spec :: "string \<Rightarrow> string \<Rightarrow> audit_event list \<Rightarrow> bool" where
  "pending_spec pending completed es =
     (case List.find (\<lambda>e. ae_type e = pending \<or> ae_type e = completed) (rev es) of
        None \<Rightarrow> False | Some e \<Rightarrow> ae_type e = pending)"

lemma pending_spec_snoc:
  "pending_spec p c (es @ [e]) = (if ae_type e = p then True else if ae_type e = c then False else pending_spec p c es)"
  by (simp add: pending_spec_def)

lemma latest_index_pending:
  assumes "p \<noteq> c" "acc < i"
  shows "latest_index c es i acc < latest_index p es i acc \<longleftrightarrow> pending_spec p c es"
proof (induction es rule: rev_induct)
  case (snoc e es)
  then show ?case
    using assms latest_index_bound [OF assms(2), of c es] latest_index_bound [OF assms(2), of p es]
    by (simp add: pending_spec_snoc)
qed (simp add: pending_spec_def)

lemma pendingAfterCompletion_iff:
  "p \<noteq> c \<Longrightarrow> pendingAfterCompletion r p c \<longleftrightarrow> pending_spec p c (r_auditEvents r)"
  by (simp add: pendingAfterCompletion_def latest_index_pending)

lemmas pending_iffs = applyRunBillingCapturePending_def applyRunRuntimeSecretRetirementPending_def
  applyRunRunnerUsagePending_def

section \<open>Lemmas: finalisation\<close>

lemma exact_inputD:
  assumes "assertExactRunTransitionInput input = Inr ()" "expectExactRun input = Some e"
  obtains ev where "r_auditEvents (t_run input) = r_auditEvents e @ [ev]"
    "without_progress e = without_progress (t_run input)" "t_kind input = KApply" "isApplyRunRecord e"
    "r_heartbeatAt (t_run input) = r_heartbeatAt e" "\<not> clearHeartbeat input" "t_heartbeatAt input = None"
    "setLeaseToken input = None" "\<not> clearLeaseToken input" "r_status e = Succeeded \<or> r_status e = Failed"
    "ae_type ev = ''billing.capture.completed'' \<and> applyRunBillingCapturePending e
     \<or> (ae_type ev = ''runtime_secret.retirement.completed'' \<or> ae_type ev = ''runtime_secret.retirement.deferred'')
        \<and> applyRunRuntimeSecretRetirementPending e
     \<or> ae_type ev = ''runner_usage.completed'' \<and> applyRunRunnerUsagePending e"
proof -
  let ?b = "r_auditEvents e" and ?a = "r_auditEvents (t_run input)"
  have len: "length ?a = length ?b + 1" "take (length ?b) ?a = ?b" "without_progress e = without_progress (t_run input)"
    using assms by (auto simp: assertExactRunTransitionInput_def Let_def split: if_split_asm)
  have rest: "t_kind input = KApply" "isApplyRunRecord e"
    "r_heartbeatAt (t_run input) = r_heartbeatAt e" "\<not> clearHeartbeat input" "t_heartbeatAt input = None"
    "setLeaseToken input = None" "\<not> clearLeaseToken input" "r_status e = Succeeded \<or> r_status e = Failed"
    using assms by (auto simp: assertExactRunTransitionInput_def split: if_split_asm)
  have "drop (length ?b) ?a \<noteq> []" using len(1) by simp
  moreover have "length (drop (length ?b) ?a) = 1" using len(1) by simp
  ultimately obtain ev where "drop (length ?b) ?a = [ev]" by (cases "drop (length ?b) ?a") auto
  then have a: "?a = ?b @ [ev]" using len(2) append_take_drop_id [of "length ?b" ?a] by simp
  have "ae_type ev = ''billing.capture.completed'' \<and> applyRunBillingCapturePending e
     \<or> (ae_type ev = ''runtime_secret.retirement.completed'' \<or> ae_type ev = ''runtime_secret.retirement.deferred'')
        \<and> applyRunRuntimeSecretRetirementPending e
     \<or> ae_type ev = ''runner_usage.completed'' \<and> applyRunRunnerUsagePending e"
    using assms a by (auto simp: assertExactRunTransitionInput_def Let_def split: if_split_asm)
  with a len rest show thesis by (intro that)
qed

section \<open>Steps of the ledger\<close>

text \<open>Every operation above, the Workspace operations, and an environment step for the writers
  of the other maps (Capsules, states, intents, sources, usage, backups). The label names the
  Workspace a step deletes.\<close>

inductive ledger_step :: "string option \<Rightarrow> run_store \<Rightarrow> run_store \<Rightarrow> bool" where
  step_workspace: "ws_step l s s' \<Longrightarrow> ledger_step l s s'"
| step_prepare: "preparePlanRun input s = Inr (ar, s') \<Longrightarrow> ledger_step None s s'"
| step_begin: "beginApplyRun r a f s = Inr (ar, s') \<Longrightarrow> ledger_step None s s'"
| step_putPlan: "putPlanRun r s = Inr (r', s') \<Longrightarrow> ledger_step None s s'"
| step_putApply: "putApplyRun r s = Inr (r', s') \<Longrightarrow> ledger_step None s s'"
| step_transition: "transitionRun ti s = Inr (res, s') \<Longrightarrow> ledger_step None s s'"
| step_append: "appendRunningRunAuditEvent k kind ws t ev s = (b, s') \<Longrightarrow> ledger_step None s s'"
| step_inputs: "s' = putPlanRunInputs inputs s \<or> s' = deletePlanRunInputs k s \<Longrightarrow> ledger_step None s s'"
| step_ownership: "setCapsuleOwnership own missing ex s = (b, s') \<Longrightarrow> ledger_step None s s'"
| step_freeze: "freezeWorkspaceManagementIfQuiescent git now e s = Inr (fr, s') \<Longrightarrow> ledger_step None s s'"
| step_exclusive: "deleteWorkspaceExclusive now w a rm actor s = Inr (dr, s') \<Longrightarrow> ledger_step (Some (ws_id w)) s s'"
| step_environment: "ledger_step None s (s\<lparr>capsules := c, capsuleExecutionAuthorityEpochs := ep, stateVersions := sv,
     interfaceIntents := ii, sourceWorkspaces := so, usageWorkspaces := us, backupWorkspaces := ba\<rparr>)"

section \<open>Lemmas: stored authority\<close>

text \<open>A row that carries an authority keeps it, together with its id, Workspace and family.\<close>

definition keeps_authority :: "run_store \<Rightarrow> run_store \<Rightarrow> bool" where
  "keeps_authority s s' \<longleftrightarrow>
     (\<forall>k r. js_get (runs s) k = Some r \<and> r_authority r \<noteq> None \<longrightarrow>
        (\<exists>r'. js_get (runs s') k = Some r' \<and> r_authority r' = r_authority r \<and> runStoredIdentityMatches r r'))"

lemma keeps_authority_runs_eq: "runs s' = runs s \<Longrightarrow> keeps_authority s s'"
  by (simp add: keeps_authority_def runStoredIdentityMatches_def)

lemma more_runs: "workspace_store.more s' = workspace_store.more (s :: run_store) \<Longrightarrow> runs s' = runs s"
  by (cases s; cases s') simp

lemma more_leases: "workspace_store.more s' = workspace_store.more (s :: run_store) \<Longrightarrow> runLeases s' = runLeases s"
  by (cases s; cases s') simp

lemma keeps_authority_set:
  assumes "runs s' = js_set k r' (runs s)"
    "\<And>r. js_get (runs s) k = Some r \<Longrightarrow> r_authority r \<noteq> None \<Longrightarrow>
       r_authority r' = r_authority r \<and> runStoredIdentityMatches r r'"
  shows "keeps_authority s s'"
  unfolding keeps_authority_def
proof (intro allI impI)
  fix q r assume "js_get (runs s) q = Some r \<and> r_authority r \<noteq> None"
  then show "\<exists>r'. js_get (runs s') q = Some r' \<and> r_authority r' = r_authority r \<and> runStoredIdentityMatches r r'"
    using assms(2) [of r] by (cases "q = k") (simp_all add: assms(1) runStoredIdentityMatches_def)
qed

lemma keeps_authority_put:
  assumes "preserveStoredRunManagementAuthority r (js_get (runs s) (run_id r)) = Inr stored"
    "s' = s\<lparr>runs := js_set (run_id r) stored (runs s)\<rparr>"
  shows "keeps_authority s s'"
  using assms(1)
  by (intro keeps_authority_set [where k = "run_id r" and r' = stored])
    (auto simp: assms(2) preserveStoredRunManagementAuthority_def runStoredIdentityMatches_def split: if_split_asm)

lemma keeps_authority_fresh:
  assumes "runs s' = js_set k r (runs s)" "js_get (runs s) k = None"
  shows "keeps_authority s s'"
  using assms by (auto simp: keeps_authority_def runStoredIdentityMatches_def)

lemma keeps_authority_prepare:
  assumes "preparePlanRun input s = Inr (ar, s')"
  shows "keeps_authority s s'"
  using assms
proof (cases rule: preparePlanRun_cases)
  case (created a)
  then show ?thesis by (intro keeps_authority_fresh) simp_all
qed (simp add: keeps_authority_runs_eq)

lemma keeps_authority_begin:
  assumes "beginApplyRun r a f s = Inr (ar, s')"
  shows "keeps_authority s s'"
  using assms
proof (cases rule: beginApplyRun_cases)
  case (created b)
  then show ?thesis by (intro keeps_authority_fresh) simp_all
qed (simp add: keeps_authority_runs_eq)

lemma append_fields [simp]:
  "transitionKindForRun (r\<lparr>r_auditEvents := es\<rparr>) = transitionKindForRun r"
  by (simp add: transitionKindForRun_def isPlanRunRecord_def isApplyRunRecord_def isSourceSyncRunRecord_def
      isRestoreRunRecord_def isPublicRunRecord_def)

lemma keeps_authority_append:
  "appendRunningRunAuditEvent k kind ws t ev s = (b, s') \<Longrightarrow> keeps_authority s s'"
  by (auto simp: appendRunningRunAuditEvent_def keeps_authority_def runStoredIdentityMatches_def
      split: option.split_asm if_split_asm)

lemma freeze_frame:
  "freezeWorkspaceManagementIfQuiescent git now e s = Inr (fr, s') \<Longrightarrow>
     workspace_store.more s' = workspace_store.more s"
  by (auto simp: freezeWorkspaceManagementIfQuiescent_def Let_def split: if_split_asm option.split_asm dest!: put_more)

lemma financialDeleteMembers_more:
  "financialDeleteMembers now keys s = Inr s' \<Longrightarrow> workspace_store.more s' = workspace_store.more s"
  by (induction keys arbitrary: s) (auto simp: financialDeleteMember_def split: option.split_asm)

lemma exclusive_delete_more: "exclusive_delete now ws s = Inr s' \<Longrightarrow> workspace_store.more s' = workspace_store.more s"
  by (auto simp: exclusive_delete_def dest!: put_more financialDeleteMembers_more)

lemma exclusive_frame:
  "deleteWorkspaceExclusive now w a rm actor s = Inr (dr, s') \<Longrightarrow> workspace_store.more s' = workspace_store.more s"
  by (auto simp: deleteWorkspaceExclusive_def split: option.split_asm dest: exclusive_delete_more)

lemma ledger_step_keeps_authority: "ledger_step l s s' \<Longrightarrow> keeps_authority s s'"
proof (induction rule: ledger_step.induct)
  case (step_transition ti s res s')
  then show ?case by (auto simp: keeps_authority_def dest: transition_authority_kept)
next
  case (step_putPlan r s r' s')
  then show ?case by (auto simp: putPlanRun_def intro: keeps_authority_put)
next
  case (step_putApply r s r' s')
  then show ?case by (auto simp: putApplyRun_def intro: keeps_authority_put)
next
  case (step_inputs s' inputs s k)
  then show ?case by (auto simp: putPlanRunInputs_def deletePlanRunInputs_def intro: keeps_authority_runs_eq)
next
  case (step_ownership own missing ex s b s')
  then show ?case by (auto simp: setCapsuleOwnership_def Let_def intro: keeps_authority_runs_eq split: if_split_asm)
qed (auto intro: keeps_authority_runs_eq more_runs ws_step_more keeps_authority_prepare keeps_authority_begin
    keeps_authority_append freeze_frame exclusive_frame)

section \<open>Lemmas: the ledger invariant\<close>

lemma financialDeleteMembersD:
  "financialDeleteMembers now keys s = Inr s' \<Longrightarrow>
   \<exists>ms fs. s' = s\<lparr>workspaceMembers := ms, financialSource := fs\<rparr> \<and> fin_step\<^sup>*\<^sup>* (financialSource s) fs
     \<and> (js_wf (workspaceMembers s) \<longrightarrow> js_wf ms)
     \<and> (\<forall>k m. js_get ms k = Some m \<longrightarrow> js_get (workspaceMembers s) k = Some m)"
proof (induction keys arbitrary: s)
  case Nil
  then show ?case by (intro exI [of _ "workspaceMembers s"] exI [of _ "financialSource s"]) auto
next
  case (Cons key keys)
  then obtain b s1 where s1: "financialDeleteMember now key s = Inr (b, s1)"
    "financialDeleteMembers now keys s1 = Inr s'" by auto
  have d: "\<exists>ms fs. s1 = s\<lparr>workspaceMembers := ms, financialSource := fs\<rparr> \<and> fin_step\<^sup>*\<^sup>* (financialSource s) fs
     \<and> (js_wf (workspaceMembers s) \<longrightarrow> js_wf ms)
     \<and> (\<forall>k m. js_get ms k = Some m \<longrightarrow> js_get (workspaceMembers s) k = Some m)"
  proof (cases "js_get (workspaceMembers s) key")
    case None
    then have "s1 = s" using s1(1) by (simp add: financialDeleteMember_def)
    then show ?thesis by (intro exI [of _ "workspaceMembers s"] exI [of _ "financialSource s"]) auto
  next
    case (Some m)
    then obtain fs where "fin_step (financialSource s) fs"
      "s1 = s\<lparr>workspaceMembers := js_delete key (workspaceMembers s), financialSource := fs\<rparr>"
      using s1(1) by (auto simp: financialDeleteMember_def dest!: step_record)
    then show ?thesis
      by (intro exI [of _ "js_delete key (workspaceMembers s)"] exI [of _ fs]) (auto split: if_splits)
  qed
  then obtain ms1 fs1 where m1: "s1 = s\<lparr>workspaceMembers := ms1, financialSource := fs1\<rparr>"
    "fin_step\<^sup>*\<^sup>* (financialSource s) fs1" "js_wf (workspaceMembers s) \<longrightarrow> js_wf ms1"
    "\<forall>k m. js_get ms1 k = Some m \<longrightarrow> js_get (workspaceMembers s) k = Some m" by blast
  from Cons.IH [OF s1(2)] obtain ms2 fs2 where m2: "s' = s1\<lparr>workspaceMembers := ms2, financialSource := fs2\<rparr>"
    "fin_step\<^sup>*\<^sup>* (financialSource s1) fs2" "js_wf (workspaceMembers s1) \<longrightarrow> js_wf ms2"
    "\<forall>k m. js_get ms2 k = Some m \<longrightarrow> js_get (workspaceMembers s1) k = Some m" by blast
  have "s' = s\<lparr>workspaceMembers := ms2, financialSource := fs2\<rparr>" using m1(1) m2(1) by simp
  moreover have "fin_step\<^sup>*\<^sup>* (financialSource s) fs2" using m1(1,2) m2(2) by auto
  moreover have "js_wf (workspaceMembers s) \<longrightarrow> js_wf ms2" using m1(1,3) m2(3) by simp
  moreover have "\<forall>k m. js_get ms2 k = Some m \<longrightarrow> js_get (workspaceMembers s) k = Some m"
    using m1(1,4) m2(4) by simp
  ultimately show ?case by blast
qed

lemma ws_inv_shrink:
  assumes "ws_inv s" "fin_step\<^sup>*\<^sup>* (financialSource s) fs" "js_wf ms" "js_wf wss"
    "\<And>k m. js_get ms k = Some m \<Longrightarrow> js_get (workspaceMembers s) k = Some m"
    "\<And>k w. js_get wss k = Some w \<Longrightarrow> js_get (workspaces s) k = Some w"
    "\<And>k m. js_get mgs k = Some m \<Longrightarrow> js_get (workspaceManagement s) k = Some m \<and> js_has wss k"
  shows "ws_inv (s\<lparr>workspaces := wss, workspaceManagement := mgs, workspaceMembers := ms, financialSource := fs\<rparr>)"
proof -
  have "fin_reachable fs" using assms(1,2) fin_reachable_steps by (auto simp: ws_inv_def)
  moreover have "\<forall>k m. js_get mgs k = Some m \<longrightarrow> js_has wss k \<and> management_ok k m"
    using assms(1,7) unfolding ws_inv_def by blast
  moreover have "\<forall>k w. js_get wss k = Some w \<longrightarrow> ws_id w = k" using assms(1,6) unfolding ws_inv_def by blast
  moreover have "\<forall>key m. js_get ms key = Some m \<longrightarrow> workspaceMemberKey (mem_workspaceId m) (mem_accountId m) = key"
    using assms(1,5) unfolding ws_inv_def by blast
  ultimately show ?thesis using assms(1,3,4) by (simp add: ws_inv_def)
qed

lemma exclusive_refusalD:
  assumes "exclusive_refusal w a rm actor s = Inr r"
  shows "r \<noteq> Some Deleted \<and> (r = None \<longrightarrow> js_get (workspaces s) (ws_id w) = Some w \<and> exclusive_blockers s (ws_id w) = []
    \<and> js_get (workspaceManagement s) (ws_id w) = Some a)"
proof -
  have u: "assertWorkspaceManagementAdmission m k (Some a) = Inr c \<Longrightarrow> m = Some a" for m k c
    by (auto simp: admission_iff intro: management_eqI)
  show ?thesis
    using assms unfolding exclusive_refusal_def Let_def
    by (elim chain_Inr_elim) (auto split: if_split_asm sum.split_asm dest: u)
qed

lemma exclusive_deleteD:
  assumes "exclusive_delete now k s = Inr s'" "js_has (workspaces s) k"
  shows "\<exists>ms fs. fin_step\<^sup>*\<^sup>* (financialSource s) fs \<and> (js_wf (workspaceMembers s) \<longrightarrow> js_wf ms)
    \<and> (\<forall>k m. js_get ms k = Some m \<longrightarrow> js_get (workspaceMembers s) k = Some m)
    \<and> s' = s\<lparr>workspaces := js_delete k (workspaces s), workspaceManagement := js_delete k (workspaceManagement s),
             workspaceMembers := ms, financialSource := fs\<rparr>"
proof -
  obtain b s1 s2 where s12: "financialDeleteWorkspace now k s = Inr (b, s1)"
    "financialDeleteMembers now (map fst (filter (\<lambda>p. mem_workspaceId (snd p) = k) (workspaceMembers s1))) s1 = Inr s2"
    "s' = s2\<lparr>workspaceManagement := js_delete k (workspaceManagement s2)\<rparr>"
    using assms(1) by (auto simp: exclusive_delete_def)
  obtain fs1 where f1: "fin_step\<^sup>*\<^sup>* (financialSource s) fs1"
    "s1 = s\<lparr>workspaces := js_delete k (workspaces s), financialSource := fs1\<rparr>"
    using financialDeleteWorkspaceD [OF s12(1)] assms(2) by auto
  from financialDeleteMembersD [OF s12(2)] obtain ms fs where f2:
    "s2 = s1\<lparr>workspaceMembers := ms, financialSource := fs\<rparr>" "fin_step\<^sup>*\<^sup>* (financialSource s1) fs"
    "js_wf (workspaceMembers s1) \<longrightarrow> js_wf ms"
    "\<forall>k m. js_get ms k = Some m \<longrightarrow> js_get (workspaceMembers s1) k = Some m" by blast
  have "fin_step\<^sup>*\<^sup>* (financialSource s) fs" using f1 f2(2) by simp
  then show ?thesis
    using f1(2) f2 s12(3) by (intro exI [of _ ms] exI [of _ fs]) simp
qed

lemma exclusive_cases:
  assumes "deleteWorkspaceExclusive now w a rm actor s = Inr (dr, s')"
  obtains (unchanged) "s' = s" "dr \<noteq> Deleted"
  | (deleted) ms fs where "dr = Deleted" "js_get (workspaces s) (ws_id w) = Some w" "exclusive_blockers s (ws_id w) = []"
      "fin_step\<^sup>*\<^sup>* (financialSource s) fs" "js_wf (workspaceMembers s) \<longrightarrow> js_wf ms"
      "\<forall>k m. js_get ms k = Some m \<longrightarrow> js_get (workspaceMembers s) k = Some m"
      "s' = s\<lparr>workspaces := js_delete (ws_id w) (workspaces s),
             workspaceManagement := js_delete (ws_id w) (workspaceManagement s),
             workspaceMembers := ms, financialSource := fs\<rparr>"
proof -
  obtain r where r: "exclusive_refusal w a rm actor s = Inr r"
    "(case r of Some r \<Rightarrow> Inr (r, s)
      | None \<Rightarrow> chain (exclusive_delete now (ws_id w) s) (\<lambda>s. Inr (Deleted, s))) = Inr (dr, s')"
    using assms unfolding deleteWorkspaceExclusive_def by (elim chain_Inr_elim)
  note d = exclusive_refusalD [OF r(1)]
  show thesis
  proof (cases r)
    case None
    then have del: "exclusive_delete now (ws_id w) s = Inr s'" "dr = Deleted" using r(2) by auto
    have "js_has (workspaces s) (ws_id w)" using d None by (simp add: js_has_def)
    from exclusive_deleteD [OF del(1) this] obtain ms fs where "fin_step\<^sup>*\<^sup>* (financialSource s) fs"
      "js_wf (workspaceMembers s) \<longrightarrow> js_wf ms"
      "\<forall>k m. js_get ms k = Some m \<longrightarrow> js_get (workspaceMembers s) k = Some m"
      "s' = s\<lparr>workspaces := js_delete (ws_id w) (workspaces s),
             workspaceManagement := js_delete (ws_id w) (workspaceManagement s),
             workspaceMembers := ms, financialSource := fs\<rparr>" by blast
    then show thesis using d None del(2) by (intro deleted [of fs ms]) simp_all
  next
    case (Some x)
    then show thesis using r(2) d by (intro unchanged) auto
  qed
qed

text \<open>The ledger invariant: the Workspace invariant, rows under their own id, and well-formed
  stored authorities.\<close>

definition run_inv :: "run_store \<Rightarrow> bool" where
  "run_inv s \<longleftrightarrow> ws_inv s
     \<and> (\<forall>k r a. js_get (runs s) k = Some r \<and> r_authority r = Some a \<longrightarrow>
          run_id r = k \<and> runManagementAuthority r = Some a)"

definition management_advances :: "string option \<Rightarrow> run_store \<Rightarrow> run_store \<Rightarrow> bool" where
  "management_advances l s s' \<longleftrightarrow>
     (\<forall>k m. l \<noteq> Some k \<and> js_get (workspaceManagement s) k = Some m \<longrightarrow>
        (\<exists>m'. js_get (workspaceManagement s') k = Some m'
           \<and> (m' = m \<or> managementEpoch m < managementEpoch m' \<and> managementState m' = Draining
              \<or> managementEpoch m' = managementEpoch m \<and> managementState m = Draining \<and> managementState m' = Frozen)))"

lemma management_advances_same:
  "workspaceManagement s' = workspaceManagement s \<Longrightarrow> management_advances l s s'"
  by (simp add: management_advances_def)

lemma freeze_cases:
  assumes "freezeWorkspaceManagementIfQuiescent git now e s = Inr (fr, s')"
  obtains (unchanged) "s' = s" "\<forall>m. fr \<noteq> Frozen_now m"
  | (frozen) m g where "fr = Frozen_now (m\<lparr>managementState := Frozen\<rparr>)" "js_has (workspaces s) (mgmt_workspaceId e)"
      "m = current_management s (mgmt_workspaceId e)" "managementState m = Draining"
      "managementEpoch m = managementEpoch e" "git = Some g" "\<not> g (mgmt_workspaceId e)"
      "\<forall>(k, r) \<in> set (runs s). r_workspaceId r = mgmt_workspaceId e \<longrightarrow>
         k = run_id r \<and> \<not> js_has (runLeases s) k \<and> \<not> runBlocksWorkspaceManagement r (run_ledgers s)"
      "\<forall>(k, i) \<in> set (interfaceIntents s). int_workspaceId i = mgmt_workspaceId e \<longrightarrow>
         k = int_id i \<and> \<not> interfaceIntentBlocksWorkspaceManagement i (run_ledgers s)"
      "financialPutManagement now (mgmt_workspaceId e) (m\<lparr>managementState := Frozen\<rparr>) s = Inr s'"
proof (cases "\<exists>m. fr = Frozen_now m")
  case False
  then have "s' = s"
    using assms unfolding freezeWorkspaceManagementIfQuiescent_def Let_def
    by (elim chain_Inr_elim) (auto split: if_split_asm option.split_asm)
  then show thesis using False by (intro unchanged) auto
next
  case True
  let ?ws = "mgmt_workspaceId e"
  let ?m = "current_management s ?ws"
  obtain g where g: "git = Some g"
    using assms True unfolding freezeWorkspaceManagementIfQuiescent_def Let_def
    by (elim chain_Inr_elim) (auto split: if_split_asm option.split_asm)
  let ?runs = "list_ex (\<lambda>(k, r). r_workspaceId r = ?ws
      \<and> (k \<noteq> run_id r \<or> js_has (runLeases s) k \<or> runBlocksWorkspaceManagement r (run_ledgers s))) (runs s)"
  let ?intents = "list_ex (\<lambda>(k, i). int_workspaceId i = ?ws
      \<and> (k \<noteq> int_id i \<or> interfaceIntentBlocksWorkspaceManagement i (run_ledgers s))) (interfaceIntents s)"
  have facts: "js_has (workspaces s) ?ws" "managementEpoch ?m = managementEpoch e" "managementState ?m = Draining"
    "\<not> g ?ws" "\<not> ?runs" "\<not> ?intents" "fr = Frozen_now (?m\<lparr>managementState := Frozen\<rparr>)"
    "financialPutManagement now ?ws (?m\<lparr>managementState := Frozen\<rparr>) s = Inr s'"
    using assms True unfolding freezeWorkspaceManagementIfQuiescent_def Let_def g option.case
    by (elim chain_Inr_elim; auto split: if_split_asm)+
  show thesis
    by (rule frozen [OF facts(7,1) refl facts(3,2) g facts(4) _ _ facts(8)])
      (use facts(5,6) in \<open>auto simp: list_ex_iff\<close>)
qed

lemma freeze_ok:
  assumes "freezeWorkspaceManagementIfQuiescent git now e s = Inr (fr, s')" "ws_inv s"
  shows "ws_inv s' \<and> management_advances l s s'"
  using assms(1)
proof (cases rule: freeze_cases)
  case unchanged
  then show ?thesis using assms(2) by (simp add: management_advances_same)
next
  case (frozen m g)
  let ?ws = "mgmt_workspaceId e" and ?f = "m\<lparr>managementState := Frozen\<rparr>"
  obtain fs where fs: "fin_step\<^sup>*\<^sup>* (financialSource s) fs"
    "s' = s\<lparr>workspaceManagement := js_set ?ws ?f (workspaceManagement s), financialSource := fs\<rparr>"
    using financialPutManagementD [OF frozen(10)] by blast
  have row: "js_get (workspaceManagement s) ?ws = Some m"
    using frozen(3,4) by (cases "js_get (workspaceManagement s) ?ws")
      (auto simp: current_management_def initial_authority_def)
  then have "management_ok ?ws m" using assms(2) by (simp add: ws_inv_def)
  then have ok: "management_ok ?ws ?f" by (simp add: management_ok_def)
  have "ws_inv s'"
    using assms(2) frozen(2) ok fs(1) by (auto simp: fs(2) ws_inv_def fin_reachable_steps)
  moreover have "management_advances l s s'"
    using row frozen(4) by (auto simp: fs(2) management_advances_def)
  ultimately show ?thesis by simp
qed

lemma exclusive_ok:
  assumes "deleteWorkspaceExclusive now w a rm actor s = Inr (dr, s')" "ws_inv s"
  shows "ws_inv s' \<and> management_advances (Some (ws_id w)) s s'"
  using assms(1)
proof (cases rule: exclusive_cases)
  case unchanged
  then show ?thesis using assms(2) by (simp add: management_advances_same)
next
  case (deleted ms fs)
  have "ws_inv s'"
    unfolding deleted(7)
  proof (rule ws_inv_shrink [OF assms(2) deleted(4)])
    show "js_wf ms" "js_wf (js_delete (ws_id w) (workspaces s))" using deleted(5) assms(2) by (auto simp: ws_inv_def)
    show "js_get (workspaceMembers s) k = Some m" if "js_get ms k = Some m" for k m using deleted(6) that by blast
    show "js_get (workspaces s) k = Some x" if "js_get (js_delete (ws_id w) (workspaces s)) k = Some x" for k x
      using that by (simp split: if_split_asm)
    show "js_get (workspaceManagement s) k = Some m \<and> js_has (js_delete (ws_id w) (workspaces s)) k"
      if "js_get (js_delete (ws_id w) (workspaceManagement s)) k = Some m" for k m
      using that assms(2) by (simp add: ws_inv_def split: if_split_asm)
  qed
  moreover have "management_advances (Some (ws_id w)) s s'" by (auto simp: deleted(7) management_advances_def)
  ultimately show ?thesis by simp
qed

lemma ws_step_ledger:
  assumes "ws_step l s s'" "ws_inv s"
  shows "ws_inv s' \<and> management_advances l s s'"
proof (cases l)
  case None
  then have "ws_ok s s'" using ws_step_ok assms(1) by blast
  then have "ws_inv s'" "epochs_advance s s'" using assms(2) by (simp_all add: ws_ok_def)
  then show ?thesis unfolding epochs_advance_def management_advances_def by blast
next
  case (Some k)
  then show ?thesis
    using ws_step_inv [OF assms] ws_step_delete_other [of k s s'] assms(1)
    by (auto simp: management_advances_def)
qed

text \<open>The operations on runs alone do not touch the Workspace part.\<close>

definition same_workspace :: "run_store \<Rightarrow> run_store \<Rightarrow> bool" where
  "same_workspace s s' \<longleftrightarrow> workspace_store.truncate s' = workspace_store.truncate s"

lemma same_workspace_inv:
  assumes "same_workspace s s'" "ws_inv s"
  shows "ws_inv s' \<and> management_advances l s s'"
proof -
  have "workspaces s' = workspaces s" "workspaceManagement s' = workspaceManagement s"
    "workspaceMembers s' = workspaceMembers s" "workspaceBillingBindings s' = workspaceBillingBindings s"
    "financialSource s' = financialSource s"
    using assms(1) by (simp_all add: same_workspace_def workspace_store.truncate_def)
  then show ?thesis using assms(2) by (simp add: ws_inv_def management_advances_same)
qed

lemma transition_same_workspace:
  assumes "transitionRun ti s = Inr (res, s')"
  shows "same_workspace s s'"
  using assms by (cases rule: transitionRun_cases) (simp_all add: same_workspace_def workspace_store.truncate_def)

lemma admission_same_workspace:
  "preparePlanRun input s = Inr (ar, s') \<Longrightarrow> same_workspace s s'"
  "beginApplyRun r a f s = Inr (ar, s') \<Longrightarrow> same_workspace s s'"
  by (auto elim!: preparePlanRun_cases beginApplyRun_cases simp: same_workspace_def workspace_store.truncate_def)

lemma ledger_step_workspace:
  assumes "ledger_step l s s'" "ws_inv s"
  shows "ws_inv s' \<and> management_advances l s s'"
  using assms
proof (cases rule: ledger_step.cases)
  case step_putPlan
  then show ?thesis using assms(2) by (intro same_workspace_inv)
      (auto simp: putPlanRun_def same_workspace_def workspace_store.truncate_def)
next
  case step_putApply
  then show ?thesis using assms(2) by (intro same_workspace_inv)
      (auto simp: putApplyRun_def same_workspace_def workspace_store.truncate_def)
next
  case step_append
  then show ?thesis using assms(2) by (intro same_workspace_inv)
      (auto simp: appendRunningRunAuditEvent_def same_workspace_def workspace_store.truncate_def
        split: option.split_asm if_split_asm)
next
  case step_inputs
  then show ?thesis using assms(2) by (intro same_workspace_inv)
      (auto simp: putPlanRunInputs_def deletePlanRunInputs_def same_workspace_def workspace_store.truncate_def)
next
  case step_ownership
  then show ?thesis using assms(2) by (intro same_workspace_inv)
      (auto simp: setCapsuleOwnership_def Let_def same_workspace_def workspace_store.truncate_def split: if_split_asm)
next
  case step_environment
  then show ?thesis using assms(2) by (intro same_workspace_inv)
      (auto simp: same_workspace_def workspace_store.truncate_def)
next
  case step_workspace
  then show ?thesis using assms(2) by (intro ws_step_ledger)
next
  case step_prepare
  then show ?thesis using assms(2) admission_same_workspace(1) same_workspace_inv by blast
next
  case step_begin
  then show ?thesis using assms(2) admission_same_workspace(2) same_workspace_inv by blast
next
  case step_transition
  then show ?thesis using assms(2) transition_same_workspace same_workspace_inv by blast
next
  case step_freeze
  then show ?thesis using assms(2) freeze_ok by blast
next
  case step_exclusive
  then show ?thesis using assms(2) exclusive_ok by blast
qed

text \<open>Rows that carry an authority.\<close>

definition authorities_ok :: "run_store \<Rightarrow> bool" where
  "authorities_ok s \<longleftrightarrow> (\<forall>k r a. js_get (runs s) k = Some r \<and> r_authority r = Some a \<longrightarrow>
     run_id r = k \<and> runManagementAuthority r = Some a)"

lemma runManagementAuthority_cong:
  "r_authority r' = r_authority r \<Longrightarrow> r_workspaceId r' = r_workspaceId r \<Longrightarrow>
   runManagementAuthority r' = runManagementAuthority r"
  by (simp only: runManagementAuthority_def)

lemma authorities_ok_set:
  assumes "authorities_ok s" "runs s' = js_set k r (runs s)"
    "\<And>a. r_authority r = Some a \<Longrightarrow> run_id r = k \<and> runManagementAuthority r = Some a"
  shows "authorities_ok s'"
  unfolding authorities_ok_def
proof (intro allI impI)
  fix q x a assume "js_get (runs s') q = Some x \<and> r_authority x = Some a"
  then show "run_id x = q \<and> runManagementAuthority x = Some a"
    using assms(1,3) unfolding assms(2) authorities_ok_def by (cases "q = k") auto
qed

lemma authorities_ok_same: "authorities_ok s \<Longrightarrow> runs s' = runs s \<Longrightarrow> authorities_ok s'"
  by (simp only: authorities_ok_def)

lemma authorities_ok_put:
  assumes "authorities_ok s" "preserveStoredRunManagementAuthority r (js_get (runs s) (run_id r)) = Inr stored"
    "runs s' = js_set (run_id r) stored (runs s)"
  shows "authorities_ok s'"
proof (rule authorities_ok_set [OF assms(1,3)])
  fix a assume a: "r_authority stored = Some a"
  obtain c where c: "js_get (runs s) (run_id r) = Some c" "r_authority c = Some a"
    "stored = r\<lparr>r_authority := r_authority c\<rparr>" "runStoredIdentityMatches c r"
    using assms(2) a by (cases "js_get (runs s) (run_id r)")
      (auto simp: preserveStoredRunManagementAuthority_def publicStoredRun_def split: if_split_asm)
  then have "runManagementAuthority c = Some a" using assms(1) by (simp add: authorities_ok_def)
  moreover have "runManagementAuthority stored = runManagementAuthority c"
    using c by (intro runManagementAuthority_cong) (auto simp: runStoredIdentityMatches_def)
  ultimately show "run_id stored = run_id r \<and> runManagementAuthority stored = Some a" using c(3) by simp
qed

lemma authorities_ok_transition:
  assumes "authorities_ok s" "transitionRun ti s = Inr (res, s')"
  shows "authorities_ok s'"
  using assms(2)
proof (cases rule: transitionRun_cases)
  case (won current)
  show ?thesis
  proof (rule authorities_ok_set [OF assms(1)])
    let ?p = "(persisted_run ti current)\<lparr>r_authority := r_authority current\<rparr>"
    show "runs s' = js_set (t_id ti) ?p (runs s)" by (simp add: won(14))
    fix a assume "r_authority ?p = Some a"
    then have "runManagementAuthority current = Some a" using assms(1) won(1) by (simp add: authorities_ok_def)
    moreover have "runManagementAuthority ?p = runManagementAuthority current"
      using won(7) by (intro runManagementAuthority_cong) (simp_all add: runStoredIdentityMatches_def)
    ultimately show "run_id ?p = t_id ti \<and> runManagementAuthority ?p = Some a" using won(6) by simp
  qed
qed (simp add: assms(1))

lemma ledger_step_authorities:
  assumes "ledger_step l s s'" "authorities_ok s"
  shows "authorities_ok s'"
  using assms(1)
proof (cases rule: ledger_step.cases)
  case (step_prepare input ar)
  from step_prepare(2) show ?thesis
  proof (cases rule: preparePlanRun_cases)
    case (created a)
    show ?thesis
      by (rule authorities_ok_set [OF assms(2), where k = "run_id (pp_run input)"
            and r = "(pp_run input)\<lparr>r_authority := Some a\<rparr>"]) (simp_all add: created(10,11))
  qed (simp add: assms(2))
next
  case (step_begin r a f ar)
  from step_begin(2) show ?thesis
  proof (cases rule: beginApplyRun_cases)
    case (created a)
    show ?thesis
      by (rule authorities_ok_set [OF assms(2), where k = "run_id r" and r = "r\<lparr>r_authority := Some a\<rparr>"])
        (simp_all add: created(8,9))
  qed (simp add: assms(2))
next
  case (step_putPlan r r')
  then show ?thesis by (auto simp: putPlanRun_def intro: authorities_ok_put [OF assms(2)])
next
  case (step_putApply r r')
  then show ?thesis by (auto simp: putApplyRun_def intro: authorities_ok_put [OF assms(2)])
next
  case (step_append k kind ws t ev b)
  then consider "s' = s" | c where "js_get (runs s) k = Some c"
    "s' = s\<lparr>runs := js_set k (c\<lparr>r_auditEvents := r_auditEvents c @ [ev]\<rparr>) (runs s)\<rparr>"
    by (auto simp: appendRunningRunAuditEvent_def split: option.split_asm if_split_asm)
  then show ?thesis
  proof cases
    case (2 c)
    have "runManagementAuthority (c\<lparr>r_auditEvents := r_auditEvents c @ [ev]\<rparr>) = runManagementAuthority c"
      by (rule runManagementAuthority_cong) simp_all
    then show ?thesis
      using 2 assms(2) by (intro authorities_ok_set [OF assms(2), where k = k
            and r = "c\<lparr>r_auditEvents := r_auditEvents c @ [ev]\<rparr>"]) (auto simp: authorities_ok_def)
  qed (simp add: assms(2))
next
  case (step_inputs inputs k)
  then show ?thesis
    by (intro authorities_ok_same [OF assms(2)]) (auto simp: putPlanRunInputs_def deletePlanRunInputs_def)
next
  case (step_ownership own missing ex b)
  then show ?thesis
    by (intro authorities_ok_same [OF assms(2)]) (auto simp: setCapsuleOwnership_def Let_def split: if_split_asm)
next
  case (step_transition ti res)
  then show ?thesis using authorities_ok_transition [OF assms(2)] by blast
next
  case step_environment
  then show ?thesis by (intro authorities_ok_same [OF assms(2)]) simp
qed (auto intro!: authorities_ok_same [OF assms(2)] more_runs intro: ws_step_more freeze_frame exclusive_frame)

definition empty_run_store :: run_store where
  "empty_run_store = workspace_store.extend empty_workspace_store
     (run_store.fields [] [] [] [] [] [] [] [] [] [] [])"

inductive ledger_reachable :: "run_store \<Rightarrow> bool" where
  ledger_init: "ledger_reachable empty_run_store"
| ledger_next: "ledger_reachable s \<Longrightarrow> ledger_step l s s' \<Longrightarrow> ledger_reachable s'"

lemma ledger_reachable_inv: "ledger_reachable s \<Longrightarrow> ws_inv s \<and> authorities_ok s"
proof (induction rule: ledger_reachable.induct)
  case ledger_init
  show ?case
    by (simp add: empty_run_store_def workspace_store.extend_def run_store.fields_def empty_workspace_store_def
        ws_inv_def billing_unique_def fin_init authorities_ok_def)
next
  case (ledger_next s l s')
  then show ?case using ledger_step_workspace ledger_step_authorities by blast
qed

section \<open>Lemmas: leases\<close>

text \<open>Only a transition writes a lease, and a lease is only granted in the active state.\<close>

lemma ledger_step_lease:
  assumes "ledger_step l s s'" "js_get (runs s) k = Some r"
    "js_get (workspaceManagement s) (r_workspaceId r) = Some m" "managementState m \<noteq> Active"
  shows "js_get (runLeases s') k \<in> {js_get (runLeases s) k, None}"
  using assms(1)
proof (cases rule: ledger_step.cases)
  case (step_transition ti res)
  from step_transition(2) show ?thesis
  proof (cases rule: transitionRun_cases)
    case (won current)
    show ?thesis
    proof (cases "t_id ti = k")
      case True
      then have "current = r" using won(1) assms(2) by simp
      then have "setLeaseToken ti = None"
        using lease_admissionD [OF won(9) _ won(5)] assms(3,4) by fastforce
      then show ?thesis using True by (simp add: won(14))
    next
      case False
      then show ?thesis by (auto simp: won(14) split: option.splits)
    qed
  qed simp
next
  case (step_prepare input ar)
  from step_prepare(2) show ?thesis by (cases rule: preparePlanRun_cases) simp_all
next
  case (step_begin r a f ar)
  from step_begin(2) show ?thesis by (cases rule: beginApplyRun_cases) simp_all
next
  case (step_append k kind ws t ev b)
  then show ?thesis by (auto simp: appendRunningRunAuditEvent_def split: option.split_asm if_split_asm)
next
  case (step_ownership own missing ex b)
  then show ?thesis by (auto simp: setCapsuleOwnership_def Let_def split: if_split_asm)
next
  case step_workspace
  then show ?thesis using more_leases ws_step_more by (metis insertI1)
next
  case step_freeze
  then show ?thesis using more_leases freeze_frame by (metis insertI1)
next
  case step_exclusive
  then show ?thesis using more_leases exclusive_frame by (metis insertI1)
qed (auto simp: putPlanRun_def putApplyRun_def putPlanRunInputs_def deletePlanRunInputs_def)

text \<open>Steps that do not delete the Workspace.\<close>

definition step_keeping :: "string \<Rightarrow> run_store \<Rightarrow> run_store \<Rightarrow> bool" where
  "step_keeping ws s s' \<longleftrightarrow> (\<exists>l. l \<noteq> Some ws \<and> ledger_step l s s')"

lemma no_lease_outside_active:
  assumes steps: "(step_keeping ws)\<^sup>*\<^sup>* s s'" and inv: "ws_inv s"
    and row: "js_get (runs s) k = Some r" "r_authority r \<noteq> None" "r_workspaceId r = ws"
    and mgmt: "js_get (workspaceManagement s) ws = Some m" "managementState m \<noteq> Active"
    and free: "js_get (runLeases s) k = None"
  shows "ws_inv s' \<and> js_get (runLeases s') k = None
    \<and> (\<exists>r'. js_get (runs s') k = Some r' \<and> r_authority r' = r_authority r \<and> r_workspaceId r' = ws)
    \<and> (\<exists>m'. js_get (workspaceManagement s') ws = Some m' \<and> managementState m' \<noteq> Active
         \<and> managementEpoch m \<le> managementEpoch m')"
  using steps
proof (induction rule: rtranclp_induct)
  case base
  then show ?case using inv row mgmt free by auto
next
  case (step y z)
  then obtain l where l: "l \<noteq> Some ws" "ledger_step l y z" by (auto simp: step_keeping_def)
  obtain r1 where r1: "js_get (runs y) k = Some r1" "r_authority r1 = r_authority r" "r_workspaceId r1 = ws"
    using step.IH by blast
  obtain m1 where m1: "js_get (workspaceManagement y) ws = Some m1" "managementState m1 \<noteq> Active"
    "managementEpoch m \<le> managementEpoch m1" using step.IH by blast
  have z: "ws_inv z" "management_advances l y z" using ledger_step_workspace [OF l(2)] step.IH by blast+
  obtain m2 where m2: "js_get (workspaceManagement z) ws = Some m2"
    "m2 = m1 \<or> managementEpoch m1 < managementEpoch m2 \<and> managementState m2 = Draining
     \<or> managementEpoch m2 = managementEpoch m1 \<and> managementState m1 = Draining \<and> managementState m2 = Frozen"
    using z(2) l(1) m1(1) unfolding management_advances_def by blast
  have m2': "managementState m2 \<noteq> Active" "managementEpoch m \<le> managementEpoch m2"
    using m2(2) m1(2,3) by auto
  have lease: "js_get (runLeases z) k = None"
    using ledger_step_lease [OF l(2) r1(1), of m1] m1(1,2) r1(3) step.IH by simp
  obtain r2 where "js_get (runs z) k = Some r2" "r_authority r2 = r_authority r1" "runStoredIdentityMatches r1 r2"
    using ledger_step_keeps_authority [OF l(2), unfolded keeps_authority_def, rule_format, of k r1] r1(1,2) row(2)
    by auto
  then have "js_get (runs z) k = Some r2 \<and> r_authority r2 = r_authority r \<and> r_workspaceId r2 = ws"
    using r1(2,3) by (simp add: runStoredIdentityMatches_def)
  then show ?case using z(1) m2(1) m2' lease by blast
qed

end
