(* ===== verification/Run_Properties.thy ===== *)
theory Run_Properties
  imports Run_Ledger
begin

text \<open>
  The properties of the run ledger, each with a witness on a concrete store: a Workspace with
  one owner, a queued Plan admitted under its management authority, and a runner that claims it.
\<close>

section \<open>A concrete ledger\<close>

definition ex_plan :: run where
  "ex_plan = \<lparr>run_id = ''run_1'', r_workspaceId = ''ws_1'', r_status = Queued, r_kind = None, r_type = None,
     r_operation = Some OpCreate, r_capsuleId = None, r_environment = None, r_sourceId = None,
     r_sourceDigest = Some ''sd'', r_variablesDigest = Some ''vd'', r_planRunId = None, r_expected = None,
     r_driftCheck = None, r_requiresApproval = None, r_approvedAt = None, r_appliedApplyRunId = None,
     r_stateVersionId = None, r_outputId = None, r_executionEvidence = None, r_ownershipEpoch = None,
     r_appManagementEpoch = None, r_auditEvents = [], r_createdAt = Num 1, r_updatedAt = Some (Num 1),
     r_startedAt = None, r_finishedAt = None, r_heartbeatAt = None, r_restoredStateVersionId = None,
     r_restoredFromStateVersionId = None, r_restoreStateGeneration = None, r_restoreServiceData = None,
     r_restoredServiceData = None, r_stateRecovery = None, r_sourceSnapshotId = None, r_snapshotId = None,
     r_resolvedCommit = None, r_archiveDigest = None, r_archiveSizeBytes = None, r_phaseTimings = None,
     r_error = None, r_errorCode = None, r_executionInputsDigest = Some ''xd'', r_dependencySnapshotId = None,
     r_identity = [], r_rest = [], r_authority = None\<rparr>"

definition ex_inputs :: plan_inputs where
  "ex_inputs = \<lparr>pi_planRunId = ''run_1'', pi_body = ''body'', pi_sealed = None\<rparr>"

definition ex_prepare :: prepare_input where
  "ex_prepare = \<lparr>pp_run = ex_plan, pp_inputs = ex_inputs, pp_capsuleFence = None,
     pp_authority = Some (initial_authority ''ws_1'')\<rparr>"

definition ex_rs0 :: run_store where
  "ex_rs0 = empty_run_store\<lparr>workspaces := [(''ws_1'', ex_workspace)],
     workspaceManagement := [(''ws_1'', initial_authority ''ws_1'')],
     workspaceMembers := [(workspaceMemberKey ''ws_1'' ''usr_1'', ex_member)]\<rparr>"

definition ex_rs1 :: run_store where
  "ex_rs1 = ex_rs0\<lparr>planRunInputs := [(''run_1'', ex_inputs)],
     runs := [(''run_1'', ex_plan\<lparr>r_authority := Some (initial_authority ''ws_1'')\<rparr>)]\<rparr>"

definition ex_claim :: transition_input where
  "ex_claim = \<lparr>t_id = ''run_1'', t_kind = KPlan, expectFrom = [Queued], expectLeaseToken = None,
     expectHeartbeatAt = None, expectStartedAt = None, expectExactRun = None, expectDrainSettlement = None,
     t_run = ex_plan\<lparr>r_status := Running, r_startedAt := Some (Num 2)\<rparr>, setLeaseToken = Some ''lease'',
     clearLeaseToken = False, clearHeartbeat = False, t_heartbeatAt = Some 2,
     t_expectedAuthority = None, requireStoredManagementAuthority = None\<rparr>"

definition ex_running :: run where
  "ex_running = ex_plan\<lparr>r_status := Running, r_startedAt := Some (Num 2), r_heartbeatAt := Some 2\<rparr>"

definition ex_rs2 :: run_store where
  "ex_rs2 = ex_rs1\<lparr>runs := [(''run_1'', ex_running\<lparr>r_authority := Some (initial_authority ''ws_1'')\<rparr>)],
     runLeases := [(''run_1'', ''lease'')]\<rparr>"

definition ex_draining :: management where
  "ex_draining = \<lparr>mgmt_workspaceId = ''ws_1'', managementState = Draining, managementEpoch = 2\<rparr>"

definition ex_rs1d :: run_store where
  "ex_rs1d = ex_rs1\<lparr>workspaceManagement := [(''ws_1'', ex_draining)]\<rparr>"

lemma ex_ledger_created:
  "createWorkspaceWithInitialOwner ''t'' ex_workspace ex_member empty_run_store = Inr (Some ex_workspace, ex_rs0)"
  by code_simp

lemma ex_ledger_prepared: "preparePlanRun ex_prepare ex_rs0 = Inr (Created ex_plan, ex_rs1)"
  by code_simp

lemma ex_ledger_claimed:
  "transitionRun ex_claim ex_rs1 = Inr (\<lparr>won = True, tr_run = Some ex_running\<rparr>, ex_rs2)"
  by code_simp

lemma ex_ledger_drained:
  "beginWorkspaceDraining ''t'' ''ws_1'' (initial_authority ''ws_1'') ex_rs1 = Inr (DrainStarted ex_draining, ex_rs1d)"
  by code_simp

lemma ex_rs1_reachable: "ledger_reachable ex_rs1"
  by (rule ledger_next [OF ledger_next [OF ledger_init
        step_workspace [OF ws_step.intros(2) [OF ex_ledger_created]]] step_prepare [OF ex_ledger_prepared]])

lemma ex_rs1d_reachable: "ledger_reachable ex_rs1d"
  by (rule ledger_next [OF ex_rs1_reachable step_workspace [OF ws_step.intros(10) [OF ex_ledger_drained]]])

section \<open>Transitions\<close>





text \<open>C3: a transition grants an execution lease only to a run whose Workspace is active at
  exactly the epoch that was stored on the run when it was admitted.\<close>

theorem lease_needs_stored_authority:
  assumes "transitionRun input s = Inr (res, s')" "won res" "setLeaseToken input = Some t"
  shows "\<exists>current a m. js_get (runs s) (t_id input) = Some current \<and> runManagementAuthority current = Some a
    \<and> js_get (workspaceManagement s) (r_workspaceId current) = Some m
    \<and> managementState m = Active \<and> managementEpoch m = managementEpoch a"
  using assms(1)
proof (cases rule: transitionRun_cases)
  case (won current)
  then show ?thesis using lease_admissionD [OF won(9) assms(3) won(5)] by auto
qed (use assms(2) in simp)

theorem lease_needs_stored_authority_witness:
  "\<exists>current a. js_get (runs ex_rs1) ''run_1'' = Some current \<and> runManagementAuthority current = Some a"
  using lease_needs_stored_authority [OF ex_ledger_claimed, of "''lease''"] by (auto simp: ex_claim_def)



text \<open>C5: once a Workspace has left the active state, an admitted run of it that holds no lease
  never gets one again, as long as the Workspace is not deleted: neither a claim nor any other
  operation of the ledger brings the active state back.\<close>

theorem no_lease_after_drain:
  assumes "ledger_reachable s" "js_get (runs s) k = Some r" "r_authority r \<noteq> None"
    "js_get (workspaceManagement s) (r_workspaceId r) = Some m" "managementState m \<noteq> Active"
    "js_get (runLeases s) k = None" "(step_keeping (r_workspaceId r))\<^sup>*\<^sup>* s s'"
  shows "js_get (runLeases s') k = None
    \<and> (\<exists>m'. js_get (workspaceManagement s') (r_workspaceId r) = Some m' \<and> managementState m' \<noteq> Active
         \<and> managementEpoch m \<le> managementEpoch m')"
  using no_lease_outside_active [OF assms(7) _ assms(2,3) refl assms(4,5,6)] ledger_reachable_inv [OF assms(1)]
  by blast

theorem no_lease_after_drain_witness:
  "\<exists>res s'. transitionRun ex_claim ex_rs1d = Inr (res, s') \<and> js_get (runLeases s') ''run_1'' = None"
proof -
  let ?r = "ex_plan\<lparr>r_authority := Some (initial_authority ''ws_1'')\<rparr>"
  have t: "transitionRun ex_claim ex_rs1d = Inr (\<lparr>won = False, tr_run = Some ex_plan\<rparr>, ex_rs1d)" by code_simp
  have "(step_keeping (r_workspaceId ?r))\<^sup>*\<^sup>* ex_rs1d ex_rs1d" by simp
  moreover have "js_get (runs ex_rs1d) ''run_1'' = Some ?r" "r_authority ?r \<noteq> None"
    "js_get (workspaceManagement ex_rs1d) (r_workspaceId ?r) = Some ex_draining" "managementState ex_draining \<noteq> Active"
    "js_get (runLeases ex_rs1d) ''run_1'' = None" by code_simp+
  ultimately show ?thesis using no_lease_after_drain [OF ex_rs1d_reachable] t by blast
qed

section \<open>Audit history and finalisation\<close>

text \<open>C12: the audit history of a Plan or Apply run is append-only under transitions and under the
  running owner's audit write: the old history stays a prefix, and no appended event reuses an
  id of the old history.\<close>

theorem audit_history_append_only:
  assumes "(\<exists>input res. transitionRun input s = Inr (res, s'))
      \<or> (\<exists>q kind ws t ev b. appendRunningRunAuditEvent q kind ws t ev s = (b, s'))"
    "js_get (runs s) k = Some r" "isPlanRunRecord r \<or> isApplyRunRecord r"
  shows "\<exists>r' new. js_get (runs s') k = Some r' \<and> r_auditEvents r' = r_auditEvents r @ new
    \<and> (\<forall>e \<in> set new. ae_id e \<notin> ae_id ` set (r_auditEvents r))"
  using assms(1)
proof
  assume "\<exists>input res. transitionRun input s = Inr (res, s')"
  then obtain input res where t: "transitionRun input s = Inr (res, s')" by blast
  then show ?thesis
  proof (cases rule: transitionRun_cases)
    case (won current)
    show ?thesis
    proof (cases "k = t_id input")
      case True
      then have "current = r" using won(1) assms(2) by simp
      then show ?thesis
        using persisted_audit_prefix [OF won(5)] assms(3) True by (auto simp: won(14))
    next
      case False
      then show ?thesis using assms(2) by (auto simp: won(14))
    qed
  qed (use assms(2) in auto)
next
  assume "\<exists>q kind ws t ev b. appendRunningRunAuditEvent q kind ws t ev s = (b, s')"
  then obtain q kind ws t ev b where a: "appendRunningRunAuditEvent q kind ws t ev s = (b, s')" by blast
  consider "s' = s" | c where "js_get (runs s) q = Some c" "\<not> list_ex (\<lambda>e. ae_id e = ae_id ev) (r_auditEvents c)"
    "s' = s\<lparr>runs := js_set q (c\<lparr>r_auditEvents := r_auditEvents c @ [ev]\<rparr>) (runs s)\<rparr>"
    using a by (auto simp: appendRunningRunAuditEvent_def split: option.split_asm if_split_asm)
  then show ?thesis
  proof cases
    case (2 c)
    then show ?thesis using assms(2) by (cases "k = q") (auto simp: list_ex_iff)
  qed (use assms(2) in auto)
qed

definition ex_event2 :: audit_event where
  "ex_event2 = \<lparr>ae_id = ''ev_1'', ae_type = ''note'', ae_at = 3, ae_data = None, ae_rest = []\<rparr>"

theorem audit_history_append_only_witness:
  "\<exists>s' r' new. appendRunningRunAuditEvent ''run_1'' KPlan ''ws_1'' ''lease'' ex_event2 ex_rs2 = (True, s')
     \<and> js_get (runs s') ''run_1'' = Some r' \<and> r_auditEvents r' = [] @ new"
proof -
  let ?r = "ex_running\<lparr>r_authority := Some (initial_authority ''ws_1'')\<rparr>"
  let ?s = "ex_rs2\<lparr>runs := [(''run_1'', ?r\<lparr>r_auditEvents := [ex_event2]\<rparr>)]\<rparr>"
  have a: "appendRunningRunAuditEvent ''run_1'' KPlan ''ws_1'' ''lease'' ex_event2 ex_rs2 = (True, ?s)" by code_simp
  have r: "js_get (runs ex_rs2) ''run_1'' = Some ?r" "isPlanRunRecord ?r" "r_auditEvents ?r = []" by code_simp+
  from audit_history_append_only [of ex_rs2 ?s "''run_1''" ?r] a r show ?thesis by fastforce
qed







section \<open>Freezing\<close>



section \<open>Admission\<close>

text \<open>Preparing a Plan is idempotent: when a preparation has created the run, the same request
  is answered with the stored run and writes nothing.\<close>

theorem preparePlanRun_retry:
  assumes "preparePlanRun input s = Inr (Created r, s')" "isPlanRunRecord (pp_run input)" "run_id (pp_run input) \<noteq> []"
  shows "preparePlanRun input s' = Inr (Existing (coerceRunRowStatus r), s')"
  using assms(1)
proof (cases rule: preparePlanRun_cases)
  case (created a)
  let ?r = "pp_run input" and ?stored = "(pp_run input)\<lparr>r_authority := Some a\<rparr>"
  have row: "js_get (runs s') (run_id ?r) = Some ?stored" by (simp add: created(10))
  have plan: "isPlanRunRecord ?stored" using assms(2) by (simp add: isPlanRunRecord_def)
  have inputs: "js_get (planRunInputs s') (run_id ?r) = (if r_status ?r = Failed then None else Some (pp_inputs input))"
    using created(7) by (simp add: created(10) planRunPreparationPersistsInputs_def js_has_def)
  have "pi_planRunId (pp_inputs input) = run_id ?r"
    using created(3) by (auto simp: assertPlanRunPreparation_def split: if_split_asm)
  then have "planRunInputsPreparationExactlyMatches (pp_inputs input) (pp_inputs input)"
    using assms(3) by (simp add: planRunInputsPreparationExactlyMatches_def split: option.split)
  then have match: "planRunPreparationExactlyMatches (Some (coerceRunRowStatus ?stored))
      (js_get (planRunInputs s') (run_id ?r)) input"
    unfolding inputs
    by (auto simp: planRunPreparationExactlyMatches_def planRunPreparationIdentity_def coerceRunRowStatus_def
        coerceRunStatus_def planRunPreparationPersistsInputs_def)
  have auth: "assertWorkspaceManagementAuthorityInput a (r_workspaceId ?r) = Inr ()"
    using assms(1) created(2) by (auto simp: preparePlanRun_def Let_def)
  have pub: "publicStoredRun (coerceRunRowStatus ?stored) = coerceRunRowStatus r"
    using created(9) by (simp add: publicStoredRun_def coerceRunRowStatus_def)
  show ?thesis
    using created(2,3) auth row plan match pub by (simp add: preparePlanRun_def)
qed simp

theorem preparePlanRun_retry_witness: "preparePlanRun ex_prepare ex_rs1 = Inr (Existing ex_plan, ex_rs1)"
proof -
  have "isPlanRunRecord (pp_run ex_prepare)" "run_id (pp_run ex_prepare) \<noteq> []" by code_simp+
  from preparePlanRun_retry [OF ex_ledger_prepared this]
  show ?thesis by (simp add: coerceRunRowStatus_def ex_plan_def)
qed



end
