(* ===== verification/Capsule_Lease.thy ===== *)
theory Capsule_Lease
  imports Js_Date
begin

text \<open>
  The Capsule lease (\<open>core/domains/deploy-control/capsule_lease.ts\<close>): the lease scopes, the
  interface \<open>CapsuleCoordination\<close> and its in-memory implementation, and the client
  \<open>withScopedLease\<close> with the bounded wait of \<open>acquireScopedLease\<close>. A reference cell per
  scope states what the interface promises; the locale \<open>capsule_coordination\<close> carries
  the promise, and the exclusion and release lemmas of the client are proved once in it.
  A world holds the clock, the id generator and the coordinator's state. Times and TTLs are
  integral milliseconds; \<open>toISOString\<close> of a time outside the range of \<open>Date\<close> throws.
\<close>

section \<open>Scopes and messages\<close>

definition capsuleLeaseScope :: "string \<Rightarrow> string \<Rightarrow> string" where
  "capsuleLeaseScope capsuleId environment = ''capsule:'' @ capsuleId @ '':'' @ environment"

definition planLeaseScope :: "string \<Rightarrow> string" where
  "planLeaseScope planRunId = ''plan:'' @ planRunId"

definition workspaceLeaseScope :: "string \<Rightarrow> string" where
  "workspaceLeaseScope workspaceId = ''workspace-graph:'' @ workspaceId"

record capsule_lease =
  cl_scope :: string
  cl_holderId :: string
  cl_token :: string
  cl_referenceId :: "string option"
  cl_acquired :: bool
  cl_expiresAt :: string

record acquire_input =
  a_scope :: string
  a_holderId :: string
  a_ttlMs :: int
  a_joinExistingHolder :: "bool option"

record release_input =
  rl_scope :: string
  rl_holderId :: string
  rl_token :: string
  rl_referenceId :: "string option"

record renew_input = release_input +
  rn_ttlMs :: int

datatype lease_error = TimeRangeError | CapsuleLeaseBusyError string string | CoordinationError string

text \<open>The interface: each call may throw, and leaves a new world either way.\<close>

record 'w coordination =
  co_acquire :: "acquire_input \<Rightarrow> 'w \<Rightarrow> (lease_error + capsule_lease) \<times> 'w"
  co_renew :: "renew_input \<Rightarrow> 'w \<Rightarrow> (lease_error + capsule_lease) \<times> 'w"
  co_release :: "release_input \<Rightarrow> 'w \<Rightarrow> (lease_error + bool) \<times> 'w"

definition default_lease_ttl_ms :: int where
  "default_lease_ttl_ms = 15 * 60 * 1000"

definition max_joined_references :: nat where
  "max_joined_references = 64"

definition joined_wait_total_ms :: int where
  "joined_wait_total_ms = 5000"

definition joined_wait_initial_ms :: int where
  "joined_wait_initial_ms = 50"

definition joined_wait_max_ms :: int where
  "joined_wait_max_ms = 250"

section \<open>The in-memory coordinator\<close>

record stored_lease =
  sl_holderId :: string
  sl_token :: string
  sl_expiresAt :: int
  sl_joinable :: bool
  sl_referenceIds :: "string list"

record mem_coordination =
  mc_now :: int
  mc_newId :: "nat \<Rightarrow> string"
  mc_next :: nat
  mc_leases :: "(string, stored_lease) js_map"

definition iso_reply :: "int \<Rightarrow> (string \<Rightarrow> capsule_lease) \<Rightarrow> lease_error + capsule_lease" where
  "iso_reply t reply = (case to_iso_string t of None \<Rightarrow> Inl TimeRangeError | Some s \<Rightarrow> Inr (reply s))"

definition lease_reply :: "string \<Rightarrow> string \<Rightarrow> string \<Rightarrow> string option \<Rightarrow> bool \<Rightarrow> string \<Rightarrow> capsule_lease" where
  "lease_reply sc holder token ref acquired expiry =
     \<lparr>cl_scope = sc, cl_holderId = holder, cl_token = token, cl_referenceId = ref,
      cl_acquired = acquired, cl_expiresAt = expiry\<rparr>"

definition mem_acquire_free ::
    "acquire_input \<Rightarrow> mem_coordination \<Rightarrow> (lease_error + capsule_lease) \<times> mem_coordination" where
  "mem_acquire_free input w =
     (let token = mc_newId w (mc_next w);
          joinable = (a_joinExistingHolder input = Some True);
          referenceId = (if joinable then Some (mc_newId w (mc_next w + 1)) else None);
          expiresAt = mc_now w + a_ttlMs input;
          referenceIds = (case referenceId of Some r \<Rightarrow> if r \<noteq> [] then [r] else [] | None \<Rightarrow> [])
      in (iso_reply expiresAt (lease_reply (a_scope input) (a_holderId input) token
            (case referenceId of Some r \<Rightarrow> if r \<noteq> [] then Some r else None | None \<Rightarrow> None) True),
          w\<lparr>mc_next := mc_next w + (if joinable then 2 else 1),
            mc_leases := js_set (a_scope input)
              \<lparr>sl_holderId = a_holderId input, sl_token = token, sl_expiresAt = expiresAt,
               sl_joinable = joinable, sl_referenceIds = referenceIds\<rparr> (mc_leases w)\<rparr>))"

definition mem_acquireLease ::
    "acquire_input \<Rightarrow> mem_coordination \<Rightarrow> (lease_error + capsule_lease) \<times> mem_coordination" where
  "mem_acquireLease input w =
     (case js_get (mc_leases w) (a_scope input) of
        Some existing \<Rightarrow>
          if mc_now w < sl_expiresAt existing then
            (if a_joinExistingHolder input = Some True \<and> sl_joinable existing
                \<and> sl_holderId existing = a_holderId input
                \<and> length (sl_referenceIds existing) < max_joined_references
             then
               (let referenceId = mc_newId w (mc_next w);
                    expiresAt = max (sl_expiresAt existing) (mc_now w + a_ttlMs input)
                in (iso_reply expiresAt (lease_reply (a_scope input) (sl_holderId existing) (sl_token existing)
                      (Some referenceId) True),
                    w\<lparr>mc_next := mc_next w + 1,
                      mc_leases := js_set (a_scope input)
                        (existing\<lparr>sl_expiresAt := expiresAt,
                                  sl_referenceIds := js_set_add referenceId (sl_referenceIds existing)\<rparr>)
                        (mc_leases w)\<rparr>))
             else
               (iso_reply (sl_expiresAt existing) (lease_reply (a_scope input) (sl_holderId existing)
                  (sl_token existing) None False), w))
          else mem_acquire_free input w
      | None \<Rightarrow> mem_acquire_free input w)"

definition member_of :: "string list \<Rightarrow> string option \<Rightarrow> bool" where
  "member_of refs ref \<longleftrightarrow> (case ref of None \<Rightarrow> False | Some r \<Rightarrow> r \<in> set refs)"

definition mem_renewLease ::
    "renew_input \<Rightarrow> mem_coordination \<Rightarrow> (lease_error + capsule_lease) \<times> mem_coordination" where
  "mem_renewLease input w =
     (let denied = (\<lambda>t. iso_reply t (lease_reply (rl_scope input) (rl_holderId input) (rl_token input) None False)) in
      case js_get (mc_leases w) (rl_scope input) of
        None \<Rightarrow> (denied (mc_now w), w)
      | Some existing \<Rightarrow>
          if sl_holderId existing \<noteq> rl_holderId input \<or> sl_token existing \<noteq> rl_token input
             \<or> sl_referenceIds existing \<noteq> [] \<and> \<not> member_of (sl_referenceIds existing) (rl_referenceId input)
             \<or> sl_expiresAt existing \<le> mc_now w
          then (denied (sl_expiresAt existing), w)
          else
            (let expiresAt = max (sl_expiresAt existing) (mc_now w + rn_ttlMs input)
             in (iso_reply expiresAt (lease_reply (rl_scope input) (sl_holderId existing) (sl_token existing) None True),
                 w\<lparr>mc_leases := js_set (rl_scope input) (existing\<lparr>sl_expiresAt := expiresAt\<rparr>) (mc_leases w)\<rparr>)))"

definition mem_releaseLease ::
    "release_input \<Rightarrow> mem_coordination \<Rightarrow> (lease_error + bool) \<times> mem_coordination" where
  "mem_releaseLease input w =
     (case js_get (mc_leases w) (rl_scope input) of
        None \<Rightarrow> (Inr False, w)
      | Some existing \<Rightarrow>
          if sl_holderId existing \<noteq> rl_holderId input \<or> sl_token existing \<noteq> rl_token input then (Inr False, w)
          else
            (let refs = sl_referenceIds existing; remaining = filter (\<lambda>r. Some r \<noteq> rl_referenceId input) refs in
             if refs \<noteq> [] \<and> \<not> member_of refs (rl_referenceId input) then (Inr False, w)
             else if refs \<noteq> [] \<and> remaining \<noteq> []
             then (Inr True, w\<lparr>mc_leases := js_set (rl_scope input) (existing\<lparr>sl_referenceIds := remaining\<rparr>) (mc_leases w)\<rparr>)
             else (Inr True, w\<lparr>mc_leases := js_delete (rl_scope input) (mc_leases w)\<rparr>)))"

definition InMemoryCapsuleCoordination :: "mem_coordination coordination" where
  "InMemoryCapsuleCoordination =
     \<lparr>co_acquire = mem_acquireLease, co_renew = mem_renewLease, co_release = mem_releaseLease\<rparr>"

section \<open>The client\<close>

text \<open>What the client uses of its host: \<open>Date.now\<close>, and \<open>setTimeout\<close>, during which other
  actors may act on the world.\<close>

record 'w host =
  host_now :: "'w \<Rightarrow> int"
  host_delay :: "int \<Rightarrow> 'w \<Rightarrow> 'w"

partial_function (option) acquire_wait ::
    "'w host \<Rightarrow> 'w coordination \<Rightarrow> acquire_input \<Rightarrow> int \<Rightarrow> int \<Rightarrow> capsule_lease \<Rightarrow> 'w
     \<Rightarrow> ((lease_error + capsule_lease) \<times> 'w) option" where
  "acquire_wait h co input startedAt delayMs lease w =
     (if host_now h w - startedAt < joined_wait_total_ms
      then
        (let remainingMs = joined_wait_total_ms - (host_now h w - startedAt);
             w1 = host_delay h (min delayMs remainingMs) w
         in case co_acquire co input w1 of
              (Inl e, w2) \<Rightarrow> Some (Inl e, w2)
            | (Inr lease', w2) \<Rightarrow>
                if cl_acquired lease' \<or> cl_holderId lease' \<noteq> a_holderId input then Some (Inr lease', w2)
                else acquire_wait h co input startedAt (min (delayMs * 2) joined_wait_max_ms) lease' w2)
      else Some (Inr lease, w))"

definition acquireScopedLease ::
    "'w host \<Rightarrow> 'w coordination \<Rightarrow> string \<Rightarrow> string \<Rightarrow> int \<Rightarrow> bool option \<Rightarrow> 'w
     \<Rightarrow> ((lease_error + capsule_lease) \<times> 'w) option" where
  "acquireScopedLease h co sc holderId ttlMs join w =
     (let input = \<lparr>a_scope = sc, a_holderId = holderId, a_ttlMs = ttlMs,
                   a_joinExistingHolder = (if join = Some True then Some True else None)\<rparr>
      in case co_acquire co input w of
           (Inl e, w1) \<Rightarrow> Some (Inl e, w1)
         | (Inr lease, w1) \<Rightarrow>
             if cl_acquired lease \<or> join \<noteq> Some True \<or> cl_holderId lease \<noteq> holderId then Some (Inr lease, w1)
             else acquire_wait h co input (host_now h w1) joined_wait_initial_ms lease w1)"

record 'w lease_handle =
  lh_scope :: string
  lh_holderId :: string
  lh_token :: string
  lh_renew :: "int option \<Rightarrow> 'w \<Rightarrow> (lease_error + capsule_lease) \<times> 'w"

definition truthy_ref :: "string option \<Rightarrow> string option" where
  "truthy_ref ref = (case ref of Some r \<Rightarrow> if r \<noteq> [] then Some r else None | None \<Rightarrow> None)"

text \<open>The leased work: it either throws or returns, and leaves a new world. The lease is
  released on both exits; an error of the release itself replaces the result.\<close>

definition withScopedLease ::
    "'w host \<Rightarrow> 'w coordination \<Rightarrow> string \<Rightarrow> string \<Rightarrow> int option \<Rightarrow> bool option
     \<Rightarrow> ('w lease_handle \<Rightarrow> 'w \<Rightarrow> (lease_error + 'r) \<times> 'w) \<Rightarrow> 'w \<Rightarrow> ((lease_error + 'r) \<times> 'w) option" where
  "withScopedLease h co sc holderId ttlMs join work w =
     (let leaseTtl = (case ttlMs of Some t \<Rightarrow> t | None \<Rightarrow> default_lease_ttl_ms) in
      case acquireScopedLease h co sc holderId leaseTtl join w of
        None \<Rightarrow> None
      | Some (Inl e, w1) \<Rightarrow> Some (Inl e, w1)
      | Some (Inr lease, w1) \<Rightarrow>
          if \<not> cl_acquired lease then Some (Inl (CapsuleLeaseBusyError sc (cl_holderId lease)), w1)
          else
            (let held = \<lparr>rl_scope = sc, rl_holderId = holderId, rl_token = cl_token lease,
                         rl_referenceId = truthy_ref (cl_referenceId lease)\<rparr>;
                 handle = \<lparr>lh_scope = sc, lh_holderId = holderId, lh_token = cl_token lease,
                   lh_renew = (\<lambda>renewTtl. co_renew co (release_input.extend held
                      (renew_input.fields (case renewTtl of Some t \<Rightarrow> t | None \<Rightarrow> leaseTtl))))\<rparr>;
                 (result, w2) = work handle w1
             in case co_release co held w2 of
                  (Inl e, w3) \<Rightarrow> Some (Inl e, w3)
                | (Inr _, w3) \<Rightarrow> Some (result, w3)))"

definition withCapsuleLease ::
    "'w host \<Rightarrow> 'w coordination \<Rightarrow> string \<Rightarrow> string \<Rightarrow> string \<Rightarrow> int option \<Rightarrow> bool option
     \<Rightarrow> ('w lease_handle \<Rightarrow> 'w \<Rightarrow> (lease_error + 'r) \<times> 'w) \<Rightarrow> 'w \<Rightarrow> ((lease_error + 'r) \<times> 'w) option" where
  "withCapsuleLease h co capsuleId environment holderId ttlMs join =
     withScopedLease h co (capsuleLeaseScope capsuleId environment) holderId ttlMs join"

definition withPlanLease ::
    "'w host \<Rightarrow> 'w coordination \<Rightarrow> string \<Rightarrow> string \<Rightarrow> int option
     \<Rightarrow> ('w lease_handle \<Rightarrow> 'w \<Rightarrow> (lease_error + 'r) \<times> 'w) \<Rightarrow> 'w \<Rightarrow> ((lease_error + 'r) \<times> 'w) option" where
  "withPlanLease h co planRunId holderId ttlMs = withScopedLease h co (planLeaseScope planRunId) holderId ttlMs None"

definition withWorkspaceLease ::
    "'w host \<Rightarrow> 'w coordination \<Rightarrow> string \<Rightarrow> string \<Rightarrow> int option
     \<Rightarrow> ('w lease_handle \<Rightarrow> 'w \<Rightarrow> (lease_error + 'r) \<times> 'w) \<Rightarrow> 'w \<Rightarrow> ((lease_error + 'r) \<times> 'w) option" where
  "withWorkspaceLease h co workspaceId holderId ttlMs =
     withScopedLease h co (workspaceLeaseScope workspaceId) holderId ttlMs None"

section \<open>What the interface promises\<close>

text \<open>A cell per scope: the lease that is live, if any. Acquisition fills a free cell or joins
  a joinable one of the same holder, renewal and release are gated by holder, token and, when
  members are tracked, by a member reference; the generation ends with its last member.\<close>

definition time_ok :: "int \<Rightarrow> bool" where
  "time_ok t \<longleftrightarrow> time_clip t \<noteq> None"

definition live :: "int \<Rightarrow> stored_lease option \<Rightarrow> stored_lease option" where
  "live t c = (case c of Some l \<Rightarrow> if t < sl_expiresAt l then Some l else None | None \<Rightarrow> None)"

definition cell_reply :: "string \<Rightarrow> stored_lease \<Rightarrow> string option \<Rightarrow> bool \<Rightarrow> capsule_lease" where
  "cell_reply sc l ref acquired =
     lease_reply sc (sl_holderId l) (sl_token l) ref acquired (iso_string (sl_expiresAt l))"

definition joins :: "acquire_input \<Rightarrow> stored_lease \<Rightarrow> bool" where
  "joins input l \<longleftrightarrow> a_joinExistingHolder input = Some True \<and> sl_joinable l
     \<and> sl_holderId l = a_holderId input \<and> length (sl_referenceIds l) < max_joined_references"

definition fresh_lease :: "int \<Rightarrow> string \<Rightarrow> string \<Rightarrow> acquire_input \<Rightarrow> stored_lease" where
  "fresh_lease now token ref input =
     (let joinable = (a_joinExistingHolder input = Some True) in
      \<lparr>sl_holderId = a_holderId input, sl_token = token, sl_expiresAt = now + a_ttlMs input,
       sl_joinable = joinable, sl_referenceIds = (if joinable then [ref] else [])\<rparr>)"

definition joined_lease :: "int \<Rightarrow> string \<Rightarrow> acquire_input \<Rightarrow> stored_lease \<Rightarrow> stored_lease" where
  "joined_lease now ref input l =
     l\<lparr>sl_expiresAt := max (sl_expiresAt l) (now + a_ttlMs input),
       sl_referenceIds := js_set_add ref (sl_referenceIds l)\<rparr>"

definition cell_acquire ::
    "int \<Rightarrow> string \<Rightarrow> string \<Rightarrow> acquire_input \<Rightarrow> stored_lease option \<Rightarrow> capsule_lease \<times> stored_lease option" where
  "cell_acquire now token ref input c =
     (case c of
        None \<Rightarrow>
          (let l = fresh_lease now token ref input
           in (cell_reply (a_scope input) l (if sl_joinable l then Some ref else None) True, live now (Some l)))
      | Some l \<Rightarrow>
          if joins input l
          then (let l' = joined_lease now ref input l
                in (cell_reply (a_scope input) l' (Some ref) True, Some l'))
          else (cell_reply (a_scope input) l None False, Some l))"

definition cell_member :: "('a) release_input_scheme \<Rightarrow> stored_lease option \<Rightarrow> bool" where
  "cell_member input c \<longleftrightarrow>
     (case c of None \<Rightarrow> False
      | Some l \<Rightarrow> sl_holderId l = rl_holderId input \<and> sl_token l = rl_token input
          \<and> (sl_referenceIds l \<noteq> [] \<longrightarrow> member_of (sl_referenceIds l) (rl_referenceId input)))"

definition cell_renew :: "int \<Rightarrow> renew_input \<Rightarrow> stored_lease option \<Rightarrow> stored_lease option" where
  "cell_renew now input c =
     (if cell_member input c
      then map_option (\<lambda>l. l\<lparr>sl_expiresAt := max (sl_expiresAt l) (now + rn_ttlMs input)\<rparr>) c else c)"

definition cell_release :: "release_input \<Rightarrow> stored_lease option \<Rightarrow> stored_lease option" where
  "cell_release input c =
     (case c of None \<Rightarrow> None
      | Some l \<Rightarrow>
          if cell_member input c
          then (let remaining = filter (\<lambda>r. Some r \<noteq> rl_referenceId input) (sl_referenceIds l)
                in if remaining \<noteq> [] then Some (l\<lparr>sl_referenceIds := remaining\<rparr>) else None)
          else Some l)"

text \<open>The requests the interface is used with name a scope and a holder; a held handle carries
  the token and, if any, the reference it was given.\<close>

definition acquire_valid :: "acquire_input \<Rightarrow> bool" where
  "acquire_valid i \<longleftrightarrow> a_scope i \<noteq> [] \<and> a_holderId i \<noteq> []"

definition handle_valid :: "('a) release_input_scheme \<Rightarrow> bool" where
  "handle_valid d \<longleftrightarrow> rl_scope d \<noteq> [] \<and> rl_holderId d \<noteq> [] \<and> rl_token d \<noteq> [] \<and> rl_referenceId d \<noteq> Some []"

text \<open>Any actor may act on a world, and time may pass. \<open>allowed\<close> restricts the releases.\<close>

inductive coord_step ::
    "'w coordination \<Rightarrow> ('w \<Rightarrow> int) \<Rightarrow> (int \<Rightarrow> 'w \<Rightarrow> 'w) \<Rightarrow> (release_input \<Rightarrow> bool) \<Rightarrow> 'w \<Rightarrow> 'w \<Rightarrow> bool"
  for co now elapse allowed where
    step_acquire: "acquire_valid i \<Longrightarrow> time_ok (now w + a_ttlMs i) \<Longrightarrow> co_acquire co i w = (r, w')
      \<Longrightarrow> coord_step co now elapse allowed w w'"
  | step_renew: "handle_valid n \<Longrightarrow> time_ok (now w + rn_ttlMs n) \<Longrightarrow> co_renew co n w = (r, w')
      \<Longrightarrow> coord_step co now elapse allowed w w'"
  | step_release: "handle_valid l \<Longrightarrow> allowed l \<Longrightarrow> co_release co l w = (b, w')
      \<Longrightarrow> coord_step co now elapse allowed w w'"
  | step_elapse: "0 \<le> d \<Longrightarrow> time_ok (now w + d) \<Longrightarrow> coord_step co now elapse allowed w (elapse d w)"

text \<open>A lease belongs to the generation of another, lasting at least as long; a member holds
  it (a generation without tracked members is held by whoever knows its token); a release
  gives a membership up.\<close>

definition same_generation :: "stored_lease \<Rightarrow> stored_lease \<Rightarrow> bool" where
  "same_generation l l' \<longleftrightarrow> sl_holderId l' = sl_holderId l \<and> sl_token l' = sl_token l
     \<and> sl_joinable l' = sl_joinable l \<and> sl_expiresAt l \<le> sl_expiresAt l'"

definition holds :: "string option \<Rightarrow> stored_lease \<Rightarrow> bool" where
  "holds ref l \<longleftrightarrow> (case ref of None \<Rightarrow> sl_referenceIds l = [] \<and> \<not> sl_joinable l | Some r \<Rightarrow> r \<in> set (sl_referenceIds l))"

definition gives_up :: "string \<Rightarrow> stored_lease \<Rightarrow> string option \<Rightarrow> release_input \<Rightarrow> bool" where
  "gives_up sc l ref input \<longleftrightarrow> rl_scope input = sc \<and> rl_holderId input = sl_holderId l
     \<and> rl_token input = sl_token l \<and> (case ref of None \<Rightarrow> True | Some r \<Rightarrow> rl_referenceId input = Some r)"

lemmas [lease_defs] = live_def cell_acquire_def joins_def fresh_lease_def joined_lease_def cell_member_def
  cell_renew_def cell_release_def member_of_def js_set_add_def Let_def

lemma same_generation_refl [simp]: "same_generation l l"
  by (simp add: same_generation_def)

lemma same_generation_trans: "same_generation l l' \<Longrightarrow> same_generation l' l'' \<Longrightarrow> same_generation l l''"
  by (auto simp: same_generation_def)

lemma gives_up_generation: "same_generation l l' \<Longrightarrow> gives_up sc l' ref input = gives_up sc l ref input"
  by (simp add: same_generation_def gives_up_def)

lemma live_Some: "live t (Some l) = (if t < sl_expiresAt l then Some l else None)"
  by (simp add: live_def)

lemma live_None [simp]: "live t None = None"
  by (simp add: live_def)

lemma cell_acquire_keeps:
  assumes "cell_acquire now token ref i (Some l) = (r, c)" "holds m l"
  shows "\<exists>l'. c = Some l' \<and> same_generation l l' \<and> holds m l'"
  using assms by (auto simp: cell_acquire_def joins_def joined_lease_def js_set_add_def same_generation_def holds_def
      Let_def split: if_splits option.splits)

lemma cell_renew_keeps:
  assumes "holds m l"
  shows "\<exists>l'. cell_renew now n (Some l) = Some l' \<and> same_generation l l' \<and> holds m l'"
  using assms by (auto simp: cell_renew_def same_generation_def holds_def split: option.splits)

lemma cell_release_keeps:
  assumes "holds m l" "rl_scope i = sc \<Longrightarrow> \<not> gives_up sc l m i" "rl_scope i = sc"
  shows "\<exists>l'. cell_release i (Some l) = Some l' \<and> same_generation l l' \<and> holds m l'"
proof (cases "cell_member i (Some l)")
  case True
  then have own: "sl_holderId l = rl_holderId i" "sl_token l = rl_token i"
    by (auto simp: cell_member_def)
  with assms obtain r where r: "m = Some r" "r \<in> set (sl_referenceIds l)" "rl_referenceId i \<noteq> Some r"
    by (auto simp: gives_up_def holds_def split: option.splits)
  then have "filter (\<lambda>r. Some r \<noteq> rl_referenceId i) (sl_referenceIds l) \<noteq> []"
    by (simp add: filter_empty_conv) metis
  then show ?thesis using True r
    by (auto simp: cell_release_def Let_def same_generation_def holds_def)
next
  case False
  then show ?thesis using assms(1) by (simp add: cell_release_def)
qed

lemma cell_acquire_refuses:
  "\<not> joins i l \<Longrightarrow> cell_acquire now token ref i (Some l) = (cell_reply (a_scope i) l None False, Some l)"
  by (simp add: cell_acquire_def)

locale capsule_coordination =
  fixes co :: "'w coordination"
    and now :: "'w \<Rightarrow> int"
    and elapse :: "int \<Rightarrow> 'w \<Rightarrow> 'w"
    and inv :: "'w \<Rightarrow> bool"
    and leases :: "'w \<Rightarrow> string \<Rightarrow> stored_lease option"
  assumes acquire: "inv w \<Longrightarrow> acquire_valid i \<Longrightarrow> time_ok (now w + a_ttlMs i) \<Longrightarrow>
      \<exists>token ref w'. co_acquire co i w = (Inr (fst (cell_acquire (now w) token ref i (leases w (a_scope i)))), w')
        \<and> ref \<noteq> [] \<and> inv w' \<and> now w' = now w
        \<and> leases w' = (leases w)(a_scope i := snd (cell_acquire (now w) token ref i (leases w (a_scope i))))"
    and renew: "inv w \<Longrightarrow> handle_valid n \<Longrightarrow> time_ok (now w + rn_ttlMs n) \<Longrightarrow>
      \<exists>r w'. co_renew co n w = (Inr r, w') \<and> inv w' \<and> now w' = now w
        \<and> cl_acquired r = cell_member n (leases w (rl_scope n))
        \<and> (\<forall>l. cl_acquired r \<and> cell_renew (now w) n (leases w (rl_scope n)) = Some l \<longrightarrow>
             r = cell_reply (rl_scope n) l None True)
        \<and> leases w' = (leases w)(rl_scope n := cell_renew (now w) n (leases w (rl_scope n)))"
    and release: "inv w \<Longrightarrow> handle_valid d \<Longrightarrow>
      \<exists>b w'. co_release co d w = (Inr b, w') \<and> inv w' \<and> now w' = now w
        \<and> (leases w (rl_scope d) \<noteq> None \<longrightarrow> b = cell_member d (leases w (rl_scope d)))
        \<and> leases w' = (leases w)(rl_scope d := cell_release d (leases w (rl_scope d)))"
    and elapse: "inv w \<Longrightarrow> 0 \<le> t \<Longrightarrow> time_ok (now w + t) \<Longrightarrow>
      inv (elapse t w) \<and> now (elapse t w) = now w + t
        \<and> leases (elapse t w) = (\<lambda>k. live (now w + t) (leases w k))"
    and token: "inv w \<Longrightarrow> leases w k = Some l \<Longrightarrow> sl_token l \<noteq> []"
begin

lemma step_inv:
  assumes "coord_step co now elapse allowed w w'" "inv w"
  shows "inv w' \<and> now w \<le> now w'"
  using assms by (cases rule: coord_step.cases) (use acquire renew release elapse in fastforce)+

lemma steps_inv:
  assumes "(coord_step co now elapse allowed)\<^sup>*\<^sup>* w w'" "inv w"
  shows "inv w' \<and> now w \<le> now w'"
  using assms by (induction rule: rtranclp_induct) (auto dest: step_inv)

text \<open>A generation that is held lives on until it expires, whatever the others do.\<close>

lemma step_keeps:
  assumes "coord_step co now elapse (\<lambda>i. \<not> gives_up sc l m i) w w'" "inv w" "leases w sc = Some l0"
    "same_generation l l0" "holds m l0" "now w' < sl_expiresAt l"
  shows "\<exists>l'. leases w' sc = Some l' \<and> same_generation l l' \<and> holds m l'"
  using assms(1)
proof cases
  case (step_acquire i r)
  from acquire [OF assms(2) step_acquire(1,2)] obtain token ref where
    k: "leases w' = (leases w)(a_scope i := snd (cell_acquire (now w) token ref i (leases w (a_scope i))))"
    using step_acquire(3) by auto
  show ?thesis
    using k assms(3,4,5) cell_acquire_keeps [of "now w" token ref i l0 _ _ m]
    by (cases "a_scope i = sc") (metis fun_upd_same prod.collapse same_generation_trans, auto)
next
  case (step_renew n r)
  from renew [OF assms(2) step_renew(1,2)] step_renew(3)
  have k: "leases w' = (leases w)(rl_scope n := cell_renew (now w) n (leases w (rl_scope n)))" by auto
  show ?thesis
    using k assms(3,4) cell_renew_keeps [OF assms(5), of "now w" n]
    by (cases "rl_scope n = sc") (metis fun_upd_same same_generation_trans, use assms(5) in auto)
next
  case (step_release i b)
  from release [OF assms(2) step_release(1)] step_release(3)
  have k: "leases w' = (leases w)(rl_scope i := cell_release i (leases w (rl_scope i)))" by auto
  have "\<not> gives_up sc l0 m i" using step_release(2) gives_up_generation [OF assms(4)] by simp
  then show ?thesis
    using k assms(3,4) cell_release_keeps [OF assms(5), of i sc]
    by (cases "rl_scope i = sc") (metis fun_upd_same same_generation_trans, use assms(5) in auto)
next
  case (step_elapse d)
  then show ?thesis
    using elapse [OF assms(2) step_elapse(2,3)] assms(3-6) by (auto simp: live_Some same_generation_def)
qed

lemma steps_keep:
  assumes "(coord_step co now elapse (\<lambda>i. \<not> gives_up sc l m i))\<^sup>*\<^sup>* w w'" "inv w" "leases w sc = Some l"
    "holds m l" "now w' < sl_expiresAt l"
  shows "\<exists>l'. leases w' sc = Some l' \<and> same_generation l l' \<and> holds m l'"
  using assms(1,5)
proof (induction rule: rtranclp_induct)
  case base
  then show ?case using assms(3,4) by auto
next
  case (step y z)
  have inv: "inv y" using steps_inv [OF step(1) assms(2)] by simp
  have "now y \<le> now z" using step_inv [OF step(2) inv] by simp
  then obtain l0 where "leases y sc = Some l0" "same_generation l l0" "holds m l0" using step.IH step.prems by auto
  then show ?case using step_keeps [OF step(2) inv] step.prems by blast
qed

text \<open>While it lives, an acquisition that does not join it is refused and names its holder.\<close>

lemma exclusion:
  assumes "(coord_step co now elapse (\<lambda>i. \<not> gives_up sc l m i))\<^sup>*\<^sup>* w w'" "inv w" "leases w sc = Some l"
    "holds m l" "now w' < sl_expiresAt l" "a_scope i = sc" "acquire_valid i" "time_ok (now w' + a_ttlMs i)"
    "a_holderId i \<noteq> sl_holderId l \<or> m = None \<or> a_joinExistingHolder i \<noteq> Some True"
  shows "\<exists>r w''. co_acquire co i w' = (Inr r, w'') \<and> \<not> cl_acquired r \<and> cl_holderId r = sl_holderId l
    \<and> leases w'' = leases w'"
proof -
  from steps_keep [OF assms(1-5)] obtain l' where l': "leases w' sc = Some l'" "same_generation l l'" "holds m l'" by auto
  have "\<not> joins i l'" using assms(9) l'(2,3) by (auto simp: joins_def same_generation_def holds_def)
  note refused = cell_acquire_refuses [OF this]
  have "inv w'" using steps_inv [OF assms(1,2)] by simp
  from acquire [OF this, of i] assms(6-8) l'(1) refused
  show ?thesis using l'(2) by (auto simp: cell_reply_def lease_reply_def same_generation_def fun_upd_idem)
qed

end

section \<open>The in-memory coordinator keeps the promise\<close>

definition lease_ok :: "stored_lease \<Rightarrow> bool" where
  "lease_ok l \<longleftrightarrow> sl_token l \<noteq> [] \<and> time_ok (sl_expiresAt l) \<and> distinct (sl_referenceIds l) \<and> [] \<notin> set (sl_referenceIds l)
     \<and> (sl_joinable l \<longleftrightarrow> sl_referenceIds l \<noteq> [])"

definition mem_inv :: "mem_coordination \<Rightarrow> bool" where
  "mem_inv w \<longleftrightarrow> time_ok (mc_now w) \<and> (\<forall>n. mc_newId w n \<noteq> []) \<and> (\<forall>k l. js_get (mc_leases w) k = Some l \<longrightarrow> lease_ok l)"

definition mem_live :: "mem_coordination \<Rightarrow> string \<Rightarrow> stored_lease option" where
  "mem_live w k = live (mc_now w) (js_get (mc_leases w) k)"

definition mem_elapse :: "int \<Rightarrow> mem_coordination \<Rightarrow> mem_coordination" where
  "mem_elapse d w = w\<lparr>mc_now := mc_now w + d\<rparr>"

lemma iso_reply_ok: "time_ok t \<Longrightarrow> iso_reply t f = Inr (f (iso_string t))"
  by (auto simp: iso_reply_def to_iso_string_def time_ok_def time_clip_def split: if_splits)

lemma time_ok_max: "time_ok a \<Longrightarrow> time_ok b \<Longrightarrow> time_ok (max a b)"
  by (simp add: max_def)

lemma fresh_lease_ok:
  "token \<noteq> [] \<Longrightarrow> ref \<noteq> [] \<Longrightarrow> time_ok (now + a_ttlMs i) \<Longrightarrow> lease_ok (fresh_lease now token ref i)"
  by (simp add: lease_ok_def fresh_lease_def Let_def)

lemma joined_lease_ok:
  "ref \<noteq> [] \<Longrightarrow> time_ok (now + a_ttlMs i) \<Longrightarrow> lease_ok l \<Longrightarrow> sl_joinable l \<Longrightarrow> lease_ok (joined_lease now ref i l)"
  by (auto simp: lease_ok_def joined_lease_def js_set_add_def intro: time_ok_max)

lemma extended_lease_ok: "lease_ok l \<Longrightarrow> time_ok t \<Longrightarrow> lease_ok (l\<lparr>sl_expiresAt := max (sl_expiresAt l) t\<rparr>)"
  by (simp add: lease_ok_def time_ok_max)

lemma reduced_lease_ok:
  "lease_ok l \<Longrightarrow> filter P (sl_referenceIds l) \<noteq> [] \<Longrightarrow> lease_ok (l\<lparr>sl_referenceIds := filter P (sl_referenceIds l)\<rparr>)"
  by (auto simp: lease_ok_def)

lemma live_fun_upd: "(\<lambda>k'. live t (if k' = k then c else f k')) = (\<lambda>k'. live t (f k'))(k := live t c)"
  by auto

lemma mem_acquire_free_cell:
  assumes "mem_inv w" "time_ok (mc_now w + a_ttlMs i)"
  shows "\<exists>token ref w'. mem_acquire_free i w = (Inr (fst (cell_acquire (mc_now w) token ref i None)), w') \<and> ref \<noteq> []
    \<and> mem_inv w' \<and> mc_now w' = mc_now w
    \<and> mem_live w' = (mem_live w)(a_scope i := snd (cell_acquire (mc_now w) token ref i None))"
proof -
  let ?t = "mc_newId w (mc_next w)" and ?r = "mc_newId w (mc_next w + 1)"
  let ?l = "fresh_lease (mc_now w) ?t ?r i"
  let ?w = "w\<lparr>mc_next := mc_next w + (if a_joinExistingHolder i = Some True then 2 else 1),
    mc_leases := js_set (a_scope i) ?l (mc_leases w)\<rparr>"
  have ne: "?t \<noteq> []" "?r \<noteq> []" using assms(1) by (simp_all add: mem_inv_def)
  have "mem_acquire_free i w = (Inr (fst (cell_acquire (mc_now w) ?t ?r i None)), ?w)"
    using ne assms(2)
    by (simp add: mem_acquire_free_def cell_acquire_def fresh_lease_def Let_def iso_reply_ok cell_reply_def)
  moreover have "mem_inv ?w" using assms(1) fresh_lease_ok [OF ne assms(2)] by (simp add: mem_inv_def)
  moreover have "mem_live ?w = (mem_live w)(a_scope i := snd (cell_acquire (mc_now w) ?t ?r i None))"
    by (simp add: mem_live_def [abs_def] live_fun_upd cell_acquire_def Let_def)
  ultimately show ?thesis using ne
    by (intro exI [of _ ?t] exI [of _ ?r] exI [of _ ?w]) simp
qed

lemma mem_acquire_cell:
  assumes "mem_inv w" "time_ok (mc_now w + a_ttlMs i)"
  shows "\<exists>token ref w'. mem_acquireLease i w = (Inr (fst (cell_acquire (mc_now w) token ref i (mem_live w (a_scope i)))), w')
    \<and> ref \<noteq> [] \<and> mem_inv w' \<and> mc_now w' = mc_now w
    \<and> mem_live w' = (mem_live w)(a_scope i := snd (cell_acquire (mc_now w) token ref i (mem_live w (a_scope i))))"
proof (cases "mem_live w (a_scope i)")
  case None
  then have "mem_acquireLease i w = mem_acquire_free i w"
    by (auto simp: mem_acquireLease_def mem_live_def live_def split: option.splits if_splits)
  then show ?thesis using mem_acquire_free_cell [OF assms] None by simp
next
  case (Some l)
  then have stored: "js_get (mc_leases w) (a_scope i) = Some l" "mc_now w < sl_expiresAt l"
    by (auto simp: mem_live_def live_def split: option.splits if_splits)
  have ok: "lease_ok l" using assms(1) stored(1) by (auto simp: mem_inv_def)
  let ?r = "mc_newId w (mc_next w)" and ?l = "joined_lease (mc_now w) (mc_newId w (mc_next w)) i l"
  let ?w = "w\<lparr>mc_next := mc_next w + 1, mc_leases := js_set (a_scope i) ?l (mc_leases w)\<rparr>"
  have ne: "?r \<noteq> []" using assms(1) by (simp add: mem_inv_def)
  show ?thesis
  proof (cases "joins i l")
    case True
    have jok: "lease_ok ?l" using joined_lease_ok [OF ne assms(2) ok] True by (simp add: joins_def)
    have "mem_acquireLease i w = (Inr (fst (cell_acquire (mc_now w) t ?r i (Some l))), ?w)" for t
      using True stored jok
      by (auto simp: mem_acquireLease_def cell_acquire_def joins_def joined_lease_def Let_def cell_reply_def
          lease_ok_def intro!: iso_reply_ok)
    moreover have "mem_inv ?w" using assms(1) jok by (simp add: mem_inv_def)
    moreover have "mem_live ?w = (mem_live w)(a_scope i := snd (cell_acquire (mc_now w) t ?r i (Some l)))" for t
      using True stored(2) by (simp add: mem_live_def [abs_def] live_fun_upd cell_acquire_def Let_def live_Some joined_lease_def less_max_iff_disj)
    ultimately show ?thesis using ne unfolding Some by (intro exI [of _ "[]"] exI [of _ ?r] exI [of _ ?w]) simp
  next
    case False
    have "mem_acquireLease i w = (Inr (cell_reply (a_scope i) l None False), w)"
      using False stored ok
      by (auto simp: mem_acquireLease_def joins_def cell_reply_def lease_ok_def intro!: iso_reply_ok)
    then show ?thesis using assms(1) ne unfolding Some cell_acquire_refuses [OF False]
      by (intro exI [of _ "[]"] exI [of _ ?r] exI [of _ w]) (auto simp: Some fun_upd_idem)
  qed
qed

lemma mem_renew_cell:
  assumes "mem_inv w" "time_ok (mc_now w + rn_ttlMs n)"
  shows "\<exists>r w'. mem_renewLease n w = (Inr r, w') \<and> mem_inv w' \<and> mc_now w' = mc_now w
    \<and> cl_acquired r = cell_member n (mem_live w (rl_scope n))
    \<and> (\<forall>l. cl_acquired r \<and> cell_renew (mc_now w) n (mem_live w (rl_scope n)) = Some l \<longrightarrow> r = cell_reply (rl_scope n) l None True)
    \<and> mem_live w' = (mem_live w)(rl_scope n := cell_renew (mc_now w) n (mem_live w (rl_scope n)))"
proof (cases "cell_member n (mem_live w (rl_scope n))")
  case True
  then obtain l where l: "mem_live w (rl_scope n) = Some l" by (auto simp: cell_member_def split: option.splits)
  then have stored: "js_get (mc_leases w) (rl_scope n) = Some l" "mc_now w < sl_expiresAt l"
    by (auto simp: mem_live_def live_def split: option.splits if_splits)
  let ?l = "l\<lparr>sl_expiresAt := max (sl_expiresAt l) (mc_now w + rn_ttlMs n)\<rparr>"
  have ok: "lease_ok ?l"
    using assms stored(1) by (auto simp: mem_inv_def intro!: extended_lease_ok)
  have c: "cell_renew (mc_now w) n (mem_live w (rl_scope n)) = Some ?l" using True l by (simp add: cell_renew_def)
  have "mem_renewLease n w = (Inr (cell_reply (rl_scope n) ?l None True), w\<lparr>mc_leases := js_set (rl_scope n) ?l (mc_leases w)\<rparr>)"
    using True stored ok
    by (auto simp: mem_renewLease_def l cell_member_def cell_reply_def Let_def lease_ok_def intro!: iso_reply_ok)
  moreover have "mem_inv (w\<lparr>mc_leases := js_set (rl_scope n) ?l (mc_leases w)\<rparr>)" using assms(1) ok by (simp add: mem_inv_def)
  ultimately show ?thesis unfolding c using True stored(2)
    by (auto simp: mem_live_def [abs_def] live_fun_upd live_Some cell_reply_def lease_reply_def)
next
  case False
  have "\<exists>t. mem_renewLease n w = (Inr (lease_reply (rl_scope n) (rl_holderId n) (rl_token n) None False t), w)"
  proof (cases "js_get (mc_leases w) (rl_scope n)")
    case None
    then show ?thesis using assms(1) by (auto simp: mem_renewLease_def mem_inv_def iso_reply_ok)
  next
    case (Some l)
    then have "time_ok (sl_expiresAt l)" using assms(1) by (auto simp: mem_inv_def lease_ok_def)
    then show ?thesis using Some False
      by (auto simp: mem_renewLease_def mem_live_def live_def cell_member_def iso_reply_ok)
  qed
  moreover have "cell_renew (mc_now w) n (mem_live w (rl_scope n)) = mem_live w (rl_scope n)"
    using False by (simp add: cell_renew_def)
  ultimately show ?thesis using False assms(1) by (auto simp: lease_reply_def fun_upd_idem)
qed

lemma mem_release_cell:
  assumes "mem_inv w"
  shows "\<exists>b w'. mem_releaseLease d w = (Inr b, w') \<and> mem_inv w' \<and> mc_now w' = mc_now w
    \<and> (mem_live w (rl_scope d) \<noteq> None \<longrightarrow> b = cell_member d (mem_live w (rl_scope d)))
    \<and> mem_live w' = (mem_live w)(rl_scope d := cell_release d (mem_live w (rl_scope d)))"
proof (cases "js_get (mc_leases w) (rl_scope d)")
  case None
  then have "mem_live w (rl_scope d) = None" by (simp add: mem_live_def)
  then show ?thesis using None assms by (auto simp: mem_releaseLease_def cell_release_def fun_upd_idem)
next
  case (Some l)
  let ?rem = "filter (\<lambda>r. Some r \<noteq> rl_referenceId d) (sl_referenceIds l)"
  have ok: "lease_ok l" using assms Some by (auto simp: mem_inv_def)
  have view: "mem_live w (rl_scope d) = (if mc_now w < sl_expiresAt l then Some l else None)"
    using Some by (simp add: mem_live_def live_Some)
  show ?thesis
  proof (cases "cell_member d (Some l)")
    case True
    then have owner: "sl_holderId l = rl_holderId d" "sl_token l = rl_token d"
      "sl_referenceIds l \<noteq> [] \<longrightarrow> member_of (sl_referenceIds l) (rl_referenceId d)" by (auto simp: cell_member_def)
    show ?thesis
    proof (cases "?rem = []")
      case True
      then have "mem_releaseLease d w = (Inr True, w\<lparr>mc_leases := js_delete (rl_scope d) (mc_leases w)\<rparr>)"
        using Some owner by (cases "sl_referenceIds l = []") (simp_all add: mem_releaseLease_def Let_def)
      moreover have "cell_release d (mem_live w (rl_scope d)) = None"
        using True \<open>cell_member d (Some l)\<close> unfolding view by (simp add: cell_release_def)
      moreover have "mem_live w (rl_scope d) \<noteq> None \<longrightarrow> cell_member d (mem_live w (rl_scope d))"
        using \<open>cell_member d (Some l)\<close> unfolding view by simp
      ultimately show ?thesis using assms by (simp add: mem_inv_def mem_live_def [abs_def] live_fun_upd) blast
    next
      case False
      have "sl_referenceIds l \<noteq> []" using False by auto
      then have "mem_releaseLease d w =
          (Inr True, w\<lparr>mc_leases := js_set (rl_scope d) (l\<lparr>sl_referenceIds := ?rem\<rparr>) (mc_leases w)\<rparr>)"
        using Some owner False by (simp add: mem_releaseLease_def Let_def)
      moreover have "cell_release d (mem_live w (rl_scope d)) = live (mc_now w) (Some (l\<lparr>sl_referenceIds := ?rem\<rparr>))"
        using False \<open>cell_member d (Some l)\<close> unfolding view by (simp add: cell_release_def live_Some)
      moreover have "mem_live w (rl_scope d) \<noteq> None \<longrightarrow> cell_member d (mem_live w (rl_scope d))"
        using \<open>cell_member d (Some l)\<close> unfolding view by simp
      ultimately show ?thesis using assms reduced_lease_ok [OF ok False]
        by (simp add: mem_inv_def mem_live_def [abs_def] live_fun_upd) blast
    qed
  next
    case False
    then have "mem_releaseLease d w = (Inr False, w)"
      using Some by (auto simp: mem_releaseLease_def cell_member_def Let_def)
    then show ?thesis using False assms by (auto simp: view cell_release_def fun_upd_idem)
  qed
qed

lemma live_live: "t \<le> u \<Longrightarrow> live u (live t c) = live u c"
  by (auto simp: live_def split: option.splits)

interpretation memory: capsule_coordination InMemoryCapsuleCoordination mc_now mem_elapse mem_inv mem_live
proof (unfold_locales, goal_cases)
  case (1 w i)
  then show ?case using mem_acquire_cell by (simp add: InMemoryCapsuleCoordination_def)
next
  case (2 w n)
  then show ?case using mem_renew_cell by (simp add: InMemoryCapsuleCoordination_def)
next
  case (3 w d)
  then show ?case using mem_release_cell by (simp add: InMemoryCapsuleCoordination_def)
next
  case (4 w t)
  then show ?case by (auto simp: mem_inv_def mem_elapse_def mem_live_def live_live)
next
  case (5 w k l)
  then show ?case by (auto simp: mem_inv_def mem_live_def live_def lease_ok_def split: option.splits if_splits)
qed

section \<open>The client under any coordinator that keeps the promise\<close>

text \<open>What the client relies on of its host: a delay lasts at least the requested and at most
  \<open>slack\<close> more milliseconds, and what others do meanwhile are coordinator steps.\<close>

definition host_ok :: "'w host \<Rightarrow> ('w \<Rightarrow> int) \<Rightarrow> ('w \<Rightarrow> bool) \<Rightarrow> ('w \<Rightarrow> 'w \<Rightarrow> bool) \<Rightarrow> int \<Rightarrow> bool" where
  "host_ok h now ok step slack \<longleftrightarrow> host_now h = now \<and> 0 \<le> slack
     \<and> (\<forall>ms w. 0 < ms \<and> ok w \<and> time_ok (now w + ms + slack) \<longrightarrow> step\<^sup>*\<^sup>* w (host_delay h ms w)
          \<and> now w + ms \<le> now (host_delay h ms w) \<and> now (host_delay h ms w) \<le> now w + ms + slack)"

definition acquired_by :: "acquire_input \<Rightarrow> capsule_lease \<Rightarrow> (string \<Rightarrow> stored_lease option) \<Rightarrow> bool" where
  "acquired_by i lease cells \<longleftrightarrow> cl_token lease \<noteq> [] \<and> truthy_ref (cl_referenceId lease) = cl_referenceId lease
     \<and> (\<exists>l. cells (a_scope i) = Some l \<and> sl_holderId l = a_holderId i \<and> sl_token l = cl_token lease
          \<and> holds (cl_referenceId lease) l)"

lemma time_ok_between: "time_ok a \<Longrightarrow> time_ok b \<Longrightarrow> a \<le> t \<Longrightarrow> t \<le> b \<Longrightarrow> time_ok t"
  by (auto simp: time_ok_def time_clip_def split: if_splits)

lemma cell_release_not_member: "\<not> cell_member d (cell_release d c)"
  by (auto simp: cell_release_def cell_member_def member_of_def Let_def filter_empty_conv split: option.splits)

context capsule_coordination
begin

abbreviation "any_step \<equiv> coord_step co now elapse (\<lambda>_. True)"

lemma acquire_result:
  assumes "inv w" "acquire_valid i" "0 < a_ttlMs i" "time_ok (now w + a_ttlMs i)"
  obtains lease w' where "co_acquire co i w = (Inr lease, w')" "any_step w w'" "inv w'" "now w' = now w"
    "cl_acquired lease \<Longrightarrow> acquired_by i lease (leases w')"
proof -
  from acquire [OF assms(1,2,4)] obtain token ref w' where
    a: "co_acquire co i w = (Inr (fst (cell_acquire (now w) token ref i (leases w (a_scope i)))), w')" "ref \<noteq> []"
      "inv w'" "now w' = now w"
      "leases w' = (leases w)(a_scope i := snd (cell_acquire (now w) token ref i (leases w (a_scope i))))" by blast
  let ?c = "cell_acquire (now w) token ref i (leases w (a_scope i))"
  have "acquired_by i (fst ?c) (leases w')" if "cl_acquired (fst ?c)"
    using that a(2) assms(3) token [OF a(3), of "a_scope i"]
    by (auto simp: a(5) acquired_by_def cell_acquire_def joins_def fresh_lease_def joined_lease_def live_Some holds_def
        truthy_ref_def cell_reply_def lease_reply_def js_set_add_def Let_def split: option.splits if_splits)
  moreover have "any_step w w'" using assms(2,4) a(1) by (rule step_acquire)
  ultimately show ?thesis using that [OF a(1) _ a(3,4)] by blast
qed

lemma wait_returns:
  assumes h: "host_ok h now inv any_step slack" and i: "acquire_valid i" "0 < a_ttlMs i"
    and st: "time_ok st" "time_ok (st + joined_wait_total_ms + slack + a_ttlMs i)"
  shows "inv w \<Longrightarrow> st \<le> now w \<Longrightarrow> 0 < delayMs \<Longrightarrow> \<not> cl_acquired lease \<Longrightarrow>
    \<exists>lease' w'. acquire_wait h co i st delayMs lease w = Some (Inr lease', w') \<and> any_step\<^sup>*\<^sup>* w w'
      \<and> now w' \<le> max (now w) (st + joined_wait_total_ms + slack)
      \<and> (cl_acquired lease' \<longrightarrow> acquired_by i lease' (leases w'))"
proof (induction "nat (joined_wait_total_ms - (now w - st))" arbitrary: delayMs lease w rule: less_induct)
  case less
  show ?case
  proof (cases "now w - st < joined_wait_total_ms")
    case False
    then show ?thesis using h less.prems(4) by (subst acquire_wait.simps) (auto simp: host_ok_def)
  next
    case True
    let ?ms = "min delayMs (joined_wait_total_ms - (now w - st))"
    let ?w1 = "host_delay h ?ms w"
    have ms: "0 < ?ms" "now w + ?ms \<le> st + joined_wait_total_ms" using True less.prems(3) by auto
    have "time_ok (now w + ?ms + slack)"
      using time_ok_between [OF st] ms less.prems(2) h i(2) by (auto simp: host_ok_def)
    then have d: "any_step\<^sup>*\<^sup>* w ?w1" "now w + ?ms \<le> now ?w1" "now ?w1 \<le> now w + ?ms + slack"
      using h ms(1) less.prems(1) by (auto simp: host_ok_def)
    have "inv ?w1" using steps_inv [OF d(1) less.prems(1)] by simp
    moreover have "time_ok (now ?w1 + a_ttlMs i)"
      using time_ok_between [OF st] d(2,3) ms less.prems(2) i(2) by auto
    ultimately obtain lease1 w2 where a: "co_acquire co i ?w1 = (Inr lease1, w2)" "any_step ?w1 w2" "inv w2"
      "now w2 = now ?w1" "cl_acquired lease1 \<Longrightarrow> acquired_by i lease1 (leases w2)"
      using acquire_result i by metis
    have steps: "any_step\<^sup>*\<^sup>* w w2" using d(1) a(2) by simp
    have now: "host_now h w = now w" using h by (simp add: host_ok_def)
    have bound: "now w2 \<le> st + joined_wait_total_ms + slack" using a(4) d(3) ms(2) by simp
    show ?thesis
    proof (cases "cl_acquired lease1 \<or> cl_holderId lease1 \<noteq> a_holderId i")
      case stop: True
      then show ?thesis using True a steps now bound by (subst acquire_wait.simps) (auto simp: Let_def)
    next
      case retry: False
      have "\<exists>lease' w'. acquire_wait h co i st (min (delayMs * 2) joined_wait_max_ms) lease1 w2 = Some (Inr lease', w')
          \<and> any_step\<^sup>*\<^sup>* w2 w' \<and> now w' \<le> max (now w2) (st + joined_wait_total_ms + slack)
          \<and> (cl_acquired lease' \<longrightarrow> acquired_by i lease' (leases w'))"
        using less.prems(2,3) d(2) ms(1) retry True a(3,4)
        by (intro less.hyps) (auto simp: joined_wait_max_ms_def)
      then show ?thesis using True a(1) steps now retry bound
        by (subst acquire_wait.simps) (auto simp: Let_def dest: rtranclp_trans)
    qed
  qed
qed

lemma scoped_acquire_returns:
  assumes "host_ok h now inv any_step slack" "inv w" "sc \<noteq> []" "holder \<noteq> []" "0 < ttl" "time_ok (now w)"
    "time_ok (now w + joined_wait_total_ms + slack + ttl)"
  obtains lease w' where "acquireScopedLease h co sc holder ttl join w = Some (Inr lease, w')" "any_step\<^sup>*\<^sup>* w w'"
    "now w' \<le> now w + joined_wait_total_ms + slack"
    "cl_acquired lease \<Longrightarrow> acquired_by \<lparr>a_scope = sc, a_holderId = holder, a_ttlMs = ttl,
        a_joinExistingHolder = (if join = Some True then Some True else None)\<rparr> lease (leases w')"
proof -
  let ?i = "\<lparr>a_scope = sc, a_holderId = holder, a_ttlMs = ttl,
        a_joinExistingHolder = (if join = Some True then Some True else None)\<rparr>"
  have h: "host_now h = now" "0 \<le> slack" using assms(1) by (auto simp: host_ok_def)
  have t: "time_ok (now w + a_ttlMs ?i)"
    using time_ok_between [OF assms(6,7)] assms(5) h(2) by (simp add: joined_wait_total_ms_def)
  obtain lease1 w1 where a: "co_acquire co ?i w = (Inr lease1, w1)" "any_step w w1" "inv w1" "now w1 = now w"
    "cl_acquired lease1 \<Longrightarrow> acquired_by ?i lease1 (leases w1)"
    using acquire_result [OF assms(2), of ?i] assms(3-5) t by (auto simp: acquire_valid_def)
  show ?thesis
  proof (cases "cl_acquired lease1 \<or> join \<noteq> Some True \<or> cl_holderId lease1 \<noteq> holder")
    case True
    then show ?thesis using that [of lease1 w1] a h(2) by (auto simp: acquireScopedLease_def Let_def joined_wait_total_ms_def)
  next
    case False
    then have "\<exists>lease' w'. acquire_wait h co ?i (now w1) joined_wait_initial_ms lease1 w1 = Some (Inr lease', w')
        \<and> any_step\<^sup>*\<^sup>* w1 w' \<and> now w' \<le> max (now w1) (now w1 + joined_wait_total_ms + slack)
        \<and> (cl_acquired lease' \<longrightarrow> acquired_by ?i lease' (leases w'))"
      using assms(3-7) a(3,4) by (intro wait_returns [OF assms(1)]) (auto simp: joined_wait_initial_ms_def acquire_valid_def)
    then obtain lease' w' where "acquire_wait h co ?i (now w1) joined_wait_initial_ms lease1 w1 = Some (Inr lease', w')"
      "any_step\<^sup>*\<^sup>* w1 w'" "now w' \<le> max (now w1) (now w1 + joined_wait_total_ms + slack)"
      "cl_acquired lease' \<longrightarrow> acquired_by ?i lease' (leases w')" by blast
    moreover have "max (now w1) (now w1 + joined_wait_total_ms + slack) = now w + joined_wait_total_ms + slack"
      using a(4) h(2) by (simp add: joined_wait_total_ms_def)
    ultimately show ?thesis using that [of lease' w'] False a(1,2) h(1)
      by (auto simp: acquireScopedLease_def Let_def intro: converse_rtranclp_into_rtranclp)
  qed
qed

end

context capsule_coordination
begin

text \<open>The leased section: it is refused without running, or it runs while its holder holds the
  lease and gives its membership up on every exit.\<close>

lemma with_lease:
  assumes "host_ok h now inv any_step slack" "inv w" "sc \<noteq> []" "holder \<noteq> []" "0 < ttl" "time_ok (now w)"
    "time_ok (now w + joined_wait_total_ms + slack + ttl)"
    and work: "\<And>hd w1. inv w1 \<Longrightarrow> any_step\<^sup>*\<^sup>* w1 (snd (work hd w1))"
  shows "(\<exists>other w'. withScopedLease h co sc holder (Some ttl) join work w = Some (Inl (CapsuleLeaseBusyError sc other), w')
        \<and> any_step\<^sup>*\<^sup>* w w')
    \<or> (\<exists>hd ref w1 l w'. lh_scope hd = sc \<and> lh_holderId hd = holder
        \<and> any_step\<^sup>*\<^sup>* w w1 \<and> leases w1 sc = Some l \<and> sl_holderId l = holder \<and> sl_token l = lh_token hd \<and> holds ref l
        \<and> withScopedLease h co sc holder (Some ttl) join work w = Some (fst (work hd w1), w')
        \<and> \<not> cell_member \<lparr>rl_scope = sc, rl_holderId = holder, rl_token = lh_token hd, rl_referenceId = ref\<rparr> (leases w' sc))"
proof -
  obtain lease w1 where a: "acquireScopedLease h co sc holder ttl join w = Some (Inr lease, w1)" "any_step\<^sup>*\<^sup>* w w1"
    "cl_acquired lease \<Longrightarrow> acquired_by \<lparr>a_scope = sc, a_holderId = holder, a_ttlMs = ttl,
        a_joinExistingHolder = (if join = Some True then Some True else None)\<rparr> lease (leases w1)"
    using scoped_acquire_returns [OF assms(1-7)] by blast
  show ?thesis
  proof (cases "cl_acquired lease")
    case False
    then show ?thesis using a(1,2) by (auto simp: withScopedLease_def Let_def)
  next
    case True
    let ?held = "\<lparr>rl_scope = sc, rl_holderId = holder, rl_token = cl_token lease, rl_referenceId = cl_referenceId lease\<rparr>"
    from a(3) [OF True] obtain l where l: "truthy_ref (cl_referenceId lease) = cl_referenceId lease" "cl_token lease \<noteq> []"
      "leases w1 sc = Some l" "sl_holderId l = holder" "sl_token l = cl_token lease" "holds (cl_referenceId lease) l"
      by (auto simp: acquired_by_def)
    let ?hd = "\<lparr>lh_scope = sc, lh_holderId = holder, lh_token = cl_token lease,
      lh_renew = (\<lambda>renewTtl. co_renew co (release_input.extend ?held
         (renew_input.fields (case renewTtl of Some t \<Rightarrow> t | None \<Rightarrow> ttl))))\<rparr>"
    let ?w2 = "snd (work ?hd w1)"
    have "inv w1" using steps_inv [OF a(2) assms(2)] by simp
    then have "inv ?w2" using steps_inv [OF work] by simp
    moreover have "handle_valid ?held" using assms(3,4) l(1,2)
      by (auto simp: handle_valid_def truthy_ref_def split: option.splits if_splits)
    ultimately obtain b w3 where r: "co_release co ?held ?w2 = (Inr b, w3)"
      "leases w3 = (leases ?w2)(sc := cell_release ?held (leases ?w2 sc))"
      using release [of ?w2 ?held] by auto
    have "withScopedLease h co sc holder (Some ttl) join work w = Some (fst (work ?hd w1), w3)"
      using True a(1) r(1) by (simp add: withScopedLease_def Let_def l(1) split_beta)
    moreover have "\<not> cell_member ?held (leases w3 sc)" by (simp add: r(2) cell_release_not_member)
    ultimately show ?thesis using a(2) l(3-6)
      by (intro disjI2 exI [of _ ?hd] exI [of _ "cl_referenceId lease"] exI [of _ w1] exI [of _ l] exI [of _ w3]) simp
  qed
qed

end

end
