(* ===== verification/Json.thy ===== *)
theory Json
  imports Js_Date
begin

text \<open>
  JSON values as \<open>JSON.parse\<close> delivers them: an object is a map of its keys, numbers are the
  integral ones. \<open>String(value ?? "")\<close> is the text the coordination object derives from an
  untyped field.
\<close>

datatype json = JNull | JBool bool | JNum int | JStr string | JArr "json list" | JObj "(string \<times> json) list"

text \<open>\<open>body[field]\<close>: absent is \<^const>\<open>None\<close>.\<close>

definition json_field :: "(string \<times> json) list \<Rightarrow> string \<Rightarrow> json option" where
  "json_field body k = js_get body k"

text \<open>\<open>String(v)\<close>, where an array joins its elements and a null element is empty.\<close>

fun js_string :: "json \<Rightarrow> string" where
  "js_string JNull = ''null''"
| "js_string (JBool b) = (if b then ''true'' else ''false'')"
| "js_string (JNum n) = show_int n"
| "js_string (JStr s) = s"
| "js_string (JArr xs) = join_with '','' (map (\<lambda>x. if x = JNull then [] else js_string x) xs)"
| "js_string (JObj _) = ''[object Object]''"

text \<open>The values that count as false in a condition.\<close>

definition js_falsy :: "json option \<Rightarrow> bool" where
  "js_falsy v \<longleftrightarrow> v \<in> {None, Some JNull, Some (JBool False), Some (JNum 0), Some (JStr [])}"

definition string_or_empty :: "json option \<Rightarrow> string" where
  "string_or_empty v = (case v of None \<Rightarrow> [] | Some JNull \<Rightarrow> [] | Some j \<Rightarrow> js_string j)"

end
