(* ===== verification/Coordination_Object.thy ===== *)
theory Coordination_Object
  imports Capsule_Lease Json
begin

text \<open>
  The Durable Object that coordinates the hosted control plane
  (\<open>worker/src/durable/CoordinationObject.ts\<close>): leases and alarms in Durable Object
  storage, the request decoding and the answers of \<open>fetch\<close>, and the adapter
  \<open>durableObjectCapsuleCoordination\<close> of \<open>worker/src/worker_service.ts\<close> that fronts it as a
  \<open>CapsuleCoordination\<close>. The storage is the platform's: its operations are an argument, and
  the locale \<open>durable_storage\<close> states what the object relies on. The clock does not move
  during a request, and requests do not interleave (the platform's input gate).
\<close>

section \<open>Storage\<close>

record coordination_alarm =
  al_id :: string
  al_scope :: string
  al_fireAt :: string
  al_payload :: "json option"

record coordination_stored =
  cs_scope :: string
  cs_holderId :: string
  cs_token :: string
  cs_expiresAt :: string
  cs_metadata :: "json option"
  cs_joinable :: "bool option"
  cs_activeReferenceIds :: "string list option"

datatype do_value = VLease coordination_stored | VAlarm coordination_alarm

record 's storage =
  st_get :: "string \<Rightarrow> 's \<Rightarrow> do_value option"
  st_put :: "string \<Rightarrow> do_value \<Rightarrow> 's \<Rightarrow> 's"
  st_delete :: "string \<Rightarrow> 's \<Rightarrow> 's"
  st_list :: "string \<Rightarrow> 's \<Rightarrow> (string \<times> do_value) list"
  st_setAlarm :: "(int \<Rightarrow> 's \<Rightarrow> 's) option"
  st_deleteAlarm :: "('s \<Rightarrow> 's) option"

record 's do_world =
  do_now :: int
  do_newId :: "nat \<Rightarrow> string"
  do_next :: nat
  do_ops :: "'s storage"
  do_storage :: 's

definition leaseKey :: "string \<Rightarrow> string" where
  "leaseKey sc = ''lease:'' @ sc"

definition alarmKey :: "string \<Rightarrow> string" where
  "alarmKey k = ''alarm:'' @ k"

definition storage_put :: "string \<Rightarrow> do_value \<Rightarrow> 's do_world \<Rightarrow> 's do_world" where
  "storage_put k v w = w\<lparr>do_storage := st_put (do_ops w) k v (do_storage w)\<rparr>"

definition storage_delete :: "string \<Rightarrow> 's do_world \<Rightarrow> 's do_world" where
  "storage_delete k w = w\<lparr>do_storage := st_delete (do_ops w) k (do_storage w)\<rparr>"

section \<open>Leases\<close>

record coordination_lease = capsule_lease +
  cr_metadata :: "json option"

record coordination_lease_input = acquire_input +
  ci_metadata :: "json option"

definition coordinationLeaseResponse ::
    "coordination_stored \<Rightarrow> bool \<Rightarrow> string option \<Rightarrow> coordination_lease" where
  "coordinationLeaseResponse lease acquired referenceId =
     \<lparr>cl_scope = cs_scope lease, cl_holderId = cs_holderId lease, cl_token = cs_token lease,
      cl_referenceId = truthy_ref referenceId, cl_acquired = acquired, cl_expiresAt = cs_expiresAt lease,
      cr_metadata = cs_metadata lease\<rparr>"

definition active_refs :: "coordination_stored \<Rightarrow> string list" where
  "active_refs lease = (case cs_activeReferenceIds lease of Some refs \<Rightarrow> refs | None \<Rightarrow> [])"

definition normalizeStoredLease :: "coordination_stored \<Rightarrow> coordination_stored" where
  "normalizeStoredLease lease =
     (let refs = (if cs_joinable lease = Some True
                  then js_dedup (filter (\<lambda>r. r \<noteq> []) (active_refs lease)) else [])
      in lease\<lparr>cs_joinable := Some (refs \<noteq> []), cs_activeReferenceIds := Some refs\<rparr>)"

text \<open>An unparsable expiry is \<open>NaN\<close>, which is not \<open><=\<close> any time: such a row never expires here.\<close>

definition parsed_le :: "string \<Rightarrow> int \<Rightarrow> bool" where
  "parsed_le s t \<longleftrightarrow> (case date_parse s of None \<Rightarrow> False | Some u \<Rightarrow> u \<le> t)"

definition getStoredLease :: "string \<Rightarrow> 's do_world \<Rightarrow> coordination_stored option \<times> 's do_world" where
  "getStoredLease sc w =
     (if sc = [] then (None, w)
      else case st_get (do_ops w) (leaseKey sc) (do_storage w) of
        Some (VLease lease) \<Rightarrow>
          if parsed_le (cs_expiresAt lease) (do_now w) then (None, storage_delete (leaseKey sc) w)
          else (Some (normalizeStoredLease lease), w)
      | _ \<Rightarrow> (None, w))"

text \<open>\<open>new Date(Math.max(Date.parse(expiresAt), t)).toISOString()\<close>.\<close>

definition extended_expiry :: "string \<Rightarrow> int \<Rightarrow> string option" where
  "extended_expiry expiresAt t =
     (case date_parse expiresAt of None \<Rightarrow> None | Some u \<Rightarrow> to_iso_string (max u t))"

definition do_acquire_free ::
    "coordination_lease_input \<Rightarrow> 's do_world \<Rightarrow> (lease_error + coordination_lease) \<times> 's do_world" where
  "do_acquire_free input w =
     (let joinable = (a_joinExistingHolder input = Some True);
          referenceId = (if joinable then Some (do_newId w (do_next w)) else None);
          token = do_newId w (do_next w + (if joinable then 1 else 0));
          w = w\<lparr>do_next := do_next w + (if joinable then 2 else 1)\<rparr>
      in case to_iso_string (do_now w + a_ttlMs input) of
           None \<Rightarrow> (Inl TimeRangeError, w)
         | Some expiresAt \<Rightarrow>
             (let lease = \<lparr>cs_scope = a_scope input, cs_holderId = a_holderId input, cs_token = token,
                 cs_expiresAt = expiresAt, cs_metadata = ci_metadata input, cs_joinable = Some joinable,
                 cs_activeReferenceIds = map_option (\<lambda>r. [r]) (truthy_ref referenceId)\<rparr>
              in (Inr (coordinationLeaseResponse lease True referenceId),
                  storage_put (leaseKey (a_scope input)) (VLease lease) w)))"

definition do_acquireLease ::
    "coordination_lease_input \<Rightarrow> 's do_world \<Rightarrow> (lease_error + coordination_lease) \<times> 's do_world" where
  "do_acquireLease input w =
     (case getStoredLease (a_scope input) w of
        (Some existing, w) \<Rightarrow>
          if a_joinExistingHolder input = Some True \<and> cs_joinable existing = Some True
             \<and> cs_holderId existing = a_holderId input
             \<and> length (active_refs existing) < max_joined_references
          then
            (let referenceId = do_newId w (do_next w); w = w\<lparr>do_next := do_next w + 1\<rparr>
             in case extended_expiry (cs_expiresAt existing) (do_now w + a_ttlMs input) of
                  None \<Rightarrow> (Inl TimeRangeError, w)
                | Some expiresAt \<Rightarrow>
                    (let lease = existing\<lparr>cs_expiresAt := expiresAt,
                       cs_activeReferenceIds := Some (js_dedup (active_refs existing @ [referenceId]))\<rparr>
                     in (Inr (coordinationLeaseResponse lease True (Some referenceId)),
                         storage_put (leaseKey (a_scope input)) (VLease lease) w)))
          else (Inr (coordinationLeaseResponse existing False None), w)
      | (None, w) \<Rightarrow> do_acquire_free input w)"

definition do_renewLease ::
    "renew_input \<Rightarrow> 's do_world \<Rightarrow> (lease_error + coordination_lease) \<times> 's do_world" where
  "do_renewLease input w =
     (let denied = (\<lambda>expiresAt. Inr (capsule_lease.extend
            (lease_reply (rl_scope input) (rl_holderId input) (rl_token input) None False expiresAt)
            (coordination_lease.fields None))) in
      case getStoredLease (rl_scope input) w of
        (None, w) \<Rightarrow> (denied (iso_string 0), w)
      | (Some existing, w) \<Rightarrow>
          if cs_holderId existing \<noteq> rl_holderId input \<or> cs_token existing \<noteq> rl_token input
             \<or> active_refs existing \<noteq> [] \<and> \<not> member_of (active_refs existing) (rl_referenceId input)
          then (denied (cs_expiresAt existing), w)
          else case extended_expiry (cs_expiresAt existing) (do_now w + rn_ttlMs input) of
            None \<Rightarrow> (Inl TimeRangeError, w)
          | Some expiresAt \<Rightarrow>
              (let lease = existing\<lparr>cs_expiresAt := expiresAt\<rparr>
               in (Inr (coordinationLeaseResponse lease True None),
                   storage_put (leaseKey (rl_scope input)) (VLease lease) w)))"

definition do_releaseLease :: "release_input \<Rightarrow> 's do_world \<Rightarrow> bool \<times> 's do_world" where
  "do_releaseLease input w =
     (case getStoredLease (rl_scope input) w of
        (None, w) \<Rightarrow> (False, w)
      | (Some existing, w) \<Rightarrow>
          if cs_holderId existing \<noteq> rl_holderId input \<or> cs_token existing \<noteq> rl_token input then (False, w)
          else
            (let refs = active_refs existing; remaining = filter (\<lambda>r. Some r \<noteq> rl_referenceId input) refs in
             if refs \<noteq> [] \<and> \<not> member_of refs (rl_referenceId input) then (False, w)
             else if refs \<noteq> [] \<and> remaining \<noteq> []
             then (True, storage_put (leaseKey (rl_scope input))
                     (VLease (existing\<lparr>cs_activeReferenceIds := Some remaining\<rparr>)) w)
             else (True, storage_delete (leaseKey (rl_scope input)) w)))"

definition do_getLease :: "string \<Rightarrow> 's do_world \<Rightarrow> coordination_lease option \<times> 's do_world" where
  "do_getLease sc w =
     (case getStoredLease sc w of
        (Some lease, w) \<Rightarrow> (Some (coordinationLeaseResponse lease True None), w)
      | (None, w) \<Rightarrow> (None, w))"

section \<open>Alarms\<close>

definition stored_alarms :: "'s do_world \<Rightarrow> (string \<times> coordination_alarm) list" where
  "stored_alarms w = List.map_filter (\<lambda>(k, v). case v of VAlarm a \<Rightarrow> Some (k, a) | VLease _ \<Rightarrow> None)
     (st_list (do_ops w) ''alarm:'' (do_storage w))"

definition stored_leases :: "'s do_world \<Rightarrow> (string \<times> coordination_stored) list" where
  "stored_leases w = List.map_filter (\<lambda>(k, v). case v of VLease l \<Rightarrow> Some (k, l) | VAlarm _ \<Rightarrow> None)
     (st_list (do_ops w) ''lease:'' (do_storage w))"

definition earlier :: "int option \<Rightarrow> int \<Rightarrow> int option" where
  "earlier next t = (case next of None \<Rightarrow> Some t | Some n \<Rightarrow> if t < n then Some t else Some n)"

definition next_alarm :: "int option \<Rightarrow> coordination_alarm list \<Rightarrow> int option" where
  "next_alarm fallback alarms =
     fold (\<lambda>a next. case date_parse (al_fireAt a) of None \<Rightarrow> next | Some t \<Rightarrow> earlier next t) alarms fallback"

definition rescheduleDurableObjectAlarm :: "int option \<Rightarrow> 's do_world \<Rightarrow> int option \<times> 's do_world" where
  "rescheduleDurableObjectAlarm fallback w =
     (case st_setAlarm (do_ops w) of
        None \<Rightarrow> (None, w)
      | Some setAlarm \<Rightarrow>
          (case next_alarm fallback (map snd (stored_alarms w)) of
             None \<Rightarrow> (None, w\<lparr>do_storage := (case st_deleteAlarm (do_ops w) of None \<Rightarrow> do_storage w
                                            | Some deleteAlarm \<Rightarrow> deleteAlarm (do_storage w))\<rparr>)
           | Some t \<Rightarrow> (Some t, w\<lparr>do_storage := setAlarm t (do_storage w)\<rparr>)))"

definition scheduleAlarm :: "coordination_alarm \<Rightarrow> 's do_world \<Rightarrow> coordination_alarm \<times> 's do_world" where
  "scheduleAlarm input w =
     (input, snd (rescheduleDurableObjectAlarm None (storage_put (alarmKey (al_id input)) (VAlarm input) w)))"

definition cancelAlarm :: "string \<Rightarrow> 's do_world \<Rightarrow> bool \<times> 's do_world" where
  "cancelAlarm k w =
     (if k = [] then (False, w)
      else (st_get (do_ops w) (alarmKey k) (do_storage w) \<noteq> None,
            snd (rescheduleDurableObjectAlarm None (storage_delete (alarmKey k) w))))"

definition listAlarms :: "(string \<Rightarrow> string \<Rightarrow> int) \<Rightarrow> string option \<Rightarrow> 's do_world \<Rightarrow> coordination_alarm list" where
  "listAlarms localeCompare sc w =
     js_sort (\<lambda>l r. if localeCompare (al_fireAt l) (al_fireAt r) \<noteq> 0 then localeCompare (al_fireAt l) (al_fireAt r)
                    else localeCompare (al_id l) (al_id r))
       (filter (\<lambda>a. case sc of None \<Rightarrow> True | Some s \<Rightarrow> al_scope a = s) (map snd (stored_alarms w)))"

definition deleteExpiredLeases :: "int \<Rightarrow> 's do_world \<Rightarrow> 's do_world" where
  "deleteExpiredLeases nowMs w =
     fold (\<lambda>(k, l) w. if parsed_le (cs_expiresAt l) nowMs then storage_delete k w else w) (stored_leases w) w"

text \<open>An unparsable \<open>fireAt\<close> is \<open>NaN\<close>, which is not \<open>>\<close> any time: the alarm fires.\<close>

definition alarm_due :: "int \<Rightarrow> coordination_alarm \<Rightarrow> bool" where
  "alarm_due nowMs a \<longleftrightarrow> (case date_parse (al_fireAt a) of None \<Rightarrow> True | Some t \<Rightarrow> t \<le> nowMs)"

definition runDueAlarms :: "int \<Rightarrow> 's do_world \<Rightarrow> (lease_error + string list \<times> string option) \<times> 's do_world" where
  "runDueAlarms nowMs w =
     (let due = filter (\<lambda>p. alarm_due nowMs (snd p)) (stored_alarms w);
          w1 = fold storage_delete (map fst due) w;
          (nextAlarmMs, w2) = rescheduleDurableObjectAlarm None (deleteExpiredLeases nowMs w1);
          fired = js_sort code_unit_compare (map (al_id \<circ> snd) due)
      in case nextAlarmMs of
           None \<Rightarrow> (Inr (fired, None), w2)
         | Some t \<Rightarrow> (case to_iso_string t of None \<Rightarrow> (Inl TimeRangeError, w2) | Some s \<Rightarrow> (Inr (fired, Some s), w2)))"

definition alarm :: "'s do_world \<Rightarrow> 's do_world" where
  "alarm w = (case runDueAlarms (do_now w) w of
      (Inr _, w1) \<Rightarrow> w1
    | (Inl _, w1) \<Rightarrow> snd (rescheduleDurableObjectAlarm (Some (do_now w1 + 60000)) w1))"

section \<open>Requests\<close>

text \<open>A request body that \<open>request.json()\<close> rejects is \<^const>\<open>None\<close>. A decoding error is
  \<open>InvalidCoordinationRequestError\<close>.\<close>

record do_request =
  rq_pathname :: string
  rq_method :: string
  rq_body :: "json option"

datatype do_result = RLease coordination_lease | RBool bool | RLeaseOption "coordination_lease option"
  | RAlarm coordination_alarm | RAlarms "coordination_alarm list" | RDue "string list" "string option"

datatype do_body = Health | Failure string | Result do_result

record do_response =
  rs_status :: int
  rs_body :: do_body

datatype request_error = InvalidCoordinationRequestError

definition readJsonObject :: "json option \<Rightarrow> request_error + (string \<times> json) list" where
  "readJsonObject body = (case body of Some (JObj obj) \<Rightarrow> Inr obj | _ \<Rightarrow> Inl InvalidCoordinationRequestError)"

definition requireString :: "(string \<times> json) list \<Rightarrow> string \<Rightarrow> request_error + string" where
  "requireString body k =
     (case json_field body k of
        Some (JStr s) \<Rightarrow> if s = [] then Inl InvalidCoordinationRequestError else Inr s
      | _ \<Rightarrow> Inl InvalidCoordinationRequestError)"

definition requireNumber :: "(string \<times> json) list \<Rightarrow> string \<Rightarrow> request_error + int" where
  "requireNumber body k = (case json_field body k of Some (JNum n) \<Rightarrow> Inr n | _ \<Rightarrow> Inl InvalidCoordinationRequestError)"

definition optionalRecord :: "(string \<times> json) list \<Rightarrow> string \<Rightarrow> request_error + json option" where
  "optionalRecord body k =
     (case json_field body k of None \<Rightarrow> Inr None | Some JNull \<Rightarrow> Inr None
      | Some (JObj r) \<Rightarrow> Inr (Some (JObj r)) | _ \<Rightarrow> Inl InvalidCoordinationRequestError)"

definition optionalBoolean :: "(string \<times> json) list \<Rightarrow> string \<Rightarrow> request_error + bool option" where
  "optionalBoolean body k =
     (case json_field body k of None \<Rightarrow> Inr None | Some JNull \<Rightarrow> Inr None
      | Some (JBool b) \<Rightarrow> Inr (Some b) | _ \<Rightarrow> Inl InvalidCoordinationRequestError)"

definition optionalString :: "(string \<times> json) list \<Rightarrow> string \<Rightarrow> request_error + string option" where
  "optionalString body k =
     (case json_field body k of None \<Rightarrow> Inr None | Some JNull \<Rightarrow> Inr None
      | Some (JStr s) \<Rightarrow> if s = [] then Inl InvalidCoordinationRequestError else Inr (Some s)
      | _ \<Rightarrow> Inl InvalidCoordinationRequestError)"

definition parseLeaseInput :: "(string \<times> json) list \<Rightarrow> request_error + coordination_lease_input" where
  "parseLeaseInput body =
     chain (requireString body ''scope'') (\<lambda>sc.
     chain (requireString body ''holderId'') (\<lambda>holder.
     chain (requireNumber body ''ttlMs'') (\<lambda>ttl.
     chain (optionalRecord body ''metadata'') (\<lambda>metadata.
     chain (optionalBoolean body ''joinExistingHolder'') (\<lambda>join.
       Inr \<lparr>a_scope = sc, a_holderId = holder, a_ttlMs = ttl, a_joinExistingHolder = join, ci_metadata = metadata\<rparr>)))))"

definition parseReleaseInput :: "(string \<times> json) list \<Rightarrow> request_error + release_input" where
  "parseReleaseInput body =
     chain (requireString body ''scope'') (\<lambda>sc.
     chain (requireString body ''holderId'') (\<lambda>holder.
     chain (requireString body ''token'') (\<lambda>token.
     chain (optionalString body ''referenceId'') (\<lambda>ref.
       Inr \<lparr>rl_scope = sc, rl_holderId = holder, rl_token = token, rl_referenceId = ref\<rparr>))))"

definition parseRenewInput :: "(string \<times> json) list \<Rightarrow> request_error + renew_input" where
  "parseRenewInput body =
     chain (parseReleaseInput body) (\<lambda>held.
     chain (requireNumber body ''ttlMs'') (\<lambda>ttl.
       Inr (release_input.extend held (renew_input.fields ttl))))"

definition parseAlarmInput :: "(string \<times> json) list \<Rightarrow> request_error + coordination_alarm" where
  "parseAlarmInput body =
     chain (requireString body ''id'') (\<lambda>k.
     chain (requireString body ''scope'') (\<lambda>sc.
     chain (requireString body ''fireAt'') (\<lambda>fireAt.
     chain (optionalRecord body ''payload'') (\<lambda>payload.
       Inr \<lparr>al_id = k, al_scope = sc, al_fireAt = fireAt, al_payload = payload\<rparr>))))"

definition trimPath :: "string \<Rightarrow> string" where
  "trimPath p = rev (dropWhile (\<lambda>c. c = CHR ''/'') (rev (dropWhile (\<lambda>c. c = CHR ''/'') p)))"

definition answer :: "(lease_error + do_result) \<times> 's do_world \<Rightarrow> do_response \<times> 's do_world" where
  "answer r = (case r of
      (Inr v, w) \<Rightarrow> (\<lparr>rs_status = 200, rs_body = Result v\<rparr>, w)
    | (Inl _, w) \<Rightarrow> (\<lparr>rs_status = 503, rs_body = Failure ''coordination unavailable''\<rparr>, w))"

definition invalid_request :: do_response where
  "invalid_request = \<lparr>rs_status = 400, rs_body = Failure ''invalid coordination request''\<rparr>"

definition decoded ::
    "request_error + 'i \<Rightarrow> ('i \<Rightarrow> 's do_world \<Rightarrow> (lease_error + do_result) \<times> 's do_world) \<Rightarrow> 's do_world
     \<Rightarrow> do_response \<times> 's do_world" where
  "decoded input operation w = (case input of Inl _ \<Rightarrow> (invalid_request, w) | Inr i \<Rightarrow> answer (operation i w))"

definition returning :: "('b \<Rightarrow> do_result) \<Rightarrow> (lease_error + 'b) \<times> 's do_world \<Rightarrow> (lease_error + do_result) \<times> 's do_world" where
  "returning f r = (case r of (Inr v, w) \<Rightarrow> (Inr (f v), w) | (Inl e, w) \<Rightarrow> (Inl e, w))"

definition fetch :: "(string \<Rightarrow> string \<Rightarrow> int) \<Rightarrow> do_request \<Rightarrow> 's do_world \<Rightarrow> do_response \<times> 's do_world" where
  "fetch localeCompare request w =
     (if rq_pathname request = ''/healthz'' then (\<lparr>rs_status = 200, rs_body = Health\<rparr>, w)
      else if rq_method request \<noteq> ''POST'' then (\<lparr>rs_status = 405, rs_body = Failure ''method not allowed''\<rparr>, w)
      else case readJsonObject (rq_body request) of
        Inl _ \<Rightarrow> (invalid_request, w)
      | Inr body \<Rightarrow>
          (let path = trimPath (rq_pathname request) in
           if path = ''acquire-lease'' then
             decoded (parseLeaseInput body) (\<lambda>i w. returning RLease (do_acquireLease i w)) w
           else if path = ''renew-lease'' then
             decoded (parseRenewInput body) (\<lambda>i w. returning RLease (do_renewLease i w)) w
           else if path = ''release-lease'' then
             decoded (parseReleaseInput body) (\<lambda>i w. apfst (Inr \<circ> RBool) (do_releaseLease i w)) w
           else if path = ''get-lease'' then
             answer (apfst (Inr \<circ> RLeaseOption) (do_getLease (string_or_empty (json_field body ''scope'')) w))
           else if path = ''schedule-alarm'' then
             decoded (parseAlarmInput body) (\<lambda>i w. apfst (Inr \<circ> RAlarm) (scheduleAlarm i w)) w
           else if path = ''cancel-alarm'' then
             answer (apfst (Inr \<circ> RBool) (cancelAlarm (string_or_empty (json_field body ''id'')) w))
           else if path = ''list-alarms'' then
             answer (Inr (RAlarms (listAlarms localeCompare
               (case json_field body ''scope'' of Some (JStr s) \<Rightarrow> Some s | _ \<Rightarrow> None) w)), w)
           else if path = ''run-due-alarms'' then
             answer (returning (\<lambda>(fired, next). RDue fired next) (runDueAlarms (do_now w) w))
           else (\<lparr>rs_status = 404, rs_body = Failure ''not found''\<rparr>, w)))"

section \<open>The adapter of the control plane\<close>

text \<open>\<open>stub_fetch\<close> is the platform's stub: it throws (\<^const>\<open>None\<close>) or delivers the request
  and the parsed answer.\<close>

type_synonym 'w stub = "string \<Rightarrow> json \<Rightarrow> 'w \<Rightarrow> do_response option \<times> 'w"

definition post :: "'w stub \<Rightarrow> string \<Rightarrow> json \<Rightarrow> 'w \<Rightarrow> (lease_error + do_result) \<times> 'w" where
  "post stub_fetch path body w =
     (case stub_fetch path body w of
        (None, w) \<Rightarrow> (Inl (CoordinationError ''unavailable''), w)
      | (Some response, w) \<Rightarrow>
          (case rs_body response of
             Result r \<Rightarrow> if 200 \<le> rs_status response \<and> rs_status response \<le> 299 then (Inr r, w)
               else (Inl (CoordinationError (if rs_status response \<ge> 500 \<or> rs_status response = 408
                       \<or> rs_status response = 429 then ''unavailable'' else ''rejected'')), w)
           | _ \<Rightarrow> (Inl (CoordinationError (if rs_status response \<ge> 500 \<or> rs_status response = 408
                       \<or> rs_status response = 429 then ''unavailable'' else ''rejected'')), w)))"

definition ref_field :: "string option \<Rightarrow> (string \<times> json) list" where
  "ref_field ref = (case truthy_ref ref of None \<Rightarrow> [] | Some r \<Rightarrow> [(''referenceId'', JStr r)])"

definition lease_result :: "(lease_error + do_result) \<times> 'w \<Rightarrow> (lease_error + capsule_lease) \<times> 'w" where
  "lease_result r = (case r of (Inr (RLease l), w) \<Rightarrow> (Inr (capsule_lease.truncate l), w)
     | (Inr _, w) \<Rightarrow> (Inl (CoordinationError ''unexpected result''), w) | (Inl e, w) \<Rightarrow> (Inl e, w))"

definition durableObjectCapsuleCoordination :: "'w stub \<Rightarrow> 'w coordination" where
  "durableObjectCapsuleCoordination stub_fetch =
     \<lparr>co_acquire = (\<lambda>i w. lease_result (post stub_fetch ''acquire-lease'' (JObj
          ([(''scope'', JStr (a_scope i)), (''holderId'', JStr (a_holderId i)), (''ttlMs'', JNum (a_ttlMs i))]
           @ (if a_joinExistingHolder i = Some True then [(''joinExistingHolder'', JBool True)] else []))) w)),
      co_renew = (\<lambda>n w. lease_result (post stub_fetch ''renew-lease'' (JObj
          ([(''scope'', JStr (rl_scope n)), (''holderId'', JStr (rl_holderId n)), (''token'', JStr (rl_token n))]
           @ ref_field (rl_referenceId n) @ [(''ttlMs'', JNum (rn_ttlMs n))])) w)),
      co_release = (\<lambda>d w. case post stub_fetch ''release-lease'' (JObj
          ([(''scope'', JStr (rl_scope d)), (''holderId'', JStr (rl_holderId d)), (''token'', JStr (rl_token d))]
           @ ref_field (rl_referenceId d))) w of
          (Inr (RBool b), w) \<Rightarrow> (Inr b, w)
        | (Inr _, w) \<Rightarrow> (Inl (CoordinationError ''unexpected result''), w) | (Inl e, w) \<Rightarrow> (Inl e, w))\<rparr>"

text \<open>The stub of a reachable object: the request reaches \<open>fetch\<close> of the object.\<close>

definition object_stub :: "(string \<Rightarrow> string \<Rightarrow> int) \<Rightarrow> ('s do_world) stub" where
  "object_stub localeCompare path body w =
     apfst Some (fetch localeCompare \<lparr>rq_pathname = CHR ''/'' # path, rq_method = ''POST'', rq_body = Some body\<rparr> w)"

section \<open>What the object relies on of its storage\<close>

locale durable_storage =
  fixes ops :: "'s storage"
  assumes get_put: "st_get ops k' (st_put ops k v s) = (if k' = k then Some v else st_get ops k' s)"
    and get_delete: "st_get ops k' (st_delete ops k s) = (if k' = k then None else st_get ops k' s)"
    and list_get: "(k, v) \<in> set (st_list ops p s) \<longleftrightarrow> (\<exists>r. k = p @ r) \<and> st_get ops k s = Some v"
    and list_distinct: "distinct (map fst (st_list ops p s))"
    and get_setAlarm: "st_setAlarm ops = Some f \<Longrightarrow> st_get ops k (f t s) = st_get ops k s"
    and get_deleteAlarm: "st_deleteAlarm ops = Some d \<Longrightarrow> st_get ops k (d s) = st_get ops k s"

text \<open>Storage as the test double of the object keeps it: a map, listed in key order, and the
  time of the one alarm.\<close>

definition map_storage :: "((string, do_value) js_map \<times> int option) storage" where
  "map_storage =
     \<lparr>st_get = (\<lambda>k s. js_get (fst s) k), st_put = (\<lambda>k v s. (js_set k v (fst s), snd s)),
      st_delete = (\<lambda>k s. (js_delete k (fst s), snd s)),
      st_list = (\<lambda>p s. map (\<lambda>k. (k, the (js_get (fst s) k)))
        (js_sort code_unit_compare (remdups (filter (\<lambda>k. take (length p) k = p) (js_keys (fst s)))))),
      st_setAlarm = Some (\<lambda>t s. (fst s, Some t)), st_deleteAlarm = Some (\<lambda>s. (fst s, None))\<rparr>"

lemma take_prefix_iff: "take (length p) k = p \<longleftrightarrow> (\<exists>r. k = p @ r)"
  by (metis append_eq_conv_conj append_take_drop_id)

lemma js_keys_get: "k \<in> set (js_keys m) \<longleftrightarrow> js_get m k \<noteq> None"
  by (auto simp: js_keys_def js_get_def map_of_eq_None_iff)

interpretation map_store: durable_storage map_storage
proof (unfold_locales, goal_cases)
  case (3 k v p s)
  have "(k, v) \<in> set (st_list map_storage p s) \<longleftrightarrow> (\<exists>r. k = p @ r) \<and> k \<in> set (js_keys (fst s)) \<and> v = the (js_get (fst s) k)"
    by (auto simp: map_storage_def take_prefix_iff)
  then show ?case by (auto simp: js_keys_get map_storage_def)
qed (auto simp: map_storage_def distinct_js_sort comp_def)

section \<open>The object keeps the promise of the lease interface\<close>

definition stored_ok :: "string \<Rightarrow> coordination_stored \<Rightarrow> bool" where
  "stored_ok sc l \<longleftrightarrow> cs_scope l = sc \<and> cs_token l \<noteq> [] \<and> (\<exists>t. time_ok t \<and> cs_expiresAt l = iso_string t)"

definition do_inv :: "'s do_world \<Rightarrow> bool" where
  "do_inv w \<longleftrightarrow> durable_storage (do_ops w) \<and> time_ok (do_now w) \<and> (\<forall>n. do_newId w n \<noteq> [])
     \<and> (\<forall>sc v. st_get (do_ops w) (leaseKey sc) (do_storage w) = Some v \<longrightarrow> (\<exists>l. v = VLease l \<and> stored_ok sc l))"

definition lease_of :: "coordination_stored \<Rightarrow> stored_lease" where
  "lease_of l =
     (let n = normalizeStoredLease l in
      \<lparr>sl_holderId = cs_holderId n, sl_token = cs_token n, sl_expiresAt = the (date_parse (cs_expiresAt n)),
       sl_joinable = (cs_joinable n = Some True), sl_referenceIds = active_refs n\<rparr>)"

definition do_live :: "'s do_world \<Rightarrow> string \<Rightarrow> stored_lease option" where
  "do_live w sc =
     live (do_now w)
       (if sc = [] then None
        else case st_get (do_ops w) (leaseKey sc) (do_storage w) of Some (VLease l) \<Rightarrow> Some (lease_of l) | _ \<Rightarrow> None)"

definition do_elapse :: "int \<Rightarrow> 's do_world \<Rightarrow> 's do_world" where
  "do_elapse d w = w\<lparr>do_now := do_now w + d\<rparr>"

text \<open>A normalised row and the lease it stands for.\<close>

definition stands_for :: "string \<Rightarrow> coordination_stored \<Rightarrow> stored_lease \<Rightarrow> bool" where
  "stands_for sc l c \<longleftrightarrow> lease_ok c \<and> cs_scope l = sc \<and> cs_holderId l = sl_holderId c \<and> cs_token l = sl_token c
     \<and> cs_expiresAt l = iso_string (sl_expiresAt c) \<and> cs_joinable l = Some (sl_joinable c)
     \<and> active_refs l = sl_referenceIds c"

lemma leaseKey_inject [simp]: "leaseKey a = leaseKey b \<longleftrightarrow> a = b"
  by (simp add: leaseKey_def)

lemma parse_iso: "time_ok t \<Longrightarrow> date_parse (iso_string t) = Some t"
  by (rule date_parse_to_iso [of t]) (auto simp: to_iso_string_def time_ok_def time_clip_def split: if_splits)

lemma iso_ok: "time_ok t \<Longrightarrow> to_iso_string t = Some (iso_string t)"
  by (auto simp: to_iso_string_def time_ok_def time_clip_def split: if_splits)

lemma extended_expiry_ok: "time_ok t \<Longrightarrow> time_ok u \<Longrightarrow> extended_expiry (iso_string t) u = Some (iso_string (max t u))"
  by (simp add: extended_expiry_def parse_iso iso_ok time_ok_max)

lemma normalized_stands_for:
  assumes "stored_ok sc l"
  shows "stands_for sc (normalizeStoredLease l) (lease_of l)"
  using assms
  by (auto simp: stands_for_def stored_ok_def lease_of_def lease_ok_def normalizeStoredLease_def active_refs_def Let_def
      parse_iso)

lemma lease_of_stands_for:
  assumes "stands_for sc l c"
  shows "lease_of l = c"
proof -
  have ok: "lease_ok c" and refs: "active_refs l = sl_referenceIds c" using assms by (auto simp: stands_for_def)
  have "filter (\<lambda>r. r \<noteq> []) (sl_referenceIds c) = sl_referenceIds c"
    using ok by (auto simp: lease_ok_def filter_id_conv)
  then have "normalizeStoredLease l = l\<lparr>cs_activeReferenceIds := Some (sl_referenceIds c)\<rparr>"
    using assms ok refs
    by (auto simp: normalizeStoredLease_def stands_for_def lease_ok_def Let_def js_dedup_distinct)
  then show ?thesis using assms by (auto simp: lease_of_def stands_for_def active_refs_def lease_ok_def parse_iso)
qed

lemma stands_for_stored: "stands_for sc l c \<Longrightarrow> stored_ok sc l"
  by (auto simp: stands_for_def stored_ok_def lease_ok_def)

lemma storage_put_simps [simp]:
  "do_now (storage_put k v w) = do_now w" "do_ops (storage_put k v w) = do_ops w"
  "do_newId (storage_put k v w) = do_newId w" "do_next (storage_put k v w) = do_next w"
  "do_now (storage_delete k w) = do_now w" "do_ops (storage_delete k w) = do_ops w"
  "do_newId (storage_delete k w) = do_newId w" "do_next (storage_delete k w) = do_next w"
  by (simp_all add: storage_put_def storage_delete_def)

lemma stored_get:
  assumes "durable_storage (do_ops w)"
  shows "st_get (do_ops w) k' (do_storage (storage_put k v w)) = (if k' = k then Some v else st_get (do_ops w) k' (do_storage w))"
    and "st_get (do_ops w) k' (do_storage (storage_delete k w)) = (if k' = k then None else st_get (do_ops w) k' (do_storage w))"
  using durable_storage.get_put [OF assms] durable_storage.get_delete [OF assms]
  by (simp_all add: storage_put_def storage_delete_def)

lemma put_lease:
  assumes "do_inv w" "stands_for sc l c" "sc \<noteq> []"
  shows "do_inv (storage_put (leaseKey sc) (VLease l) w)
    \<and> do_live (storage_put (leaseKey sc) (VLease l) w) = (do_live w)(sc := live (do_now w) (Some c))"
proof -
  have d: "durable_storage (do_ops w)" using assms(1) by (simp add: do_inv_def)
  show ?thesis
    using assms stands_for_stored [OF assms(2)] lease_of_stands_for [OF assms(2)]
    by (auto simp: do_inv_def do_live_def [abs_def] stored_get [OF d] fun_eq_iff)
qed

lemma delete_lease:
  assumes "do_inv w"
  shows "do_inv (storage_delete (leaseKey sc) w) \<and> do_live (storage_delete (leaseKey sc) w) = (do_live w)(sc := None)"
proof -
  have d: "durable_storage (do_ops w)" using assms(1) by (simp add: do_inv_def)
  show ?thesis
    using assms by (auto simp: do_inv_def do_live_def [abs_def] stored_get [OF d] fun_eq_iff)
qed

lemma active_refs_update [simp]:
  "active_refs (l\<lparr>cs_activeReferenceIds := Some refs\<rparr>) = refs" "active_refs (l\<lparr>cs_expiresAt := e\<rparr>) = active_refs l"
  by (simp_all add: active_refs_def)

lemma do_next_irrelevant [simp]:
  "do_inv (w\<lparr>do_next := n\<rparr>) = do_inv w" "do_live (w\<lparr>do_next := n\<rparr>) = do_live w"
  by (auto simp: do_inv_def do_live_def fun_eq_iff)

lemma getStoredLease_live:
  assumes "do_inv w" "sc \<noteq> []"
  obtains (free) w' where "getStoredLease sc w = (None, w')" "do_live w sc = None" "do_inv w'" "do_live w' = do_live w"
      "do_now w' = do_now w"
    | (held) l c where "getStoredLease sc w = (Some l, w)" "do_live w sc = Some c" "stands_for sc l c"
proof (cases "st_get (do_ops w) (leaseKey sc) (do_storage w)")
  case None
  then show ?thesis using assms by (intro free [of w]) (auto simp: getStoredLease_def do_live_def)
next
  case (Some v)
  then obtain l where l: "v = VLease l" "stored_ok sc l" using assms(1) unfolding do_inv_def by blast
  note norm = normalized_stands_for [OF l(2)]
  have exp: "parsed_le (cs_expiresAt l) (do_now w) \<longleftrightarrow> sl_expiresAt (lease_of l) \<le> do_now w"
    using l(2) by (auto simp: parsed_le_def stored_ok_def lease_of_def normalizeStoredLease_def Let_def parse_iso)
  show ?thesis
  proof (cases "parsed_le (cs_expiresAt l) (do_now w)")
    case True
    then have none: "do_live w sc = None" using Some l(1) exp by (simp add: do_live_def live_Some)
    have "getStoredLease sc w = (None, storage_delete (leaseKey sc) w)"
      using Some l(1) True assms(2) by (simp add: getStoredLease_def)
    then show ?thesis using delete_lease [OF assms(1), of sc] none
      by (intro free [of "storage_delete (leaseKey sc) w"]) (auto simp: fun_upd_idem)
  next
    case False
    then have "getStoredLease sc w = (Some (normalizeStoredLease l), w)" "do_live w sc = Some (lease_of l)"
      using Some l(1) assms(2) exp by (simp_all add: getStoredLease_def do_live_def live_Some)
    then show ?thesis using held norm by blast
  qed
qed

lemma do_acquire_free_cell:
  assumes "do_inv w" "a_scope i \<noteq> []" "time_ok (do_now w + a_ttlMs i)"
  shows "\<exists>token ref r w'. do_acquire_free i w = (Inr r, w') \<and> ref \<noteq> [] \<and> do_inv w' \<and> do_now w' = do_now w
    \<and> capsule_lease.truncate r = fst (cell_acquire (do_now w) token ref (acquire_input.truncate i) None)
    \<and> do_live w' = (do_live w)(a_scope i := snd (cell_acquire (do_now w) token ref (acquire_input.truncate i) None))"
proof -
  let ?join = "a_joinExistingHolder i = Some True"
  let ?ref = "do_newId w (do_next w)" and ?token = "do_newId w (do_next w + (if ?join then 1 else 0))"
  let ?w = "w\<lparr>do_next := do_next w + (if ?join then 2 else 1)\<rparr>"
  let ?l = "\<lparr>cs_scope = a_scope i, cs_holderId = a_holderId i, cs_token = ?token,
      cs_expiresAt = iso_string (do_now w + a_ttlMs i), cs_metadata = ci_metadata i, cs_joinable = Some ?join,
      cs_activeReferenceIds = map_option (\<lambda>r. [r]) (truthy_ref (if ?join then Some ?ref else None))\<rparr>"
  let ?c = "fresh_lease (do_now w) ?token ?ref (acquire_input.truncate i)"
  have ne: "?ref \<noteq> []" "?token \<noteq> []" using assms(1) by (simp_all add: do_inv_def)
  have st: "stands_for (a_scope i) ?l ?c"
    using fresh_lease_ok [OF ne(2,1), of "do_now w" "acquire_input.truncate i"] assms(3) ne
    by (auto simp: stands_for_def fresh_lease_def acquire_input.truncate_def active_refs_def truthy_ref_def Let_def)
  have "do_acquire_free i w = (Inr (coordinationLeaseResponse ?l True (if ?join then Some ?ref else None)),
      storage_put (leaseKey (a_scope i)) (VLease ?l) ?w)"
    using assms(3) by (simp add: do_acquire_free_def Let_def iso_ok)
  moreover have inv: "do_inv ?w" "do_live ?w = do_live w" using assms(1) by simp_all
  moreover note put_lease [OF inv(1) st assms(2)]
  ultimately show ?thesis using ne
    by (intro exI [of _ ?token] exI [of _ ?ref])
      (auto simp: cell_acquire_def Let_def coordinationLeaseResponse_def capsule_lease.truncate_def cell_reply_def
        lease_reply_def fresh_lease_def acquire_input.truncate_def truthy_ref_def)
qed

lemma do_acquire_cell:
  assumes "do_inv w" "a_scope i \<noteq> []" "time_ok (do_now w + a_ttlMs i)"
  shows "\<exists>token ref r w'. do_acquireLease i w = (Inr r, w') \<and> ref \<noteq> [] \<and> do_inv w' \<and> do_now w' = do_now w
    \<and> capsule_lease.truncate r = fst (cell_acquire (do_now w) token ref (acquire_input.truncate i) (do_live w (a_scope i)))
    \<and> do_live w' = (do_live w)(a_scope i :=
        snd (cell_acquire (do_now w) token ref (acquire_input.truncate i) (do_live w (a_scope i))))"
  using assms(1,2)
proof (cases rule: getStoredLease_live)
  case (free w')
  then show ?thesis using do_acquire_free_cell [of w' i] assms by (auto simp: do_acquireLease_def)
next
  case (held l c)
  note h = held(3) [unfolded stands_for_def]
  have ok: "lease_ok c" and live: "do_now w < sl_expiresAt c"
    using h held(2) by (auto simp: do_live_def live_def split: option.splits if_splits)
  let ?ref = "do_newId w (do_next w)" and ?i = "acquire_input.truncate i"
  let ?w = "w\<lparr>do_next := do_next w + 1\<rparr>"
  have ne: "?ref \<noteq> []" using assms(1) by (simp add: do_inv_def)
  show ?thesis
  proof (cases "joins ?i c")
    case True
    let ?c = "joined_lease (do_now w) ?ref ?i c"
    let ?l = "l\<lparr>cs_expiresAt := iso_string (sl_expiresAt ?c),
      cs_activeReferenceIds := Some (js_dedup (active_refs l @ [?ref]))\<rparr>"
    have cok: "lease_ok ?c" using joined_lease_ok [OF ne _ ok, of "do_now w" ?i] assms(3) True
      by (simp add: joins_def acquire_input.truncate_def)
    have refs: "js_dedup (active_refs l @ [?ref]) = sl_referenceIds ?c"
      using h ok by (simp add: js_dedup_add joined_lease_def lease_ok_def)
    have st: "stands_for (a_scope i) ?l ?c"
      using h cok unfolding refs stands_for_def by (simp add: joined_lease_def)
    have "do_acquireLease i w = (Inr (coordinationLeaseResponse ?l True (Some ?ref)),
        storage_put (leaseKey (a_scope i)) (VLease ?l) ?w)"
      using True held(1) h ok assms(3)
      by (simp add: do_acquireLease_def joins_def Let_def extended_expiry_ok lease_ok_def joined_lease_def acquire_input.truncate_def)
    moreover have inv: "do_inv ?w" "do_live ?w = do_live w" using assms(1) by simp_all
    moreover note put_lease [OF inv(1) st assms(2)]
    moreover have "live (do_now w) (Some ?c) = Some ?c" using live by (simp add: live_Some joined_lease_def less_max_iff_disj)
    ultimately show ?thesis using True ne h unfolding held(2)
      by (intro exI [of _ "[]"] exI [of _ ?ref])
        (auto simp: cell_acquire_def Let_def coordinationLeaseResponse_def capsule_lease.truncate_def cell_reply_def
          lease_reply_def truthy_ref_def joined_lease_def acquire_input.truncate_def)
  next
    case False
    have "do_acquireLease i w = (Inr (coordinationLeaseResponse l False None), w)"
      using False held(1) h by (auto simp: do_acquireLease_def joins_def acquire_input.truncate_def)
    moreover have "(do_live w)(a_scope i := Some c) = do_live w" using held(2) by (simp add: fun_upd_idem)
    ultimately show ?thesis using assms(1) ne h unfolding held(2) cell_acquire_refuses [OF False]
      by (intro exI [of _ "[]"] exI [of _ ?ref])
        (auto simp: coordinationLeaseResponse_def capsule_lease.truncate_def cell_reply_def lease_reply_def
          truthy_ref_def acquire_input.truncate_def)
  qed
qed

lemma do_renew_cell:
  assumes "do_inv w" "rl_scope n \<noteq> []" "time_ok (do_now w + rn_ttlMs n)"
  shows "\<exists>r w'. do_renewLease n w = (Inr r, w') \<and> do_inv w' \<and> do_now w' = do_now w
    \<and> cl_acquired r = cell_member n (do_live w (rl_scope n))
    \<and> (\<forall>l. cl_acquired r \<and> cell_renew (do_now w) n (do_live w (rl_scope n)) = Some l \<longrightarrow>
         capsule_lease.truncate r = cell_reply (rl_scope n) l None True)
    \<and> do_live w' = (do_live w)(rl_scope n := cell_renew (do_now w) n (do_live w (rl_scope n)))"
  using assms(1,2)
proof (cases rule: getStoredLease_live)
  case (free w')
  then show ?thesis
    by (auto simp: do_renewLease_def cell_member_def cell_renew_def lease_reply_def capsule_lease.extend_def
        coordination_lease.fields_def fun_upd_idem)
next
  case (held l c)
  note h = held(3) [unfolded stands_for_def]
  have live: "do_now w < sl_expiresAt c" using held(2) by (auto simp: do_live_def live_def split: option.splits if_splits)
  let ?c = "c\<lparr>sl_expiresAt := max (sl_expiresAt c) (do_now w + rn_ttlMs n)\<rparr>"
  let ?l = "l\<lparr>cs_expiresAt := iso_string (sl_expiresAt ?c)\<rparr>"
  show ?thesis
  proof (cases "cell_member n (Some c)")
    case True
    then have own: "cs_holderId l = rl_holderId n" "cs_token l = rl_token n"
      "active_refs l \<noteq> [] \<longrightarrow> member_of (active_refs l) (rl_referenceId n)" using h by (auto simp: cell_member_def)
    have st: "stands_for (rl_scope n) ?l ?c"
      using h extended_lease_ok [of c "do_now w + rn_ttlMs n"] assms(3) unfolding stands_for_def by simp
    have "extended_expiry (cs_expiresAt l) (do_now w + rn_ttlMs n) = Some (iso_string (sl_expiresAt ?c))"
      using h assms(3) by (simp add: extended_expiry_ok lease_ok_def)
    then have "do_renewLease n w = (Inr (coordinationLeaseResponse ?l True None),
        storage_put (leaseKey (rl_scope n)) (VLease ?l) w)"
      using held(1) own by (auto simp: do_renewLease_def Let_def)
    moreover note put_lease [OF assms(1) st assms(2)]
    moreover have "live (do_now w) (Some ?c) = Some ?c" using live by (simp add: live_Some less_max_iff_disj)
    ultimately show ?thesis using True h unfolding held(2)
      by (auto simp: cell_renew_def coordinationLeaseResponse_def capsule_lease.truncate_def cell_reply_def
          lease_reply_def truthy_ref_def)
  next
    case False
    have "do_renewLease n w = (Inr (capsule_lease.extend (lease_reply (rl_scope n) (rl_holderId n) (rl_token n)
        None False (cs_expiresAt l)) (coordination_lease.fields None)), w)"
      using held(1) h False by (auto simp: do_renewLease_def cell_member_def)
    then show ?thesis using False assms(1) held(2)
      by (auto simp: cell_renew_def lease_reply_def capsule_lease.extend_def coordination_lease.fields_def fun_upd_idem)
  qed
qed

lemma do_release_cell:
  assumes "do_inv w" "rl_scope d \<noteq> []"
  shows "\<exists>b w'. do_releaseLease d w = (b, w') \<and> do_inv w' \<and> do_now w' = do_now w
    \<and> b = cell_member d (do_live w (rl_scope d))
    \<and> do_live w' = (do_live w)(rl_scope d := cell_release d (do_live w (rl_scope d)))"
  using assms
proof (cases rule: getStoredLease_live)
  case (free w')
  then show ?thesis by (auto simp: do_releaseLease_def cell_member_def cell_release_def fun_upd_idem)
next
  case (held l c)
  note h = held(3) [unfolded stands_for_def]
  have live: "do_now w < sl_expiresAt c" using held(2) by (auto simp: do_live_def live_def split: option.splits if_splits)
  let ?rem = "filter (\<lambda>r. Some r \<noteq> rl_referenceId d) (sl_referenceIds c)"
  show ?thesis
  proof (cases "cell_member d (Some c)")
    case member: True
    then have own: "cs_holderId l = rl_holderId d" "cs_token l = rl_token d"
      "active_refs l = [] \<or> member_of (active_refs l) (rl_referenceId d)" using h by (auto simp: cell_member_def)
    show ?thesis
    proof (cases "?rem = []")
      case True
      then have "do_releaseLease d w = (True, storage_delete (leaseKey (rl_scope d)) w)"
        using held(1) own h by (auto simp: do_releaseLease_def Let_def)
      then show ?thesis using delete_lease [OF assms(1), of "rl_scope d"] member True unfolding held(2)
        by (auto simp: cell_release_def)
    next
      case False
      let ?c = "c\<lparr>sl_referenceIds := ?rem\<rparr>" and ?l = "l\<lparr>cs_activeReferenceIds := Some ?rem\<rparr>"
      have ok: "lease_ok ?c" using reduced_lease_ok [OF _ False] h by simp
      have joinable: "sl_joinable c" using h False by (auto simp: lease_ok_def)
      have st: "stands_for (rl_scope d) ?l ?c" using h ok unfolding stands_for_def by simp
      have "active_refs l \<noteq> []" using h False by auto
      then have "do_releaseLease d w = (True, storage_put (leaseKey (rl_scope d)) (VLease ?l) w)"
        using held(1) own h False by (auto simp: do_releaseLease_def Let_def)
      moreover have "live (do_now w) (Some ?c) = Some ?c" using live by (simp add: live_Some)
      ultimately show ?thesis using put_lease [OF assms(1) st assms(2)] member False unfolding held(2)
        by (auto simp: cell_release_def)
    qed
  next
    case False
    then have "do_releaseLease d w = (False, w)"
      using held(1) h by (auto simp: do_releaseLease_def cell_member_def Let_def)
    then show ?thesis using False assms(1) held(2) by (auto simp: cell_release_def fun_upd_idem)
  qed
qed

section \<open>Through the adapter\<close>

definition object_coordination :: "(string \<Rightarrow> string \<Rightarrow> int) \<Rightarrow> ('s do_world) coordination" where
  "object_coordination localeCompare = durableObjectCapsuleCoordination (object_stub localeCompare)"

definition wire_input :: "acquire_input \<Rightarrow> coordination_lease_input" where
  "wire_input i = \<lparr>a_scope = a_scope i, a_holderId = a_holderId i, a_ttlMs = a_ttlMs i,
     a_joinExistingHolder = (if a_joinExistingHolder i = Some True then Some True else None), ci_metadata = None\<rparr>"

lemmas request_defs = object_coordination_def durableObjectCapsuleCoordination_def post_def object_stub_def fetch_def
  readJsonObject_def trimPath_def decoded_def json_field_def js_get_def requireString_def requireNumber_def
  optionalRecord_def optionalBoolean_def optionalString_def ref_field_def truthy_ref_def

lemma object_acquire:
  assumes "acquire_valid i" "do_acquireLease (wire_input i) w = (Inr r, w')"
  shows "co_acquire (object_coordination lc) i w = (Inr (capsule_lease.truncate r), w')"
  using assms
  by (simp add: request_defs parseLeaseInput_def acquire_valid_def wire_input_def answer_def returning_def lease_result_def
      split: if_splits)

lemma object_renew:
  assumes "handle_valid n" "do_renewLease n w = (Inr r, w')"
  shows "co_renew (object_coordination lc) n w = (Inr (capsule_lease.truncate r), w')"
proof -
  obtain sc holder token ref ttl where
    n: "n = \<lparr>rl_scope = sc, rl_holderId = holder, rl_token = token, rl_referenceId = ref, rn_ttlMs = ttl\<rparr>"
    by (cases n)
  show ?thesis using assms unfolding n
    by (cases ref) (simp_all add: request_defs parseRenewInput_def parseReleaseInput_def handle_valid_def answer_def
        returning_def lease_result_def release_input.extend_def renew_input.fields_def)
qed

lemma object_release:
  assumes "handle_valid d" "do_releaseLease d w = (b, w')"
  shows "co_release (object_coordination lc) d w = (Inr b, w')"
proof -
  obtain sc holder token ref where
    d: "d = \<lparr>rl_scope = sc, rl_holderId = holder, rl_token = token, rl_referenceId = ref\<rparr>"
    by (cases d)
  show ?thesis using assms unfolding d
    by (cases ref) (simp_all add: request_defs parseReleaseInput_def handle_valid_def answer_def)
qed

lemma cell_acquire_wire: "cell_acquire now token ref (acquire_input.truncate (wire_input i)) c = cell_acquire now token ref i c"
  by (simp add: cell_acquire_def joins_def fresh_lease_def joined_lease_def wire_input_def acquire_input.truncate_def
      split: option.split)

interpretation object: capsule_coordination "object_coordination lc" do_now do_elapse do_inv do_live for lc
proof (unfold_locales, goal_cases)
  case (1 w i)
  then have "a_scope (wire_input i) \<noteq> []" "time_ok (do_now w + a_ttlMs (wire_input i))"
    by (simp_all add: acquire_valid_def wire_input_def)
  from do_acquire_cell [OF 1(1) this] obtain token ref r w' where
    a: "do_acquireLease (wire_input i) w = (Inr r, w')" "ref \<noteq> []" "do_inv w'" "do_now w' = do_now w"
      "capsule_lease.truncate r = fst (cell_acquire (do_now w) token ref i (do_live w (a_scope i)))"
      "do_live w' = (do_live w)(a_scope i := snd (cell_acquire (do_now w) token ref i (do_live w (a_scope i))))"
    unfolding cell_acquire_wire by (auto simp: wire_input_def)
  with object_acquire [OF 1(2) a(1)] show ?case by auto
next
  case (2 w n)
  then have "rl_scope n \<noteq> []" by (simp add: handle_valid_def)
  from do_renew_cell [OF 2(1) this 2(3)] obtain r w' where
    a: "do_renewLease n w = (Inr r, w')" "do_inv w'" "do_now w' = do_now w"
      "cl_acquired r = cell_member n (do_live w (rl_scope n))"
      "\<forall>l. cl_acquired r \<and> cell_renew (do_now w) n (do_live w (rl_scope n)) = Some l \<longrightarrow>
         capsule_lease.truncate r = cell_reply (rl_scope n) l None True"
      "do_live w' = (do_live w)(rl_scope n := cell_renew (do_now w) n (do_live w (rl_scope n)))" by blast
  with object_renew [OF 2(2) a(1)] show ?case by (auto simp: capsule_lease.truncate_def)
next
  case (3 w d)
  then have "rl_scope d \<noteq> []" by (simp add: handle_valid_def)
  from do_release_cell [OF 3(1) this] object_release [OF 3(2)] show ?case by fastforce
next
  case (4 w t)
  then show ?case by (auto simp: do_inv_def do_elapse_def do_live_def live_live fun_eq_iff)
next
  case (5 w k l)
  then have "k \<noteq> []" by (auto simp: do_live_def)
  with 5(1) show ?case
    by (cases rule: getStoredLease_live) (use 5(2) in \<open>auto simp: stands_for_def lease_ok_def\<close>)
qed

section \<open>Alarms\<close>

lemma next_alarm_Cons [simp]:
  "next_alarm f (a # as) =
     next_alarm (case date_parse (al_fireAt a) of None \<Rightarrow> f | Some t \<Rightarrow> earlier f t) as"
  by (simp add: next_alarm_def)

lemma next_alarm_Nil [simp]: "next_alarm f [] = f"
  by (simp add: next_alarm_def)

lemma next_alarm_None: "next_alarm f as = None \<longleftrightarrow> f = None \<and> (\<forall>a \<in> set as. date_parse (al_fireAt a) = None)"
  by (induction as arbitrary: f) (auto simp: earlier_def split: option.splits if_splits)

lemma next_alarm_Some:
  "next_alarm f as = Some m \<Longrightarrow>
     (f = Some m \<or> (\<exists>a \<in> set as. date_parse (al_fireAt a) = Some m))
     \<and> (\<forall>t. f = Some t \<longrightarrow> m \<le> t) \<and> (\<forall>a \<in> set as. \<forall>t. date_parse (al_fireAt a) = Some t \<longrightarrow> m \<le> t)"
proof (induction as arbitrary: f)
  case (Cons a as)
  show ?case
  proof (cases "date_parse (al_fireAt a)")
    case None
    then show ?thesis using Cons by auto
  next
    case (Some t)
    with Cons have "(earlier f t = Some m \<or> (\<exists>a \<in> set as. date_parse (al_fireAt a) = Some m))
       \<and> (\<forall>u. earlier f t = Some u \<longrightarrow> m \<le> u) \<and> (\<forall>a \<in> set as. \<forall>t. date_parse (al_fireAt a) = Some t \<longrightarrow> m \<le> t)"
      by simp
    then show ?thesis using Some by (fastforce simp: earlier_def split: option.splits if_splits)
  qed
qed simp

text \<open>The rows under the two prefixes.\<close>

definition alarm_inv :: "'s do_world \<Rightarrow> bool" where
  "alarm_inv w \<longleftrightarrow> durable_storage (do_ops w)
     \<and> (\<forall>k v. st_get (do_ops w) (alarmKey k) (do_storage w) = Some v \<longrightarrow> (\<exists>a. v = VAlarm a \<and> al_id a = k))"

lemma alarm_lease_keys [simp]: "alarmKey k \<noteq> leaseKey sc" "leaseKey sc \<noteq> alarmKey k" "alarmKey a = alarmKey b \<longleftrightarrow> a = b"
  by (simp_all add: alarmKey_def leaseKey_def)

lemma map_filter_set: "set (List.map_filter f xs) = {y. \<exists>x \<in> set xs. f x = Some y}"
  by (force simp: List.map_filter_def image_iff)

lemma stored_alarms_set:
  assumes "durable_storage (do_ops w)"
  shows "(key, a) \<in> set (stored_alarms w) \<longleftrightarrow>
    (\<exists>k. key = alarmKey k \<and> st_get (do_ops w) (alarmKey k) (do_storage w) = Some (VAlarm a))"
proof -
  have "(key, a) \<in> set (stored_alarms w) \<longleftrightarrow> (key, VAlarm a) \<in> set (st_list (do_ops w) ''alarm:'' (do_storage w))"
    by (force simp: stored_alarms_def map_filter_set split: do_value.splits)
  then show ?thesis by (auto simp: durable_storage.list_get [OF assms] alarmKey_def)
qed

lemma stored_leases_set:
  assumes "durable_storage (do_ops w)"
  shows "(key, l) \<in> set (stored_leases w) \<longleftrightarrow>
    (\<exists>k. key = leaseKey k \<and> st_get (do_ops w) (leaseKey k) (do_storage w) = Some (VLease l))"
proof -
  have "(key, l) \<in> set (stored_leases w) \<longleftrightarrow> (key, VLease l) \<in> set (st_list (do_ops w) ''lease:'' (do_storage w))"
    by (force simp: stored_leases_def map_filter_set split: do_value.splits)
  then show ?thesis by (auto simp: durable_storage.list_get [OF assms] leaseKey_def)
qed

lemma fold_delete_get:
  assumes "durable_storage (do_ops w)"
  shows "do_ops (fold storage_delete ks w) = do_ops w \<and> do_now (fold storage_delete ks w) = do_now w
    \<and> st_get (do_ops w) k (do_storage (fold storage_delete ks w))
        = (if k \<in> set ks then None else st_get (do_ops w) k (do_storage w))"
  using assms
proof (induction ks arbitrary: w)
  case (Cons a ks)
  from Cons.IH [of "storage_delete a w"] Cons.prems show ?case by (simp add: stored_get)
qed simp

lemma deleteExpiredLeases_fold:
  "deleteExpiredLeases t w = fold storage_delete (map fst (filter (\<lambda>p. parsed_le (cs_expiresAt (snd p)) t) (stored_leases w))) w"
proof -
  have "fold (\<lambda>(k, l) w. if parsed_le (cs_expiresAt l) t then storage_delete k w else w) xs w
      = fold storage_delete (map fst (filter (\<lambda>p. parsed_le (cs_expiresAt (snd p)) t) xs)) w" for xs and w :: "'a do_world"
    by (induction xs arbitrary: w) (auto split: prod.splits)
  then show ?thesis by (simp add: deleteExpiredLeases_def)
qed

lemma deleteExpired_get:
  assumes "durable_storage (do_ops w)"
  shows "do_ops (deleteExpiredLeases t w) = do_ops w"
    "st_get (do_ops w) (alarmKey k) (do_storage (deleteExpiredLeases t w)) = st_get (do_ops w) (alarmKey k) (do_storage w)"
    "st_get (do_ops w) (leaseKey sc) (do_storage (deleteExpiredLeases t w)) =
       (case st_get (do_ops w) (leaseKey sc) (do_storage w) of
          Some (VLease l) \<Rightarrow> if parsed_le (cs_expiresAt l) t then None else Some (VLease l) | v \<Rightarrow> v)"
  using fold_delete_get [OF assms] stored_leases_set [OF assms]
  by (auto simp: deleteExpiredLeases_fold image_iff split: option.splits do_value.splits if_splits)

lemma reschedule_get:
  assumes "durable_storage (do_ops w)"
  shows "do_ops (snd (rescheduleDurableObjectAlarm f w)) = do_ops w
    \<and> st_get (do_ops w) k (do_storage (snd (rescheduleDurableObjectAlarm f w))) = st_get (do_ops w) k (do_storage w)"
  using durable_storage.get_setAlarm [OF assms] durable_storage.get_deleteAlarm [OF assms]
  by (auto simp: rescheduleDurableObjectAlarm_def split: option.splits)

lemma reschedule_next:
  "st_setAlarm (do_ops w) = Some g \<Longrightarrow>
     fst (rescheduleDurableObjectAlarm f w) = next_alarm f (map snd (stored_alarms w))"
  by (simp add: rescheduleDurableObjectAlarm_def split: option.splits)

lemma date_parse_time_ok: "date_parse s = Some t \<Longrightarrow> time_ok t"
  by (auto simp: date_parse_def time_ok_def time_clip_def bind_eq_Some_conv split: if_splits prod.splits)

text \<open>The storage after the sweep of the due alarms and the expired leases.\<close>

definition due_alarms :: "int \<Rightarrow> 's do_world \<Rightarrow> (string \<times> coordination_alarm) list" where
  "due_alarms t w = filter (\<lambda>p. alarm_due t (snd p)) (stored_alarms w)"

definition swept :: "int \<Rightarrow> 's do_world \<Rightarrow> 's do_world" where
  "swept t w = deleteExpiredLeases t (fold storage_delete (map fst (due_alarms t w)) w)"

lemma swept_get:
  assumes "durable_storage (do_ops w)"
  shows "do_ops (swept t w) = do_ops w"
    "st_get (do_ops w) (alarmKey k) (do_storage (swept t w)) =
       (case st_get (do_ops w) (alarmKey k) (do_storage w) of
          Some (VAlarm a) \<Rightarrow> if alarm_due t a then None else Some (VAlarm a) | v \<Rightarrow> v)"
    "st_get (do_ops w) (leaseKey sc) (do_storage (swept t w)) =
       (case st_get (do_ops w) (leaseKey sc) (do_storage w) of
          Some (VLease l) \<Rightarrow> if parsed_le (cs_expiresAt l) t then None else Some (VLease l) | v \<Rightarrow> v)"
proof -
  let ?w = "fold storage_delete (map fst (due_alarms t w)) w"
  note f = fold_delete_get [OF assms, of "map fst (due_alarms t w)"]
  have d: "durable_storage (do_ops ?w)" using f assms by simp
  have keys: "alarmKey k \<in> set (map fst (due_alarms t w)) \<longleftrightarrow>
      (\<exists>a. st_get (do_ops w) (alarmKey k) (do_storage w) = Some (VAlarm a) \<and> alarm_due t a)"
    "leaseKey sc \<notin> set (map fst (due_alarms t w))" for k sc
    using stored_alarms_set [OF assms] by (force simp: due_alarms_def image_iff)+
  show "do_ops (swept t w) = do_ops w" using deleteExpired_get(1) [OF d] f by (simp add: swept_def)
  show "st_get (do_ops w) (alarmKey k) (do_storage (swept t w)) =
       (case st_get (do_ops w) (alarmKey k) (do_storage w) of
          Some (VAlarm a) \<Rightarrow> if alarm_due t a then None else Some (VAlarm a) | v \<Rightarrow> v)"
    using deleteExpired_get(2) [OF d, of k t] f keys(1) [of k]
    by (auto simp: swept_def split: option.splits do_value.splits)
  show "st_get (do_ops w) (leaseKey sc) (do_storage (swept t w)) =
       (case st_get (do_ops w) (leaseKey sc) (do_storage w) of
          Some (VLease l) \<Rightarrow> if parsed_le (cs_expiresAt l) t then None else Some (VLease l) | v \<Rightarrow> v)"
    using deleteExpired_get(3) [OF d, of sc t] f keys(2) [of sc] by (simp add: swept_def)
qed

lemma runDueAlarms_swept:
  assumes "durable_storage (do_ops w)" "st_setAlarm (do_ops w) = Some g"
  obtains nx where "runDueAlarms t w = (Inr (js_sort code_unit_compare (map (al_id \<circ> snd) (due_alarms t w)), map_option iso_string nx),
      snd (rescheduleDurableObjectAlarm None (swept t w)))"
    "nx = next_alarm None (map snd (stored_alarms (swept t w)))"
    "\<And>m. nx = Some m \<Longrightarrow> time_ok m"
proof -
  let ?n = "next_alarm None (map snd (stored_alarms (swept t w)))"
  have n: "fst (rescheduleDurableObjectAlarm None (swept t w)) = ?n"
    using reschedule_next [of "swept t w"] assms swept_get(1) [OF assms(1)] by simp
  have ok: "time_ok m" if "?n = Some m" for m
    using next_alarm_Some [OF that] date_parse_time_ok by auto
  have "runDueAlarms t w = (Inr (js_sort code_unit_compare (map (al_id \<circ> snd) (due_alarms t w)), map_option iso_string ?n),
      snd (rescheduleDurableObjectAlarm None (swept t w)))"
  proof -
    obtain w3 where "rescheduleDurableObjectAlarm None (swept t w) = (?n, w3)"
      using n by (metis prod.collapse)
    then show ?thesis
      unfolding runDueAlarms_def Let_def due_alarms_def [symmetric] swept_def [symmetric]
      by (cases ?n) (use ok in \<open>auto simp: iso_ok\<close>)
  qed
  then show ?thesis using that ok by blast
qed

lemma due_alarm_ids:
  assumes d: "durable_storage (do_ops w)"
  shows "set (map (al_id \<circ> snd) (due_alarms t w)) =
      {al_id a | a k. st_get (do_ops w) (alarmKey k) (do_storage w) = Some (VAlarm a) \<and> alarm_due t a}"
proof (intro set_eqI iffI)
    fix x assume "x \<in> set (map (al_id \<circ> snd) (due_alarms t w))"
    then obtain key a where "(key, a) \<in> set (stored_alarms w)" "alarm_due t a" "x = al_id a" by (auto simp: due_alarms_def)
    then show "x \<in> {al_id a | a k. st_get (do_ops w) (alarmKey k) (do_storage w) = Some (VAlarm a) \<and> alarm_due t a}"
      using stored_alarms_set [OF d] by blast
  next
    fix x assume "x \<in> {al_id a | a k. st_get (do_ops w) (alarmKey k) (do_storage w) = Some (VAlarm a) \<and> alarm_due t a}"
    then obtain k a where "(alarmKey k, a) \<in> set (stored_alarms w)" "alarm_due t a" "x = al_id a"
      using stored_alarms_set [OF d] by blast
    then show "x \<in> set (map (al_id \<circ> snd) (due_alarms t w))" by (auto simp: due_alarms_def intro!: rev_image_eqI)
qed

end
