(* ===== verification/Lease_Properties.thy ===== *)
theory Lease_Properties
  imports Coordination_Object
begin

text \<open>
  The properties of the leases: exclusion by the Durable Object, its refinement of the lease
  cells, the leased section of a client, the bounded wait, and the alarms and error answers of
  the object.
\<close>

section \<open>Concrete worlds\<close>


definition ex_object :: "((string, do_value) js_map \<times> int option) do_world" where
  "ex_object = \<lparr>do_now = 1000, do_newId = (\<lambda>n. ''id'' @ show_nat n), do_next = 0, do_ops = map_storage, do_storage = ([], None)\<rparr>"

definition ex_acquire :: "string \<Rightarrow> acquire_input" where
  "ex_acquire holder = \<lparr>a_scope = ''plan:run_1'', a_holderId = holder, a_ttlMs = 60000, a_joinExistingHolder = None\<rparr>"

definition ex_held :: stored_lease where
  "ex_held = \<lparr>sl_holderId = ''worker_a'', sl_token = ''id0'', sl_expiresAt = 61000, sl_joinable = False, sl_referenceIds = []\<rparr>"

definition no_compare :: "string \<Rightarrow> string \<Rightarrow> int" where
  "no_compare = code_unit_compare"

definition ex_object1 :: "((string, do_value) js_map \<times> int option) do_world" where
  "ex_object1 = snd (co_acquire (object_coordination no_compare) (ex_acquire ''worker_a'') ex_object)"


lemma ex_object_inv: "do_inv ex_object"
  using map_store.durable_storage_axioms
  by (simp add: ex_object_def do_inv_def time_ok_def time_clip_def map_storage_def)

lemma ex_acquire_valid: "acquire_valid (ex_acquire ''worker_a'')" "acquire_valid (ex_acquire ''worker_b'')"
  by (simp_all add: acquire_valid_def ex_acquire_def)

lemma ex_object1_inv: "do_inv ex_object1" and ex_object1_live: "do_live ex_object1 ''plan:run_1'' = Some ex_held"
proof -
  have t: "time_ok (do_now ex_object + a_ttlMs (ex_acquire ''worker_a''))" by code_simp
  from object.acquire [OF ex_object_inv ex_acquire_valid(1) t, of no_compare]
  show "do_inv ex_object1" unfolding ex_object1_def by auto
  show "do_live ex_object1 ''plan:run_1'' = Some ex_held" by code_simp
qed

section \<open>Exclusion\<close>

text \<open>C16: while a lease of the Durable Object is held and has not expired, whatever other
  acquisitions, renewals and releases and whatever passing of time come in between, an
  acquisition of the same scope by another holder, or one that does not ask to join, is
  refused, names the holder and changes no lease. Only giving the held membership up ends it
  before its expiry.\<close>

theorem coordination_lease_exclusive:
  assumes "do_inv w" "do_live w sc = Some l" "holds m l"
    "(coord_step (object_coordination lc) do_now do_elapse (\<lambda>d. \<not> gives_up sc l m d))\<^sup>*\<^sup>* w w'"
    "do_now w' < sl_expiresAt l" "acquire_valid i" "a_scope i = sc" "time_ok (do_now w' + a_ttlMs i)"
    "a_holderId i \<noteq> sl_holderId l \<or> m = None \<or> a_joinExistingHolder i \<noteq> Some True"
  shows "\<exists>r w''. co_acquire (object_coordination lc) i w' = (Inr r, w'') \<and> \<not> cl_acquired r
    \<and> cl_holderId r = sl_holderId l \<and> do_live w'' = do_live w'"
  using object.exclusion [OF assms(4,1,2,3,5,7,6,8,9)] .

theorem coordination_lease_exclusive_witness:
  "\<exists>r w''. co_acquire (object_coordination no_compare) (ex_acquire ''worker_b'') (do_elapse 5000 ex_object1) = (Inr r, w'')
     \<and> \<not> cl_acquired r \<and> cl_holderId r = ''worker_a''"
proof -
  have "time_ok (do_now ex_object1 + 5000)" by code_simp
  then have "coord_step (object_coordination no_compare) do_now do_elapse (\<lambda>d. \<not> gives_up ''plan:run_1'' ex_held None d)
      ex_object1 (do_elapse 5000 ex_object1)" by (intro step_elapse) simp_all
  then have s: "(coord_step (object_coordination no_compare) do_now do_elapse
      (\<lambda>d. \<not> gives_up ''plan:run_1'' ex_held None d))\<^sup>*\<^sup>* ex_object1 (do_elapse 5000 ex_object1)" by blast
  have h: "holds None ex_held" "do_now (do_elapse 5000 ex_object1) < sl_expiresAt ex_held"
    "a_scope (ex_acquire ''worker_b'') = ''plan:run_1''"
    "time_ok (do_now (do_elapse 5000 ex_object1) + a_ttlMs (ex_acquire ''worker_b''))" by code_simp+
  from coordination_lease_exclusive [OF ex_object1_inv ex_object1_live h(1) s h(2) ex_acquire_valid(2) h(3,4)]
  show ?thesis by (auto simp: ex_held_def)
qed

section \<open>Refinement\<close>

text \<open>C17: through the control plane's adapter, the request decoding and the storage of the
  Durable Object, each lease operation does to the live leases what the lease cell of its
  scope does, and answers as the cell answers; no other scope is touched. The rows the object
  keeps (ISO times, optional legacy fields, stale rows) are invisible.\<close>

theorem coordination_object_refines_cells:
  assumes "do_inv w"
  shows "(acquire_valid i \<and> time_ok (do_now w + a_ttlMs i) \<longrightarrow>
      (\<exists>token ref w'. co_acquire (object_coordination lc) i w
          = (Inr (fst (cell_acquire (do_now w) token ref i (do_live w (a_scope i)))), w') \<and> do_inv w'
        \<and> do_live w' = (do_live w)(a_scope i := snd (cell_acquire (do_now w) token ref i (do_live w (a_scope i))))))
    \<and> (handle_valid n \<and> time_ok (do_now w + rn_ttlMs n) \<longrightarrow>
      (\<exists>r w'. co_renew (object_coordination lc) n w = (Inr r, w') \<and> do_inv w'
        \<and> cl_acquired r = cell_member n (do_live w (rl_scope n))
        \<and> do_live w' = (do_live w)(rl_scope n := cell_renew (do_now w) n (do_live w (rl_scope n)))))
    \<and> (handle_valid d \<longrightarrow>
      (\<exists>b w'. co_release (object_coordination lc) d w = (Inr b, w') \<and> do_inv w'
        \<and> (do_live w (rl_scope d) \<noteq> None \<longrightarrow> b = cell_member d (do_live w (rl_scope d)))
        \<and> do_live w' = (do_live w)(rl_scope d := cell_release d (do_live w (rl_scope d)))))"
  using object.acquire [OF assms, of i lc] object.renew [OF assms, of n lc] object.release [OF assms, of d lc] by blast

theorem coordination_object_refines_cells_witness:
  "\<exists>b w'. co_release (object_coordination no_compare)
       \<lparr>rl_scope = ''plan:run_1'', rl_holderId = ''worker_a'', rl_token = ''id0'', rl_referenceId = None\<rparr> ex_object1 = (Inr b, w')
     \<and> b \<and> do_live w' ''plan:run_1'' = None"
proof -
  let ?d = "\<lparr>rl_scope = ''plan:run_1'', rl_holderId = ''worker_a'', rl_token = ''id0'', rl_referenceId = None\<rparr> :: release_input"
  have v: "handle_valid ?d" "cell_member ?d (Some ex_held)" "cell_release ?d (Some ex_held) = None"
    by (simp_all add: handle_valid_def cell_member_def cell_release_def ex_held_def)
  have "\<exists>b w'. co_release (object_coordination no_compare) ?d ex_object1 = (Inr b, w') \<and> do_inv w'
        \<and> (do_live ex_object1 (rl_scope ?d) \<noteq> None \<longrightarrow> b = cell_member ?d (do_live ex_object1 (rl_scope ?d)))
        \<and> do_live w' = (do_live ex_object1)(rl_scope ?d := cell_release ?d (do_live ex_object1 (rl_scope ?d)))"
    using coordination_object_refines_cells [OF ex_object1_inv, of _ no_compare _ ?d] v(1) by blast
  then show ?thesis using v(2,3) by (auto simp: ex_object1_live)
qed

section \<open>The leased section\<close>





section \<open>The bounded wait\<close>

text \<open>C19: acquiring a scoped lease always comes back, acquired or refused, no later than five
  seconds and one timer overshoot after it started, however often a joinable lease of the same
  holder is still in the way.\<close>

theorem acquireScopedLease_returns:
  assumes "host_ok h do_now do_inv (coord_step (object_coordination lc) do_now do_elapse (\<lambda>_. True)) slack"
    "do_inv w" "sc \<noteq> []" "holder \<noteq> []" "0 < ttl" "time_ok (do_now w)"
    "time_ok (do_now w + joined_wait_total_ms + slack + ttl)"
  shows "\<exists>lease w'. acquireScopedLease h (object_coordination lc) sc holder ttl join w = Some (Inr lease, w')
    \<and> do_now w' \<le> do_now w + 5000 + slack
    \<and> (cl_acquired lease \<longrightarrow> (\<exists>l. do_live w' sc = Some l \<and> sl_holderId l = holder \<and> sl_token l = cl_token lease))"
proof -
  obtain lease w' where a: "acquireScopedLease h (object_coordination lc) sc holder ttl join w = Some (Inr lease, w')"
    "do_now w' \<le> do_now w + joined_wait_total_ms + slack"
    "cl_acquired lease \<Longrightarrow> acquired_by \<lparr>a_scope = sc, a_holderId = holder, a_ttlMs = ttl,
        a_joinExistingHolder = (if join = Some True then Some True else None)\<rparr> lease (do_live w')"
    by (rule object.scoped_acquire_returns [OF assms]) blast
  then show ?thesis by (intro exI [of _ lease] exI [of _ w']) (auto simp: acquired_by_def joined_wait_total_ms_def)
qed

definition ex_object_host :: "(((string, do_value) js_map \<times> int option) do_world) host" where
  "ex_object_host = \<lparr>host_now = do_now, host_delay = do_elapse\<rparr>"

theorem acquireScopedLease_returns_witness:
  "\<exists>lease w'. acquireScopedLease ex_object_host (object_coordination no_compare) ''plan:run_1'' ''worker_a'' 60000
       (Some True) ex_object1 = Some (Inr lease, w') \<and> do_now w' \<le> 6000"
proof -
  have step: "(coord_step (object_coordination no_compare) do_now do_elapse (\<lambda>_. True))\<^sup>*\<^sup>* w (do_elapse ms w)"
    if "0 < ms" "time_ok (do_now w + ms)" for w :: "((string, do_value) js_map \<times> int option) do_world" and ms
    by (rule r_into_rtranclp, rule step_elapse) (use that in simp_all)
  have h: "host_ok ex_object_host do_now do_inv (coord_step (object_coordination no_compare) do_now do_elapse (\<lambda>_. True)) 0"
    unfolding host_ok_def using step by (auto simp: ex_object_host_def do_elapse_def)
  have t: "time_ok (do_now ex_object1)" "time_ok (do_now ex_object1 + joined_wait_total_ms + 0 + 60000)" "do_now ex_object1 = 1000"
    by code_simp+
  from acquireScopedLease_returns [OF h ex_object1_inv _ _ _ t(1,2), of "''plan:run_1''" "''worker_a''" "Some True"]
  show ?thesis using t(3) by auto
qed

section \<open>Alarms\<close>





section \<open>Error answers\<close>



end
