(* ===== verification/Portable_Cron.thy ===== *)
theory Portable_Cron
  imports Js_Date
begin

text \<open>
  The portable five-field cron contract (\<open>contract/cron.ts\<close>): parsing and normalisation of an
  expression, matching of a UTC instant, and the bounded search for the next occurrence. An
  instant is a time value, an invalid \<open>Date\<close> is \<^const>\<open>None\<close>. A set of field values is the list of
  its members in insertion order. The main results are that the search returns the first
  matching minute after the given instant, or fails only when there is none in its window, and
  what re-reading a normalised expression preserves.
\<close>

section \<open>Strings\<close>

text \<open>\<open>s.split(/\s+/)\<close>: a maximal run of white space separates.\<close>

function split_space :: "string \<Rightarrow> string list" where
  "split_space [] = [[]]"
| "split_space (x # xs) =
     (if js_space x then [] # split_space (dropWhile js_space xs)
      else case split_space xs of [] \<Rightarrow> [[x]] | p # ps \<Rightarrow> (x # p) # ps)"
  by pat_completeness auto
termination
  by (relation "measure length") (auto simp: le_imp_less_Suc length_dropWhile_le)

definition all_digits :: "string \<Rightarrow> bool" where
  "all_digits s \<longleftrightarrow> s \<noteq> [] \<and> list_all is_digit s"

section \<open>Fields\<close>

datatype cron_error = CronTypeError string | CronRangeError string

record cron_field =
  cf_values :: "int list"
  cf_normalized :: string
  cf_unrestricted :: bool

record cron =
  cr_normalized :: string
  cr_minute :: cron_field
  cr_hour :: cron_field
  cr_dayOfMonth :: cron_field
  cr_month :: cron_field
  cr_dayOfWeek :: cron_field

definition field_range :: "nat \<Rightarrow> int \<times> int" where
  "field_range i = [(0, 59), (0, 23), (1, 31), (1, 12), (0, 7)] ! i"

definition invalidField :: "nat \<Rightarrow> cron_error" where
  "invalidField i = CronTypeError (''invalid portable cron ''
     @ [''minute'', ''hour'', ''day-of-month'', ''month'', ''day-of-week''] ! i @ '' field'')"

definition parsePositiveInteger :: "string \<Rightarrow> nat \<Rightarrow> cron_error + int" where
  "parsePositiveInteger s i =
     (if \<not> all_digits s then Inl (invalidField i)
      else let parsed = int (decimal_value 0 s) in
        if \<not> is_safe_integer parsed \<or> parsed < 1 then Inl (invalidField i) else Inr parsed)"

definition parseBoundedInteger :: "string \<Rightarrow> int \<Rightarrow> int \<Rightarrow> nat \<Rightarrow> cron_error + int" where
  "parseBoundedInteger s minimum maximum i =
     (if \<not> all_digits s then Inl (invalidField i)
      else let parsed = int (decimal_value 0 s) in
        if \<not> is_safe_integer parsed \<or> parsed < minimum \<or> maximum < parsed then Inl (invalidField i) else Inr parsed)"

text \<open>The values of an item. The step is at least one, so the loop runs at most to its end; the
  test against a step below one only makes the recursion terminate.\<close>

function item_values :: "int \<Rightarrow> int \<Rightarrow> int \<Rightarrow> int \<Rightarrow> int list" where
  "item_values maximum step v end' =
     (if v \<le> end' then v # (if maximum - step < v \<or> step < 1 then [] else item_values maximum step (v + step) end')
      else [])"
  by pat_completeness auto
termination
  by (relation "measure (\<lambda>(maximum, step, v, end'). nat (end' + 1 - v))") auto

declare item_values.simps [simp del]

definition sunday :: "nat \<Rightarrow> int \<Rightarrow> int" where
  "sunday i v = (if i = 4 \<and> v = 7 then 0 else v)"

text \<open>One comma-separated item: its bounds, its step and how it is written back.\<close>

record cron_item =
  ci_start :: int
  ci_end :: int
  ci_range :: bool
  ci_wildcard :: bool
  ci_step :: "int option"

definition step_of :: "cron_item \<Rightarrow> int" where
  "step_of item = (case ci_step item of Some s \<Rightarrow> s | None \<Rightarrow> 1)"

definition parse_item :: "nat \<Rightarrow> string \<Rightarrow> cron_error + cron_item" where
  "parse_item i part =
     (let minimum = fst (field_range i); maximum = snd (field_range i); slashParts = js_split (CHR ''/'') part in
      if 2 < length slashParts \<or> [] \<in> set slashParts then Inl (invalidField i)
      else
        chain (if length slashParts = 2 then map_sum id Some (parsePositiveInteger (slashParts ! 1) i) else Inr None) (\<lambda>step.
        (let base = hd slashParts; bounds = js_split (CHR ''-'') base in
         if base = ''*'' then
           Inr \<lparr>ci_start = minimum, ci_end = maximum, ci_range = False, ci_wildcard = True, ci_step = step\<rparr>
         else if all_digits base then
           chain (parseBoundedInteger base minimum maximum i) (\<lambda>start.
             Inr \<lparr>ci_start = start, ci_end = (if length slashParts = 2 then maximum else start),
                  ci_range = False, ci_wildcard = False, ci_step = step\<rparr>)
         else if length bounds = 2 \<and> all_digits (bounds ! 0) \<and> all_digits (bounds ! 1) then
           chain (parseBoundedInteger (bounds ! 0) minimum maximum i) (\<lambda>start.
           chain (parseBoundedInteger (bounds ! 1) minimum maximum i) (\<lambda>end'.
             if end' < start then Inl (invalidField i)
             else Inr \<lparr>ci_start = start, ci_end = end', ci_range = True, ci_wildcard = False, ci_step = step\<rparr>))
         else Inl (invalidField i))))"

definition values_of :: "nat \<Rightarrow> cron_item \<Rightarrow> int list" where
  "values_of i item = map (sunday i) (item_values (snd (field_range i)) (step_of item) (ci_start item) (ci_end item))"

definition normalized_item :: "nat \<Rightarrow> cron_item \<Rightarrow> string" where
  "normalized_item i item =
     (if i = 4 \<and> (ci_start item = 7 \<or> ci_end item = 7) then join_with '','' (map show_int (js_dedup (values_of i item)))
      else if ci_wildcard item then (case ci_step item of None \<Rightarrow> ''*'' | Some s \<Rightarrow> ''*/'' @ show_int s)
      else if ci_range item then show_int (ci_start item) @ ''-'' @ show_int (ci_end item)
        @ (if step_of item = 1 then [] else ''/'' @ show_int (step_of item))
      else show_int (sunday i (ci_start item))
        @ (case ci_step item of None \<Rightarrow> [] | Some s \<Rightarrow> if i = 4 \<and> ci_start item = 7 then [] else ''/'' @ show_int s))"

definition add_item :: "nat \<Rightarrow> cron_item \<Rightarrow> int list \<times> string list \<times> bool \<Rightarrow> int list \<times> string list \<times> bool" where
  "add_item i item acc =
     (case acc of (vals, parts, unrestricted) \<Rightarrow>
        (fold js_set_add (values_of i item) vals,
         fold js_set_add (js_split (CHR '','') (normalized_item i item)) parts,
         unrestricted \<or> ci_wildcard item \<and> ci_step item = None))"

fun parse_items :: "nat \<Rightarrow> string list \<Rightarrow> int list \<times> string list \<times> bool \<Rightarrow> cron_error + int list \<times> string list \<times> bool" where
  "parse_items i [] acc = Inr acc"
| "parse_items i (part # parts) acc = chain (parse_item i part) (\<lambda>item. parse_items i parts (add_item i item acc))"

definition parseCronField :: "nat \<Rightarrow> string \<Rightarrow> cron_error + cron_field" where
  "parseCronField i source =
     (let parts = js_split (CHR '','') source in
      if parts = [] \<or> [] \<in> set parts then Inl (invalidField i)
      else chain (parse_items i parts ([], [], False)) (\<lambda>(vals, normalizedParts, unrestricted).
        Inr \<lparr>cf_values = vals, cf_normalized = join_with '','' normalizedParts, cf_unrestricted = unrestricted\<rparr>))"

definition parsePortableCron :: "string \<Rightarrow> cron_error + cron" where
  "parsePortableCron expression =
     (let source = js_trim expression in
      if length source = 0 \<or> 1024 < length source
      then Inl (CronTypeError ''portable cron expression must be non-empty and bounded'')
      else let rawFields = split_space source in
        if length rawFields \<noteq> 5 then Inl (CronTypeError ''portable cron expression must contain five fields'')
        else
          chain (parseCronField 0 (rawFields ! 0)) (\<lambda>minute.
          chain (parseCronField 1 (rawFields ! 1)) (\<lambda>hour.
          chain (parseCronField 2 (rawFields ! 2)) (\<lambda>dayOfMonth.
          chain (parseCronField 3 (rawFields ! 3)) (\<lambda>month.
          chain (parseCronField 4 (rawFields ! 4)) (\<lambda>dayOfWeek.
            Inr \<lparr>cr_normalized = join_with '' '' (map cf_normalized [minute, hour, dayOfMonth, month, dayOfWeek]),
                 cr_minute = minute, cr_hour = hour, cr_dayOfMonth = dayOfMonth, cr_month = month,
                 cr_dayOfWeek = dayOfWeek\<rparr>))))))"

definition normalizePortableCron :: "string \<Rightarrow> cron_error + string" where
  "normalizePortableCron expression = chain (parsePortableCron expression) (\<lambda>parsed. Inr (cr_normalized parsed))"

section \<open>Matching\<close>

definition matchesCronDay :: "cron \<Rightarrow> int \<Rightarrow> bool" where
  "matchesCronDay parsed at =
     (let dayOfMonthMatches = getUTCDate at \<in> set (cf_values (cr_dayOfMonth parsed));
          dayOfWeekMatches = getUTCDay at \<in> set (cf_values (cr_dayOfWeek parsed))
      in if \<not> cf_unrestricted (cr_dayOfMonth parsed) \<and> \<not> cf_unrestricted (cr_dayOfWeek parsed)
         then dayOfMonthMatches \<or> dayOfWeekMatches
         else dayOfMonthMatches \<and> dayOfWeekMatches)"

definition matchesParsedCron :: "cron \<Rightarrow> int \<Rightarrow> bool" where
  "matchesParsedCron parsed at \<longleftrightarrow>
     getUTCMinutes at \<in> set (cf_values (cr_minute parsed)) \<and> getUTCHours at \<in> set (cf_values (cr_hour parsed))
     \<and> getUTCMonth at + 1 \<in> set (cf_values (cr_month parsed)) \<and> matchesCronDay parsed at"

definition assertValidDate :: "int option \<Rightarrow> cron_error + int" where
  "assertValidDate date = (case date of None \<Rightarrow> Inl (CronTypeError ''UTC cron matcher requires a valid Date'') | Some t \<Rightarrow> Inr t)"

definition matchesPortableCron :: "string \<Rightarrow> int option \<Rightarrow> cron_error + bool" where
  "matchesPortableCron expression date =
     chain (parsePortableCron expression) (\<lambda>parsed. chain (assertValidDate date) (\<lambda>at. Inr (matchesParsedCron parsed at)))"

section \<open>The next occurrence\<close>

definition max_search_days :: nat where
  "max_search_days = 5 * 366 + 1"

definition candidate_at :: "int \<Rightarrow> int \<Rightarrow> int \<Rightarrow> int option" where
  "candidate_at day hour minute =
     time_clip (make_date (getUTCFullYear day) (getUTCMonth day) (getUTCDate day) hour minute 0 0)"

text \<open>The first hour and minute of a day; a candidate that is an invalid \<open>Date\<close> compares false
  and is returned.\<close>

definition search_day :: "int \<Rightarrow> int \<Rightarrow> int \<Rightarrow> int list \<Rightarrow> int list \<Rightarrow> bool \<Rightarrow> int \<Rightarrow> int option option" where
  "search_day afterMs initialHour initialMinute hours minutes firstDay day =
     map_option (\<lambda>(hour, minute). candidate_at day hour minute)
       (List.find (\<lambda>(hour, minute).
          \<not> (firstDay \<and> (hour < initialHour \<or> hour = initialHour \<and> minute \<le> initialMinute))
          \<and> (case candidate_at day hour minute of None \<Rightarrow> True | Some t \<Rightarrow> \<not> t \<le> afterMs))
        (List.product hours minutes))"

fun search_days ::
    "cron \<Rightarrow> int \<Rightarrow> int \<Rightarrow> int \<Rightarrow> int \<Rightarrow> int list \<Rightarrow> int list \<Rightarrow> nat \<Rightarrow> nat \<Rightarrow> int option option" where
  "search_days parsed afterMs initialDay ih im hours minutes dayOffset 0 = None"
| "search_days parsed afterMs initialDay ih im hours minutes dayOffset (Suc n) =
     (case time_clip (initialDay + int dayOffset * 24 * 60 * 60000) of
        None \<Rightarrow> None
      | Some day \<Rightarrow>
          (case (if getUTCMonth day + 1 \<in> set (cf_values (cr_month parsed)) \<and> matchesCronDay parsed day
                 then search_day afterMs ih im hours minutes (dayOffset = 0) day else None) of
             Some found \<Rightarrow> Some found
           | None \<Rightarrow> search_days parsed afterMs initialDay ih im hours minutes (Suc dayOffset) n))"

definition nextPortableCronOccurrence :: "string \<Rightarrow> int option \<Rightarrow> cron_error + int option" where
  "nextPortableCronOccurrence expression after =
     chain (parsePortableCron expression) (\<lambda>parsed.
     chain (assertValidDate after) (\<lambda>afterMs.
       (let initialMinute = make_date (getUTCFullYear afterMs) (getUTCMonth afterMs) (getUTCDate afterMs)
              (getUTCHours afterMs) (getUTCMinutes afterMs) 0 0;
            initialDay = make_date (getUTCFullYear initialMinute) (getUTCMonth initialMinute)
              (getUTCDate initialMinute) 0 0 0 0;
            hours = js_sort (\<lambda>l r. l - r) (cf_values (cr_hour parsed));
            minutes = js_sort (\<lambda>l r. l - r) (cf_values (cr_minute parsed))
        in case search_days parsed afterMs initialDay (getUTCHours initialMinute) (getUTCMinutes initialMinute)
                  hours minutes 0 (Suc max_search_days) of
             Some found \<Rightarrow> Inr found
           | None \<Rightarrow> Inl (CronRangeError ''portable cron has no occurrence within the bounded five-year search window''))))"

section \<open>The values of a parsed field\<close>

lemma item_values_range: "set (item_values maximum step v e) \<subseteq> {v..e}" if "0 < step"
  using that
proof (induction maximum step v e rule: item_values.induct)
  case (1 maximum step v e)
  show ?case
  proof (cases "v \<le> e \<and> v \<le> maximum - step")
    case True
    then have "set (item_values maximum step (v + step) e) \<subseteq> {v + step..e}" using 1 by auto
    then show ?thesis using True 1(2) by (subst item_values.simps) auto
  qed (subst item_values.simps, auto)
qed

lemma set_fold_js_set_add [simp]: "set (fold js_set_add xs ys) = set xs \<union> set ys"
  by (induction xs arbitrary: ys) auto

lemma distinct_fold_js_set_add [simp]: "distinct ys \<Longrightarrow> distinct (fold js_set_add xs ys)"
  by (induction xs arbitrary: ys) auto

definition field_ok :: "nat \<Rightarrow> int list \<Rightarrow> bool" where
  "field_ok i vals \<longleftrightarrow> distinct vals \<and> set vals \<subseteq> {fst (field_range i)..snd (field_range i)} \<and> (i = 4 \<longrightarrow> 7 \<notin> set vals)"

text \<open>The parsed items of a field: their bounds lie in the field's range and their step is positive.\<close>

definition item_ok :: "nat \<Rightarrow> cron_item \<Rightarrow> bool" where
  "item_ok i item \<longleftrightarrow> fst (field_range i) \<le> ci_start item \<and> ci_start item \<le> ci_end item
     \<and> ci_end item \<le> snd (field_range i) \<and> (\<forall>s. ci_step item = Some s \<longrightarrow> 1 \<le> s \<and> is_safe_integer s)
     \<and> (ci_wildcard item \<longrightarrow> ci_start item = fst (field_range i) \<and> ci_end item = snd (field_range i) \<and> \<not> ci_range item)
     \<and> (\<not> ci_wildcard item \<and> \<not> ci_range item \<longrightarrow>
          ci_end item = (if ci_step item = None then ci_start item else snd (field_range i)))"

lemma parseBounded_range: "parseBoundedInteger s lo hi i = Inr n \<Longrightarrow> lo \<le> n \<and> n \<le> hi"
  by (auto simp: parseBoundedInteger_def Let_def split: if_splits)

lemma field_range_le: "i < 5 \<Longrightarrow> fst (field_range i) \<le> snd (field_range i)"
  by (auto simp: field_range_def less_Suc_eq eval_nat_numeral)

lemma map_sum_Some_Inr: "map_sum id Some r = Inr s \<Longrightarrow> \<exists>v. r = Inr v \<and> s = Some v"
  by (cases r) auto

lemma parse_item_ok:
  assumes "parse_item i part = Inr item" "i < 5"
  shows "item_ok i item"
proof -
  let ?parts = "js_split (CHR ''/'') part"
  from assms(1) obtain step where step: "(if length ?parts = 2 then map_sum id Some (parsePositiveInteger (?parts ! 1) i) else Inr None) = Inr step"
    by (auto simp: parse_item_def Let_def split: if_splits)
  have s: "1 \<le> s \<and> is_safe_integer s" if "step = Some s" for s
    using step that by (auto simp: parsePositiveInteger_def Let_def split: if_splits dest!: map_sum_Some_Inr)
  have none: "step = None \<longleftrightarrow> length ?parts \<noteq> 2" using step by (auto split: if_splits dest!: map_sum_Some_Inr)
  note le = field_range_le [OF assms(2)]
  show ?thesis
    using assms(1) step s none le
    by (auto simp: parse_item_def item_ok_def Let_def split: if_splits dest!: parseBounded_range)
qed

lemma values_of_range:
  assumes "item_ok i item" "i < 5"
  shows "set (values_of i item) \<subseteq> {fst (field_range i)..snd (field_range i)}" "i = 4 \<Longrightarrow> 7 \<notin> set (values_of i item)"
proof -
  have "0 < step_of item" using assms(1) by (auto simp: item_ok_def step_of_def split: option.splits)
  note r = item_values_range [OF this, of "snd (field_range i)" "ci_start item" "ci_end item"]
  have "v \<in> {fst (field_range i)..snd (field_range i)}"
    if "v \<in> set (item_values (snd (field_range i)) (step_of item) (ci_start item) (ci_end item))" for v
    using r that assms(1) by (auto simp: item_ok_def)
  then show "set (values_of i item) \<subseteq> {fst (field_range i)..snd (field_range i)}" "i = 4 \<Longrightarrow> 7 \<notin> set (values_of i item)"
    by (auto simp: values_of_def sunday_def field_range_def split: if_splits)
qed

lemma parse_items_ok:
  assumes "parse_items i parts acc = Inr acc'" "i < 5" "field_ok i (fst acc)"
  shows "field_ok i (fst acc')"
  using assms
proof (induction i parts acc rule: parse_items.induct)
  case (2 i part parts acc)
  from 2(2) obtain item where item: "parse_item i part = Inr item" "parse_items i parts (add_item i item acc) = Inr acc'"
    by auto
  have "field_ok i (fst (add_item i item acc))"
    using values_of_range [OF parse_item_ok [OF item(1) 2(3)] 2(3)] 2(4)
    by (auto simp: field_ok_def add_item_def split: prod.splits)
  then show ?case using 2(1) item(2) 2(3) by simp
qed simp

lemma parseCronField_ok: "parseCronField i s = Inr f \<Longrightarrow> i < 5 \<Longrightarrow> field_ok i (cf_values f)"
  using parse_items_ok [of i "js_split (CHR '','') s" "([], [], False)"]
  by (fastforce simp: parseCronField_def Let_def field_ok_def [of i "[]"] split: if_splits)

lemma parsePortableCron_ok:
  assumes "parsePortableCron e = Inr p"
  shows "field_ok 0 (cf_values (cr_minute p))" "field_ok 1 (cf_values (cr_hour p))"
    "field_ok 2 (cf_values (cr_dayOfMonth p))" "field_ok 3 (cf_values (cr_month p))" "field_ok 4 (cf_values (cr_dayOfWeek p))"
  using assms by (auto simp: parsePortableCron_def Let_def split: if_splits intro: parseCronField_ok)

section \<open>The search finds the first occurrence\<close>

abbreviation minute_time :: "int \<Rightarrow> int \<Rightarrow> int \<Rightarrow> int" where
  "minute_time d h m \<equiv> d * ms_per_day + h * 3600000 + m * 60000"

lemma js_sort_int_sorted: "sorted_wrt (\<le>) (js_sort (\<lambda>l r :: int. l - r) xs)"
proof -
  have "js_comparator (\<lambda>l r :: int. l - r)" by (auto simp: js_comparator_def)
  from js_sort_sorted [OF this] show ?thesis by (simp add: sorted_wrt_mono_rel)
qed

lemma clock_of_minute:
  assumes "0 \<le> h" "h < 24" "0 \<le> m" "m < (60::int)"
  shows "utc_day (minute_time d h m) = d" "getUTCHours (minute_time d h m) = h" "getUTCMinutes (minute_time d h m) = m"
    "minute_time d h m mod 60000 = 0"
proof -
  have "minute_time d h m div ms_per_day = d"
    using assms by (intro int_div_pos_eq [where r = "h * 3600000 + m * 60000"]) auto
  then show "utc_day (minute_time d h m) = d" by (simp add: utc_day_def)
  have "minute_time d h m div 3600000 = 24 * d + h"
    using assms by (intro int_div_pos_eq [where r = "m * 60000"]) auto
  then show "getUTCHours (minute_time d h m) = h" using assms by (simp add: getUTCHours_def)
  have e: "minute_time d h m = 60000 * (60 * (24 * d + h) + m)" by simp
  have "minute_time d h m div 60000 = m + 60 * (24 * d + h)" unfolding e by simp
  then have "getUTCMinutes (minute_time d h m) = (m + 60 * (24 * d + h)) mod 60" by (simp only: getUTCMinutes_def)
  also have "\<dots> = m mod 60" by (rule mod_mult_self2)
  finally show "getUTCMinutes (minute_time d h m) = m" using assms by simp
  show "minute_time d h m mod 60000 = 0" unfolding e by (rule mod_mult_self1_is_0)
qed

lemma minute_of_clock:
  assumes "u mod 60000 = 0"
  shows "u = minute_time (utc_day u) (getUTCHours u) (getUTCMinutes u)"
proof -
  from assms obtain k where u: "u = 60000 * k" by (auto elim: dvdE)
  have "u = 1000 * (60 * k)" using u by simp
  then have "u mod 1000 = 0" "u div 1000 = 60 * k" by simp_all
  then have "u mod 1000 = 0" "u div 1000 mod 60 = 0" by simp_all
  then show ?thesis using time_of_clock [of u] by (simp add: getUTCSeconds_def getUTCMilliseconds_def)
qed

lemma after_bounds:
  "minute_time (utc_day a) (getUTCHours a) (getUTCMinutes a) \<le> a"
  "a < minute_time (utc_day a) (getUTCHours a) (getUTCMinutes a) + 60000"
  using time_of_clock [of a] clock_range [of a] by linarith+

lemma day_fields: "getUTCMonth (utc_day u * ms_per_day) = getUTCMonth u" "matchesCronDay p (utc_day u * ms_per_day) = matchesCronDay p u"
proof -
  have "utc_day (utc_day u * ms_per_day) = utc_day u" by (simp add: utc_day_def)
  then show "getUTCMonth (utc_day u * ms_per_day) = getUTCMonth u" "matchesCronDay p (utc_day u * ms_per_day) = matchesCronDay p u"
    by (simp_all add: getUTCMonth_def getUTCDate_def getUTCDay_def matchesCronDay_def)
qed

lemma matchesParsedCron_day:
  "matchesParsedCron p u \<longleftrightarrow> getUTCMonth (utc_day u * ms_per_day) + 1 \<in> set (cf_values (cr_month p))
     \<and> matchesCronDay p (utc_day u * ms_per_day) \<and> getUTCHours u \<in> set (cf_values (cr_hour p))
     \<and> getUTCMinutes u \<in> set (cf_values (cr_minute p))"
  unfolding day_fields by (auto simp: matchesParsedCron_def)

lemma candidate_minute: "candidate_at (d * ms_per_day) h m = time_clip (minute_time d h m)"
proof -
  have "utc_day (d * ms_per_day) = d" by (simp add: utc_day_def)
  then show ?thesis
    by (simp add: candidate_at_def make_date_def getUTCFullYear_def getUTCMonth_def getUTCDate_def make_day_from_day)
qed

lemma find_product_Some:
  assumes "sorted_wrt (\<le>) (hs :: int list)" "sorted_wrt (\<le>) (ms :: int list)" "distinct hs"
    "List.find P (List.product hs ms) = Some (h, m)"
  shows "h \<in> set hs \<and> m \<in> set ms \<and> P (h, m) \<and> (\<forall>h' \<in> set hs. \<forall>m' \<in> set ms. P (h', m') \<longrightarrow> h < h' \<or> h = h' \<and> m \<le> m')"
  using assms
proof (induction hs)
  case (Cons x hs)
  have row: "List.find P (map (Pair x) ms) = Some q \<Longrightarrow>
      \<exists>m. q = (x, m) \<and> m \<in> set ms \<and> P (x, m) \<and> (\<forall>m' \<in> set ms. P (x, m') \<longrightarrow> m \<le> m')" for q
    using Cons.prems(2) by (induction ms) (auto split: if_splits)
  have app: "List.find P (xs @ ys) = (case List.find P xs of Some r \<Rightarrow> Some r | None \<Rightarrow> List.find P ys)" for xs ys
    by (induction xs) auto
  show ?case
  proof (cases "List.find P (map (Pair x) ms)")
    case None
    then have no: "\<not> P (x, m')" if "m' \<in> set ms" for m' using that by (auto simp: find_None_iff)
    from None Cons have "h \<in> set hs \<and> m \<in> set ms \<and> P (h, m)
        \<and> (\<forall>h' \<in> set hs. \<forall>m' \<in> set ms. P (h', m') \<longrightarrow> h < h' \<or> h = h' \<and> m \<le> m')" by (simp add: app)
    then show ?thesis using no by auto
  next
    case (Some q)
    then have "q = (h, m)" using Cons.prems(4) by (simp add: app)
    with row [OF Some] have "h = x" "m \<in> set ms" "P (x, m)" "\<forall>m' \<in> set ms. P (x, m') \<longrightarrow> m \<le> m'" by auto
    then show ?thesis using Cons.prems(1,3) by (auto simp: order.strict_iff_order)
  qed
qed simp

lemma product_None: "List.find P (List.product hs ms) = None \<longleftrightarrow> (\<forall>h \<in> set hs. \<forall>m \<in> set ms. \<not> P (h, m))"
  by (auto simp: find_None_iff)

text \<open>The clock hands of a day are ordered as its minutes.\<close>

lemma minute_time_le:
  "h < h' \<or> h = h' \<and> m \<le> m' \<Longrightarrow> 0 \<le> m \<Longrightarrow> m < 60 \<Longrightarrow> 0 \<le> m' \<Longrightarrow> m' < (60::int) \<Longrightarrow>
     minute_time d h m \<le> minute_time d h' m'"
  by (elim disjE) linarith+

lemma first_day_after:
  assumes "utc_day a = d" "0 \<le> h" "h < 24" "0 \<le> m" "m < (60::int)"
  shows "(h < getUTCHours a \<or> h = getUTCHours a \<and> m \<le> getUTCMinutes a) \<longleftrightarrow> minute_time d h m \<le> a"
proof -
  have b: "minute_time d (getUTCHours a) (getUTCMinutes a) \<le> a" "a < minute_time d (getUTCHours a) (getUTCMinutes a) + 60000"
    using after_bounds [of a] assms(1) by simp_all
  show ?thesis
  proof
    assume "h < getUTCHours a \<or> h = getUTCHours a \<and> m \<le> getUTCMinutes a"
    from minute_time_le [OF this, of d] clock_range(3,4) [of a] assms b(1) show "minute_time d h m \<le> a" by linarith
  next
    assume le: "minute_time d h m \<le> a"
    show "h < getUTCHours a \<or> h = getUTCHours a \<and> m \<le> getUTCMinutes a"
      using le b(2) clock_range(3,4) [of a] assms by linarith
  qed
qed

text \<open>The hands the search tries on a day, and the days it may be called for: the day of the
  instant, or a later one.\<close>

definition hands_ok :: "int list \<Rightarrow> int list \<Rightarrow> bool" where
  "hands_ok hs ms \<longleftrightarrow> sorted_wrt (\<le>) hs \<and> distinct hs \<and> set hs \<subseteq> {0..23} \<and> sorted_wrt (\<le>) ms \<and> set ms \<subseteq> {0..59}"

definition day_ok :: "int \<Rightarrow> bool \<Rightarrow> int \<Rightarrow> bool" where
  "day_ok a firstDay d \<longleftrightarrow> time_clip (d * ms_per_day) \<noteq> None \<and> time_clip ((d + 1) * ms_per_day) \<noteq> None
     \<and> (if firstDay then utc_day a = d else utc_day a < d)"

lemma day_ok_clip:
  assumes "day_ok a firstDay d" "0 \<le> h" "h < 24" "0 \<le> m" "m < (60::int)"
  shows "time_clip (minute_time d h m) = Some (minute_time d h m)"
proof -
  have "d * ms_per_day \<le> minute_time d h m" "minute_time d h m \<le> (d + 1) * ms_per_day"
    using assms by (auto simp: algebra_simps)
  then show ?thesis using assms(1) by (auto simp: day_ok_def time_clip_def split: if_splits)
qed

lemma later_day_after: "utc_day a < d \<Longrightarrow> 0 \<le> h \<Longrightarrow> 0 \<le> m \<Longrightarrow> a < minute_time d h m"
  using after_bounds(2) [of a] clock_range(2,4) [of a] by linarith

lemma hand_passes:
  assumes "day_ok a firstDay d" "0 \<le> h" "h < 24" "0 \<le> m" "m < (60::int)"
  shows "(\<not> (firstDay \<and> (h < getUTCHours a \<or> h = getUTCHours a \<and> m \<le> getUTCMinutes a))
      \<and> (case candidate_at (d * ms_per_day) h m of None \<Rightarrow> True | Some t \<Rightarrow> \<not> t \<le> a)) \<longleftrightarrow> a < minute_time d h m"
proof (cases firstDay)
  case True
  then show ?thesis using first_day_after [of a d h m] assms day_ok_clip [OF assms] by (auto simp: candidate_minute day_ok_def)
next
  case False
  then show ?thesis using later_day_after [of a d h m] assms day_ok_clip [OF assms] by (auto simp: candidate_minute day_ok_def)
qed

lemma search_day_Some:
  assumes "hands_ok hs ms" "day_ok a firstDay d"
    "search_day a (getUTCHours a) (getUTCMinutes a) hs ms firstDay (d * ms_per_day) = Some found"
  obtains h m where "h \<in> set hs" "m \<in> set ms" "found = Some (minute_time d h m)" "a < minute_time d h m"
    "\<And>h' m'. h' \<in> set hs \<Longrightarrow> m' \<in> set ms \<Longrightarrow> a < minute_time d h' m' \<Longrightarrow> minute_time d h m \<le> minute_time d h' m'"
proof -
  let ?P = "\<lambda>(hour, minute). \<not> (firstDay \<and> (hour < getUTCHours a \<or> hour = getUTCHours a \<and> minute \<le> getUTCMinutes a))
          \<and> (case candidate_at (d * ms_per_day) hour minute of None \<Rightarrow> True | Some t \<Rightarrow> \<not> t \<le> a)"
  obtain h m where f: "List.find ?P (List.product hs ms) = Some (h, m)" "found = candidate_at (d * ms_per_day) h m"
    using assms(3) by (auto simp: search_day_def)
  have r: "0 \<le> h' \<and> h' < 24" if "h' \<in> set hs" for h' using assms(1) that by (auto simp: hands_ok_def)
  have rm: "0 \<le> m' \<and> m' < 60" if "m' \<in> set ms" for m' using assms(1) that by (auto simp: hands_ok_def)
  note fp = find_product_Some [OF _ _ _ f(1)]
  have *: "h \<in> set hs" "m \<in> set ms" "?P (h, m)" "\<And>h' m'. h' \<in> set hs \<Longrightarrow> m' \<in> set ms \<Longrightarrow> ?P (h', m') \<Longrightarrow> h < h' \<or> h = h' \<and> m \<le> m'"
    using fp assms(1) unfolding hands_ok_def by blast+
  have "a < minute_time d h m" using hand_passes [OF assms(2), of h m] r [OF *(1)] rm [OF *(2)] *(3) by simp
  moreover have "found = Some (minute_time d h m)"
    using f(2) day_ok_clip [OF assms(2), of h m] r [OF *(1)] rm [OF *(2)] by (simp add: candidate_minute)
  moreover have "minute_time d h m \<le> minute_time d h' m'" if "h' \<in> set hs" "m' \<in> set ms" "a < minute_time d h' m'" for h' m'
  proof -
    have "?P (h', m')" using hand_passes [OF assms(2), of h' m'] r [OF that(1)] rm [OF that(2)] that(3) by simp
    from minute_time_le [OF *(4) [OF that(1,2) this]] rm [OF *(2)] rm [OF that(2)] show ?thesis by simp
  qed
  ultimately show ?thesis using that *(1,2) by blast
qed

lemma search_day_None:
  assumes "hands_ok hs ms" "day_ok a firstDay d"
    "search_day a (getUTCHours a) (getUTCMinutes a) hs ms firstDay (d * ms_per_day) = None" "h \<in> set hs" "m \<in> set ms"
  shows "minute_time d h m \<le> a"
proof -
  have "0 \<le> h" "h < 24" "0 \<le> m" "m < 60" using assms(1,4,5) by (auto simp: hands_ok_def)
  from hand_passes [OF assms(2) this] assms(3-5) show ?thesis
    by (auto simp: search_day_def product_None)
qed

definition first_match :: "cron \<Rightarrow> int \<Rightarrow> int \<Rightarrow> bool" where
  "first_match p a t \<longleftrightarrow> a < t \<and> t mod 60000 = 0 \<and> matchesParsedCron p t
     \<and> (\<forall>u. a < u \<and> u < t \<and> u mod 60000 = 0 \<longrightarrow> \<not> matchesParsedCron p u)"

lemma match_hands:
  assumes "matchesParsedCron p u" "u mod 60000 = 0" "set hs = set (cf_values (cr_hour p))" "set ms = set (cf_values (cr_minute p))"
  shows "u = minute_time (utc_day u) (getUTCHours u) (getUTCMinutes u)" "getUTCHours u \<in> set hs" "getUTCMinutes u \<in> set ms"
  using minute_of_clock [OF assms(2)] assms by (auto simp: matchesParsedCron_def)

text \<open>The search on one day of the window.\<close>

definition day_result :: "cron \<Rightarrow> int \<Rightarrow> int list \<Rightarrow> int list \<Rightarrow> bool \<Rightarrow> int \<Rightarrow> int option option" where
  "day_result p a hs ms firstDay d =
     (if getUTCMonth (d * ms_per_day) + 1 \<in> set (cf_values (cr_month p)) \<and> matchesCronDay p (d * ms_per_day)
      then search_day a (getUTCHours a) (getUTCMinutes a) hs ms firstDay (d * ms_per_day) else None)"

lemma no_match_on_day:
  assumes "hands_ok hs ms" "set hs = set (cf_values (cr_hour p))" "set ms = set (cf_values (cr_minute p))"
    "day_ok a firstDay d" "day_result p a hs ms firstDay d = None" "a < u" "u mod 60000 = 0" "utc_day u = d"
  shows "\<not> matchesParsedCron p u"
proof
  assume m: "matchesParsedCron p u"
  note h = match_hands [OF m assms(7,2,3)]
  have "search_day a (getUTCHours a) (getUTCMinutes a) hs ms firstDay (d * ms_per_day) = None"
    using m assms(5) unfolding matchesParsedCron_day assms(8) day_result_def by (simp split: if_splits)
  from search_day_None [OF assms(1,4) this h(2,3)] h(1) assms(6,8) show False by simp
qed

lemma first_match_on_day:
  assumes "hands_ok hs ms" "set hs = set (cf_values (cr_hour p))" "set ms = set (cf_values (cr_minute p))"
    "day_ok a firstDay d" "day_result p a hs ms firstDay d = Some found"
  shows "\<exists>t. found = Some t \<and> a < t \<and> t mod 60000 = 0 \<and> utc_day t = d \<and> matchesParsedCron p t
    \<and> (\<forall>u. a < u \<and> u < t \<and> u mod 60000 = 0 \<and> d \<le> utc_day u \<longrightarrow> \<not> matchesParsedCron p u)"
proof -
  have ok: "getUTCMonth (d * ms_per_day) + 1 \<in> set (cf_values (cr_month p)) \<and> matchesCronDay p (d * ms_per_day)"
    and s: "search_day a (getUTCHours a) (getUTCMinutes a) hs ms firstDay (d * ms_per_day) = Some found"
    using assms(5) by (auto simp: day_result_def split: if_splits)
  obtain h m where hm: "h \<in> set hs" "m \<in> set ms" "found = Some (minute_time d h m)" "a < minute_time d h m"
    and least: "\<And>h' m'. h' \<in> set hs \<Longrightarrow> m' \<in> set ms \<Longrightarrow> a < minute_time d h' m' \<Longrightarrow> minute_time d h m \<le> minute_time d h' m'"
    using search_day_Some [OF assms(1,4) s] by metis
  let ?t = "minute_time d h m"
  have r: "0 \<le> h" "h < 24" "0 \<le> m" "m < 60" using assms(1) hm(1,2) by (auto simp: hands_ok_def)
  note c = clock_of_minute [OF r, of d]
  have "matchesParsedCron p ?t" using ok hm(1,2) assms(2,3) unfolding matchesParsedCron_day c by simp
  moreover have "\<not> matchesParsedCron p u" if u: "a < u" "u < ?t" "u mod 60000 = 0" "d \<le> utc_day u" for u
  proof
    assume m: "matchesParsedCron p u"
    note h = match_hands [OF m u(3) assms(2,3)]
    have "utc_day u \<le> utc_day ?t" using u(2) by (simp add: utc_day_def zdiv_mono1)
    then have "utc_day u = d" using u(4) c(1) by simp
    then show False using least [OF h(2,3)] h(1) u(1,2) by simp
  qed
  ultimately show ?thesis using hm(3,4) c by (intro exI [of _ ?t]) auto
qed

lemma search_days_step:
  assumes "time_clip (utc_day a * ms_per_day) \<noteq> None" "time_clip ((utc_day a + int k + int (Suc n)) * ms_per_day) \<noteq> None"
  shows "day_ok a (k = 0) (utc_day a + int k)"
    and "search_days p a (utc_day a * ms_per_day) (getUTCHours a) (getUTCMinutes a) hs ms k (Suc n)
      = (case day_result p a hs ms (k = 0) (utc_day a + int k) of Some found \<Rightarrow> Some found
         | None \<Rightarrow> search_days p a (utc_day a * ms_per_day) (getUTCHours a) (getUTCMinutes a) hs ms (Suc k) n)"
proof -
  let ?d = "utc_day a + int k"
  have "utc_day a * ms_per_day \<le> ?d * ms_per_day" "?d * ms_per_day \<le> (?d + 1) * ms_per_day"
    "(?d + 1) * ms_per_day \<le> (utc_day a + int k + int (Suc n)) * ms_per_day" by (auto simp: algebra_simps)
  then show day: "day_ok a (k = 0) ?d" using assms by (auto simp: day_ok_def time_clip_def split: if_splits)
  have "time_clip (utc_day a * ms_per_day + int k * 24 * 60 * 60000) = Some (?d * ms_per_day)"
    using day by (auto simp: day_ok_def time_clip_def algebra_simps split: if_splits)
  then show "search_days p a (utc_day a * ms_per_day) (getUTCHours a) (getUTCMinutes a) hs ms k (Suc n)
      = (case day_result p a hs ms (k = 0) ?d of Some found \<Rightarrow> Some found
         | None \<Rightarrow> search_days p a (utc_day a * ms_per_day) (getUTCHours a) (getUTCMinutes a) hs ms (Suc k) n)"
    unfolding search_days.simps day_result_def by (simp only: option.case)
qed

lemma search_days_correct:
  assumes "hands_ok hs ms" "set hs = set (cf_values (cr_hour p))" "set ms = set (cf_values (cr_minute p))"
    "time_clip (utc_day a * ms_per_day) \<noteq> None" "time_clip ((utc_day a + int k + int n) * ms_per_day) \<noteq> None"
  shows "case search_days p a (utc_day a * ms_per_day) (getUTCHours a) (getUTCMinutes a) hs ms k n of
      Some found \<Rightarrow> \<exists>t. found = Some t \<and> a < t \<and> t mod 60000 = 0 \<and> matchesParsedCron p t
        \<and> (\<forall>u. a < u \<and> u < t \<and> u mod 60000 = 0 \<and> utc_day a + int k \<le> utc_day u \<longrightarrow> \<not> matchesParsedCron p u)
    | None \<Rightarrow> \<forall>u. a < u \<and> u mod 60000 = 0 \<and> utc_day a + int k \<le> utc_day u \<and> utc_day u < utc_day a + int k + int n
        \<longrightarrow> \<not> matchesParsedCron p u"
  using assms(5)
proof (induction n arbitrary: k)
  case (Suc n)
  let ?d = "utc_day a + int k"
  note day = search_days_step(1) [OF assms(4) Suc.prems] and step = search_days_step(2) [OF assms(4) Suc.prems]
  show ?case
  proof (cases "day_result p a hs ms (k = 0) ?d")
    case None
    note no = no_match_on_day [OF assms(1-3) day None]
    have split: "?d \<le> utc_day u \<Longrightarrow> utc_day u = ?d \<or> utc_day a + int (Suc k) \<le> utc_day u" for u by auto
    have eq: "utc_day a + int (Suc k) + int n = utc_day a + int k + int (Suc n)" by simp
    have prem: "time_clip ((utc_day a + int (Suc k) + int n) * ms_per_day) \<noteq> None" using Suc.prems unfolding eq .
    let ?rest = "search_days p a (utc_day a * ms_per_day) (getUTCHours a) (getUTCMinutes a) hs ms (Suc k) n"
    show ?thesis
    proof (cases ?rest)
      case none: None
      have "\<forall>u. a < u \<and> u mod 60000 = 0 \<and> utc_day a + int (Suc k) \<le> utc_day u \<and> utc_day u < utc_day a + int k + int (Suc n)
          \<longrightarrow> \<not> matchesParsedCron p u" using Suc.IH [OF prem] unfolding none option.case eq .
      then have "\<not> matchesParsedCron p u"
        if "a < u" "u mod 60000 = 0" "?d \<le> utc_day u" "utc_day u < utc_day a + int k + int (Suc n)" for u
        using no [OF that(1,2)] split [OF that(3)] that by metis
      then show ?thesis unfolding step None option.case none by (intro allI impI) simp
    next
      case (Some found)
      then obtain t where t: "found = Some t" "a < t" "t mod 60000 = 0" "matchesParsedCron p t"
        "\<forall>u. a < u \<and> u < t \<and> u mod 60000 = 0 \<and> utc_day a + int (Suc k) \<le> utc_day u \<longrightarrow> \<not> matchesParsedCron p u"
        using Suc.IH [OF prem] by auto
      then have "\<not> matchesParsedCron p u" if "a < u" "u < t" "u mod 60000 = 0" "?d \<le> utc_day u" for u
        using no [OF that(1,3)] split [OF that(4)] that by metis
      then show ?thesis unfolding step None option.case Some using t(1-4) by (intro exI [of _ t] conjI allI impI) simp_all
    qed
  next
    case (Some found)
    from first_match_on_day [OF assms(1-3) day Some] obtain t where t: "found = Some t" "a < t" "t mod 60000 = 0"
      "matchesParsedCron p t" "\<forall>u. a < u \<and> u < t \<and> u mod 60000 = 0 \<and> ?d \<le> utc_day u \<longrightarrow> \<not> matchesParsedCron p u" by auto
    then show ?thesis unfolding step Some option.case by (intro exI [of _ t]) simp
  qed
qed auto

lemma start_of_day:
  "make_date (getUTCFullYear a) (getUTCMonth a) (getUTCDate a) h m 0 0 = minute_time (utc_day a) h m"
  by (simp add: make_date_def getUTCFullYear_def getUTCMonth_def getUTCDate_def make_day_from_day)

lemma nextPortableCronOccurrence_search:
  assumes "parsePortableCron e = Inr p"
  shows "nextPortableCronOccurrence e (Some a) =
    (case search_days p a (utc_day a * ms_per_day) (getUTCHours a) (getUTCMinutes a)
       (js_sort (\<lambda>l r. l - r) (cf_values (cr_hour p))) (js_sort (\<lambda>l r. l - r) (cf_values (cr_minute p))) 0 (Suc max_search_days) of
       Some found \<Rightarrow> Inr found
     | None \<Rightarrow> Inl (CronRangeError ''portable cron has no occurrence within the bounded five-year search window''))"
proof -
  have r: "0 \<le> getUTCHours a" "getUTCHours a < 24" "0 \<le> getUTCMinutes a" "getUTCMinutes a < 60"
    using clock_range [of a] by auto
  note c = clock_of_minute [OF r, of "utc_day a"]
  show ?thesis
    unfolding nextPortableCronOccurrence_def assms assertValidDate_def chain_simps option.case start_of_day Let_def c
    by simp
qed

lemma parsed_hands_ok:
  assumes "parsePortableCron e = Inr p"
  shows "hands_ok (js_sort (\<lambda>l r. l - r) (cf_values (cr_hour p))) (js_sort (\<lambda>l r. l - r) (cf_values (cr_minute p)))"
  using parsePortableCron_ok(1,2) [OF assms]
  by (auto simp: hands_ok_def field_ok_def field_range_def js_sort_int_sorted distinct_js_sort)

section \<open>Reading a normalised expression again\<close>

lemma show_int_nonneg:
  assumes "0 \<le> v"
  shows "all_digits (show_int v)" "int (decimal_value 0 (show_int v)) = v" "x \<in> set (show_int v) \<Longrightarrow> is_digit x"
  using assms show_nat_digits [of _ "nat v"] show_nat_nonempty [of "nat v"] decimal_value_show_nat [of "nat v"]
  by (auto simp: show_int_def all_digits_def list_all_iff)

lemma digit_not_punctuation:
  "is_digit x \<Longrightarrow> x \<notin> {CHR '','', CHR ''/'', CHR ''-'', CHR ''*''} \<and> \<not> js_space x"
  by (auto simp: is_digit_def js_space_def)

lemma all_digits_not: "all_digits s \<Longrightarrow> c \<in> {CHR '','', CHR ''/'', CHR ''-'', CHR ''*''} \<Longrightarrow> c \<notin> set s"
  using digit_not_punctuation by (auto simp: all_digits_def list_all_iff)

lemma field_range_bounds: "i < 5 \<Longrightarrow> 0 \<le> fst (field_range i) \<and> snd (field_range i) \<le> 59"
  by (auto simp: field_range_def less_Suc_eq eval_nat_numeral)

lemma parsePositive_show: "1 \<le> s \<Longrightarrow> is_safe_integer s \<Longrightarrow> parsePositiveInteger (show_int s) i = Inr s"
  using show_int_nonneg [of s] by (simp add: parsePositiveInteger_def)

lemma parseBounded_show:
  assumes "i < 5" "fst (field_range i) \<le> v" "v \<le> snd (field_range i)"
  shows "parseBoundedInteger (show_int v) (fst (field_range i)) (snd (field_range i)) i = Inr v"
proof -
  have "0 \<le> v" "v \<le> 59" using field_range_bounds [OF assms(1)] assms(2,3) by auto
  then show ?thesis using show_int_nonneg [of v] assms
    by (simp add: parseBoundedInteger_def is_safe_integer_def max_safe_integer_def)
qed

text \<open>The four shapes of a normalised item, read again.\<close>

definition slash :: "int option \<Rightarrow> string" where
  "slash step = (case step of None \<Rightarrow> [] | Some s \<Rightarrow> CHR ''/'' # show_int s)"

lemma parse_item_base:
  assumes "CHR ''/'' \<notin> set base" "base \<noteq> []" "\<forall>s. step = Some s \<longrightarrow> 1 \<le> s \<and> is_safe_integer s" "i < 5"
  shows "parse_item i (base @ slash step) =
    (let minimum = fst (field_range i); maximum = snd (field_range i); bounds = js_split (CHR ''-'') base in
     if base = ''*'' then Inr \<lparr>ci_start = minimum, ci_end = maximum, ci_range = False, ci_wildcard = True, ci_step = step\<rparr>
     else if all_digits base then
       chain (parseBoundedInteger base minimum maximum i) (\<lambda>start.
         Inr \<lparr>ci_start = start, ci_end = (if step \<noteq> None then maximum else start), ci_range = False, ci_wildcard = False, ci_step = step\<rparr>)
     else if length bounds = 2 \<and> all_digits (bounds ! 0) \<and> all_digits (bounds ! 1) then
       chain (parseBoundedInteger (bounds ! 0) minimum maximum i) (\<lambda>start.
       chain (parseBoundedInteger (bounds ! 1) minimum maximum i) (\<lambda>end'.
         if end' < start then Inl (invalidField i)
         else Inr \<lparr>ci_start = start, ci_end = end', ci_range = True, ci_wildcard = False, ci_step = step\<rparr>))
     else Inl (invalidField i))"
proof (cases step)
  case None
  have "js_split (CHR ''/'') (base @ slash step) = [base]" using assms(1) by (simp add: None slash_def js_split_no)
  then show ?thesis using assms(2) unfolding None parse_item_def by (simp add: Let_def)
next
  case (Some s)
  have s: "1 \<le> s" "is_safe_integer s" using assms(3) Some by auto
  have "js_split (CHR ''/'') (base @ slash step) = [base, show_int s]"
    using all_digits_not [OF show_int_nonneg(1) [of s]] s(1) assms(1) by (simp add: Some slash_def js_split_app js_split_no)
  moreover have "show_int s \<noteq> []" using show_int_nonneg(1) [of s] s(1) by (auto simp: all_digits_def)
  ultimately show ?thesis using assms(2) parsePositive_show [OF s] unfolding Some parse_item_def by (simp add: Let_def)
qed

definition expanded :: "nat \<Rightarrow> cron_item \<Rightarrow> bool" where
  "expanded i item \<longleftrightarrow> i = 4 \<and> (ci_start item = 7 \<or> ci_end item = 7)"

text \<open>The item a normalised item is read as: a range drops a step of one.\<close>

definition reread :: "cron_item \<Rightarrow> cron_item" where
  "reread item = (if ci_range item \<and> step_of item = 1 then item\<lparr>ci_step := None\<rparr> else item)"

definition base_of :: "cron_item \<Rightarrow> string" where
  "base_of item = (if ci_wildcard item then ''*''
     else if ci_range item then show_int (ci_start item) @ ''-'' @ show_int (ci_end item) else show_int (ci_start item))"

lemma normalized_item_base:
  assumes "item_ok i item" "\<not> expanded i item"
  shows "normalized_item i item = base_of item @ slash (ci_step (reread item))"
  using assms
  by (cases "ci_step item") (auto simp: normalized_item_def base_of_def reread_def slash_def expanded_def item_ok_def sunday_def step_of_def)

lemma base_of_chars:
  assumes "item_ok i item" "i < 5"
  shows "base_of item \<noteq> []" "c \<in> set (base_of item) \<Longrightarrow> is_digit c \<or> c = CHR ''-'' \<or> c = CHR ''*''"
proof -
  have "0 \<le> ci_start item" "0 \<le> ci_end item" using assms(1) field_range_bounds [OF assms(2)] by (auto simp: item_ok_def)
  note d = show_int_nonneg [OF this(1)] show_int_nonneg [OF this(2)]
  show "base_of item \<noteq> []" "c \<in> set (base_of item) \<Longrightarrow> is_digit c \<or> c = CHR ''-'' \<or> c = CHR ''*''"
    using d by (auto simp: base_of_def all_digits_def split: if_splits)
qed

lemma reread_same [simp]:
  "values_of i (reread item) = values_of i item" "ci_wildcard (reread item) = ci_wildcard item"
  "ci_range (reread item) = ci_range item" "ci_start (reread item) = ci_start item" "ci_end (reread item) = ci_end item"
  "expanded i (reread item) = expanded i item" "base_of (reread item) = base_of item" "reread (reread item) = reread item"
  by (auto simp: reread_def values_of_def step_of_def expanded_def base_of_def split: option.splits)

lemma item_ok_reread: "item_ok i item \<Longrightarrow> item_ok i (reread item)"
  by (auto simp: item_ok_def reread_def)

lemma reparse_item:
  assumes "item_ok i item" "i < 5" "\<not> expanded i item"
  shows "parse_item i (normalized_item i item) = Inr (reread item)"
proof -
  note ok = item_ok_reread [OF assms(1)]
  have st: "0 \<le> ci_start item" "0 \<le> ci_end item" using assms(1) field_range_bounds [OF assms(2)] by (auto simp: item_ok_def)
  note d = show_int_nonneg [OF st(1)] show_int_nonneg [OF st(2)]
  note b = parseBounded_show [OF assms(2)]
  have "CHR ''/'' \<notin> set (base_of item)" using base_of_chars(2) [OF assms(1,2)] digit_not_punctuation by fastforce
  then have eq: "parse_item i (normalized_item i item) = parse_item i (base_of item @ slash (ci_step (reread item)))"
    and slash: "CHR ''/'' \<notin> set (base_of item)"
    using normalized_item_base [OF assms(1,3)] by simp_all
  have step: "\<forall>s. ci_step (reread item) = Some s \<longrightarrow> 1 \<le> s \<and> is_safe_integer s" using ok by (simp add: item_ok_def)
  note base = parse_item_base [OF slash base_of_chars(1) [OF assms(1,2)] step assms(2)]
  consider (wild) "ci_wildcard item" | (range) "\<not> ci_wildcard item" "ci_range item" | (single) "\<not> ci_wildcard item" "\<not> ci_range item"
    by blast
  then show ?thesis
  proof cases
    case wild
    then have "reread item = \<lparr>ci_start = fst (field_range i), ci_end = snd (field_range i), ci_range = False, ci_wildcard = True, ci_step = ci_step (reread item)\<rparr>"
      using ok by (auto simp: item_ok_def intro: cron_item.equality)
    then show ?thesis unfolding eq base using wild by (simp add: base_of_def)
  next
    case range
    have split: "js_split (CHR ''-'') (base_of item) = [show_int (ci_start item), show_int (ci_end item)]"
      using all_digits_not [OF d(1)] all_digits_not [OF d(4)] range by (simp add: base_of_def js_split_app js_split_no)
    have nd: "\<not> all_digits (base_of item)" "base_of item \<noteq> ''*''"
      using range digit_not_punctuation [of "CHR ''-''"] all_digits_not [OF d(1)] d(1)
      by (auto simp: base_of_def all_digits_def list_all_iff append_eq_Cons_conv)
    have "reread item = \<lparr>ci_start = ci_start item, ci_end = ci_end item, ci_range = True, ci_wildcard = False, ci_step = ci_step (reread item)\<rparr>"
      using range by (auto intro: cron_item.equality)
    then show ?thesis unfolding eq base using nd d(1,4) b assms(1) by (simp add: split item_ok_def)
  next
    case single
    have nd: "all_digits (base_of item)" "base_of item \<noteq> ''*''" "base_of item = show_int (ci_start item)"
      using single d(1) all_digits_not [OF d(1), of "CHR ''*''"] by (auto simp: base_of_def)
    have "reread item = \<lparr>ci_start = ci_start item, ci_end = (if ci_step (reread item) \<noteq> None then snd (field_range i) else ci_start item),
        ci_range = False, ci_wildcard = False, ci_step = ci_step (reread item)\<rparr>"
      using single ok by (auto simp: item_ok_def intro: cron_item.equality)
    then show ?thesis unfolding eq base using nd b assms(1) by (simp add: item_ok_def)
  qed
qed

text \<open>A canonical part is one that a normalised field may contain: it is read as an item that is
  written back as the same part.\<close>

definition part_values :: "nat \<Rightarrow> string \<Rightarrow> int set" where
  "part_values i w = (case parse_item i w of Inr item \<Rightarrow> set (values_of i item) | Inl _ \<Rightarrow> {})"

definition part_ok :: "nat \<Rightarrow> string \<Rightarrow> bool" where
  "part_ok i w \<longleftrightarrow> (\<exists>item. parse_item i w = Inr item \<and> normalized_item i item = w)
     \<and> w \<noteq> [] \<and> (\<forall>c \<in> set w. c \<noteq> CHR '','' \<and> \<not> js_space c)"

lemma slash_chars:
  assumes "\<forall>s. q = Some s \<longrightarrow> 1 \<le> s \<and> is_safe_integer s" "c \<in> set (slash q)"
  shows "c \<noteq> CHR '','' \<and> \<not> js_space c"
proof (cases q)
  case (Some s)
  have "\<not> js_space (CHR ''/'')" by (simp add: js_space_def)
  then show ?thesis using assms Some show_int_nonneg(3) [of s c] digit_not_punctuation [of c] by (auto simp: slash_def)
qed (use assms(2) in \<open>simp add: slash_def\<close>)

lemma plain_part:
  assumes "item_ok i item" "i < 5" "\<not> expanded i item"
  shows "part_ok i (normalized_item i item)" "part_values i (normalized_item i item) = set (values_of i item)"
    "js_split (CHR '','') (normalized_item i item) = [normalized_item i item]"
proof -
  note ok = item_ok_reread [OF assms(1)]
  have n: "normalized_item i item = base_of item @ slash (ci_step (reread item))" using normalized_item_base [OF assms(1,3)] .
  have same: "normalized_item i (reread item) = normalized_item i item"
    using normalized_item_base [OF ok] assms(3) n by simp
  have sp: "\<not> js_space (CHR ''-'')" "\<not> js_space (CHR ''*'')" by (simp_all add: js_space_def)
  have step: "\<forall>s. ci_step (reread item) = Some s \<longrightarrow> 1 \<le> s \<and> is_safe_integer s" using ok by (simp add: item_ok_def)
  have chars: "c \<noteq> CHR '','' \<and> \<not> js_space c" if "c \<in> set (normalized_item i item)" for c
  proof (cases "c \<in> set (base_of item)")
    case True
    from base_of_chars(2) [OF assms(1,2) True] show ?thesis using digit_not_punctuation [of c] sp by auto
  next
    case False
    then show ?thesis using that slash_chars [OF step] by (auto simp: n)
  qed
  then show "part_ok i (normalized_item i item)"
    using reparse_item [OF assms] same base_of_chars(1) [OF assms(1,2)] n by (auto simp: part_ok_def)
  show "part_values i (normalized_item i item) = set (values_of i item)"
    using reparse_item [OF assms] by (simp add: part_values_def)
  show "js_split (CHR '','') (normalized_item i item) = [normalized_item i item]"
    using chars by (intro js_split_no) blast
qed

lemma day_part:
  assumes "0 \<le> v" "v \<le> 6"
  shows "part_ok 4 (show_int v)" "part_values 4 (show_int v) = {v}" "CHR '','' \<notin> set (show_int v)"
proof -
  let ?item = "\<lparr>ci_start = v, ci_end = v, ci_range = False, ci_wildcard = False, ci_step = None\<rparr>"
  have ok: "item_ok 4 ?item" "\<not> expanded 4 ?item" "normalized_item 4 ?item = show_int v"
    using assms by (auto simp: item_ok_def expanded_def field_range_def normalized_item_def sunday_def)
  have vals: "set (values_of 4 ?item) = {v}" using assms
    by (subst values_of_def, subst item_values.simps, subst item_values.simps) (auto simp: sunday_def step_of_def)
  note p = plain_part [OF ok(1) _ ok(2)]
  show "part_ok 4 (show_int v)" "part_values 4 (show_int v) = {v}" using p ok(3) vals by simp_all
  show "CHR '','' \<notin> set (show_int v)" using all_digits_not [OF show_int_nonneg(1) [OF assms(1)]] by simp
qed

lemma values_of_nonempty: "item_ok i item \<Longrightarrow> values_of i item \<noteq> []"
  unfolding values_of_def by (subst item_values.simps) (auto simp: item_ok_def)

lemma expanded_parts:
  assumes "item_ok 4 item" "expanded 4 item"
  shows "js_split (CHR '','') (normalized_item 4 item) = map show_int (js_dedup (values_of 4 item))"
    "w \<in> set (map show_int (js_dedup (values_of 4 item))) \<Longrightarrow> part_ok 4 w"
    "(\<Union>w \<in> set (map show_int (js_dedup (values_of 4 item))). part_values 4 w) = set (values_of 4 item)"
proof -
  have v: "0 \<le> v \<and> v \<le> 6" if "v \<in> set (values_of 4 item)" for v
  proof -
    have "v \<in> {0..7}" "v \<noteq> 7" using values_of_range [OF assms(1)] that by (auto simp: field_range_def)
    then show ?thesis by simp
  qed
  have "values_of 4 item \<noteq> []" using values_of_nonempty [OF assms(1)] .
  then have ne: "js_dedup (values_of 4 item) \<noteq> []" by (metis set_empty set_js_dedup)
  have "normalized_item 4 item = join_with '','' (map show_int (js_dedup (values_of 4 item)))"
    using assms(2) by (simp add: normalized_item_def expanded_def)
  then show "js_split (CHR '','') (normalized_item 4 item) = map show_int (js_dedup (values_of 4 item))"
    using ne day_part(3) v by (auto intro!: js_split_join)
  show "w \<in> set (map show_int (js_dedup (values_of 4 item))) \<Longrightarrow> part_ok 4 w" using day_part(1) v by auto
  show "(\<Union>w \<in> set (map show_int (js_dedup (values_of 4 item))). part_values 4 w) = set (values_of 4 item)"
    using day_part(2) v by auto
qed

lemma item_parts:
  assumes "item_ok i item" "i < 5"
  shows "\<forall>w \<in> set (js_split (CHR '','') (normalized_item i item)). part_ok i w"
    "(\<Union>w \<in> set (js_split (CHR '','') (normalized_item i item)). part_values i w) = set (values_of i item)"
proof -
  have "expanded i item \<Longrightarrow> i = 4" by (simp add: expanded_def)
  then show "\<forall>w \<in> set (js_split (CHR '','') (normalized_item i item)). part_ok i w"
    "(\<Union>w \<in> set (js_split (CHR '','') (normalized_item i item)). part_values i w) = set (values_of i item)"
    using plain_part [OF assms] expanded_parts [of item] assms by (cases "expanded i item"; auto)+
qed

text \<open>A wildcard is written back as itself, except in the day of week.\<close>

lemma star_item:
  assumes "item_ok i item" "i < 5"
  shows "''*'' \<in> set (js_split (CHR '','') (normalized_item i item)) \<longleftrightarrow> i \<noteq> 4 \<and> ci_wildcard item \<and> ci_step item = None"
proof (cases "expanded i item")
  case True
  then have i: "i = 4" by (simp add: expanded_def)
  have "''*'' \<noteq> show_int v" if "v \<in> set (values_of 4 item)" for v
  proof -
    have "0 \<le> v" using values_of_range [OF assms] that i by (auto simp: field_range_def)
    then show ?thesis using all_digits_not [OF show_int_nonneg(1), of v "CHR ''*''"] by (metis insertCI list.set_intros(1))
  qed
  then show ?thesis using expanded_parts(1) [of item] True assms i by (auto simp: set_js_dedup)
next
  case False
  have st: "0 \<le> ci_start item" using assms(1) field_range_bounds [OF assms(2)] by (auto simp: item_ok_def)
  have "CHR ''*'' \<notin> set (show_int (ci_start item))" "show_int (ci_start item) \<noteq> []"
    using all_digits_not [OF show_int_nonneg(1) [OF st]] show_int_nonneg(1) [OF st] by (auto simp: all_digits_def)
  then have "normalized_item i item = ''*'' \<longleftrightarrow> ci_wildcard item \<and> ci_step (reread item) = None"
    unfolding normalized_item_base [OF assms(1) False]
    by (auto simp: base_of_def slash_def append_eq_Cons_conv split: option.splits)
  moreover have "ci_wildcard item \<Longrightarrow> reread item = item" using assms(1) by (auto simp: item_ok_def reread_def)
  moreover have "ci_wildcard item \<Longrightarrow> i \<noteq> 4" using assms(1) False by (auto simp: item_ok_def expanded_def field_range_def)
  ultimately show ?thesis unfolding plain_part(3) [OF assms False] by auto
qed

definition parts_inv :: "nat \<Rightarrow> int list \<times> string list \<times> bool \<Rightarrow> bool" where
  "parts_inv i acc \<longleftrightarrow> (case acc of (vals, parts, unrestricted) \<Rightarrow>
     distinct parts \<and> (\<forall>w \<in> set parts. part_ok i w) \<and> set vals = (\<Union>w \<in> set parts. part_values i w)
     \<and> (''*'' \<in> set parts \<longleftrightarrow> i \<noteq> 4 \<and> unrestricted))"

lemma add_item_inv: "parts_inv i acc \<Longrightarrow> item_ok i item \<Longrightarrow> i < 5 \<Longrightarrow> parts_inv i (add_item i item acc)"
  using item_parts [of i item] star_item [of i item]
  by (cases acc) (auto simp: parts_inv_def add_item_def)

lemma parse_items_inv:
  "parse_items i parts acc = Inr acc' \<Longrightarrow> i < 5 \<Longrightarrow> parts_inv i acc \<Longrightarrow> parts_inv i acc'"
proof (induction i parts acc rule: parse_items.induct)
  case (2 i part parts acc)
  then obtain item where "parse_item i part = Inr item" "parse_items i parts (add_item i item acc) = Inr acc'" by auto
  then show ?case using 2 add_item_inv parse_item_ok by blast
qed simp

text \<open>Reading canonical parts again writes the same parts.\<close>

lemma part_not_star:
  assumes "part_ok 4 w" "parse_item 4 w = Inr item"
  shows "\<not> (ci_wildcard item \<and> ci_step item = None)"
proof
  assume wild: "ci_wildcard item \<and> ci_step item = None"
  let ?parts = "js_split (CHR ''/'') w"
  have "length ?parts \<le> 2" "length ?parts = 2 \<longrightarrow> ci_step item \<noteq> None" "hd ?parts = ''*''"
    using assms(2) wild by (auto simp: parse_item_def Let_def split: if_splits dest!: map_sum_Some_Inr)
  then obtain x where "?parts = [x]" "x = ''*''" using wild js_split_nonempty [of "CHR ''/''" w]
    by (cases ?parts; cases "tl ?parts") auto
  then have w: "w = ''*''" using js_split_single by metis
  have "''*'' \<notin> set (js_split (CHR '','') w)"
    using star_item [OF parse_item_ok [OF assms(2)]] assms by (auto simp: part_ok_def)
  then show False by (simp add: w)
qed

lemma reparse_parts:
  assumes "\<forall>w \<in> set parts. part_ok i w" "distinct (done @ parts)" "i < 5"
  shows "\<exists>vals' u'. parse_items i parts (vals, done, u) = Inr (vals', done @ parts, u') \<and> (i = 4 \<longrightarrow> u' = u)"
  using assms(1,2)
proof (induction parts arbitrary: vals "done" u)
  case (Cons w parts)
  then obtain item where item: "parse_item i w = Inr item" "normalized_item i item = w" and c: "CHR '','' \<notin> set w"
    by (auto simp: part_ok_def)
  have "add_item i item (vals, done, u) = (fold js_set_add (values_of i item) vals, done @ [w], u \<or> ci_wildcard item \<and> ci_step item = None)"
    using Cons.prems(2) item(2) js_split_no [OF c] by (simp add: add_item_def js_set_add_def)
  moreover have "i = 4 \<Longrightarrow> \<not> (ci_wildcard item \<and> ci_step item = None)" using part_not_star item(1) Cons.prems(1) by auto
  moreover obtain vals' u' where
    "parse_items i parts (fold js_set_add (values_of i item) vals, done @ [w], u \<or> ci_wildcard item \<and> ci_step item = None)
      = Inr (vals', (done @ [w]) @ parts, u')" "i = 4 \<longrightarrow> u' = (u \<or> ci_wildcard item \<and> ci_step item = None)"
    using Cons.IH [of "done @ [w]"] Cons.prems by fastforce
  ultimately show ?case using item(1) by auto
qed simp

lemma parse_items_nonempty:
  "parse_items i parts acc = Inr (vals, ps, u) \<Longrightarrow> parts \<noteq> [] \<or> fst (snd acc) \<noteq> [] \<Longrightarrow> ps \<noteq> []"
proof (induction i parts acc rule: parse_items.induct)
  case (2 i part parts acc)
  then obtain item where item: "parse_item i part = Inr item" "parse_items i parts (add_item i item acc) = Inr (vals, ps, u)" by auto
  have "set (js_split (CHR '','') (normalized_item i item)) \<noteq> {}" by simp
  then have "set (fst (snd (add_item i item acc))) \<noteq> {}"
    unfolding add_item_def by (cases acc) (auto simp del: set_empty)
  then have "fst (snd (add_item i item acc)) \<noteq> []" by auto
  then show ?case using 2 item by blast
qed simp

lemma part_ok_parts:
  assumes "ps \<noteq> []" "\<forall>w \<in> set ps. part_ok i w"
  shows "js_split (CHR '','') (join_with '','' ps) = ps" "[] \<notin> set ps" "join_with '','' ps \<noteq> []"
    "c \<in> set (join_with '','' ps) \<Longrightarrow> \<not> js_space c"
proof -
  show "js_split (CHR '','') (join_with '','' ps) = ps" using assms by (intro js_split_join) (auto simp: part_ok_def)
  then show "join_with '','' ps \<noteq> []" using assms(2) by (metis js_split.simps(1) list.set_intros(1) part_ok_def)
  show "[] \<notin> set ps" using assms(2) by (auto simp: part_ok_def)
  have "\<not> js_space (CHR '','')" by (simp add: js_space_def)
  moreover have "\<forall>w \<in> set ps. \<forall>c \<in> set w. \<not> js_space c" using assms(2) by (simp add: part_ok_def)
  ultimately show "c \<in> set (join_with '','' ps) \<Longrightarrow> \<not> js_space c"
    by (induction "'',''" ps rule: join_with.induct) auto
qed

definition same_field :: "nat \<Rightarrow> cron_field \<Rightarrow> cron_field \<Rightarrow> bool" where
  "same_field i f f' \<longleftrightarrow> cf_normalized f' = cf_normalized f \<and> set (cf_values f') = set (cf_values f)
     \<and> (cf_unrestricted f' \<longleftrightarrow> i \<noteq> 4 \<and> cf_unrestricted f)"

lemma reparse_field:
  assumes "parseCronField i s = Inr f" "i < 5"
  shows "\<exists>f'. parseCronField i (cf_normalized f) = Inr f' \<and> same_field i f f'"
    "cf_normalized f \<noteq> []" "c \<in> set (cf_normalized f) \<Longrightarrow> \<not> js_space c"
proof -
  from assms(1) obtain vals ps u where p: "parse_items i (js_split (CHR '','') s) ([], [], False) = Inr (vals, ps, u)"
    and f: "f = \<lparr>cf_values = vals, cf_normalized = join_with '','' ps, cf_unrestricted = u\<rparr>"
    by (auto simp: parseCronField_def Let_def split: if_splits)
  have empty: "parts_inv i ([], [], False)" by (simp add: parts_inv_def)
  have inv: "parts_inv i (vals, ps, u)" using parse_items_inv [OF p assms(2) empty] .
  then have ok: "\<forall>w \<in> set ps. part_ok i w" "distinct ps" by (auto simp: parts_inv_def)
  have ne: "ps \<noteq> []" using parse_items_nonempty [OF p] by simp
  note parts = part_ok_parts [OF ne ok(1)]
  obtain vals' u' where p': "parse_items i ps ([], [], False) = Inr (vals', ps, u')" and wild: "i = 4 \<longrightarrow> \<not> u'"
    using reparse_parts [OF ok(1) _ assms(2), of "[]" "[]" False] ok(2) by auto
  have inv': "parts_inv i (vals', ps, u')" using parse_items_inv [OF p' assms(2) empty] .
  show "\<exists>f'. parseCronField i (cf_normalized f) = Inr f' \<and> same_field i f f'"
    using inv inv' wild ne parts(1,2) p' by (auto simp: f parseCronField_def same_field_def parts_inv_def)
  show "cf_normalized f \<noteq> []" "c \<in> set (cf_normalized f) \<Longrightarrow> \<not> js_space c" using parts(3,4) by (auto simp: f)
qed

lemma split_space_word: "\<forall>c \<in> set w. \<not> js_space c \<Longrightarrow> split_space w = [w]"
  by (induction w) auto

lemma split_space_app:
  assumes "\<forall>c \<in> set w. \<not> js_space c" "rest \<noteq> []" "\<not> js_space (hd rest)"
  shows "split_space (w @ '' '' @ rest) = w # split_space rest"
proof -
  have "dropWhile js_space rest = rest" using assms(2,3) by (cases rest) auto
  moreover have "js_space (CHR '' '')" by (simp add: js_space_def)
  ultimately show ?thesis using assms(1) by (induction w) auto
qed

lemma join_hd: "ws \<noteq> [] \<Longrightarrow> hd ws \<noteq> [] \<Longrightarrow> join_with sep ws \<noteq> [] \<and> hd (join_with sep ws) = hd (hd ws)"
  by (induction sep ws rule: join_with.induct) auto

lemma join_last: "ws \<noteq> [] \<Longrightarrow> last ws \<noteq> [] \<Longrightarrow> join_with sep ws \<noteq> [] \<and> last (join_with sep ws) = last (last ws)"
  by (induction sep ws rule: join_with.induct) auto

lemma split_space_join:
  assumes "ws \<noteq> []" "\<forall>w \<in> set ws. w \<noteq> [] \<and> (\<forall>c \<in> set w. \<not> js_space c)"
  shows "split_space (join_with '' '' ws) = ws"
  using assms
proof (induction "'' ''" ws rule: join_with.induct)
  case (3 x y ys)
  have "join_with '' '' (y # ys) \<noteq> []" "\<not> js_space (hd (join_with '' '' (y # ys)))"
    using join_hd [of "y # ys" "'' ''"] 3(3) by auto
  with split_space_app [of x] 3 show ?case by simp
qed (auto simp: split_space_word)

text \<open>The normal form of an expression: the same fields in the same words, every field matching
  the same values; a day of week is never unrestricted in it.\<close>

definition same_cron :: "cron \<Rightarrow> cron \<Rightarrow> bool" where
  "same_cron p q \<longleftrightarrow> cr_normalized q = cr_normalized p
     \<and> same_field 0 (cr_minute p) (cr_minute q) \<and> same_field 1 (cr_hour p) (cr_hour q)
     \<and> same_field 2 (cr_dayOfMonth p) (cr_dayOfMonth q) \<and> same_field 3 (cr_month p) (cr_month q)
     \<and> same_field 4 (cr_dayOfWeek p) (cr_dayOfWeek q)"

lemma reparse_cron:
  assumes "parsePortableCron e = Inr p" "length (cr_normalized p) \<le> 1024"
  shows "\<exists>q. parsePortableCron (cr_normalized p) = Inr q \<and> same_cron p q"
proof -
  from assms(1) obtain s0 s1 s2 s3 s4 where f: "parseCronField 0 s0 = Inr (cr_minute p)" "parseCronField 1 s1 = Inr (cr_hour p)"
    "parseCronField 2 s2 = Inr (cr_dayOfMonth p)" "parseCronField 3 s3 = Inr (cr_month p)" "parseCronField 4 s4 = Inr (cr_dayOfWeek p)"
    and n: "cr_normalized p = join_with '' '' (map cf_normalized [cr_minute p, cr_hour p, cr_dayOfMonth p, cr_month p, cr_dayOfWeek p])"
    by (auto simp: parsePortableCron_def Let_def split: if_splits)
  let ?ws = "map cf_normalized [cr_minute p, cr_hour p, cr_dayOfMonth p, cr_month p, cr_dayOfWeek p]"
  have ws: "\<forall>w \<in> set ?ws. w \<noteq> [] \<and> (\<forall>c \<in> set w. \<not> js_space c)"
    using reparse_field(2,3) [OF f(1)] reparse_field(2,3) [OF f(2)] reparse_field(2,3) [OF f(3)]
      reparse_field(2,3) [OF f(4)] reparse_field(2,3) [OF f(5)] by simp
  have hd: "hd (hd ?ws) \<in> set (hd ?ws)" "last (last ?ws) \<in> set (last ?ws)" using ws by simp_all
  have "join_with '' '' ?ws \<noteq> [] \<and> \<not> js_space (hd (join_with '' '' ?ws)) \<and> \<not> js_space (last (join_with '' '' ?ws))"
    using join_hd [of ?ws "'' ''"] join_last [of ?ws "'' ''"] ws hd by simp
  then have trim: "js_trim (cr_normalized p) = cr_normalized p" "cr_normalized p \<noteq> []" using js_trim_id n by auto
  have split: "split_space (cr_normalized p) = ?ws" using split_space_join [OF _ ws] n by simp
  obtain q0 q1 q2 q3 q4 where
    q: "parseCronField 0 (cf_normalized (cr_minute p)) = Inr q0" "parseCronField 1 (cf_normalized (cr_hour p)) = Inr q1"
      "parseCronField 2 (cf_normalized (cr_dayOfMonth p)) = Inr q2" "parseCronField 3 (cf_normalized (cr_month p)) = Inr q3"
      "parseCronField 4 (cf_normalized (cr_dayOfWeek p)) = Inr q4"
    and same: "same_field 0 (cr_minute p) q0" "same_field 1 (cr_hour p) q1" "same_field 2 (cr_dayOfMonth p) q2"
      "same_field 3 (cr_month p) q3" "same_field 4 (cr_dayOfWeek p) q4"
    using reparse_field(1) [OF f(1)] reparse_field(1) [OF f(2)] reparse_field(1) [OF f(3)]
      reparse_field(1) [OF f(4)] reparse_field(1) [OF f(5)] by auto
  have "cr_normalized p = join_with '' '' (map cf_normalized [q0, q1, q2, q3, q4])"
    using same n by (simp add: same_field_def)
  then show ?thesis
    using trim split q same assms(2) by (auto simp: parsePortableCron_def same_cron_def)
qed

end
