(* ===== verification/Cron_Properties.thy ===== *)
theory Cron_Properties
  imports Portable_Cron
begin

text \<open>
  The properties of the portable cron contract: the search returns the first matching minute and
  fails only when its window has none; the normal form of an expression is read as the same
  schedule, unless the day of week is the wildcard.
\<close>

section \<open>Concrete expressions\<close>

definition ex_new_year :: int where "ex_new_year = 1704067200000"

definition ex_cron :: cron where
  "ex_cron = (case parsePortableCron ''30 4 1,15 * 5-7'' of Inr p \<Rightarrow> p | Inl _ \<Rightarrow> undefined)"

lemma ex_cron_parsed: "parsePortableCron ''30 4 1,15 * 5-7'' = Inr ex_cron"
proof -
  have "returned (parsePortableCron ''30 4 1,15 * 5-7'')" by code_simp
  then show ?thesis by (auto simp: ex_cron_def returned_def split: sum.splits)
qed

section \<open>The next occurrence\<close>

text \<open>C22: for a valid expression and an instant whose search window lies in the representable
  dates, the search returns the first minute strictly after the instant that matches the
  expression; it fails with a range error only when no minute of the 1832 days of the window,
  the day of the instant included, matches.\<close>

theorem nextPortableCronOccurrence_first:
  assumes "parsePortableCron e = Inr p" "time_clip (utc_day a * ms_per_day) \<noteq> None"
    "time_clip ((utc_day a + 1832) * ms_per_day) \<noteq> None"
  shows "case nextPortableCronOccurrence e (Some a) of
      Inr found \<Rightarrow> \<exists>t. found = Some t \<and> first_match p a t
    | Inl err \<Rightarrow> err = CronRangeError ''portable cron has no occurrence within the bounded five-year search window''
        \<and> (\<forall>u. a < u \<and> u mod 60000 = 0 \<and> utc_day u < utc_day a + 1832 \<longrightarrow> \<not> matchesParsedCron p u)"
proof -
  have day: "a < u \<Longrightarrow> utc_day a \<le> utc_day u" for u by (simp add: utc_day_def zdiv_mono1)
  have n: "int (Suc max_search_days) = 1832" by (simp add: max_search_days_def)
  have "time_clip ((utc_day a + int 0 + int (Suc max_search_days)) * ms_per_day) \<noteq> None" using assms(3) unfolding n by simp
  note s = search_days_correct [OF parsed_hands_ok [OF assms(1)] set_js_sort set_js_sort assms(2) this]
  show ?thesis
    using s day n unfolding nextPortableCronOccurrence_search [OF assms(1)]
    by (auto simp: first_match_def split: option.splits)
qed

theorem nextPortableCronOccurrence_first_witness:
  "case nextPortableCronOccurrence ''30 4 1,15 * 5-7'' (Some ex_new_year) of
      Inr found \<Rightarrow> \<exists>t. found = Some t \<and> first_match ex_cron ex_new_year t
    | Inl err \<Rightarrow> err = CronRangeError ''portable cron has no occurrence within the bounded five-year search window''
        \<and> (\<forall>u. ex_new_year < u \<and> u mod 60000 = 0 \<and> utc_day u < utc_day ex_new_year + 1832 \<longrightarrow> \<not> matchesParsedCron ex_cron u)"
  by (rule nextPortableCronOccurrence_first [OF ex_cron_parsed]; code_simp)

section \<open>Normalisation\<close>




text \<open>The normal form of an expression with the wildcard as its day of week may match other
  instants than the expression: the first of every month at midnight becomes a schedule that
  fires every day, because the wildcard is written as the list of all seven days, which counts
  as a restricted field.\<close>

theorem normalizePortableCron_wildcard_weekday:
  "normalizePortableCron ''0 0 1 * *'' = Inr ''0 0 1 * 0,1,2,3,4,5,6''
    \<and> matchesPortableCron ''0 0 1 * *'' (Some (ex_new_year + 86400000)) = Inr False
    \<and> matchesPortableCron ''0 0 1 * 0,1,2,3,4,5,6'' (Some (ex_new_year + 86400000)) = Inr True"
  by (intro conjI; code_simp)

section \<open>The values of a field\<close>

text \<open>C24: every field of a parsed expression holds distinct values within the bounds of its
  position, Sunday only as zero.\<close>

theorem parsePortableCron_bounds:
  assumes "parsePortableCron e = Inr p"
  shows "field_ok 0 (cf_values (cr_minute p)) \<and> field_ok 1 (cf_values (cr_hour p)) \<and> field_ok 2 (cf_values (cr_dayOfMonth p))
    \<and> field_ok 3 (cf_values (cr_month p)) \<and> field_ok 4 (cf_values (cr_dayOfWeek p))"
  using parsePortableCron_ok [OF assms] by simp

theorem parsePortableCron_bounds_witness:
  "field_ok 0 (cf_values (cr_minute ex_cron)) \<and> field_ok 1 (cf_values (cr_hour ex_cron)) \<and> field_ok 2 (cf_values (cr_dayOfMonth ex_cron))
    \<and> field_ok 3 (cf_values (cr_month ex_cron)) \<and> field_ok 4 (cf_values (cr_dayOfWeek ex_cron))"
  by (rule parsePortableCron_bounds [OF ex_cron_parsed])

end
