(* ===== verification/Memory_Queue.thy ===== *)
theory Memory_Queue
  imports Json
begin

text \<open>
  The message queue (\<open>core/adapters/queue/types.ts\<close> and \<open>memory.ts\<close>): messages with priorities
  and delays, leases with a visibility timeout, acknowledgement, retry and dead letters. The
  adapter's private map, clock and id generator are the fields of a record; times are the ISO
  strings of the code and are compared as strings. \<open>localeCompare\<close> belongs to the platform and
  is the argument \<open>lc\<close>. Payloads are of any type; priorities and attempts are integers.
\<close>

section \<open>Messages and inputs\<close>

datatype queue_status = Queued | Leased | Acked | Dead

record 'p queue_message =
  qm_id :: string
  qm_queue :: string
  qm_payload :: 'p
  qm_status :: queue_status
  qm_priority :: int
  qm_attempts :: int
  qm_maxAttempts :: int
  qm_enqueuedAt :: string
  qm_availableAt :: string
  qm_leasedAt :: "string option"
  qm_leaseExpiresAt :: "string option"
  qm_leaseToken :: "string option"
  qm_deadLetteredAt :: "string option"
  qm_failureReason :: "string option"
  qm_metadata :: "(string, json) js_map"

record 'p queue_lease =
  ql_token :: string
  ql_message :: "'p queue_message"
  ql_leasedAt :: string
  ql_expiresAt :: string

record 'p enqueue_input =
  ei_queue :: string
  ei_payload :: 'p
  ei_messageId :: "string option"
  ei_priority :: "int option"
  ei_availableAt :: "string option"
  ei_maxAttempts :: "int option"
  ei_metadata :: "(string, json) js_map option"

record queue_lease_input =
  qi_queue :: string
  qi_visibilityTimeoutMs :: "int option"
  qi_now :: "string option"

record ack_input =
  ai_queue :: string
  ai_messageId :: string
  ai_leaseToken :: string

record nack_input = ack_input +
  ni_retry :: "bool option"
  ni_delayMs :: "int option"
  ni_reason :: "string option"
  ni_now :: "string option"

record dead_input = ack_input +
  di_reason :: "string option"
  di_now :: "string option"

datatype queue_error = MessageExists string string | MessageNotFound string string | LeaseNotFound string string | InvalidTime

record 'p queue =
  q_messages :: "(string, 'p queue_message) js_map"
  q_clock :: int
  q_newId :: "nat \<Rightarrow> string"
  q_next :: nat
  q_defaultVisibilityTimeoutMs :: int
  q_defaultMaxAttempts :: int

definition messageKey :: "string \<Rightarrow> string \<Rightarrow> string" where
  "messageKey queue messageId = queue @ [CHR 0x00] @ messageId"

section \<open>Operations\<close>

definition queue_now :: "'p queue \<Rightarrow> queue_error + string" where
  "queue_now w = (case to_iso_string (q_clock w) of None \<Rightarrow> Inl InvalidTime | Some s \<Rightarrow> Inr s)"

definition now_or_clock :: "string option \<Rightarrow> 'p queue \<Rightarrow> queue_error + string" where
  "now_or_clock given w = (case given of Some s \<Rightarrow> Inr s | None \<Rightarrow> queue_now w)"

text \<open>\<open>new Date(Date.parse(now) + ms).toISOString()\<close>\<close>

definition later :: "string \<Rightarrow> int \<Rightarrow> queue_error + string" where
  "later now ms = (case date_parse now of None \<Rightarrow> Inl InvalidTime
     | Some t \<Rightarrow> (case to_iso_string (t + ms) of None \<Rightarrow> Inl InvalidTime | Some s \<Rightarrow> Inr s))"

definition put_message :: "'p queue_message \<Rightarrow> 'p queue \<Rightarrow> 'p queue" where
  "put_message m w = w\<lparr>q_messages := js_set (messageKey (qm_queue m) (qm_id m)) m (q_messages w)\<rparr>"

definition unleased :: "'p queue_message \<Rightarrow> 'p queue_message" where
  "unleased m = m\<lparr>qm_leasedAt := None, qm_leaseExpiresAt := None, qm_leaseToken := None\<rparr>"

definition new_message :: "'p enqueue_input \<Rightarrow> string \<Rightarrow> string \<Rightarrow> 'p queue \<Rightarrow> 'p queue_message" where
  "new_message input messageId now w =
     \<lparr>qm_id = messageId, qm_queue = ei_queue input, qm_payload = ei_payload input, qm_status = Queued,
      qm_priority = (case ei_priority input of Some p \<Rightarrow> p | None \<Rightarrow> 0), qm_attempts = 0,
      qm_maxAttempts = (case ei_maxAttempts input of Some n \<Rightarrow> n | None \<Rightarrow> q_defaultMaxAttempts w),
      qm_enqueuedAt = now, qm_availableAt = (case ei_availableAt input of Some s \<Rightarrow> s | None \<Rightarrow> now),
      qm_leasedAt = None, qm_leaseExpiresAt = None, qm_leaseToken = None, qm_deadLetteredAt = None,
      qm_failureReason = None, qm_metadata = (case ei_metadata input of Some m \<Rightarrow> m | None \<Rightarrow> [])\<rparr>"

definition enqueue :: "'p enqueue_input \<Rightarrow> 'p queue \<Rightarrow> (queue_error + 'p queue_message) \<times> 'p queue" where
  "enqueue input w =
     (let (messageId, w1) = (case ei_messageId input of Some i \<Rightarrow> (i, w)
            | None \<Rightarrow> (''msg_'' @ q_newId w (q_next w), w\<lparr>q_next := q_next w + 1\<rparr>))
      in if js_has (q_messages w1) (messageKey (ei_queue input) messageId) then (Inl (MessageExists (ei_queue input) messageId), w1)
         else case queue_now w1 of Inl e \<Rightarrow> (Inl e, w1)
           | Inr now \<Rightarrow> (let message = new_message input messageId now w1 in (Inr message, put_message message w1)))"

definition lease_expired :: "string \<Rightarrow> 'p queue_message \<Rightarrow> bool" where
  "lease_expired now m \<longleftrightarrow> qm_status m = Leased
     \<and> (case qm_leaseExpiresAt m of None \<Rightarrow> False | Some e \<Rightarrow> e \<noteq> [] \<and> js_le e now)"

definition releaseExpiredLeases :: "string \<Rightarrow> 'p queue \<Rightarrow> 'p queue" where
  "releaseExpiredLeases now w =
     fold (\<lambda>m w. if lease_expired now m then put_message ((unleased m)\<lparr>qm_status := Queued\<rparr>) w else w)
       (js_values (q_messages w)) w"

definition message_order :: "(string \<Rightarrow> string \<Rightarrow> int) \<Rightarrow> 'p queue_message \<Rightarrow> 'p queue_message \<Rightarrow> int" where
  "message_order lc a b =
     (if qm_priority b - qm_priority a \<noteq> 0 then qm_priority b - qm_priority a
      else if lc (qm_availableAt a) (qm_availableAt b) \<noteq> 0 then lc (qm_availableAt a) (qm_availableAt b)
      else lc (qm_enqueuedAt a) (qm_enqueuedAt b))"

definition deliverable :: "string \<Rightarrow> string \<Rightarrow> 'p queue_message \<Rightarrow> bool" where
  "deliverable queue now m \<longleftrightarrow> qm_queue m = queue \<and> qm_status m = Queued \<and> js_le (qm_availableAt m) now"

definition leased_message :: "'p queue_message \<Rightarrow> string \<Rightarrow> string \<Rightarrow> string \<Rightarrow> 'p queue_message" where
  "leased_message candidate now expiresAt token =
     candidate\<lparr>qm_status := Leased, qm_attempts := qm_attempts candidate + 1,
       qm_leasedAt := Some now, qm_leaseExpiresAt := Some expiresAt, qm_leaseToken := Some token\<rparr>"

definition candidates :: "(string \<Rightarrow> string \<Rightarrow> int) \<Rightarrow> string \<Rightarrow> string \<Rightarrow> 'p queue \<Rightarrow> 'p queue_message list" where
  "candidates lc queue now w = js_sort (message_order lc) (filter (deliverable queue now) (js_values (q_messages w)))"

definition lease :: "(string \<Rightarrow> string \<Rightarrow> int) \<Rightarrow> queue_lease_input \<Rightarrow> 'p queue \<Rightarrow> (queue_error + 'p queue_lease option) \<times> 'p queue" where
  "lease lc input w =
     (case now_or_clock (qi_now input) w of Inl e \<Rightarrow> (Inl e, w)
      | Inr now \<Rightarrow>
          (let w1 = releaseExpiredLeases now w in
           case candidates lc (qi_queue input) now w1 of [] \<Rightarrow> (Inr None, w1)
           | candidate # _ \<Rightarrow>
               (let token = ''lease_'' @ q_newId w1 (q_next w1);
                    w2 = w1\<lparr>q_next := q_next w1 + 1\<rparr>
                in case later now (case qi_visibilityTimeoutMs input of Some t \<Rightarrow> t | None \<Rightarrow> q_defaultVisibilityTimeoutMs w1) of
                     Inl e \<Rightarrow> (Inl e, w2)
                   | Inr expiresAt \<Rightarrow>
                       (let leased = leased_message candidate now expiresAt token
                        in (Inr (Some \<lparr>ql_token = token, ql_message = leased, ql_leasedAt = now, ql_expiresAt = expiresAt\<rparr>),
                            put_message leased w2)))))"

definition requireLease :: "string \<Rightarrow> string \<Rightarrow> string \<Rightarrow> 'p queue \<Rightarrow> queue_error + 'p queue_message" where
  "requireLease queue messageId token w =
     (case js_get (q_messages w) (messageKey queue messageId) of
        None \<Rightarrow> Inl (MessageNotFound queue messageId)
      | Some m \<Rightarrow> if qm_status m \<noteq> Leased \<or> qm_leaseToken m \<noteq> Some token then Inl (LeaseNotFound queue messageId) else Inr m)"

definition set_message :: "string \<Rightarrow> string \<Rightarrow> 'p queue_message \<Rightarrow> 'p queue \<Rightarrow> 'p queue" where
  "set_message queue messageId m w = w\<lparr>q_messages := js_set (messageKey queue messageId) m (q_messages w)\<rparr>"

definition ack :: "ack_input \<Rightarrow> 'p queue \<Rightarrow> (queue_error + unit) \<times> 'p queue" where
  "ack input w =
     (case requireLease (ai_queue input) (ai_messageId input) (ai_leaseToken input) w of Inl e \<Rightarrow> (Inl e, w)
      | Inr m \<Rightarrow> (Inr (), set_message (ai_queue input) (ai_messageId input) (m\<lparr>qm_status := Acked\<rparr>) w))"

definition deadLetter :: "dead_input \<Rightarrow> 'p queue \<Rightarrow> (queue_error + 'p queue_message) \<times> 'p queue" where
  "deadLetter input w =
     (case requireLease (ai_queue input) (ai_messageId input) (ai_leaseToken input) w of Inl e \<Rightarrow> (Inl e, w)
      | Inr m \<Rightarrow>
          (case now_or_clock (di_now input) w of Inl e \<Rightarrow> (Inl e, w)
           | Inr now \<Rightarrow>
               (let dead = (unleased m)\<lparr>qm_status := Dead, qm_deadLetteredAt := Some now, qm_failureReason := di_reason input\<rparr>
                in (Inr dead, set_message (ai_queue input) (ai_messageId input) dead w))))"

definition nack :: "nack_input \<Rightarrow> 'p queue \<Rightarrow> (queue_error + 'p queue_message) \<times> 'p queue" where
  "nack input w =
     (case requireLease (ai_queue input) (ai_messageId input) (ai_leaseToken input) w of Inl e \<Rightarrow> (Inl e, w)
      | Inr m \<Rightarrow>
          (case now_or_clock (ni_now input) w of Inl e \<Rightarrow> (Inl e, w)
           | Inr now \<Rightarrow>
               if \<not> (case ni_retry input of Some b \<Rightarrow> b | None \<Rightarrow> True) \<or> qm_maxAttempts m \<le> qm_attempts m
               then deadLetter \<lparr>ai_queue = ai_queue input, ai_messageId = ai_messageId input, ai_leaseToken = ai_leaseToken input,
                      di_reason = ni_reason input, di_now = Some now\<rparr> w
               else case later now (case ni_delayMs input of Some d \<Rightarrow> d | None \<Rightarrow> 0) of Inl e \<Rightarrow> (Inl e, w)
                 | Inr availableAt \<Rightarrow>
                     (let queued = (unleased m)\<lparr>qm_status := Queued, qm_availableAt := availableAt, qm_failureReason := ni_reason input\<rparr>
                      in (Inr queued, set_message (ai_queue input) (ai_messageId input) queued w))))"

definition queue_get :: "string \<Rightarrow> string \<Rightarrow> 'p queue \<Rightarrow> 'p queue_message option" where
  "queue_get queue messageId w = js_get (q_messages w) (messageKey queue messageId)"

text \<open>An absent queue name, or an empty one, selects every queue.\<close>

definition of_queue :: "string option \<Rightarrow> 'p queue_message \<Rightarrow> bool" where
  "of_queue queue m \<longleftrightarrow> (case queue of None \<Rightarrow> True | Some q \<Rightarrow> q = [] \<or> qm_queue m = q)"

definition queue_list :: "string option \<Rightarrow> 'p queue \<Rightarrow> 'p queue_message list" where
  "queue_list queue w = filter (of_queue queue) (js_values (q_messages w))"

definition listDeadLetters :: "string option \<Rightarrow> 'p queue \<Rightarrow> 'p queue_message list" where
  "listDeadLetters queue w = filter (\<lambda>m. qm_status m = Dead \<and> of_queue queue m) (js_values (q_messages w))"

section \<open>Calls and the invariant\<close>

datatype 'p queue_call = QEnqueue "'p enqueue_input" | QLease queue_lease_input | QAck ack_input | QNack nack_input
  | QDead dead_input | QTick int

primrec run_call :: "(string \<Rightarrow> string \<Rightarrow> int) \<Rightarrow> 'p queue_call \<Rightarrow> 'p queue \<Rightarrow> 'p queue" where
  "run_call lc (QEnqueue i) w = snd (enqueue i w)"
| "run_call lc (QLease i) w = snd (lease lc i w)"
| "run_call lc (QAck i) w = snd (ack i w)"
| "run_call lc (QNack i) w = snd (nack i w)"
| "run_call lc (QDead i) w = snd (deadLetter i w)"
| "run_call lc (QTick t) w = w\<lparr>q_clock := t\<rparr>"

definition key_of :: "'p queue_message \<Rightarrow> string" where
  "key_of m = messageKey (qm_queue m) (qm_id m)"

text \<open>Every message is stored under its own key, and exactly the leased ones carry a lease, an
  acknowledged one keeping the fields of the lease it was acknowledged under.\<close>

definition message_ok :: "'p queue_message \<Rightarrow> bool" where
  "message_ok m \<longleftrightarrow> 0 \<le> qm_attempts m
     \<and> (qm_status m = Leased \<longrightarrow> qm_leaseToken m \<noteq> None \<and> qm_leaseExpiresAt m \<noteq> None \<and> qm_leasedAt m \<noteq> None \<and> 0 < qm_attempts m)
     \<and> (qm_status m \<in> {Queued, Dead} \<longrightarrow> qm_leaseToken m = None \<and> qm_leaseExpiresAt m = None \<and> qm_leasedAt m = None)
     \<and> (qm_status m = Dead \<longleftrightarrow> qm_deadLetteredAt m \<noteq> None)"

definition queue_inv :: "'p queue \<Rightarrow> bool" where
  "queue_inv w \<longleftrightarrow> js_wf (q_messages w) \<and> (\<forall>k m. js_get (q_messages w) k = Some m \<longrightarrow> k = key_of m \<and> message_ok m)"

definition released :: "string \<Rightarrow> 'p queue_message \<Rightarrow> 'p queue_message" where
  "released now m = (if lease_expired now m then (unleased m)\<lparr>qm_status := Queued\<rparr> else m)"

lemma put_message_simps [simp]:
  "q_messages (put_message m w) = js_set (key_of m) m (q_messages w)" "q_clock (put_message m w) = q_clock w"
  "q_newId (put_message m w) = q_newId w" "q_next (put_message m w) = q_next w"
  "q_defaultVisibilityTimeoutMs (put_message m w) = q_defaultVisibilityTimeoutMs w"
  by (simp_all add: put_message_def key_of_def)

lemma key_of_updates [simp]:
  "key_of (m\<lparr>qm_status := s\<rparr>) = key_of m" "key_of (m\<lparr>qm_attempts := n\<rparr>) = key_of m" "key_of (m\<lparr>qm_leasedAt := a\<rparr>) = key_of m"
  "key_of (m\<lparr>qm_leaseExpiresAt := a\<rparr>) = key_of m" "key_of (m\<lparr>qm_leaseToken := a\<rparr>) = key_of m"
  "key_of (m\<lparr>qm_deadLetteredAt := a\<rparr>) = key_of m" "key_of (m\<lparr>qm_failureReason := a\<rparr>) = key_of m"
  "key_of (m\<lparr>qm_availableAt := v\<rparr>) = key_of m" "key_of (unleased m) = key_of m" "key_of (released now m) = key_of m"
  by (simp_all add: key_of_def unleased_def released_def)

abbreviation release_fold :: "string \<Rightarrow> 'p queue_message list \<Rightarrow> 'p queue \<Rightarrow> 'p queue" where
  "release_fold now \<equiv> fold (\<lambda>m w. if lease_expired now m then put_message ((unleased m)\<lparr>qm_status := Queued\<rparr>) w else w)"

lemma release_fold_get:
  assumes "distinct (map key_of ms)"
  shows "js_get (q_messages (release_fold now ms w)) k =
    (case List.find (\<lambda>m. key_of m = k \<and> lease_expired now m) ms of Some m \<Rightarrow> Some (released now m) | None \<Rightarrow> js_get (q_messages w) k)"
  using assms
proof (induction ms arbitrary: w)
  case (Cons m ms)
  show ?case
  proof (cases "key_of m = k \<and> lease_expired now m")
    case True
    have "\<forall>x \<in> set ms. key_of m \<noteq> key_of x" using Cons.prems by (auto simp: image_iff)
    then have "List.find (\<lambda>m. key_of m = k \<and> lease_expired now m) ms = None" using True unfolding find_None_iff by metis
    then show ?thesis using True Cons by (simp add: released_def)
  next
    case False
    then show ?thesis using Cons by (auto split: option.splits)
  qed
qed simp

lemma release_fold_same [simp]:
  "q_clock (release_fold now ms w) = q_clock w" "q_newId (release_fold now ms w) = q_newId w" "q_next (release_fold now ms w) = q_next w"
  "q_defaultVisibilityTimeoutMs (release_fold now ms w) = q_defaultVisibilityTimeoutMs w"
  by (induction ms arbitrary: w) auto

lemma release_fold_wf: "js_wf (q_messages w) \<Longrightarrow> js_wf (q_messages (release_fold now ms w))"
  by (induction ms arbitrary: w) auto

lemma values_keys:
  assumes "queue_inv w"
  shows "map key_of (js_values (q_messages w)) = js_keys (q_messages w)" "distinct (map key_of (js_values (q_messages w)))"
proof -
  have "key_of m = k" if "(k, m) \<in> set (q_messages w)" for k m
    using assms that js_get_iff by (force simp: queue_inv_def)
  then show "map key_of (js_values (q_messages w)) = js_keys (q_messages w)" by (auto simp: js_values_def js_keys_def)
  then show "distinct (map key_of (js_values (q_messages w)))" using assms by (simp add: queue_inv_def js_wf_def)
qed

lemma in_values: "queue_inv w \<Longrightarrow> m \<in> set (js_values (q_messages w)) \<longleftrightarrow> js_get (q_messages w) (key_of m) = Some m"
  using js_get_iff [of "q_messages w"] by (force simp: queue_inv_def js_values_def)

lemma release_get:
  assumes "queue_inv w"
  shows "js_get (q_messages (releaseExpiredLeases now w)) k = map_option (released now) (js_get (q_messages w) k)"
proof -
  note g = release_fold_get [OF values_keys(2) [OF assms], of now w k]
  show ?thesis
  proof (cases "List.find (\<lambda>m. key_of m = k \<and> lease_expired now m) (js_values (q_messages w))")
    case None
    then have "\<not> lease_expired now m" if "js_get (q_messages w) k = Some m" for m
      using that assms in_values [OF assms, of m] by (auto simp: find_None_iff queue_inv_def)
    then show ?thesis using g None by (cases "js_get (q_messages w) k") (auto simp: releaseExpiredLeases_def released_def)
  next
    case (Some m)
    then have "m \<in> set (js_values (q_messages w))" "key_of m = k" by (auto simp: find_Some_iff)
    then have "js_get (q_messages w) k = Some m" using in_values [OF assms, of m] by simp
    then show ?thesis using g Some by (simp add: releaseExpiredLeases_def)
  qed
qed

lemma released_ok: "message_ok m \<Longrightarrow> message_ok (released now m)"
  by (auto simp: message_ok_def released_def unleased_def lease_expired_def)

lemma release_inv:
  assumes "queue_inv w"
  shows "queue_inv (releaseExpiredLeases now w)"
proof -
  have "js_wf (q_messages (releaseExpiredLeases now w))"
    using assms release_fold_wf by (auto simp: queue_inv_def releaseExpiredLeases_def)
  moreover have "k = key_of m \<and> message_ok m" if m: "js_get (q_messages (releaseExpiredLeases now w)) k = Some m" for k m
  proof -
    obtain m0 where "js_get (q_messages w) k = Some m0" "m = released now m0" using m by (auto simp: release_get [OF assms])
    then show ?thesis using assms released_ok by (auto simp: queue_inv_def)
  qed
  ultimately show ?thesis by (simp add: queue_inv_def)
qed

lemma release_same [simp]:
  "q_clock (releaseExpiredLeases now w) = q_clock w" "q_newId (releaseExpiredLeases now w) = q_newId w"
  "q_next (releaseExpiredLeases now w) = q_next w"
  "q_defaultVisibilityTimeoutMs (releaseExpiredLeases now w) = q_defaultVisibilityTimeoutMs w"
  by (simp_all add: releaseExpiredLeases_def)

text \<open>What an operation does to the stored messages: nothing, one message written under its own
  key, or a lease written after the expired ones were released.\<close>

lemma put_inv: "queue_inv w \<Longrightarrow> message_ok m \<Longrightarrow> queue_inv (put_message m w)"
  by (auto simp: queue_inv_def)

lemma set_put: "messageKey q i = key_of m \<Longrightarrow> set_message q i m w = put_message m w"
  by (simp add: set_message_def put_message_def key_of_def)

lemma requireLease_Inr:
  assumes "requireLease q i t w = Inr m" "queue_inv w"
  shows "js_get (q_messages w) (key_of m) = Some m" "messageKey q i = key_of m" "qm_status m = Leased" "qm_leaseToken m = Some t" "message_ok m"
proof -
  have "js_get (q_messages w) (messageKey q i) = Some m" "qm_status m = Leased" "qm_leaseToken m = Some t"
    using assms(1) by (auto simp: requireLease_def split: option.splits if_splits)
  then show "js_get (q_messages w) (key_of m) = Some m" "messageKey q i = key_of m" "qm_status m = Leased" "qm_leaseToken m = Some t" "message_ok m"
    using assms(2) by (auto simp: queue_inv_def)
qed

section \<open>The life of a message\<close>

inductive message_step :: "'p queue_message \<Rightarrow> 'p queue_message \<Rightarrow> bool" where
  leased: "qm_status m = Queued \<Longrightarrow> message_step m (m\<lparr>qm_status := Leased, qm_attempts := qm_attempts m + 1,
     qm_leasedAt := Some a, qm_leaseExpiresAt := Some e, qm_leaseToken := Some t\<rparr>)"
| expired: "qm_status m = Leased \<Longrightarrow> message_step m ((unleased m)\<lparr>qm_status := Queued\<rparr>)"
| acked: "qm_status m = Leased \<Longrightarrow> message_step m (m\<lparr>qm_status := Acked\<rparr>)"
| retried: "qm_status m = Leased \<Longrightarrow> qm_attempts m < qm_maxAttempts m \<Longrightarrow>
     message_step m ((unleased m)\<lparr>qm_status := Queued, qm_availableAt := a, qm_failureReason := r\<rparr>)"
| dead: "qm_status m = Leased \<Longrightarrow>
     message_step m ((unleased m)\<lparr>qm_status := Dead, qm_deadLetteredAt := Some a, qm_failureReason := r\<rparr>)"

text \<open>What no step of a message changes.\<close>

definition same_message :: "'p queue_message \<Rightarrow> 'p queue_message \<Rightarrow> bool" where
  "same_message m m' \<longleftrightarrow> qm_id m' = qm_id m \<and> qm_queue m' = qm_queue m \<and> qm_payload m' = qm_payload m
     \<and> qm_priority m' = qm_priority m \<and> qm_maxAttempts m' = qm_maxAttempts m \<and> qm_enqueuedAt m' = qm_enqueuedAt m
     \<and> qm_metadata m' = qm_metadata m \<and> qm_attempts m \<le> qm_attempts m' \<and> (qm_status m \<in> {Acked, Dead} \<longrightarrow> m' = m)"

inductive_cases message_step_elim: "message_step m m'"

lemma message_step_same: "message_step m m' \<Longrightarrow> same_message m m'"
  by (erule message_step_elim) (auto simp: same_message_def unleased_def)

lemma message_step_ok: "message_step m m' \<Longrightarrow> message_ok m \<Longrightarrow> message_ok m'"
  by (erule message_step_elim) (auto simp: message_ok_def unleased_def)

lemma message_steps_same: "message_step\<^sup>*\<^sup>* m m' \<Longrightarrow> same_message m m'"
proof (induction rule: rtranclp_induct)
  case (step y z)
  then show ?case using message_step_same [of y z] by (auto simp: same_message_def)
qed (simp add: same_message_def)

definition follows :: "'p queue \<Rightarrow> 'p queue \<Rightarrow> bool" where
  "follows w w' \<longleftrightarrow> queue_inv w' \<and>
     (\<forall>k m. js_get (q_messages w) k = Some m \<longrightarrow> (\<exists>m'. js_get (q_messages w') k = Some m' \<and> message_step\<^sup>*\<^sup>* m m'))"

lemma follows_same: "queue_inv w \<Longrightarrow> q_messages w' = q_messages w \<Longrightarrow> follows w w'"
  by (auto simp: follows_def queue_inv_def)

lemma follows_trans: "follows w w' \<Longrightarrow> follows w' w'' \<Longrightarrow> follows w w''"
  unfolding follows_def by (meson rtranclp_trans)

lemma follows_put:
  assumes "queue_inv w" "js_get (q_messages w) (key_of m) = Some m" "message_step m m'" "key_of m' = key_of m"
  shows "follows w (put_message m' w)"
proof -
  have "message_ok m'" using assms(1-3) message_step_ok by (auto simp: queue_inv_def)
  then have "queue_inv (put_message m' w)" using put_inv assms(1) by blast
  moreover have "\<exists>m2. js_get (q_messages (put_message m' w)) k = Some m2 \<and> message_step\<^sup>*\<^sup>* m1 m2"
    if "js_get (q_messages w) k = Some m1" for k m1
    using that assms(2-4) by (cases "k = key_of m") auto
  ultimately show ?thesis by (simp add: follows_def)
qed

lemma follows_release: "queue_inv w \<Longrightarrow> follows w (releaseExpiredLeases now w)"
  using release_get [of w now] release_inv [of w now]
  by (auto simp: follows_def released_def lease_expired_def intro!: r_into_rtranclp message_step.expired)

lemma new_message_simps [simp]: "key_of (new_message i mid now w) = messageKey (ei_queue i) mid" "message_ok (new_message i mid now w)"
  by (simp_all add: key_of_def new_message_def message_ok_def)

lemma follows_new: "queue_inv w \<Longrightarrow> \<not> js_has (q_messages w) (key_of m) \<Longrightarrow> message_ok m \<Longrightarrow> follows w (put_message m w)"
  using put_inv by (auto simp: follows_def js_has_def)

lemma follows_enqueue:
  assumes "queue_inv w"
  shows "follows w (snd (enqueue i w))"
proof -
  obtain mid w1 where w1: "(case ei_messageId i of Some x \<Rightarrow> (x, w) | None \<Rightarrow> (''msg_'' @ q_newId w (q_next w), w\<lparr>q_next := q_next w + 1\<rparr>)) = (mid, w1)"
    and same: "q_messages w1 = q_messages w"
    by (cases "ei_messageId i") auto
  have inv1: "queue_inv w1" using assms same by (simp add: queue_inv_def)
  have "follows w1 (snd (enqueue i w))"
    using follows_new [OF inv1] follows_same [OF inv1, of w1]
    unfolding enqueue_def w1 by (auto simp: Let_def split: sum.splits)
  then show ?thesis using same by (simp add: follows_def)
qed

text \<open>The outcomes of a lease call.\<close>

lemma lease_result:
  assumes "queue_inv w"
  obtains (clock) e where "now_or_clock (qi_now i) w = Inl e" "lease lc i w = (Inl e, w)"
  | (none) now where "now_or_clock (qi_now i) w = Inr now" "candidates lc (qi_queue i) now (releaseExpiredLeases now w) = []"
      "lease lc i w = (Inr None, releaseExpiredLeases now w)"
  | (late) now m ms e where "now_or_clock (qi_now i) w = Inr now" "candidates lc (qi_queue i) now (releaseExpiredLeases now w) = m # ms"
      "later now (case qi_visibilityTimeoutMs i of Some t \<Rightarrow> t | None \<Rightarrow> q_defaultVisibilityTimeoutMs w) = Inl e"
      "lease lc i w = (Inl e, (releaseExpiredLeases now w)\<lparr>q_next := q_next w + 1\<rparr>)"
  | (taken) now m ms e where "now_or_clock (qi_now i) w = Inr now" "candidates lc (qi_queue i) now (releaseExpiredLeases now w) = m # ms"
      "later now (case qi_visibilityTimeoutMs i of Some t \<Rightarrow> t | None \<Rightarrow> q_defaultVisibilityTimeoutMs w) = Inr e"
      "lease lc i w = (Inr (Some \<lparr>ql_token = ''lease_'' @ q_newId w (q_next w),
           ql_message = leased_message m now e (''lease_'' @ q_newId w (q_next w)), ql_leasedAt = now, ql_expiresAt = e\<rparr>),
         put_message (leased_message m now e (''lease_'' @ q_newId w (q_next w))) ((releaseExpiredLeases now w)\<lparr>q_next := q_next w + 1\<rparr>))"
proof (cases "now_or_clock (qi_now i) w")
  case (Inl e)
  then show ?thesis using clock by (simp add: lease_def)
next
  case (Inr now)
  let ?w1 = "releaseExpiredLeases now w"
  show ?thesis
  proof (cases "candidates lc (qi_queue i) now ?w1")
    case Nil
    then show ?thesis using none Inr by (simp add: lease_def Let_def)
  next
    case (Cons m ms)
    let ?e = "later now (case qi_visibilityTimeoutMs i of Some t \<Rightarrow> t | None \<Rightarrow> q_defaultVisibilityTimeoutMs w)"
    note eq = lease_def [of lc i w, unfolded Inr sum.case Let_def Cons list.case release_same]
    show ?thesis
    proof (cases ?e)
      case (Inl e)
      show ?thesis using late [OF Inr Cons Inl] eq unfolding Inl sum.case by blast
    next
      case exp: (Inr e)
      show ?thesis using taken [OF Inr Cons exp] eq unfolding exp sum.case by blast
    qed
  qed
qed

lemma candidate_stored:
  assumes "queue_inv w" "m \<in> set (candidates lc q now w)"
  shows "js_get (q_messages w) (key_of m) = Some m" "deliverable q now m"
  using assms in_values [OF assms(1)] by (auto simp: candidates_def)

lemma key_of_leased [simp]: "key_of (leased_message m now e t) = key_of m"
  by (simp add: leased_message_def)

lemma follows_lease:
  assumes "queue_inv w"
  shows "follows w (snd (lease lc i w))"
proof -
  have rel: "follows w ((releaseExpiredLeases now w)\<lparr>q_next := n\<rparr>)" for now n
    using follows_release [OF assms, of now] by (simp add: follows_def queue_inv_def)
  show ?thesis
  proof (cases rule: lease_result [OF assms, where lc = lc and i = i, case_names clock none late taken])
    case clock
    then show ?thesis using follows_same [OF assms] by simp
  next
    case none
    then show ?thesis using follows_release [OF assms] by simp
  next
    case late
    then show ?thesis using rel by simp
  next
    case (taken now m ms e)
    let ?w2 = "(releaseExpiredLeases now w)\<lparr>q_next := q_next w + 1\<rparr>"
    have m: "js_get (q_messages (releaseExpiredLeases now w)) (key_of m) = Some m" "deliverable (qi_queue i) now m"
      using candidate_stored [OF release_inv [OF assms]] taken(2) by (metis list.set_intros(1))+
    have inv2: "queue_inv ?w2" using rel by (simp add: follows_def)
    have "message_step m (leased_message m now e (''lease_'' @ q_newId w (q_next w)))"
      unfolding leased_message_def using m(2) by (intro message_step.leased) (simp add: deliverable_def)
    then have "follows ?w2 (snd (lease lc i w))" using follows_put [OF inv2] m(1) taken(4) by simp
    then show ?thesis using rel follows_trans by blast
  qed
qed

lemma follows_ack:
  assumes "queue_inv w"
  shows "follows w (snd (ack i w))"
proof (cases "requireLease (ai_queue i) (ai_messageId i) (ai_leaseToken i) w")
  case (Inr m)
  note r = requireLease_Inr [OF Inr assms]
  show ?thesis using follows_put [OF assms r(1) message_step.acked [OF r(3)]] r(2) by (simp add: ack_def Inr set_put)
qed (simp add: ack_def follows_same [OF assms])

lemma follows_dead:
  assumes "queue_inv w"
  shows "follows w (snd (deadLetter i w))"
proof (cases "requireLease (ai_queue i) (ai_messageId i) (ai_leaseToken i) w")
  case (Inr m)
  note r = requireLease_Inr [OF Inr assms]
  show ?thesis using follows_put [OF assms r(1) message_step.dead [OF r(3)]] r(2) follows_same [OF assms]
    by (simp add: deadLetter_def Inr set_put Let_def split: sum.splits)
qed (simp add: deadLetter_def follows_same [OF assms])

lemma follows_nack:
  assumes "queue_inv w"
  shows "follows w (snd (nack i w))"
proof (cases "requireLease (ai_queue i) (ai_messageId i) (ai_leaseToken i) w")
  case (Inr m)
  note r = requireLease_Inr [OF Inr assms]
  show ?thesis using follows_put [OF assms r(1) message_step.retried [OF r(3)]] r(2) follows_same [OF assms] follows_dead [OF assms]
    by (auto simp: nack_def Inr set_put Let_def split: sum.splits)
qed (simp add: nack_def follows_same [OF assms])

lemma run_call_follows: "queue_inv w \<Longrightarrow> follows w (run_call lc c w)"
  by (cases c) (auto simp: follows_enqueue follows_lease follows_ack follows_nack follows_dead intro: follows_same)

lemma run_calls_follow: "queue_inv w \<Longrightarrow> follows w (fold (run_call lc) cs w)"
proof (induction cs arbitrary: w)
  case (Cons c cs)
  then show ?case using run_call_follows [of w lc c] follows_trans by (fastforce simp: follows_def [of w "run_call lc c w"])
qed (simp add: follows_same)

section \<open>A lease excludes\<close>

text \<open>A call spares a lease when it does not present the lease's token for its message, and when
  a lease call comes before the lease has expired.\<close>

primrec spares :: "string \<Rightarrow> string \<Rightarrow> string \<Rightarrow> 'p queue \<Rightarrow> 'p queue_call \<Rightarrow> bool" where
  "spares k t e w (QEnqueue i) \<longleftrightarrow> True"
| "spares k t e w (QLease i) \<longleftrightarrow> (\<forall>now. now_or_clock (qi_now i) w = Inr now \<longrightarrow> \<not> js_le e now)"
| "spares k t e w (QAck i) \<longleftrightarrow> messageKey (ai_queue i) (ai_messageId i) \<noteq> k \<or> ai_leaseToken i \<noteq> t"
| "spares k t e w (QNack i) \<longleftrightarrow> messageKey (ai_queue i) (ai_messageId i) \<noteq> k \<or> ai_leaseToken i \<noteq> t"
| "spares k t e w (QDead i) \<longleftrightarrow> messageKey (ai_queue i) (ai_messageId i) \<noteq> k \<or> ai_leaseToken i \<noteq> t"
| "spares k t e w (QTick n) \<longleftrightarrow> True"

fun all_spare :: "(string \<Rightarrow> string \<Rightarrow> int) \<Rightarrow> string \<Rightarrow> string \<Rightarrow> string \<Rightarrow> 'p queue_call list \<Rightarrow> 'p queue \<Rightarrow> bool" where
  "all_spare lc k t e [] w \<longleftrightarrow> True"
| "all_spare lc k t e (c # cs) w \<longleftrightarrow> spares k t e w c \<and> all_spare lc k t e cs (run_call lc c w)"

definition leased_under :: "'p queue_message \<Rightarrow> string \<Rightarrow> string \<Rightarrow> bool" where
  "leased_under m t e \<longleftrightarrow> qm_status m = Leased \<and> qm_leaseToken m = Some t \<and> qm_leaseExpiresAt m = Some e"

lemma require_other:
  assumes "js_get (q_messages w) k = Some m" "leased_under m t e" "messageKey q i \<noteq> k \<or> t' \<noteq> t" "requireLease q i t' w = Inr m'"
  shows "messageKey q i \<noteq> k"
  using assms by (auto simp: requireLease_def leased_under_def split: if_splits)

lemma lease_spares:
  assumes "queue_inv w" "js_get (q_messages w) k = Some m" "leased_under m t e" "spares k t e w (QLease i)"
  shows "js_get (q_messages (snd (lease lc i w))) k = Some m"
    and "fst (lease lc i w) = Inr (Some l) \<Longrightarrow> key_of (ql_message l) \<noteq> k"
proof -
  have keep: "js_get (q_messages (releaseExpiredLeases now w)) k = Some m" if "now_or_clock (qi_now i) w = Inr now" for now
    using assms that by (auto simp: release_get released_def lease_expired_def leased_under_def)
  have other: "key_of m' \<noteq> k" if "now_or_clock (qi_now i) w = Inr now" "candidates lc (qi_queue i) now (releaseExpiredLeases now w) = m' # ms" for now m' ms
  proof
    assume k: "key_of m' = k"
    have "m' \<in> set (candidates lc (qi_queue i) now (releaseExpiredLeases now w))" using that(2) by simp
    from candidate_stored [OF release_inv [OF assms(1)] this] show False
      using keep [OF that(1)] assms(3) k by (auto simp: deliverable_def leased_under_def)
  qed
  show "js_get (q_messages (snd (lease lc i w))) k = Some m"
    by (rule lease_result [OF assms(1), of i lc]) (use assms(2) keep other in auto)
  show "key_of (ql_message l) \<noteq> k" if l: "fst (lease lc i w) = Inr (Some l)"
  proof (cases rule: lease_result [OF assms(1), where lc = lc and i = i, case_names clock none late taken])
    case (taken now m' ms e')
    have "key_of (ql_message l) = key_of m'" using l taken(4) by auto
    then show ?thesis using other [OF taken(1,2)] by simp
  qed (use l in auto)
qed

lemma spared_call:
  assumes "queue_inv w" "js_get (q_messages w) k = Some m" "leased_under m t e" "spares k t e w c"
  shows "js_get (q_messages (run_call lc c w)) k = Some m"
proof (cases c)
  case (QEnqueue i)
  then show ?thesis using assms(2) by (auto simp: enqueue_def Let_def js_has_def split: option.splits sum.splits)
next
  case (QLease i)
  then show ?thesis using lease_spares(1) [OF assms(1-3)] assms(4) by simp
next
  case (QAck i)
  then show ?thesis using assms(2,4) require_other [OF assms(2,3)]
    by (auto simp: ack_def set_message_def split: sum.splits)
next
  case (QNack i)
  then show ?thesis using assms(2,4) require_other [OF assms(2,3)]
    by (auto simp: nack_def deadLetter_def set_message_def Let_def split: sum.splits)
next
  case (QDead i)
  then show ?thesis using assms(2,4) require_other [OF assms(2,3)]
    by (auto simp: deadLetter_def set_message_def Let_def split: sum.splits)
qed (use assms(2) in simp)

lemma spared_calls:
  "queue_inv w \<Longrightarrow> js_get (q_messages w) k = Some m \<Longrightarrow> leased_under m t e \<Longrightarrow> all_spare lc k t e cs w \<Longrightarrow>
     queue_inv (fold (run_call lc) cs w) \<and> js_get (q_messages (fold (run_call lc) cs w)) k = Some m"
proof (induction cs arbitrary: w)
  case (Cons c cs)
  then show ?case using run_call_follows [of w lc c] spared_call [of w k m t e c lc] by (simp add: follows_def)
qed simp

section \<open>Every deliverable message is delivered\<close>

text \<open>What \<open>localeCompare\<close> promises: a consistent comparison.\<close>

definition collation :: "(string \<Rightarrow> string \<Rightarrow> int) \<Rightarrow> bool" where
  "collation lc \<longleftrightarrow> (\<forall>a b. lc a b < 0 \<longleftrightarrow> 0 < lc b a) \<and> (\<forall>a b c. lc a b \<le> 0 \<longrightarrow> lc b c \<le> 0 \<longrightarrow> lc a c \<le> 0)"

lemma collation_code_unit: "collation code_unit_compare"
proof -
  have "code_unit_compare a b < 0 \<longleftrightarrow> 0 < code_unit_compare b a" for a b
    using js_less_linear [of a b] js_less_trans [of a b a] by (auto simp: code_unit_compare_def)
  then show ?thesis unfolding collation_def code_unit_le using js_le_trans by blast
qed

lemma message_order_comparator:
  assumes "collation lc"
  shows "js_comparator (message_order lc)"
proof -
  have anti: "lc a b < 0 \<longleftrightarrow> 0 < lc b a" and trans: "lc a b \<le> 0 \<Longrightarrow> lc b c \<le> 0 \<Longrightarrow> lc a c \<le> 0" for a b c
    using assms unfolding collation_def by blast+
  have le: "message_order lc a b \<le> 0 \<longleftrightarrow> qm_priority b < qm_priority a \<or> qm_priority b = qm_priority a
      \<and> (lc (qm_availableAt a) (qm_availableAt b) < 0
         \<or> lc (qm_availableAt a) (qm_availableAt b) = 0 \<and> lc (qm_enqueuedAt a) (qm_enqueuedAt b) \<le> 0)" for a b
    by (auto simp: message_order_def)
  have tot: "lc a b \<le> 0 \<or> lc b a < 0" for a b using anti [of b a] by linarith
  have lt: "lc a b \<le> 0 \<Longrightarrow> lc b c < 0 \<Longrightarrow> lc a c < 0" "lc a b < 0 \<Longrightarrow> lc b c \<le> 0 \<Longrightarrow> lc a c < 0" for a b c
    using anti trans by (meson less_le_not_le linorder_not_le)+
  have "message_order lc a b \<le> 0 \<or> message_order lc b a \<le> 0" for a b
    unfolding le using tot [of "qm_availableAt a" "qm_availableAt b"] tot [of "qm_availableAt b" "qm_availableAt a"]
      tot [of "qm_enqueuedAt a" "qm_enqueuedAt b"] anti [of "qm_availableAt a" "qm_availableAt b"] by linarith
  moreover have "message_order lc a c \<le> 0" if "message_order lc a b \<le> 0" "message_order lc b c \<le> 0" for a b c
  proof -
    have eq: "lc x z = 0" if "lc x y = 0" "lc y z = 0" for x y z
      using trans [of x y z] lt(1) [of x y z] trans [of z y x] anti [of y x] anti [of z y] anti [of x z] anti [of z x] anti [of x y] anti [of y z] that
      by linarith
    show ?thesis using that trans [of "qm_enqueuedAt a" "qm_enqueuedAt b" "qm_enqueuedAt c"]
        lt [of "qm_availableAt a" "qm_availableAt b" "qm_availableAt c"] eq [of "qm_availableAt a" "qm_availableAt b" "qm_availableAt c"]
      unfolding le by fastforce
  qed
  ultimately show ?thesis by (auto simp: js_comparator_def)
qed

lemma candidate_first:
  assumes "queue_inv w" "collation lc" "candidates lc q now w = m # ms" "js_get (q_messages w) k = Some m'" "deliverable q now m'"
  shows "qm_priority m' \<le> qm_priority m"
proof -
  have "m' \<in> set (candidates lc q now w)" using assms(1,4,5) in_values [OF assms(1), of m'] by (auto simp: candidates_def queue_inv_def)
  then have "m' = m \<or> message_order lc m m' \<le> 0"
    using js_sort_sorted [OF message_order_comparator [OF assms(2)]] assms(3) by (metis candidates_def set_ConsD sorted_wrt.simps(2))
  then show ?thesis by (auto simp: message_order_def split: if_splits)
qed

definition pending_keys :: "string \<Rightarrow> string \<Rightarrow> 'p queue \<Rightarrow> string set" where
  "pending_keys q now w = {k. \<exists>m. js_get (q_messages (releaseExpiredLeases now w)) k = Some m \<and> deliverable q now m}"

lemma finite_pending [simp]: "finite (pending_keys q now w)"
proof -
  have "pending_keys q now w \<subseteq> fst ` set (q_messages (releaseExpiredLeases now w))"
    by (force simp: pending_keys_def dest: js_get_in_set)
  then show ?thesis using finite_surj by blast
qed

text \<open>A lease call at a given time whose lease outlives that time.\<close>

definition lease_window :: "queue_lease_input \<Rightarrow> 'p queue \<Rightarrow> string \<Rightarrow> string \<Rightarrow> bool" where
  "lease_window i w now e \<longleftrightarrow> qi_now i = Some now \<and> js_less now e
     \<and> later now (case qi_visibilityTimeoutMs i of Some t \<Rightarrow> t | None \<Rightarrow> q_defaultVisibilityTimeoutMs w) = Inr e"

lemma released_idem [simp]: "released now (released now m) = released now m"
  by (simp add: released_def lease_expired_def)

lemma lease_at:
  assumes "queue_inv w" "collation lc" "lease_window i w now e"
  shows "pending_keys (qi_queue i) now w = {} \<Longrightarrow> fst (lease lc i w) = Inr None"
    and "pending_keys (qi_queue i) now w \<noteq> {} \<Longrightarrow> \<exists>l w' m. lease lc i w = (Inr (Some l), w') \<and> queue_inv w' \<and> lease_window i w' now e
      \<and> js_get (q_messages (releaseExpiredLeases now w)) (key_of (ql_message l)) = Some m \<and> deliverable (qi_queue i) now m
      \<and> same_message m (ql_message l)
      \<and> (\<forall>k m'. js_get (q_messages (releaseExpiredLeases now w)) k = Some m' \<and> deliverable (qi_queue i) now m' \<longrightarrow> qm_priority m' \<le> qm_priority m)
      \<and> (\<forall>k. js_get (q_messages (releaseExpiredLeases now w')) k =
            (if k = key_of (ql_message l) then Some (ql_message l) else js_get (q_messages (releaseExpiredLeases now w)) k))
      \<and> qm_status (ql_message l) = Leased"
proof -
  let ?w1 = "releaseExpiredLeases now w"
  note inv1 = release_inv [OF assms(1), of now]
  have now: "now_or_clock (qi_now i) w = Inr now" using assms(3) by (simp add: lease_window_def now_or_clock_def)
  have exp: "later now (case qi_visibilityTimeoutMs i of Some t \<Rightarrow> t | None \<Rightarrow> q_defaultVisibilityTimeoutMs w) = Inr e" "js_less now e"
    using assms(3) by (simp_all add: lease_window_def)
  have c: "candidates lc (qi_queue i) now ?w1 = [] \<longleftrightarrow> pending_keys (qi_queue i) now w = {}"
    using in_values [OF inv1] inv1 by (force simp: candidates_def pending_keys_def queue_inv_def filter_empty_conv)
  show "pending_keys (qi_queue i) now w = {} \<Longrightarrow> fst (lease lc i w) = Inr None"
    using c now by (simp add: lease_def Let_def)
  show "\<exists>l w' m. lease lc i w = (Inr (Some l), w') \<and> queue_inv w' \<and> lease_window i w' now e
      \<and> js_get (q_messages ?w1) (key_of (ql_message l)) = Some m \<and> deliverable (qi_queue i) now m \<and> same_message m (ql_message l)
      \<and> (\<forall>k m'. js_get (q_messages ?w1) k = Some m' \<and> deliverable (qi_queue i) now m' \<longrightarrow> qm_priority m' \<le> qm_priority m)
      \<and> (\<forall>k. js_get (q_messages (releaseExpiredLeases now w')) k =
            (if k = key_of (ql_message l) then Some (ql_message l) else js_get (q_messages ?w1) k))
      \<and> qm_status (ql_message l) = Leased"
    if ne: "pending_keys (qi_queue i) now w \<noteq> {}"
  proof (cases rule: lease_result [OF assms(1), where lc = lc and i = i, case_names clock none late taken])
    case (taken now' m ms e')
    have eq: "now' = now" "e' = e" using taken now exp by auto
    let ?l = "leased_message m now e (''lease_'' @ q_newId w (q_next w))"
    let ?w' = "put_message ?l (?w1\<lparr>q_next := q_next w + 1\<rparr>)"
    have m: "js_get (q_messages ?w1) (key_of m) = Some m" "deliverable (qi_queue i) now m"
      using candidate_stored [OF inv1] taken(2) eq by (metis list.set_intros(1))+
    have step: "message_step m ?l" unfolding leased_message_def using m(2) by (intro message_step.leased) (simp add: deliverable_def)
    have inv': "queue_inv ?w'" using follows_lease [OF assms(1), of lc i] taken(4) eq by (simp add: follows_def)
    have "\<not> lease_expired now ?l" using exp(2) by (auto simp: lease_expired_def leased_message_def js_le_def)
    then have live: "released now ?l = ?l" by (simp add: released_def)
    have "js_get (q_messages (releaseExpiredLeases now ?w')) k = (if k = key_of m then Some ?l else js_get (q_messages ?w1) k)" for k
      using live unfolding release_get [OF inv'] by (auto simp: release_get [OF assms(1)] option.map_comp comp_def)
    moreover have "lease_window i ?w' now e" using assms(3) by (cases "qi_visibilityTimeoutMs i") (simp_all add: lease_window_def)
    moreover have "same_message m ?l" "qm_status ?l = Leased" using message_step_same [OF step] by (simp_all add: leased_message_def)
    ultimately show ?thesis using taken(2,4) eq inv' m candidate_first [OF inv1 assms(2)]
      by (intro exI [of _ "\<lparr>ql_token = ''lease_'' @ q_newId w (q_next w), ql_message = ?l, ql_leasedAt = now, ql_expiresAt = e\<rparr>"] exI [of _ ?w'] exI [of _ m] conjI)
        auto
  qed (use now exp c ne in auto)
qed

text \<open>Leasing a number of times in a row.\<close>

fun leases :: "(string \<Rightarrow> string \<Rightarrow> int) \<Rightarrow> queue_lease_input \<Rightarrow> nat \<Rightarrow> 'p queue \<Rightarrow> 'p queue_lease list \<times> 'p queue" where
  "leases lc i 0 w = ([], w)"
| "leases lc i (Suc n) w =
     (case lease lc i w of
        (Inr (Some l), w') \<Rightarrow> (case leases lc i n w' of (ls, w'') \<Rightarrow> (l # ls, w''))
      | (_, w') \<Rightarrow> ([], w'))"

definition delivered_in_order :: "string \<Rightarrow> string \<Rightarrow> 'p queue \<Rightarrow> 'p queue_lease list \<Rightarrow> bool" where
  "delivered_in_order q now w ls \<longleftrightarrow> distinct (map (key_of \<circ> ql_message) ls)
     \<and> set (map (key_of \<circ> ql_message) ls) = pending_keys q now w
     \<and> sorted_wrt (\<lambda>a b. qm_priority (ql_message b) \<le> qm_priority (ql_message a)) ls
     \<and> (\<forall>l \<in> set ls. qm_status (ql_message l) = Leased
          \<and> (\<exists>m. js_get (q_messages (releaseExpiredLeases now w)) (key_of (ql_message l)) = Some m \<and> same_message m (ql_message l)))"

lemma leases_all:
  assumes "queue_inv w" "collation lc" "lease_window i w now e" "n = card (pending_keys (qi_queue i) now w)"
  shows "case leases lc i n w of (ls, w') \<Rightarrow> length ls = n \<and> delivered_in_order (qi_queue i) now w ls \<and> fst (lease lc i w') = Inr None"
  using assms(1,3,4)
proof (induction n arbitrary: w)
  case 0
  then show ?case using lease_at(1) [OF _ assms(2)] by (simp add: delivered_in_order_def)
next
  case (Suc n)
  let ?P = "pending_keys (qi_queue i) now"
  have "?P w \<noteq> {}" using Suc.prems(3) by auto
  from lease_at(2) [OF Suc.prems(1) assms(2) Suc.prems(2) this] obtain l w' m where l: "lease lc i w = (Inr (Some l), w')" "queue_inv w'" "lease_window i w' now e"
    and m: "js_get (q_messages (releaseExpiredLeases now w)) (key_of (ql_message l)) = Some m" "deliverable (qi_queue i) now m" "same_message m (ql_message l)"
    and first: "\<And>k m'. js_get (q_messages (releaseExpiredLeases now w)) k = Some m' \<Longrightarrow> deliverable (qi_queue i) now m' \<Longrightarrow> qm_priority m' \<le> qm_priority m"
    and get: "\<And>k. js_get (q_messages (releaseExpiredLeases now w')) k =
            (if k = key_of (ql_message l) then Some (ql_message l) else js_get (q_messages (releaseExpiredLeases now w)) k)"
    and st: "qm_status (ql_message l) = Leased" by metis
  let ?k = "key_of (ql_message l)"
  have P': "?P w' = ?P w - {?k}" using st by (auto simp: pending_keys_def get deliverable_def)
  have k: "?k \<in> ?P w" using m by (auto simp: pending_keys_def)
  have "n = card (?P w')" using Suc.prems(3) k by (simp add: P')
  from Suc.IH [OF l(2,3) this] obtain ls w'' where ls: "leases lc i n w' = (ls, w'')" "length ls = n"
    "delivered_in_order (qi_queue i) now w' ls" "fst (lease lc i w'') = Inr None" by (cases "leases lc i n w'") auto
  have other: "\<exists>m'. js_get (q_messages (releaseExpiredLeases now w)) (key_of (ql_message l')) = Some m' \<and> same_message m' (ql_message l')
      \<and> key_of (ql_message l') \<noteq> ?k \<and> qm_priority (ql_message l') \<le> qm_priority (ql_message l)" if l': "l' \<in> set ls" for l'
  proof -
    let ?k' = "key_of (ql_message l')"
    have k': "?k' \<in> ?P w - {?k}" using ls(3) l' P' by (auto simp: delivered_in_order_def)
    then obtain m' where m': "js_get (q_messages (releaseExpiredLeases now w)) ?k' = Some m'" "deliverable (qi_queue i) now m'"
      by (auto simp: pending_keys_def)
    have "js_get (q_messages (releaseExpiredLeases now w')) ?k' = Some m'" using get [of ?k'] k' m'(1) by simp
    moreover obtain m2 where "js_get (q_messages (releaseExpiredLeases now w')) ?k' = Some m2" "same_message m2 (ql_message l')"
      using ls(3) l' unfolding delivered_in_order_def by blast
    ultimately have "same_message m' (ql_message l')" by simp
    moreover have "qm_priority m' \<le> qm_priority m" using first [OF m'] .
    ultimately show ?thesis using m' m(3) k' by (simp add: same_message_def)
  qed
  have "delivered_in_order (qi_queue i) now w (l # ls)"
    unfolding delivered_in_order_def
  proof (intro conjI)
    have "?k \<notin> set (map (key_of \<circ> ql_message) ls)" using ls(3) P' by (simp add: delivered_in_order_def)
    then show "distinct (map (key_of \<circ> ql_message) (l # ls))" using ls(3) by (simp add: delivered_in_order_def)
    show "set (map (key_of \<circ> ql_message) (l # ls)) = ?P w" using ls(3) P' k by (auto simp: delivered_in_order_def)
    show "sorted_wrt (\<lambda>a b. qm_priority (ql_message b) \<le> qm_priority (ql_message a)) (l # ls)"
      using ls(3) other by (auto simp: delivered_in_order_def)
    show "\<forall>l' \<in> set (l # ls). qm_status (ql_message l') = Leased
        \<and> (\<exists>m. js_get (q_messages (releaseExpiredLeases now w)) (key_of (ql_message l')) = Some m \<and> same_message m (ql_message l'))"
    proof
      fix l' assume "l' \<in> set (l # ls)"
      then consider "l' = l" | "l' \<in> set ls" by auto
      then show "qm_status (ql_message l') = Leased
        \<and> (\<exists>m. js_get (q_messages (releaseExpiredLeases now w)) (key_of (ql_message l')) = Some m \<and> same_message m (ql_message l'))"
      proof cases
        case 1
        then show ?thesis using m(1,3) st by blast
      next
        case 2
        then have "qm_status (ql_message l') = Leased" using ls(3) by (simp add: delivered_in_order_def)
        then show ?thesis using other [OF 2] by blast
      qed
    qed
  qed
  then show ?case using l(1) ls by simp
qed

end
