(* ===== verification/Queue_Properties.thy ===== *)
theory Queue_Properties
  imports Memory_Queue
begin

text \<open>
  The properties of the message queue: a lease excludes other consumers until it expires, every
  message follows its life cycle and is never lost, and leasing repeatedly delivers every
  deliverable message, the most urgent first.
\<close>

section \<open>A concrete queue\<close>

definition ex_input :: "string \<Rightarrow> int \<Rightarrow> nat enqueue_input" where
  "ex_input name p = \<lparr>ei_queue = ''runs'', ei_payload = 7, ei_messageId = Some name, ei_priority = Some p,
     ei_availableAt = None, ei_maxAttempts = None, ei_metadata = None\<rparr>"

definition ex_empty :: "nat queue" where
  "ex_empty = \<lparr>q_messages = [], q_clock = 1704067200000, q_newId = show_nat, q_next = 0,
     q_defaultVisibilityTimeoutMs = 30000, q_defaultMaxAttempts = 3\<rparr>"

definition ex_at :: string where
  "ex_at = ''2024-01-01T00:00:00.000Z''"

definition ex_until :: string where
  "ex_until = ''2024-01-01T00:00:30.000Z''"

definition ex_lease :: queue_lease_input where
  "ex_lease = \<lparr>qi_queue = ''runs'', qi_visibilityTimeoutMs = None, qi_now = Some ex_at\<rparr>"

definition ex_queue :: "nat queue" where
  "ex_queue = fold (run_call code_unit_compare) [QEnqueue (ex_input ''a'' 0), QEnqueue (ex_input ''b'' 5)] ex_empty"

definition ex_leased :: "nat queue" where
  "ex_leased = run_call code_unit_compare (QLease ex_lease) ex_queue"

definition ex_message :: "nat queue_message" where
  "ex_message = \<lparr>qm_id = ''b'', qm_queue = ''runs'', qm_payload = 7, qm_status = Leased, qm_priority = 5, qm_attempts = 1,
     qm_maxAttempts = 3, qm_enqueuedAt = ex_at, qm_availableAt = ex_at, qm_leasedAt = Some ex_at, qm_leaseExpiresAt = Some ex_until,
     qm_leaseToken = Some ''lease_0'', qm_deadLetteredAt = None, qm_failureReason = None, qm_metadata = []\<rparr>"

lemma ex_empty_inv: "queue_inv ex_empty"
  by (simp add: ex_empty_def queue_inv_def)

lemma ex_queue_inv: "queue_inv ex_queue"
  using run_calls_follow [OF ex_empty_inv] unfolding ex_queue_def follows_def by blast

lemma ex_leased_inv: "queue_inv ex_leased"
  using run_call_follows [OF ex_queue_inv] unfolding ex_leased_def follows_def by blast

section \<open>Leases exclude\<close>

text \<open>C25: while a message is leased, whatever other calls come in between, as long as none presents
  the lease's token for it and no lease call comes at or after its expiry, the message stays as
  it was leased, and no consumer is handed it: a further lease call before the expiry returns
  another message or none.\<close>

theorem queue_lease_exclusive:
  assumes "queue_inv w" "js_get (q_messages w) k = Some m" "leased_under m t e" "all_spare lc k t e cs w"
    "w' = fold (run_call lc) cs w"
  shows "js_get (q_messages w') k = Some m
    \<and> (\<forall>i l. spares k t e w' (QLease i) \<and> fst (lease lc i w') = Inr (Some l) \<longrightarrow> key_of (ql_message l) \<noteq> k)"
  using spared_calls [OF assms(1-4)] lease_spares(2) [OF _ _ assms(3)] assms(5) by blast

theorem queue_lease_exclusive_witness:
  "js_get (q_messages (fold (run_call code_unit_compare) [QEnqueue (ex_input ''c'' 9), QLease ex_lease] ex_leased)) (messageKey ''runs'' ''b'')
     = Some ex_message"
proof -
  have m: "js_get (q_messages ex_leased) (messageKey ''runs'' ''b'') = Some ex_message" by code_simp
  have u: "leased_under ex_message ''lease_0'' ex_until" by code_simp
  have s: "all_spare code_unit_compare (messageKey ''runs'' ''b'') ''lease_0'' ex_until [QEnqueue (ex_input ''c'' 9), QLease ex_lease] ex_leased"
  proof -
    have "\<not> js_le ex_until ex_at" by code_simp
    then show ?thesis by (simp add: ex_lease_def now_or_clock_def)
  qed
  from queue_lease_exclusive [OF ex_leased_inv m u s refl] show ?thesis by blast
qed

section \<open>No message is lost\<close>

text \<open>C26: whatever calls are made, every stored message stays stored under its key and moves only
  along the life cycle: from queued to leased, which counts an attempt, and from leased back to
  queued by expiry, or by a retry that is under the attempt limit, or on to acknowledged or dead. Its
  identity, payload, priority, limit and metadata never change, and an acknowledged or dead message
  never changes again.\<close>

theorem queue_lifecycle:
  assumes "queue_inv w" "js_get (q_messages w) k = Some m"
  shows "queue_inv (fold (run_call lc) cs w) \<and> (\<exists>m'. js_get (q_messages (fold (run_call lc) cs w)) k = Some m'
    \<and> message_step\<^sup>*\<^sup>* m m' \<and> same_message m m')"
proof -
  have "follows w (fold (run_call lc) cs w)" using run_calls_follow [OF assms(1)] .
  then show ?thesis using assms(2) message_steps_same unfolding follows_def by blast
qed

theorem queue_lifecycle_witness:
  "\<exists>m'. js_get (q_messages (fold (run_call code_unit_compare)
       [QAck \<lparr>ai_queue = ''runs'', ai_messageId = ''b'', ai_leaseToken = ''lease_0''\<rparr>, QLease ex_lease] ex_leased)) (messageKey ''runs'' ''b'') = Some m'
    \<and> message_step\<^sup>*\<^sup>* ex_message m' \<and> same_message ex_message m'"
proof -
  have m: "js_get (q_messages ex_leased) (messageKey ''runs'' ''b'') = Some ex_message" by code_simp
  from queue_lifecycle [OF ex_leased_inv m] show ?thesis by blast
qed

section \<open>Every deliverable message is delivered\<close>

text \<open>C27: for a time at which a granted lease does not expire at once, leasing as often as there
  are deliverable messages in a queue (released expired leases included) returns a message each
  time, hands out each of them exactly once and in the order of their priorities, and leaves
  nothing to deliver.\<close>

theorem queue_drains:
  assumes "queue_inv w" "collation lc" "lease_window i w now e"
  shows "case leases lc i (card (pending_keys (qi_queue i) now w)) w of
    (ls, w') \<Rightarrow> length ls = card (pending_keys (qi_queue i) now w) \<and> delivered_in_order (qi_queue i) now w ls
      \<and> fst (lease lc i w') = Inr None"
  using leases_all [OF assms refl] .

theorem queue_drains_witness:
  "case leases code_unit_compare ex_lease (card (pending_keys ''runs'' ex_at ex_queue)) ex_queue of
    (ls, w') \<Rightarrow> length ls = card (pending_keys ''runs'' ex_at ex_queue) \<and> delivered_in_order ''runs'' ex_at ex_queue ls
      \<and> fst (lease code_unit_compare ex_lease w') = Inr None"
proof -
  have "lease_window ex_lease ex_queue ex_at ex_until" by code_simp
  from queue_drains [OF ex_queue_inv collation_code_unit this] show ?thesis by (simp add: ex_lease_def)
qed

end
