(* ===== verification/Plan_Scope.thy ===== *)
theory Plan_Scope
  imports Json
begin

text \<open>
  The scope policy of a plan (\<open>contract/plan-scope.ts\<close>): the glob matcher for resource types,
  which walks all reachable pattern positions at once, and the validation and normalisation of scope
  policies and of the facts a runner projects. Values of type \<open>unknown\<close> are JSON values, an
  absent one is \<^const>\<open>None\<close>; a thrown \<open>TypeError\<close> is \<^const>\<open>Inl\<close>. Object keys that name members of
  \<open>Object.prototype\<close> are not treated specially.
\<close>

section \<open>The glob matcher\<close>

definition wildcardMatches :: "char \<Rightarrow> bool" where
  "wildcardMatches c \<longleftrightarrow> c \<noteq> CHR 0x0A \<and> c \<noteq> CHR 0x0D"

text \<open>Mark a pattern position, and the positions a \<open>*\<close> may skip to.\<close>

function reachPosition :: "string \<Rightarrow> bool list \<Rightarrow> nat \<Rightarrow> bool list" where
  "reachPosition tokens states cursor =
     (if cursor \<le> length tokens \<and> \<not> states ! cursor then
        (let states' = states[cursor := True] in
         if cursor < length tokens \<and> tokens ! cursor = CHR ''*'' then reachPosition tokens states' (Suc cursor) else states')
      else states)"
  by pat_completeness auto
termination
  by (relation "measure (\<lambda>(tokens, states, cursor). Suc (length tokens) - cursor)") auto

declare reachPosition.simps [simp del]

text \<open>One character at one pattern position: the new positions and whether one was reached.\<close>

definition advance :: "string \<Rightarrow> bool list \<Rightarrow> char \<Rightarrow> nat \<Rightarrow> bool list \<times> bool \<Rightarrow> bool list \<times> bool" where
  "advance tokens reachable character index acc =
     (case acc of (pending, live) \<Rightarrow>
        if \<not> reachable ! index then (pending, live)
        else let token = tokens ! index in
          if token = CHR ''*'' then
            (if \<not> wildcardMatches character then (pending, live) else (reachPosition tokens pending index, True))
          else if (if token = CHR ''?'' then \<not> wildcardMatches character else token \<noteq> character) then (pending, live)
          else (reachPosition tokens pending (Suc index), True))"

definition advance_all :: "string \<Rightarrow> bool list \<Rightarrow> char \<Rightarrow> bool list \<times> bool" where
  "advance_all tokens reachable character =
     fold (advance tokens reachable character) [0..<length tokens] (replicate (Suc (length tokens)) False, False)"

fun glob_walk :: "string \<Rightarrow> bool list \<Rightarrow> string \<Rightarrow> bool" where
  "glob_walk tokens reachable [] = reachable ! length tokens"
| "glob_walk tokens reachable (c # cs) =
     (case advance_all tokens reachable c of (pending, live) \<Rightarrow> if \<not> live then False else glob_walk tokens pending cs)"

definition resourceTypeMatchesPattern :: "string \<Rightarrow> string \<Rightarrow> bool" where
  "resourceTypeMatchesPattern resourceType pattern =
     glob_walk pattern (reachPosition pattern (replicate (Suc (length pattern)) False) 0) resourceType"

text \<open>What the small glob language means: \<open>*\<close> stands for any text without line terminators, \<open>?\<close>
  for one such character, and every other character for itself.\<close>

fun glob :: "string \<Rightarrow> string \<Rightarrow> bool" where
  "glob [] s \<longleftrightarrow> s = []"
| "glob (t # p) s \<longleftrightarrow>
     (if t = CHR ''*'' then glob p s \<or> (case s of [] \<Rightarrow> False | c # cs \<Rightarrow> wildcardMatches c \<and> glob (t # p) cs)
      else case s of [] \<Rightarrow> False
        | c # cs \<Rightarrow> (if t = CHR ''?'' then wildcardMatches c else t = c) \<and> glob p cs)"

section \<open>The walk is the meaning\<close>

definition star_closed :: "string \<Rightarrow> bool list \<Rightarrow> bool" where
  "star_closed p S \<longleftrightarrow> length S = Suc (length p) \<and> (\<forall>i < length p. S ! i \<and> p ! i = CHR ''*'' \<longrightarrow> S ! Suc i)"

definition star_run :: "string \<Rightarrow> nat \<Rightarrow> nat \<Rightarrow> bool" where
  "star_run p i j \<longleftrightarrow> i \<le> j \<and> j \<le> length p \<and> (\<forall>k \<in> {i..<j}. p ! k = CHR ''*'')"

lemma star_run_step: "star_run p i j \<longleftrightarrow> i \<le> length p \<and> (j = i \<or> i < length p \<and> p ! i = CHR ''*'' \<and> star_run p (Suc i) j)"
proof (cases "i < j")
  case True
  then have "{i..<j} = insert i {Suc i..<j}" by auto
  then show ?thesis using True by (auto simp: star_run_def)
qed (auto simp: star_run_def)

lemma closed_run:
  assumes "star_closed p S" "S ! i" "star_run p i j"
  shows "S ! j"
proof -
  have "i \<le> j" using assms(3) by (simp add: star_run_def)
  then show ?thesis using assms
  proof (induction j rule: dec_induct)
    case (step n)
    then have "S ! n" by (auto simp: star_run_def)
    then show ?case using step by (auto simp: star_run_def star_closed_def)
  qed simp
qed

lemma reachPosition_spec:
  assumes "length S = Suc (length p)" "i \<le> length p"
    "\<forall>k < length p. S ! k \<and> p ! k = CHR ''*'' \<longrightarrow> S ! Suc k \<or> Suc k = i"
  shows "star_closed p (reachPosition p S i) \<and> (\<forall>j \<le> length p. reachPosition p S i ! j \<longleftrightarrow> S ! j \<or> star_run p i j)"
  using assms
proof (induction p S i rule: reachPosition.induct)
  case (1 p S i)
  let ?S = "S[i := True]"
  show ?case
  proof (cases "S ! i")
    case True
    then have "star_closed p S" using 1(2,4) by (auto simp: star_closed_def)
    then show ?thesis using True closed_run by (subst (1 2) reachPosition.simps) auto
  next
    case False
    show ?thesis
    proof (cases "i < length p \<and> p ! i = CHR ''*''")
      case star: True
      have "\<forall>k < length p. ?S ! k \<and> p ! k = CHR ''*'' \<longrightarrow> ?S ! Suc k \<or> Suc k = Suc i"
        using 1(2-4) by (auto simp: nth_list_update)
      then have "star_closed p (reachPosition p ?S (Suc i)) \<and> (\<forall>j \<le> length p. reachPosition p ?S (Suc i) ! j \<longleftrightarrow> ?S ! j \<or> star_run p (Suc i) j)"
        using 1(1) [OF _ refl star] False 1(2,3) star by simp
      moreover have "reachPosition p S i = reachPosition p ?S (Suc i)" using False star 1(3) by (subst reachPosition.simps) simp
      ultimately show ?thesis using star_run_step [of p i] star 1(2,3) by (auto simp: nth_list_update)
    next
      case stop: False
      then have "reachPosition p S i = ?S" using False 1(3) by (subst reachPosition.simps) auto
      moreover have "star_closed p ?S" using 1(2-4) stop by (auto simp: star_closed_def nth_list_update)
      ultimately show ?thesis using star_run_step [of p i] stop 1(2,3) by (auto simp: nth_list_update)
    qed
  qed
qed

lemma reach_closed:
  assumes "star_closed p S" "i \<le> length p"
  shows "star_closed p (reachPosition p S i)" "j \<le> length p \<Longrightarrow> reachPosition p S i ! j \<longleftrightarrow> S ! j \<or> star_run p i j"
  using reachPosition_spec [of S p i] assms by (auto simp: star_closed_def)

text \<open>A set of positions matches a text when one of them does.\<close>

definition some_match :: "string \<Rightarrow> bool list \<Rightarrow> string \<Rightarrow> bool" where
  "some_match p S s \<longleftrightarrow> (\<exists>i \<le> length p. S ! i \<and> glob (drop i p) s)"

lemma glob_drop:
  assumes "i < length p"
  shows "glob (drop i p) (c # s) \<longleftrightarrow>
    (if p ! i = CHR ''*'' then glob (drop (Suc i) p) (c # s) \<or> wildcardMatches c \<and> glob (drop i p) s
     else (if p ! i = CHR ''?'' then wildcardMatches c else p ! i = c) \<and> glob (drop (Suc i) p) s)"
  using glob.simps(2) [of "p ! i" "drop (Suc i) p" "c # s"] unfolding Cons_nth_drop_Suc [OF assms] by simp

lemma glob_skip: "star_run p i j \<Longrightarrow> glob (drop j p) s \<Longrightarrow> glob (drop i p) s"
proof (induction "j - i" arbitrary: i)
  case (Suc n)
  then have i: "i < length p" "p ! i = CHR ''*''" "star_run p (Suc i) j"
    using star_run_step [of p i j] by auto
  have "glob (drop (Suc i) p) s" using Suc(1) [OF _ i(3) Suc(4)] Suc(2) by simp
  then show ?case using i(1,2) by (simp add: Cons_nth_drop_Suc [symmetric])
qed (auto simp: star_run_def)

lemma some_match_reach:
  assumes "star_closed p S" "i \<le> length p"
  shows "some_match p (reachPosition p S i) s \<longleftrightarrow> some_match p S s \<or> glob (drop i p) s"
proof -
  have "star_run p i i" using assms(2) by (simp add: star_run_def)
  then show ?thesis unfolding some_match_def using reach_closed(2) [OF assms] glob_skip [of p i _ s] assms(2) by blast
qed

lemma glob_stars: "glob (drop i p) [] \<Longrightarrow> i \<le> length p \<Longrightarrow> star_run p i (length p)"
proof (induction "length p - i" arbitrary: i)
  case (Suc n)
  then have i: "i < length p" by simp
  then have "glob (p ! i # drop (Suc i) p) []" using Suc(3) by (simp only: Cons_nth_drop_Suc)
  then have "p ! i = CHR ''*''" "glob (drop (Suc i) p) []" by (auto split: if_splits)
  then show ?case using Suc i star_run_step [of p i] by auto
qed (simp add: star_run_def)

lemma some_match_Nil:
  assumes "star_closed p S"
  shows "some_match p S [] \<longleftrightarrow> S ! length p"
  using closed_run [OF assms] glob_stars by (auto simp: some_match_def)

text \<open>What one position contributes.\<close>

definition step_match :: "string \<Rightarrow> bool list \<Rightarrow> char \<Rightarrow> string \<Rightarrow> nat \<Rightarrow> bool" where
  "step_match p R c s i \<longleftrightarrow> R ! i \<and>
     (if p ! i = CHR ''*'' then wildcardMatches c \<and> glob (drop i p) s
      else (if p ! i = CHR ''?'' then wildcardMatches c else p ! i = c) \<and> glob (drop (Suc i) p) s)"

lemma advance_spec:
  assumes "i < length p" "star_closed p S" "\<not> live \<longrightarrow> (\<forall>j \<le> length p. \<not> S ! j)" "advance p R c i (S, live) = (S', live')"
  shows "star_closed p S' \<and> (\<not> live' \<longrightarrow> (\<forall>j \<le> length p. \<not> S' ! j))
    \<and> (some_match p S' s \<longleftrightarrow> some_match p S s \<or> step_match p R c s i)"
  using assms reach_closed(1) [OF assms(2)] some_match_reach [OF assms(2)]
  by (auto simp: advance_def step_match_def Let_def split: if_splits)

lemma advance_fold:
  assumes "set xs \<subseteq> {..<length p}" "star_closed p S" "\<not> live \<longrightarrow> (\<forall>j \<le> length p. \<not> S ! j)"
    "fold (advance p R c) xs (S, live) = (S', live')"
  shows "star_closed p S' \<and> (\<not> live' \<longrightarrow> (\<forall>j \<le> length p. \<not> S' ! j))
    \<and> (some_match p S' s \<longleftrightarrow> some_match p S s \<or> (\<exists>i \<in> set xs. step_match p R c s i))"
  using assms
proof (induction xs arbitrary: S live)
  case (Cons i xs)
  obtain S1 l1 where a: "advance p R c i (S, live) = (S1, l1)" by fastforce
  have i: "i < length p" using Cons.prems(1) by simp
  note one = advance_spec [OF i Cons.prems(2,3) a, of s]
  then show ?case using Cons.IH [of S1 l1] Cons.prems(1,4) a by auto
qed simp

lemma advance_all_spec:
  assumes "star_closed p R" "advance_all p R c = (S, live)"
  shows "star_closed p S" "\<not> live \<Longrightarrow> \<not> some_match p S s" "some_match p S s \<longleftrightarrow> some_match p R (c # s)"
proof -
  let ?E = "replicate (Suc (length p)) False"
  have E: "?E ! j \<longleftrightarrow> False" if "j \<le> length p" for j using that nth_replicate [of j "Suc (length p)" False] by simp
  have "star_closed p ?E" using E by (auto simp: star_closed_def simp del: replicate.simps)
  then have all: "star_closed p S \<and> (\<not> live \<longrightarrow> (\<forall>j \<le> length p. \<not> S ! j))
    \<and> (some_match p S s \<longleftrightarrow> some_match p ?E s \<or> (\<exists>i \<in> set [0..<length p]. step_match p R c s i))"
    using advance_fold [of "[0..<length p]" p ?E False R c S live s] assms(2) E by (simp add: advance_all_def atLeast0LessThan del: replicate.simps)
  then show "star_closed p S" "\<not> live \<Longrightarrow> \<not> some_match p S s" by (auto simp: some_match_def)
  have "\<not> some_match p ?E s" using E by (auto simp: some_match_def simp del: replicate.simps)
  moreover have "some_match p R (c # s) \<longleftrightarrow> (\<exists>i < length p. step_match p R c s i)"
  proof
    assume "some_match p R (c # s)"
    then obtain i where i: "i \<le> length p" "R ! i" "glob (drop i p) (c # s)" by (auto simp: some_match_def)
    from i show "\<exists>i < length p. step_match p R c s i"
    proof (induction "length p - i" arbitrary: i)
      case (Suc n)
      then have lt: "i < length p" by simp
      note g = Suc(5) [unfolded glob_drop [OF lt]]
      show ?case
      proof (cases "p ! i = CHR ''*'' \<and> glob (drop (Suc i) p) (c # s)")
        case True
        then have "R ! Suc i" using assms(1) lt Suc(4) by (auto simp: star_closed_def)
        then show ?thesis using Suc(1) [of "Suc i"] Suc(2) lt True by simp
      next
        case False
        then have "step_match p R c s i" using g Suc(4) by (auto simp: step_match_def split: if_splits)
        then show ?thesis using lt by blast
      qed
    qed simp
  next
    assume "\<exists>i < length p. step_match p R c s i"
    then obtain i where i: "i < length p" "step_match p R c s i" by blast
    then have "glob (drop i p) (c # s)" unfolding glob_drop [OF i(1)] by (auto simp: step_match_def split: if_splits)
    then show "some_match p R (c # s)" using i by (auto simp: some_match_def step_match_def intro!: exI [of _ i])
  qed
  ultimately show "some_match p S s \<longleftrightarrow> some_match p R (c # s)" using all by auto
qed

lemma glob_walk_some_match: "star_closed p R \<Longrightarrow> glob_walk p R s \<longleftrightarrow> some_match p R s"
proof (induction s arbitrary: R)
  case (Cons c s)
  obtain S live where a: "advance_all p R c = (S, live)" by fastforce
  note sp = advance_all_spec(1) [OF Cons.prems a] advance_all_spec(2,3) [OF Cons.prems a, of s]
  then show ?case using Cons.IH [of S] a by auto
qed (simp add: some_match_Nil)

lemma resourceTypeMatchesPattern_glob: "resourceTypeMatchesPattern s p \<longleftrightarrow> glob p s"
proof -
  let ?E = "replicate (Suc (length p)) False"
  have E: "?E ! j \<longleftrightarrow> False" if "j \<le> length p" for j using that nth_replicate [of j "Suc (length p)" False] by simp
  have c: "star_closed p ?E" using E by (auto simp: star_closed_def simp del: replicate.simps)
  have "\<not> some_match p ?E s" using E by (auto simp: some_match_def simp del: replicate.simps)
  then show ?thesis
    using glob_walk_some_match [OF reach_closed(1) [OF c]] some_match_reach [OF c] by (simp add: resourceTypeMatchesPattern_def del: replicate.simps)
qed

section \<open>Scope policies\<close>

datatype type_error = TypeError string

datatype scope_mode = Permissive | Strict

record scope_dimension =
  sd_selector :: string
  sd_allowedValues :: "json list"

record scope_rule =
  sr_resourceTypePattern :: string
  sr_dimensions :: "(string, scope_dimension) js_map"

record scope_policy =
  sp_mode :: "scope_mode option"
  sp_rules :: "scope_rule list"

record plan_scope_selector =
  ps_resourceTypePattern :: string
  ps_dimensions :: "(string, string) js_map"

text \<open>\<open>isRecord\<close>, \<open>record\<close> and \<open>text\<close> of an unknown value.\<close>

definition record_of :: "json option \<Rightarrow> (string \<times> json) list option" where
  "record_of v = (case v of Some (JObj fs) \<Rightarrow> Some fs | _ \<Rightarrow> None)"

definition text_of :: "json option \<Rightarrow> string option" where
  "text_of v = (case v of Some (JStr s) \<Rightarrow> if js_trim s \<noteq> [] then Some (js_trim s) else None | _ \<Rightarrow> None)"

fun isScopeScalar :: "json \<Rightarrow> bool" where
  "isScopeScalar (JStr s) = True"
| "isScopeScalar (JBool b) = True"
| "isScopeScalar (JNum n) = True"
| "isScopeScalar _ = False"

definition ascii_letter :: "char \<Rightarrow> bool" where
  "ascii_letter c \<longleftrightarrow> (let n = (of_char c :: nat) in 65 \<le> n \<and> n \<le> 90 \<or> 97 \<le> n \<and> n \<le> 122)"

definition pattern_char :: "char \<Rightarrow> bool" where
  "pattern_char c \<longleftrightarrow> ascii_letter c \<or> is_digit c \<or> c \<in> set ''_*?.:-''"

definition name_char :: "char \<Rightarrow> bool" where
  "name_char c \<longleftrightarrow> ascii_letter c \<or> is_digit c \<or> c \<in> set ''_.:-''"

definition dimension_name :: "string \<Rightarrow> bool" where
  "dimension_name s \<longleftrightarrow> (case s of [] \<Rightarrow> False
     | c # cs \<Rightarrow> (ascii_letter c \<or> c = CHR ''_'') \<and> length cs \<le> 127 \<and> list_all name_char cs)"

text \<open>The regular expression \<open>~(?:[^01]|$)\<close> somewhere in the text.\<close>

fun bad_tilde :: "string \<Rightarrow> bool" where
  "bad_tilde [] = False"
| "bad_tilde (c # cs) = ((c = CHR ''~'' \<and> (case cs of [] \<Rightarrow> True | d # _ \<Rightarrow> d \<noteq> CHR ''0'' \<and> d \<noteq> CHR ''1'')) \<or> bad_tilde cs)"

definition validJsonPointer :: "string \<Rightarrow> bool" where
  "validJsonPointer s \<longleftrightarrow> (case s of [] \<Rightarrow> False | c # _ \<Rightarrow> c = CHR ''/'') \<and> \<not> bad_tilde s"

definition rule_path :: "nat \<Rightarrow> string" where
  "rule_path index = ''scopeBoundary.rules['' @ show_nat index @ '']''"

definition normalizeDimension :: "nat \<Rightarrow> string \<Rightarrow> json \<Rightarrow> type_error + scope_dimension" where
  "normalizeDimension index name raw =
     (case record_of (Some raw) of
        None \<Rightarrow> Inl (TypeError (rule_path index @ ''.dimensions.'' @ name @ '' is invalid''))
      | Some fs \<Rightarrow>
          if \<not> dimension_name name then Inl (TypeError (rule_path index @ ''.dimensions.'' @ name @ '' is invalid''))
          else case (text_of (json_field fs ''selector''), json_field fs ''allowedValues'') of
            (Some selector, Some (JArr vs)) \<Rightarrow>
              if 512 < length selector \<or> \<not> validJsonPointer selector \<or> 256 < length vs \<or> \<not> list_all isScopeScalar vs
              then Inl (TypeError (rule_path index @ ''.dimensions.'' @ name
                     @ '' must declare an RFC 6901 selector and at most 256 scalar allowedValues''))
              else Inr \<lparr>sd_selector = selector, sd_allowedValues = vs\<rparr>
          | _ \<Rightarrow> Inl (TypeError (rule_path index @ ''.dimensions.'' @ name
                     @ '' must declare an RFC 6901 selector and at most 256 scalar allowedValues'')))"

fun normalizeDimensions :: "nat \<Rightarrow> (string \<times> json) list \<Rightarrow> (string, scope_dimension) js_map \<Rightarrow> type_error + (string, scope_dimension) js_map" where
  "normalizeDimensions index [] dimensions = Inr dimensions"
| "normalizeDimensions index ((name, raw) # entries) dimensions =
     chain (normalizeDimension index name raw) (\<lambda>d. normalizeDimensions index entries (js_set name d dimensions))"

definition normalizeRule :: "json \<Rightarrow> nat \<Rightarrow> type_error + scope_rule" where
  "normalizeRule value index =
     (case record_of (Some value) of
        None \<Rightarrow> Inl (TypeError (rule_path index @ '' must be an object''))
      | Some fs \<Rightarrow>
          (case text_of (json_field fs ''resourceTypePattern'') of
             None \<Rightarrow> Inl (TypeError (rule_path index @ ''.resourceTypePattern is invalid''))
           | Some pattern \<Rightarrow>
               if 256 < length pattern \<or> \<not> list_all pattern_char pattern
               then Inl (TypeError (rule_path index @ ''.resourceTypePattern is invalid''))
               else case record_of (json_field fs ''dimensions'') of
                 None \<Rightarrow> Inl (TypeError (rule_path index @ ''.dimensions must contain at most 32 dimensions''))
               | Some raw \<Rightarrow>
                   if 32 < length raw then Inl (TypeError (rule_path index @ ''.dimensions must contain at most 32 dimensions''))
                   else chain (normalizeDimensions index raw [])
                     (\<lambda>ds. Inr \<lparr>sr_resourceTypePattern = pattern, sr_dimensions = ds\<rparr>)))"

fun normalizeRules :: "json list \<Rightarrow> nat \<Rightarrow> type_error + scope_rule list" where
  "normalizeRules [] index = Inr []"
| "normalizeRules (r # rs) index =
     chain (normalizeRule r index) (\<lambda>rule. chain (normalizeRules rs (Suc index)) (\<lambda>rules. Inr (rule # rules)))"

definition parse_mode :: "json option \<Rightarrow> type_error + scope_mode option" where
  "parse_mode v = (case v of None \<Rightarrow> Inr None
     | Some (JStr s) \<Rightarrow> if s = ''strict'' then Inr (Some Strict) else if s = ''permissive'' then Inr (Some Permissive)
         else Inl (TypeError ''scopeBoundary.mode must be strict or permissive'')
     | Some _ \<Rightarrow> Inl (TypeError ''scopeBoundary.mode must be strict or permissive''))"

definition parseScopeBoundaryPolicy :: "json option \<Rightarrow> type_error + scope_policy" where
  "parseScopeBoundaryPolicy value =
     (case record_of value of
        None \<Rightarrow> Inl (TypeError ''scopeBoundary must be an object'')
      | Some fs \<Rightarrow>
          chain (parse_mode (json_field fs ''mode'')) (\<lambda>mode.
            case json_field fs ''rules'' of
              Some (JArr rs) \<Rightarrow>
                if 64 < length rs then Inl (TypeError ''scopeBoundary.rules must be an array of at most 64 rules'')
                else chain (normalizeRules rs 0) (\<lambda>rules. Inr \<lparr>sp_mode = mode, sp_rules = rules\<rparr>)
            | _ \<Rightarrow> Inl (TypeError ''scopeBoundary.rules must be an array of at most 64 rules'')))"

definition normalizeScopeBoundaryPolicy :: "json option \<Rightarrow> type_error + scope_policy option" where
  "normalizeScopeBoundaryPolicy value =
     (if record_of value = None then Inr None else map_sum id Some (parseScopeBoundaryPolicy value))"

text \<open>The facts of a resource.\<close>

definition scalarRecord :: "(string \<times> json) list \<Rightarrow> (string, json) js_map" where
  "scalarRecord fs = fold (\<lambda>(name, fact) out. if dimension_name name \<and> isScopeScalar fact then js_set name fact out else out) fs []"

definition normalizePlanResourceScope :: "json option \<Rightarrow> (string, json) js_map option" where
  "normalizePlanResourceScope value =
     (case record_of value of None \<Rightarrow> None
      | Some fs \<Rightarrow> (case record_of (json_field fs ''facts'') of None \<Rightarrow> None
          | Some facts \<Rightarrow> (let normalized = scalarRecord facts in if normalized \<noteq> [] then Some normalized else None)))"

section \<open>Selectors for the runner\<close>

text \<open>\<open>JSON.stringify\<close> of a string and of an object of strings.\<close>

definition hex_digit :: "nat \<Rightarrow> char" where
  "hex_digit n = (if n < 10 then char_of (48 + n) else char_of (87 + n))"

definition json_escape :: "char \<Rightarrow> string" where
  "json_escape c =
     (let n = (of_char c :: nat) in
      if c = CHR 0x22 then [CHR 0x5C, c] else if c = CHR 0x5C then [c, c]
      else if n = 8 then [CHR 0x5C, CHR ''b''] else if n = 12 then [CHR 0x5C, CHR ''f''] else if n = 10 then [CHR 0x5C, CHR ''n'']
      else if n = 13 then [CHR 0x5C, CHR ''r''] else if n = 9 then [CHR 0x5C, CHR ''t'']
      else if n < 32 then [CHR 0x5C, CHR ''u'', CHR ''0'', CHR ''0'', hex_digit (n div 16), hex_digit (n mod 16)] else [c])"

definition json_quote :: "string \<Rightarrow> string" where
  "json_quote s = CHR 0x22 # concat (map json_escape s) @ [CHR 0x22]"

definition stringify_strings :: "(string, string) js_map \<Rightarrow> string" where
  "stringify_strings m = ''{'' @ join_with '','' (map (\<lambda>(k, v). json_quote k @ '':'' @ json_quote v) m) @ ''}''"

definition selector_of :: "(string \<Rightarrow> string \<Rightarrow> int) \<Rightarrow> scope_rule \<Rightarrow> plan_scope_selector" where
  "selector_of localeCompare rule =
     \<lparr>ps_resourceTypePattern = sr_resourceTypePattern rule,
      ps_dimensions = map (\<lambda>(name, d). (name, sd_selector d))
        (js_sort (\<lambda>l r. localeCompare (fst l) (fst r)) (sr_dimensions rule))\<rparr>"

definition planScopeSelectors :: "(string \<Rightarrow> string \<Rightarrow> int) \<Rightarrow> json option \<Rightarrow> type_error + plan_scope_selector list" where
  "planScopeSelectors localeCompare policy =
     (if js_falsy policy then Inr []
      else chain (parseScopeBoundaryPolicy policy) (\<lambda>normalized.
        Inr (js_values (fold (\<lambda>rule selectors.
          (let sel = selector_of localeCompare rule
           in js_set (sr_resourceTypePattern rule @ [CHR 0x00] @ stringify_strings (ps_dimensions sel)) sel selectors))
          (sp_rules normalized) []))))"

section \<open>Normalised policies\<close>

definition dimension_ok :: "scope_dimension \<Rightarrow> bool" where
  "dimension_ok d \<longleftrightarrow> sd_selector d \<noteq> [] \<and> js_trim (sd_selector d) = sd_selector d \<and> length (sd_selector d) \<le> 512
     \<and> validJsonPointer (sd_selector d) \<and> length (sd_allowedValues d) \<le> 256 \<and> list_all isScopeScalar (sd_allowedValues d)"

definition rule_ok :: "scope_rule \<Rightarrow> bool" where
  "rule_ok r \<longleftrightarrow> sr_resourceTypePattern r \<noteq> [] \<and> length (sr_resourceTypePattern r) \<le> 256
     \<and> js_trim (sr_resourceTypePattern r) = sr_resourceTypePattern r
     \<and> list_all pattern_char (sr_resourceTypePattern r) \<and> js_wf (sr_dimensions r) \<and> length (sr_dimensions r) \<le> 32
     \<and> (\<forall>(name, d) \<in> set (sr_dimensions r). dimension_name name \<and> dimension_ok d)"

definition policy_ok :: "scope_policy \<Rightarrow> bool" where
  "policy_ok p \<longleftrightarrow> length (sp_rules p) \<le> 64 \<and> (\<forall>r \<in> set (sp_rules p). rule_ok r)"

text \<open>A normalised policy as the value it is stored as.\<close>

definition dimension_json :: "scope_dimension \<Rightarrow> json" where
  "dimension_json d = JObj [(''selector'', JStr (sd_selector d)), (''allowedValues'', JArr (sd_allowedValues d))]"

definition rule_json :: "scope_rule \<Rightarrow> json" where
  "rule_json r = JObj [(''resourceTypePattern'', JStr (sr_resourceTypePattern r)),
     (''dimensions'', JObj (map (\<lambda>(name, d). (name, dimension_json d)) (sr_dimensions r)))]"

definition policy_json :: "scope_policy \<Rightarrow> json" where
  "policy_json p = JObj ((case sp_mode p of None \<Rightarrow> [] | Some Strict \<Rightarrow> [(''mode'', JStr ''strict'')] | Some Permissive \<Rightarrow> [(''mode'', JStr ''permissive'')])
     @ [(''rules'', JArr (map rule_json (sp_rules p)))])"

lemma text_of_Some: "text_of v = Some t \<Longrightarrow> t \<noteq> [] \<and> js_trim t = t"
  by (auto simp: text_of_def split: option.splits json.splits if_splits)

lemma normalizeDimension_ok:
  assumes "normalizeDimension index name raw = Inr d"
  shows "dimension_name name \<and> dimension_ok d"
proof -
  obtain fs sel vs where "record_of (Some raw) = Some fs" "text_of (json_field fs ''selector'') = Some sel"
    "json_field fs ''allowedValues'' = Some (JArr vs)"
    using assms by (fastforce simp: normalizeDimension_def split: option.splits json.splits if_splits)
  then show ?thesis using assms text_of_Some [of "json_field fs ''selector''" sel]
    by (auto simp: normalizeDimension_def dimension_ok_def split: if_splits)
qed

lemma length_js_set: "length (js_set k v m) \<le> Suc (length m)"
  by (induction k v m rule: js_set.induct) auto

lemma set_js_set: "set (js_set k v m) \<subseteq> insert (k, v) (set m)"
  by (induction k v m rule: js_set.induct) auto

lemma normalizeDimensions_ok:
  assumes "normalizeDimensions index entries acc = Inr ds" "js_wf acc" "\<forall>(name, d) \<in> set acc. dimension_name name \<and> dimension_ok d"
  shows "js_wf ds \<and> length ds \<le> length acc + length entries \<and> (\<forall>(name, d) \<in> set ds. dimension_name name \<and> dimension_ok d)"
  using assms
proof (induction index entries acc rule: normalizeDimensions.induct)
  case (2 index name raw entries acc)
  from 2(2) obtain d where d: "normalizeDimension index name raw = Inr d" "normalizeDimensions index entries (js_set name d acc) = Inr ds" by auto
  have "\<forall>(n, d') \<in> set (js_set name d acc). dimension_name n \<and> dimension_ok d'"
    using set_js_set [of name d acc] 2(4) normalizeDimension_ok [OF d(1)] by auto
  then show ?case using 2(1) [OF d(2)] 2(3) length_js_set [of name d acc] by auto
qed simp

lemma normalizeRule_ok:
  assumes "normalizeRule v index = Inr r"
  shows "rule_ok r"
proof -
  obtain fs pattern raw ds where "record_of (Some v) = Some fs" and t: "text_of (json_field fs ''resourceTypePattern'') = Some pattern"
    and p: "length pattern \<le> 256" "list_all pattern_char pattern" and raw: "length raw \<le> 32" "normalizeDimensions index raw [] = Inr ds"
    and r: "r = \<lparr>sr_resourceTypePattern = pattern, sr_dimensions = ds\<rparr>"
    using assms by (auto simp: normalizeRule_def not_less split: option.splits if_splits)
  show ?thesis using text_of_Some [OF t] p normalizeDimensions_ok [OF raw(2)] raw(1) by (auto simp: r rule_ok_def)
qed

lemma normalizeRules_ok:
  "normalizeRules vs index = Inr rs \<Longrightarrow> length rs = length vs \<and> (\<forall>r \<in> set rs. rule_ok r)"
  by (induction vs index arbitrary: rs rule: normalizeRules.induct) (auto dest: normalizeRule_ok)

lemma parse_policy_ok: "parseScopeBoundaryPolicy v = Inr p \<Longrightarrow> policy_ok p"
  by (auto simp: parseScopeBoundaryPolicy_def policy_ok_def split: option.splits json.splits if_splits dest!: normalizeRules_ok)

lemma json_field_simps [simp]:
  "json_field [] k = None" "json_field ((k', v) # m) k = (if k' = k then Some v else json_field m k)"
  by (auto simp: json_field_def js_get_def)

lemma dimension_reread: "dimension_name name \<Longrightarrow> dimension_ok d \<Longrightarrow> normalizeDimension index name (dimension_json d) = Inr d"
  by (simp add: normalizeDimension_def dimension_json_def record_of_def text_of_def dimension_ok_def)

lemma dimensions_reread:
  assumes "\<forall>(name, d) \<in> set ds. dimension_name name \<and> dimension_ok d"
  shows "normalizeDimensions index (map (\<lambda>(name, d). (name, dimension_json d)) ds) acc = Inr (fold (\<lambda>(k, v). js_set k v) ds acc)"
  using assms by (induction ds arbitrary: acc) (auto simp: dimension_reread)

lemma rule_reread:
  assumes "rule_ok r"
  shows "normalizeRule (rule_json r) index = Inr r"
proof -
  have "normalizeDimensions index (map (\<lambda>(name, d). (name, dimension_json d)) (sr_dimensions r)) [] = Inr (sr_dimensions r)"
    using dimensions_reread [of "sr_dimensions r" index "[]"] fold_js_set_distinct [of "[]" "sr_dimensions r"] assms
    by (simp add: rule_ok_def js_wf_def)
  then show ?thesis using assms by (simp add: normalizeRule_def rule_json_def record_of_def text_of_def rule_ok_def)
qed

lemma rules_reread: "\<forall>r \<in> set rs. rule_ok r \<Longrightarrow> normalizeRules (map rule_json rs) index = Inr rs"
  by (induction rs arbitrary: index) (auto simp: rule_reread)

lemma policy_reread: "policy_ok p \<Longrightarrow> parseScopeBoundaryPolicy (Some (policy_json p)) = Inr p"
  by (cases "sp_mode p"; cases "the (sp_mode p)")
    (auto simp: policy_ok_def parseScopeBoundaryPolicy_def policy_json_def record_of_def parse_mode_def rules_reread)

end
