(* ===== verification/Plan_Policy.thy ===== *)
theory Plan_Policy
  imports Plan_Scope
begin

text \<open>
  The plan policy: the layered evaluators of \<open>lib/policy/src/mod.ts\<close>, provider sources
  (\<open>contract/provider-env-rules.ts\<close>), the runner profile gate
  (\<open>core/domains/deploy-control/policy.ts\<close>), the composition of Workspace and InstallConfig
  policies and the provider supply-chain layers (\<open>provider_policy.ts\<close>), and the verdict the run
  engine composes from them (\<open>run-engine/run_engine.ts\<close>). Sorting an array of strings without a
  comparator is sorting by code units. Quota limits are integers.
\<close>

section \<open>Provider sources\<close>

definition js_lower_char :: "char \<Rightarrow> char" where
  "js_lower_char c = (let n = (of_char c :: nat) in
     if 65 \<le> n \<and> n \<le> 90 \<or> 192 \<le> n \<and> n \<le> 222 \<and> n \<noteq> 215 then char_of (n + 32) else c)"

definition js_lower :: "string \<Rightarrow> string" where
  "js_lower s = map js_lower_char s"

definition identity_part :: "string \<Rightarrow> bool" where
  "identity_part s \<longleftrightarrow> s \<noteq> [] \<and> list_all (\<lambda>c. ascii_letter c \<or> is_digit c \<or> c = CHR ''_'' \<or> c = CHR ''-'') s"

definition normalizeProviderSourceAddress :: "string \<Rightarrow> string" where
  "normalizeProviderSourceAddress provider =
     (let normalized = js_lower (js_trim provider); parts = js_split (CHR ''/'') normalized in
      if length parts = 2 \<and> list_all identity_part parts then ''registry.opentofu.org/'' @ normalized else normalized)"

definition canonicalProviderSource :: "string \<Rightarrow> string" where
  "canonicalProviderSource provider = normalizeProviderSourceAddress provider"

definition isOpenTofuBuiltinProviderSource :: "string \<Rightarrow> bool" where
  "isOpenTofuBuiltinProviderSource provider \<longleftrightarrow>
     (let s = canonicalProviderSource provider; p = ''terraform.io/builtin/''; name = drop (length p) s in
      take (length p) s = p \<and> name \<noteq> []
      \<and> (97 \<le> (of_char (hd name) :: nat) \<and> (of_char (hd name) :: nat) \<le> 122 \<or> is_digit (hd name))
      \<and> list_all (\<lambda>c. 97 \<le> (of_char c :: nat) \<and> (of_char c :: nat) \<le> 122 \<or> is_digit c \<or> c = CHR ''_'' \<or> c = CHR ''-'') (tl name))"

definition sameProviderSource :: "string \<Rightarrow> string \<Rightarrow> bool" where
  "sameProviderSource left right \<longleftrightarrow> normalizeProviderSourceAddress left = normalizeProviderSourceAddress right"

definition providerMatches :: "string \<Rightarrow> string \<Rightarrow> bool" where
  "providerMatches provider rule = sameProviderSource provider rule"

section \<open>Layer evaluators\<close>

text \<open>\<open>Array.prototype.sort\<close> on strings.\<close>

definition sort_strings :: "string list \<Rightarrow> string list" where
  "sort_strings xs = js_sort code_unit_compare xs"

lemma set_sort_strings [simp]: "set (sort_strings xs) = set xs"
  by (simp add: sort_strings_def)

lemma sort_strings_Nil [simp]: "sort_strings xs = [] \<longleftrightarrow> xs = []"
  by (simp add: sort_strings_def)

record plan_change =
  pc_address :: string
  pc_type :: string
  pc_actions :: "string list"
  pc_importing :: "bool option"
  pc_scope :: "json option"

definition isMutating :: "plan_change \<Rightarrow> bool" where
  "isMutating c \<longleftrightarrow> pc_importing c = Some True \<or> list_ex (\<lambda>a. a \<notin> {''no-op'', ''read''}) (pc_actions c)"

definition needsApproval :: "plan_change \<Rightarrow> bool" where
  "needsApproval c \<longleftrightarrow> pc_importing c = Some True \<or> list_ex (\<lambda>a. a \<notin> {''create'', ''update'', ''no-op'', ''read''}) (pc_actions c)"

definition providerAllowed :: "string \<Rightarrow> string list \<Rightarrow> bool" where
  "providerAllowed provider allowed \<longleftrightarrow> list_ex (\<lambda>a. a = ''*'' \<or> providerMatches provider a) allowed"

definition providerDenied :: "string \<Rightarrow> string list \<Rightarrow> bool" where
  "providerDenied provider denied \<longleftrightarrow> list_ex (\<lambda>d. providerMatches provider d) denied"

record provider_result =
  pr_denied :: "string list"
  pr_notAllowed :: "string list"
  pr_missingProviders :: bool
  pr_reasons :: "string list"

definition provider_verdict :: "string list \<Rightarrow> string list \<Rightarrow> string \<Rightarrow> provider_result \<Rightarrow> provider_result" where
  "provider_verdict allowed denied provider r =
     (if providerDenied provider denied then
        r\<lparr>pr_denied := pr_denied r @ [provider], pr_reasons := pr_reasons r @ [''provider '' @ provider @ '' is denied by policy'']\<rparr>
      else if \<not> providerAllowed provider allowed then
        r\<lparr>pr_notAllowed := pr_notAllowed r @ [provider],
          pr_reasons := pr_reasons r @ [''provider '' @ provider @ '' is not allowed by policy'']\<rparr>
      else r)"

definition evaluateProviderAllowlist :: "string list \<Rightarrow> string list \<Rightarrow> string list option \<Rightarrow> bool \<Rightarrow> provider_result" where
  "evaluateProviderAllowlist required allowed denied allowNoProviders =
     (let deniedRules = (case denied of Some d \<Rightarrow> d | None \<Rightarrow> []);
          missing = (allowed \<noteq> [] \<and> required = [] \<and> \<not> allowNoProviders)
      in fold (provider_verdict allowed deniedRules) required
           \<lparr>pr_denied = [], pr_notAllowed = [], pr_missingProviders = missing,
            pr_reasons = (if missing then [''requiredProviders must be declared before OpenTofu init''] else [])\<rparr>)"

definition evaluateResourceAllowlist :: "plan_change list \<Rightarrow> string list option \<Rightarrow> string list \<times> string list" where
  "evaluateResourceAllowlist changes allowedResourceTypes =
     (case allowedResourceTypes of None \<Rightarrow> ([], [])
      | Some allowed \<Rightarrow>
          (let disallowed = sort_strings (fold (\<lambda>c s. if isMutating c \<and> pc_type c \<notin> set allowed then js_set_add (pc_type c) s else s) changes [])
           in (disallowed, map (\<lambda>t. ''resource type '' @ t @ '' is not allowed by policy'') disallowed)))"

definition scoped_value :: "plan_change \<Rightarrow> bool \<Rightarrow> string \<Rightarrow> json list \<Rightarrow> json option \<Rightarrow> string list" where
  "scoped_value change strict dimension configured observed =
     (case observed of
        None \<Rightarrow> if strict then [pc_address change @ '' missing scope dimension '' @ dimension] else []
      | Some v \<Rightarrow> if v \<notin> set configured then [pc_address change @ '' scope dimension '' @ dimension @ '' '' @ js_string v] else [])"

definition change_violations :: "bool \<Rightarrow> scope_rule list \<Rightarrow> plan_change \<Rightarrow> string list" where
  "change_violations strict rules change =
     (if \<not> isMutating change then []
      else let facts = (case normalizePlanResourceScope (pc_scope change) of Some f \<Rightarrow> f | None \<Rightarrow> []) in
        concat (map (\<lambda>rule. if \<not> resourceTypeMatchesPattern (pc_type change) (sr_resourceTypePattern rule) then []
          else concat (map (\<lambda>(dimension, con). scoped_value change strict dimension (sd_allowedValues con) (js_get facts dimension))
            (sr_dimensions rule))) rules))"

definition scope_violations :: "scope_policy \<Rightarrow> plan_change list \<Rightarrow> string list" where
  "scope_violations p changes = fold js_set_add (concat (map (change_violations (sp_mode p = Some Strict) (sp_rules p)) changes)) []"

definition evaluateScopeBoundary :: "plan_change list \<Rightarrow> json option \<Rightarrow> type_error + string list \<times> string list" where
  "evaluateScopeBoundary changes policy =
     chain (normalizeScopeBoundaryPolicy policy) (\<lambda>normalized.
       case normalized of None \<Rightarrow> Inr ([], [])
       | Some p \<Rightarrow> (let outOfScope = sort_strings (scope_violations p changes)
                    in Inr (outOfScope, map (\<lambda>e. ''resource '' @ e @ '' is out of scope'') outOfScope)))"

definition quota_counts :: "plan_change list \<Rightarrow> (string, int) js_map" where
  "quota_counts mutating =
     fold (\<lambda>c counts. js_set (pc_type c) ((case js_get counts (pc_type c) of Some n \<Rightarrow> n | None \<Rightarrow> 0) + 1) counts) mutating
       [(''resources'', int (length mutating)), (''resources.total'', int (length mutating))]"

definition quota_entry :: "(string, int) js_map \<Rightarrow> string \<times> int \<Rightarrow> string list" where
  "quota_entry counts entry =
     (case entry of (key, limit) \<Rightarrow>
        if limit < 0 then [key @ '' limit is invalid'']
        else let count = (case js_get counts key of Some n \<Rightarrow> n | None \<Rightarrow> 0) in
          if limit < count then [key @ '' count '' @ show_int count @ '' exceeds '' @ show_int limit] else [])"

definition evaluateQuotaPolicy :: "plan_change list \<Rightarrow> (string, int) js_map option \<Rightarrow> string list \<times> string list" where
  "evaluateQuotaPolicy changes quota =
     (case quota of None \<Rightarrow> ([], [])
      | Some q \<Rightarrow> (let exceeded = sort_strings (concat (map (quota_entry (quota_counts (filter isMutating changes))) q))
                   in (exceeded, map (\<lambda>e. ''quota '' @ e @ '' is exceeded'') exceeded)))"

definition resourceTypesRequiringApproval :: "plan_change list \<Rightarrow> string list" where
  "resourceTypesRequiringApproval changes =
     sort_strings (fold (\<lambda>c s. if needsApproval c then js_set_add (pc_type c) s else s) changes [])"

definition evaluateActionPolicy :: "plan_change list \<Rightarrow> bool \<times> string list" where
  "evaluateActionPolicy changes =
     (let types = resourceTypesRequiringApproval changes
      in (types \<noteq> [], map (\<lambda>t. ''resource type '' @ t
            @ '' has an import, delete/replace, or otherwise unapproved change requiring approval'') types))"

section \<open>The runner profile\<close>

record profile_state =
  st_state :: string
  st_reason :: "string option"

record runner_profile =
  rp_id :: string
  rp_executorId :: "string option"
  rp_lifecycle :: "profile_state option"
  rp_availability :: "profile_state option"
  rp_allowedProviders :: "string list"
  rp_deniedProviders :: "string list option"

record policy_decision =
  pd_passed :: bool
  pd_reasons :: "string list"
  pd_checkedAt :: int

definition reason_suffix :: "profile_state option \<Rightarrow> string" where
  "reason_suffix s = (case s of None \<Rightarrow> [] | Some st \<Rightarrow> (case st_reason st of None \<Rightarrow> [] | Some r \<Rightarrow> if r = [] then [] else '': '' @ r))"

definition runnerProfileStateReasons :: "runner_profile \<Rightarrow> string list" where
  "runnerProfileStateReasons profile =
     (if map_option st_state (rp_lifecycle profile) \<noteq> Some ''active'' then
        [''runner profile '' @ rp_id profile @ '' lifecycle is ''
          @ (case rp_lifecycle profile of Some l \<Rightarrow> st_state l | None \<Rightarrow> ''missing'')
          @ ''; only active profiles can execute'' @ reason_suffix (rp_lifecycle profile)] else [])
     @ (if map_option st_state (rp_availability profile) \<noteq> Some ''available'' then
        [''runner profile '' @ rp_id profile @ '' is unavailable'' @ reason_suffix (rp_availability profile)] else [])
     @ (case rp_executorId profile of None \<Rightarrow> [''runner profile '' @ rp_id profile @ '' has no executorId'']
        | Some e \<Rightarrow> if js_trim e = [] then [''runner profile '' @ rp_id profile @ '' has no executorId''] else [])"

definition evaluatePolicy :: "runner_profile \<Rightarrow> string list \<Rightarrow> int \<Rightarrow> bool \<Rightarrow> policy_decision" where
  "evaluatePolicy profile requiredProviders checkedAt allowNoProviders =
     (let provider = evaluateProviderAllowlist requiredProviders (rp_allowedProviders profile)
            (Some (case rp_deniedProviders profile of Some d \<Rightarrow> d | None \<Rightarrow> [])) allowNoProviders;
          reasons = runnerProfileStateReasons profile
            @ (if pr_missingProviders provider
               then [''runner profile '' @ rp_id profile @ '' requires requiredProviders before OpenTofu init''] else [])
            @ map (\<lambda>d. ''provider '' @ d @ '' is denied by runner profile '' @ rp_id profile) (pr_denied provider)
            @ map (\<lambda>d. ''provider '' @ d @ '' is not allowed by runner profile '' @ rp_id profile) (pr_notAllowed provider)
      in \<lparr>pd_passed = (reasons = []), pd_reasons = reasons, pd_checkedAt = checkedAt\<rparr>)"

section \<open>Workspace and InstallConfig policies\<close>

record credential_policy =
  cp_requiredProviders :: "string list option"
  cp_allowedConnectionIds :: "string list option"
  cp_forbiddenConnectionIds :: "string list option"
  cp_allowedConnectionScopes :: "string list option"
  cp_allowedCredentialRecipes :: "(string \<times> string) list option"
  cp_requiredCredentialCapabilities :: "string list option"
  cp_requireTemporary :: "bool option"
  cp_requireTtlEnforced :: "bool option"

text \<open>Single-field objects are their field.\<close>

record policy_config =
  p_allowedProviders :: "string list option"
  p_allowedResourceTypes :: "string list option"
  p_allowedDataSourceTypes :: "string list option"
  p_allowedProvisionerTypes :: "string list option"
  p_destructiveChanges :: "bool option"
  p_providerLockfile :: "bool option"
  p_providerInstallation :: "bool option"
  p_providerCredentials :: "credential_policy option"
  p_scopeBoundary :: "json option"
  p_quota :: "(string, int) js_map option"

definition intersectOptionalLists :: "string list option \<Rightarrow> string list option \<Rightarrow> string list option" where
  "intersectOptionalLists ceiling local' =
     (case ceiling of None \<Rightarrow> local'
      | Some c \<Rightarrow> (case local' of None \<Rightarrow> ceiling | Some l \<Rightarrow> Some (sort_strings (filter (\<lambda>e. e \<in> set c) l))))"

definition unionRequiredCapabilities :: "string list option \<Rightarrow> string list option \<Rightarrow> string list option" where
  "unionRequiredCapabilities ceiling local' =
     (if ceiling = None \<and> local' = None then None
      else Some (sort_strings (js_dedup (concat (map (case_option [] id) [ceiling, local'])))))"

definition credentialRecipeKey :: "string \<times> string \<Rightarrow> string" where
  "credentialRecipeKey r = fst r @ [CHR 0x00] @ snd r"

definition compareCredentialRecipes :: "(string \<Rightarrow> string \<Rightarrow> int) \<Rightarrow> string \<times> string \<Rightarrow> string \<times> string \<Rightarrow> int" where
  "compareCredentialRecipes lc l r = (if lc (fst l) (fst r) \<noteq> 0 then lc (fst l) (fst r) else lc (snd l) (snd r))"

definition intersectOptionalCredentialRecipes ::
    "(string \<Rightarrow> string \<Rightarrow> int) \<Rightarrow> (string \<times> string) list option \<Rightarrow> (string \<times> string) list option \<Rightarrow> (string \<times> string) list option" where
  "intersectOptionalCredentialRecipes lc ceiling local' =
     (case ceiling of None \<Rightarrow> local'
      | Some c \<Rightarrow> (case local' of None \<Rightarrow> ceiling
          | Some l \<Rightarrow> Some (js_sort (compareCredentialRecipes lc)
              (filter (\<lambda>e. credentialRecipeKey e \<in> set (map credentialRecipeKey c)) l))))"

definition mergeRequirement :: "bool option \<Rightarrow> bool option \<Rightarrow> bool option" where
  "mergeRequirement ceiling local' =
     (case ceiling of None \<Rightarrow> local' | Some c \<Rightarrow> (case local' of None \<Rightarrow> ceiling | Some l \<Rightarrow> Some (c \<or> l)))"

definition mergeProviderLockfilePolicy :: "bool option \<Rightarrow> bool option \<Rightarrow> bool option" where
  "mergeProviderLockfilePolicy = mergeRequirement"

definition mergeProviderInstallationPolicy :: "bool option \<Rightarrow> bool option \<Rightarrow> bool option" where
  "mergeProviderInstallationPolicy = mergeRequirement"

definition non_empty :: "string list \<Rightarrow> string list option" where
  "non_empty xs = (if xs \<noteq> [] then Some xs else None)"

definition opt_field :: "('c \<Rightarrow> 'v option) \<Rightarrow> 'c option \<Rightarrow> 'v option" where
  "opt_field f c = (case c of None \<Rightarrow> None | Some r \<Rightarrow> f r)"

definition mergeProviderCredentialPolicy ::
    "(string \<Rightarrow> string \<Rightarrow> int) \<Rightarrow> credential_policy option \<Rightarrow> credential_policy option \<Rightarrow> credential_policy option" where
  "mergeProviderCredentialPolicy lc ceiling local' =
     (if ceiling = None \<and> local' = None then None
      else
        let union = (\<lambda>f. non_empty (sort_strings (js_dedup (case_option [] id (opt_field f ceiling) @ case_option [] id (opt_field f local')))));
            either = (\<lambda>f. opt_field f ceiling = Some True \<or> opt_field f local' = Some True)
        in Some \<lparr>cp_requiredProviders = union cp_requiredProviders,
             cp_allowedConnectionIds = intersectOptionalLists (opt_field cp_allowedConnectionIds ceiling) (opt_field cp_allowedConnectionIds local'),
             cp_forbiddenConnectionIds = union cp_forbiddenConnectionIds,
             cp_allowedConnectionScopes = intersectOptionalLists (opt_field cp_allowedConnectionScopes ceiling) (opt_field cp_allowedConnectionScopes local'),
             cp_allowedCredentialRecipes = intersectOptionalCredentialRecipes lc (opt_field cp_allowedCredentialRecipes ceiling) (opt_field cp_allowedCredentialRecipes local'),
             cp_requiredCredentialCapabilities = unionRequiredCapabilities (opt_field cp_requiredCredentialCapabilities ceiling) (opt_field cp_requiredCredentialCapabilities local'),
             cp_requireTemporary = Some (either cp_requireTemporary),
             cp_requireTtlEnforced = Some (either cp_requireTtlEnforced)\<rparr>)"

definition mergeScopeBoundary :: "json option \<Rightarrow> json option \<Rightarrow> type_error + json option" where
  "mergeScopeBoundary ceiling local' =
     chain (normalizeScopeBoundaryPolicy ceiling) (\<lambda>c.
     chain (normalizeScopeBoundaryPolicy local') (\<lambda>l.
       case c of None \<Rightarrow> Inr (map_option policy_json l)
       | Some cp \<Rightarrow> (case l of None \<Rightarrow> Inr (Some (policy_json cp))
           | Some lp \<Rightarrow> Inr (Some (policy_json
               \<lparr>sp_mode = (if sp_mode cp = Some Strict \<or> sp_mode lp = Some Strict then Some Strict
                           else case sp_mode cp of Some m \<Rightarrow> Some m | None \<Rightarrow> sp_mode lp),
                sp_rules = sp_rules cp @ sp_rules lp\<rparr>)))))"

definition mergeQuota :: "(string, int) js_map option \<Rightarrow> (string, int) js_map option \<Rightarrow> (string, int) js_map option" where
  "mergeQuota ceiling local' =
     (case ceiling of None \<Rightarrow> local'
      | Some c \<Rightarrow> (case local' of None \<Rightarrow> ceiling
          | Some l \<Rightarrow> Some (fold (\<lambda>key out. js_set key
              (case js_get c key of None \<Rightarrow> the (js_get l key)
               | Some a \<Rightarrow> (case js_get l key of None \<Rightarrow> a | Some b \<Rightarrow> min a b)) out)
              (js_dedup (js_keys c @ js_keys l)) [])))"

definition mergePolicyConfigs ::
    "(string \<Rightarrow> string \<Rightarrow> int) \<Rightarrow> policy_config option \<Rightarrow> policy_config option \<Rightarrow> type_error + policy_config option" where
  "mergePolicyConfigs lc spacePolicy installPolicy =
     (if spacePolicy = None \<and> installPolicy = None then Inr None
      else chain (mergeScopeBoundary (opt_field p_scopeBoundary spacePolicy) (opt_field p_scopeBoundary installPolicy)) (\<lambda>scope.
        Inr (Some \<lparr>p_allowedProviders = intersectOptionalLists (opt_field p_allowedProviders spacePolicy) (opt_field p_allowedProviders installPolicy),
          p_allowedResourceTypes = intersectOptionalLists (opt_field p_allowedResourceTypes spacePolicy) (opt_field p_allowedResourceTypes installPolicy),
          p_allowedDataSourceTypes = intersectOptionalLists (opt_field p_allowedDataSourceTypes spacePolicy) (opt_field p_allowedDataSourceTypes installPolicy),
          p_allowedProvisionerTypes = intersectOptionalLists (opt_field p_allowedProvisionerTypes spacePolicy) (opt_field p_allowedProvisionerTypes installPolicy),
          p_destructiveChanges = (case opt_field p_destructiveChanges installPolicy of Some b \<Rightarrow> Some b | None \<Rightarrow> opt_field p_destructiveChanges spacePolicy),
          p_providerLockfile = mergeProviderLockfilePolicy (opt_field p_providerLockfile spacePolicy) (opt_field p_providerLockfile installPolicy),
          p_providerInstallation = mergeProviderInstallationPolicy (opt_field p_providerInstallation spacePolicy) (opt_field p_providerInstallation installPolicy),
          p_providerCredentials = mergeProviderCredentialPolicy lc (opt_field p_providerCredentials spacePolicy) (opt_field p_providerCredentials installPolicy),
          p_scopeBoundary = scope,
          p_quota = mergeQuota (opt_field p_quota spacePolicy) (opt_field p_quota installPolicy)\<rparr>)))"

definition empty_policy :: policy_config where
  "empty_policy = \<lparr>p_allowedProviders = None, p_allowedResourceTypes = None, p_allowedDataSourceTypes = None,
     p_allowedProvisionerTypes = None, p_destructiveChanges = None, p_providerLockfile = None, p_providerInstallation = None,
     p_providerCredentials = None, p_scopeBoundary = None, p_quota = None\<rparr>"

definition withDefaultProviderSupplyChainPolicy :: "policy_config option \<Rightarrow> bool option \<Rightarrow> bool option \<Rightarrow> policy_config" where
  "withDefaultProviderSupplyChainPolicy policy requireDigest requireMirror =
     (let p = (case policy of Some q \<Rightarrow> q | None \<Rightarrow> empty_policy)
      in p\<lparr>p_providerLockfile := (case p_providerLockfile p of Some b \<Rightarrow> Some b
               | None \<Rightarrow> if case_option True id requireDigest then Some True else None),
           p_providerInstallation := (case p_providerInstallation p of Some b \<Rightarrow> Some b
               | None \<Rightarrow> Some (case_option True id requireMirror))\<rparr>)"

section \<open>The supply chain of the providers\<close>

definition installable :: "string list \<Rightarrow> string list" where
  "installable providers = filter (\<lambda>p. \<not> isOpenTofuBuiltinProviderSource p) providers"

definition evaluateConfiguredProviderAllowlist :: "string list \<Rightarrow> policy_config option \<Rightarrow> bool \<Rightarrow> provider_result option" where
  "evaluateConfiguredProviderAllowlist requiredProviders policy allowNoProviders =
     (case opt_field p_allowedProviders policy of None \<Rightarrow> None
      | Some allowed \<Rightarrow> Some (evaluateProviderAllowlist (installable requiredProviders) allowed None allowNoProviders))"

text \<open>A result is whether a digest is present, and the reasons.\<close>

definition evaluateProviderLockfilePolicy :: "string option \<Rightarrow> policy_config option \<Rightarrow> string list \<Rightarrow> (bool \<times> string list) option" where
  "evaluateProviderLockfilePolicy providerLockDigest policy requiredProviders =
     (if opt_field p_providerLockfile policy \<noteq> Some True \<or> list_all isOpenTofuBuiltinProviderSource requiredProviders then None
      else let present = (case providerLockDigest of None \<Rightarrow> False | Some d \<Rightarrow> js_trim d \<noteq> [])
        in Some (present, if present then []
             else [''provider lockfile digest is required by policy but was not returned by the runner'']))"

record installation_evidence =
  ie_provider :: string
  ie_mirrored :: bool
  ie_installationMethod :: string
  ie_attested :: "bool option"

record installation_result =
  ir_evidenceCount :: nat
  ir_missingEvidenceProviders :: "string list"
  ir_unmirroredProviders :: "string list"
  ir_reasons :: "string list"

definition evaluateProviderInstallationPolicy ::
    "installation_evidence list option \<Rightarrow> policy_config option \<Rightarrow> string list \<Rightarrow> installation_result option" where
  "evaluateProviderInstallationPolicy evidence policy requiredProviders =
     (if opt_field p_providerInstallation policy \<noteq> Some True then None
      else if installable requiredProviders = [] then
        Some \<lparr>ir_evidenceCount = 0, ir_missingEvidenceProviders = [], ir_unmirroredProviders = [], ir_reasons = []\<rparr>
      else
        let rows = filter (\<lambda>r. \<not> isOpenTofuBuiltinProviderSource (ie_provider r)) (case_option [] id evidence);
            required = js_dedup (map canonicalProviderSource (installable requiredProviders));
            missing = sort_strings (filter (\<lambda>p. p \<notin> set (map (canonicalProviderSource \<circ> ie_provider) rows)) (sort_strings required));
            unmirrored = sort_strings (map (canonicalProviderSource \<circ> ie_provider)
              (filter (\<lambda>r. canonicalProviderSource (ie_provider r) \<in> set required
                 \<and> (\<not> ie_mirrored r \<or> ie_attested r \<noteq> Some True \<or> ie_installationMethod r \<noteq> ''filesystem_mirror'')) rows))
        in Some \<lparr>ir_evidenceCount = length rows, ir_missingEvidenceProviders = missing, ir_unmirroredProviders = unmirrored,
             ir_reasons = (if rows = [] then [''provider installation attestation is required by policy but was not returned by the runner''] else [])
               @ (if missing \<noteq> [] then [''provider installation attestation is missing for required providers: '' @ join_with '', '' missing] else [])
               @ (if unmirrored \<noteq> [] then [''provider mirror is required by policy but these providers were not attested as installed from the filesystem mirror: ''
                    @ join_with '', '' unmirrored] else [])\<rparr>)"

section \<open>The verdict of a completed plan\<close>

record plan_view =
  pv_capsuleId :: "string option"
  pv_contextCapsuleId :: "string option"
  pv_sourceSnapshotId :: "string option"
  pv_requiredProviders :: "string list"
  pv_driftCheck :: "bool option"
  pv_refreshOnly :: "bool option"

record plan_result =
  res_requiredProviders :: "string list option"
  res_providerLockDigest :: "string option"
  res_providerInstallation :: "installation_evidence list option"
  res_planResourceChanges :: "plan_change list option"

record plan_layers =
  ly_provider :: "provider_result option"
  ly_providerLockfile :: "(bool \<times> string list) option"
  ly_providerInstallation :: "installation_result option"
  ly_resource :: "(string list \<times> string list) option"
  ly_scope :: "(string list \<times> string list) option"
  ly_action :: "(bool \<times> string list) option"
  ly_quota :: "(string list \<times> string list) option"

datatype policy_error = ScopeError type_error | InvalidArgument string

definition normalizeProviders :: "string list \<Rightarrow> policy_error + string list" where
  "normalizeProviders providers =
     (if list_ex (\<lambda>p. js_trim p = []) providers then Inl (InvalidArgument ''requiredProviders[] must be a non-empty string'') else Inr providers)"

definition planAllowsNoProviders :: "plan_view \<Rightarrow> bool" where
  "planAllowsNoProviders run \<longleftrightarrow> pv_capsuleId run \<noteq> None \<and> pv_sourceSnapshotId run \<noteq> None \<and> pv_requiredProviders run = []"

definition observed_providers :: "plan_view \<Rightarrow> plan_result \<Rightarrow> string list" where
  "observed_providers run result = (case res_requiredProviders result of Some ps \<Rightarrow> ps | None \<Rightarrow> pv_requiredProviders run)"

definition capsule_run :: "plan_view \<Rightarrow> bool" where
  "capsule_run run \<longleftrightarrow> (case pv_contextCapsuleId run of Some c \<Rightarrow> c \<noteq> []
     | None \<Rightarrow> (case pv_capsuleId run of Some c \<Rightarrow> c \<noteq> [] | None \<Rightarrow> False))"

definition evaluatePlanPolicy :: "policy_config option \<Rightarrow> plan_view \<Rightarrow> plan_result \<Rightarrow> policy_error + plan_layers" where
  "evaluatePlanPolicy policy run result =
     chain (normalizeProviders (observed_providers run result)) (\<lambda>observed.
       (let provider = evaluateConfiguredProviderAllowlist observed policy (planAllowsNoProviders run);
            lockfile = evaluateProviderLockfilePolicy (res_providerLockDigest result) policy observed;
            installation = evaluateProviderInstallationPolicy (res_providerInstallation result) policy observed;
            layers = \<lparr>ly_provider = provider, ly_providerLockfile = lockfile, ly_providerInstallation = installation,
              ly_resource = None, ly_scope = None, ly_action = None, ly_quota = None\<rparr>
        in case res_planResourceChanges result of
             None \<Rightarrow>
               if \<not> capsule_run run \<or> \<not> (opt_field p_allowedResourceTypes policy \<noteq> None
                    \<or> opt_field p_scopeBoundary policy \<noteq> None \<or> opt_field p_quota policy \<noteq> None)
               then Inr layers
               else Inr (layers\<lparr>ly_resource := Some ([], [''plan resource changes are unavailable, so the resource policy cannot be evaluated''])\<rparr>)
           | Some changes \<Rightarrow>
               chain (map_sum ScopeError id (evaluateScopeBoundary changes (opt_field p_scopeBoundary policy))) (\<lambda>scope.
                 Inr (layers\<lparr>ly_resource := Some (evaluateResourceAllowlist changes (opt_field p_allowedResourceTypes policy)),
                   ly_scope := Some scope, ly_action := Some (evaluateActionPolicy changes),
                   ly_quota := Some (evaluateQuotaPolicy changes (opt_field p_quota policy))\<rparr>))))"

definition blockedByLayeredPolicy :: "plan_layers \<Rightarrow> string list" where
  "blockedByLayeredPolicy l =
     case_option [] pr_reasons (ly_provider l) @ case_option [] snd (ly_resource l) @ case_option [] snd (ly_scope l)
     @ case_option [] snd (ly_quota l) @ case_option [] snd (ly_providerLockfile l) @ case_option [] ir_reasons (ly_providerInstallation l)"

record plan_verdict =
  pv_layered :: plan_layers
  pv_passed :: bool
  pv_completed :: policy_decision
  pv_requiresApproval :: bool

text \<open>The reasons of the Capsule compatibility report and of the billing reservation come from
  their services.\<close>

definition plan_verdict_of ::
    "runner_profile \<Rightarrow> policy_config option \<Rightarrow> string list \<Rightarrow> string list \<Rightarrow> int \<Rightarrow> plan_view \<Rightarrow> plan_result \<Rightarrow> policy_error + plan_verdict" where
  "plan_verdict_of profile policy compatibility billing now run result =
     chain (normalizeProviders (observed_providers run result)) (\<lambda>required.
       (let decision = evaluatePolicy profile required now (planAllowsNoProviders run) in
        chain (evaluatePlanPolicy policy run result) (\<lambda>layered.
          (let blocked = blockedByLayeredPolicy layered;
               passed = (pd_passed decision \<and> blocked = [] \<and> compatibility = [] \<and> billing = [])
           in Inr \<lparr>pv_layered = layered, pv_passed = passed,
                pv_completed = (if passed then decision
                  else \<lparr>pd_passed = False, pd_reasons = pd_reasons decision @ blocked @ compatibility @ billing, pd_checkedAt = now\<rparr>),
                pv_requiresApproval = (pv_driftCheck run \<noteq> Some True \<and> pv_refreshOnly run \<noteq> Some True
                  \<and> map_option fst (ly_action layered) = Some True)\<rparr>))))"

section \<open>What a layer admits\<close>

lemma provider_fold_Nil:
  "pr_reasons (fold (provider_verdict al den) req r) = [] \<longleftrightarrow>
     pr_reasons r = [] \<and> (\<forall>p \<in> set req. \<not> providerDenied p den \<and> providerAllowed p al)"
  by (induction req arbitrary: r) (auto simp: provider_verdict_def)

lemma provider_Nil:
  "pr_reasons (evaluateProviderAllowlist req al den no) = [] \<longleftrightarrow> (al = [] \<or> req \<noteq> [] \<or> no)
     \<and> (\<forall>p \<in> set req. \<not> providerDenied p (case_option [] (\<lambda>d. d) den) \<and> providerAllowed p al)"
  by (auto simp: evaluateProviderAllowlist_def Let_def provider_fold_Nil)

lemma provider_lists_fold:
  "pr_denied (fold (provider_verdict al den) req r) = pr_denied r @ filter (\<lambda>p. providerDenied p den) req
   \<and> pr_notAllowed (fold (provider_verdict al den) req r) = pr_notAllowed r @ filter (\<lambda>p. \<not> providerDenied p den \<and> \<not> providerAllowed p al) req
   \<and> pr_missingProviders (fold (provider_verdict al den) req r) = pr_missingProviders r"
  by (induction req arbitrary: r) (auto simp: provider_verdict_def)

definition resource_admits :: "string list option \<Rightarrow> plan_change list \<Rightarrow> bool" where
  "resource_admits allowed changes \<longleftrightarrow>
     (case allowed of None \<Rightarrow> True | Some a \<Rightarrow> \<forall>c \<in> set changes. isMutating c \<longrightarrow> pc_type c \<in> set a)"

lemma set_fold_types: "set (fold (\<lambda>c s. if P c then js_set_add (f c) s else s) cs acc) = set acc \<union> f ` {c \<in> set cs. P c}"
  by (induction cs arbitrary: acc) auto

lemma fold_types_Nil: "fold (\<lambda>c s. if P c then js_set_add (f c) s else s) cs [] = [] \<longleftrightarrow> (\<forall>c \<in> set cs. \<not> P c)"
  unfolding set_empty [symmetric, of "fold _ _ _"] set_fold_types by auto

lemma resource_Nil: "snd (evaluateResourceAllowlist changes allowed) = [] \<longleftrightarrow> resource_admits allowed changes"
  by (cases allowed) (auto simp: evaluateResourceAllowlist_def resource_admits_def Let_def fold_types_Nil)

lemma action_iff: "fst (evaluateActionPolicy changes) \<longleftrightarrow> (\<exists>c \<in> set changes. needsApproval c)"
  by (auto simp: evaluateActionPolicy_def resourceTypesRequiringApproval_def fold_types_Nil Let_def)

definition facts_of :: "plan_change \<Rightarrow> (string, json) js_map" where
  "facts_of c = (case normalizePlanResourceScope (pc_scope c) of Some f \<Rightarrow> f | None \<Rightarrow> [])"

definition scope_admits :: "scope_policy \<Rightarrow> plan_change list \<Rightarrow> bool" where
  "scope_admits p changes \<longleftrightarrow> (\<forall>c \<in> set changes. isMutating c \<longrightarrow> (\<forall>r \<in> set (sp_rules p). glob (sr_resourceTypePattern r) (pc_type c) \<longrightarrow>
     (\<forall>(d, con) \<in> set (sr_dimensions r).
        case js_get (facts_of c) d of None \<Rightarrow> sp_mode p \<noteq> Some Strict | Some v \<Rightarrow> v \<in> set (sd_allowedValues con))))"

lemma scoped_value_Nil: "scoped_value c strict d vs obs = [] \<longleftrightarrow> (case obs of None \<Rightarrow> \<not> strict | Some v \<Rightarrow> v \<in> set vs)"
  by (auto simp: scoped_value_def split: option.splits)

lemma concat_map_Nil: "concat (map f xs) = [] \<longleftrightarrow> (\<forall>x \<in> set xs. f x = [])"
  by (induction xs) auto

lemma change_violations_Nil:
  "change_violations strict rules c = [] \<longleftrightarrow> (isMutating c \<longrightarrow> (\<forall>r \<in> set rules. glob (sr_resourceTypePattern r) (pc_type c) \<longrightarrow>
     (\<forall>(d, con) \<in> set (sr_dimensions r). case js_get (facts_of c) d of None \<Rightarrow> \<not> strict | Some v \<Rightarrow> v \<in> set (sd_allowedValues con))))"
proof -
  have dims: "(\<forall>x \<in> set ds. (case x of (d, con) \<Rightarrow> scoped_value c strict d (sd_allowedValues con) (js_get (facts_of c) d)) = []) \<longleftrightarrow>
      (\<forall>(d, con) \<in> set ds. case js_get (facts_of c) d of None \<Rightarrow> \<not> strict | Some v \<Rightarrow> v \<in> set (sd_allowedValues con))" for ds
    unfolding split_def scoped_value_Nil ..
  show ?thesis
    unfolding change_violations_def Let_def facts_of_def [symmetric] resourceTypeMatchesPattern_glob
    by (cases "isMutating c")
      (simp_all only: concat_map_Nil if_False if_True not_not simp_thms if_distrib [where f = "\<lambda>x. x = []"] if_bool_eq_conj dims)
qed

lemma scope_violations_Nil: "scope_violations p changes = [] \<longleftrightarrow> scope_admits p changes"
proof -
  have "set (fold js_set_add xs ys) = set xs \<union> set ys" for xs ys :: "string list" by (induction xs arbitrary: ys) auto
  then have "scope_violations p changes = [] \<longleftrightarrow> concat (map (change_violations (sp_mode p = Some Strict) (sp_rules p)) changes) = []"
    unfolding scope_violations_def by (metis Un_empty_right list.set(1) set_empty)
  then show ?thesis unfolding scope_admits_def concat_map_Nil change_violations_Nil by simp
qed

lemma scope_Nil:
  "(\<exists>out. evaluateScopeBoundary changes policy = Inr (out, [])) \<longleftrightarrow>
     (\<exists>n. normalizeScopeBoundaryPolicy policy = Inr n \<and> (\<forall>p. n = Some p \<longrightarrow> scope_admits p changes))"
proof (cases "normalizeScopeBoundaryPolicy policy")
  case (Inr n)
  then show ?thesis by (cases n) (auto simp: evaluateScopeBoundary_def Let_def scope_violations_Nil)
qed (simp add: evaluateScopeBoundary_def)

text \<open>The count a quota key is compared with: the mutating changes of that type, and for the two
  keys of the total all mutating changes.\<close>

definition quota_count :: "plan_change list \<Rightarrow> string \<Rightarrow> int" where
  "quota_count changes k = int (length (filter (\<lambda>c. isMutating c \<and> pc_type c = k) changes))
     + (if k \<in> {''resources'', ''resources.total''} then int (length (filter isMutating changes)) else 0)"

definition quota_admits :: "(string, int) js_map option \<Rightarrow> plan_change list \<Rightarrow> bool" where
  "quota_admits quota changes \<longleftrightarrow> (case quota of None \<Rightarrow> True | Some q \<Rightarrow> \<forall>(k, limit) \<in> set q. 0 \<le> limit \<and> quota_count changes k \<le> limit)"

lemma quota_counts_fold:
  "case_option 0 (\<lambda>n. n) (js_get (fold (\<lambda>c counts. js_set (pc_type c) ((case js_get counts (pc_type c) of Some n \<Rightarrow> n | None \<Rightarrow> 0) + 1) counts) cs m) k)
     = case_option 0 (\<lambda>n. n) (js_get m k) + int (length (filter (\<lambda>c. pc_type c = k) cs))"
  by (induction cs arbitrary: m) auto

lemma quota_counts_get:
  "case_option 0 (\<lambda>n. n) (js_get (quota_counts (filter isMutating changes)) k) = quota_count changes k"
proof -
  have "case_option 0 (\<lambda>n. n) (js_get [(''resources'', int (length (filter isMutating changes))), (''resources.total'', int (length (filter isMutating changes)))] k)
      = (if k \<in> {''resources'', ''resources.total''} then int (length (filter isMutating changes)) else 0)"
    by (auto simp: js_get_def)
  then show ?thesis unfolding quota_counts_def quota_counts_fold quota_count_def by (simp add: conj_commute)
qed

lemma quota_Nil: "snd (evaluateQuotaPolicy changes quota) = [] \<longleftrightarrow> quota_admits quota changes"
proof (cases quota)
  case (Some q)
  have "quota_entry (quota_counts (filter isMutating changes)) (k, limit) = [] \<longleftrightarrow> 0 \<le> limit \<and> quota_count changes k \<le> limit" for k limit
    using quota_counts_get [of changes k] by (auto simp: quota_entry_def Let_def split: option.splits)
  then show ?thesis using Some by (auto simp: evaluateQuotaPolicy_def quota_admits_def Let_def)
qed (simp add: evaluateQuotaPolicy_def quota_admits_def)

section \<open>Composed policies never widen\<close>

text \<open>A plan is admitted by a policy when its layers are evaluated and none of them blocks.\<close>

definition admitted :: "policy_config option \<Rightarrow> plan_view \<Rightarrow> plan_result \<Rightarrow> bool" where
  "admitted policy run result \<longleftrightarrow> (\<exists>l. evaluatePlanPolicy policy run result = Inr l \<and> blockedByLayeredPolicy l = [])"

definition provider_admits :: "policy_config option \<Rightarrow> string list \<Rightarrow> bool \<Rightarrow> bool" where
  "provider_admits policy observed no \<longleftrightarrow> (case opt_field p_allowedProviders policy of None \<Rightarrow> True
     | Some al \<Rightarrow> (al = [] \<or> installable observed \<noteq> [] \<or> no) \<and> (\<forall>p \<in> set (installable observed). providerAllowed p al))"

definition supply_admits :: "policy_config option \<Rightarrow> string list \<Rightarrow> plan_result \<Rightarrow> bool" where
  "supply_admits policy observed result \<longleftrightarrow>
     case_option [] snd (evaluateProviderLockfilePolicy (res_providerLockDigest result) policy observed) = []
     \<and> case_option [] ir_reasons (evaluateProviderInstallationPolicy (res_providerInstallation result) policy observed) = []"

definition changes_admits :: "policy_config option \<Rightarrow> plan_view \<Rightarrow> plan_change list option \<Rightarrow> bool" where
  "changes_admits policy run changes \<longleftrightarrow> (case changes of
     None \<Rightarrow> capsule_run run \<longrightarrow> opt_field p_allowedResourceTypes policy = None \<and> opt_field p_scopeBoundary policy = None \<and> opt_field p_quota policy = None
   | Some cs \<Rightarrow> resource_admits (opt_field p_allowedResourceTypes policy) cs \<and> quota_admits (opt_field p_quota policy) cs
       \<and> (\<exists>n. normalizeScopeBoundaryPolicy (opt_field p_scopeBoundary policy) = Inr n \<and> (\<forall>p. n = Some p \<longrightarrow> scope_admits p cs)))"

lemma provider_layer:
  "case_option [] pr_reasons (evaluateConfiguredProviderAllowlist observed policy no) = [] \<longleftrightarrow> provider_admits policy observed no"
  by (auto simp: evaluateConfiguredProviderAllowlist_def provider_admits_def provider_Nil providerDenied_def split: option.splits)

lemma admitted_iff:
  "admitted policy run result \<longleftrightarrow> \<not> list_ex (\<lambda>p. js_trim p = []) (observed_providers run result)
     \<and> provider_admits policy (observed_providers run result) (planAllowsNoProviders run)
     \<and> supply_admits policy (observed_providers run result) result \<and> changes_admits policy run (res_planResourceChanges result)"
proof (cases "list_ex (\<lambda>p. js_trim p = []) (observed_providers run result)")
  case True
  then show ?thesis by (simp add: admitted_def evaluatePlanPolicy_def normalizeProviders_def)
next
  case False
  then have n: "normalizeProviders (observed_providers run result) = Inr (observed_providers run result)"
    by (simp only: normalizeProviders_def if_False)
  show ?thesis
  proof (cases "res_planResourceChanges result")
    case None
    then show ?thesis using False
      by (auto simp: admitted_def evaluatePlanPolicy_def n Let_def blockedByLayeredPolicy_def provider_layer supply_admits_def changes_admits_def)
  next
    case (Some cs)
    have "admitted policy run result \<longleftrightarrow>
        (\<exists>out. evaluateScopeBoundary cs (opt_field p_scopeBoundary policy) = Inr (out, []))
        \<and> provider_admits policy (observed_providers run result) (planAllowsNoProviders run)
        \<and> supply_admits policy (observed_providers run result) result
        \<and> resource_admits (opt_field p_allowedResourceTypes policy) cs \<and> quota_admits (opt_field p_quota policy) cs"
      by (cases "evaluateScopeBoundary cs (opt_field p_scopeBoundary policy)")
        (auto simp: admitted_def evaluatePlanPolicy_def n Some Let_def blockedByLayeredPolicy_def provider_layer supply_admits_def
          resource_Nil quota_Nil)
    then show ?thesis using False unfolding scope_Nil by (auto simp: changes_admits_def Some)
  qed
qed

lemma intersect_subset:
  assumes "intersectOptionalLists c l = m"
  shows "m = None \<longleftrightarrow> c = None \<and> l = None" "m = Some xs \<Longrightarrow> c = Some a \<Longrightarrow> set xs \<subseteq> set a" "m = Some xs \<Longrightarrow> l = Some a \<Longrightarrow> set xs \<subseteq> set a"
  using assms by (auto simp: intersectOptionalLists_def split: option.splits)

lemma resource_narrow:
  "resource_admits (intersectOptionalLists c l) cs \<Longrightarrow> resource_admits c cs \<and> resource_admits l cs"
  by (auto simp: resource_admits_def intersectOptionalLists_def split: option.splits)

lemma provider_narrow: "providerAllowed p xs \<Longrightarrow> set xs \<subseteq> set ys \<Longrightarrow> providerAllowed p ys"
  by (auto simp: providerAllowed_def list_ex_iff)

lemma merge_quota_get:
  assumes "mergeQuota (Some c) (Some l) = Some q" "js_get c k = Some a \<or> js_get l k = Some a"
  shows "\<exists>v. (k, v) \<in> set q \<and> v \<le> a"
proof -
  let ?v = "\<lambda>key. case js_get c key of None \<Rightarrow> the (js_get l key) | Some a \<Rightarrow> (case js_get l key of None \<Rightarrow> a | Some b \<Rightarrow> min a b)"
  have fold: "js_get (fold (\<lambda>key. js_set key (?v key)) ks m) k = (if k \<in> set ks then Some (?v k) else js_get m k)" for ks m
    by (induction ks arbitrary: m) auto
  have "k \<in> set (js_keys c @ js_keys l)" using assms(2) js_get_in_set by (force simp: js_keys_def)
  then have "js_get q k = Some (?v k)" using assms(1) fold [of "js_dedup (js_keys c @ js_keys l)" "[]"] by (simp add: mergeQuota_def)
  then have "(k, ?v k) \<in> set q" by (rule js_get_in_set)
  moreover have "?v k \<le> a" using assms(2) by (auto split: option.splits)
  ultimately show ?thesis by blast
qed

text \<open>A policy as its type has it: quota keys are distinct, and the scope boundary is absent or an object.\<close>

definition policy_typed :: "policy_config \<Rightarrow> bool" where
  "policy_typed p \<longleftrightarrow> (\<forall>q. p_quota p = Some q \<longrightarrow> js_wf q) \<and> (p_scopeBoundary p = None \<or> record_of (p_scopeBoundary p) \<noteq> None)"

lemma quota_narrow:
  assumes "quota_admits (mergeQuota c l) cs" "\<And>q. c = Some q \<Longrightarrow> js_wf q" "\<And>q. l = Some q \<Longrightarrow> js_wf q"
  shows "quota_admits c cs \<and> quota_admits l cs"
proof (cases c; cases l)
  fix qc ql assume s: "c = Some qc" "l = Some ql"
  then obtain q where q: "mergeQuota (Some qc) (Some ql) = Some q" by (simp add: mergeQuota_def)
  have le: "0 \<le> a \<and> quota_count cs k \<le> a" if get: "js_get qc k = Some a \<or> js_get ql k = Some a" for k a
  proof -
    obtain v where "(k, v) \<in> set q" "v \<le> a" using merge_quota_get [OF q get] by blast
    then show ?thesis using assms(1) s q by (fastforce simp: quota_admits_def)
  qed
  then show ?thesis using s assms(2,3) js_get_iff by (fastforce simp: quota_admits_def)
qed (use assms(1) in \<open>auto simp: mergeQuota_def quota_admits_def\<close>)

lemma scope_admits_part:
  assumes "scope_admits q cs" "set (sp_rules p) \<subseteq> set (sp_rules q)" "sp_mode p = Some Strict \<Longrightarrow> sp_mode q = Some Strict"
  shows "scope_admits p cs"
  unfolding scope_admits_def
proof (intro ballI impI, clarify)
  fix c r d con assume a: "c \<in> set cs" "isMutating c" "r \<in> set (sp_rules p)" "glob (sr_resourceTypePattern r) (pc_type c)" "(d, con) \<in> set (sr_dimensions r)"
  then have "case js_get (facts_of c) d of None \<Rightarrow> sp_mode q \<noteq> Some Strict | Some v \<Rightarrow> v \<in> set (sd_allowedValues con)"
    using assms(1,2) unfolding scope_admits_def by blast
  then show "case js_get (facts_of c) d of None \<Rightarrow> sp_mode p \<noteq> Some Strict | Some v \<Rightarrow> v \<in> set (sd_allowedValues con)"
    using assms(3) by (auto split: option.splits)
qed

lemma normalize_json: "normalizeScopeBoundaryPolicy (Some (policy_json p)) = map_sum id Some (parseScopeBoundaryPolicy (Some (policy_json p)))"
  by (simp add: normalizeScopeBoundaryPolicy_def record_of_def policy_json_def)

lemma parse_json_id: "parseScopeBoundaryPolicy (Some (policy_json p)) = Inr q \<Longrightarrow> \<forall>r \<in> set (sp_rules p). rule_ok r \<Longrightarrow> q = p"
proof -
  assume a: "parseScopeBoundaryPolicy (Some (policy_json p)) = Inr q" "\<forall>r \<in> set (sp_rules p). rule_ok r"
  have "length (sp_rules p) \<le> 64"
  proof (rule ccontr)
    assume "\<not> length (sp_rules p) \<le> 64"
    then show False using a(1)
      by (cases "sp_mode p"; cases "the (sp_mode p)") (auto simp: parseScopeBoundaryPolicy_def policy_json_def record_of_def parse_mode_def)
  qed
  then show "q = p" using policy_reread [of p] a by (simp add: policy_ok_def)
qed

lemma normalize_ok: "normalizeScopeBoundaryPolicy v = Inr (Some p) \<Longrightarrow> policy_ok p"
  by (cases "parseScopeBoundaryPolicy v") (auto simp: normalizeScopeBoundaryPolicy_def parse_policy_ok split: if_splits)

lemma scope_narrow:
  assumes "mergeScopeBoundary c l = Inr m" "normalizeScopeBoundaryPolicy m = Inr n" "\<forall>p. n = Some p \<longrightarrow> scope_admits p cs"
  shows "(\<exists>n. normalizeScopeBoundaryPolicy c = Inr n \<and> (\<forall>p. n = Some p \<longrightarrow> scope_admits p cs))
    \<and> (\<exists>n. normalizeScopeBoundaryPolicy l = Inr n \<and> (\<forall>p. n = Some p \<longrightarrow> scope_admits p cs))"
proof -
  obtain cn ln where n: "normalizeScopeBoundaryPolicy c = Inr cn" "normalizeScopeBoundaryPolicy l = Inr ln"
    using assms(1) by (auto simp: mergeScopeBoundary_def)
  have ok: "\<forall>r \<in> set (sp_rules p). rule_ok r" if "cn = Some p \<or> ln = Some p" for p
    using that n normalize_ok by (auto simp: policy_ok_def)
  have whole: "scope_admits p cs" if "m = Some (policy_json p)" "\<forall>r \<in> set (sp_rules p). rule_ok r" for p
  proof (cases "parseScopeBoundaryPolicy (Some (policy_json p))")
    case (Inr q)
    then show ?thesis using parse_json_id [OF Inr that(2)] assms(2,3) that(1) by (simp add: normalize_json)
  qed (use assms(2) that(1) in \<open>simp add: normalize_json\<close>)
  have "scope_admits p cs" if p: "cn = Some p \<or> ln = Some p" for p
  proof (cases cn)
    case None
    then show ?thesis using p whole ok assms(1) n by (auto simp: mergeScopeBoundary_def)
  next
    case c: (Some cp)
    show ?thesis
    proof (cases ln)
      case None
      then show ?thesis using c p whole ok assms(1) n by (auto simp: mergeScopeBoundary_def)
    next
      case l: (Some lp)
      let ?q = "\<lparr>sp_mode = (if sp_mode cp = Some Strict \<or> sp_mode lp = Some Strict then Some Strict
                           else case sp_mode cp of Some m \<Rightarrow> Some m | None \<Rightarrow> sp_mode lp), sp_rules = sp_rules cp @ sp_rules lp\<rparr>"
      have "m = Some (policy_json ?q)" using assms(1) n c l by (simp add: mergeScopeBoundary_def)
      moreover have "\<forall>r \<in> set (sp_rules ?q). rule_ok r" using ok c l by auto
      ultimately have "scope_admits ?q cs" by (rule whole)
      then show ?thesis by (rule scope_admits_part) (use p c l in auto)
    qed
  qed
  then show ?thesis using n by auto
qed

lemma merge_scope_None: "mergeScopeBoundary c l = Inr None \<Longrightarrow> (c = None \<or> record_of c \<noteq> None) \<Longrightarrow> (l = None \<or> record_of l \<noteq> None) \<Longrightarrow> c = None \<and> l = None"
  by (cases "parseScopeBoundaryPolicy c"; cases "parseScopeBoundaryPolicy l")
    (auto simp: mergeScopeBoundary_def normalizeScopeBoundaryPolicy_def split: option.splits if_splits)

lemma supply_same:
  assumes "opt_field p_providerLockfile L = Some True \<Longrightarrow> opt_field p_providerLockfile P = Some True"
    "opt_field p_providerInstallation L = Some True \<Longrightarrow> opt_field p_providerInstallation P = Some True" "supply_admits P observed result"
  shows "supply_admits L observed result"
  using assms by (auto simp: supply_admits_def evaluateProviderLockfilePolicy_def evaluateProviderInstallationPolicy_def)

lemma opt_field_Some [simp]: "opt_field f (Some x) = f x"
  by (simp add: opt_field_def)

lemma requirement_kept:
  "c = Some True \<or> l = Some True \<Longrightarrow> mergeRequirement c l = Some True"
  by (auto simp: mergeRequirement_def split: option.splits)

lemma merge_fields:
  assumes "mergePolicyConfigs lc (Some w) (Some i) = Inr (Some m)"
  shows "p_allowedProviders m = intersectOptionalLists (p_allowedProviders w) (p_allowedProviders i)"
    "p_allowedResourceTypes m = intersectOptionalLists (p_allowedResourceTypes w) (p_allowedResourceTypes i)"
    "p_providerLockfile m = mergeRequirement (p_providerLockfile w) (p_providerLockfile i)"
    "p_providerInstallation m = mergeRequirement (p_providerInstallation w) (p_providerInstallation i)"
    "mergeScopeBoundary (p_scopeBoundary w) (p_scopeBoundary i) = Inr (p_scopeBoundary m)"
    "p_quota m = mergeQuota (p_quota w) (p_quota i)"
  using assms
  by (auto simp: mergePolicyConfigs_def mergeProviderLockfilePolicy_def mergeProviderInstallationPolicy_def)

lemma default_fields [simp]:
  "p_allowedProviders (withDefaultProviderSupplyChainPolicy (Some m) dd dm) = p_allowedProviders m"
  "p_allowedResourceTypes (withDefaultProviderSupplyChainPolicy (Some m) dd dm) = p_allowedResourceTypes m"
  "p_scopeBoundary (withDefaultProviderSupplyChainPolicy (Some m) dd dm) = p_scopeBoundary m"
  "p_quota (withDefaultProviderSupplyChainPolicy (Some m) dd dm) = p_quota m"
  "p_providerLockfile m = Some b \<Longrightarrow> p_providerLockfile (withDefaultProviderSupplyChainPolicy (Some m) dd dm) = Some b"
  "p_providerInstallation m = Some b \<Longrightarrow> p_providerInstallation (withDefaultProviderSupplyChainPolicy (Some m) dd dm) = Some b"
  by (simp_all add: withDefaultProviderSupplyChainPolicy_def Let_def)

lemma provider_admits_narrow:
  assumes "provider_admits (Some P) observed no" "p_allowedProviders P = intersectOptionalLists a b"
    "p_allowedProviders L = a \<or> p_allowedProviders L = b" "installable observed \<noteq> [] \<or> no"
  shows "provider_admits (Some L) observed no"
proof (cases "p_allowedProviders L")
  case (Some ys)
  then obtain xs where "intersectOptionalLists a b = Some xs" "set xs \<subseteq> set ys"
    using assms(3) intersect_subset(2,3) [OF refl, of a b] intersect_subset(1) [OF refl, of a b] by (cases "intersectOptionalLists a b") auto
  then show ?thesis using assms provider_narrow Some by (auto simp: provider_admits_def)
qed (simp add: provider_admits_def)

lemma changes_admits_narrow:
  assumes "mergePolicyConfigs lc (Some w) (Some i) = Inr (Some m)" "policy_typed w" "policy_typed i"
    "changes_admits (Some (withDefaultProviderSupplyChainPolicy (Some m) dd dm)) run changes" "L = w \<or> L = i"
  shows "changes_admits (Some L) run changes"
proof (cases changes)
  case None
  note f = merge_fields [OF assms(1)]
  have "p_allowedResourceTypes L = None \<and> p_scopeBoundary L = None \<and> p_quota L = None" if "capsule_run run"
  proof -
    have m: "p_allowedResourceTypes m = None" "p_scopeBoundary m = None" "p_quota m = None"
      using assms(4) that None by (auto simp: changes_admits_def)
    have "p_allowedResourceTypes L = None" using intersect_subset(1) [OF f(2) [symmetric]] m(1) assms(5) by auto
    moreover have "p_scopeBoundary L = None"
    proof -
      have "mergeScopeBoundary (p_scopeBoundary w) (p_scopeBoundary i) = Inr None" using f(5) m(2) by simp
      from merge_scope_None [OF this] show ?thesis using assms(2,3,5) unfolding policy_typed_def by metis
    qed
    moreover have "p_quota L = None" using f(6) m(3) assms(5) by (auto simp: mergeQuota_def split: option.splits)
    ultimately show ?thesis by simp
  qed
  then show ?thesis by (simp add: changes_admits_def None)
next
  case (Some cs)
  note f = merge_fields [OF assms(1)]
  obtain n where n: "normalizeScopeBoundaryPolicy (p_scopeBoundary m) = Inr n" "\<forall>p. n = Some p \<longrightarrow> scope_admits p cs"
    and r: "resource_admits (p_allowedResourceTypes m) cs" "quota_admits (p_quota m) cs"
    using assms(4) Some by (auto simp: changes_admits_def)
  have "resource_admits (p_allowedResourceTypes L) cs" using resource_narrow [OF r(1) [unfolded f(2)]] assms(5) by blast
  moreover have "quota_admits (p_quota L) cs"
    using quota_narrow [of "p_quota w" "p_quota i" cs] r(2) f(6) assms(2,3,5) by (auto simp: policy_typed_def)
  moreover have "\<exists>n. normalizeScopeBoundaryPolicy (p_scopeBoundary L) = Inr n \<and> (\<forall>p. n = Some p \<longrightarrow> scope_admits p cs)"
    using scope_narrow [OF f(5) n] assms(5) by blast
  ultimately show ?thesis by (simp add: changes_admits_def Some)
qed

lemma merge_narrow:
  assumes "mergePolicyConfigs lc (Some w) (Some i) = Inr (Some m)" "policy_typed w" "policy_typed i"
    "admitted (Some (withDefaultProviderSupplyChainPolicy (Some m) dd dm)) run result"
    "installable (observed_providers run result) \<noteq> [] \<or> planAllowsNoProviders run" "L = w \<or> L = i"
  shows "admitted (Some L) run result"
proof -
  let ?P = "withDefaultProviderSupplyChainPolicy (Some m) dd dm"
  note f = merge_fields [OF assms(1)] and adm = assms(4) [unfolded admitted_iff]
  have "provider_admits (Some L) (observed_providers run result) (planAllowsNoProviders run)"
    by (rule provider_admits_narrow [of ?P _ _ "p_allowedProviders w" "p_allowedProviders i"])
      (use adm f(1) assms(5,6) in auto)
  moreover have "supply_admits (Some L) (observed_providers run result) result"
    by (rule supply_same [of _ "Some ?P"])
      (use adm assms(6) requirement_kept [of "p_providerLockfile w" "p_providerLockfile i"]
         requirement_kept [of "p_providerInstallation w" "p_providerInstallation i"] f(3,4) in auto)
  moreover have "changes_admits (Some L) run (res_planResourceChanges result)"
    using changes_admits_narrow [OF assms(1-3) _ assms(6)] adm by blast
  ultimately show ?thesis using adm unfolding admitted_iff by blast
qed

end
