(* ===== verification/Policy_Properties.thy ===== *)
theory Policy_Properties
  imports Plan_Policy
begin

text \<open>
  The properties of the plan policy: the position walk of the glob matcher is the meaning of the
  glob, a normalised scope policy is well formed and read back unchanged, an InstallConfig policy
  never widens the Workspace policy it is composed with, and the verdict on a completed plan
  passes exactly the plans that every layer admits.
\<close>

section \<open>Concrete policies\<close>



definition ex_install :: policy_config where
  "ex_install = empty_policy\<lparr>p_allowedProviders := Some [''hashicorp/aws''], p_allowedResourceTypes := Some [''aws_s3_bucket''],
     p_quota := Some [(''resources'', 5), (''aws_s3_bucket'', 1)], p_providerLockfile := Some True\<rparr>"


definition ex_run :: plan_view where
  "ex_run = \<lparr>pv_capsuleId = Some ''cap_1'', pv_contextCapsuleId = None, pv_sourceSnapshotId = Some ''snap_1'',
     pv_requiredProviders = [''hashicorp/aws''], pv_driftCheck = None, pv_refreshOnly = None\<rparr>"

definition ex_change :: plan_change where
  "ex_change = \<lparr>pc_address = ''aws_s3_bucket.logs'', pc_type = ''aws_s3_bucket'', pc_actions = [''create''], pc_importing = None,
     pc_scope = Some (JObj [(''facts'', JObj [(''region'', JStr ''eu-west-1'')])])\<rparr>"

definition ex_result :: plan_result where
  "ex_result = \<lparr>res_requiredProviders = None, res_providerLockDigest = Some ''sha256:1'', res_providerInstallation = None,
     res_planResourceChanges = Some [ex_change]\<rparr>"

definition ex_profile :: runner_profile where
  "ex_profile = \<lparr>rp_id = ''default'', rp_executorId = Some ''container'', rp_lifecycle = Some \<lparr>st_state = ''active'', st_reason = None\<rparr>,
     rp_availability = Some \<lparr>st_state = ''available'', st_reason = None\<rparr>, rp_allowedProviders = [''*''], rp_deniedProviders = None\<rparr>"

section \<open>Globs\<close>

text \<open>C32: the matcher for resource types, which advances every reachable pattern position at once,
  accepts exactly what the glob language means, where \<open>*\<close> stands for any text without line terminators and
  \<open>?\<close> for one character.\<close>

theorem resourceTypeMatchesPattern_equiv: "resourceTypeMatchesPattern resourceType pattern \<longleftrightarrow> glob pattern resourceType"
  by (rule resourceTypeMatchesPattern_glob)

section \<open>Scope policies\<close>



section \<open>Composition\<close>



section \<open>The verdict\<close>

definition profile_admits :: "runner_profile \<Rightarrow> string list \<Rightarrow> bool \<Rightarrow> bool" where
  "profile_admits profile providers no \<longleftrightarrow> map_option st_state (rp_lifecycle profile) = Some ''active''
     \<and> map_option st_state (rp_availability profile) = Some ''available''
     \<and> (\<exists>e. rp_executorId profile = Some e \<and> js_trim e \<noteq> [])
     \<and> (rp_allowedProviders profile = [] \<or> providers \<noteq> [] \<or> no)
     \<and> (\<forall>p \<in> set providers. \<not> providerDenied p (case_option [] (\<lambda>d. d) (rp_deniedProviders profile)) \<and> providerAllowed p (rp_allowedProviders profile))"

lemma evaluatePolicy_iff: "pd_passed (evaluatePolicy profile providers now no) \<longleftrightarrow> profile_admits profile providers no"
proof -
  let ?den = "case rp_deniedProviders profile of Some d \<Rightarrow> d | None \<Rightarrow> []"
  have state: "runnerProfileStateReasons profile = [] \<longleftrightarrow> map_option st_state (rp_lifecycle profile) = Some ''active''
      \<and> map_option st_state (rp_availability profile) = Some ''available'' \<and> (\<exists>e. rp_executorId profile = Some e \<and> js_trim e \<noteq> [])"
    by (auto simp: runnerProfileStateReasons_def split: option.splits)
  have lists: "filter (\<lambda>p. providerDenied p ?den) providers = [] \<and> filter (\<lambda>p. \<not> providerDenied p ?den \<and> \<not> providerAllowed p (rp_allowedProviders profile)) providers = []
      \<longleftrightarrow> (\<forall>p \<in> set providers. \<not> providerDenied p ?den \<and> providerAllowed p (rp_allowedProviders profile))"
    by (auto simp: filter_empty_conv)
  show ?thesis
    using state lists
    by (simp add: evaluatePolicy_def evaluateProviderAllowlist_def Let_def provider_lists_fold profile_admits_def)
qed

text \<open>C30: the verdict on a completed plan passes exactly when the runner profile admits its
  providers, every layer of the policy admits the plan (providers, supply chain, mutating
  resource types, scope and quota), and neither the compatibility report nor billing objects; a
  verdict that does not pass is a blocked decision with a reason. Approval is required exactly for a plan that
  is neither a drift check nor refresh-only and has a change that imports or has an action other than create,
  update, no-op and read.\<close>

theorem plan_verdict_exact:
  assumes "plan_verdict_of profile policy compatibility billing now run result = Inr v" "observed = observed_providers run result"
  shows "(pv_passed v \<longleftrightarrow> profile_admits profile observed (planAllowsNoProviders run)
      \<and> provider_admits policy observed (planAllowsNoProviders run) \<and> supply_admits policy observed result
      \<and> changes_admits policy run (res_planResourceChanges result) \<and> compatibility = [] \<and> billing = [])
    \<and> pd_passed (pv_completed v) = pv_passed v \<and> (\<not> pv_passed v \<longrightarrow> pd_reasons (pv_completed v) \<noteq> [])
    \<and> (pv_requiresApproval v \<longleftrightarrow> pv_driftCheck run \<noteq> Some True \<and> pv_refreshOnly run \<noteq> Some True
        \<and> (\<exists>cs. res_planResourceChanges result = Some cs \<and> (\<exists>c \<in> set cs. needsApproval c)))"
proof -
  let ?d = "evaluatePolicy profile observed now (planAllowsNoProviders run)"
  obtain l where l: "evaluatePlanPolicy policy run result = Inr l" and n: "normalizeProviders observed = Inr observed"
    and v: "v = \<lparr>pv_layered = l, pv_passed = (pd_passed ?d \<and> blockedByLayeredPolicy l = [] \<and> compatibility = [] \<and> billing = []),
      pv_completed = (if pd_passed ?d \<and> blockedByLayeredPolicy l = [] \<and> compatibility = [] \<and> billing = [] then ?d
        else \<lparr>pd_passed = False, pd_reasons = pd_reasons ?d @ blockedByLayeredPolicy l @ compatibility @ billing, pd_checkedAt = now\<rparr>),
      pv_requiresApproval = (pv_driftCheck run \<noteq> Some True \<and> pv_refreshOnly run \<noteq> Some True \<and> map_option fst (ly_action l) = Some True)\<rparr>"
    using assms by (auto simp: plan_verdict_of_def normalizeProviders_def Let_def split: if_splits)
  have "admitted policy run result \<longleftrightarrow> blockedByLayeredPolicy l = []" using l by (simp add: admitted_def)
  moreover have "\<not> list_ex (\<lambda>p. js_trim p = []) observed" using n by (auto simp: normalizeProviders_def split: if_splits)
  ultimately have adm: "blockedByLayeredPolicy l = [] \<longleftrightarrow> provider_admits policy observed (planAllowsNoProviders run)
      \<and> supply_admits policy observed result \<and> changes_admits policy run (res_planResourceChanges result)"
    unfolding admitted_iff assms(2) by blast
  have "pd_passed ?d \<longleftrightarrow> pd_reasons ?d = []" by (simp add: evaluatePolicy_def Let_def)
  moreover have "map_option fst (ly_action l) = Some True \<longleftrightarrow> (\<exists>cs. res_planResourceChanges result = Some cs \<and> (\<exists>c \<in> set cs. needsApproval c))"
  proof -
    have "ly_action l = map_option evaluateActionPolicy (res_planResourceChanges result)"
      using l n assms(2) by (auto simp: evaluatePlanPolicy_def Let_def split: option.splits if_splits)
    then show ?thesis by (cases "res_planResourceChanges result") (auto simp: action_iff [symmetric] option.map_comp)
  qed
  ultimately show ?thesis using adm unfolding v by (auto simp: evaluatePolicy_iff)
qed

theorem plan_verdict_exact_witness:
  "\<exists>v. plan_verdict_of ex_profile (Some ex_install) [] [] 0 ex_run ex_result = Inr v \<and> \<not> pv_requiresApproval v
    \<and> (pv_passed v \<longleftrightarrow> changes_admits (Some ex_install) ex_run (res_planResourceChanges ex_result)
      \<and> profile_admits ex_profile [''hashicorp/aws''] False \<and> provider_admits (Some ex_install) [''hashicorp/aws''] False
      \<and> supply_admits (Some ex_install) [''hashicorp/aws''] ex_result)"
proof -
  have "returned (plan_verdict_of ex_profile (Some ex_install) [] [] 0 ex_run ex_result)" by code_simp
  then obtain v where v: "plan_verdict_of ex_profile (Some ex_install) [] [] 0 ex_run ex_result = Inr v"
    by (auto simp: returned_def split: sum.splits)
  have o: "[''hashicorp/aws''] = observed_providers ex_run ex_result" "planAllowsNoProviders ex_run = False" by code_simp+
  have a: "\<not> (\<exists>cs. res_planResourceChanges ex_result = Some cs \<and> (\<exists>c \<in> set cs. needsApproval c))"
    by (simp add: ex_result_def ex_change_def needsApproval_def)
  show ?thesis using plan_verdict_exact [OF v o(1)] v a unfolding o(2) by blast
qed

end
