(* ===== verification/App_Ownership.thy ===== *)
theory App_Ownership
  imports Run_Ledger
begin

text \<open>
  Per-app ownership: \<open>core/domains/app-ownership/store.ts\<close> (the rows, their validators, the shared
  base class and \<open>InMemoryAppOwnershipStore\<close>), \<open>list-visibility.ts\<close>, \<open>interface-app-decision.ts\<close>,
  \<open>contract/app-access.ts\<close>, and the part of \<open>InMemoryOpenTofuControlStore\<close> they stand on (capsules, the
  ownership tuple, the roster, connections, usage payers and \<open>createCapsuleInitialAuthority\<close>). The state
  extends the run ledger. The control store is the in-memory one, so the \<open>typeof\<close> tests of the source hold and
  its private fallback roster stays empty. An asynchronous write is split where it awaits: what
  it decides from its reads, and what it does when it resumes.
\<close>

section \<open>Rows and state\<close>

record capsule_member =
  cm_capsuleId :: string
  cm_accountId :: string
  cm_status :: string
  cm_addedBy :: "string option"
  cm_createdAt :: string
  cm_updatedAt :: string

record account_billing =
  ab_accountId :: string
  ab_billingAuthority :: string
  ab_billingRef :: string
  ab_organizationRef :: "string option"
  ab_createdAt :: string
  ab_updatedAt :: string

record connection_row =
  cn_id :: string
  cn_ownerAccountId :: "string option"
  cn_workspaceId :: "string option"
  cn_scope :: string
  cn_createdAt :: string
  cn_rest :: string

record usage_event =
  ue_id :: string
  ue_payerAccountId :: "string option"
  ue_workspaceId :: string
  ue_capsuleId :: "string option"
  ue_runId :: "string option"
  ue_createdAt :: string
  ue_rest :: string

record source_row =
  src_id :: string
  src_workspaceId :: string
  src_status :: string
  src_retiringAt :: "string option"
  src_ownerCapsuleId :: "string option"
  src_createdAt :: string
  src_rest :: string

text \<open>Of an install configuration, the public part (\<open>publicStoredInstallConfig\<close>).\<close>

record install_config =
  ic_id :: string
  ic_workspaceId :: "string option"
  ic_rest :: string

record binding_set =
  bs_id :: string
  bs_workspaceId :: string
  bs_capsuleId :: string
  bs_environment :: string
  bs_rest :: string

record app_store = run_store +
  capsuleMembers :: "(string, capsule_member) js_map"
  connections :: "(string, connection_row) js_map"
  usageEvents :: "(string, usage_event) js_map"
  sources :: "(string, source_row) js_map"
  installConfigs :: "(string, install_config) js_map"
  providerBindingSets :: "(string, binding_set) js_map"
  accountBilling :: "(string, account_billing) js_map"

text \<open>A string the code tests with \<open>!x\<close> is absent or empty.\<close>

definition falsy :: "string option \<Rightarrow> bool" where
  "falsy x \<longleftrightarrow> x = None \<or> x = Some []"

section \<open>Roles and actions\<close>

datatype app_role = AppOwner | AppMember

record app_access =
  acc_capsuleId :: string
  acc_role :: app_role
  acc_ownerAccountId :: string
  acc_ownershipEpoch :: int

datatype app_action = ActView | ActChangeSettings | ActUpdate | ActRollback | ActChooseConnection
  | ActChangeInterfaceLink | ActUninstall | ActTransferOwnership | ActManageMembers

fun appActionAllowed :: "app_role \<Rightarrow> app_action \<Rightarrow> bool" where
  "appActionAllowed AppOwner action = True"
| "appActionAllowed AppMember action =
     (action \<noteq> ActUninstall \<and> action \<noteq> ActTransferOwnership \<and> action \<noteq> ActManageMembers)"

section \<open>Validation\<close>

definition validOwnership :: "capsule_ownership \<Rightarrow> store_error + unit" where
  "validOwnership row =
     (if own_capsuleId row = [] \<or> own_ownerAccountId row = [] \<or> own_storageRoot row = []
         \<or> \<not> is_safe_integer (own_ownershipEpoch row) \<or> own_ownershipEpoch row < 0
         \<or> \<not> is_safe_integer (own_managementEpoch row) \<or> own_managementEpoch row < 0
         \<or> own_managementState row \<notin> {Active, Draining, Frozen}
      then Inl (TypeError ''Invalid Capsule ownership record'') else Inr ())"

definition validOwnershipEpochCas :: "capsule_ownership \<Rightarrow> int \<Rightarrow> bool" where
  "validOwnershipEpochCas record expected \<longleftrightarrow> is_safe_integer expected \<and> expected \<ge> 0
     \<and> (own_ownershipEpoch record = expected \<or> own_ownershipEpoch record = expected + 1)"

definition validMember :: "capsule_member \<Rightarrow> store_error + unit" where
  "validMember row =
     (if cm_capsuleId row = [] \<or> cm_accountId row = [] \<or> cm_createdAt row = [] \<or> cm_updatedAt row = []
         \<or> cm_status row \<noteq> ''active'' \<and> cm_status row \<noteq> ''invited''
      then Inl (TypeError ''Invalid Capsule member record'') else Inr ())"

definition validBilling :: "account_billing \<Rightarrow> store_error + unit" where
  "validBilling row =
     (if ab_accountId row = [] \<or> ab_billingAuthority row = [] \<or> ab_billingRef row = []
         \<or> ab_createdAt row = [] \<or> ab_updatedAt row = []
      then Inl (TypeError ''Invalid account billing binding'') else Inr ())"

section \<open>Reads of the control store\<close>

definition getCapsule :: "app_store \<Rightarrow> string \<Rightarrow> capsule option" where
  "getCapsule s k = js_get (capsules s) k"

definition getCapsuleOwnership :: "app_store \<Rightarrow> string \<Rightarrow> capsule_ownership option" where
  "getCapsuleOwnership s k = js_get (capsuleOwnership s) k"

definition created_order :: "(string \<Rightarrow> string \<Rightarrow> int) \<Rightarrow> ('a \<Rightarrow> string) \<Rightarrow> ('a \<Rightarrow> string) \<Rightarrow> 'a \<Rightarrow> 'a \<Rightarrow> int" where
  "created_order localeCompare createdAt key a b =
     (let c = localeCompare (createdAt a) (createdAt b) in
      if c \<noteq> 0 then c else localeCompare (key a) (key b))"

definition listCapsules :: "(string \<Rightarrow> string \<Rightarrow> int) \<Rightarrow> app_store \<Rightarrow> string option \<Rightarrow> capsule list" where
  "listCapsules localeCompare s ws =
     js_sort (created_order localeCompare cap_createdAt cap_id)
       (case ws of None \<Rightarrow> js_values (capsules s)
        | Some w \<Rightarrow> filter (\<lambda>c. cap_workspaceId c = w) (js_values (capsules s)))"

definition capsuleMemberKey :: "string \<Rightarrow> string \<Rightarrow> string" where
  "capsuleMemberKey capsuleId accountId = capsuleId @ [CHR 0x00] @ accountId"

definition listCapsuleMembers :: "app_store \<Rightarrow> string \<Rightarrow> capsule_member list" where
  "listCapsuleMembers s k = filter (\<lambda>m. cm_capsuleId m = k) (js_values (capsuleMembers s))"

definition putCapsuleMember :: "capsule_member \<Rightarrow> app_store \<Rightarrow> bool \<times> app_store" where
  "putCapsuleMember member s =
     (case js_get (capsuleOwnership s) (cm_capsuleId member) of
        None \<Rightarrow> (False, s)
      | Some ownership \<Rightarrow>
          if own_ownerAccountId ownership = cm_accountId member then (False, s)
          else (True, s\<lparr>capsuleMembers :=
                  js_set (capsuleMemberKey (cm_capsuleId member) (cm_accountId member)) member (capsuleMembers s)\<rparr>))"

definition deleteCapsuleMember :: "string \<Rightarrow> string \<Rightarrow> app_store \<Rightarrow> bool \<times> app_store" where
  "deleteCapsuleMember capsuleId accountId s =
     (js_has (capsuleMembers s) (capsuleMemberKey capsuleId accountId),
      s\<lparr>capsuleMembers := js_delete (capsuleMemberKey capsuleId accountId) (capsuleMembers s)\<rparr>)"

section \<open>The ownership store\<close>

definition getOwnership :: "app_store \<Rightarrow> string \<Rightarrow> capsule_ownership option" where
  "getOwnership s k = getCapsuleOwnership s k"

text \<open>\<open>putOwnership\<close> up to and after its await: the expected epoch to commit with, or nothing when the
  call returns false.\<close>

definition putOwnership_decide ::
    "capsule_ownership \<Rightarrow> int option \<Rightarrow> app_store \<Rightarrow> store_error + int option" where
  "putOwnership_decide record expectedArg s =
     (let expected = (case expectedArg of None \<Rightarrow> own_ownershipEpoch record | Some e \<Rightarrow> e) in
      chain (validOwnership record) (\<lambda>_.
        if \<not> validOwnershipEpochCas record expected then Inr None
        else let capsule = getCapsule s (own_capsuleId record); current = getOwnership s (own_capsuleId record) in
          if capsule = None
             \<or> (case current of None \<Rightarrow> 0 | Some c \<Rightarrow> own_ownershipEpoch c) \<noteq> expected
             \<or> (case current of None \<Rightarrow> False
                | Some c \<Rightarrow> own_ownerAccountId c \<noteq> own_ownerAccountId record
                            \<and> own_ownershipEpoch record \<noteq> expected + 1)
          then Inr None else Inr (Some expected)))"

definition commit_ownership :: "capsule_ownership \<Rightarrow> bool \<Rightarrow> int option \<Rightarrow> app_store \<Rightarrow> bool \<times> app_store" where
  "commit_ownership record onlyIfMissing expected s =
     (case setCapsuleOwnership record onlyIfMissing expected s of
        (False, s') \<Rightarrow> (False, s')
      | (True, s') \<Rightarrow> (True, snd (deleteCapsuleMember (own_capsuleId record) (own_ownerAccountId record) s')))"

definition putOwnership :: "capsule_ownership \<Rightarrow> int option \<Rightarrow> app_store \<Rightarrow> store_error + (bool \<times> app_store)" where
  "putOwnership record expectedArg s =
     chain (putOwnership_decide record expectedArg s) (\<lambda>d.
       case d of None \<Rightarrow> Inr (False, s) | Some e \<Rightarrow> Inr (commit_ownership record False (Some e) s))"

definition initializeOwnership_decide :: "capsule_ownership \<Rightarrow> app_store \<Rightarrow> store_error + bool" where
  "initializeOwnership_decide record s =
     chain (validOwnership record) (\<lambda>_.
       Inr (getOwnership s (own_capsuleId record) = None \<and> getCapsule s (own_capsuleId record) \<noteq> None))"

definition initializeOwnershipIfMissing :: "capsule_ownership \<Rightarrow> app_store \<Rightarrow> store_error + (bool \<times> app_store)" where
  "initializeOwnershipIfMissing record s =
     chain (initializeOwnership_decide record s) (\<lambda>go.
       if go then Inr (commit_ownership record True None s) else Inr (False, s))"

definition listMembers :: "app_store \<Rightarrow> string \<Rightarrow> capsule_member list" where
  "listMembers s k = listCapsuleMembers s k"

definition putMember_decide :: "capsule_member \<Rightarrow> app_store \<Rightarrow> store_error + bool" where
  "putMember_decide record s =
     chain (validMember record) (\<lambda>_.
       Inr (case getOwnership s (cm_capsuleId record) of None \<Rightarrow> False
            | Some owner \<Rightarrow> own_ownerAccountId owner \<noteq> cm_accountId record))"

definition putMember :: "capsule_member \<Rightarrow> app_store \<Rightarrow> store_error + (bool \<times> app_store)" where
  "putMember record s =
     chain (putMember_decide record s) (\<lambda>go. if go then Inr (putCapsuleMember record s) else Inr (False, s))"

definition deleteMember :: "string \<Rightarrow> string \<Rightarrow> app_store \<Rightarrow> bool \<times> app_store" where
  "deleteMember capsuleId accountId s = deleteCapsuleMember capsuleId accountId s"

definition getAccountBillingBinding :: "app_store \<Rightarrow> string \<Rightarrow> account_billing option" where
  "getAccountBillingBinding s k = js_get (accountBilling s) k"

definition putAccountBillingBinding :: "account_billing \<Rightarrow> app_store \<Rightarrow> store_error + (bool \<times> app_store)" where
  "putAccountBillingBinding record s =
     chain (validBilling record) (\<lambda>_.
       Inr (True, s\<lparr>accountBilling := js_set (ab_accountId record) record (accountBilling s)\<rparr>))"

definition ownedConnection :: "connection_row \<Rightarrow> app_store \<Rightarrow> connection_row" where
  "ownedConnection connection s =
     (if cn_scope connection \<noteq> ''workspace'' \<or> falsy (cn_workspaceId connection) then connection
      else let stored = (case js_get (connections s) (cn_id connection) of None \<Rightarrow> None | Some c \<Rightarrow> cn_ownerAccountId c);
               owner = (if stored \<noteq> None then stored
                        else if cn_ownerAccountId connection \<noteq> None then cn_ownerAccountId connection
                        else map_option ws_ownerUserId (js_get (workspaces s) (the (cn_workspaceId connection)))) in
           if falsy owner then connection else connection\<lparr>cn_ownerAccountId := owner\<rparr>)"

definition putConnection :: "connection_row \<Rightarrow> app_store \<Rightarrow> app_store" where
  "putConnection connection s =
     s\<lparr>connections := js_set (cn_id connection) (ownedConnection connection s) (connections s)\<rparr>"

definition setConnectionOwnerIfMissing :: "string \<Rightarrow> string \<Rightarrow> app_store \<Rightarrow> bool \<times> app_store" where
  "setConnectionOwnerIfMissing k owner s =
     (case js_get (connections s) k of
        None \<Rightarrow> (False, s)
      | Some current \<Rightarrow>
          if k = [] \<or> owner = [] \<or> \<not> falsy (cn_ownerAccountId current) \<or> cn_scope current = ''operator'' then (False, s)
          else (True, putConnection (current\<lparr>cn_ownerAccountId := Some owner\<rparr>) s))"

definition control_setUsagePayerIfMissing :: "string \<Rightarrow> string \<Rightarrow> app_store \<Rightarrow> bool \<times> app_store" where
  "control_setUsagePayerIfMissing eventId payerAccountId s =
     (case js_get (usageEvents s) eventId of
        None \<Rightarrow> (False, s)
      | Some current \<Rightarrow>
          if \<not> falsy (ue_payerAccountId current) then (False, s)
          else (True, s\<lparr>usageEvents :=
                  js_set eventId (current\<lparr>ue_payerAccountId := Some payerAccountId\<rparr>) (usageEvents s)\<rparr>))"

definition setUsagePayerIfMissing :: "string \<Rightarrow> string \<Rightarrow> app_store \<Rightarrow> bool \<times> app_store" where
  "setUsagePayerIfMissing k payer s =
     (if k = [] \<or> payer = [] then (False, s) else control_setUsagePayerIfMissing k payer s)"

section \<open>Creating a Capsule with its owner\<close>

definition capsuleWithoutOwnership :: "capsule \<Rightarrow> capsule" where
  "capsuleWithoutOwnership c =
     c\<lparr>cap_ownerAccountId := None, cap_ownershipEpoch := None, cap_managementState := None,
       cap_managementEpoch := None, cap_storageRoot := None\<rparr>"

definition normalizeStoredCapsuleCompatibilityLevel :: "string \<Rightarrow> store_error + string" where
  "normalizeStoredCapsuleCompatibilityLevel level =
     (if level = ''ready'' \<or> level = ''needs_patch'' \<or> level = ''unsupported'' then Inr level
      else Inl (TypeError (''invalid Capsule compatibility level: '' @ level)))"

definition normalizeCapsule :: "capsule \<Rightarrow> store_error + capsule" where
  "normalizeCapsule c =
     (case cap_compatibilityStatus c of None \<Rightarrow> Inr c
      | Some level \<Rightarrow> chain (normalizeStoredCapsuleCompatibilityLevel level) (\<lambda>_. Inr c))"

definition capsuleWithScopeRef :: "capsule \<Rightarrow> capsule" where
  "capsuleWithScopeRef c =
     (if cap_scopeRef c = None then c\<lparr>cap_scopeRef := Some (cap_workspaceId c)\<rparr> else c)"

definition setCapsule :: "capsule \<Rightarrow> app_store \<Rightarrow> app_store" where
  "setCapsule c s =
     (let previous = js_get (capsules s) (cap_id c);
          epoch = (case js_get (capsuleExecutionAuthorityEpochs s) (cap_id c) of None \<Rightarrow> 1 | Some e \<Rightarrow> e);
          epoch' = (if (case previous of None \<Rightarrow> False | Some p \<Rightarrow> cap_status p \<noteq> ''destroyed'')
                       \<and> cap_status c = ''destroyed'' then epoch + 1 else epoch) in
      s\<lparr>capsuleExecutionAuthorityEpochs := js_set (cap_id c) epoch' (capsuleExecutionAuthorityEpochs s),
        capsules := js_set (cap_id c) c (capsules s)\<rparr>)"

definition putCapsule :: "capsule \<Rightarrow> app_store \<Rightarrow> store_error + (capsule \<times> app_store)" where
  "putCapsule input s =
     chain (normalizeCapsule (capsuleWithoutOwnership input)) (\<lambda>c.
       if list_ex (\<lambda>e. cap_id e \<noteq> cap_id c \<and> cap_status e \<noteq> ''destroyed'' \<and> cap_status c \<noteq> ''destroyed''
                       \<and> cap_projectId e = cap_projectId c \<and> cap_name e = cap_name c
                       \<and> cap_environment e = cap_environment c) (js_values (capsules s))
       then Inl (PlainError (''capsule unique(project_id, name, environment) violated: '' @ cap_projectId c @ ''/''
                             @ cap_name c @ '' ('' @ cap_environment c @ '')''))
       else Inr (c, setCapsule c s))"

definition memoryProviderBindingSetForCapsule ::
    "(string, binding_set) js_map \<Rightarrow> string \<Rightarrow> string \<Rightarrow> binding_set option" where
  "memoryProviderBindingSetForCapsule m capsuleId environment =
     find (\<lambda>b. bs_capsuleId b = capsuleId \<and> bs_environment b = environment) (js_values m)"

record creation_input =
  ci_installConfig :: install_config
  ci_capsule :: capsule
  ci_initialOwnership :: "capsule_ownership option"
  ci_providerBindingSet :: binding_set
  ci_expectedAuthority :: "management option"

datatype creation_result = CapsuleCreated capsule | CapsuleReplayed capsule | CreationConflict | SourceOwnedByAnotherApp

text \<open>An active member whose roles include owner or admin.\<close>

definition manages_workspace :: "member \<Rightarrow> bool" where
  "manages_workspace m \<longleftrightarrow> mem_status m = ''active'' \<and> list_ex (\<lambda>r. r = ''owner'' \<or> r = ''admin'') (mem_roles m)"

definition join_roster :: "capsule \<Rightarrow> capsule_ownership \<Rightarrow> member \<Rightarrow> (string, capsule_member) js_map \<Rightarrow> (string, capsule_member) js_map" where
  "join_roster c ownership m roster =
     (if mem_workspaceId m \<noteq> cap_workspaceId c \<or> mem_accountId m = own_ownerAccountId ownership \<or> \<not> manages_workspace m
      then roster
      else js_set (capsuleMemberKey (cap_id c) (mem_accountId m))
             \<lparr>cm_capsuleId = cap_id c, cm_accountId = mem_accountId m, cm_status = ''active'',
              cm_addedBy = Some (own_ownerAccountId ownership), cm_createdAt = cap_createdAt c,
              cm_updatedAt = cap_createdAt c\<rparr> roster)"

definition initial_roster :: "app_store \<Rightarrow> capsule \<Rightarrow> capsule_ownership option \<Rightarrow> (string, capsule_member) js_map" where
  "initial_roster s c ownership =
     (case ownership of
        Some own \<Rightarrow>
          if map_option ws_ownerUserId (js_get (workspaces s) (cap_workspaceId c)) = Some (own_ownerAccountId own)
          then fold (join_roster c own) (js_values (workspaceMembers s)) (capsuleMembers s)
          else capsuleMembers s
      | None \<Rightarrow> capsuleMembers s)"

definition creation_admitted :: "app_store \<Rightarrow> creation_input \<Rightarrow> string \<Rightarrow> store_error + management" where
  "creation_admitted s input ws =
     assertWorkspaceManagementAdmission
       (if js_has (workspaces s) ws then js_get (workspaceManagement s) ws else None) ws (ci_expectedAuthority input)"

definition exact_creation :: "creation_input \<Rightarrow> capsule \<Rightarrow> bool" where
  "exact_creation input c \<longleftrightarrow>
     ic_id (ci_installConfig input) = cap_installConfigId c
     \<and> ic_workspaceId (ci_installConfig input) = Some (cap_workspaceId c)
     \<and> bs_workspaceId (ci_providerBindingSet input) = cap_workspaceId c
     \<and> bs_capsuleId (ci_providerBindingSet input) = cap_id c
     \<and> bs_environment (ci_providerBindingSet input) = cap_environment c"

definition replay_creation :: "app_store \<Rightarrow> creation_input \<Rightarrow> capsule \<Rightarrow> creation_result option" where
  "replay_creation s input c =
     (let existingConfig = js_get (installConfigs s) (ic_id (ci_installConfig input));
          existingCapsule = js_get (capsules s) (cap_id c);
          existingBinding = js_get (providerBindingSets s) (bs_id (ci_providerBindingSet input));
          slot = memoryProviderBindingSetForCapsule (providerBindingSets s) (cap_id c) (cap_environment c) in
      if existingConfig = None \<and> existingCapsule = None \<and> existingBinding = None \<and> slot = None then None
      else Some (case (existingConfig, existingCapsule, existingBinding, slot) of
        (Some ic, Some ec, Some eb, Some es) \<Rightarrow>
          if bs_id es = bs_id eb \<and> js_get (capsuleExecutionAuthorityEpochs s) (cap_id c) = Some 1
             \<and> ic = ci_installConfig input \<and> capsuleWithScopeRef ec = capsuleWithScopeRef c
             \<and> eb = ci_providerBindingSet input
          then CapsuleReplayed ec else CreationConflict
      | _ \<Rightarrow> CreationConflict))"

definition create_commit :: "creation_input \<Rightarrow> capsule \<Rightarrow> source_row \<Rightarrow> app_store \<Rightarrow> app_store" where
  "create_commit input c source s =
     s\<lparr>sources := (if src_ownerCapsuleId source = None
                   then js_set (src_id source) (source\<lparr>src_ownerCapsuleId := Some (cap_id c)\<rparr>) (sources s)
                   else sources s),
       installConfigs := js_set (ic_id (ci_installConfig input)) (ci_installConfig input) (installConfigs s),
       capsuleExecutionAuthorityEpochs := js_set (cap_id c) 1 (capsuleExecutionAuthorityEpochs s),
       capsules := js_set (cap_id c) c (capsules s),
       capsuleOwnership := (case ci_initialOwnership input of None \<Rightarrow> capsuleOwnership s
                            | Some own \<Rightarrow> js_set (cap_id c) own (capsuleOwnership s)),
       providerBindingSets := js_set (bs_id (ci_providerBindingSet input)) (ci_providerBindingSet input) (providerBindingSets s),
       capsuleMembers := initial_roster s c (ci_initialOwnership input)\<rparr>"

definition createCapsuleInitialAuthority ::
    "creation_input \<Rightarrow> app_store \<Rightarrow> store_error + (creation_result \<times> app_store)" where
  "createCapsuleInitialAuthority input s =
     chain (case ci_expectedAuthority input of None \<Rightarrow> Inr ()
            | Some a \<Rightarrow> assertWorkspaceManagementAuthorityInput a (cap_workspaceId (ci_capsule input))) (\<lambda>_.
     chain (normalizeCapsule (capsuleWithoutOwnership (ci_capsule input))) (\<lambda>c.
       if (case ci_initialOwnership input of None \<Rightarrow> False | Some own \<Rightarrow> own_capsuleId own \<noteq> cap_id c)
          \<or> \<not> exact_creation input c
       then Inr (CreationConflict, s)
       else case replay_creation s input c of
         Some result \<Rightarrow> Inr (result, s)
       | None \<Rightarrow>
         (case js_get (sources s) (cap_sourceId c) of
            None \<Rightarrow> chain (creation_admitted s input (cap_workspaceId c)) (\<lambda>_. Inr (CreationConflict, s))
          | Some source \<Rightarrow>
              if src_workspaceId source \<noteq> cap_workspaceId c \<or> src_status source \<noteq> ''active'' \<or> src_retiringAt source \<noteq> None
              then chain (creation_admitted s input (cap_workspaceId c)) (\<lambda>_. Inr (CreationConflict, s))
              else if (src_ownerCapsuleId source \<noteq> None \<and> src_ownerCapsuleId source \<noteq> Some (cap_id c))
                   \<or> list_ex (\<lambda>o'. cap_id o' \<noteq> cap_id c \<and> cap_workspaceId o' = cap_workspaceId c
                                   \<and> cap_sourceId o' = cap_sourceId c) (js_values (capsules s))
              then Inr (SourceOwnedByAnotherApp, s)
              else if list_ex (\<lambda>o'. cap_status o' \<noteq> ''destroyed'' \<and> cap_projectId o' = cap_projectId c
                                    \<and> cap_name o' = cap_name c \<and> cap_environment o' = cap_environment c)
                     (js_values (capsules s))
              then Inr (CreationConflict, s)
              else chain (creation_admitted s input (cap_workspaceId c)) (\<lambda>_.
                     Inr (CapsuleCreated c, create_commit input c source s)))))"

section \<open>Access decisions\<close>

text \<open>The rule of one app inside a Workspace list, and the same rule in the list queries of the control store.\<close>

record app_list_viewer =
  vw_accountId :: string
  vw_appIds :: "string list option"

definition appHiddenFromViewer :: "app_list_viewer \<Rightarrow> string \<Rightarrow> string option \<Rightarrow> bool \<Rightarrow> bool" where
  "appHiddenFromViewer viewer capsuleId ownerAccountId isActiveMember =
     (if falsy ownerAccountId then False
      else if (case vw_appIds viewer of None \<Rightarrow> False | Some ids \<Rightarrow> capsuleId \<notin> set ids) then True
      else ownerAccountId \<noteq> Some (vw_accountId viewer) \<and> \<not> isActiveMember)"

definition hidden_capsule :: "app_store \<Rightarrow> app_list_viewer \<Rightarrow> string option \<Rightarrow> bool" where
  "hidden_capsule s viewer k \<longleftrightarrow> \<not> falsy k \<and>
     appHiddenFromViewer viewer (the k) (map_option own_ownerAccountId (js_get (capsuleOwnership s) (the k)))
       (map_option cm_status (js_get (capsuleMembers s) (capsuleMemberKey (the k) (vw_accountId viewer))) = Some ''active'')"

definition live_apps :: "app_store \<Rightarrow> string \<Rightarrow> string option \<Rightarrow> capsule list" where
  "live_apps s ws sourceId =
     filter (\<lambda>c. cap_workspaceId c = ws \<and> cap_status c \<noteq> ''destroyed''
                 \<and> (sourceId = None \<or> sourceId = Some (cap_sourceId c))) (js_values (capsules s))"

definition hidden_source :: "app_store \<Rightarrow> app_list_viewer \<Rightarrow> source_row option \<Rightarrow> bool" where
  "hidden_source s viewer row =
     (case row of None \<Rightarrow> False
      | Some r \<Rightarrow>
          if \<not> falsy (src_ownerCapsuleId r) then hidden_capsule s viewer (src_ownerCapsuleId r)
          else list_ex (\<lambda>c. hidden_capsule s viewer (Some (cap_id c))) (live_apps s (src_workspaceId r) (Some (src_id r))))"

text \<open>Reads of the base class over the ownership tuple and the roster.\<close>

definition readOwnershipFence :: "app_store \<Rightarrow> string \<Rightarrow> bool \<times> capsule_ownership option" where
  "readOwnershipFence s k = (True, getOwnership s k)"

definition listOwnedCapsuleIds :: "app_store \<Rightarrow> string list \<Rightarrow> string list" where
  "listOwnedCapsuleIds s ids =
     foldl (\<lambda>owned k. if snd (readOwnershipFence s k) \<noteq> None then js_set_add k owned else owned) [] (js_dedup ids)"

definition active_on_roster :: "app_store \<Rightarrow> string \<Rightarrow> string \<Rightarrow> bool" where
  "active_on_roster s k accountId \<longleftrightarrow>
     list_ex (\<lambda>m. cm_accountId m = accountId \<and> cm_status m = ''active'') (listMembers s k)"

definition listHiddenCapsuleIds :: "app_store \<Rightarrow> app_list_viewer \<Rightarrow> string list \<Rightarrow> string list" where
  "listHiddenCapsuleIds s viewer ids =
     foldl (\<lambda>hidden k.
       case snd (readOwnershipFence s k) of
         None \<Rightarrow> hidden
       | Some ownership \<Rightarrow>
           (let member = (own_ownerAccountId ownership \<noteq> vw_accountId viewer \<and> active_on_roster s k (vw_accountId viewer)) in
            if appHiddenFromViewer viewer k (Some (own_ownerAccountId ownership)) member
            then js_set_add k hidden else hidden)) [] (js_dedup ids)"

definition resolveAppAccess :: "app_store \<Rightarrow> string \<Rightarrow> string \<Rightarrow> app_access option" where
  "resolveAppAccess s accountId capsuleId =
     (if accountId = [] \<or> capsuleId = [] then None
      else case getCapsule s capsuleId of
        None \<Rightarrow> None
      | Some capsule \<Rightarrow>
          if cap_status capsule = ''destroyed'' then None
          else case getOwnership s capsuleId of
            Some ownership \<Rightarrow>
              (let role = (if accountId = own_ownerAccountId ownership then Some AppOwner
                           else if active_on_roster s capsuleId accountId then Some AppMember else None) in
               map_option (\<lambda>r. \<lparr>acc_capsuleId = capsuleId, acc_role = r,
                                acc_ownerAccountId = own_ownerAccountId ownership,
                                acc_ownershipEpoch = own_ownershipEpoch ownership\<rparr>) role)
          | None \<Rightarrow>
              (case js_get (workspaces s) (cap_workspaceId capsule) of
                 None \<Rightarrow> None
               | Some workspace \<Rightarrow>
                   if ws_ownerUserId workspace = [] then None
                   else if ws_ownerUserId workspace = accountId
                   then Some \<lparr>acc_capsuleId = capsuleId, acc_role = AppOwner, acc_ownerAccountId = accountId,
                              acc_ownershipEpoch = 0\<rparr>
                   else (case js_get (workspaceMembers s) (workspaceMemberKey (cap_workspaceId capsule) accountId) of
                           None \<Rightarrow> None
                         | Some m \<Rightarrow>
                             if manages_workspace m
                             then Some \<lparr>acc_capsuleId = capsuleId, acc_role = AppMember,
                                        acc_ownerAccountId = ws_ownerUserId workspace, acc_ownershipEpoch = 0\<rparr>
                             else None)))"

text \<open>The regular expression of \<open>isMissingOwnershipSchemaError\<close>: a pattern maps a string to what is left
  after each way to match a prefix, without regard to case.\<close>

type_synonym pattern = "string \<Rightarrow> string list"

definition ascii_lower :: "char \<Rightarrow> char" where
  "ascii_lower c = (let n = of_char c :: nat in if 65 \<le> n \<and> n \<le> 90 then char_of (n + 32) else c)"

fun rx_lit :: "string \<Rightarrow> pattern" where
  "rx_lit [] s = [s]"
| "rx_lit (c # cs) [] = []"
| "rx_lit (c # cs) (d # ds) = (if ascii_lower d = c then rx_lit cs ds else [])"

definition rx_opt :: "pattern \<Rightarrow> pattern" where
  "rx_opt p s = p s @ [s]"

definition rx_alt :: "pattern list \<Rightarrow> pattern" where
  "rx_alt ps s = concat (map (\<lambda>p. p s) ps)"

fun rx_seq :: "pattern list \<Rightarrow> pattern" where
  "rx_seq [] s = [s]"
| "rx_seq (p # ps) s = concat (map (rx_seq ps) (p s))"

fun rx_star :: "(char \<Rightarrow> bool) \<Rightarrow> pattern" where
  "rx_star ok [] = [[]]"
| "rx_star ok (c # cs) = (if ok c then rx_star ok cs @ [c # cs] else [c # cs])"

definition rx_plus :: "(char \<Rightarrow> bool) \<Rightarrow> pattern" where
  "rx_plus ok s = (case s of [] \<Rightarrow> [] | c # cs \<Rightarrow> if ok c then rx_star ok cs else [])"

fun rx_test :: "pattern \<Rightarrow> string \<Rightarrow> bool" where
  "rx_test p [] = (p [] \<noteq> [])"
| "rx_test p (c # cs) = (p (c # cs) \<noteq> [] \<or> rx_test p cs)"

definition ownership_column :: pattern where
  "ownership_column = rx_seq
     [rx_opt (rx_seq [rx_plus (\<lambda>c. ascii_lower c \<in> set ''abcdefghijklmnopqrstuvwxyz_''), rx_lit ''.'']),
      rx_alt [rx_lit ''owner_account_id'', rx_lit ''ownership_epoch'', rx_lit ''management_state'',
              rx_lit ''management_epoch'', rx_lit ''storage_root'']]"

definition members_table :: pattern where
  "members_table = rx_seq [rx_opt (rx_lit ''takosumi_''), rx_lit ''capsule_members'']"

definition isMissingOwnershipSchemaError :: "string \<Rightarrow> bool" where
  "isMissingOwnershipSchemaError message = rx_test (rx_alt
     [rx_seq [rx_lit ''column '', rx_opt (rx_lit [CHR 0x22]), ownership_column, rx_opt (rx_lit [CHR 0x22]),
              rx_lit '' does not exist''],
      rx_seq [rx_lit ''no such column'', rx_opt (rx_lit '':''), rx_star (\<lambda>c. c = CHR '' ''), ownership_column],
      rx_seq [rx_lit ''relation '', rx_opt (rx_lit [CHR 0x22]), members_table, rx_opt (rx_lit [CHR 0x22]),
              rx_lit '' does not exist''],
      rx_seq [rx_lit ''no such table'', rx_opt (rx_lit '':''), rx_star (\<lambda>c. c = CHR '' ''), members_table]]) message"

text \<open>The decision on an app's Interface reads the ownership first and resolves the access later, possibly in
  another state; a failed read is the message of its error.\<close>

definition decideInterfaceAppAccess ::
    "string + capsule_ownership option \<Rightarrow> string + app_access option \<Rightarrow> string \<Rightarrow> app_action \<Rightarrow> bool option" where
  "decideInterfaceAppAccess owned resolved capsuleId action =
     (case owned of
        Inl e \<Rightarrow> if isMissingOwnershipSchemaError e then None else Some False
      | Inr None \<Rightarrow> None
      | Inr (Some own) \<Rightarrow>
          (case resolved of
             Inl _ \<Rightarrow> Some False
           | Inr None \<Rightarrow> Some False
           | Inr (Some app) \<Rightarrow>
               Some (acc_capsuleId app = capsuleId \<and> acc_ownerAccountId app = own_ownerAccountId own
                     \<and> acc_ownershipEpoch app = own_ownershipEpoch own \<and> appActionAllowed (acc_role app) action)))"

section \<open>Pages of accessible apps\<close>

definition appListLimit :: "int option \<Rightarrow> nat" where
  "appListLimit limit = nat (max 1 (min 100 (case limit of None \<Rightarrow> 50 | Some n \<Rightarrow> n)))"

fun accessible_loop ::
    "(string \<Rightarrow> app_access option) \<Rightarrow> string option \<Rightarrow> nat \<Rightarrow> capsule list \<Rightarrow> app_access list \<Rightarrow> app_access list \<times> string option" where
  "accessible_loop access cursor limit [] apps = (apps, None)"
| "accessible_loop access cursor limit (c # cs) apps =
     (if \<not> falsy cursor \<and> js_le (cap_id c) (the cursor) then accessible_loop access cursor limit cs apps
      else case access (cap_id c) of
        None \<Rightarrow> accessible_loop access cursor limit cs apps
      | Some a \<Rightarrow>
          if length apps = limit then (apps, Some (acc_capsuleId (last apps)))
          else accessible_loop access cursor limit cs (apps @ [a]))"

definition capsules_by_id :: "(string \<Rightarrow> string \<Rightarrow> int) \<Rightarrow> app_store \<Rightarrow> capsule list" where
  "capsules_by_id localeCompare s =
     js_sort (\<lambda>a b. code_unit_compare (cap_id a) (cap_id b)) (listCapsules localeCompare s None)"

definition listAccessibleApps ::
    "(string \<Rightarrow> string \<Rightarrow> int) \<Rightarrow> app_store \<Rightarrow> string \<Rightarrow> string option \<Rightarrow> int option \<Rightarrow> app_access list \<times> string option" where
  "listAccessibleApps localeCompare s accountId cursor limit =
     (let page = accessible_loop (resolveAppAccess s accountId) cursor (appListLimit limit)
                   (capsules_by_id localeCompare s) []
      in (fst page, if falsy (snd page) then None else snd page))"

section \<open>The invariant\<close>

text \<open>Rows are stored under their keys, an ownership row belongs to a stored Capsule, and a roster row to an
  owned Capsule whose owner it does not name. Capsule ids hold no NUL, so roster keys are unambiguous.\<close>

definition roster_row_ok :: "app_store \<Rightarrow> string \<Rightarrow> capsule_member \<Rightarrow> bool" where
  "roster_row_ok s k m \<longleftrightarrow> k = capsuleMemberKey (cm_capsuleId m) (cm_accountId m)
     \<and> (case js_get (capsuleOwnership s) (cm_capsuleId m) of None \<Rightarrow> False
        | Some own \<Rightarrow> own_ownerAccountId own \<noteq> cm_accountId m)"

definition app_ok :: "app_store \<Rightarrow> bool" where
  "app_ok s \<longleftrightarrow> js_wf (capsules s) \<and> js_wf (capsuleOwnership s) \<and> js_wf (capsuleMembers s)
     \<and> list_all (\<lambda>(k, c). cap_id c = k \<and> CHR 0x00 \<notin> set k) (capsules s)
     \<and> list_all (\<lambda>(k, own). own_capsuleId own = k \<and> js_has (capsules s) k) (capsuleOwnership s)
     \<and> list_all (\<lambda>(k, m). roster_row_ok s k m) (capsuleMembers s)"

lemma list_all_get: "js_wf m \<Longrightarrow> list_all (\<lambda>(k, v). P k v) m \<longleftrightarrow> (\<forall>k v. js_get m k = Some v \<longrightarrow> P k v)"
  by (auto simp: list_all_iff js_get_iff)

lemma app_ok_iff:
  "app_ok s \<longleftrightarrow> js_wf (capsules s) \<and> js_wf (capsuleOwnership s) \<and> js_wf (capsuleMembers s)
     \<and> (\<forall>k c. js_get (capsules s) k = Some c \<longrightarrow> cap_id c = k \<and> CHR 0x00 \<notin> set k)
     \<and> (\<forall>k own. js_get (capsuleOwnership s) k = Some own \<longrightarrow> own_capsuleId own = k \<and> js_has (capsules s) k)
     \<and> (\<forall>k m. js_get (capsuleMembers s) k = Some m \<longrightarrow> roster_row_ok s k m)"
  by (auto simp: app_ok_def list_all_get)

lemma app_ok_capsule:
  "app_ok s \<Longrightarrow> js_get (capsules s) k = Some c \<Longrightarrow> cap_id c = k \<and> CHR 0x00 \<notin> set k"
  by (simp add: app_ok_iff)

lemma app_ok_owned:
  assumes "app_ok s" "js_get (capsuleOwnership s) k = Some own"
  shows "own_capsuleId own = k" "js_has (capsules s) k" "CHR 0x00 \<notin> set k"
proof -
  from assms show "own_capsuleId own = k" and has: "js_has (capsules s) k" by (simp_all add: app_ok_iff)
  from has obtain c where "js_get (capsules s) k = Some c" by (auto simp: js_has_def)
  from app_ok_capsule [OF assms(1) this] show "CHR 0x00 \<notin> set k" ..
qed

lemma app_ok_roster:
  "app_ok s \<Longrightarrow> js_get (capsuleMembers s) k = Some m \<Longrightarrow> roster_row_ok s k m"
  by (simp add: app_ok_iff)

lemma capsuleMemberKey_inj:
  assumes "CHR 0x00 \<notin> set c" "CHR 0x00 \<notin> set c'"
  shows "capsuleMemberKey c a = capsuleMemberKey c' a' \<longleftrightarrow> c = c' \<and> a = a'"
proof
  assume "capsuleMemberKey c a = capsuleMemberKey c' a'"
  then have e: "c @ CHR 0x00 # a = c' @ CHR 0x00 # a'" by (simp add: capsuleMemberKey_def)
  have "takeWhile (\<lambda>x. x \<noteq> CHR 0x00) (p @ CHR 0x00 # q) = p" if "CHR 0x00 \<notin> set p" for p q :: string
    using that by (induction p) auto
  with e assms have "c = c'" by metis
  with e show "c = c' \<and> a = a'" by simp
qed simp

text \<open>The roster as a set of rows and as a lookup.\<close>

lemma roster_lookup:
  assumes "app_ok s" "CHR 0x00 \<notin> set k"
  shows "m \<in> set (listMembers s k) \<and> cm_accountId m = a \<longleftrightarrow> js_get (capsuleMembers s) (capsuleMemberKey k a) = Some m"
proof
  assume m: "m \<in> set (listMembers s k) \<and> cm_accountId m = a"
  then obtain key where key: "(key, m) \<in> set (capsuleMembers s)" and k: "cm_capsuleId m = k"
    by (auto simp: listMembers_def listCapsuleMembers_def js_values_def)
  from key have g: "js_get (capsuleMembers s) key = Some m" using assms(1) by (simp add: app_ok_iff js_get_iff)
  from app_ok_roster [OF assms(1) g] have "key = capsuleMemberKey k a" using m k by (simp add: roster_row_ok_def)
  with g show "js_get (capsuleMembers s) (capsuleMemberKey k a) = Some m" by simp
next
  assume g: "js_get (capsuleMembers s) (capsuleMemberKey k a) = Some m"
  from app_ok_roster [OF assms(1) g] obtain own where
    key: "capsuleMemberKey k a = capsuleMemberKey (cm_capsuleId m) (cm_accountId m)"
    and own: "js_get (capsuleOwnership s) (cm_capsuleId m) = Some own"
    by (auto simp: roster_row_ok_def split: option.splits)
  have "k = cm_capsuleId m \<and> a = cm_accountId m"
    using key capsuleMemberKey_inj [OF assms(2) app_ok_owned(3) [OF assms(1) own]] by simp
  with js_values_get [OF g] show "m \<in> set (listMembers s k) \<and> cm_accountId m = a"
    by (simp add: listMembers_def listCapsuleMembers_def)
qed

lemma active_on_roster_lookup:
  assumes "app_ok s" "CHR 0x00 \<notin> set k"
  shows "active_on_roster s k a
     \<longleftrightarrow> map_option cm_status (js_get (capsuleMembers s) (capsuleMemberKey k a)) = Some ''active''"
proof -
  have "active_on_roster s k a \<longleftrightarrow> (\<exists>m. (m \<in> set (listMembers s k) \<and> cm_accountId m = a) \<and> cm_status m = ''active'')"
    by (auto simp: active_on_roster_def list_ex_iff)
  then show ?thesis unfolding roster_lookup [OF assms] by auto
qed

lemma owner_not_on_roster:
  assumes "app_ok s" "js_get (capsuleOwnership s) k = Some own" "m \<in> set (listMembers s k)"
  shows "cm_accountId m \<noteq> own_ownerAccountId own"
proof -
  from roster_lookup [OF assms(1) app_ok_owned(3) [OF assms(1,2)]] assms(3)
  have "js_get (capsuleMembers s) (capsuleMemberKey k (cm_accountId m)) = Some m" by blast
  from app_ok_roster [OF assms(1) this] assms(2,3) show ?thesis
    by (simp add: roster_row_ok_def listMembers_def listCapsuleMembers_def)
qed

section \<open>Every operation keeps the invariant\<close>

lemma roster_row_ok_same:
  "roster_row_ok s k m \<Longrightarrow> js_get (capsuleOwnership s') (cm_capsuleId m) = js_get (capsuleOwnership s) (cm_capsuleId m)
     \<Longrightarrow> roster_row_ok s' k m"
  by (simp add: roster_row_ok_def)

lemma app_ok_same:
  "app_ok s \<Longrightarrow> capsules s' = capsules s \<Longrightarrow> capsuleOwnership s' = capsuleOwnership s
     \<Longrightarrow> capsuleMembers s' = capsuleMembers s \<Longrightarrow> app_ok s'"
  by (simp add: app_ok_def roster_row_ok_def)

lemma deleteCapsuleMember_ok: "app_ok s \<Longrightarrow> app_ok (snd (deleteCapsuleMember k a s))"
  by (auto simp: app_ok_iff deleteCapsuleMember_def roster_row_ok_def split: if_split_asm)

lemma putCapsuleMember_ok: "app_ok s \<Longrightarrow> app_ok (snd (putCapsuleMember m s))"
  by (auto simp: app_ok_iff putCapsuleMember_def roster_row_ok_def split: if_split_asm option.splits)

lemma commit_ownership_cases:
  obtains (lost) "commit_ownership r missing e s = (False, s)"
  | (won) "commit_ownership r missing e s =
             (True, s\<lparr>capsuleOwnership := js_set (own_capsuleId r) r (capsuleOwnership s),
                     capsuleMembers := js_delete (capsuleMemberKey (own_capsuleId r) (own_ownerAccountId r)) (capsuleMembers s)\<rparr>)"
          "js_has (capsules s) (own_capsuleId r)" "missing \<longrightarrow> js_get (capsuleOwnership s) (own_capsuleId r) = None"
          "\<forall>x. e = Some x \<longrightarrow> (case js_get (capsuleOwnership s) (own_capsuleId r) of None \<Rightarrow> 0 | Some c \<Rightarrow> own_ownershipEpoch c) = x"
proof (cases "fst (setCapsuleOwnership r missing e s)")
  case False
  then have "commit_ownership r missing e s = (False, s)"
    by (auto simp: commit_ownership_def setCapsuleOwnership_def Let_def split: if_split_asm)
  then show ?thesis by (rule lost)
next
  case True
  then show ?thesis
    by (intro won) (auto simp: commit_ownership_def setCapsuleOwnership_def deleteCapsuleMember_def Let_def
      split: if_split_asm option.splits)
qed

lemma commit_ownership_ok: "app_ok s \<Longrightarrow> app_ok (snd (commit_ownership r missing e s))"
proof (cases rule: commit_ownership_cases [of r missing e s])
  case won
  assume ok: "app_ok s"
  show "app_ok (snd (commit_ownership r missing e s))"
    unfolding app_ok_iff won(1) snd_conv
  proof (intro conjI allI impI)
    fix k m
    let ?key = "capsuleMemberKey (own_capsuleId r) (own_ownerAccountId r)"
    let ?s = "s\<lparr>capsuleOwnership := js_set (own_capsuleId r) r (capsuleOwnership s),
      capsuleMembers := js_delete ?key (capsuleMembers s)\<rparr>"
    assume "js_get (capsuleMembers ?s) k = Some m"
    then have k: "k \<noteq> ?key" and m: "js_get (capsuleMembers s) k = Some m" by (auto split: if_split_asm)
    from app_ok_roster [OF ok m] k show "roster_row_ok ?s k m" by (auto simp: roster_row_ok_def)
  qed (use ok won(2) in \<open>auto simp: app_ok_iff split: if_split_asm\<close>)
qed simp

lemma setCapsule_ok:
  assumes "app_ok s" "CHR 0x00 \<notin> set (cap_id c)" shows "app_ok (setCapsule c s)"
  using assms by (auto simp: app_ok_iff setCapsule_def Let_def roster_row_ok_def split: if_split_asm)

lemma normalizeCapsule_id: "normalizeCapsule c = Inr c' \<Longrightarrow> c' = c"
  by (auto simp: normalizeCapsule_def normalizeStoredCapsuleCompatibilityLevel_def split: option.splits if_split_asm)

lemma putCapsule_ok:
  assumes "putCapsule c s = Inr (c', s')" "app_ok s" "CHR 0x00 \<notin> set (cap_id c)" shows "app_ok s'"
proof -
  from assms(1) have "s' = setCapsule (capsuleWithoutOwnership c) s"
    by (auto simp: putCapsule_def dest: normalizeCapsule_id split: if_split_asm)
  then show ?thesis using assms(2,3) by (simp add: setCapsule_ok capsuleWithoutOwnership_def)
qed

text \<open>A new app: the people who join its roster do not include its owner.\<close>

lemma join_roster_get:
  assumes "js_get (fold (join_roster c own) ms roster) k = Some m"
  shows "js_get roster k = Some m
     \<or> k = capsuleMemberKey (cap_id c) (cm_accountId m) \<and> cm_capsuleId m = cap_id c \<and> cm_accountId m \<noteq> own_ownerAccountId own"
  using assms
proof (induction ms arbitrary: roster)
  case (Cons x ms)
  from Cons.IH [OF Cons.prems [simplified]] show ?case by (auto simp: join_roster_def split: if_split_asm)
qed simp

lemma join_roster_wf: "js_wf roster \<Longrightarrow> js_wf (fold (join_roster c own) ms roster)"
  by (induction ms arbitrary: roster) (auto simp: join_roster_def)

lemma create_commit_ok:
  assumes ok: "app_ok s" and new: "js_get (capsules s) (cap_id c) = None" and id: "CHR 0x00 \<notin> set (cap_id c)"
    and own: "\<forall>own. ci_initialOwnership input = Some own \<longrightarrow> own_capsuleId own = cap_id c"
  shows "app_ok (create_commit input c src s)"
proof -
  let ?s = "create_commit input c src s"
  have fresh: "js_get (capsuleOwnership s) (cap_id c) = None"
    using new app_ok_owned(2) [OF ok, of "cap_id c"] by (cases "js_get (capsuleOwnership s) (cap_id c)") (auto simp: js_has_def)
  have ownership: "js_get (capsuleOwnership ?s) k = (if k = cap_id c then ci_initialOwnership input else js_get (capsuleOwnership s) k)" for k
    using fresh by (auto simp: create_commit_def split: option.splits)
  have old: "roster_row_ok ?s k m" if "roster_row_ok s k m" for k m
  proof -
    from that fresh have "cm_capsuleId m \<noteq> cap_id c" by (auto simp: roster_row_ok_def split: option.splits)
    with that ownership show ?thesis by (simp add: roster_row_ok_def)
  qed
  have roster: "roster_row_ok ?s k m" if k: "js_get (initial_roster s c (ci_initialOwnership input)) k = Some m" for k m
  proof (cases "js_get (capsuleMembers s) k = Some m")
    case True
    with old app_ok_roster [OF ok] show ?thesis by blast
  next
    case False
    with k obtain o' where o': "ci_initialOwnership input = Some o'"
        "js_get (fold (join_roster c o') (js_values (workspaceMembers s)) (capsuleMembers s)) k = Some m"
      by (auto simp: initial_roster_def split: option.splits if_split_asm)
    from join_roster_get [OF o'(2)] False o'(1) ownership [of "cap_id c"] show ?thesis by (auto simp: roster_row_ok_def)
  qed
  have wf: "js_wf (initial_roster s c (ci_initialOwnership input))" "js_wf (capsuleOwnership ?s)"
    using ok by (auto simp: initial_roster_def app_ok_iff create_commit_def intro: join_roster_wf split: option.splits)
  show ?thesis
    unfolding app_ok_iff ownership
    using ok wf roster own id by (auto simp: app_ok_iff create_commit_def split: if_split_asm)
qed

lemma creation_cases:
  assumes "createCapsuleInitialAuthority input s = Inr (result, s')"
  obtains (same) "s' = s" "\<forall>c. result \<noteq> CapsuleCreated c"
  | (created) c src where "result = CapsuleCreated c" "s' = create_commit input c src s" "c = capsuleWithoutOwnership (ci_capsule input)"
      "js_get (capsules s) (cap_id c) = None" "\<forall>own. ci_initialOwnership input = Some own \<longrightarrow> own_capsuleId own = cap_id c"
proof -
  from assms obtain c where c: "normalizeCapsule (capsuleWithoutOwnership (ci_capsule input)) = Inr c"
    by (auto simp: createCapsuleInitialAuthority_def)
  have new: "replay_creation s input c = None \<Longrightarrow> js_get (capsules s) (cap_id c) = None"
    by (auto simp: replay_creation_def Let_def split: if_split_asm)
  have replay: "replay_creation s input c = Some r \<Longrightarrow> r \<noteq> CapsuleCreated c'" for r c'
    by (auto simp: replay_creation_def Let_def split: if_split_asm option.splits)
  show ?thesis
  proof (cases "replay_creation s input c")
    case (Some r)
    then have "s' = s \<and> (\<forall>c. result \<noteq> CapsuleCreated c)" using assms c replay [OF Some]
      by (auto simp: createCapsuleInitialAuthority_def split: if_split_asm)
    then show ?thesis using same by blast
  next
    case None
    show ?thesis
    proof (cases "\<exists>c'. result = CapsuleCreated c'")
      case True
      then obtain src where "result = CapsuleCreated c" "s' = create_commit input c src s"
          "\<forall>own. ci_initialOwnership input = Some own \<longrightarrow> own_capsuleId own = cap_id c"
        using assms c None by (auto simp: createCapsuleInitialAuthority_def split: if_split_asm option.splits)
      then show ?thesis using new [OF None] normalizeCapsule_id [OF c] by (intro created)
    next
      case False
      then have "s' = s" using assms c None
        by (auto simp: createCapsuleInitialAuthority_def split: if_split_asm option.splits)
      then show ?thesis using same False by blast
    qed
  qed
qed

section \<open>Interleaved calls\<close>

text \<open>A call in flight has made its reads and has not resumed; any other step may run in between.\<close>

datatype own_call = CallPut capsule_ownership int | CallInit capsule_ownership | CallMember capsule_member

fun own_resume :: "own_call \<Rightarrow> app_store \<Rightarrow> bool \<times> app_store" where
  "own_resume (CallPut record expected) s = commit_ownership record False (Some expected) s"
| "own_resume (CallInit record) s = commit_ownership record True None s"
| "own_resume (CallMember record) s = putCapsuleMember record s"

record own_world =
  ow_store :: app_store
  ow_calls :: "own_call list"

inductive own_step :: "own_world \<Rightarrow> own_world \<Rightarrow> bool" where
  begin_put: "putOwnership_decide r ex (ow_store w) = Inr (Some e) \<Longrightarrow>
     own_step w (w\<lparr>ow_calls := CallPut r e # ow_calls w\<rparr>)"
| begin_init: "initializeOwnership_decide r (ow_store w) = Inr True \<Longrightarrow>
     own_step w (w\<lparr>ow_calls := CallInit r # ow_calls w\<rparr>)"
| begin_member: "putMember_decide m (ow_store w) = Inr True \<Longrightarrow>
     own_step w (w\<lparr>ow_calls := CallMember m # ow_calls w\<rparr>)"
| resume: "ow_calls w = before @ call # after \<Longrightarrow> own_resume call (ow_store w) = (b, s') \<Longrightarrow>
     own_step w \<lparr>ow_store = s', ow_calls = before @ after\<rparr>"
| drop_member: "deleteMember k a (ow_store w) = (b, s') \<Longrightarrow> own_step w (w\<lparr>ow_store := s'\<rparr>)"
| create: "createCapsuleInitialAuthority input (ow_store w) = Inr (result, s') \<Longrightarrow>
     CHR 0x00 \<notin> set (cap_id (ci_capsule input)) \<Longrightarrow> own_step w (w\<lparr>ow_store := s'\<rparr>)"
| put_capsule: "putCapsule c (ow_store w) = Inr (c', s') \<Longrightarrow>
     CHR 0x00 \<notin> set (cap_id c) \<Longrightarrow> own_step w (w\<lparr>ow_store := s'\<rparr>)"
| elsewhere: "capsules s' = capsules (ow_store w) \<Longrightarrow> capsuleOwnership s' = capsuleOwnership (ow_store w) \<Longrightarrow>
     capsuleMembers s' = capsuleMembers (ow_store w) \<Longrightarrow> own_step w (w\<lparr>ow_store := s'\<rparr>)"

abbreviation own_reach :: "own_world \<Rightarrow> own_world \<Rightarrow> bool" where
  "own_reach \<equiv> own_step\<^sup>*\<^sup>*"

lemma own_resume_ok: "app_ok s \<Longrightarrow> app_ok (snd (own_resume call s))"
  by (cases call) (simp_all add: commit_ownership_ok putCapsuleMember_ok)

lemma createCapsuleInitialAuthority_ok:
  assumes "createCapsuleInitialAuthority input s = Inr (result, s')" "app_ok s" "CHR 0x00 \<notin> set (cap_id (ci_capsule input))"
  shows "app_ok s'"
  using assms(1)
proof (cases rule: creation_cases)
  case (created c src)
  then show ?thesis using create_commit_ok [OF assms(2) created(4) _ created(5)] assms(3) by (simp add: capsuleWithoutOwnership_def)
qed (use assms(2) in simp)

lemma own_step_ok:
  assumes "own_step w w'" "app_ok (ow_store w)" shows "app_ok (ow_store w')"
  using assms(1)
proof cases
  case (resume before call after b s')
  then show ?thesis using own_resume_ok [OF assms(2), of call] by simp
next
  case (drop_member k a b s')
  then show ?thesis using deleteCapsuleMember_ok [OF assms(2), of k a] by (simp add: deleteMember_def)
next
  case (create input result s')
  then show ?thesis using createCapsuleInitialAuthority_ok [OF _ assms(2)] by simp
next
  case (put_capsule c c' s')
  then show ?thesis using putCapsule_ok [OF _ assms(2)] by simp
next
  case (elsewhere s')
  then show ?thesis using app_ok_same [OF assms(2)] by simp
qed (use assms(2) in simp_all)

lemma own_reach_ok: "own_reach w w' \<Longrightarrow> app_ok (ow_store w) \<Longrightarrow> app_ok (ow_store w')"
  by (induction rule: rtranclp_induct) (auto intro: own_step_ok)

text \<open>What a step does to the ownership row of one Capsule that has one.\<close>

lemma decide_some:
  assumes "putOwnership_decide r ex s = Inr (Some e)"
  shows "own_ownershipEpoch r = e \<or> own_ownershipEpoch r = e + 1"
    "js_get (capsuleOwnership s) (own_capsuleId r) = Some own \<Longrightarrow> own_ownershipEpoch own = e
       \<and> (own_ownershipEpoch r = e \<longrightarrow> own_ownerAccountId r = own_ownerAccountId own)"
proof -
  from assms show "own_ownershipEpoch r = e \<or> own_ownershipEpoch r = e + 1"
    by (auto simp: putOwnership_decide_def Let_def validOwnershipEpochCas_def split: if_split_asm)
  assume "js_get (capsuleOwnership s) (own_capsuleId r) = Some own"
  with assms show "own_ownershipEpoch own = e \<and> (own_ownershipEpoch r = e \<longrightarrow> own_ownerAccountId r = own_ownerAccountId own)"
    by (auto simp: putOwnership_decide_def Let_def getOwnership_def getCapsuleOwnership_def split: if_split_asm)
qed

lemma own_resume_row:
  assumes row: "js_get (capsuleOwnership s) k = Some own" and r: "own_resume call s = (b, s')"
  shows "js_get (capsuleOwnership s') k = Some own
    \<or> (\<exists>r. call = CallPut r (own_ownershipEpoch own) \<and> own_capsuleId r = k \<and> js_get (capsuleOwnership s') k = Some r)"
proof (cases call)
  case (CallPut r e)
  show ?thesis
  proof (cases rule: commit_ownership_cases [of r False "Some e" s])
    case won
    with row r CallPut show ?thesis by (cases "own_capsuleId r = k") auto
  qed (use row r CallPut in simp)
next
  case (CallInit r)
  show ?thesis
  proof (cases rule: commit_ownership_cases [of r True None s])
    case won
    with row have "own_capsuleId r \<noteq> k" by auto
    with won(1) row r CallInit show ?thesis by auto
  qed (use row r CallInit in simp)
qed (use row r in \<open>auto simp: putCapsuleMember_def split: option.splits if_split_asm\<close>)

lemma creation_keeps_row:
  assumes "createCapsuleInitialAuthority input s = Inr (result, s')" "app_ok s" "js_get (capsuleOwnership s) k = Some own"
  shows "js_get (capsuleOwnership s') k = Some own"
  using assms(1)
proof (cases rule: creation_cases)
  case (created c src)
  with app_ok_owned(2) [OF assms(2,3)] have "k \<noteq> cap_id c" by (auto simp: js_has_def)
  with created(2) assms(3) show ?thesis by (simp add: create_commit_def split: option.splits)
qed (use assms(3) in simp)

lemma putCapsule_keeps_row: "putCapsule c s = Inr (c', s') \<Longrightarrow> capsuleOwnership s' = capsuleOwnership s"
  by (auto simp: putCapsule_def setCapsule_def Let_def split: if_split_asm)

text \<open>A step leaves the row, or resumes a \<open>putOwnership\<close> that expected the row's epoch.\<close>

lemma own_step_row:
  assumes "own_step w w'" "app_ok (ow_store w)" "js_get (capsuleOwnership (ow_store w)) k = Some own"
  shows "js_get (capsuleOwnership (ow_store w')) k = Some own
    \<or> (\<exists>r. CallPut r (own_ownershipEpoch own) \<in> set (ow_calls w) \<and> own_capsuleId r = k
           \<and> js_get (capsuleOwnership (ow_store w')) k = Some r \<and> set (ow_calls w') \<subseteq> set (ow_calls w))"
  using assms(1)
proof cases
  case (resume before call after b s')
  from own_resume_row [OF assms(3) resume(3)] resume(1,2) show ?thesis by auto
next
  case (drop_member k' a b s')
  then show ?thesis using assms(3) by (auto simp: deleteMember_def deleteCapsuleMember_def)
next
  case (create input result s')
  from creation_keeps_row [OF create(2) assms(2,3)] create(1) show ?thesis by simp
next
  case (put_capsule c c' s')
  from putCapsule_keeps_row [OF put_capsule(2)] put_capsule(1) assms(3) show ?thesis by simp
qed (use assms(3) in simp_all)

section \<open>The ownership epoch\<close>

text \<open>Calls in flight against a row: none expects a later epoch, and one that keeps the current epoch keeps the owner.\<close>

definition calls_fenced :: "own_call list \<Rightarrow> capsule_ownership \<Rightarrow> bool" where
  "calls_fenced calls own \<longleftrightarrow> (\<forall>r e. CallPut r e \<in> set calls \<longrightarrow> own_capsuleId r = own_capsuleId own \<longrightarrow>
     e \<le> own_ownershipEpoch own \<and> (own_ownershipEpoch r = e \<or> own_ownershipEpoch r = e + 1)
     \<and> (e = own_ownershipEpoch own \<and> own_ownershipEpoch r = e \<longrightarrow> own_ownerAccountId r = own_ownerAccountId own))"

lemma calls_fenced_subset: "calls_fenced calls own \<Longrightarrow> set calls' \<subseteq> set calls \<Longrightarrow> calls_fenced calls' own"
  unfolding calls_fenced_def by blast

lemma calls_fenced_next:
  assumes "calls_fenced calls own" "CallPut r (own_ownershipEpoch own) \<in> set calls" "own_capsuleId r = own_capsuleId own"
  shows "calls_fenced calls r" "own_ownershipEpoch own \<le> own_ownershipEpoch r"
    "own_ownershipEpoch r = own_ownershipEpoch own \<Longrightarrow> own_ownerAccountId r = own_ownerAccountId own"
proof -
  note fence = assms(1) [unfolded calls_fenced_def, rule_format]
  from fence [OF assms(2,3)] show e: "own_ownershipEpoch own \<le> own_ownershipEpoch r" by auto
  from fence [OF assms(2,3)] show same: "own_ownershipEpoch r = own_ownershipEpoch own \<Longrightarrow> own_ownerAccountId r = own_ownerAccountId own" by auto
  show "calls_fenced calls r"
    unfolding calls_fenced_def
  proof (intro allI impI)
    fix q x
    assume q: "CallPut q x \<in> set calls" "own_capsuleId q = own_capsuleId r"
    from fence [OF q(1)] q(2) assms(3) have
      x: "x \<le> own_ownershipEpoch own" "own_ownershipEpoch q = x \<or> own_ownershipEpoch q = x + 1"
        "x = own_ownershipEpoch own \<and> own_ownershipEpoch q = x \<longrightarrow> own_ownerAccountId q = own_ownerAccountId own"
      by auto
    show "x \<le> own_ownershipEpoch r \<and> (own_ownershipEpoch q = x \<or> own_ownershipEpoch q = x + 1)
      \<and> (x = own_ownershipEpoch r \<and> own_ownershipEpoch q = x \<longrightarrow> own_ownerAccountId q = own_ownerAccountId r)"
    proof (intro conjI impI)
      show "x \<le> own_ownershipEpoch r" using x(1) e by simp
      show "own_ownershipEpoch q = x \<or> own_ownershipEpoch q = x + 1" by (rule x(2))
      assume "x = own_ownershipEpoch r \<and> own_ownershipEpoch q = x"
      with x(1,3) e same show "own_ownerAccountId q = own_ownerAccountId r" by auto
    qed
  qed
qed

lemma own_step_calls:
  assumes "own_step w w'" "app_ok (ow_store w)" "js_get (capsuleOwnership (ow_store w)) k = Some own" "calls_fenced (ow_calls w) own"
  shows "calls_fenced (ow_calls w') own"
  using assms(1)
proof cases
  case (begin_put r ex e)
  note row = app_ok_owned(1) [OF assms(2,3)]
  show ?thesis
    unfolding calls_fenced_def
  proof (intro allI impI)
    fix q x
    assume q: "CallPut q x \<in> set (ow_calls w')" "own_capsuleId q = own_capsuleId own"
    show "x \<le> own_ownershipEpoch own \<and> (own_ownershipEpoch q = x \<or> own_ownershipEpoch q = x + 1)
      \<and> (x = own_ownershipEpoch own \<and> own_ownershipEpoch q = x \<longrightarrow> own_ownerAccountId q = own_ownerAccountId own)"
    proof (cases "q = r \<and> x = e")
      case True
      then show ?thesis using decide_some [OF begin_put(2)] q(2) row assms(3) by auto
    next
      case False
      with q(1) begin_put(1) have "CallPut q x \<in> set (ow_calls w)" by auto
      then show ?thesis using assms(4) q(2) unfolding calls_fenced_def by blast
    qed
  qed
next
  case (resume before call after b s')
  then show ?thesis by (intro calls_fenced_subset [OF assms(4)]) auto
qed (use assms(4) in \<open>simp_all add: calls_fenced_def\<close>)

text \<open>One step against a row, for any Capsule that has one.\<close>

lemma own_step_fence:
  assumes "own_step w w'" "app_ok (ow_store w)" "js_get (capsuleOwnership (ow_store w)) k = Some own" "calls_fenced (ow_calls w) own"
  shows "\<exists>own'. js_get (capsuleOwnership (ow_store w')) k = Some own' \<and> calls_fenced (ow_calls w') own'
    \<and> own_ownershipEpoch own \<le> own_ownershipEpoch own'
    \<and> (own_ownershipEpoch own' = own_ownershipEpoch own \<longrightarrow> own_ownerAccountId own' = own_ownerAccountId own)"
  using own_step_row [OF assms(1-3)]
proof
  assume "js_get (capsuleOwnership (ow_store w')) k = Some own"
  with own_step_calls [OF assms] show ?thesis by auto
next
  assume "\<exists>r. CallPut r (own_ownershipEpoch own) \<in> set (ow_calls w) \<and> own_capsuleId r = k
    \<and> js_get (capsuleOwnership (ow_store w')) k = Some r \<and> set (ow_calls w') \<subseteq> set (ow_calls w)"
  then obtain r where r: "CallPut r (own_ownershipEpoch own) \<in> set (ow_calls w)" "own_capsuleId r = k"
    "js_get (capsuleOwnership (ow_store w')) k = Some r" "set (ow_calls w') \<subseteq> set (ow_calls w)" by blast
  from r(2) app_ok_owned(1) [OF assms(2,3)] have "own_capsuleId r = own_capsuleId own" by simp
  from calls_fenced_next [OF assms(4) r(1) this] calls_fenced_subset [OF _ r(4)] r(3) show ?thesis by blast
qed

lemma own_reach_fence:
  assumes "own_reach w w'" "app_ok (ow_store w)" "js_get (capsuleOwnership (ow_store w)) k = Some own" "calls_fenced (ow_calls w) own"
  shows "\<exists>own'. js_get (capsuleOwnership (ow_store w')) k = Some own' \<and> calls_fenced (ow_calls w') own'
    \<and> own_ownershipEpoch own \<le> own_ownershipEpoch own'
    \<and> (own_ownershipEpoch own' = own_ownershipEpoch own \<longrightarrow> own_ownerAccountId own' = own_ownerAccountId own)"
  using assms(1)
proof (induction rule: rtranclp_induct)
  case base
  show ?case using assms(3,4) by auto
next
  case (step x y)
  then obtain own1 where own1: "js_get (capsuleOwnership (ow_store x)) k = Some own1" "calls_fenced (ow_calls x) own1"
    "own_ownershipEpoch own \<le> own_ownershipEpoch own1"
    "own_ownershipEpoch own1 = own_ownershipEpoch own \<longrightarrow> own_ownerAccountId own1 = own_ownerAccountId own" by blast
  from own_step_fence [OF step(2) own_reach_ok [OF step(1) assms(2)] own1(1,2)] obtain own2 where
    own2: "js_get (capsuleOwnership (ow_store y)) k = Some own2" "calls_fenced (ow_calls y) own2"
    "own_ownershipEpoch own1 \<le> own_ownershipEpoch own2"
    "own_ownershipEpoch own2 = own_ownershipEpoch own1 \<longrightarrow> own_ownerAccountId own2 = own_ownerAccountId own1" by blast
  have "own_ownershipEpoch own2 = own_ownershipEpoch own \<longrightarrow> own_ownerAccountId own2 = own_ownerAccountId own"
    using own1(3,4) own2(3,4) by auto
  with own1(3) own2 show ?case by auto
qed

end
