(* ===== verification/Cursor_Codec.thy ===== *)
theory Cursor_Codec
  imports Json
begin

text \<open>
  The opaque cursor tokens of \<open>contract/pagination.ts\<close>: \<open>encodeCursor\<close>, \<open>decodeCursor\<close> and what they use of
  the platform. A string that may hold any character is the list of its UTF-16 code units. Modelled of the platform are
  \<open>JSON.stringify\<close> of strings, \<open>JSON.parse\<close>, \<open>TextEncoder\<close> and \<open>TextDecoder\<close> (UTF-8, with the replacement
  character for invalid bytes), \<open>btoa\<close> and the forgiving \<open>atob\<close>. Shown: every cursor survives its token.
\<close>

section \<open>Code units\<close>

type_synonym units = "nat list"

definition units_of :: "string \<Rightarrow> units" where
  "units_of s = map of_char s"

definition high_surrogate :: "nat \<Rightarrow> bool" where
  "high_surrogate u \<longleftrightarrow> 0xD800 \<le> u \<and> u < 0xDC00"

definition low_surrogate :: "nat \<Rightarrow> bool" where
  "low_surrogate u \<longleftrightarrow> 0xDC00 \<le> u \<and> u < 0xE000"

definition hex_digit :: "nat \<Rightarrow> nat" where
  "hex_digit d = (if d < 10 then 48 + d else 87 + d)"

definition hex_value :: "nat \<Rightarrow> nat option" where
  "hex_value u = (if 48 \<le> u \<and> u \<le> 57 then Some (u - 48) else if 97 \<le> u \<and> u \<le> 102 then Some (u - 87)
                  else if 65 \<le> u \<and> u \<le> 70 then Some (u - 55) else None)"

section \<open>JSON text\<close>

text \<open>\<open>JSON.stringify\<close> of a string, without its quotes: a lone surrogate is escaped.\<close>

definition unicode_escape :: "nat \<Rightarrow> units" where
  "unicode_escape u = [0x5C, 0x75, hex_digit (u div 4096), hex_digit (u div 256 mod 16), hex_digit (u div 16 mod 16), hex_digit (u mod 16)]"

definition quote_unit :: "nat \<Rightarrow> units" where
  "quote_unit u =
     (if u = 0x22 \<or> u = 0x5C then [0x5C, u]
      else if u = 8 then [0x5C, 0x62] else if u = 9 then [0x5C, 0x74] else if u = 10 then [0x5C, 0x6E]
      else if u = 12 then [0x5C, 0x66] else if u = 13 then [0x5C, 0x72]
      else if u < 32 then unicode_escape u else [u])"

fun json_quote :: "units \<Rightarrow> units" where
  "json_quote [] = []"
| "json_quote [u] = (if high_surrogate u \<or> low_surrogate u then unicode_escape u else quote_unit u)"
| "json_quote (u # v # us) =
     (if high_surrogate u \<and> low_surrogate v then u # v # json_quote us
      else if high_surrogate u \<or> low_surrogate u then unicode_escape u @ json_quote (v # us)
      else quote_unit u @ json_quote (v # us))"

text \<open>\<open>JSON.parse\<close>: white space, strings after their opening quote, numbers, and values by recursion, with the
  length of the text as a bound on the nesting. Of a value only what is read of it is kept.\<close>

fun skip_ws :: "units \<Rightarrow> units" where
  "skip_ws [] = []"
| "skip_ws (u # us) = (if u = 32 \<or> u = 9 \<or> u = 10 \<or> u = 13 then skip_ws us else u # us)"

fun parse_string :: "units \<Rightarrow> (units \<times> units) option" where
  "parse_string [] = None"
| "parse_string (u # us) =
     (if u = 0x22 then Some ([], us)
      else if u = 0x5C then
        (case us of
           [] \<Rightarrow> None
         | e # rest \<Rightarrow>
             if e = 0x75 then
               (case rest of
                  a # b # c # d # rest' \<Rightarrow>
                    (case (hex_value a, hex_value b, hex_value c, hex_value d) of
                       (Some w, Some x, Some y, Some z) \<Rightarrow>
                         map_option (apfst (\<lambda>s. (((w * 16 + x) * 16 + y) * 16 + z) # s)) (parse_string rest')
                     | _ \<Rightarrow> None)
                | _ \<Rightarrow> None)
             else (case map_of [(0x22, 0x22), (0x5C, 0x5C), (0x2F, 0x2F), (0x62, 8), (0x66, 12), (0x6E, 10), (0x72, 13), (0x74, 9)] e of
                     None \<Rightarrow> None
                   | Some v \<Rightarrow> map_option (apfst (\<lambda>s. v # s)) (parse_string rest)))
      else if u < 32 then None
      else map_option (apfst (\<lambda>s. u # s)) (parse_string us))"

definition digit :: "nat \<Rightarrow> bool" where
  "digit u \<longleftrightarrow> 48 \<le> u \<and> u \<le> 57"

definition parse_digits :: "units \<Rightarrow> units option" where
  "parse_digits us = (case us of [] \<Rightarrow> None | u # _ \<Rightarrow> if digit u then Some (dropWhile digit us) else None)"

definition parse_integer_part :: "units \<Rightarrow> units option" where
  "parse_integer_part us = (case us of [] \<Rightarrow> None | u # rest \<Rightarrow> if u = 48 then Some rest else parse_digits us)"

definition parse_fraction :: "units \<Rightarrow> units option" where
  "parse_fraction us = (case us of [] \<Rightarrow> Some [] | u # rest \<Rightarrow> if u = 0x2E then parse_digits rest else Some us)"

definition parse_exponent :: "units \<Rightarrow> units option" where
  "parse_exponent us =
     (case us of [] \<Rightarrow> Some []
      | u # rest \<Rightarrow>
          if u = 0x65 \<or> u = 0x45
          then parse_digits (case rest of [] \<Rightarrow> [] | g # rest' \<Rightarrow> if g = 0x2B \<or> g = 0x2D then rest' else rest)
          else Some us)"

definition parse_number :: "units \<Rightarrow> units option" where
  "parse_number us =
     (let body = (case us of [] \<Rightarrow> [] | u # rest \<Rightarrow> if u = 0x2D then rest else us) in
      Option.bind (parse_integer_part body) (\<lambda>r. Option.bind (parse_fraction r) parse_exponent))"

definition parse_word :: "units \<Rightarrow> units \<Rightarrow> units option" where
  "parse_word w us = (if take (length w) us = w then Some (drop (length w) us) else None)"

text \<open>A string, an object by its entries, or another value (of which none has a string under \<open>c\<close>).\<close>

datatype parsed = PString units | PObject "(units \<times> parsed) list" | POther

fun parse_value :: "nat \<Rightarrow> units \<Rightarrow> (parsed \<times> units) option"
  and parse_members :: "nat \<Rightarrow> units \<Rightarrow> ((units \<times> parsed) list \<times> units) option"
  and parse_elements :: "nat \<Rightarrow> units \<Rightarrow> units option" where
  "parse_value 0 us = None"
| "parse_value (Suc n) us =
     (case skip_ws us of
        [] \<Rightarrow> None
      | u # rest \<Rightarrow>
          if u = 0x22 then map_option (apfst PString) (parse_string rest)
          else if u = 0x7B then
            (case skip_ws rest of
               [] \<Rightarrow> None
             | v # rest' \<Rightarrow> if v = 0x7D then Some (PObject [], rest')
                            else map_option (apfst PObject) (parse_members n (v # rest')))
          else if u = 0x5B then
            (case skip_ws rest of
               [] \<Rightarrow> None
             | v # rest' \<Rightarrow> if v = 0x5D then Some (POther, rest')
                            else map_option (Pair POther) (parse_elements n (v # rest')))
          else if u = 0x74 then map_option (Pair POther) (parse_word (units_of ''true'') (u # rest))
          else if u = 0x66 then map_option (Pair POther) (parse_word (units_of ''false'') (u # rest))
          else if u = 0x6E then map_option (Pair POther) (parse_word (units_of ''null'') (u # rest))
          else map_option (Pair POther) (parse_number (u # rest)))"
| "parse_members 0 us = None"
| "parse_members (Suc n) us =
     (case skip_ws us of
        [] \<Rightarrow> None
      | q # rest \<Rightarrow>
          if q \<noteq> 0x22 then None
          else Option.bind (parse_string rest) (\<lambda>(key, r1).
            case skip_ws r1 of
              [] \<Rightarrow> None
            | colon # r2 \<Rightarrow>
                if colon \<noteq> 0x3A then None
                else Option.bind (parse_value n r2) (\<lambda>(v, r3).
                  case skip_ws r3 of
                    [] \<Rightarrow> None
                  | sep # r4 \<Rightarrow>
                      if sep = 0x7D then Some ([(key, v)], r4)
                      else if sep = 0x2C then map_option (apfst (\<lambda>es. (key, v) # es)) (parse_members n r4)
                      else None)))"
| "parse_elements 0 us = None"
| "parse_elements (Suc n) us =
     Option.bind (parse_value n us) (\<lambda>(v, r1).
       case skip_ws r1 of
         [] \<Rightarrow> None
       | sep # r2 \<Rightarrow> if sep = 0x5D then Some r2 else if sep = 0x2C then parse_elements n r2 else None)"

definition json_parse :: "units \<Rightarrow> parsed option" where
  "json_parse us =
     (case parse_value (2 * length us + 2) us of None \<Rightarrow> None | Some (v, rest) \<Rightarrow> if skip_ws rest = [] then Some v else None)"

section \<open>UTF-8\<close>

fun text_encode :: "units \<Rightarrow> nat list" where
  "text_encode [] = []"
| "text_encode (u # us) =
     (if u < 0x80 then u # text_encode us
      else if u < 0x800 then (0xC0 + u div 64) # (0x80 + u mod 64) # text_encode us
      else case us of
        v # vs \<Rightarrow>
          if high_surrogate u \<and> low_surrogate v then
            (let p = 0x10000 + (u - 0xD800) * 1024 + (v - 0xDC00) in
             (0xF0 + p div 262144) # (0x80 + p div 4096 mod 64) # (0x80 + p div 64 mod 64) # (0x80 + p mod 64) # text_encode vs)
          else if high_surrogate u \<or> low_surrogate u then 0xEF # 0xBF # 0xBD # text_encode us
          else (0xE0 + u div 4096) # (0x80 + u div 64 mod 64) # (0x80 + u mod 64) # text_encode us
      | [] \<Rightarrow>
          if high_surrogate u \<or> low_surrogate u then [0xEF, 0xBF, 0xBD]
          else [0xE0 + u div 4096, 0x80 + u div 64 mod 64, 0x80 + u mod 64])"

definition in_range :: "nat \<Rightarrow> nat \<Rightarrow> nat \<Rightarrow> bool" where
  "in_range lo hi b \<longleftrightarrow> lo \<le> b \<and> b \<le> hi"

text \<open>The bytes of one code point as the decoder reads them: a bad byte ends the sequence with the replacement
  character and is read again.\<close>

fun utf8_decode :: "nat list \<Rightarrow> units" where
  "utf8_decode [] = []"
| "utf8_decode (a # bs) =
     (if a < 0x80 then a # utf8_decode bs
      else if in_range 0xC2 0xDF a then
        (case bs of
           b # cs \<Rightarrow> if in_range 0x80 0xBF b then ((a - 0xC0) * 64 + (b - 0x80)) # utf8_decode cs else 0xFFFD # utf8_decode bs
         | [] \<Rightarrow> [0xFFFD])
      else if in_range 0xE0 0xEF a then
        (case bs of
           b # cs \<Rightarrow>
             if in_range (if a = 0xE0 then 0xA0 else 0x80) (if a = 0xED then 0x9F else 0xBF) b then
               (case cs of
                  c # ds \<Rightarrow>
                    if in_range 0x80 0xBF c
                    then ((a - 0xE0) * 4096 + (b - 0x80) * 64 + (c - 0x80)) # utf8_decode ds
                    else 0xFFFD # utf8_decode cs
                | [] \<Rightarrow> [0xFFFD])
             else 0xFFFD # utf8_decode bs
         | [] \<Rightarrow> [0xFFFD])
      else if in_range 0xF0 0xF4 a then
        (case bs of
           b # cs \<Rightarrow>
             if in_range (if a = 0xF0 then 0x90 else 0x80) (if a = 0xF4 then 0x8F else 0xBF) b then
               (case cs of
                  c # ds \<Rightarrow>
                    if in_range 0x80 0xBF c then
                      (case ds of
                         d # es \<Rightarrow>
                           if in_range 0x80 0xBF d then
                             (let p = (a - 0xF0) * 262144 + (b - 0x80) * 4096 + (c - 0x80) * 64 + (d - 0x80) - 0x10000 in
                              (0xD800 + p div 1024) # (0xDC00 + p mod 1024) # utf8_decode es)
                           else 0xFFFD # utf8_decode ds
                       | [] \<Rightarrow> [0xFFFD])
                    else 0xFFFD # utf8_decode cs
                | [] \<Rightarrow> [0xFFFD])
             else 0xFFFD # utf8_decode bs
         | [] \<Rightarrow> [0xFFFD])
      else 0xFFFD # utf8_decode bs)"

definition text_decode :: "nat list \<Rightarrow> units" where
  "text_decode bs = utf8_decode (if take 3 bs = [0xEF, 0xBB, 0xBF] then drop 3 bs else bs)"

section \<open>Base64\<close>

definition b64_char :: "nat \<Rightarrow> char" where
  "b64_char n = (if n < 26 then char_of (65 + n) else if n < 52 then char_of (71 + n)
                 else if n < 62 then char_of (n - 4) else if n = 62 then CHR ''+'' else CHR ''/'')"

definition b64_value :: "char \<Rightarrow> nat option" where
  "b64_value c = (let n = of_char c :: nat in
     if 65 \<le> n \<and> n \<le> 90 then Some (n - 65) else if 97 \<le> n \<and> n \<le> 122 then Some (n - 71)
     else if 48 \<le> n \<and> n \<le> 57 then Some (n + 4) else if c = CHR ''+'' then Some 62
     else if c = CHR ''/'' then Some 63 else None)"

fun b64_groups :: "nat list \<Rightarrow> nat list" where
  "b64_groups [] = []"
| "b64_groups [a] = [a div 4, a mod 4 * 16]"
| "b64_groups [a, b] = [a div 4, a mod 4 * 16 + b div 16, b mod 16 * 4]"
| "b64_groups (a # b # c # bs) = a div 4 # (a mod 4 * 16 + b div 16) # (b mod 16 * 4 + c div 64) # c mod 64 # b64_groups bs"

definition btoa :: "nat list \<Rightarrow> string" where
  "btoa bs = map b64_char (b64_groups bs) @ replicate ((3 - length bs mod 3) mod 3) (CHR ''='')"

fun b64_bytes :: "nat list \<Rightarrow> nat list" where
  "b64_bytes (w # x # y # z # ns) = (w * 4 + x div 16) # (x mod 16 * 16 + y div 4) # (y mod 4 * 64 + z) # b64_bytes ns"
| "b64_bytes [w, x, y] = [w * 4 + x div 16, x mod 16 * 16 + y div 4]"
| "b64_bytes [w, x] = [w * 4 + x div 16]"
| "b64_bytes _ = []"

definition strip_padding :: "string \<Rightarrow> string" where
  "strip_padding s =
     (if length s mod 4 = 0 \<and> s \<noteq> [] \<and> last s = CHR ''=''
      then (let s' = butlast s in if s' \<noteq> [] \<and> last s' = CHR ''='' then butlast s' else s') else s)"

definition atob :: "string \<Rightarrow> nat list option" where
  "atob s =
     (let s1 = filter (\<lambda>c. (of_char c :: nat) \<notin> {9, 10, 12, 13, 32}) s; s2 = strip_padding s1; vs = map b64_value s2 in
      if length s2 mod 4 = 1 \<or> None \<in> set vs then None else Some (b64_bytes (map the vs)))"

definition base64UrlEncode :: "nat list \<Rightarrow> string" where
  "base64UrlEncode bs =
     rev (dropWhile (\<lambda>c. c = CHR ''='') (rev
       (map (\<lambda>c. if c = CHR ''/'' then CHR ''_'' else c) (map (\<lambda>c. if c = CHR ''+'' then CHR ''-'' else c) (btoa bs)))))"

definition base64UrlDecode :: "string \<Rightarrow> nat list option" where
  "base64UrlDecode s =
     atob (map (\<lambda>c. if c = CHR ''_'' then CHR ''/'' else c) (map (\<lambda>c. if c = CHR ''-'' then CHR ''+'' else c) s))"

section \<open>Cursors\<close>

record page_cursor =
  pc_createdAt :: units
  pc_id :: units

definition encodeCursor :: "page_cursor \<Rightarrow> string" where
  "encodeCursor cursor =
     base64UrlEncode (text_encode (units_of ''{'' @ [0x22, 0x63, 0x22, 0x3A, 0x22] @ json_quote (pc_createdAt cursor)
       @ [0x22, 0x2C, 0x22, 0x69, 0x22, 0x3A, 0x22] @ json_quote (pc_id cursor) @ [0x22] @ units_of ''}''))"

definition parsed_field :: "(units \<times> parsed) list \<Rightarrow> units \<Rightarrow> parsed option" where
  "parsed_field es k = map_of (rev es) k"

definition decodeCursor :: "string option \<Rightarrow> page_cursor option" where
  "decodeCursor token =
     (case token of None \<Rightarrow> None
      | Some t \<Rightarrow>
          if t = [] then None
          else Option.bind (base64UrlDecode t) (\<lambda>bs. Option.bind (json_parse (text_decode bs)) (\<lambda>v.
            case v of
              PObject es \<Rightarrow>
                (case (parsed_field es [0x63], parsed_field es [0x69]) of
                   (Some (PString c), Some (PString i)) \<Rightarrow> Some \<lparr>pc_createdAt = c, pc_id = i\<rparr>
                 | _ \<Rightarrow> None)
            | _ \<Rightarrow> None)))"

section \<open>Base64 is inverted\<close>

definition byte_list :: "nat list \<Rightarrow> bool" where
  "byte_list bs \<longleftrightarrow> (\<forall>b \<in> set bs. b < 256)"

lemma byte_list_simps [simp]: "byte_list []" "byte_list (b # bs) \<longleftrightarrow> b < 256 \<and> byte_list bs"
  by (simp_all add: byte_list_def)

lemma sextet_first: "b < 256 \<Longrightarrow> (a div 4) * 4 + (a mod 4 * 16 + b div 16) div 16 = (a :: nat)"
proof -
  assume "b < 256"
  then have "b div 16 < 16" by simp
  then have "(a mod 4 * 16 + b div 16) div 16 = a mod 4" by simp
  then show ?thesis by simp
qed

lemma sextet_second: "c < 256 \<Longrightarrow> (a mod 4 * 16 + b div 16) mod 16 * 16 + (b mod 16 * 4 + c div 64) div 4 = (b :: nat)"
  if "b < 256" for a b c :: nat
proof -
  assume "c < 256"
  then have "c div 64 < 4" by simp
  then have c: "(b mod 16 * 4 + c div 64) div 4 = b mod 16" by simp
  have "b div 16 < 16" using that by simp
  then have "(a mod 4 * 16 + b div 16) mod 16 = b div 16" by simp
  with c show ?thesis by simp
qed

lemma sextet_third: "(b mod 16 * 4 + c div 64) mod 4 * 64 + c mod 64 = (c :: nat)" if "c < 256" for b c :: nat
proof -
  have "c div 64 < 4" using that by simp
  then have "(b mod 16 * 4 + c div 64) mod 4 = c div 64" by simp
  then show ?thesis by simp
qed

lemma b64_bytes_groups: "byte_list bs \<Longrightarrow> b64_bytes (b64_groups bs) = bs"
proof (induction bs rule: b64_groups.induct)
  case (2 a)
  then show ?case using sextet_first [of 0 a] by simp
next
  case (3 a b)
  then show ?case using sextet_first [of b a] sextet_second [of b 0 a] by simp
next
  case (4 a b c bs)
  then show ?case using sextet_first [of b a] sextet_second [of b c a] sextet_third [of c b] by simp
qed simp

lemma b64_groups_small: "byte_list bs \<Longrightarrow> n \<in> set (b64_groups bs) \<Longrightarrow> n < 64"
proof (induction bs rule: b64_groups.induct)
  case (3 a b)
  then have "a < 256" "b < 256" by simp_all
  then have "b div 16 < 16" "a mod 4 < 4" "b mod 16 < 16" "a div 4 < 64" by simp_all
  with 3 show ?case by auto
next
  case (4 a b c bs)
  then have "a < 256" "b < 256" "c < 256" by simp_all
  then have "b div 16 < 16" "a mod 4 < 4" "b mod 16 < 16" "a div 4 < 64" "c div 64 < 4" "c mod 64 < 64" by simp_all
  with 4 show ?case by auto
qed auto

lemma b64_groups_length: "length (b64_groups bs) mod 4 \<noteq> 1"
  by (induction bs rule: b64_groups.induct) auto

text \<open>A digit of the alphabet, in its form inside a token.\<close>

definition token_char :: "nat \<Rightarrow> char" where
  "token_char n = (let c = b64_char n in if c = CHR ''+'' then CHR ''-'' else if c = CHR ''/'' then CHR ''_'' else c)"

definition untoken_char :: "char \<Rightarrow> char" where
  "untoken_char c = (if c = CHR ''-'' then CHR ''+'' else if c = CHR ''_'' then CHR ''/'' else c)"

definition alphabet_ok :: "nat \<Rightarrow> bool" where
  "alphabet_ok n \<longleftrightarrow> token_char n \<noteq> CHR ''='' \<and> b64_value (untoken_char (token_char n)) = Some n
     \<and> (of_char (untoken_char (token_char n)) :: nat) \<notin> {9, 10, 12, 13, 32, 61}"

lemma alphabet_ok: "n < 64 \<Longrightarrow> alphabet_ok n"
proof -
  assume n: "n < 64"
  have "list_all alphabet_ok [0..<64]" by code_simp
  then show ?thesis using n by (simp only: list_all_iff set_upt) simp
qed

lemma base64UrlEncode_tokens:
  assumes "byte_list bs" shows "base64UrlEncode bs = map token_char (b64_groups bs)"
proof -
  let ?f = "\<lambda>c. if c = CHR ''/'' then CHR ''_'' else c" and ?g = "\<lambda>c. if c = CHR ''+'' then CHR ''-'' else c"
  let ?ns = "b64_groups bs" and ?p = "replicate ((3 - length bs mod 3) mod 3) (CHR ''='')"
  have fg: "?f (?g (b64_char n)) = token_char n" for n by (simp add: token_char_def Let_def)
  have "map ?f (map ?g (btoa bs)) = map token_char ?ns @ ?p"
    unfolding btoa_def map_append map_map using fg by (simp add: comp_def)
  then have "base64UrlEncode bs = rev (dropWhile (\<lambda>c. c = CHR ''='') (?p @ rev (map token_char ?ns)))"
    by (simp add: base64UrlEncode_def)
  also have "dropWhile (\<lambda>c. c = CHR ''='') (?p @ rev (map token_char ?ns)) = dropWhile (\<lambda>c. c = CHR ''='') (rev (map token_char ?ns))"
    by (rule dropWhile_append2) simp
  also have "\<dots> = rev (map token_char ?ns)"
  proof -
    have "c \<noteq> CHR ''=''" if "c \<in> set (rev (map token_char ?ns))" for c
      using that alphabet_ok [OF b64_groups_small [OF assms]] by (auto simp: alphabet_ok_def)
    then show ?thesis by (cases "rev (map token_char ?ns)") auto
  qed
  finally show ?thesis by simp
qed

lemma base64Url_roundtrip:
  assumes "byte_list bs" shows "base64UrlDecode (base64UrlEncode bs) = Some bs"
proof -
  let ?ns = "b64_groups bs"
  let ?s = "map (\<lambda>n. untoken_char (token_char n)) ?ns"
  have ok: "alphabet_ok n" if "n \<in> set ?ns" for n using that alphabet_ok b64_groups_small [OF assms] by blast
  have un: "map (\<lambda>c. if c = CHR ''_'' then CHR ''/'' else c) (map (\<lambda>c. if c = CHR ''-'' then CHR ''+'' else c) (map token_char ?ns)) = ?s"
    by (simp add: untoken_char_def)
  have keep: "filter (\<lambda>c. (of_char c :: nat) \<notin> {9, 10, 12, 13, 32}) ?s = ?s"
    by (rule filter_True) (use ok in \<open>auto simp: alphabet_ok_def\<close>)
  have "(of_char c :: nat) \<noteq> 61" if "c \<in> set ?s" for c using that ok by (auto simp: alphabet_ok_def)
  moreover have "(of_char (CHR ''='') :: nat) = 61" by simp
  ultimately have "c \<noteq> CHR ''=''" if "c \<in> set ?s" for c using that by metis
  then have strip: "strip_padding ?s = ?s" unfolding strip_padding_def by (metis last_in_set)
  have vs: "map b64_value ?s = map Some ?ns" using ok by (auto simp: alphabet_ok_def)
  have "atob ?s = Some (b64_bytes ?ns)"
    unfolding atob_def keep strip vs Let_def using b64_groups_length [of bs] by (auto simp: comp_def)
  then show ?thesis
    unfolding base64UrlDecode_def base64UrlEncode_tokens [OF assms] un b64_bytes_groups [OF assms] .
qed

section \<open>UTF-8 is inverted\<close>

text \<open>Text whose surrogates are paired.\<close>

definition plain_unit :: "nat \<Rightarrow> bool" where
  "plain_unit u \<longleftrightarrow> u < 0x10000 \<and> \<not> high_surrogate u \<and> \<not> low_surrogate u"

fun well_paired :: "units \<Rightarrow> bool" where
  "well_paired [] = True"
| "well_paired [u] = plain_unit u"
| "well_paired (u # v # us) = (if high_surrogate u \<and> low_surrogate v then well_paired us else plain_unit u \<and> well_paired (v # us))"

lemma well_paired_plain [simp]: "plain_unit u \<Longrightarrow> well_paired (u # us) = well_paired us"
  by (cases us) (auto simp: plain_unit_def)

lemma ascii_plain [simp]: "u < 0x80 \<Longrightarrow> plain_unit u"
  by (simp add: plain_unit_def high_surrogate_def low_surrogate_def)

lemma well_paired_cases:
  assumes "well_paired (u # us)"
  obtains (plain) "plain_unit u" "well_paired us"
  | (pair) v vs where "us = v # vs" "high_surrogate u" "low_surrogate v" "well_paired vs"
  using assms by (cases us) (auto simp: plain_unit_def split: if_split_asm)

lemma pair_bytes:
  assumes "high_surrogate u" "low_surrogate v"
  defines "p \<equiv> 0x10000 + (u - 0xD800) * 1024 + (v - 0xDC00)"
  shows "p div 262144 \<le> 4" "p div 262144 = 0 \<longrightarrow> 16 \<le> p div 4096 mod 64" "p div 262144 = 4 \<longrightarrow> p div 4096 mod 64 < 16"
    "p div 262144 * 262144 + p div 4096 mod 64 * 4096 + p div 64 mod 64 * 64 + p mod 64 = p"
    "0xD800 + (p - 0x10000) div 1024 = u" "0xDC00 + (p - 0x10000) mod 1024 = v"
proof -
  obtain h l where h: "u = 0xD800 + h" "h < 1024" and l: "v = 0xDC00 + l" "l < 1024"
    using assms(1,2) by (auto simp: high_surrogate_def low_surrogate_def nat_le_iff_add)
  then have p: "p = 0x10000 + h * 1024 + l" by (simp add: p_def)
  then have q: "p - 0x10000 = h * 1024 + l" by simp
  have "p < 0x110000" "0x10000 \<le> p" using p h(2) l(2) by auto
  then show "p div 262144 \<le> 4" by auto
  show "p div 262144 = 0 \<longrightarrow> 16 \<le> p div 4096 mod 64"
  proof
    assume "p div 262144 = 0"
    then have "p < 262144" by (simp add: div_eq_0_iff)
    then have "p div 4096 mod 64 = p div 4096" by simp
    moreover have "16 \<le> p div 4096" using \<open>0x10000 \<le> p\<close> by simp
    ultimately show "16 \<le> p div 4096 mod 64" by simp
  qed
  show "p div 262144 = 4 \<longrightarrow> p div 4096 mod 64 < 16"
  proof
    assume d: "p div 262144 = 4"
    have "p div 4096 = p div 262144 * 64 + p div 4096 mod 64" using div_mult2_eq [of p 4096 64] by simp
    with d have "p div 4096 mod 64 = p div 4096 - 256" by simp
    moreover have "p div 4096 < 272" using \<open>p < 0x110000\<close> by simp
    ultimately show "p div 4096 mod 64 < 16" by simp
  qed
  have "p = p div 64 * 64 + p mod 64" by simp
  moreover have "p div 64 = p div 4096 * 64 + p div 64 mod 64" using div_mult2_eq [of p 64 64] by simp
  moreover have "p div 4096 = p div 262144 * 64 + p div 4096 mod 64" using div_mult2_eq [of p 4096 64] by simp
  ultimately show "p div 262144 * 262144 + p div 4096 mod 64 * 4096 + p div 64 mod 64 * 64 + p mod 64 = p" by linarith
  show "0xD800 + (p - 0x10000) div 1024 = u" "0xDC00 + (p - 0x10000) mod 1024 = v"
    unfolding q using h l by simp_all
qed

lemma plain_bytes:
  assumes "plain_unit u" "0x800 \<le> u"
  shows "u div 4096 \<le> 15" "u div 4096 = 0 \<longrightarrow> 32 \<le> u div 64 mod 64" "u div 4096 = 13 \<longrightarrow> u div 64 mod 64 < 32"
    "u div 4096 * 4096 + u div 64 mod 64 * 64 + u mod 64 = u"
proof -
  have u: "u < 0x10000" "u < 0xD800 \<or> 0xE000 \<le> u"
    using assms(1) by (auto simp: plain_unit_def high_surrogate_def low_surrogate_def)
  have d: "u div 64 = u div 4096 * 64 + u div 64 mod 64" using div_mult2_eq [of u 64 64] by simp
  have "u = u div 64 * 64 + u mod 64" by simp
  with d show "u div 4096 * 4096 + u div 64 mod 64 * 64 + u mod 64 = u" by linarith
  show "u div 4096 \<le> 15" using u(1) by auto
  show "u div 4096 = 0 \<longrightarrow> 32 \<le> u div 64 mod 64"
  proof
    assume "u div 4096 = 0"
    with d have "u div 64 mod 64 = u div 64" by simp
    moreover have "32 \<le> u div 64" using assms(2) by simp
    ultimately show "32 \<le> u div 64 mod 64" by simp
  qed
  show "u div 4096 = 13 \<longrightarrow> u div 64 mod 64 < 32"
  proof
    assume e: "u div 4096 = 13"
    then have "u < 0xE000" by auto
    with u(2) have "u div 64 < 864" by auto
    with d e show "u div 64 mod 64 < 32" by simp
  qed
qed

lemma text_encode_plain:
  assumes "plain_unit u"
  shows "text_encode (u # us) =
    (if u < 0x80 then u # text_encode us
     else if u < 0x800 then (0xC0 + u div 64) # (0x80 + u mod 64) # text_encode us
     else (0xE0 + u div 4096) # (0x80 + u div 64 mod 64) # (0x80 + u mod 64) # text_encode us)"
  using assms by (auto simp: plain_unit_def split: list.split)

lemma utf8_decode_plain:
  assumes "plain_unit u" shows "utf8_decode (text_encode (u # us)) = u # utf8_decode (text_encode us)"
proof -
  consider "u < 0x80" | "0x80 \<le> u" "u < 0x800" | "0x800 \<le> u" by linarith
  then show ?thesis
  proof cases
    case 2
    then have "2 \<le> u div 64" "u div 64 < 32" by auto
    then show ?thesis unfolding text_encode_plain [OF assms] using 2 by (simp add: in_range_def)
  next
    case 3
    note b = plain_bytes [OF assms 3]
    have r: "in_range 0xE0 0xEF (0xE0 + u div 4096)"
      "in_range (if 0xE0 + u div 4096 = 0xE0 then 0xA0 else 0x80) (if 0xE0 + u div 4096 = 0xED then 0x9F else 0xBF) (0x80 + u div 64 mod 64)"
      "in_range 0x80 0xBF (0x80 + u mod 64)"
      using b(1-3) mod_less_divisor [of 64 "u div 64"] by (auto simp: in_range_def)
    have v: "(0xE0 + u div 4096 - 0xE0) * 4096 + (0x80 + u div 64 mod 64 - 0x80) * 64 + (0x80 + u mod 64 - 0x80) = u"
      using b(4) by simp
    have n: "\<not> 0xE0 + u div 4096 < 0x80" "\<not> in_range 0xC2 0xDF (0xE0 + u div 4096)" by (simp_all add: in_range_def)
    have enc: "text_encode (u # us) = (0xE0 + u div 4096) # (0x80 + u div 64 mod 64) # (0x80 + u mod 64) # text_encode us"
      unfolding text_encode_plain [OF assms] using 3 by simp
    show ?thesis
      unfolding enc utf8_decode.simps(2) [of "0xE0 + u div 4096"] if_not_P [OF n(1)] if_not_P [OF n(2)] if_P [OF r(1)]
        list.case if_P [OF r(2)] if_P [OF r(3)] v ..
  qed (simp add: text_encode_plain [OF assms])
qed

lemma text_encode_pair:
  assumes "high_surrogate u" "low_surrogate v"
  defines "p \<equiv> 0x10000 + (u - 0xD800) * 1024 + (v - 0xDC00)"
  shows "text_encode (u # v # us) = (0xF0 + p div 262144) # (0x80 + p div 4096 mod 64) # (0x80 + p div 64 mod 64) # (0x80 + p mod 64) # text_encode us"
proof -
  have "\<not> u < 0x80" "\<not> u < 0x800" using assms(1) by (simp_all add: high_surrogate_def)
  then show ?thesis using assms(1,2) unfolding p_def by (simp add: Let_def)
qed

lemma utf8_decode_pair:
  assumes "high_surrogate u" "low_surrogate v"
  shows "utf8_decode (text_encode (u # v # us)) = u # v # utf8_decode (text_encode us)"
proof -
  define p where "p = 0x10000 + (u - 0xD800) * 1024 + (v - 0xDC00)"
  note b = pair_bytes [OF assms, folded p_def]
  have r: "in_range 0xF0 0xF4 (0xF0 + p div 262144)"
    "in_range (if 0xF0 + p div 262144 = 0xF0 then 0x90 else 0x80) (if 0xF0 + p div 262144 = 0xF4 then 0x8F else 0xBF) (0x80 + p div 4096 mod 64)"
    "in_range 0x80 0xBF (0x80 + p div 64 mod 64)" "in_range 0x80 0xBF (0x80 + p mod 64)"
    using b(1-3) mod_less_divisor [of 64 "p div 4096"] mod_less_divisor [of 64 "p div 64"] by (auto simp: in_range_def)
  have n: "\<not> 0xF0 + p div 262144 < 0x80" "\<not> in_range 0xC2 0xDF (0xF0 + p div 262144)" "\<not> in_range 0xE0 0xEF (0xF0 + p div 262144)"
    by (simp_all add: in_range_def)
  have v: "(0xF0 + p div 262144 - 0xF0) * 262144 + (0x80 + p div 4096 mod 64 - 0x80) * 4096 + (0x80 + p div 64 mod 64 - 0x80) * 64
      + (0x80 + p mod 64 - 0x80) - 0x10000 = p - 0x10000" using b(4) by simp
  show ?thesis
    unfolding text_encode_pair [OF assms, folded p_def] utf8_decode.simps(2) [of "0xF0 + p div 262144"]
      if_not_P [OF n(1)] if_not_P [OF n(2)] if_not_P [OF n(3)] if_P [OF r(1)] list.case if_P [OF r(2)] if_P [OF r(3)] if_P [OF r(4)]
      v Let_def b(5,6) ..
qed

lemma utf8_roundtrip: "well_paired us \<Longrightarrow> utf8_decode (text_encode us) = us"
proof (induction us rule: length_induct)
  case (1 us)
  show ?case
  proof (cases us)
    case (Cons u ts)
    from 1(2) [unfolded Cons] show ?thesis
    proof (cases rule: well_paired_cases)
      case plain
      then show ?thesis using 1(1) Cons utf8_decode_plain [of u ts] by simp
    next
      case (pair v vs)
      then show ?thesis using 1(1) Cons utf8_decode_pair [of u v vs] by simp
    qed
  qed simp
qed

lemma continuation_byte [simp]: "n mod 64 < (128 :: nat)"
  by (rule less_le_trans [OF mod_less_divisor]) simp_all

lemma text_encode_bytes: "well_paired us \<Longrightarrow> byte_list (text_encode us)"
proof (induction us rule: length_induct)
  case (1 us)
  show ?case
  proof (cases us)
    case (Cons u ts)
    from 1(2) [unfolded Cons] show ?thesis
    proof (cases rule: well_paired_cases)
      case plain
      then have "byte_list (text_encode ts)" using 1(1) Cons by simp
      moreover have "u < 0x800 \<Longrightarrow> u div 64 < 32" by auto
      moreover have "u div 4096 < 16" using plain(1) by (auto simp: plain_unit_def)
      ultimately show ?thesis unfolding Cons text_encode_plain [OF plain(1)] by auto
    next
      case (pair v vs)
      define p where "p = 0x10000 + (u - 0xD800) * 1024 + (v - 0xDC00)"
      have "byte_list (text_encode vs)" using 1(1) Cons pair by simp
      moreover have "p div 262144 \<le> 4" using pair_bytes(1) [OF pair(2,3)] unfolding p_def .
      ultimately show ?thesis unfolding Cons pair(1) text_encode_pair [OF pair(2,3), folded p_def] by simp
    qed
  qed simp
qed

section \<open>JSON strings are inverted\<close>

lemma hex_value_digit: "d < 16 \<Longrightarrow> hex_value (hex_digit d) = Some d"
  by (auto simp: hex_value_def hex_digit_def)

lemma hex_digit_plain: "d < 16 \<Longrightarrow> hex_digit d < 0x80"
  by (auto simp: hex_digit_def)

lemma hex_decomposition:
  "((u div 4096 * 16 + u div 256 mod 16) * 16 + u div 16 mod 16) * 16 + u mod 16 = (u :: nat)"
proof -
  have "u div 16 * 16 + u mod 16 = u" by simp
  moreover have "u div 256 * 16 + u div 16 mod 16 = u div 16" using div_mult2_eq [of u 16 16] by simp
  moreover have "u div 4096 * 16 + u div 256 mod 16 = u div 256" using div_mult2_eq [of u 256 16] by simp
  ultimately show ?thesis by (simp only:)
qed

lemma parse_escape_four:
  assumes "hex_value a = Some w" "hex_value b = Some x" "hex_value c = Some y" "hex_value d = Some z"
  shows "parse_string (0x5C # 0x75 # a # b # c # d # rest) =
    map_option (apfst ((#) (((w * 16 + x) * 16 + y) * 16 + z))) (parse_string rest)"
  by (simp add: assms)

lemma parse_unicode_escape:
  assumes "u < 0x10000"
  shows "parse_string (unicode_escape u @ rest) = map_option (apfst ((#) u)) (parse_string rest)"
proof -
  have "u div 4096 < 16" using assms by auto
  then have h: "hex_value (hex_digit (u div 4096)) = Some (u div 4096)"
    "hex_value (hex_digit (u div 256 mod 16)) = Some (u div 256 mod 16)"
    "hex_value (hex_digit (u div 16 mod 16)) = Some (u div 16 mod 16)"
    "hex_value (hex_digit (u mod 16)) = Some (u mod 16)"
    by (simp_all add: hex_value_digit)
  show ?thesis
    unfolding unicode_escape_def append_Cons append_Nil parse_escape_four [OF h] hex_decomposition ..
qed

lemma parse_plain: "0x5D < u \<Longrightarrow> parse_string (u # us) = map_option (apfst ((#) u)) (parse_string us)"
  by simp

lemma parse_quote_unit:
  assumes "u < 0x10000"
  shows "parse_string (quote_unit u @ rest) = map_option (apfst ((#) u)) (parse_string rest)"
  using parse_unicode_escape [OF assms] by (auto simp: quote_unit_def)

lemma parse_json_quote:
  "(\<forall>u \<in> set us. u < 0x10000) \<Longrightarrow> parse_string (json_quote us @ 0x22 # rest) = Some (us, rest)"
proof (induction us rule: json_quote.induct)
  case (2 u)
  then show ?case by (simp add: parse_unicode_escape parse_quote_unit)
next
  case (3 u v us)
  show ?case
  proof (cases "high_surrogate u \<and> low_surrogate v")
    case True
    then have "0x5D < u" "0x5D < v" by (auto simp: high_surrogate_def low_surrogate_def)
    then show ?thesis using True 3 by (simp add: parse_plain del: parse_string.simps)
  next
    case False
    then show ?thesis using 3 by (auto simp: parse_unicode_escape parse_quote_unit simp del: parse_string.simps)
  qed
qed simp

lemma well_paired_ascii: "(\<forall>u \<in> set p. u < 0x80) \<Longrightarrow> well_paired (p @ us) = well_paired us"
  by (induction p) simp_all

lemma unicode_escape_ascii: "u < 0x10000 \<Longrightarrow> \<forall>x \<in> set (unicode_escape u). x < 0x80"
proof -
  assume "u < 0x10000"
  then have "u div 4096 < 16" by auto
  then show ?thesis by (simp add: unicode_escape_def hex_digit_plain)
qed

lemma quote_unit_paired: "plain_unit u \<Longrightarrow> well_paired (quote_unit u @ us) = well_paired us"
proof -
  assume u: "plain_unit u"
  then have "well_paired (unicode_escape u @ us) = well_paired us"
    by (intro well_paired_ascii unicode_escape_ascii) (simp add: plain_unit_def)
  then show ?thesis using u by (auto simp: quote_unit_def)
qed

lemma json_quote_paired:
  "(\<forall>u \<in> set us. u < 0x10000) \<Longrightarrow> well_paired (json_quote us @ rest) = well_paired rest"
proof (induction us rule: json_quote.induct)
  case (2 u)
  then show ?case using well_paired_ascii [OF unicode_escape_ascii, of u] quote_unit_paired [of u] by (auto simp: plain_unit_def)
next
  case (3 u v us)
  show ?case
  proof (cases "high_surrogate u \<and> low_surrogate v")
    case True
    then show ?thesis using 3 by simp
  next
    case False
    then show ?thesis using 3 well_paired_ascii [OF unicode_escape_ascii, of u] quote_unit_paired [of u]
      by (auto simp: plain_unit_def)
  qed
qed simp

section \<open>Cursors survive their tokens\<close>

definition valid_cursor :: "page_cursor \<Rightarrow> bool" where
  "valid_cursor c \<longleftrightarrow> list_all (\<lambda>u. u < 0x10000) (pc_createdAt c) \<and> list_all (\<lambda>u. u < 0x10000) (pc_id c)"

definition cursor_text :: "page_cursor \<Rightarrow> units" where
  "cursor_text c = [0x7B, 0x22, 0x63, 0x22, 0x3A, 0x22] @ json_quote (pc_createdAt c)
     @ [0x22, 0x2C, 0x22, 0x69, 0x22, 0x3A, 0x22] @ json_quote (pc_id c) @ [0x22, 0x7D]"

lemma encodeCursor_text: "encodeCursor c = base64UrlEncode (text_encode (cursor_text c))"
  by (simp add: encodeCursor_def cursor_text_def units_of_def)

lemma cursor_text_paired: "valid_cursor c \<Longrightarrow> well_paired (cursor_text c)"
  by (simp add: cursor_text_def valid_cursor_def list_all_iff json_quote_paired)

lemma parse_cursor_members:
  assumes "valid_cursor c"
  shows "parse_members (Suc (Suc (Suc n))) (tl (cursor_text c)) =
    Some ([([0x63], PString (pc_createdAt c)), ([0x69], PString (pc_id c))], [])"
  using assms parse_json_quote [of "pc_createdAt c"] parse_json_quote [of "pc_id c"]
  by (simp add: cursor_text_def valid_cursor_def list_all_iff)

lemma json_parse_cursor:
  assumes "valid_cursor c"
  shows "json_parse (cursor_text c) = Some (PObject [([0x63], PString (pc_createdAt c)), ([0x69], PString (pc_id c))])"
proof -
  let ?t = "cursor_text c"
  have "13 \<le> length ?t" by (simp add: cursor_text_def)
  then have "2 * length ?t + 2 = Suc (Suc (Suc (Suc (2 * length ?t - 2))))" by simp
  then obtain n where n: "2 * length ?t + 2 = Suc (Suc (Suc (Suc n)))" by blast
  have "parse_value (Suc (Suc (Suc (Suc n)))) ?t = map_option (apfst PObject) (parse_members (Suc (Suc (Suc n))) (tl ?t))"
    by (simp add: cursor_text_def)
  then show ?thesis by (simp only: json_parse_def n parse_cursor_members [OF assms]) simp
qed

lemma decode_encode_cursor: "valid_cursor c \<Longrightarrow> decodeCursor (Some (encodeCursor c)) = Some c"
proof -
  assume c: "valid_cursor c"
  let ?t = "cursor_text c"
  have enc: "text_encode ?t = 0x7B # text_encode (tl ?t)" by (simp add: cursor_text_def)
  have bytes: "byte_list (text_encode ?t)" by (rule text_encode_bytes [OF cursor_text_paired [OF c]])
  from base64Url_roundtrip [OF bytes] have dec: "base64UrlDecode (encodeCursor c) = Some (text_encode ?t)"
    by (simp add: encodeCursor_text)
  have "base64UrlDecode [] = Some []" by (simp add: base64UrlDecode_def atob_def strip_padding_def Let_def)
  with dec enc have ne: "encodeCursor c \<noteq> []" by auto
  have decoded: "text_decode (text_encode ?t) = ?t"
    using utf8_roundtrip [OF cursor_text_paired [OF c]] by (simp add: text_decode_def enc)
  show ?thesis
    using ne by (simp add: decodeCursor_def dec decoded json_parse_cursor [OF c] parsed_field_def)
qed

section \<open>The nesting bound is enough\<close>

lemma skip_ws_length: "length (skip_ws us) \<le> length us"
  by (induction us rule: skip_ws.induct) auto

lemma skip_ws_Cons: "skip_ws us = u # rest \<Longrightarrow> length rest < length us"
  using skip_ws_length [of us] by simp

lemma parse_string_length: "parse_string us = Some (s, rest) \<Longrightarrow> length rest < length us"
proof (induction us arbitrary: s rest rule: length_induct)
  case (1 us)
  have ih: "length r < length us" if "parse_string ys = Some (t, r)" "length ys < length us" for ys t r
    using 1(1) that by fastforce
  show ?case
    using 1(2) by (cases us) (auto split: if_split_asm list.splits option.splits dest!: ih)
qed

lemma parse_digits_length: "parse_digits us = Some rest \<Longrightarrow> length rest < length us"
  using length_dropWhile_le [of digit "tl us"] by (auto simp: parse_digits_def split: list.splits if_split_asm)

lemma parse_number_length:
  assumes "parse_number us = Some rest" shows "length rest < length us"
proof -
  define body where "body = (case us of [] \<Rightarrow> [] | u # rest \<Rightarrow> if u = 0x2D then rest else us)"
  have body: "length body \<le> length us" by (auto simp: body_def split: list.split)
  obtain r1 r2 where r1: "parse_integer_part body = Some r1"
    and r2: "parse_fraction r1 = Some r2" and r3: "parse_exponent r2 = Some rest"
    using assms by (auto simp: parse_number_def Let_def bind_eq_Some_conv body_def [symmetric])
  have "length r1 < length body" using r1 by (auto simp: parse_integer_part_def split: list.splits if_split_asm dest!: parse_digits_length)
  moreover have "length r2 \<le> length r1" using r2 by (auto simp: parse_fraction_def split: list.splits if_split_asm dest!: parse_digits_length)
  moreover have "length rest \<le> length r2" using r3 by (auto simp: parse_exponent_def split: list.splits if_split_asm dest!: parse_digits_length)
  ultimately show ?thesis using body by simp
qed

lemma parse_word_length: "parse_word w us = Some rest \<Longrightarrow> w \<noteq> [] \<Longrightarrow> length rest < length us"
proof -
  assume w: "parse_word w us = Some rest" "w \<noteq> []"
  then have "take (length w) us = w" and rest: "rest = drop (length w) us" by (auto simp: parse_word_def split: if_split_asm)
  then have "us = w @ rest" by (metis append_take_drop_id)
  with w(2) show ?thesis by simp
qed

lemma parse_lengths:
  "parse_value n us = Some (v, rest) \<Longrightarrow> length rest < length us"
  "parse_members n us = Some (es, rest) \<Longrightarrow> length rest < length us"
  "parse_elements n us = Some rest \<Longrightarrow> length rest < length us"
proof (induction n arbitrary: us v es rest)
  case (Suc n)
  {
    case 1
    then obtain u r where sk: "skip_ws us = u # r" by (auto split: list.splits)
    note r = skip_ws_Cons [OF sk]
    have "parse_number (u # r) = Some rest \<Longrightarrow> length rest < length us"
      "parse_word (c # w) (u # r) = Some rest \<Longrightarrow> length rest < length us" for c w
      using parse_number_length [of "u # r" rest] parse_word_length [of "c # w" "u # r" rest] r by auto
    moreover have "length rest < length us" if "skip_ws r = v' # r'" "parse_members n (v' # r') = Some (es', rest)" for v' r' es'
      using Suc(2) [OF that(2)] skip_ws_Cons [OF that(1)] r by simp
    moreover have "length rest < length us" if "skip_ws r = v' # r'" "parse_elements n (v' # r') = Some rest" for v' r'
      using Suc(3) [OF that(2)] skip_ws_Cons [OF that(1)] r by simp
    ultimately show ?case using 1 r
      by (auto simp: sk units_of_def split: list.splits if_split_asm dest!: parse_string_length dest: skip_ws_Cons)
  next
    case 2
    then obtain r key r1 c r2 v r3 q r4 where
      p: "skip_ws us = 0x22 # r" "parse_string r = Some (key, r1)" "skip_ws r1 = c # r2" "parse_value n r2 = Some (v, r3)" "skip_ws r3 = q # r4"
      and rest: "rest = r4 \<or> (\<exists>es. parse_members n r4 = Some (es, rest))"
      by (auto split: Option.bind_split_asm prod.split_asm list.split_asm if_split_asm)
    from p have "length r4 < length us"
      using skip_ws_Cons [OF p(1)] parse_string_length [OF p(2)] skip_ws_Cons [OF p(3)] Suc(1) [OF p(4)] skip_ws_Cons [OF p(5)] by simp
    with rest Suc(2) show ?case by (auto intro: less_trans)
  next
    case 3
    then obtain v r1 q r2 where p: "parse_value n us = Some (v, r1)" "skip_ws r1 = q # r2"
      and rest: "rest = r2 \<or> parse_elements n r2 = Some rest"
      by (auto split: Option.bind_split_asm prod.split_asm list.split_asm if_split_asm)
    have "length r2 < length us" using Suc(1) [OF p(1)] skip_ws_Cons [OF p(2)] by simp
    with rest Suc(3) show ?case by (auto intro: less_trans)
  }
qed simp_all

text \<open>With fuel for the length of the text, more fuel changes nothing: \<open>json_parse\<close> never gives up for lack of it.\<close>

lemma parse_fuel:
  "2 * length us < n \<Longrightarrow> parse_value n us = parse_value (Suc n) us"
  "2 * length us < n \<Longrightarrow> parse_members n us = parse_members (Suc n) us"
  "2 * length us + 1 < n \<Longrightarrow> parse_elements n us = parse_elements (Suc n) us"
proof (induction n arbitrary: us)
  case (Suc n)
  {
    case 1
    show ?case
    proof (cases "skip_ws us")
      case (Cons u r)
      note r = skip_ws_Cons [OF Cons]
      have len: "2 * length (skip_ws r) + 1 < n \<or> skip_ws r = []" using 1 r skip_ws_length [of r] by (cases n) auto
      show ?thesis
      proof (cases "skip_ws r")
        case Nil
        show ?thesis unfolding parse_value.simps(2) Cons list.case Nil ..
      next
        case (Cons v r')
        have m: "parse_members n (v # r') = parse_members (Suc n) (v # r')" by (rule Suc(2)) (use len Cons in simp)
        have e: "parse_elements n (v # r') = parse_elements (Suc n) (v # r')" by (rule Suc(3)) (use len Cons in simp)
        show ?thesis unfolding parse_value.simps(2) \<open>skip_ws us = u # r\<close> list.case Cons m e ..
      qed
    qed simp
  next
    case 2
    have v: "parse_value n r2 = parse_value (Suc n) r2"
      if "skip_ws us = u # r" "parse_string r = Some (key, r1)" "skip_ws r1 = c # r2" for u r key r1 c r2
      using 2 skip_ws_Cons [OF that(1)] parse_string_length [OF that(2)] skip_ws_Cons [OF that(3)] by (intro Suc(1)) simp
    have m: "parse_members n r4 = parse_members (Suc n) r4"
      if "skip_ws us = u # r" "parse_string r = Some (key, r1)" "skip_ws r1 = c # r2" "parse_value (Suc n) r2 = Some (w, r3)" "skip_ws r3 = q # r4"
      for u r key r1 c r2 w r3 q r4
      using 2 skip_ws_Cons [OF that(1)] parse_string_length [OF that(2)] skip_ws_Cons [OF that(3)] parse_lengths(1) [OF that(4)]
        skip_ws_Cons [OF that(5)] by (intro Suc(2)) simp
    show ?case
      unfolding parse_members.simps(2) [of n us] parse_members.simps(2) [of "Suc n" us]
      by (auto simp: v m simp del: parse_value.simps parse_members.simps split: list.split intro!: Option.bind_cong)
  next
    case 3
    have v: "parse_value n us = parse_value (Suc n) us" using 3 by (intro Suc(1)) simp
    have e: "parse_elements n r2 = parse_elements (Suc n) r2" if "parse_value (Suc n) us = Some (w, r1)" "skip_ws r1 = q # r2" for w r1 q r2
      using 3 parse_lengths(1) [OF that(1)] skip_ws_Cons [OF that(2)] by (intro Suc(3)) simp
    show ?case
      unfolding parse_elements.simps(2) [of n us] parse_elements.simps(2) [of "Suc n" us] v
      by (auto simp: e simp del: parse_value.simps parse_elements.simps split: list.split intro!: Option.bind_cong)
  }
qed simp_all

lemma json_parse_fuel: "2 * length us < n \<Longrightarrow> parse_value (n + k) us = parse_value n us"
proof (induction k)
  case (Suc k)
  have "parse_value (n + k) us = parse_value (Suc (n + k)) us" by (rule parse_fuel(1)) (use Suc.prems in simp)
  with Suc show ?case by (simp only: add_Suc_right)
qed simp

text \<open>C40: a cursor survives its token. Encoding a keyset position as JSON, UTF-8 and unpadded base64url and decoding the token again
  gives the position back, whatever code units its strings hold, lone surrogates and control characters included.\<close>

theorem cursor_roundtrip: "valid_cursor c \<Longrightarrow> decodeCursor (Some (encodeCursor c)) = Some c"
  by (rule decode_encode_cursor)

theorem cursor_roundtrip_witness:
  "decodeCursor (Some (encodeCursor \<lparr>pc_createdAt = units_of ''2024-01-01'', pc_id = [0x22, 0xE9, 0x20AC, 0xD83D, 0xDE00, 0xD83D, 7]\<rparr>))
    = Some \<lparr>pc_createdAt = units_of ''2024-01-01'', pc_id = [0x22, 0xE9, 0x20AC, 0xD83D, 0xDE00, 0xD83D, 7]\<rparr>"
  by (rule cursor_roundtrip) (simp add: valid_cursor_def units_of_def)

end
