(* ===== verification/Pagination.thy ===== *)
theory Pagination
  imports Cursor_Codec
begin

text \<open>
  Keyset pagination, \<open>contract/pagination.ts\<close>: the page limit, the pagers over a sorted list and over the
  result of a keyset query with one probe row. The contract of a pager is the locale \<open>keyset_pages\<close>: the first
  page, and the page behind the token of any row. A client that follows the tokens reads every row
  exactly once and in order; the ascending and the descending pager are interpretations.
\<close>

section \<open>Pagers\<close>

fun cu_less :: "units \<Rightarrow> units \<Rightarrow> bool" where
  "cu_less [] [] = False"
| "cu_less [] (y # ys) = True"
| "cu_less (x # xs) [] = False"
| "cu_less (x # xs) (y # ys) = (x < y \<or> x = y \<and> cu_less xs ys)"

text \<open>\<open>a.createdAt < b.createdAt || (a.createdAt === b.createdAt && a.id < b.id)\<close>\<close>

definition keyset_less :: "page_cursor \<Rightarrow> page_cursor \<Rightarrow> bool" where
  "keyset_less a b \<longleftrightarrow> cu_less (pc_createdAt a) (pc_createdAt b)
     \<or> pc_createdAt a = pc_createdAt b \<and> cu_less (pc_id a) (pc_id b)"

definition clampPageLimit :: "int option \<Rightarrow> nat" where
  "clampPageLimit raw = (case raw of None \<Rightarrow> 100 | Some n \<Rightarrow> if n < 1 then 1 else if n > 100 then 100 else nat n)"

fun js_find_index :: "('a \<Rightarrow> bool) \<Rightarrow> 'a list \<Rightarrow> nat option" where
  "js_find_index P [] = None"
| "js_find_index P (x # xs) = (if P x then Some 0 else map_option Suc (js_find_index P xs))"

record page_params =
  pp_limit :: "int option"
  pp_cursor :: "string option"

text \<open>The window behind the cursor; \<open>behind c k\<close> says that a row with key \<open>k\<close> comes after the cursor \<open>c\<close>.\<close>

definition page_window ::
    "(page_cursor \<Rightarrow> page_cursor \<Rightarrow> bool) \<Rightarrow> 'a list \<Rightarrow> page_params \<Rightarrow> ('a \<Rightarrow> page_cursor) \<Rightarrow> 'a list \<times> string option" where
  "page_window behind sorted_rows params keyset =
     (let limit = clampPageLimit (pp_limit params);
          start = (case decodeCursor (pp_cursor params) of None \<Rightarrow> Some 0
                   | Some c \<Rightarrow> js_find_index (\<lambda>row. behind c (keyset row)) sorted_rows);
          from' = (case start of None \<Rightarrow> length sorted_rows | Some i \<Rightarrow> i);
          window = take limit (drop from' sorted_rows);
          hasMore = (from' + limit < length sorted_rows)
      in (window, if hasMore \<and> window \<noteq> [] then Some (encodeCursor (keyset (last window))) else None))"

definition pageSortedBy :: "'a list \<Rightarrow> page_params \<Rightarrow> ('a \<Rightarrow> page_cursor) \<Rightarrow> 'a list \<times> string option" where
  "pageSortedBy sorted_rows params keyset = page_window keyset_less sorted_rows params keyset"

definition cursor_of_row :: "'b page_cursor_scheme \<Rightarrow> page_cursor" where
  "cursor_of_row row = \<lparr>pc_createdAt = pc_createdAt row, pc_id = pc_id row\<rparr>"

definition pageSorted :: "'b page_cursor_scheme list \<Rightarrow> page_params \<Rightarrow> 'b page_cursor_scheme list \<times> string option" where
  "pageSorted sorted_rows params = page_window keyset_less sorted_rows params cursor_of_row"

definition pageSortedDesc :: "'b page_cursor_scheme list \<Rightarrow> page_params \<Rightarrow> 'b page_cursor_scheme list \<times> string option" where
  "pageSortedDesc sorted_rows params = page_window (\<lambda>c k. keyset_less k c) sorted_rows params cursor_of_row"

definition pageFromProbeBy :: "'a list \<Rightarrow> nat \<Rightarrow> ('a \<Rightarrow> page_cursor) \<Rightarrow> 'a list \<times> string option" where
  "pageFromProbeBy rows limit keyset =
     (if length rows \<le> limit then (rows, None)
      else let items = take limit rows in
           (items, if items \<noteq> [] then Some (encodeCursor (keyset (last items))) else None))"

definition pageFromProbe :: "'b page_cursor_scheme list \<Rightarrow> nat \<Rightarrow> 'b page_cursor_scheme list \<times> string option" where
  "pageFromProbe rows limit = pageFromProbeBy rows limit cursor_of_row"

section \<open>Following the tokens\<close>

text \<open>A client that asks for pages until no token comes back, at most \<open>n\<close> times.\<close>

fun read_pages :: "nat \<Rightarrow> ('t option \<Rightarrow> 'a list \<times> 't option) \<Rightarrow> 't option \<Rightarrow> 'a list option" where
  "read_pages 0 page token = None"
| "read_pages (Suc n) page token =
     (case page token of
        (items, None) \<Rightarrow> Some items
      | (items, Some t) \<Rightarrow> map_option ((@) items) (read_pages n page (Some t)))"

definition page_of :: "nat \<Rightarrow> ('a \<Rightarrow> 't) \<Rightarrow> 'a list \<Rightarrow> 'a list \<times> 't option" where
  "page_of limit token rows = (take limit rows, if limit < length rows then Some (token (rows ! (limit - 1))) else None)"

locale keyset_pages =
  fixes page :: "'r \<Rightarrow> 't option \<Rightarrow> 'a list \<times> 't option"
    and rows :: "'r \<Rightarrow> 'a list" and limit :: "'r \<Rightarrow> nat" and token :: "'r \<Rightarrow> 'a \<Rightarrow> 't" and ok :: "'r \<Rightarrow> bool"
  assumes limit_positive: "ok r \<Longrightarrow> 0 < limit r"
    and first_page: "ok r \<Longrightarrow> page r None = page_of (limit r) (token r) (rows r)"
    and next_page: "ok r \<Longrightarrow> rows r = xs @ x # ys \<Longrightarrow> page r (Some (token r x)) = page_of (limit r) (token r) ys"
begin

lemma page_of_split:
  assumes "ok r" "limit r < length ys"
  shows "\<exists>zs x. ys = (zs @ [x]) @ drop (limit r) ys \<and> take (limit r) ys = zs @ [x] \<and> ys ! (limit r - 1) = x"
proof -
  let ?l = "limit r"
  have pos: "0 < ?l" by (rule limit_positive [OF assms(1)])
  have t: "take ?l ys = take (?l - 1) ys @ [ys ! (?l - 1)]"
    using pos assms(2) take_Suc_conv_app_nth [of "?l - 1" ys] by simp
  have "ys = take ?l ys @ drop ?l ys" by simp
  then show ?thesis unfolding t by (intro exI [of _ "take (?l - 1) ys"] exI [of _ "ys ! (?l - 1)"]) simp
qed

lemma read_from:
  assumes "ok r" "rows r = xs @ ys" "page r tok = page_of (limit r) (token r) ys" "length ys < n"
  shows "read_pages n (page r) tok = Some ys"
  using assms(2-4)
proof (induction n arbitrary: xs ys tok)
  case (Suc n)
  show ?case
  proof (cases "limit r < length ys")
    case False
    then show ?thesis using Suc.prems(2) by (simp add: page_of_def)
  next
    case True
    let ?l = "limit r" and ?rest = "drop (limit r) ys"
    obtain zs x where ys: "ys = (zs @ [x]) @ ?rest" and z: "take ?l ys = zs @ [x]" and x: "ys ! (?l - 1) = x"
      using page_of_split [OF assms(1) True] by blast
    have "rows r = (xs @ zs) @ x # ?rest" using Suc.prems(1) ys by simp
    from next_page [OF assms(1) this] have p: "page r (Some (token r x)) = page_of ?l (token r) ?rest" .
    have "length ?rest < n" using Suc.prems(3) True limit_positive [OF assms(1)] by simp
    from Suc.IH [OF _ p this, of "xs @ zs @ [x]"] have "read_pages n (page r) (Some (token r x)) = Some ?rest"
      using Suc.prems(1) ys by simp
    then show ?thesis using Suc.prems(2) True x by (simp add: page_of_def)
  qed
qed simp

lemma read_all: "ok r \<Longrightarrow> length (rows r) < n \<Longrightarrow> read_pages n (page r) None = Some (rows r)"
  using read_from [of r "[]"] first_page by simp

lemma page_sizes: "ok r \<Longrightarrow> rows r = xs @ x # ys \<Longrightarrow> length (fst (page r (Some (token r x)))) \<le> limit r"
  by (simp add: next_page page_of_def)

end

section \<open>The pagers meet the contract\<close>

lemma cu_less_irrefl [simp]: "\<not> cu_less a a"
  by (induction a) auto

lemma cu_less_trans: "cu_less a b \<Longrightarrow> cu_less b c \<Longrightarrow> cu_less a c"
proof (induction a b arbitrary: c rule: cu_less.induct)
  case (4 x xs y ys)
  then show ?case by (cases c) auto
qed (auto elim: cu_less.elims)

lemma cu_less_linear: "cu_less a b \<or> a = b \<or> cu_less b a"
  by (induction a b rule: cu_less.induct) auto

lemma cu_less_units: "cu_less (units_of a) (units_of b) \<longleftrightarrow> js_less a b"
  by (induction a b rule: js_less.induct) (auto simp: units_of_def)

lemma keyset_less_irrefl [simp]: "\<not> keyset_less a a"
  by (simp add: keyset_less_def)

lemma keyset_less_trans: "keyset_less a b \<Longrightarrow> keyset_less b c \<Longrightarrow> keyset_less a c"
  unfolding keyset_less_def by (auto dest: cu_less_trans)

lemma js_find_index_append: "\<forall>x \<in> set xs. \<not> P x \<Longrightarrow> js_find_index P (xs @ ys) = map_option (\<lambda>i. length xs + i) (js_find_index P ys)"
  by (induction xs) (cases "js_find_index P ys"; simp)+

text \<open>Rows in strictly increasing order of \<open>before\<close>, with keys that a token can carry.\<close>

definition pageable :: "(page_cursor \<Rightarrow> page_cursor \<Rightarrow> bool) \<Rightarrow> 'a list \<Rightarrow> ('a \<Rightarrow> page_cursor) \<Rightarrow> bool" where
  "pageable before rows keyset \<longleftrightarrow> sorted_wrt before (map keyset rows) \<and> list_all (\<lambda>r. valid_cursor (keyset r)) rows"

lemma clampPageLimit_bounds: "0 < clampPageLimit l" "clampPageLimit l \<le> 100"
  by (auto simp: clampPageLimit_def split: option.split)

lemma last_take: "0 < n \<Longrightarrow> n < length xs \<Longrightarrow> last (take n xs) = xs ! (n - 1)"
  by (cases n) (simp_all add: take_Suc_conv_app_nth)

lemma page_window_at:
  assumes "(case (case decodeCursor (pp_cursor params) of None \<Rightarrow> Some 0
      | Some c \<Rightarrow> js_find_index (\<lambda>row. behind c (keyset row)) rows) of None \<Rightarrow> length rows | Some i \<Rightarrow> i) = i" "i \<le> length rows"
  shows "page_window behind rows params keyset = page_of (clampPageLimit (pp_limit params)) (\<lambda>r. encodeCursor (keyset r)) (drop i rows)"
proof (cases "i + clampPageLimit (pp_limit params) < length rows")
  case True
  then have "clampPageLimit (pp_limit params) < length (drop i rows)" by simp
  with True clampPageLimit_bounds(1) [of "pp_limit params"] show ?thesis
    unfolding page_window_def Let_def assms(1) page_of_def by (simp add: last_take)
next
  case False
  then show ?thesis unfolding page_window_def Let_def assms(1) page_of_def by simp
qed

lemma page_window_first:
  "page_window behind rows \<lparr>pp_limit = l, pp_cursor = None\<rparr> keyset = page_of (clampPageLimit l) (\<lambda>r. encodeCursor (keyset r)) rows"
  by (subst page_window_at [of _ _ _ _ 0]) (simp_all add: decodeCursor_def)

lemma page_window_next:
  assumes irrefl: "\<And>a. \<not> behind a a" and trans: "\<And>a b c. behind a b \<Longrightarrow> behind b c \<Longrightarrow> behind a c"
    and rows: "pageable behind rows keyset" "rows = xs @ x # ys"
  shows "page_window behind rows \<lparr>pp_limit = l, pp_cursor = Some (encodeCursor (keyset x))\<rparr> keyset
    = page_of (clampPageLimit l) (\<lambda>r. encodeCursor (keyset r)) ys"
proof -
  let ?c = "keyset x"
  have "valid_cursor ?c" using rows by (simp add: pageable_def)
  then have dec: "decodeCursor (Some (encodeCursor ?c)) = Some ?c" by (rule decode_encode_cursor)
  have before: "\<not> behind ?c (keyset r)" if "r \<in> set (xs @ [x])" for r
    using that rows irrefl trans [of "keyset x" "keyset r" "keyset x"] by (auto simp: pageable_def sorted_wrt_append)
  have idx: "(case js_find_index (\<lambda>row. behind ?c (keyset row)) rows of None \<Rightarrow> length rows | Some i \<Rightarrow> i) = length (xs @ [x])"
  proof (cases ys)
    case Nil
    then show ?thesis using before js_find_index_append [of "xs @ [x]" "\<lambda>row. behind ?c (keyset row)" "[]"] rows(2) by auto
  next
    case (Cons y zs)
    then have "behind ?c (keyset y)" using rows by (simp add: pageable_def sorted_wrt_append)
    then show ?thesis using before js_find_index_append [of "xs @ [x]" "\<lambda>row. behind ?c (keyset row)" ys] rows(2) Cons by auto
  qed
  show ?thesis
    by (subst page_window_at [of _ _ _ _ "length (xs @ [x])"]) (use idx rows(2) in \<open>simp_all add: dec\<close>)
qed
text \<open>A request is the sorted rows, the limit and the projection on the key.\<close>

interpretation ascending: keyset_pages
  "\<lambda>(rows, l, keyset) tok. pageSortedBy rows \<lparr>pp_limit = l, pp_cursor = tok\<rparr> keyset"
  "\<lambda>(rows, l, keyset). rows" "\<lambda>(rows, l, keyset). clampPageLimit l" "\<lambda>(rows, l, keyset) row. encodeCursor (keyset row)"
  "\<lambda>(rows, l, keyset). pageable keyset_less rows keyset"
proof (unfold_locales, goal_cases)
  case (1 r)
  then show ?case by (simp add: clampPageLimit_bounds split: prod.split)
next
  case (2 r)
  then show ?case by (simp add: pageSortedBy_def page_window_first split: prod.split)
next
  case (3 r xs x ys)
  obtain rows l keyset where r: "r = (rows, l, keyset)" by (cases r)
  show ?case using 3 page_window_next [of keyset_less rows keyset xs x ys l] keyset_less_trans
    unfolding r by (simp add: pageSortedBy_def)
qed

interpretation descending: keyset_pages
  "\<lambda>(rows, l) tok. pageSortedDesc rows \<lparr>pp_limit = l, pp_cursor = tok\<rparr>"
  "\<lambda>(rows, l). rows" "\<lambda>(rows, l). clampPageLimit l" "\<lambda>(rows, l) row. encodeCursor (cursor_of_row row)"
  "\<lambda>(rows, l). pageable (\<lambda>a b. keyset_less b a) rows cursor_of_row"
proof (unfold_locales, goal_cases)
  case (1 r)
  then show ?case by (simp add: clampPageLimit_bounds split: prod.split)
next
  case (2 r)
  then show ?case by (simp add: pageSortedDesc_def page_window_first split: prod.split)
next
  case (3 r xs x ys)
  obtain rows l where r: "r = (rows, l)" by (cases r)
  show ?case using 3 page_window_next [of "\<lambda>a b. keyset_less b a" rows cursor_of_row xs x ys l] keyset_less_trans
    unfolding r by (simp add: pageSortedDesc_def)
qed

lemma pageSorted_by: "pageSorted rows params = pageSortedBy rows params cursor_of_row"
  by (simp add: pageSorted_def pageSortedBy_def)

section \<open>Pages of a keyset query\<close>

text \<open>\<open>WHERE (createdAt, id) > cursor ORDER BY createdAt, id LIMIT limit + 1\<close> over the same rows.\<close>

definition keyset_query :: "'a list \<Rightarrow> page_cursor option \<Rightarrow> nat \<Rightarrow> ('a \<Rightarrow> page_cursor) \<Rightarrow> 'a list" where
  "keyset_query rows cursor limit keyset =
     take (limit + 1) (case cursor of None \<Rightarrow> rows | Some c \<Rightarrow> filter (\<lambda>row. keyset_less c (keyset row)) rows)"

lemma probe_page_of:
  "0 < limit \<Longrightarrow> pageFromProbeBy (take (limit + 1) ys) limit keyset = page_of limit (\<lambda>r. encodeCursor (keyset r)) ys"
proof (cases "length ys \<le> limit")
  case False
  assume "0 < limit"
  with False show ?thesis by (auto simp: pageFromProbeBy_def page_of_def Let_def last_take min_def)
qed (simp add: pageFromProbeBy_def page_of_def)

lemma find_index_sorted:
  assumes "\<And>a b. P a \<Longrightarrow> R a b \<Longrightarrow> P b" "sorted_wrt R xs"
  shows "drop (case js_find_index P xs of None \<Rightarrow> length xs | Some i \<Rightarrow> i) xs = filter P xs"
    "(case js_find_index P xs of None \<Rightarrow> length xs | Some i \<Rightarrow> i) \<le> length xs"
  using assms(2)
proof (induction xs)
  case (Cons x xs)
  {
    case 1
    have "P x \<Longrightarrow> \<forall>y \<in> set xs. P y" using 1 assms(1) by auto
    then show ?case using 1 Cons(1) by (auto simp: filter_id_conv split: option.splits)
  next
    case 2
    then show ?case using Cons(2) by (auto split: option.splits)
  }
qed simp_all

lemma pageSortedBy_probe:
  assumes "sorted_wrt keyset_less (map keyset rows)"
  shows "pageSortedBy rows params keyset =
    pageFromProbeBy (keyset_query rows (decodeCursor (pp_cursor params)) (clampPageLimit (pp_limit params)) keyset)
      (clampPageLimit (pp_limit params)) keyset"
proof (cases "decodeCursor (pp_cursor params)")
  case None
  then show ?thesis
    unfolding pageSortedBy_def keyset_query_def None option.case probe_page_of [OF clampPageLimit_bounds(1)]
    by (subst page_window_at [where i = 0]) (simp_all add: None)
next
  case (Some c)
  have sorted: "sorted_wrt (\<lambda>a b. keyset_less (keyset a) (keyset b)) rows" using assms by (simp add: sorted_wrt_map)
  note idx = find_index_sorted [of "\<lambda>row. keyset_less c (keyset row)", OF keyset_less_trans sorted]
  show ?thesis
    unfolding pageSortedBy_def keyset_query_def Some option.case probe_page_of [OF clampPageLimit_bounds(1)]
    by (subst page_window_at [OF _ idx(2)]) (simp_all add: Some idx(1))
qed

end
