(* ===== verification/App_Access.thy ===== *)
theory App_Access
  imports App_Ownership Pagination
begin

text \<open>
  What a person sees and may do: the pages of the Capsule and Source lists of a Workspace
  (\<open>listCapsulesPage\<close>, \<open>listSourcesPage\<close> and \<open>listConnectionsPage\<close> of the in-memory control store) and of the accessible apps
  (\<open>listAccessibleApps\<close>). Shown: the deciders agree with one another, and following the page tokens
  returns every row once. The pages of apps and of Capsules are interpretations of \<open>keyset_pages\<close>.
\<close>

section \<open>Lists of a Workspace in pages\<close>

definition capsule_key :: "capsule \<Rightarrow> page_cursor" where
  "capsule_key c = \<lparr>pc_createdAt = units_of (cap_createdAt c), pc_id = units_of (cap_id c)\<rparr>"

definition visible_capsules ::
    "(string \<Rightarrow> string \<Rightarrow> int) \<Rightarrow> app_store \<Rightarrow> string \<Rightarrow> bool option \<Rightarrow> app_list_viewer option \<Rightarrow> capsule list" where
  "visible_capsules localeCompare s ws includeDestroyed viewer =
     (let rows = filter (\<lambda>c. case viewer of None \<Rightarrow> True | Some v \<Rightarrow> \<not> hidden_capsule s v (Some (cap_id c)))
                   (listCapsules localeCompare s (Some ws))
      in if includeDestroyed = Some False then filter (\<lambda>c. cap_status c \<noteq> ''destroyed'') rows else rows)"

definition listCapsulesPage ::
    "(string \<Rightarrow> string \<Rightarrow> int) \<Rightarrow> app_store \<Rightarrow> string \<Rightarrow> page_params \<Rightarrow> bool option \<Rightarrow> app_list_viewer option
     \<Rightarrow> capsule list \<times> string option" where
  "listCapsulesPage localeCompare s ws params includeDestroyed viewer =
     pageSortedBy (visible_capsules localeCompare s ws includeDestroyed viewer) params capsule_key"

definition source_key :: "source_row \<Rightarrow> page_cursor" where
  "source_key r = \<lparr>pc_createdAt = units_of (src_createdAt r), pc_id = units_of (src_id r)\<rparr>"

definition listSources :: "(string \<Rightarrow> string \<Rightarrow> int) \<Rightarrow> app_store \<Rightarrow> string option \<Rightarrow> source_row list" where
  "listSources localeCompare s ws =
     js_sort (created_order localeCompare src_createdAt src_id)
       (case ws of None \<Rightarrow> js_values (sources s)
        | Some w \<Rightarrow> filter (\<lambda>r. src_workspaceId r = w) (js_values (sources s)))"

definition listSourcesPage ::
    "(string \<Rightarrow> string \<Rightarrow> int) \<Rightarrow> app_store \<Rightarrow> string \<Rightarrow> page_params \<Rightarrow> app_list_viewer option \<Rightarrow> source_row list \<times> string option" where
  "listSourcesPage localeCompare s ws params viewer =
     pageSortedBy (filter (\<lambda>r. case viewer of None \<Rightarrow> True | Some v \<Rightarrow> \<not> hidden_source s v (Some r))
       (listSources localeCompare s (Some ws))) params source_key"

definition connection_key :: "connection_row \<Rightarrow> page_cursor" where
  "connection_key r = \<lparr>pc_createdAt = units_of (cn_createdAt r), pc_id = units_of (cn_id r)\<rparr>"

definition listConnections :: "(string \<Rightarrow> string \<Rightarrow> int) \<Rightarrow> app_store \<Rightarrow> string \<Rightarrow> connection_row list" where
  "listConnections localeCompare s ws =
     js_sort (created_order localeCompare cn_createdAt cn_id)
       (filter (\<lambda>r. cn_workspaceId r = Some ws) (js_values (connections s)))"

definition listConnectionsPage ::
    "(string \<Rightarrow> string \<Rightarrow> int) \<Rightarrow> app_store \<Rightarrow> string \<Rightarrow> page_params \<Rightarrow> connection_row list \<times> string option" where
  "listConnectionsPage localeCompare s ws params = pageSortedBy (listConnections localeCompare s ws) params connection_key"

section \<open>The order of the lists\<close>

text \<open>The lists are sorted by \<open>localeCompare\<close>, the tokens are compared by code units; the pages are right
  when the two orders agree on the strings at hand.\<close>

definition agrees_with_code_units :: "(string \<Rightarrow> string \<Rightarrow> int) \<Rightarrow> string list \<Rightarrow> bool" where
  "agrees_with_code_units localeCompare xs \<longleftrightarrow>
     list_all (\<lambda>a. list_all (\<lambda>b. (localeCompare a b < 0 \<longleftrightarrow> js_less a b) \<and> (localeCompare a b = 0 \<longleftrightarrow> a = b)) xs) xs"

lemma js_insert_cong:
  "(\<And>y. y \<in> set ys \<Longrightarrow> cmp x y \<le> 0 \<longleftrightarrow> cmp' x y \<le> 0) \<Longrightarrow> js_insert cmp x ys = js_insert cmp' x ys"
  by (induction ys) auto

lemma js_sort_cong:
  "(\<And>x y. x \<in> set xs \<Longrightarrow> y \<in> set xs \<Longrightarrow> cmp x y \<le> 0 \<longleftrightarrow> cmp' x y \<le> 0) \<Longrightarrow> js_sort cmp xs = js_sort cmp' xs"
proof (induction xs)
  case (Cons x xs)
  then have "js_sort cmp xs = js_sort cmp' xs" by simp
  then show ?case using Cons.prems js_insert_cong [of "js_sort cmp' xs" cmp x cmp'] by simp
qed simp

lemma created_order_le:
  "created_order code_unit_compare f g a b \<le> 0 \<longleftrightarrow> js_less (f a) (f b) \<or> f a = f b \<and> js_le (g a) (g b)"
  using js_less_linear [of "g a" "g b"] js_less_trans [of "g a" "g b" "g a"]
  by (auto simp: created_order_def Let_def code_unit_le code_unit_compare_def js_le_def)

lemma created_order_comparator: "js_comparator (created_order code_unit_compare f g)"
  unfolding js_comparator_def created_order_le
  by (metis js_le_total js_le_trans js_less_linear js_less_trans)

lemma sort_agrees:
  assumes "agrees_with_code_units localeCompare (map f xs)" "agrees_with_code_units localeCompare (map g xs)"
  shows "js_sort (created_order localeCompare f g) xs = js_sort (created_order code_unit_compare f g) xs"
proof (rule js_sort_cong)
  fix a b
  assume ab: "a \<in> set xs" "b \<in> set xs"
  then have "(localeCompare (f a) (f b) < 0 \<longleftrightarrow> js_less (f a) (f b)) \<and> (localeCompare (f a) (f b) = 0 \<longleftrightarrow> f a = f b)"
    "(localeCompare (g a) (g b) < 0 \<longleftrightarrow> js_less (g a) (g b)) \<and> (localeCompare (g a) (g b) = 0 \<longleftrightarrow> g a = g b)"
    using assms by (auto simp: agrees_with_code_units_def list_all_iff)
  then show "created_order localeCompare f g a b \<le> 0 \<longleftrightarrow> created_order code_unit_compare f g a b \<le> 0"
    using js_less_linear [of "g a" "g b"] js_less_trans [of "g a" "g b" "g a"]
    unfolding created_order_le by (auto simp: created_order_def Let_def js_le_def)
qed

lemma units_of_inj: "units_of a = units_of b \<longleftrightarrow> a = b"
  by (simp add: units_of_def inj_map_eq_map inj_def)

lemma valid_string_cursor: "valid_cursor \<lparr>pc_createdAt = units_of a, pc_id = units_of b\<rparr>"
proof -
  have "(of_char c :: nat) < 0x10000" for c by (rule less_trans [OF nat_of_char_less_256]) simp
  then show ?thesis by (simp add: valid_cursor_def units_of_def list_all_iff)
qed

lemma sorted_wrt_distinct_key: "sorted_wrt R ys \<Longrightarrow> distinct (map g ys) \<Longrightarrow> sorted_wrt (\<lambda>a b. R a b \<and> g a \<noteq> g b) ys"
  by (induction ys) auto

text \<open>A sorted list of rows with distinct ids, and any filter of it, can be paged.\<close>

lemma sorted_rows_pageable:
  assumes "distinct (map g xs)" "agrees_with_code_units localeCompare (map f xs)" "agrees_with_code_units localeCompare (map g xs)"
  shows "pageable keyset_less (filter P (js_sort (created_order localeCompare f g) xs)) (\<lambda>r. \<lparr>pc_createdAt = units_of (f r), pc_id = units_of (g r)\<rparr>)"
proof -
  let ?cmp = "created_order code_unit_compare f g" and ?key = "\<lambda>r. \<lparr>pc_createdAt = units_of (f r), pc_id = units_of (g r)\<rparr>"
  let ?s = "js_sort (created_order localeCompare f g) xs"
  have eq: "?s = js_sort ?cmp xs" by (rule sort_agrees [OF assms(2,3)])
  have dist: "distinct (map g (js_sort ?cmp xs))" using assms(1) by (simp add: distinct_map distinct_js_sort)
  from sorted_wrt_distinct_key [OF js_sort_sorted [OF created_order_comparator] dist]
  have "sorted_wrt (\<lambda>a b. ?cmp a b \<le> 0 \<and> g a \<noteq> g b) (js_sort ?cmp xs)" .
  then have "sorted_wrt (\<lambda>a b. keyset_less (?key a) (?key b)) (js_sort ?cmp xs)"
    by (rule sorted_wrt_mono_rel [rotated])
      (use js_less_linear in \<open>auto simp: created_order_le keyset_less_def cu_less_units units_of_inj js_le_def\<close>)
  then show ?thesis
    unfolding pageable_def eq by (simp add: sorted_wrt_map sorted_wrt_filter list_all_iff valid_string_cursor)
qed
text \<open>A request for the Capsules of a Workspace.\<close>

record capsules_request =
  cr_store :: app_store
  cr_workspace :: string
  cr_limit :: "int option"
  cr_includeDestroyed :: "bool option"
  cr_viewer :: "app_list_viewer option"

definition capsule_order_ok :: "(string \<Rightarrow> string \<Rightarrow> int) \<Rightarrow> app_store \<Rightarrow> bool" where
  "capsule_order_ok localeCompare s \<longleftrightarrow> agrees_with_code_units localeCompare (map cap_createdAt (js_values (capsules s)))
     \<and> agrees_with_code_units localeCompare (map cap_id (js_values (capsules s)))"

lemma app_ok_distinct_ids: "app_ok s \<Longrightarrow> distinct (map cap_id (js_values (capsules s)))"
proof -
  assume ok: "app_ok s"
  have "map cap_id (js_values (capsules s)) = js_keys (capsules s)"
    using ok by (auto simp: app_ok_def list_all_iff js_values_def js_keys_def)
  then show ?thesis using ok by (simp add: app_ok_def js_wf_def)
qed

lemma agrees_subset: "agrees_with_code_units localeCompare ys \<Longrightarrow> set xs \<subseteq> set ys \<Longrightarrow> agrees_with_code_units localeCompare xs"
  by (auto simp: agrees_with_code_units_def list_all_iff)

lemma visible_capsules_pageable:
  assumes "app_ok s" "capsule_order_ok localeCompare s"
  shows "pageable keyset_less (visible_capsules localeCompare s ws d viewer) capsule_key"
proof -
  let ?xs = "filter (\<lambda>c. cap_workspaceId c = ws) (js_values (capsules s))"
  have "distinct (map cap_id ?xs)" using app_ok_distinct_ids [OF assms(1)] by (rule distinct_map_filter)
  moreover have "agrees_with_code_units localeCompare (map cap_createdAt ?xs)"
    by (rule agrees_subset [OF conjunct1 [OF assms(2) [unfolded capsule_order_ok_def]]]) auto
  moreover have "agrees_with_code_units localeCompare (map cap_id ?xs)"
    by (rule agrees_subset [OF conjunct2 [OF assms(2) [unfolded capsule_order_ok_def]]]) auto
  ultimately have "pageable keyset_less (filter P (listCapsules localeCompare s (Some ws))) capsule_key" for P
    using sorted_rows_pageable [of cap_id ?xs localeCompare cap_createdAt P] unfolding listCapsules_def option.case capsule_key_def by simp
  then show ?thesis unfolding visible_capsules_def Let_def by (simp add: filter_filter)
qed

interpretation capsule_pages: keyset_pages
  "\<lambda>(localeCompare, r) tok. listCapsulesPage localeCompare (cr_store r) (cr_workspace r)
     \<lparr>pp_limit = cr_limit r, pp_cursor = tok\<rparr> (cr_includeDestroyed r) (cr_viewer r)"
  "\<lambda>(localeCompare, r). visible_capsules localeCompare (cr_store r) (cr_workspace r) (cr_includeDestroyed r) (cr_viewer r)"
  "\<lambda>(localeCompare, r). clampPageLimit (cr_limit r)" "\<lambda>(localeCompare, r) c. encodeCursor (capsule_key c)"
  "\<lambda>(localeCompare, r). app_ok (cr_store r) \<and> capsule_order_ok localeCompare (cr_store r)"
proof (unfold_locales, goal_cases)
  case (1 p)
  then show ?case by (auto simp: clampPageLimit_bounds split: prod.split)
next
  case (2 p)
  obtain localeCompare r where p: "p = (localeCompare, r)" by (cases p)
  show ?case unfolding p listCapsulesPage_def pageSortedBy_def by (simp add: page_window_first)
next
  case (3 p xs x ys)
  obtain localeCompare r where p: "p = (localeCompare, r)" by (cases p)
  from 3 have "pageable keyset_less (visible_capsules localeCompare (cr_store r) (cr_workspace r) (cr_includeDestroyed r) (cr_viewer r)) capsule_key"
    unfolding p by (intro visible_capsules_pageable) simp_all
  from page_window_next [OF _ keyset_less_trans this] 3(2) show ?case unfolding p listCapsulesPage_def pageSortedBy_def by simp
qed

section \<open>Pages of accessible apps\<close>

text \<open>All accessible apps in the order of their ids.\<close>

definition accessible_apps :: "(string \<Rightarrow> string \<Rightarrow> int) \<Rightarrow> app_store \<Rightarrow> string \<Rightarrow> app_access list" where
  "accessible_apps localeCompare s accountId = List.map_filter (\<lambda>c. resolveAppAccess s accountId (cap_id c)) (capsules_by_id localeCompare s)"

lemma resolveAppAccess_id:
  assumes "resolveAppAccess s a k = Some acc" shows "acc_capsuleId acc = k" "k \<noteq> []"
  using assms by (auto simp: resolveAppAccess_def Let_def split: if_split_asm option.split_asm)

lemma accessible_loop_page:
  assumes "0 < limit" "length apps \<le> limit" "\<And>k acc. access k = Some acc \<Longrightarrow> acc_capsuleId acc = k"
  shows "accessible_loop access cursor limit cs apps =
    (let rest = List.map_filter (\<lambda>c. access (cap_id c)) (filter (\<lambda>c. falsy cursor \<or> \<not> js_le (cap_id c) (the cursor)) cs)
     in (apps @ take (limit - length apps) rest,
         if limit < length (apps @ rest) then Some (acc_capsuleId ((apps @ rest) ! (limit - 1))) else None))"
  using assms(2)
proof (induction cs arbitrary: apps)
  case Nil
  then show ?case by (simp add: map_filter_def)
next
  case (Cons c cs)
  let ?skip = "\<not> falsy cursor \<and> js_le (cap_id c) (the cursor)"
  show ?case
  proof (cases "?skip \<or> access (cap_id c) = None")
    case True
    then show ?thesis using Cons by (auto simp: map_filter_def Let_def)
  next
    case False
    then obtain a where a: "access (cap_id c) = Some a" by auto
    let ?rest = "List.map_filter (\<lambda>c. access (cap_id c)) (filter (\<lambda>c. falsy cursor \<or> \<not> js_le (cap_id c) (the cursor)) cs)"
    have rest: "List.map_filter (\<lambda>c. access (cap_id c)) (filter (\<lambda>c. falsy cursor \<or> \<not> js_le (cap_id c) (the cursor)) (c # cs)) = a # ?rest"
      using False a by (simp add: map_filter_def)
    show ?thesis
    proof (cases "length apps = limit")
      case True
      then have "last apps = (apps @ a # ?rest) ! (limit - 1)" using assms(1)
        by (metis One_nat_def diff_less last_conv_nth length_greater_0_conv nth_append zero_less_one)
      then show ?thesis unfolding rest using True False a by auto
    next
      case neq: False
      then have len: "length (apps @ [a]) \<le> limit" using Cons.prems by simp
      have step: "accessible_loop access cursor limit (c # cs) apps = accessible_loop access cursor limit cs (apps @ [a])"
        using False a neq by auto
      have tk: "take (limit - length apps) (a # ?rest) = a # take (limit - length (apps @ [a])) ?rest"
        using neq Cons.prems by (simp add: take_Cons')
      show ?thesis unfolding step Cons.IH [OF len] rest Let_def tk by simp
    qed
  qed
qed

lemma map_filter_filter:
  assumes "\<And>c acc. access c = Some acc \<Longrightarrow> P c \<longleftrightarrow> Q acc"
  shows "List.map_filter access (filter P cs) = filter Q (List.map_filter access cs)"
proof (induction cs)
  case (Cons c cs)
  then show ?case using assms [of c] by (cases "access c") (auto simp: map_filter_simps)
qed (simp add: map_filter_simps)

lemma set_map_filter_iff: "y \<in> set (List.map_filter f xs) \<longleftrightarrow> (\<exists>x \<in> set xs. f x = Some y)"
proof (induction xs)
  case (Cons x xs)
  then show ?case by (cases "f x") (auto simp: map_filter_simps)
qed (simp add: map_filter_simps)

lemma listAccessibleApps_page:
  "listAccessibleApps localeCompare s a cursor limit =
     page_of (appListLimit limit) acc_capsuleId
       (filter (\<lambda>acc. falsy cursor \<or> js_less (the cursor) (acc_capsuleId acc)) (accessible_apps localeCompare s a))"
proof -
  let ?l = "appListLimit limit" and ?r = "\<lambda>c. resolveAppAccess s a (cap_id c)"
  let ?cs = "capsules_by_id localeCompare s"
  let ?rest = "List.map_filter ?r (filter (\<lambda>c. falsy cursor \<or> \<not> js_le (cap_id c) (the cursor)) ?cs)"
  have pos: "0 < ?l" by (simp add: appListLimit_def)
  have "accessible_loop (resolveAppAccess s a) cursor ?l ?cs [] = page_of ?l acc_capsuleId ?rest"
    using accessible_loop_page [OF pos, of "[]" "resolveAppAccess s a" cursor ?cs] resolveAppAccess_id(1)
    by (simp add: page_of_def Let_def)
  moreover have "\<not> falsy (snd (page_of ?l acc_capsuleId ?rest)) \<or> snd (page_of ?l acc_capsuleId ?rest) = None"
  proof (cases "?l < length ?rest")
    case True
    then have "?rest ! (?l - 1) \<in> set ?rest" by simp
    then obtain c :: capsule where "resolveAppAccess s a (cap_id c) = Some (?rest ! (?l - 1))" unfolding set_map_filter_iff by blast
    from resolveAppAccess_id [OF this] show ?thesis by (auto simp: page_of_def falsy_def)
  qed (simp add: page_of_def)
  moreover have "?rest = filter (\<lambda>acc. falsy cursor \<or> js_less (the cursor) (acc_capsuleId acc)) (accessible_apps localeCompare s a)"
    unfolding accessible_apps_def
    by (rule map_filter_filter) (auto simp: js_le_def dest: resolveAppAccess_id(1))
  ultimately show ?thesis
    unfolding listAccessibleApps_def Let_def by (auto simp: page_of_def falsy_def split: if_split_asm)
qed

lemma capsules_by_id_sorted:
  assumes "app_ok s" shows "sorted_wrt (\<lambda>a b. js_less (cap_id a) (cap_id b)) (capsules_by_id localeCompare s)"
proof -
  let ?cmp = "\<lambda>a b. code_unit_compare (cap_id a) (cap_id b)" and ?cs = "listCapsules localeCompare s None"
  have "js_comparator ?cmp" unfolding js_comparator_def code_unit_le using js_le_total js_le_trans by blast
  from js_sort_sorted [OF this, of ?cs] have le: "sorted_wrt (\<lambda>a b. js_le (cap_id a) (cap_id b)) (js_sort ?cmp ?cs)"
    by (simp add: code_unit_le)
  have "distinct (map cap_id ?cs)"
    using app_ok_distinct_ids [OF assms] by (simp add: listCapsules_def distinct_map distinct_js_sort)
  then have "distinct (map cap_id (js_sort ?cmp ?cs))" by (simp add: distinct_map distinct_js_sort)
  from sorted_wrt_distinct_key [OF le this] show ?thesis
    unfolding capsules_by_id_def by (rule sorted_wrt_mono_rel [rotated]) (use js_less_linear in \<open>auto simp: js_le_def\<close>)
qed

lemma set_capsules_by_id: "set (capsules_by_id localeCompare s) = set (js_values (capsules s))"
  by (simp add: capsules_by_id_def listCapsules_def)

lemma accessible_apps_sorted:
  assumes "app_ok s" shows "sorted_wrt (\<lambda>a b. js_less (acc_capsuleId a) (acc_capsuleId b)) (accessible_apps localeCompare s a)"
proof -
  have "sorted_wrt (\<lambda>x y. js_less (acc_capsuleId x) (acc_capsuleId y)) (List.map_filter (\<lambda>c. resolveAppAccess s a (cap_id c)) cs)"
    if "sorted_wrt (\<lambda>a b. js_less (cap_id a) (cap_id b)) cs" for cs :: "capsule list"
    using that
  proof (induction cs)
    case (Cons c cs)
    then show ?case
      by (cases "resolveAppAccess s a (cap_id c)") (auto simp: map_filter_simps set_map_filter_iff dest!: resolveAppAccess_id(1))
  qed (simp add: map_filter_simps)
  then show ?thesis using capsules_by_id_sorted [OF assms] by (simp add: accessible_apps_def)
qed

text \<open>A capsule's id is accessible exactly when its access resolves.\<close>

lemma set_accessible_apps:
  assumes "app_ok s"
  shows "acc \<in> set (accessible_apps localeCompare s a) \<longleftrightarrow> (\<exists>k. resolveAppAccess s a k = Some acc)"
proof
  assume "\<exists>k. resolveAppAccess s a k = Some acc"
  then obtain k where k: "resolveAppAccess s a k = Some acc" by blast
  then obtain c where c: "js_get (capsules s) k = Some c"
    by (auto simp: resolveAppAccess_def getCapsule_def split: if_split_asm option.split_asm)
  from app_ok_capsule [OF assms c] js_values_get [OF c] k show "acc \<in> set (accessible_apps localeCompare s a)"
    by (auto simp: accessible_apps_def set_map_filter_iff set_capsules_by_id)
qed (auto simp: accessible_apps_def set_map_filter_iff)

lemma filter_after:
  assumes "sorted_wrt (\<lambda>a b. js_less (f a) (f b)) (xs @ x # ys)"
  shows "filter (\<lambda>z. js_less (f x) (f z)) (xs @ x # ys) = ys"
proof -
  have "filter (\<lambda>z. js_less (f x) (f z)) xs = []"
    using assms js_less_trans [of "f x" _ "f x"] by (auto simp: sorted_wrt_append filter_empty_conv)
  moreover have "filter (\<lambda>z. js_less (f x) (f z)) ys = ys" using assms by (auto simp: sorted_wrt_append filter_id_conv)
  ultimately show ?thesis by simp
qed

interpretation app_pages: keyset_pages
  "\<lambda>(localeCompare, s, a, l) tok. listAccessibleApps localeCompare s a tok l"
  "\<lambda>(localeCompare, s, a, l). accessible_apps localeCompare s a" "\<lambda>(localeCompare, s, a, l). appListLimit l"
  "\<lambda>(localeCompare, s, a, l). acc_capsuleId" "\<lambda>(localeCompare, s, a, l). app_ok s"
proof (unfold_locales, goal_cases)
  case (1 r)
  then show ?case by (auto simp: appListLimit_def split: prod.split)
next
  case (2 r)
  then show ?case by (auto simp: listAccessibleApps_page falsy_def split: prod.split)
next
  case (3 r xs x ys)
  obtain localeCompare s a l where r: "r = (localeCompare, s, a, l)" by (cases r)
  from 3 have s: "app_ok s" and rows: "accessible_apps localeCompare s a = xs @ x # ys" unfolding r by simp_all
  have "x \<in> set (accessible_apps localeCompare s a)" using rows by simp
  then have "acc_capsuleId x \<noteq> []" using set_accessible_apps [OF s] resolveAppAccess_id by blast
  moreover have "filter (\<lambda>z. js_less (acc_capsuleId x) (acc_capsuleId z)) (accessible_apps localeCompare s a) = ys"
    unfolding rows by (rule filter_after) (use accessible_apps_sorted [OF s, of localeCompare a] rows in simp)
  ultimately show ?case unfolding r by (simp add: listAccessibleApps_page falsy_def)
qed

section \<open>The deciders agree\<close>

lemma set_foldl_add: "set (foldl (\<lambda>acc k. if P k then js_set_add k acc else acc) init xs) = set init \<union> {k \<in> set xs. P k}"
  by (induction xs arbitrary: init) auto

definition hidden_by_roster :: "app_store \<Rightarrow> app_list_viewer \<Rightarrow> string \<Rightarrow> bool" where
  "hidden_by_roster s viewer k \<longleftrightarrow>
     (case getOwnership s k of None \<Rightarrow> False
      | Some own \<Rightarrow> appHiddenFromViewer viewer k (Some (own_ownerAccountId own))
          (own_ownerAccountId own \<noteq> vw_accountId viewer \<and> active_on_roster s k (vw_accountId viewer)))"

lemma listHiddenCapsuleIds_set: "k \<in> set (listHiddenCapsuleIds s viewer ks) \<longleftrightarrow> k \<in> set ks \<and> hidden_by_roster s viewer k"
proof -
  have "listHiddenCapsuleIds s viewer ks =
      foldl (\<lambda>hidden k. if hidden_by_roster s viewer k then js_set_add k hidden else hidden) [] (js_dedup ks)"
    unfolding listHiddenCapsuleIds_def
    by (rule foldl_cong) (auto simp: hidden_by_roster_def readOwnershipFence_def Let_def split: option.split)
  then show ?thesis by (simp add: set_foldl_add)
qed

lemma listOwnedCapsuleIds_set: "k \<in> set (listOwnedCapsuleIds s ks) \<longleftrightarrow> k \<in> set ks \<and> getOwnership s k \<noteq> None"
  unfolding listOwnedCapsuleIds_def set_foldl_add by (simp add: readOwnershipFence_def)

lemma hidden_capsule_roster:
  assumes "app_ok s" "k \<noteq> []" shows "hidden_capsule s viewer (Some k) \<longleftrightarrow> hidden_by_roster s viewer k"
proof (cases "js_get (capsuleOwnership s) k")
  case None
  then show ?thesis using assms(2)
    by (simp add: hidden_capsule_def hidden_by_roster_def getOwnership_def getCapsuleOwnership_def appHiddenFromViewer_def falsy_def)
next
  case (Some own)
  from active_on_roster_lookup [OF assms(1) app_ok_owned(3) [OF assms(1) Some], of "vw_accountId viewer"] assms(2) Some
  show ?thesis
    by (auto simp: hidden_capsule_def hidden_by_roster_def getOwnership_def getCapsuleOwnership_def appHiddenFromViewer_def falsy_def)
qed

lemma hidden_by_roster_access:
  assumes "js_get (capsules s) k = Some c" "cap_status c \<noteq> ''destroyed''" "js_get (capsuleOwnership s) k = Some own"
    "own_ownerAccountId own \<noteq> []" "k \<noteq> []" "vw_accountId viewer \<noteq> []"
  shows "hidden_by_roster s viewer k \<longleftrightarrow>
    resolveAppAccess s (vw_accountId viewer) k = None \<or> (\<exists>ids. vw_appIds viewer = Some ids \<and> k \<notin> set ids)"
  using assms
  by (auto simp: hidden_by_roster_def resolveAppAccess_def getCapsule_def getOwnership_def getCapsuleOwnership_def
    appHiddenFromViewer_def falsy_def Let_def split: option.splits)

lemma resolve_owned:
  assumes "js_get (capsuleOwnership s) k = Some own" "resolveAppAccess s a k = Some acc"
  shows "acc_capsuleId acc = k" "acc_ownerAccountId acc = own_ownerAccountId own" "acc_ownershipEpoch acc = own_ownershipEpoch own"
    "acc_role acc = AppOwner \<longleftrightarrow> a = own_ownerAccountId own"
  using assms by (auto simp: resolveAppAccess_def getOwnership_def getCapsuleOwnership_def Let_def split: if_split_asm option.split_asm)

lemma decide_interface:
  assumes "js_get (capsuleOwnership s) k = Some own"
  shows "decideInterfaceAppAccess (Inr (getOwnership s k)) (Inr (resolveAppAccess s a k)) k action =
    Some (case resolveAppAccess s a k of None \<Rightarrow> False | Some acc \<Rightarrow> appActionAllowed (acc_role acc) action)"
  using assms resolve_owned(1-3) [OF assms]
  by (auto simp: decideInterfaceAppAccess_def getOwnership_def getCapsuleOwnership_def split: option.split)

end
