(* ===== verification/App_Backfill.thy ===== *)
theory App_Backfill
  imports App_Access
begin

text \<open>
  The backfill of app ownership, \<open>core/domains/app-ownership/backfill.ts\<close>: the read-only inventory
  (\<open>planAppOwnershipBackfill\<close>) and its application in batches (\<open>applyAppOwnershipBackfill\<close>) over the in-memory stores. A throw
  in the middle of a batch leaves the writes made before it, so the application returns its
  outcome beside the store. \<open>stableJsonDigest\<close> of the inventory (SHA-256 of the platform) is the argument \<open>digest\<close>.
\<close>

section \<open>The inventory\<close>

datatype backfill_write =
    WriteOwnership capsule_ownership
  | WriteMember capsule_member
  | WriteConnection string string
  | WriteUsage string string
  | WriteBilling account_billing

datatype usage_reason = CapsuleMissing | WorkspaceMismatch

record backfill_plan =
  bp_writes :: "backfill_write list"
  bp_confirmationRequired :: "(string \<times> string \<times> string list \<times> string) list"
  bp_collisions :: "((string \<times> string \<times> string) \<times> string list) list"
  bp_billingConflicts :: "(string \<times> string list) list"
  bp_orphanCapsules :: "(string \<times> string) list"
  bp_unresolvedUsagePayers :: "(string \<times> string \<times> string \<times> usage_reason) list"
  bp_transferredAppUsage :: "(string \<times> string) list"

text \<open>The variables of the loop: the lists of the plan so far, the transferred apps, the names and bindings
  by owner and the owner of each Capsule.\<close>

record inventory = backfill_plan +
  iv_transferredCapsuleIds :: "string list"
  iv_names :: "(string \<times> string \<times> string, string list) js_map"
  iv_billings :: "(string, (string \<times> account_billing) list) js_map"
  iv_ownerByCapsuleId :: "(string, string) js_map"

definition listWorkspaces :: "(string \<Rightarrow> string \<Rightarrow> int) \<Rightarrow> app_store \<Rightarrow> workspace list" where
  "listWorkspaces localeCompare s = js_sort (created_order localeCompare ws_createdAt ws_id) (js_values (workspaces s))"

definition listWorkspaceMembers :: "(string \<Rightarrow> string \<Rightarrow> int) \<Rightarrow> app_store \<Rightarrow> string \<Rightarrow> member list" where
  "listWorkspaceMembers localeCompare s ws =
     js_sort (created_order localeCompare mem_createdAt mem_id)
       (filter (\<lambda>m. mem_workspaceId m = ws) (js_values (workspaceMembers s)))"

definition listUsageEvents :: "(string \<Rightarrow> string \<Rightarrow> int) \<Rightarrow> app_store \<Rightarrow> string \<Rightarrow> usage_event list" where
  "listUsageEvents localeCompare s ws =
     js_sort (created_order localeCompare ue_createdAt ue_id)
       (filter (\<lambda>e. ue_workspaceId e = ws) (js_values (usageEvents s)))"

definition capsuleScopeRef :: "capsule \<Rightarrow> store_error + string" where
  "capsuleScopeRef c =
     (case cap_scopeRef c of None \<Rightarrow> Inr (cap_workspaceId c)
      | Some r \<Rightarrow> if r = [] then Inl (TypeError ''Capsule scopeRef is invalid'') else Inr r)"

definition by_locale :: "(string \<Rightarrow> string \<Rightarrow> int) \<Rightarrow> ('a \<Rightarrow> string) \<Rightarrow> 'a list \<Rightarrow> 'a list" where
  "by_locale localeCompare key xs = js_sort (\<lambda>a b. localeCompare (key a) (key b)) xs"

definition confirmation :: "workspace \<Rightarrow> member list \<Rightarrow> (string \<times> string \<times> string list \<times> string) list" where
  "confirmation w members =
     map (\<lambda>m. (ws_id w, mem_accountId m, mem_roles m, mem_status m))
       (filter (\<lambda>m. mem_accountId m \<noteq> ws_ownerUserId w \<and> \<not> manages_workspace m) members)"

definition legacy_root :: "string \<Rightarrow> capsule \<Rightarrow> string" where
  "legacy_root scope c = ''workspaces/'' @ scope @ ''/capsules/'' @ cap_id c"

definition backfill_owner :: "app_store \<Rightarrow> workspace \<Rightarrow> capsule \<Rightarrow> string" where
  "backfill_owner s w c =
     (case getOwnership s (cap_id c) of None \<Rightarrow> ws_ownerUserId w | Some existing \<Rightarrow> own_ownerAccountId existing)"

definition ownership_write :: "app_store \<Rightarrow> workspace \<Rightarrow> string \<Rightarrow> capsule \<Rightarrow> backfill_write list" where
  "ownership_write s w scope c =
     (if getOwnership s (cap_id c) = None
      then [WriteOwnership \<lparr>own_capsuleId = cap_id c, own_ownerAccountId = backfill_owner s w c, own_ownershipEpoch = 0,
              own_managementState = Active, own_managementEpoch = 0, own_storageRoot = legacy_root scope c\<rparr>]
      else [])"

definition backfills_roster :: "app_store \<Rightarrow> workspace \<Rightarrow> string \<Rightarrow> capsule \<Rightarrow> bool" where
  "backfills_roster s w scope c =
     (case getOwnership s (cap_id c) of None \<Rightarrow> True
      | Some existing \<Rightarrow> own_ownerAccountId existing = ws_ownerUserId w \<and> own_ownershipEpoch existing = 0
                         \<and> own_storageRoot existing = legacy_root scope c)"

definition member_writes :: "app_store \<Rightarrow> workspace \<Rightarrow> string \<Rightarrow> member list \<Rightarrow> capsule \<Rightarrow> backfill_write list" where
  "member_writes s w scope members c =
     (if backfills_roster s w scope c
      then map (\<lambda>m. WriteMember \<lparr>cm_capsuleId = cap_id c, cm_accountId = mem_accountId m, cm_status = ''active'',
                      cm_addedBy = Some (backfill_owner s w c), cm_createdAt = mem_createdAt m, cm_updatedAt = mem_updatedAt m\<rparr>)
             (filter (\<lambda>m. \<not> (mem_accountId m = backfill_owner s w c \<or> \<not> manages_workspace m
                            \<or> list_ex (\<lambda>r. cm_accountId r = mem_accountId m) (listMembers s (cap_id c)))) members)
      else [])"

definition inventory_capsule ::
    "app_store \<Rightarrow> workspace \<Rightarrow> member list \<Rightarrow> capsule \<Rightarrow> inventory \<Rightarrow> store_error + inventory" where
  "inventory_capsule s w members c iv =
     chain (capsuleScopeRef c) (\<lambda>scope.
       let owner = backfill_owner s w c; key = (owner, cap_slug c, cap_environment c) in
       Inr (iv\<lparr>bp_writes := bp_writes iv @ ownership_write s w scope c @ member_writes s w scope members c,
               iv_ownerByCapsuleId := js_set (cap_id c) owner (iv_ownerByCapsuleId iv),
               iv_transferredCapsuleIds :=
                 (if (case getOwnership s (cap_id c) of None \<Rightarrow> 0 | Some e \<Rightarrow> own_ownershipEpoch e) \<noteq> 0
                  then js_set_add (cap_id c) (iv_transferredCapsuleIds iv) else iv_transferredCapsuleIds iv),
               iv_names :=
                 (if cap_status c \<noteq> ''destroyed''
                  then js_set key ((case js_get (iv_names iv) key of None \<Rightarrow> [] | Some ids \<Rightarrow> ids) @ [cap_id c]) (iv_names iv)
                  else iv_names iv)\<rparr>))"

fun inventory_all :: "('x \<Rightarrow> 'st \<Rightarrow> store_error + 'st) \<Rightarrow> 'x list \<Rightarrow> 'st \<Rightarrow> store_error + 'st" where
  "inventory_all step [] iv = Inr iv"
| "inventory_all step (x # xs) iv = chain (step x iv) (inventory_all step xs)"

definition connection_writes :: "workspace \<Rightarrow> connection_row list \<Rightarrow> backfill_write list" where
  "connection_writes w rows =
     map (\<lambda>c. WriteConnection (cn_id c) (ws_ownerUserId w))
       (filter (\<lambda>c. cn_scope c \<noteq> ''operator'' \<and> cn_workspaceId c = Some (ws_id w) \<and> falsy (cn_ownerAccountId c)) rows)"

definition inventory_event :: "capsule list \<Rightarrow> workspace \<Rightarrow> usage_event \<Rightarrow> inventory \<Rightarrow> inventory" where
  "inventory_event allCapsules w e iv =
     (if \<not> falsy (ue_payerAccountId e) then iv
      else if falsy (ue_capsuleId e) then iv\<lparr>bp_writes := bp_writes iv @ [WriteUsage (ue_id e) (ws_ownerUserId w)]\<rparr>
      else let k = the (ue_capsuleId e) in
        case map_of (rev (map (\<lambda>c. (cap_id c, c)) allCapsules)) k of
          None \<Rightarrow> iv\<lparr>bp_unresolvedUsagePayers := bp_unresolvedUsagePayers iv @ [(ue_id e, ws_id w, k, CapsuleMissing)]\<rparr>
        | Some c \<Rightarrow>
            if cap_workspaceId c \<noteq> ws_id w
            then iv\<lparr>bp_unresolvedUsagePayers := bp_unresolvedUsagePayers iv @ [(ue_id e, ws_id w, k, WorkspaceMismatch)]\<rparr>
            else if k \<in> set (iv_transferredCapsuleIds iv)
            then iv\<lparr>bp_transferredAppUsage := bp_transferredAppUsage iv @ [(ue_id e, k)]\<rparr>
            else iv\<lparr>bp_writes := bp_writes iv @ [WriteUsage (ue_id e) (the (js_get (iv_ownerByCapsuleId iv) k))]\<rparr>)"

definition inventory_binding :: "app_store \<Rightarrow> workspace \<Rightarrow> inventory \<Rightarrow> inventory" where
  "inventory_binding s w iv =
     (case js_get (workspaceBillingBindings s) (ws_id w) of
        None \<Rightarrow> iv
      | Some b \<Rightarrow>
          (let owner = ws_ownerUserId w;
               rows = (case js_get (iv_billings iv) owner of None \<Rightarrow> [] | Some rs \<Rightarrow> rs);
               record' = \<lparr>ab_accountId = owner, ab_billingAuthority = bb_billingAuthority b, ab_billingRef = bb_workspaceRef b,
                          ab_organizationRef = Some (bb_organizationRef b), ab_createdAt = bb_boundAt b, ab_updatedAt = bb_boundAt b\<rparr>
           in iv\<lparr>iv_billings := js_set owner (rows @ [(ws_id w, record')]) (iv_billings iv)\<rparr>))"

definition inventory_workspace ::
    "(string \<Rightarrow> string \<Rightarrow> int) \<Rightarrow> app_store \<Rightarrow> capsule list \<Rightarrow> workspace \<Rightarrow> inventory \<Rightarrow> store_error + inventory" where
  "inventory_workspace localeCompare s allCapsules w iv =
     (if ws_ownerUserId w = [] then Inl (PlainError ''Backfill requires a Workspace owner'')
      else let members = by_locale localeCompare mem_accountId (listWorkspaceMembers localeCompare s (ws_id w));
               iv1 = iv\<lparr>bp_confirmationRequired := bp_confirmationRequired iv @ confirmation w members\<rparr> in
        chain (inventory_all (inventory_capsule s w members) (filter (\<lambda>c. cap_workspaceId c = ws_id w) allCapsules) iv1) (\<lambda>iv2.
          let iv3 = iv2\<lparr>bp_writes := bp_writes iv2 @
                connection_writes w (by_locale localeCompare cn_id (listConnections localeCompare s (ws_id w)))\<rparr>;
              iv4 = fold (inventory_event allCapsules w) (by_locale localeCompare ue_id (listUsageEvents localeCompare s (ws_id w))) iv3
          in Inr (inventory_binding s w iv4)))"

definition billing_key :: "account_billing \<Rightarrow> string \<times> string \<times> string option" where
  "billing_key r = (ab_billingAuthority r, ab_billingRef r, ab_organizationRef r)"

definition inventory_billing :: "app_store \<Rightarrow> string \<times> (string \<times> account_billing) list \<Rightarrow> inventory \<Rightarrow> inventory" where
  "inventory_billing s entry iv =
     (let accountId = fst entry; rows = snd entry; existing = getAccountBillingBinding s accountId;
          keys = js_dedup (map (\<lambda>r. billing_key (snd r)) rows @ (case existing of None \<Rightarrow> [] | Some e \<Rightarrow> [billing_key e])) in
      if length keys > 1 then iv\<lparr>bp_billingConflicts := bp_billingConflicts iv @ [(accountId, map fst rows)]\<rparr>
      else if existing = None then iv\<lparr>bp_writes := bp_writes iv @ [WriteBilling (snd (hd rows))]\<rparr> else iv)"

definition empty_inventory :: inventory where
  "empty_inventory = \<lparr>bp_writes = [], bp_confirmationRequired = [], bp_collisions = [], bp_billingConflicts = [],
     bp_orphanCapsules = [], bp_unresolvedUsagePayers = [], bp_transferredAppUsage = [], iv_transferredCapsuleIds = [],
     iv_names = [], iv_billings = [], iv_ownerByCapsuleId = []\<rparr>"

definition planAppOwnershipBackfill :: "(string \<Rightarrow> string \<Rightarrow> int) \<Rightarrow> app_store \<Rightarrow> store_error + backfill_plan" where
  "planAppOwnershipBackfill localeCompare s =
     (let ws = by_locale localeCompare ws_id (listWorkspaces localeCompare s);
          workspaceIds = map ws_id ws;
          allCapsules = by_locale localeCompare cap_id (listCapsules localeCompare s None);
          iv0 = empty_inventory\<lparr>bp_orphanCapsules :=
            map (\<lambda>c. (cap_id c, cap_workspaceId c)) (filter (\<lambda>c. cap_workspaceId c \<notin> set workspaceIds) allCapsules)\<rparr> in
      chain (inventory_all (inventory_workspace localeCompare s allCapsules) ws iv0) (\<lambda>iv1.
        let iv2 = iv1\<lparr>bp_collisions := filter (\<lambda>g. length (snd g) > 1) (iv_names iv1)\<rparr>;
            iv3 = fold (inventory_billing s) (iv_billings iv2) iv2
        in Inr (backfill_plan.truncate iv3)))"

section \<open>Applying the inventory\<close>

definition apply_ownership :: "capsule_ownership \<Rightarrow> app_store \<Rightarrow> store_error + (bool \<times> app_store)" where
  "apply_ownership record s =
     chain (initializeOwnershipIfMissing record s) (\<lambda>(written, s').
       if written then Inr (True, s')
       else Inr (case getOwnership s' (own_capsuleId record) of None \<Rightarrow> False
                 | Some current \<Rightarrow> own_ownerAccountId current = own_ownerAccountId record
                     \<and> own_ownershipEpoch current = own_ownershipEpoch record
                     \<and> own_storageRoot current = own_storageRoot record, s'))"

fun apply_write :: "backfill_write \<Rightarrow> app_store \<Rightarrow> store_error + (bool \<times> app_store)" where
  "apply_write (WriteOwnership record) s = apply_ownership record s"
| "apply_write (WriteMember record) s =
     (if list_ex (\<lambda>m. cm_accountId m = cm_accountId record) (listMembers s (cm_capsuleId record)) then Inr (False, s)
      else putMember record s)"
| "apply_write (WriteConnection k owner) s = Inr (setConnectionOwnerIfMissing k owner s)"
| "apply_write (WriteUsage k payer) s = Inr (setUsagePayerIfMissing k payer s)"
| "apply_write (WriteBilling record) s =
     (if getAccountBillingBinding s (ab_accountId record) \<noteq> None then Inr (False, s) else putAccountBillingBinding record s)"

fun apply_writes :: "backfill_write list \<Rightarrow> nat \<Rightarrow> app_store \<Rightarrow> (store_error + nat) \<times> app_store" where
  "apply_writes [] applied s = (Inr applied, s)"
| "apply_writes (w # ws) applied s =
     (case apply_write w s of
        Inl e \<Rightarrow> (Inl e, s)
      | Inr (True, s') \<Rightarrow> apply_writes ws (Suc applied) s'
      | Inr (False, s') \<Rightarrow>
          (Inl (PlainError (''Backfill stopped after '' @ show_int (int applied) @ '' writes; verify schema and re-run dry-run'')), s'))"

definition applyAppOwnershipBackfill ::
    "(backfill_plan \<Rightarrow> string) \<Rightarrow> (string \<Rightarrow> string \<Rightarrow> int) \<Rightarrow> bool \<Rightarrow> string \<Rightarrow> int \<Rightarrow> app_store \<Rightarrow> (store_error + nat) \<times> app_store" where
  "applyAppOwnershipBackfill digest localeCompare frozen expectedDigest batchSize s =
     (if \<not> frozen then (Inl (PlainError ''Backfill apply requires verified workspaceMutationsFrozen: true in the operator context''), s)
      else if \<not> is_safe_integer batchSize \<or> batchSize < 1 \<or> batchSize > 100
      then (Inl (PlainError ''Backfill batch size must be 1..100''), s)
      else case planAppOwnershipBackfill localeCompare s of
        Inl e \<Rightarrow> (Inl e, s)
      | Inr plan \<Rightarrow>
          if digest plan \<noteq> expectedDigest then (Inl (PlainError ''Backfill inventory changed; review a new dry-run''), s)
          else if bp_unresolvedUsagePayers plan \<noteq> []
          then (Inl (PlainError ''Backfill inventory has unresolved usage payers; repair and review a new dry-run''), s)
          else apply_writes (take (nat batchSize) (bp_writes plan)) 0 s)"

section \<open>The writes that concern access\<close>

fun is_access_write :: "backfill_write \<Rightarrow> bool" where
  "is_access_write (WriteOwnership _) = True"
| "is_access_write (WriteMember _) = True"
| "is_access_write _ = False"

definition access_writes :: "'a backfill_plan_scheme \<Rightarrow> backfill_write list" where
  "access_writes p = filter is_access_write (bp_writes p)"

lemma inventory_all_access:
  assumes "inventory_all step xs iv = Inr iv'"
    and "\<And>x iv iv'. x \<in> set xs \<Longrightarrow> step x iv = Inr iv' \<Longrightarrow> access_writes iv' = access_writes iv @ f x"
  shows "access_writes iv' = access_writes iv @ concat (map f xs)"
  using assms
proof (induction xs arbitrary: iv)
  case (Cons x xs)
  then obtain iv1 where iv1: "step x iv = Inr iv1" "inventory_all step xs iv1 = Inr iv'" by auto
  from Cons.IH [OF iv1(2)] Cons.prems(2) [of x, OF _ iv1(1)] Cons.prems(2) show ?case by simp
qed simp

lemma inventory_all_each: "inventory_all step xs iv = Inr iv' \<Longrightarrow> x \<in> set xs \<Longrightarrow> \<exists>iv1 iv2. step x iv1 = Inr iv2"
  by (induction xs arbitrary: iv) auto

lemma fold_access:
  assumes "\<And>x iv. access_writes (step x iv) = access_writes iv"
  shows "access_writes (fold step xs iv) = access_writes iv"
  using assms by (induction xs arbitrary: iv) simp_all

definition capsule_writes :: "app_store \<Rightarrow> workspace \<Rightarrow> member list \<Rightarrow> capsule \<Rightarrow> backfill_write list" where
  "capsule_writes s w members c =
     (case capsuleScopeRef c of Inl _ \<Rightarrow> [] | Inr scope \<Rightarrow> ownership_write s w scope c @ member_writes s w scope members c)"

lemma access_of_capsule:
  "filter is_access_write (ownership_write s w scope c) = ownership_write s w scope c"
  "filter is_access_write (member_writes s w scope members c) = member_writes s w scope members c"
  by (auto simp: ownership_write_def member_writes_def filter_id_conv split: option.split)

lemma inventory_capsule_access:
  "inventory_capsule s w members c iv = Inr iv' \<Longrightarrow> access_writes iv' = access_writes iv @ capsule_writes s w members c"
  by (auto simp: inventory_capsule_def access_writes_def access_of_capsule Let_def capsule_writes_def)

lemma inventory_event_access: "access_writes (inventory_event allCapsules w e iv) = access_writes iv"
  by (auto simp: inventory_event_def access_writes_def Let_def split: option.split)

lemma inventory_billing_access: "access_writes (inventory_billing s entry iv) = access_writes iv"
  by (auto simp: inventory_billing_def access_writes_def Let_def)

definition workspace_members :: "(string \<Rightarrow> string \<Rightarrow> int) \<Rightarrow> app_store \<Rightarrow> workspace \<Rightarrow> member list" where
  "workspace_members localeCompare s w = by_locale localeCompare mem_accountId (listWorkspaceMembers localeCompare s (ws_id w))"

definition workspace_writes :: "(string \<Rightarrow> string \<Rightarrow> int) \<Rightarrow> app_store \<Rightarrow> capsule list \<Rightarrow> workspace \<Rightarrow> backfill_write list" where
  "workspace_writes localeCompare s allCapsules w =
     concat (map (capsule_writes s w (workspace_members localeCompare s w)) (filter (\<lambda>c. cap_workspaceId c = ws_id w) allCapsules))"

lemma inventory_workspace_access:
  assumes "inventory_workspace localeCompare s allCapsules w iv = Inr iv'"
  shows "access_writes iv' = access_writes iv @ workspace_writes localeCompare s allCapsules w"
proof -
  define iv1 where "iv1 = iv\<lparr>bp_confirmationRequired := bp_confirmationRequired iv @ confirmation w (workspace_members localeCompare s w)\<rparr>"
  define ws where "ws = connection_writes w (by_locale localeCompare cn_id (listConnections localeCompare s (ws_id w)))"
  have con: "filter is_access_write ws = []" by (auto simp: ws_def connection_writes_def filter_empty_conv)
  obtain iv2 where iv2: "inventory_all (inventory_capsule s w (workspace_members localeCompare s w)) (filter (\<lambda>c. cap_workspaceId c = ws_id w) allCapsules) iv1 = Inr iv2"
    and iv': "iv' = inventory_binding s w (fold (inventory_event allCapsules w)
      (by_locale localeCompare ue_id (listUsageEvents localeCompare s (ws_id w))) (iv2\<lparr>bp_writes := bp_writes iv2 @ ws\<rparr>))"
    using assms by (auto simp: inventory_workspace_def Let_def workspace_members_def iv1_def ws_def split: if_split_asm)
  have "access_writes iv' = access_writes iv2"
    using con by (simp add: iv' inventory_binding_def access_writes_def Let_def fold_access [OF inventory_event_access, unfolded access_writes_def] split: option.split)
  moreover have "access_writes iv1 = access_writes iv" by (simp add: iv1_def access_writes_def)
  ultimately show ?thesis using inventory_all_access [OF iv2 inventory_capsule_access] by (simp add: workspace_writes_def)
qed

text \<open>The ownership and roster writes of a plan, in order.\<close>

lemma plan_access:
  assumes "planAppOwnershipBackfill localeCompare s = Inr plan"
  shows "access_writes plan = concat (map (workspace_writes localeCompare s (by_locale localeCompare cap_id (listCapsules localeCompare s None)))
      (by_locale localeCompare ws_id (listWorkspaces localeCompare s)))"
    "w \<in> set (js_values (workspaces s)) \<Longrightarrow> ws_ownerUserId w \<noteq> []"
    "w \<in> set (js_values (workspaces s)) \<Longrightarrow> c \<in> set (js_values (capsules s)) \<Longrightarrow> cap_workspaceId c = ws_id w
      \<Longrightarrow> \<exists>scope. capsuleScopeRef c = Inr scope"
proof -
  let ?cs = "by_locale localeCompare cap_id (listCapsules localeCompare s None)" and ?ws = "by_locale localeCompare ws_id (listWorkspaces localeCompare s)"
  define iv0 where "iv0 = empty_inventory\<lparr>bp_orphanCapsules :=
    map (\<lambda>c. (cap_id c, cap_workspaceId c)) (filter (\<lambda>c. cap_workspaceId c \<notin> set (map ws_id ?ws)) ?cs)\<rparr>"
  obtain iv1 where iv1: "inventory_all (inventory_workspace localeCompare s ?cs) ?ws iv0 = Inr iv1"
    and p: "plan = backfill_plan.truncate (fold (inventory_billing s) (iv_billings iv1)
      (iv1\<lparr>bp_collisions := filter (\<lambda>g. length (snd g) > 1) (iv_names iv1)\<rparr>))"
    using assms unfolding planAppOwnershipBackfill_def Let_def iv0_def by auto
  define iv2 where "iv2 = fold (inventory_billing s) (iv_billings iv1) (iv1\<lparr>bp_collisions := filter (\<lambda>g. length (snd g) > 1) (iv_names iv1)\<rparr>)"
  have plan: "plan = backfill_plan.truncate iv2" using p by (simp add: iv2_def)
  have iv0: "access_writes iv0 = []" by (simp add: iv0_def access_writes_def empty_inventory_def)
  have iv2: "access_writes iv2 = access_writes iv1"
    unfolding iv2_def fold_access [OF inventory_billing_access] by (simp add: access_writes_def)
  have "access_writes plan = access_writes iv2" by (simp add: plan access_writes_def backfill_plan.truncate_def)
  with iv0 iv2 inventory_all_access [OF iv1 inventory_workspace_access] show "access_writes plan = concat (map (workspace_writes localeCompare s ?cs) ?ws)" by simp
  assume "w \<in> set (js_values (workspaces s))"
  then have "w \<in> set ?ws" by (simp add: by_locale_def listWorkspaces_def)
  from inventory_all_each [OF iv1 this] obtain x y where step: "inventory_workspace localeCompare s ?cs w x = Inr y" by blast
  then show "ws_ownerUserId w \<noteq> []" by (auto simp: inventory_workspace_def split: if_split_asm)
  assume "c \<in> set (js_values (capsules s))" "cap_workspaceId c = ws_id w"
  then have c: "c \<in> set (filter (\<lambda>c. cap_workspaceId c = ws_id w) ?cs)" by (simp add: by_locale_def listCapsules_def)
  from step obtain x1 y1 where "inventory_all (inventory_capsule s w (by_locale localeCompare mem_accountId (listWorkspaceMembers localeCompare s (ws_id w))))
      (filter (\<lambda>c. cap_workspaceId c = ws_id w) ?cs) x1 = Inr y1"
    by (auto simp: inventory_workspace_def Let_def split: if_split_asm)
  from inventory_all_each [OF this c] show "\<exists>scope. capsuleScopeRef c = Inr scope" by (auto simp: inventory_capsule_def)
qed

section \<open>What applied writes do\<close>

text \<open>Everything the access decision reads besides ownership and roster.\<close>

definition same_directory :: "app_store \<Rightarrow> app_store \<Rightarrow> bool" where
  "same_directory s s' \<longleftrightarrow> capsules s' = capsules s \<and> workspaces s' = workspaces s \<and> workspaceMembers s' = workspaceMembers s"

lemma same_directory_trans: "same_directory s s' \<Longrightarrow> same_directory s' s'' \<Longrightarrow> same_directory s s''"
  by (simp add: same_directory_def)

definition ownership_rows :: "backfill_write list \<Rightarrow> (string \<times> capsule_ownership) list" where
  "ownership_rows ws = List.map_filter (\<lambda>w. case w of WriteOwnership r \<Rightarrow> Some (own_capsuleId r, r) | _ \<Rightarrow> None) ws"

definition roster_rows :: "backfill_write list \<Rightarrow> (string \<times> capsule_member) list" where
  "roster_rows ws = List.map_filter (\<lambda>w. case w of WriteMember m \<Rightarrow> Some (capsuleMemberKey (cm_capsuleId m) (cm_accountId m), m) | _ \<Rightarrow> None) ws"

lemma rows_simps [simp]:
  "ownership_rows [] = []" "roster_rows [] = []"
  "ownership_rows (w # ws) = (case w of WriteOwnership r \<Rightarrow> [(own_capsuleId r, r)] | _ \<Rightarrow> []) @ ownership_rows ws"
  "roster_rows (w # ws) = (case w of WriteMember m \<Rightarrow> [(capsuleMemberKey (cm_capsuleId m) (cm_accountId m), m)] | _ \<Rightarrow> []) @ roster_rows ws"
  by (simp_all add: ownership_rows_def roster_rows_def map_filter_simps split: backfill_write.split)

text \<open>One write that reports success: stored rows stay, and a missing row is the one written.\<close>

definition fills :: "('k \<times> 'v) list \<Rightarrow> ('k, 'v) js_map \<Rightarrow> ('k, 'v) js_map \<Rightarrow> bool" where
  "fills rows m m' \<longleftrightarrow> (\<forall>k. js_get m' k = (case js_get m k of Some v \<Rightarrow> Some v | None \<Rightarrow> map_of rows k))"

lemma fills_Nil [simp]: "fills [] m m"
  by (simp add: fills_def split: option.split)

lemma fills_append: "fills xs m m' \<Longrightarrow> fills ys m' m'' \<Longrightarrow> fills (xs @ ys) m m''"
  by (auto simp: fills_def map_add_def split: option.splits)

lemma no_roster_without_owner:
  assumes "app_ok s" "js_get (capsuleOwnership s) k = None" "CHR 0x00 \<notin> set k"
  shows "js_get (capsuleMembers s) (capsuleMemberKey k a) = None"
proof (rule ccontr)
  assume "js_get (capsuleMembers s) (capsuleMemberKey k a) \<noteq> None"
  then obtain m where m: "js_get (capsuleMembers s) (capsuleMemberKey k a) = Some m" by auto
  from roster_lookup [OF assms(1,3), of m a] m have "cm_capsuleId m = k" by (simp add: listMembers_def listCapsuleMembers_def)
  with app_ok_roster [OF assms(1) m] assms(2) show False by (simp add: roster_row_ok_def)
qed

lemma apply_ownership_effect:
  assumes "apply_ownership r s = Inr (True, s')" "app_ok s"
  shows "same_directory s s' \<and> app_ok s' \<and> fills [(own_capsuleId r, r)] (capsuleOwnership s) (capsuleOwnership s')
    \<and> fills [] (capsuleMembers s) (capsuleMembers s')"
proof (cases "js_get (capsuleOwnership s) (own_capsuleId r)")
  case (Some own)
  then have "s' = s" using assms(1)
    by (auto simp: apply_ownership_def initializeOwnershipIfMissing_def initializeOwnership_decide_def getOwnership_def getCapsuleOwnership_def)
  then show ?thesis using assms(2) Some by (auto simp: same_directory_def fills_def split: option.split)
next
  case None
  show ?thesis
  proof (cases rule: commit_ownership_cases [of r True None s])
    case lost
    then have False using assms(1) None
      by (auto simp: apply_ownership_def initializeOwnershipIfMissing_def initializeOwnership_decide_def getOwnership_def getCapsuleOwnership_def split: if_split_asm)
    then show ?thesis ..
  next
    case won
    then have s': "s' = s\<lparr>capsuleOwnership := js_set (own_capsuleId r) r (capsuleOwnership s),
        capsuleMembers := js_delete (capsuleMemberKey (own_capsuleId r) (own_ownerAccountId r)) (capsuleMembers s)\<rparr>"
      using assms(1) None
      by (auto simp: apply_ownership_def initializeOwnershipIfMissing_def initializeOwnership_decide_def getOwnership_def getCapsuleOwnership_def split: if_split_asm)
    obtain c where "js_get (capsules s) (own_capsuleId r) = Some c" using won(2) by (auto simp: js_has_def)
    then have "CHR 0x00 \<notin> set (own_capsuleId r)" using app_ok_capsule [OF assms(2)] by blast
    then have "js_get (capsuleMembers s) (capsuleMemberKey (own_capsuleId r) (own_ownerAccountId r)) = None"
      by (rule no_roster_without_owner [OF assms(2) None])
    then show ?thesis using None commit_ownership_ok [OF assms(2), of r True None] won(1)
      by (auto simp: s' same_directory_def fills_def split: option.split)
  qed
qed

lemma apply_member_effect:
  assumes "apply_write (WriteMember m) s = Inr (True, s')" "app_ok s"
  shows "same_directory s s' \<and> app_ok s' \<and> fills [] (capsuleOwnership s) (capsuleOwnership s')
    \<and> fills [(capsuleMemberKey (cm_capsuleId m) (cm_accountId m), m)] (capsuleMembers s) (capsuleMembers s')"
proof -
  from assms(1) have p: "putCapsuleMember m s = (True, s')" and no: "\<not> list_ex (\<lambda>x. cm_accountId x = cm_accountId m) (listMembers s (cm_capsuleId m))"
    by (auto simp: putMember_def split: if_split_asm)
  from p obtain own where own: "js_get (capsuleOwnership s) (cm_capsuleId m) = Some own"
    and s': "s' = s\<lparr>capsuleMembers := js_set (capsuleMemberKey (cm_capsuleId m) (cm_accountId m)) m (capsuleMembers s)\<rparr>"
    by (auto simp: putCapsuleMember_def split: option.split_asm if_split_asm)
  have "js_get (capsuleMembers s) (capsuleMemberKey (cm_capsuleId m) (cm_accountId m)) = None"
  proof (rule ccontr)
    assume "js_get (capsuleMembers s) (capsuleMemberKey (cm_capsuleId m) (cm_accountId m)) \<noteq> None"
    then obtain x where "js_get (capsuleMembers s) (capsuleMemberKey (cm_capsuleId m) (cm_accountId m)) = Some x" by auto
    with roster_lookup [OF assms(2) app_ok_owned(3) [OF assms(2) own], of x "cm_accountId m"] no show False by (auto simp: list_ex_iff)
  qed
  then show ?thesis using putCapsuleMember_ok [OF assms(2), of m] p
    by (auto simp: s' same_directory_def fills_def split: option.split)
qed

lemma apply_write_effect:
  assumes "apply_write w s = Inr (True, s')" "app_ok s"
  shows "same_directory s s' \<and> app_ok s' \<and> fills (ownership_rows [w]) (capsuleOwnership s) (capsuleOwnership s')
    \<and> fills (roster_rows [w]) (capsuleMembers s) (capsuleMembers s')"
proof (cases w)
  case (WriteOwnership r)
  then show ?thesis using apply_ownership_effect [of r s s'] assms by simp
next
  case (WriteMember m)
  then show ?thesis using apply_member_effect [of m s s'] assms by simp
next
  case (WriteConnection k owner)
  then have "capsuleOwnership s' = capsuleOwnership s \<and> capsuleMembers s' = capsuleMembers s \<and> same_directory s s'"
    using assms(1) by (auto simp: setConnectionOwnerIfMissing_def putConnection_def same_directory_def split: option.split_asm if_split_asm)
  then show ?thesis using app_ok_same [OF assms(2), of s'] WriteConnection by (auto simp: same_directory_def)
next
  case (WriteUsage k payer)
  then have "capsuleOwnership s' = capsuleOwnership s \<and> capsuleMembers s' = capsuleMembers s \<and> same_directory s s'"
    using assms(1) by (auto simp: setUsagePayerIfMissing_def control_setUsagePayerIfMissing_def same_directory_def split: option.split_asm if_split_asm)
  then show ?thesis using app_ok_same [OF assms(2), of s'] WriteUsage by (auto simp: same_directory_def)
next
  case (WriteBilling r)
  then have "capsuleOwnership s' = capsuleOwnership s \<and> capsuleMembers s' = capsuleMembers s \<and> same_directory s s'"
    using assms(1) by (auto simp: putAccountBillingBinding_def same_directory_def split: if_split_asm)
  then show ?thesis using app_ok_same [OF assms(2), of s'] WriteBilling by (auto simp: same_directory_def)
qed

lemma apply_writes_effect:
  assumes "apply_writes ws n s = (Inr k, s')" "app_ok s"
  shows "same_directory s s' \<and> app_ok s' \<and> fills (ownership_rows ws) (capsuleOwnership s) (capsuleOwnership s')
    \<and> fills (roster_rows ws) (capsuleMembers s) (capsuleMembers s') \<and> k = n + length ws"
  using assms
proof (induction ws arbitrary: n s)
  case (Cons w ws)
  then obtain s1 where s1: "apply_write w s = Inr (True, s1)" "apply_writes ws (Suc n) s1 = (Inr k, s')"
    by (auto split: sum.split_asm bool.split_asm)
  note one = apply_write_effect [OF s1(1) Cons.prems(2)]
  note rest = Cons.IH [OF s1(2) conjunct1 [OF conjunct2 [OF one]]]
  from one rest show ?case
    using fills_append [of "ownership_rows [w]" "capsuleOwnership s" "capsuleOwnership s1" "ownership_rows ws"]
      fills_append [of "roster_rows [w]" "capsuleMembers s" "capsuleMembers s1" "roster_rows ws"] same_directory_trans [of s s1 s']
    by simp
qed (simp add: same_directory_def)

section \<open>Access before and after\<close>

definition directory_ok :: "app_store \<Rightarrow> bool" where
  "directory_ok s \<longleftrightarrow> js_wf (workspaces s) \<and> js_wf (workspaceMembers s)
     \<and> list_all (\<lambda>(k, w). ws_id w = k \<and> CHR 0x00 \<notin> set k) (workspaces s)
     \<and> list_all (\<lambda>(k, m). k = workspaceMemberKey (mem_workspaceId m) (mem_accountId m) \<and> CHR 0x00 \<notin> set (mem_workspaceId m)) (workspaceMembers s)"

lemma workspaceMemberKey_capsule: "workspaceMemberKey = capsuleMemberKey"
  by (simp add: fun_eq_iff workspaceMemberKey_def capsuleMemberKey_def)

lemma directory_workspace:
  assumes "directory_ok s"
  shows "w \<in> set (js_values (workspaces s)) \<longleftrightarrow> js_get (workspaces s) (ws_id w) = Some w"
    "js_get (workspaces s) k = Some w \<Longrightarrow> ws_id w = k \<and> CHR 0x00 \<notin> set k"
proof -
  show key: "js_get (workspaces s) k = Some w \<Longrightarrow> ws_id w = k \<and> CHR 0x00 \<notin> set k" for k w
    using assms by (auto simp: directory_ok_def list_all_iff dest: js_get_in_set)
  show "w \<in> set (js_values (workspaces s)) \<longleftrightarrow> js_get (workspaces s) (ws_id w) = Some w"
  proof
    assume "w \<in> set (js_values (workspaces s))"
    then obtain k where "(k, w) \<in> set (workspaces s)" by (auto simp: js_values_def)
    then have g: "js_get (workspaces s) k = Some w" using assms js_get_iff [of "workspaces s" k w] by (simp add: directory_ok_def)
    from key [OF g] g show "js_get (workspaces s) (ws_id w) = Some w" by simp
  qed (rule js_values_get)
qed

lemma directory_member:
  assumes "directory_ok s" "CHR 0x00 \<notin> set ws"
  shows "m \<in> set (js_values (workspaceMembers s)) \<and> mem_workspaceId m = ws \<and> mem_accountId m = a
    \<longleftrightarrow> js_get (workspaceMembers s) (workspaceMemberKey ws a) = Some m"
proof
  have wf: "js_wf (workspaceMembers s)" using assms(1) by (simp add: directory_ok_def)
  have row: "k = workspaceMemberKey (mem_workspaceId x) (mem_accountId x) \<and> CHR 0x00 \<notin> set (mem_workspaceId x)"
    if "js_get (workspaceMembers s) k = Some x" for k x
    using assms(1) that by (auto simp: directory_ok_def list_all_iff dest: js_get_in_set)
  {
    assume m: "m \<in> set (js_values (workspaceMembers s)) \<and> mem_workspaceId m = ws \<and> mem_accountId m = a"
    then obtain k where "(k, m) \<in> set (workspaceMembers s)" by (auto simp: js_values_def)
    then have g: "js_get (workspaceMembers s) k = Some m" using js_get_iff [OF wf] by blast
    from row [OF g] m g show "js_get (workspaceMembers s) (workspaceMemberKey ws a) = Some m" by simp
  next
    assume g: "js_get (workspaceMembers s) (workspaceMemberKey ws a) = Some m"
    from row [OF g] have "mem_workspaceId m = ws \<and> mem_accountId m = a"
      using capsuleMemberKey_inj [OF assms(2), of "mem_workspaceId m" a "mem_accountId m"] by (simp add: workspaceMemberKey_capsule)
    with js_values_get [OF g] show "m \<in> set (js_values (workspaceMembers s)) \<and> mem_workspaceId m = ws \<and> mem_accountId m = a" by simp
  }
qed

lemma set_workspace_members: "m \<in> set (workspace_members localeCompare s w) \<longleftrightarrow> m \<in> set (js_values (workspaceMembers s)) \<and> mem_workspaceId m = ws_id w"
  by (auto simp: workspace_members_def by_locale_def listWorkspaceMembers_def)

text \<open>Which ownership and roster rows a plan writes.\<close>

lemma set_capsule_writes:
  "x \<in> set (capsule_writes s w members c) \<longleftrightarrow> (\<exists>scope. capsuleScopeRef c = Inr scope
    \<and> (x \<in> set (ownership_write s w scope c) \<or> x \<in> set (member_writes s w scope members c)))"
  by (cases "capsuleScopeRef c") (auto simp: capsule_writes_def)

lemma set_workspace_writes:
  "x \<in> set (workspace_writes localeCompare s cs w) \<longleftrightarrow> (\<exists>c \<in> set cs. cap_workspaceId c = ws_id w
    \<and> x \<in> set (capsule_writes s w (workspace_members localeCompare s w) c))"
  by (auto simp: workspace_writes_def)

lemma access_writes_iff:
  assumes "planAppOwnershipBackfill localeCompare s = Inr plan"
  shows "x \<in> set (access_writes plan) \<longleftrightarrow> (\<exists>w c scope. w \<in> set (js_values (workspaces s)) \<and> c \<in> set (js_values (capsules s))
    \<and> cap_workspaceId c = ws_id w \<and> capsuleScopeRef c = Inr scope
    \<and> (x \<in> set (ownership_write s w scope c) \<or> x \<in> set (member_writes s w scope (workspace_members localeCompare s w) c)))"
proof -
  have "x \<in> set (access_writes plan) \<longleftrightarrow> (\<exists>w \<in> set (js_values (workspaces s)). x \<in> set (workspace_writes localeCompare s (by_locale localeCompare cap_id (listCapsules localeCompare s None)) w))"
    unfolding plan_access(1) [OF assms] by (simp add: by_locale_def listWorkspaces_def)
  moreover have "set (by_locale localeCompare cap_id (listCapsules localeCompare s None)) = set (js_values (capsules s))"
    by (simp add: by_locale_def listCapsules_def)
  ultimately show ?thesis unfolding set_workspace_writes set_capsule_writes by blast
qed

lemma rows_of_access:
  "ownership_rows (filter is_access_write ws) = ownership_rows ws" "roster_rows (filter is_access_write ws) = roster_rows ws"
  by (induction ws) (auto split: backfill_write.split)

lemma set_ownership_rows: "(k, r) \<in> set (ownership_rows ws) \<longleftrightarrow> WriteOwnership r \<in> set ws \<and> k = own_capsuleId r"
proof -
  have "(case w of WriteOwnership r \<Rightarrow> Some (own_capsuleId r, r) | _ \<Rightarrow> None) = Some (k, r) \<longleftrightarrow> w = WriteOwnership r \<and> k = own_capsuleId r" for w
    by (cases w) auto
  then show ?thesis unfolding ownership_rows_def set_map_filter_iff by auto
qed

lemma set_roster_rows: "(k, m) \<in> set (roster_rows ws) \<longleftrightarrow> WriteMember m \<in> set ws \<and> k = capsuleMemberKey (cm_capsuleId m) (cm_accountId m)"
proof -
  have "(case w of WriteMember m \<Rightarrow> Some (capsuleMemberKey (cm_capsuleId m) (cm_accountId m), m) | _ \<Rightarrow> None) = Some (k, m)
      \<longleftrightarrow> w = WriteMember m \<and> k = capsuleMemberKey (cm_capsuleId m) (cm_accountId m)" for w
    by (cases w) auto
  then show ?thesis unfolding roster_rows_def set_map_filter_iff by auto
qed

lemma map_of_unique:
  assumes "\<And>v'. (k, v') \<in> set rows \<Longrightarrow> v' = v" "(k, v) \<in> set rows" shows "map_of rows k = Some v"
proof (cases "map_of rows k")
  case None
  with assms(2) show ?thesis by (force simp: map_of_eq_None_iff)
next
  case (Some v')
  from assms(1) [OF map_of_SomeD [OF Some]] Some show ?thesis by simp
qed

lemma map_of_none: "(\<And>v. (k, v) \<notin> set rows) \<Longrightarrow> map_of rows k = None"
  using map_of_SomeD [of rows k] by (cases "map_of rows k") blast+

lemma capsule_in_values:
  assumes "app_ok s" shows "c \<in> set (js_values (capsules s)) \<longleftrightarrow> js_get (capsules s) (cap_id c) = Some c"
proof
  assume "c \<in> set (js_values (capsules s))"
  then obtain k where "(k, c) \<in> set (capsules s)" by (auto simp: js_values_def)
  then have g: "js_get (capsules s) k = Some c" using assms js_get_iff [of "capsules s" k c] by (simp add: app_ok_iff)
  from app_ok_capsule [OF assms g] g show "js_get (capsules s) (cap_id c) = Some c" by simp
qed (rule js_values_get)

text \<open>A Capsule a plan writes rows for, with its Workspace and scope.\<close>

definition planned :: "app_store \<Rightarrow> string \<Rightarrow> capsule \<Rightarrow> workspace \<Rightarrow> string \<Rightarrow> bool" where
  "planned s k c w scope \<longleftrightarrow> js_get (capsules s) k = Some c \<and> js_get (workspaces s) (cap_workspaceId c) = Some w \<and> capsuleScopeRef c = Inr scope"

lemma access_writes_planned:
  assumes P: "planAppOwnershipBackfill localeCompare s = Inr plan" and ok: "app_ok s" and dir: "directory_ok s"
  shows "x \<in> set (access_writes plan) \<longleftrightarrow> (\<exists>k c w scope. planned s k c w scope
    \<and> (x \<in> set (ownership_write s w scope c) \<or> x \<in> set (member_writes s w scope (workspace_members localeCompare s w) c)))"
proof -
  have "w \<in> set (js_values (workspaces s)) \<and> c \<in> set (js_values (capsules s)) \<and> cap_workspaceId c = ws_id w \<and> capsuleScopeRef c = Inr scope
      \<longleftrightarrow> (\<exists>k. planned s k c w scope)" for w c scope
    unfolding planned_def capsule_in_values [OF ok] directory_workspace(1) [OF dir]
    using app_ok_capsule [OF ok, of _ c] directory_workspace(2) [OF dir, of "cap_workspaceId c" w] by metis
  then show ?thesis unfolding access_writes_iff [OF P] by blast
qed

lemma planned_unique: "planned s k c w scope \<Longrightarrow> planned s k c' w' scope' \<Longrightarrow> c' = c \<and> w' = w \<and> scope' = scope"
  by (auto simp: planned_def)

lemma planned_id:
  assumes "app_ok s" "directory_ok s" "planned s k c w scope"
  shows "cap_id c = k" "CHR 0x00 \<notin> set k" "ws_id w = cap_workspaceId c" "CHR 0x00 \<notin> set (cap_workspaceId c)"
  using assms(3) app_ok_capsule [OF assms(1), of k c] directory_workspace(2) [OF assms(2), of "cap_workspaceId c" w] by (auto simp: planned_def)

text \<open>The ownership row a plan writes for an app, and the roster rows.\<close>

lemma planned_owner:
  assumes P: "planAppOwnershipBackfill localeCompare s = Inr plan" and ok: "app_ok s" and dir: "directory_ok s"
  shows "(k, r) \<in> set (ownership_rows (access_writes plan)) \<longleftrightarrow> (\<exists>c w scope. planned s k c w scope \<and> getOwnership s k = None
    \<and> r = \<lparr>own_capsuleId = k, own_ownerAccountId = ws_ownerUserId w, own_ownershipEpoch = 0, own_managementState = Active,
           own_managementEpoch = 0, own_storageRoot = legacy_root scope c\<rparr>)"
proof -
  have "WriteOwnership r \<in> set (ownership_write s w scope c) \<or> WriteOwnership r \<in> set (member_writes s w scope ms c) \<longleftrightarrow> getOwnership s k = None
      \<and> r = \<lparr>own_capsuleId = k, own_ownerAccountId = ws_ownerUserId w, own_ownershipEpoch = 0, own_managementState = Active,
           own_managementEpoch = 0, own_storageRoot = legacy_root scope c\<rparr>" if "planned s k c w scope" for k c w scope ms
    using planned_id [OF ok dir that] by (auto simp: ownership_write_def member_writes_def backfill_owner_def)
  then show ?thesis unfolding set_ownership_rows access_writes_planned [OF P ok dir] by (auto; metis capsule_ownership.select_convs(1))
qed

definition backfill_row :: "app_store \<Rightarrow> string \<Rightarrow> workspace \<Rightarrow> capsule \<Rightarrow> member \<Rightarrow> capsule_member" where
  "backfill_row s k w c x = \<lparr>cm_capsuleId = k, cm_accountId = mem_accountId x, cm_status = ''active'', cm_addedBy = Some (backfill_owner s w c),
     cm_createdAt = mem_createdAt x, cm_updatedAt = mem_updatedAt x\<rparr>"

lemma member_writes_iff:
  assumes ok: "app_ok s" and dir: "directory_ok s" and p: "planned s k c w scope"
  shows "WriteMember m \<in> set (ownership_write s w scope c) \<or> WriteMember m \<in> set (member_writes s w scope (workspace_members localeCompare s w) c)
    \<longleftrightarrow> backfills_roster s w scope c \<and> (\<exists>x a. js_get (workspaceMembers s) (workspaceMemberKey (cap_workspaceId c) a) = Some x \<and> mem_accountId x = a
      \<and> a \<noteq> backfill_owner s w c \<and> manages_workspace x \<and> js_get (capsuleMembers s) (capsuleMemberKey k a) = None \<and> m = backfill_row s k w c x)"
proof -
  note id = planned_id [OF ok dir p]
  have mem: "x \<in> set (workspace_members localeCompare s w) \<longleftrightarrow> js_get (workspaceMembers s) (workspaceMemberKey (cap_workspaceId c) (mem_accountId x)) = Some x" for x
    using directory_member [OF dir id(4), of x "mem_accountId x"] by (auto simp: set_workspace_members id(3))
  have free: "list_ex (\<lambda>r. cm_accountId r = a) (listMembers s k) \<longleftrightarrow> js_get (capsuleMembers s) (capsuleMemberKey k a) \<noteq> None" for a
    using roster_lookup [OF ok id(2)] by (auto simp: list_ex_iff)
  have "WriteMember m \<notin> set (ownership_write s w scope c)" by (simp add: ownership_write_def)
  moreover have "WriteMember m \<in> set (member_writes s w scope (workspace_members localeCompare s w) c) \<longleftrightarrow> backfills_roster s w scope c
      \<and> (\<exists>x \<in> set (workspace_members localeCompare s w). mem_accountId x \<noteq> backfill_owner s w c \<and> manages_workspace x
          \<and> \<not> list_ex (\<lambda>r. cm_accountId r = mem_accountId x) (listMembers s k) \<and> m = backfill_row s k w c x)"
    by (auto simp: member_writes_def backfill_row_def id(1))
  ultimately show ?thesis unfolding Bex_def mem free by simp
qed

lemma planned_member:
  assumes P: "planAppOwnershipBackfill localeCompare s = Inr plan" and ok: "app_ok s" and dir: "directory_ok s" and k: "CHR 0x00 \<notin> set k"
  shows "(capsuleMemberKey k a, m) \<in> set (roster_rows (access_writes plan)) \<longleftrightarrow>
    (\<exists>c w scope x. planned s k c w scope \<and> backfills_roster s w scope c \<and> a \<noteq> backfill_owner s w c
      \<and> js_get (workspaceMembers s) (workspaceMemberKey (cap_workspaceId c) a) = Some x \<and> manages_workspace x
      \<and> js_get (capsuleMembers s) (capsuleMemberKey k a) = None \<and> m = backfill_row s k w c x)" (is "?l \<longleftrightarrow> ?r")
proof
  assume ?l
  then obtain k' c w scope where p: "planned s k' c w scope" and key: "capsuleMemberKey k a = capsuleMemberKey (cm_capsuleId m) (cm_accountId m)"
    and m: "WriteMember m \<in> set (ownership_write s w scope c) \<or> WriteMember m \<in> set (member_writes s w scope (workspace_members localeCompare s w) c)"
    unfolding set_roster_rows access_writes_planned [OF P ok dir] by blast
  from m [unfolded member_writes_iff [OF ok dir p]] obtain x b where q: "backfills_roster s w scope c"
    "js_get (workspaceMembers s) (workspaceMemberKey (cap_workspaceId c) b) = Some x" "mem_accountId x = b" "b \<noteq> backfill_owner s w c" "manages_workspace x"
    "js_get (capsuleMembers s) (capsuleMemberKey k' b) = None" "m = backfill_row s k' w c x" by blast
  have "k' = k \<and> b = a" using capsuleMemberKey_inj [OF k planned_id(2) [OF ok dir p], of a b] key q(3,7) by (simp add: backfill_row_def)
  with p q show ?r by blast
next
  assume ?r
  then obtain c w scope x where q: "planned s k c w scope" "backfills_roster s w scope c" "a \<noteq> backfill_owner s w c"
    "js_get (workspaceMembers s) (workspaceMemberKey (cap_workspaceId c) a) = Some x" "manages_workspace x"
    "js_get (capsuleMembers s) (capsuleMemberKey k a) = None" "m = backfill_row s k w c x" by blast
  have a: "mem_accountId x = a" using directory_member [OF dir planned_id(4) [OF ok dir q(1)], of x a] q(4) by blast
  then have "WriteMember m \<in> set (access_writes plan)"
    unfolding access_writes_planned [OF P ok dir] using member_writes_iff [OF ok dir q(1), of m] q by blast
  then show ?l unfolding set_roster_rows using a q(7) by (simp add: backfill_row_def)
qed

text \<open>A store write that reports failure changes nothing, so an interrupted or stopped batch is the batch of the writes before it.\<close>

lemma apply_write_stopped:
  assumes "apply_write w s = Inr (False, s')" shows "s' = s"
proof (cases w)
  case (WriteOwnership r)
  show ?thesis
    by (cases rule: commit_ownership_cases [of r True None s])
      (use WriteOwnership assms in \<open>auto simp: apply_ownership_def initializeOwnershipIfMissing_def split: if_split_asm\<close>)
next
  case (WriteMember m)
  then show ?thesis using assms by (auto simp: putMember_def putCapsuleMember_def split: if_split_asm option.split_asm)
next
  case (WriteConnection k owner)
  then show ?thesis using assms by (auto simp: setConnectionOwnerIfMissing_def split: if_split_asm option.split_asm)
next
  case (WriteUsage k payer)
  then show ?thesis using assms
    by (auto simp: setUsagePayerIfMissing_def control_setUsagePayerIfMissing_def split: if_split_asm option.split_asm)
next
  case (WriteBilling r)
  then show ?thesis using assms by (auto simp: putAccountBillingBinding_def split: if_split_asm)
qed

lemma apply_writes_prefix:
  assumes "apply_writes ws n s = (r, s')"
  obtains us vs where "ws = us @ vs" "apply_writes us n s = (Inr (n + length us), s')"
  using assms
proof (induction ws arbitrary: n s thesis)
  case (Cons w ws)
  show ?case
  proof (cases "apply_write w s")
    case (Inr p)
    obtain b s1 where p: "p = (b, s1)" by (cases p)
    show ?thesis
    proof (cases b)
      case True
      with Cons.prems(2) Inr p have "apply_writes ws (Suc n) s1 = (r, s')" by simp
      then obtain us vs where u: "ws = us @ vs" "apply_writes us (Suc n) s1 = (Inr (Suc n + length us), s')" using Cons.IH [of "Suc n" s1] by blast
      show ?thesis by (rule Cons.prems(1) [of "w # us" vs]) (use u True Inr p in simp_all)
    next
      case False
      then show ?thesis using Cons.prems(1) [of "[]" "w # ws"] Cons.prems(2) Inr p apply_write_stopped [of w s s1] by simp
    qed
  qed (use Cons.prems(1) [of "[]" "w # ws"] Cons.prems(2) in simp)
qed simp

text \<open>Every call of the application, also one that throws, has written some prefix of its plan.\<close>

lemma applyAppOwnershipBackfill_effect:
  assumes "applyAppOwnershipBackfill digest localeCompare frozen expected batch s = (r, s')" "app_ok s"
  shows "s' = s \<or> (\<exists>plan us vs. planAppOwnershipBackfill localeCompare s = Inr plan \<and> bp_writes plan = us @ vs
    \<and> same_directory s s' \<and> app_ok s' \<and> fills (ownership_rows us) (capsuleOwnership s) (capsuleOwnership s')
    \<and> fills (roster_rows us) (capsuleMembers s) (capsuleMembers s'))"
proof (cases "s' = s")
  case False
  with assms(1) obtain plan where plan: "planAppOwnershipBackfill localeCompare s = Inr plan" "apply_writes (take (nat batch) (bp_writes plan)) 0 s = (r, s')"
    unfolding applyAppOwnershipBackfill_def by (auto split: if_split_asm sum.split_asm)
  obtain us vs where u: "take (nat batch) (bp_writes plan) = us @ vs" "apply_writes us 0 s = (Inr (0 + length us), s')"
    by (rule apply_writes_prefix [OF plan(2)])
  have "bp_writes plan = us @ vs @ drop (nat batch) (bp_writes plan)" using append_take_drop_id [of "nat batch" "bp_writes plan"] u(1) by simp
  with plan(1) apply_writes_effect [OF u(2) assms(2)] show ?thesis by blast
qed simp

section \<open>The access the backfill settles on\<close>

text \<open>Specification: the owner and the roster of an app as they stand once nothing is left to write. A stored row decides;
  where none is stored the Workspace's owner and managers do.\<close>

definition settled_owner :: "app_store \<Rightarrow> string \<Rightarrow> capsule \<Rightarrow> (string \<times> int) option" where
  "settled_owner s k c =
     (case getOwnership s k of Some own \<Rightarrow> Some (own_ownerAccountId own, own_ownershipEpoch own)
      | None \<Rightarrow> map_option (\<lambda>w. (ws_ownerUserId w, 0)) (js_get (workspaces s) (cap_workspaceId c)))"

definition settled_member :: "app_store \<Rightarrow> string \<Rightarrow> capsule \<Rightarrow> string \<Rightarrow> bool" where
  "settled_member s k c a =
     (case js_get (capsuleMembers s) (capsuleMemberKey k a) of
        Some m \<Rightarrow> cm_status m = ''active''
      | None \<Rightarrow> (case js_get (workspaces s) (cap_workspaceId c) of None \<Rightarrow> False
          | Some w \<Rightarrow> (case capsuleScopeRef c of Inl _ \<Rightarrow> False
              | Inr scope \<Rightarrow> backfills_roster s w scope c
                  \<and> (case js_get (workspaceMembers s) (workspaceMemberKey (cap_workspaceId c) a) of None \<Rightarrow> False
                     | Some x \<Rightarrow> manages_workspace x))))"

definition settled_access :: "app_store \<Rightarrow> string \<Rightarrow> string \<Rightarrow> app_access option" where
  "settled_access s a k =
     (if a = [] \<or> k = [] then None
      else case getCapsule s k of None \<Rightarrow> None
      | Some c \<Rightarrow> if cap_status c = ''destroyed'' then None
          else case settled_owner s k c of None \<Rightarrow> None
            | Some (owner, epoch) \<Rightarrow>
                if a = owner then Some \<lparr>acc_capsuleId = k, acc_role = AppOwner, acc_ownerAccountId = owner, acc_ownershipEpoch = epoch\<rparr>
                else if settled_member s k c a
                then Some \<lparr>acc_capsuleId = k, acc_role = AppMember, acc_ownerAccountId = owner, acc_ownershipEpoch = epoch\<rparr> else None)"

text \<open>A store whose inventory can be taken: every Workspace has an owner and every Capsule of one has a scope.\<close>

definition plannable :: "app_store \<Rightarrow> bool" where
  "plannable s \<longleftrightarrow> (\<forall>w \<in> set (js_values (workspaces s)). ws_ownerUserId w \<noteq> []
     \<and> (\<forall>c \<in> set (js_values (capsules s)). cap_workspaceId c = ws_id w \<longrightarrow> (\<exists>scope. capsuleScopeRef c = Inr scope)))"

lemma plan_plannable: "planAppOwnershipBackfill localeCompare s = Inr plan \<Longrightarrow> plannable s"
  using plan_access(2,3) by (fastforce simp: plannable_def)

lemma plannable_same: "same_directory s s' \<Longrightarrow> plannable s' = plannable s" "same_directory s s' \<Longrightarrow> directory_ok s' = directory_ok s"
  by (simp_all add: plannable_def same_directory_def directory_ok_def)

lemma plannable_capsule:
  assumes "plannable s" "directory_ok s" "js_get (capsules s) k = Some c" "js_get (workspaces s) (cap_workspaceId c) = Some w"
  shows "ws_ownerUserId w \<noteq> []" "\<exists>scope. planned s k c w scope"
  using assms js_values_get [OF assms(3)] js_values_get [OF assms(4)] directory_workspace(2) [OF assms(2,4)]
  by (auto simp: plannable_def planned_def)

lemma unowned_roster:
  assumes "app_ok s" "js_get (capsules s) k = Some c" "getOwnership s k = None"
  shows "js_get (capsuleMembers s) (capsuleMemberKey k a) = None"
  using no_roster_without_owner [OF assms(1) _ conjunct2 [OF app_ok_capsule [OF assms(1,2)]]] assms(3)
  by (simp add: getOwnership_def getCapsuleOwnership_def)

lemma settled_unowned:
  assumes "app_ok s" "directory_ok s" "plannable s" "getOwnership s k = None"
  shows "settled_access s a k = resolveAppAccess s a k"
proof (cases "getCapsule s k")
  case (Some c)
  then have c: "js_get (capsules s) k = Some c" by (simp add: getCapsule_def)
  show ?thesis
  proof (cases "js_get (workspaces s) (cap_workspaceId c)")
    case (Some w)
    note pc = plannable_capsule [OF assms(3,2) c Some]
    from pc(2) obtain scope where "capsuleScopeRef c = Inr scope" by (auto simp: planned_def)
    with pc(1) \<open>getCapsule s k = Some c\<close> Some assms(4) unowned_roster [OF assms(1) c assms(4), of a] app_ok_capsule [OF assms(1) c] show ?thesis
      by (auto simp: settled_access_def settled_owner_def settled_member_def resolveAppAccess_def backfills_roster_def Let_def split: option.split)
  qed (use Some assms(4) in \<open>simp add: settled_access_def settled_owner_def resolveAppAccess_def\<close>)
qed (simp add: settled_access_def resolveAppAccess_def)

lemma roster_status:
  assumes "app_ok s" "js_get (capsules s) k = Some c"
  shows "active_on_roster s k a \<longleftrightarrow> map_option cm_status (js_get (capsuleMembers s) (capsuleMemberKey k a)) = Some ''active''"
  by (rule active_on_roster_lookup [OF assms(1) conjunct2 [OF app_ok_capsule [OF assms]]])

lemma settled_extends:
  assumes "app_ok s" "directory_ok s" "plannable s" "resolveAppAccess s a k = Some x"
  shows "settled_access s a k = Some x"
proof (cases "getOwnership s k")
  case (Some own)
  from assms(4) obtain c where c: "js_get (capsules s) k = Some c"
    by (auto simp: resolveAppAccess_def getCapsule_def split: if_split_asm option.split_asm)
  from assms(4) Some c roster_status [OF assms(1) c, of a] show ?thesis
    by (auto simp: settled_access_def settled_owner_def settled_member_def resolveAppAccess_def getCapsule_def Let_def split: if_split_asm)
qed (use settled_unowned [OF assms(1-3)] assms(4) in simp)

lemma settled_final:
  assumes P: "planAppOwnershipBackfill localeCompare s = Inr plan" and ok: "app_ok s" and dir: "directory_ok s" and none: "access_writes plan = []"
  shows "resolveAppAccess s a k = settled_access s a k"
proof (cases "getOwnership s k")
  case None
  then show ?thesis using settled_unowned [OF ok dir plan_plannable [OF P]] by simp
next
  case (Some own)
  show ?thesis
  proof (cases "getCapsule s k")
    case c: (Some c)
    then have g: "js_get (capsules s) k = Some c" by (simp add: getCapsule_def)
    have "settled_member s k c a \<longleftrightarrow> active_on_roster s k a" if a: "a \<noteq> own_ownerAccountId own"
    proof (cases "js_get (capsuleMembers s) (capsuleMemberKey k a)")
      case free: None
      have "\<not> settled_member s k c a"
      proof
        assume "settled_member s k c a"
        then obtain w scope x where q: "planned s k c w scope" "backfills_roster s w scope c"
          "js_get (workspaceMembers s) (workspaceMemberKey (cap_workspaceId c) a) = Some x" "manages_workspace x"
          using free g by (auto simp: settled_member_def planned_def split: option.split_asm sum.split_asm)
        have "a \<noteq> backfill_owner s w c" using a Some planned_id(1) [OF ok dir q(1)] by (simp add: backfill_owner_def)
        then have "(capsuleMemberKey k a, backfill_row s k w c x) \<in> set (roster_rows (access_writes plan))"
          unfolding planned_member [OF P ok dir planned_id(2) [OF ok dir q(1)]] using q free by blast
        then show False by (simp add: none)
      qed
      then show ?thesis using free roster_status [OF ok g, of a] by simp
    qed (simp add: settled_member_def roster_status [OF ok g])
    then show ?thesis using c Some by (auto simp: resolveAppAccess_def settled_access_def settled_owner_def Let_def)
  qed (simp add: resolveAppAccess_def settled_access_def)
qed

lemma fills_row: "fills rows m m' \<Longrightarrow> js_get m' k = js_get m k \<or> js_get m k = None \<and> (\<exists>v. js_get m' k = Some v \<and> (k, v) \<in> set rows)"
  by (cases "js_get m k"; cases "map_of rows k") (auto simp: fills_def dest: map_of_SomeD)

text \<open>The store after a prefix of a plan's writes.\<close>

definition batch_effect :: "(string \<Rightarrow> string \<Rightarrow> int) \<Rightarrow> app_store \<Rightarrow> app_store \<Rightarrow> bool" where
  "batch_effect localeCompare s s' \<longleftrightarrow> (\<exists>plan us vs. planAppOwnershipBackfill localeCompare s = Inr plan \<and> bp_writes plan = us @ vs
    \<and> same_directory s s' \<and> app_ok s' \<and> fills (ownership_rows us) (capsuleOwnership s) (capsuleOwnership s')
    \<and> fills (roster_rows us) (capsuleMembers s) (capsuleMembers s'))"

lemma planned_prefix:
  assumes "bp_writes plan = us @ vs"
  shows "set (ownership_rows us) \<subseteq> set (ownership_rows (access_writes plan))" "set (roster_rows us) \<subseteq> set (roster_rows (access_writes plan))"
  unfolding access_writes_def rows_of_access assms by (auto simp: set_ownership_rows set_roster_rows)

lemma batch_owner:
  assumes b: "batch_effect localeCompare s s'" and ok: "app_ok s" and dir: "directory_ok s" and c: "js_get (capsules s) k = Some c"
  shows "getOwnership s' k = getOwnership s k \<or> getOwnership s k = None \<and> (\<exists>w scope. planned s k c w scope \<and> getOwnership s' k =
    Some \<lparr>own_capsuleId = k, own_ownerAccountId = ws_ownerUserId w, own_ownershipEpoch = 0, own_managementState = Active,
          own_managementEpoch = 0, own_storageRoot = legacy_root scope c\<rparr>)"
proof -
  from b obtain plan us vs where P: "planAppOwnershipBackfill localeCompare s = Inr plan" "bp_writes plan = us @ vs"
    "fills (ownership_rows us) (capsuleOwnership s) (capsuleOwnership s')" unfolding batch_effect_def by blast
  from fills_row [OF P(3), of k] planned_prefix(1) [OF P(2)]
  have "getOwnership s' k = getOwnership s k \<or> getOwnership s k = None \<and> (\<exists>r. getOwnership s' k = Some r \<and> (k, r) \<in> set (ownership_rows (access_writes plan)))"
    by (auto simp: getOwnership_def getCapsuleOwnership_def)
  then show ?thesis unfolding planned_owner [OF P(1) ok dir, of k] using c by (fastforce simp: planned_def)
qed

lemma batch_roster:
  assumes b: "batch_effect localeCompare s s'" and ok: "app_ok s" and dir: "directory_ok s" and c: "js_get (capsules s) k = Some c"
  shows "js_get (capsuleMembers s') (capsuleMemberKey k a) = js_get (capsuleMembers s) (capsuleMemberKey k a)
    \<or> settled_member s k c a \<and> settled_member s' k c a"
proof -
  have k: "CHR 0x00 \<notin> set k" using app_ok_capsule [OF ok c] by simp
  from b obtain plan us vs where P: "planAppOwnershipBackfill localeCompare s = Inr plan" "bp_writes plan = us @ vs"
    "fills (roster_rows us) (capsuleMembers s) (capsuleMembers s')" unfolding batch_effect_def by blast
  let ?key = "capsuleMemberKey k a"
  from fills_row [OF P(3), of ?key] planned_prefix(2) [OF P(2)]
  have "js_get (capsuleMembers s') ?key = js_get (capsuleMembers s) ?key
    \<or> js_get (capsuleMembers s) ?key = None \<and> (\<exists>m. js_get (capsuleMembers s') ?key = Some m \<and> (?key, m) \<in> set (roster_rows (access_writes plan)))" by blast
  then show ?thesis unfolding planned_member [OF P(1) ok dir k] using c by (fastforce simp: planned_def settled_member_def backfill_row_def)
qed

lemma batch_settled:
  assumes b: "batch_effect localeCompare s s'" and ok: "app_ok s" and dir: "directory_ok s"
  shows "settled_access s' a k = settled_access s a k"
proof (cases "getCapsule s k")
  case (Some c)
  then have c: "js_get (capsules s) k = Some c" by (simp add: getCapsule_def)
  have id: "cap_id c = k" using app_ok_capsule [OF ok c] by simp
  have same: "same_directory s s'" using b unfolding batch_effect_def by blast
  note own = batch_owner [OF b ok dir c]
  have "backfills_roster s' w scope c = backfills_roster s w scope c"
    if "js_get (workspaces s) (cap_workspaceId c) = Some w" "capsuleScopeRef c = Inr scope" for w scope
    using own that id by (auto simp: backfills_roster_def planned_def)
  then have "settled_member s' k c a = settled_member s k c a"
    using batch_roster [OF b ok dir c, of a] same by (auto simp: settled_member_def same_directory_def split: option.split sum.split)
  moreover have "settled_owner s' k c = settled_owner s k c"
    using own same by (auto simp: settled_owner_def same_directory_def planned_def split: option.split)
  ultimately show ?thesis using same c by (simp add: settled_access_def getCapsule_def same_directory_def split: option.split)
next
  case None
  then have "getCapsule s' k = None" using b by (auto simp: batch_effect_def getCapsule_def same_directory_def)
  with None show ?thesis by (simp add: settled_access_def)
qed

section \<open>A run of batches\<close>

text \<open>The operator calls the application again and again, each call with its own digest, batch size and freeze flag; a call
  may also throw, with the writes made before the throw kept.\<close>

inductive backfill_run :: "(backfill_plan \<Rightarrow> string) \<Rightarrow> (string \<Rightarrow> string \<Rightarrow> int) \<Rightarrow> app_store \<Rightarrow> app_store \<Rightarrow> bool"
  for digest localeCompare s where
  run_start: "backfill_run digest localeCompare s s"
| run_batch: "backfill_run digest localeCompare s s1 \<Longrightarrow>
    applyAppOwnershipBackfill digest localeCompare frozen expected batch s1 = (r, s2) \<Longrightarrow> backfill_run digest localeCompare s s2"

lemma backfill_run_settled:
  assumes "backfill_run digest localeCompare s s'" "app_ok s" "directory_ok s"
  shows "app_ok s' \<and> same_directory s s' \<and> directory_ok s' \<and> (\<forall>a k. settled_access s' a k = settled_access s a k)"
  using assms(1)
proof induction
  case (run_batch s1 frozen expected batch r s2)
  from applyAppOwnershipBackfill_effect [OF run_batch(2) conjunct1 [OF run_batch.IH]]
  have "s2 = s1 \<or> batch_effect localeCompare s1 s2" by (simp add: batch_effect_def)
  then show ?case
  proof
    assume b: "batch_effect localeCompare s1 s2"
    then have s2: "same_directory s1 s2" "app_ok s2" unfolding batch_effect_def by blast+
    with run_batch.IH batch_settled [OF b] plannable_same(2) [OF s2(1)] same_directory_trans [OF _ s2(1), of s] show ?thesis by simp
  qed (use run_batch.IH in simp)
qed (use assms(2,3) in \<open>simp add: same_directory_def\<close>)

text \<open>A batch as long as its plan leaves no ownership or roster row to write.\<close>

lemma inventory_all_total: "(\<And>x iv. x \<in> set xs \<Longrightarrow> \<exists>iv'. step x iv = Inr iv') \<Longrightarrow> \<exists>iv'. inventory_all step xs iv = Inr iv'"
proof (induction xs arbitrary: iv)
  case (Cons x xs)
  obtain iv1 where "step x iv = Inr iv1" using Cons.prems [of x] by auto
  then show ?case using Cons.IH [of iv1] Cons.prems by simp
qed simp

lemma chain_total: "\<exists>v. r = Inr v \<Longrightarrow> \<exists>w. chain r (\<lambda>v. Inr (f v)) = Inr w"
  by auto

lemma plannable_plan:
  assumes "plannable s" shows "\<exists>plan. planAppOwnershipBackfill localeCompare s = Inr plan"
proof -
  let ?cs = "by_locale localeCompare cap_id (listCapsules localeCompare s None)" and ?ws = "by_locale localeCompare ws_id (listWorkspaces localeCompare s)"
  have step: "\<exists>iv'. inventory_workspace localeCompare s ?cs w iv = Inr iv'" if "w \<in> set ?ws" for w iv
  proof -
    have w: "w \<in> set (js_values (workspaces s))" using that by (simp add: by_locale_def listWorkspaces_def)
    have "\<exists>iv'. inventory_capsule s w members c iv = Inr iv'" if "c \<in> set (filter (\<lambda>c. cap_workspaceId c = ws_id w) ?cs)" for members c iv
    proof -
      from that have "c \<in> set (js_values (capsules s))" "cap_workspaceId c = ws_id w" by (simp_all add: by_locale_def listCapsules_def)
      with assms w obtain scope where "capsuleScopeRef c = Inr scope" by (auto simp: plannable_def)
      then show ?thesis by (simp add: inventory_capsule_def Let_def)
    qed
    then have "\<exists>iv'. inventory_all (inventory_capsule s w members) (filter (\<lambda>c. cap_workspaceId c = ws_id w) ?cs) iv = Inr iv'" for members iv
      by (rule inventory_all_total)
    then show ?thesis unfolding inventory_workspace_def Let_def using assms w by (simp add: plannable_def chain_total)
  qed
  show ?thesis unfolding planAppOwnershipBackfill_def Let_def by (rule chain_total) (rule inventory_all_total [OF step])
qed

lemma full_batch_writes_all:
  assumes call: "applyAppOwnershipBackfill digest localeCompare frozen expected batch s = (Inr n, s')" and ok: "app_ok s"
    and P: "planAppOwnershipBackfill localeCompare s = Inr plan" and all: "length (bp_writes plan) \<le> nat batch"
  shows "same_directory s s'" "app_ok s'" "fills (ownership_rows (access_writes plan)) (capsuleOwnership s) (capsuleOwnership s')"
    "fills (roster_rows (access_writes plan)) (capsuleMembers s) (capsuleMembers s')" "n = length (bp_writes plan)"
proof -
  from call P all have "apply_writes (bp_writes plan) 0 s = (Inr n, s')"
    unfolding applyAppOwnershipBackfill_def by (auto split: if_split_asm)
  from apply_writes_effect [OF this ok] show "same_directory s s'" "app_ok s'" "fills (ownership_rows (access_writes plan)) (capsuleOwnership s) (capsuleOwnership s')"
    "fills (roster_rows (access_writes plan)) (capsuleMembers s) (capsuleMembers s')" "n = length (bp_writes plan)"
    by (simp_all add: access_writes_def rows_of_access)
qed

lemma fills_none: "fills rows m m' \<Longrightarrow> js_get m' k = None \<Longrightarrow> js_get m k = None \<and> (k, v) \<notin> set rows"
  by (cases "js_get m k") (auto simp: fills_def map_of_eq_None_iff image_iff)

lemma no_access_writes:
  assumes P: "planAppOwnershipBackfill localeCompare s = Inr plan" and ok: "app_ok s" and dir: "directory_ok s"
    and own: "\<And>k r. (k, r) \<notin> set (ownership_rows (access_writes plan))"
    and mem: "\<And>k a m. CHR 0x00 \<notin> set k \<Longrightarrow> (capsuleMemberKey k a, m) \<notin> set (roster_rows (access_writes plan))"
  shows "access_writes plan = []"
proof -
  have "x \<notin> set (access_writes plan)" for x
  proof (cases x)
    case (WriteOwnership r)
    then show ?thesis using own [of "own_capsuleId r" r] by (simp add: set_ownership_rows)
  next
    case (WriteMember m)
    show ?thesis
    proof
      assume x: "x \<in> set (access_writes plan)"
      then obtain k c w scope where p: "planned s k c w scope" "WriteMember m \<in> set (member_writes s w scope (workspace_members localeCompare s w) c)"
        unfolding access_writes_planned [OF P ok dir] WriteMember by (auto simp: ownership_write_def split: if_split_asm)
      then have "cm_capsuleId m = k" using planned_id(1) [OF ok dir p(1)] by (auto simp: member_writes_def split: if_split_asm)
      with mem [OF planned_id(2) [OF ok dir p(1)], of "cm_accountId m" m] x WriteMember show False by (simp add: set_roster_rows)
    qed
  qed (simp_all add: access_writes_def)
  then show ?thesis by (metis list.set_intros(1) neq_Nil_conv)
qed

lemma full_batch_settles:
  assumes call: "applyAppOwnershipBackfill digest localeCompare frozen expected batch s = (Inr n, s')" and ok: "app_ok s" and dir: "directory_ok s"
    and P: "planAppOwnershipBackfill localeCompare s = Inr plan" and all: "length (bp_writes plan) \<le> nat batch"
  shows "\<exists>plan'. planAppOwnershipBackfill localeCompare s' = Inr plan' \<and> access_writes plan' = []"
proof -
  note e = full_batch_writes_all [OF call ok P all]
  have "plannable s'" using plannable_same(1) [OF e(1)] plan_plannable [OF P] by simp
  then obtain plan' where P': "planAppOwnershipBackfill localeCompare s' = Inr plan'" using plannable_plan by blast
  have dir': "directory_ok s'" using plannable_same(2) [OF e(1)] dir by simp
  have pl: "planned s' = planned s" using e(1) by (simp add: planned_def same_directory_def fun_eq_iff)
  have own: "(k, r) \<notin> set (ownership_rows (access_writes plan'))" for k r
    unfolding planned_owner [OF P' e(2) dir'] pl
    using fills_none [OF e(3), of k r, unfolded planned_owner [OF P ok dir]] unfolding getOwnership_def getCapsuleOwnership_def by blast
  have mem: "(capsuleMemberKey k a, m) \<notin> set (roster_rows (access_writes plan'))" if k: "CHR 0x00 \<notin> set k" for k a m
  proof
    assume "(capsuleMemberKey k a, m) \<in> set (roster_rows (access_writes plan'))"
    then obtain c w scope x where q: "planned s k c w scope" "backfills_roster s' w scope c" "a \<noteq> backfill_owner s' w c"
      "js_get (workspaceMembers s) (workspaceMemberKey (cap_workspaceId c) a) = Some x" "manages_workspace x"
      "js_get (capsuleMembers s') (capsuleMemberKey k a) = None"
      unfolding planned_member [OF P' e(2) dir' k] pl using e(1) by (auto simp: same_directory_def)
    have c: "js_get (capsules s) k = Some c" using q(1) by (simp add: planned_def)
    have b: "batch_effect localeCompare s s'" unfolding batch_effect_def
      using P e by (intro exI [of _ plan] exI [of _ "bp_writes plan"] exI [of _ "[]"]) (simp add: access_writes_def rows_of_access)
    have "backfills_roster s w scope c \<and> backfill_owner s' w c = backfill_owner s w c"
      using batch_owner [OF b ok dir c] q(1,2) planned_id(1) [OF ok dir q(1)] by (auto simp: backfills_roster_def backfill_owner_def planned_def)
    with q fills_none [OF e(4) q(6)] planned_member [OF P ok dir k, of a] show False by metis
  qed
  from no_access_writes [OF P' e(2) dir' own mem] P' show ?thesis by blast
qed

lemma backfill_run_final:
  assumes "backfill_run digest localeCompare s s'" "app_ok s" "directory_ok s" "planAppOwnershipBackfill localeCompare s' = Inr plan" "access_writes plan = []"
  shows "plannable s" "resolveAppAccess s' a k = settled_access s a k"
  using backfill_run_settled [OF assms(1-3)] settled_final [OF assms(4) _ _ assms(5), of a k] plan_plannable [OF assms(4)] plannable_same(1) [of s s'] by simp_all

lemma backfill_run_unowned:
  assumes "backfill_run digest localeCompare s s'" "app_ok s" "directory_ok s" "planAppOwnershipBackfill localeCompare s' = Inr plan" "access_writes plan = []"
    "getOwnership s k = None"
  shows "resolveAppAccess s' a k = resolveAppAccess s a k"
  using backfill_run_final [OF assms(1-5)] settled_unowned [OF assms(2,3) _ assms(6)] by simp

end
