(* ===== verification/App_Cutover.thy ===== *)
theory App_Cutover
  imports App_Backfill
begin

text \<open>
  The read-only comparison of the Workspace decision with the app decision before the authorization cutover,
  \<open>core/domains/app-ownership/access-cutover-diff.ts\<close>, over the in-memory stores, and that its report is exact: it
  lists a difference just where the live resolver of \<open>store.ts\<close> decides otherwise than the Workspace rule.
\<close>

section \<open>The two rules\<close>

datatype access_class = View | Manage | OwnerOnly

datatype cutover_reason =
    WorkspaceReaderNotAppMember
  | WorkspaceManagerNotAppOwner
  | WorkspaceManagerNotAppMember
  | AppRoleBeyondWorkspaceRole
  | AppRoleWithoutWorkspaceRole

datatype ownership_source = OwnershipRow | BackfillProjection | MixedSource

record cutover_difference =
  cd_workspaceId :: string
  cd_capsuleId :: "string option"
  cd_sourceId :: "string option"
  cd_accountId :: string
  cd_accessClass :: access_class
  cd_workspaceDecision :: bool
  cd_appDecision :: bool
  cd_appRole :: "app_role option"
  cd_ownershipSource :: ownership_source
  cd_reason :: cutover_reason
  cd_affectsBothRequiredCredentials :: bool

record cutover_report =
  cr_capsulesChecked :: nat
  cr_capsulesProjectedFromBackfill :: nat
  cr_sourcesChecked :: nat
  cr_pairsChecked :: nat
  cr_differenceCount :: nat
  cr_differencesByClass :: "nat \<times> nat \<times> nat"
  cr_differences :: "cutover_difference list"

definition CLASSES :: "access_class list" where
  "CLASSES = [View, Manage, OwnerOnly]"

datatype workspace_role = WsOwner | WsManager | WsReader

definition workspaceRole :: "string \<Rightarrow> string \<Rightarrow> member option \<Rightarrow> workspace_role option" where
  "workspaceRole ownerUserId accountId m =
     (if accountId = ownerUserId then Some WsOwner
      else case m of None \<Rightarrow> None
        | Some row \<Rightarrow>
            if mem_status row \<noteq> ''active'' then None
            else if list_ex (\<lambda>r. r = ''owner'' \<or> r = ''admin'') (mem_roles row) then Some WsManager else Some WsReader)"

fun workspaceAllows :: "workspace_role option \<Rightarrow> access_class \<Rightarrow> bool" where
  "workspaceAllows None cls = False"
| "workspaceAllows (Some role) cls = (if cls = View then True else role \<noteq> WsReader)"

fun appAllows :: "app_role option \<Rightarrow> access_class \<Rightarrow> bool" where
  "appAllows None cls = False"
| "appAllows (Some role) cls = (if cls = OwnerOnly then role = AppOwner else True)"

definition reasonFor :: "workspace_role option \<Rightarrow> app_role option \<Rightarrow> bool \<Rightarrow> cutover_reason" where
  "reasonFor wsRole appRole workspaceDecision =
     (if \<not> workspaceDecision then (if wsRole = None then AppRoleWithoutWorkspaceRole else AppRoleBeyondWorkspaceRole)
      else if wsRole = Some WsReader then WorkspaceReaderNotAppMember
      else if appRole = None then WorkspaceManagerNotAppMember else WorkspaceManagerNotAppOwner)"

section \<open>Rosters\<close>

text \<open>The in-memory store has \<open>readOwnershipFence\<close> and no schema to miss, so the \<open>catch\<close> is not reached.\<close>

definition readOwnership :: "app_store \<Rightarrow> string \<Rightarrow> capsule_ownership option" where
  "readOwnership s k = snd (readOwnershipFence s k)"

record app_roster =
  ar_ownerAccountId :: string
  ar_members :: "string list"
  ar_projected :: bool

definition js_set_of :: "string list \<Rightarrow> string list" where
  "js_set_of ids = foldl (\<lambda>ids' k. js_set_add k ids') [] ids"

definition buildRoster :: "app_store \<Rightarrow> workspace \<Rightarrow> member list \<Rightarrow> string \<Rightarrow> app_roster" where
  "buildRoster s w members k =
     (let existing = readOwnership s k;
          owner = (case existing of Some own \<Rightarrow> own_ownerAccountId own | None \<Rightarrow> ws_ownerUserId w);
          roster = (case existing of
              Some _ \<Rightarrow> js_set_of (map cm_accountId (filter (\<lambda>m. cm_status m = ''active'') (listMembers s k)))
            | None \<Rightarrow> js_set_of (map mem_accountId (filter manages_workspace members)))
      in \<lparr>ar_ownerAccountId = owner, ar_members = filter (\<lambda>a. a \<noteq> owner) roster, ar_projected = (existing = None)\<rparr>)"

definition sourceOwnerRoster ::
    "app_store \<Rightarrow> capsule list \<Rightarrow> workspace \<Rightarrow> member list \<Rightarrow> string \<Rightarrow> (string, app_roster) js_map
     \<Rightarrow> app_roster option \<times> (string, app_roster) js_map" where
  "sourceOwnerRoster s cs w members k rosters =
     (case js_get rosters k of
        Some known \<Rightarrow> (Some known, rosters)
      | None \<Rightarrow>
          (case find (\<lambda>c. cap_id c = k) cs of
             None \<Rightarrow> (None, rosters)
           | Some c \<Rightarrow>
               if cap_workspaceId c \<noteq> ws_id w \<or> cap_status c \<noteq> ''destroyed'' then (None, rosters)
               else let roster = buildRoster s w members k in (Some roster, js_set k roster rosters)))"

definition roleIn :: "app_roster \<Rightarrow> string \<Rightarrow> app_role option" where
  "roleIn roster a =
     (if a = ar_ownerAccountId roster then Some AppOwner else if a \<in> set (ar_members roster) then Some AppMember else None)"

section \<open>The comparison\<close>

record cutover_state =
  ct_pairsChecked :: nat
  ct_differences :: "cutover_difference list"

definition compare_accounts :: "workspace \<Rightarrow> member list \<Rightarrow> app_roster list \<Rightarrow> string list" where
  "compare_accounts w members apps =
     js_sort code_unit_compare
       (js_set_of (ws_ownerUserId w # map mem_accountId members @ concat (map (\<lambda>r. ar_ownerAccountId r # ar_members r) apps)))"

definition compare_source :: "app_roster list \<Rightarrow> ownership_source" where
  "compare_source apps =
     (if list_all ar_projected apps then BackfillProjection
      else if list_all (\<lambda>r. \<not> ar_projected r) apps then OwnershipRow else MixedSource)"

definition weakest_role :: "app_role option list \<Rightarrow> app_role option" where
  "weakest_role roles =
     (if list_all (\<lambda>r. r = Some AppOwner) roles then Some AppOwner
      else if list_all (\<lambda>r. r \<noteq> None) roles then Some AppMember else None)"

definition compare_class ::
    "workspace \<Rightarrow> string option \<Rightarrow> string option \<Rightarrow> ownership_source \<Rightarrow> string \<Rightarrow> workspace_role option \<Rightarrow> app_role option list
     \<Rightarrow> access_class \<Rightarrow> cutover_difference list" where
  "compare_class w capsuleId sourceId src a wsRole roles cls =
     (let workspaceDecision = workspaceAllows wsRole cls; appDecision = list_all (\<lambda>r. appAllows r cls) roles in
      if workspaceDecision = appDecision then []
      else [\<lparr>cd_workspaceId = ws_id w, cd_capsuleId = capsuleId, cd_sourceId = sourceId, cd_accountId = a, cd_accessClass = cls,
             cd_workspaceDecision = workspaceDecision, cd_appDecision = appDecision, cd_appRole = weakest_role roles,
             cd_ownershipSource = src, cd_reason = reasonFor wsRole (weakest_role roles) workspaceDecision,
             cd_affectsBothRequiredCredentials = (workspaceDecision \<and> \<not> appDecision)\<rparr>])"

definition compare_account ::
    "workspace \<Rightarrow> member list \<Rightarrow> string option \<Rightarrow> string option \<Rightarrow> app_roster list \<Rightarrow> string \<Rightarrow> cutover_state \<Rightarrow> cutover_state" where
  "compare_account w members capsuleId sourceId apps a st =
     (let wsRole = workspaceRole (ws_ownerUserId w) a (map_of (rev (map (\<lambda>m. (mem_accountId m, m)) members)) a);
          roles = map (\<lambda>roster. roleIn roster a) apps in
      if wsRole = None \<and> list_all (\<lambda>r. r = None) roles then st
      else st\<lparr>ct_pairsChecked := Suc (ct_pairsChecked st),
              ct_differences := ct_differences st
                @ concat (map (compare_class w capsuleId sourceId (compare_source apps) a wsRole roles) CLASSES)\<rparr>)"

definition compare_target ::
    "workspace \<Rightarrow> member list \<Rightarrow> string option \<Rightarrow> string option \<Rightarrow> app_roster list \<Rightarrow> cutover_state \<Rightarrow> cutover_state" where
  "compare_target w members capsuleId sourceId apps st =
     fold (compare_account w members capsuleId sourceId apps) (compare_accounts w members apps) st"

definition compare_source_row ::
    "app_store \<Rightarrow> capsule list \<Rightarrow> workspace \<Rightarrow> member list \<Rightarrow> capsule list \<Rightarrow> source_row
     \<Rightarrow> (string, app_roster) js_map \<times> nat \<times> cutover_state \<Rightarrow> (string, app_roster) js_map \<times> nat \<times> cutover_state" where
  "compare_source_row s cs w members live source =
     (\<lambda>(rosters, checked, st).
       let (apps, rosters') =
             (if \<not> falsy (src_ownerCapsuleId source)
              then (case sourceOwnerRoster s cs w members (the (src_ownerCapsuleId source)) rosters of
                      (Some owner, rosters') \<Rightarrow> ([owner], rosters')
                    | (None, rosters') \<Rightarrow> ([], rosters'))
              else (map (\<lambda>c. the (js_get rosters (cap_id c))) (filter (\<lambda>c. cap_sourceId c = src_id source) live), rosters))
       in if apps = [] then (rosters', checked, st)
          else (rosters', Suc checked, compare_target w members None (Some (src_id source)) apps st))"

definition compare_workspace ::
    "(string \<Rightarrow> string \<Rightarrow> int) \<Rightarrow> app_store \<Rightarrow> capsule list \<Rightarrow> workspace \<Rightarrow> nat \<times> nat \<times> nat \<times> cutover_state
     \<Rightarrow> store_error + (nat \<times> nat \<times> nat \<times> cutover_state)" where
  "compare_workspace localeCompare s cs w =
     (\<lambda>(capsulesChecked, projected, sourcesChecked, st).
       if ws_ownerUserId w = [] then Inl (PlainError ''Access comparison requires a Workspace owner'')
       else let members = filter (\<lambda>m. mem_workspaceId m = ws_id w) (listWorkspaceMembers localeCompare s (ws_id w));
                live = filter (\<lambda>c. cap_workspaceId c = ws_id w \<and> cap_status c \<noteq> ''destroyed'') cs;
                rosters = foldl (\<lambda>rs c. js_set (cap_id c) (buildRoster s w members (cap_id c)) rs) [] live;
                st' = fold (\<lambda>c. compare_target w members (Some (cap_id c)) None [the (js_get rosters (cap_id c))]) live st;
                srcs = by_locale localeCompare src_id (listSources localeCompare s (Some (ws_id w)));
                (rosters', sourcesChecked', st'') = fold (compare_source_row s cs w members live) srcs (rosters, sourcesChecked, st')
            in Inr (capsulesChecked + length live,
                    projected + length (filter (\<lambda>c. ar_projected (buildRoster s w members (cap_id c))) live),
                    sourcesChecked', st''))"

definition planAppAccessCutoverDiff :: "(string \<Rightarrow> string \<Rightarrow> int) \<Rightarrow> app_store \<Rightarrow> store_error + cutover_report" where
  "planAppAccessCutoverDiff localeCompare s =
     (let ws = by_locale localeCompare ws_id (listWorkspaces localeCompare s);
          cs = by_locale localeCompare cap_id (listCapsules localeCompare s None) in
      chain (inventory_all (compare_workspace localeCompare s cs) ws (0, 0, 0, \<lparr>ct_pairsChecked = 0, ct_differences = []\<rparr>))
        (\<lambda>(capsulesChecked, projected, sourcesChecked, st).
          let count = (\<lambda>cls. length (filter (\<lambda>d. cd_accessClass d = cls) (ct_differences st))) in
          Inr \<lparr>cr_capsulesChecked = capsulesChecked, cr_capsulesProjectedFromBackfill = projected, cr_sourcesChecked = sourcesChecked,
               cr_pairsChecked = ct_pairsChecked st, cr_differenceCount = length (ct_differences st),
               cr_differencesByClass = (count View, count Manage, count OwnerOnly), cr_differences = ct_differences st\<rparr>))"

section \<open>What the report lists\<close>

lemma set_js_set_of [simp]: "set (js_set_of ids) = set ids"
proof -
  have "set (foldl (\<lambda>ids' k. js_set_add k ids') acc ids) = set acc \<union> set ids" for acc
    by (induction ids arbitrary: acc) auto
  then show ?thesis by (simp add: js_set_of_def)
qed

text \<open>The differences of one target, over all accounts: those outside the compared ones have no role on either side.\<close>

definition account_role :: "workspace \<Rightarrow> member list \<Rightarrow> string \<Rightarrow> workspace_role option" where
  "account_role w members a = workspaceRole (ws_ownerUserId w) a (map_of (rev (map (\<lambda>m. (mem_accountId m, m)) members)) a)"

definition target_differences ::
    "workspace \<Rightarrow> member list \<Rightarrow> string option \<Rightarrow> string option \<Rightarrow> app_roster list \<Rightarrow> cutover_difference set" where
  "target_differences w members capsuleId sourceId apps = {d. \<exists>a cls.
     d \<in> set (compare_class w capsuleId sourceId (compare_source apps) a (account_role w members a) (map (\<lambda>r. roleIn r a) apps) cls)}"

lemma no_role_no_difference:
  "apps \<noteq> [] \<Longrightarrow> list_all (\<lambda>r. r = None) (map (\<lambda>r. roleIn r a) apps) \<Longrightarrow> compare_class w x y z a None (map (\<lambda>r. roleIn r a) apps) cls = []"
  by (cases apps) (auto simp: compare_class_def)

lemma set_CLASSES [simp]: "set CLASSES = UNIV"
  by (auto simp: CLASSES_def) (metis access_class.exhaust)

lemma compare_account_differences:
  assumes "apps \<noteq> []"
  shows "set (ct_differences (compare_account w members k x apps a st)) = set (ct_differences st)
    \<union> (\<Union>cls. set (compare_class w k x (compare_source apps) a (account_role w members a) (map (\<lambda>r. roleIn r a) apps) cls))"
proof -
  let ?roles = "map (\<lambda>r. roleIn r a) apps"
  show ?thesis
  proof (cases "account_role w members a = None \<and> list_all (\<lambda>r. r = None) ?roles")
    case True
    then have "compare_account w members k x apps a st = st" by (simp add: compare_account_def account_role_def [symmetric])
    moreover have "compare_class w k x (compare_source apps) a (account_role w members a) ?roles cls = []" for cls
      using True no_role_no_difference [OF assms, of a] by simp
    ultimately show ?thesis by simp
  next
    case False
    then have "compare_account w members k x apps a st = st\<lparr>ct_pairsChecked := Suc (ct_pairsChecked st), ct_differences := ct_differences st
        @ concat (map (compare_class w k x (compare_source apps) a (account_role w members a) ?roles) CLASSES)\<rparr>"
      unfolding compare_account_def Let_def account_role_def [symmetric] by (simp only: if_False)
    then show ?thesis by simp
  qed
qed

lemma outside_accounts:
  assumes "apps \<noteq> []" "a \<notin> set (compare_accounts w members apps)"
  shows "compare_class w k x y a (account_role w members a) (map (\<lambda>r. roleIn r a) apps) cls = []"
proof -
  have out: "a \<noteq> ws_ownerUserId w" "a \<notin> mem_accountId ` set members" "\<forall>r \<in> set apps. a \<noteq> ar_ownerAccountId r \<and> a \<notin> set (ar_members r)"
    using assms(2) by (auto simp: compare_accounts_def)
  have "map_of (rev (map (\<lambda>m. (mem_accountId m, m)) members)) a = None" using out(2) by (simp add: map_of_eq_None_iff image_image)
  then have "account_role w members a = None" using out(1) by (simp add: account_role_def workspaceRole_def)
  moreover have "list_all (\<lambda>r. r = None) (map (\<lambda>r. roleIn r a) apps)" using out(3) by (auto simp: list_all_iff roleIn_def)
  ultimately show ?thesis using no_role_no_difference [OF assms(1)] by simp
qed

lemma compare_target_differences:
  assumes "apps \<noteq> []"
  shows "set (ct_differences (compare_target w members k x apps st)) = set (ct_differences st) \<union> target_differences w members k x apps"
proof -
  let ?D = "\<lambda>a. \<Union>cls. set (compare_class w k x (compare_source apps) a (account_role w members a) (map (\<lambda>r. roleIn r a) apps) cls)"
  have "set (ct_differences (fold (compare_account w members k x apps) as st)) = set (ct_differences st) \<union> (\<Union>a \<in> set as. ?D a)" for as
    by (induction as arbitrary: st) (auto simp: compare_account_differences [OF assms])
  then have "set (ct_differences (compare_target w members k x apps st)) = set (ct_differences st) \<union> (\<Union>a \<in> set (compare_accounts w members apps). ?D a)"
    by (simp add: compare_target_def)
  also have "(\<Union>a \<in> set (compare_accounts w members apps). ?D a) = target_differences w members k x apps"
    using outside_accounts [OF assms, of _ w members k x "compare_source apps"] by (fastforce simp: target_differences_def)
  finally show ?thesis .
qed

text \<open>The apps a Source is compared by: its owner app, or else every live app built from it.\<close>

definition live_capsules :: "capsule list \<Rightarrow> workspace \<Rightarrow> capsule list" where
  "live_capsules cs w = filter (\<lambda>c. cap_workspaceId c = ws_id w \<and> cap_status c \<noteq> ''destroyed'') cs"

definition source_apps :: "app_store \<Rightarrow> capsule list \<Rightarrow> workspace \<Rightarrow> member list \<Rightarrow> source_row \<Rightarrow> app_roster list" where
  "source_apps s cs w members source =
     map (\<lambda>c. buildRoster s w members (cap_id c))
       (if falsy (src_ownerCapsuleId source) then filter (\<lambda>c. cap_sourceId c = src_id source) (live_capsules cs w)
        else filter (\<lambda>c. cap_id c = the (src_ownerCapsuleId source) \<and> cap_workspaceId c = ws_id w) cs)"

definition rosters_ok :: "app_store \<Rightarrow> capsule list \<Rightarrow> workspace \<Rightarrow> member list \<Rightarrow> (string, app_roster) js_map \<Rightarrow> bool" where
  "rosters_ok s cs w members rosters \<longleftrightarrow>
     (\<forall>c \<in> set (live_capsules cs w). js_get rosters (cap_id c) = Some (buildRoster s w members (cap_id c)))
     \<and> (\<forall>k. js_get rosters k = None
            \<or> js_get rosters k = Some (buildRoster s w members k) \<and> (\<exists>c \<in> set cs. cap_id c = k \<and> cap_workspaceId c = ws_id w))"

lemma rosters_ok_live: "rosters_ok s cs w members rosters \<Longrightarrow> c \<in> set (live_capsules cs w)
    \<Longrightarrow> js_get rosters (cap_id c) = Some (buildRoster s w members (cap_id c))"
  by (simp add: rosters_ok_def)

lemma rosters_ok_known: "rosters_ok s cs w members rosters \<Longrightarrow> js_get rosters k = Some r
    \<Longrightarrow> r = buildRoster s w members k \<and> (\<exists>c \<in> set cs. cap_id c = k \<and> cap_workspaceId c = ws_id w)"
  unfolding rosters_ok_def by (metis option.distinct(1) option.inject)

lemma rosters_ok_set:
  "rosters_ok s cs w members rosters \<Longrightarrow> c \<in> set cs \<Longrightarrow> cap_workspaceId c = ws_id w
    \<Longrightarrow> rosters_ok s cs w members (js_set (cap_id c) (buildRoster s w members (cap_id c)) rosters)"
  by (auto simp: rosters_ok_def)

lemma rosters_ok_initial:
  "rosters_ok s cs w members (foldl (\<lambda>rs c. js_set (cap_id c) (buildRoster s w members (cap_id c)) rs) [] (live_capsules cs w))"
proof -
  have get: "js_get (foldl (\<lambda>rs c. js_set (cap_id c) (buildRoster s w members (cap_id c)) rs) acc xs) k =
      (if k \<in> cap_id ` set xs then Some (buildRoster s w members k) else js_get acc k)" for acc k and xs :: "capsule list"
    by (induction xs arbitrary: acc) auto
  show ?thesis unfolding rosters_ok_def get by (auto simp: live_capsules_def split: if_split_asm)
qed

lemma find_by_id:
  assumes "distinct (map cap_id cs)"
  shows "filter (\<lambda>c. cap_id c = k \<and> P c) cs = (case find (\<lambda>c. cap_id c = k) cs of Some c \<Rightarrow> if P c then [c] else [] | None \<Rightarrow> [])"
  using assms
proof (induction cs)
  case (Cons c cs)
  show ?case
  proof (cases "cap_id c = k")
    case True
    then have "filter (\<lambda>c. cap_id c = k \<and> P c) cs = []" using Cons.prems by (auto simp: filter_empty_conv image_iff)
    then show ?thesis using True by simp
  qed (use Cons in simp)
qed simp

lemma find_id: "distinct (map cap_id cs) \<Longrightarrow> c \<in> set cs \<Longrightarrow> find (\<lambda>x. cap_id x = cap_id c) cs = Some c"
  by (induction cs) (auto simp: image_iff)

lemma sourceOwnerRoster_exact:
  assumes d: "distinct (map cap_id cs)" and r: "rosters_ok s cs w members rosters"
  shows "sourceOwnerRoster s cs w members k rosters = (o1, rosters') \<Longrightarrow> rosters_ok s cs w members rosters'
    \<and> (case o1 of Some x \<Rightarrow> [x] | None \<Rightarrow> []) = map (\<lambda>c. buildRoster s w members (cap_id c)) (filter (\<lambda>c. cap_id c = k \<and> cap_workspaceId c = ws_id w) cs)"
proof (cases "js_get rosters k")
  case (Some known)
  assume "sourceOwnerRoster s cs w members k rosters = (o1, rosters')"
  then have o1: "o1 = Some known" "rosters' = rosters" using Some by (simp_all add: sourceOwnerRoster_def)
  obtain c where c: "c \<in> set cs" "cap_id c = k" "cap_workspaceId c = ws_id w" "known = buildRoster s w members k"
    using rosters_ok_known [OF r Some] by blast
  have "find (\<lambda>x. cap_id x = k) cs = Some c" using find_id [OF d c(1)] c(2) by simp
  then show ?thesis using c o1 r by (simp add: find_by_id [OF d])
next
  case None
  assume call: "sourceOwnerRoster s cs w members k rosters = (o1, rosters')"
  show ?thesis
  proof (cases "find (\<lambda>c. cap_id c = k) cs")
    case (Some c)
    then have c: "c \<in> set cs" "cap_id c = k" by (auto simp: find_Some_iff)
    show ?thesis
    proof (cases "cap_workspaceId c = ws_id w")
      case True
      have "cap_status c = ''destroyed''"
      proof (rule ccontr)
        assume "cap_status c \<noteq> ''destroyed''"
        with c True have "c \<in> set (live_capsules cs w)" by (simp add: live_capsules_def)
        from rosters_ok_live [OF r this] None c(2) show False by simp
      qed
      then have o1: "o1 = Some (buildRoster s w members k)" "rosters' = js_set k (buildRoster s w members k) rosters"
        using call None Some True by (simp_all add: sourceOwnerRoster_def Let_def)
      show ?thesis using rosters_ok_set [OF r c(1) True] c(2) True o1 Some by (simp add: find_by_id [OF d])
    qed (use call None Some r in \<open>simp add: sourceOwnerRoster_def find_by_id [OF d]\<close>)
  qed (use call None r in \<open>simp add: sourceOwnerRoster_def find_by_id [OF d]\<close>)
qed

lemma compare_source_row_exact:
  assumes d: "distinct (map cap_id cs)" and r: "rosters_ok s cs w members rosters"
    and call: "compare_source_row s cs w members (live_capsules cs w) source (rosters, n, st) = (rosters', n', st')"
  shows "rosters_ok s cs w members rosters' \<and> set (ct_differences st') = set (ct_differences st)
    \<union> (if source_apps s cs w members source = [] then {} else target_differences w members None (Some (src_id source)) (source_apps s cs w members source))"
proof -
  let ?apps = "source_apps s cs w members source"
  have "rosters_ok s cs w members rosters' \<and> st' = (if ?apps = [] then st else compare_target w members None (Some (src_id source)) ?apps st)"
  proof (cases "falsy (src_ownerCapsuleId source)")
    case True
    let ?l = "map (\<lambda>c. the (js_get rosters (cap_id c))) (filter (\<lambda>c. cap_sourceId c = src_id source) (live_capsules cs w))"
    have m: "?l = ?apps" using rosters_ok_live [OF r] True by (simp add: source_apps_def)
    from call True have "(if ?l = [] then (rosters, n, st) else (rosters, Suc n, compare_target w members None (Some (src_id source)) ?l st)) = (rosters', n', st')"
      by (simp add: compare_source_row_def)
    then have "(if ?apps = [] then (rosters, n, st) else (rosters, Suc n, compare_target w members None (Some (src_id source)) ?apps st)) = (rosters', n', st')"
      unfolding m .
    then show ?thesis using r by (simp split: if_split_asm)
  next
    case False
    obtain o1 rs where o1: "sourceOwnerRoster s cs w members (the (src_ownerCapsuleId source)) rosters = (o1, rs)" by fastforce
    note e = sourceOwnerRoster_exact [OF d r o1]
    have apps: "(case o1 of Some x \<Rightarrow> [x] | None \<Rightarrow> []) = ?apps" using e False by (simp add: source_apps_def)
    have "(if ?apps = [] then (rs, n, st) else (rs, Suc n, compare_target w members None (Some (src_id source)) ?apps st)) = (rosters', n', st')"
    proof (cases o1)
      case None
      then have "?apps = []" using apps by simp
      then show ?thesis using call False None by (simp add: compare_source_row_def o1)
    next
      case (Some x)
      then have "?apps = [x]" using apps by simp
      then show ?thesis using call False Some by (simp add: compare_source_row_def o1)
    qed
    then show ?thesis using e by (simp split: if_split_asm)
  qed
  then show ?thesis by (simp add: compare_target_differences)
qed

lemma compare_sources_exact:
  assumes d: "distinct (map cap_id cs)"
  shows "rosters_ok s cs w members rosters \<Longrightarrow> fold (compare_source_row s cs w members (live_capsules cs w)) rows (rosters, n, st) = (rosters', n', st')
    \<Longrightarrow> set (ct_differences st') = set (ct_differences st) \<union> (\<Union>source \<in> {x \<in> set rows. source_apps s cs w members x \<noteq> []}.
      target_differences w members None (Some (src_id source)) (source_apps s cs w members source))"
proof (induction rows arbitrary: rosters n st)
  case (Cons x xs)
  obtain rs m st1 where one: "compare_source_row s cs w members (live_capsules cs w) x (rosters, n, st) = (rs, m, st1)" by (metis prod_cases3)
  note e = compare_source_row_exact [OF d Cons.prems(1) one]
  from Cons.IH [OF conjunct1 [OF e], of m st1] Cons.prems(2) one e show ?case by auto
qed simp

text \<open>All differences of a Workspace: of its live apps and of its Sources.\<close>

definition workspace_differences :: "(string \<Rightarrow> string \<Rightarrow> int) \<Rightarrow> app_store \<Rightarrow> capsule list \<Rightarrow> workspace \<Rightarrow> cutover_difference set" where
  "workspace_differences localeCompare s cs w =
     (let members = listWorkspaceMembers localeCompare s (ws_id w) in
      (\<Union>c \<in> set (live_capsules cs w). target_differences w members (Some (cap_id c)) None [buildRoster s w members (cap_id c)])
      \<union> (\<Union>x \<in> {x \<in> set (js_values (sources s)). src_workspaceId x = ws_id w \<and> source_apps s cs w members x \<noteq> []}.
          target_differences w members None (Some (src_id x)) (source_apps s cs w members x)))"

lemma members_filter: "filter (\<lambda>m. mem_workspaceId m = ws) (listWorkspaceMembers localeCompare s ws) = listWorkspaceMembers localeCompare s ws"
  by (auto simp: listWorkspaceMembers_def filter_id_conv)

lemma compare_capsules_exact:
  assumes "rosters_ok s cs w members rosters" "set xs \<subseteq> set (live_capsules cs w)"
  shows "set (ct_differences (fold (\<lambda>c. compare_target w members (Some (cap_id c)) None [the (js_get rosters (cap_id c))]) xs st))
    = set (ct_differences st) \<union> (\<Union>c \<in> set xs. target_differences w members (Some (cap_id c)) None [buildRoster s w members (cap_id c)])"
  using assms(2)
proof (induction xs arbitrary: st)
  case (Cons c xs)
  then show ?case using rosters_ok_live [OF assms(1), of c] by (simp add: compare_target_differences Un_assoc)
qed simp

lemma compare_workspace_exact:
  assumes d: "distinct (map cap_id cs)" and call: "compare_workspace localeCompare s cs w (a, b, n, st) = Inr (a', b', n', st')"
  shows "ws_ownerUserId w \<noteq> [] \<and> set (ct_differences st') = set (ct_differences st) \<union> workspace_differences localeCompare s cs w"
proof -
  let ?ms = "listWorkspaceMembers localeCompare s (ws_id w)" and ?live = "live_capsules cs w"
  let ?srcs = "by_locale localeCompare src_id (listSources localeCompare s (Some (ws_id w)))"
  define rosters where "rosters = foldl (\<lambda>rs c. js_set (cap_id c) (buildRoster s w ?ms (cap_id c)) rs) [] ?live"
  define st1 where "st1 = fold (\<lambda>c. compare_target w ?ms (Some (cap_id c)) None [the (js_get rosters (cap_id c))]) ?live st"
  have ok: "rosters_ok s cs w ?ms rosters" unfolding rosters_def by (rule rosters_ok_initial)
  obtain rs m st2 where f: "fold (compare_source_row s cs w ?ms ?live) ?srcs (rosters, n, st1) = (rs, m, st2)" by (metis prod_cases3)
  have own: "ws_ownerUserId w \<noteq> []" using call by (auto simp: compare_workspace_def split: if_split_asm)
  from call own f have "st' = st2"
    unfolding compare_workspace_def members_filter live_capsules_def [symmetric] Let_def case_prod_conv rosters_def [symmetric] st1_def [symmetric] by simp
  moreover have "x \<in> set ?srcs \<longleftrightarrow> x \<in> set (js_values (sources s)) \<and> src_workspaceId x = ws_id w" for x
    by (auto simp: by_locale_def listSources_def)
  ultimately show ?thesis using own compare_sources_exact [OF d ok f] compare_capsules_exact [OF ok order_refl, of st]
    by (auto simp: workspace_differences_def Let_def st1_def)
qed

lemma compare_all_exact:
  assumes d: "distinct (map cap_id cs)"
  shows "inventory_all (compare_workspace localeCompare s cs) ws (a, b, n, st) = Inr (a', b', n', st') \<Longrightarrow>
    (\<forall>w \<in> set ws. ws_ownerUserId w \<noteq> []) \<and> set (ct_differences st') = set (ct_differences st) \<union> (\<Union>w \<in> set ws. workspace_differences localeCompare s cs w)"
proof (induction ws arbitrary: a b n st)
  case (Cons w ws)
  then obtain a1 b1 n1 st1 where one: "compare_workspace localeCompare s cs w (a, b, n, st) = Inr (a1, b1, n1, st1)"
    and rest: "inventory_all (compare_workspace localeCompare s cs) ws (a1, b1, n1, st1) = Inr (a', b', n', st')" by auto
  from compare_workspace_exact [OF d one] Cons.IH [OF rest] show ?case by auto
qed simp

lemma report_differences:
  assumes R: "planAppAccessCutoverDiff localeCompare s = Inr report" and ok: "app_ok s"
  shows "\<exists>cs. set cs = set (js_values (capsules s)) \<and> distinct (map cap_id cs)
    \<and> set (cr_differences report) = (\<Union>w \<in> set (js_values (workspaces s)). workspace_differences localeCompare s cs w)
    \<and> (\<forall>w \<in> set (js_values (workspaces s)). ws_ownerUserId w \<noteq> [])"
proof -
  let ?cs = "by_locale localeCompare cap_id (listCapsules localeCompare s None)" and ?ws = "by_locale localeCompare ws_id (listWorkspaces localeCompare s)"
  have d: "distinct (map cap_id ?cs)" using app_ok_distinct_ids [OF ok] by (simp add: by_locale_def listCapsules_def distinct_map distinct_js_sort)
  obtain a b n st where all: "inventory_all (compare_workspace localeCompare s ?cs) ?ws (0, 0, 0, \<lparr>ct_pairsChecked = 0, ct_differences = []\<rparr>) = Inr (a, b, n, st)"
    and rep: "cr_differences report = ct_differences st"
    using R unfolding planAppAccessCutoverDiff_def Let_def by auto
  have "set ?cs = set (js_values (capsules s))" "set ?ws = set (js_values (workspaces s))"
    by (simp_all add: by_locale_def listCapsules_def listWorkspaces_def)
  with compare_all_exact [OF d all] d rep show ?thesis by (intro exI [of _ ?cs]) simp
qed

section \<open>Against the live decisions\<close>

text \<open>What the live resolver allows an account on an app.\<close>

definition live_allows :: "app_store \<Rightarrow> string \<Rightarrow> string \<Rightarrow> access_class \<Rightarrow> bool" where
  "live_allows s a k cls = appAllows (map_option acc_role (resolveAppAccess s a k)) cls"

definition workspace_allows :: "app_store \<Rightarrow> workspace \<Rightarrow> string \<Rightarrow> access_class \<Rightarrow> bool" where
  "workspace_allows s w a cls =
     workspaceAllows (workspaceRole (ws_ownerUserId w) a (js_get (workspaceMembers s) (workspaceMemberKey (ws_id w) a))) cls"

lemma member_lookup:
  assumes "directory_ok s" "CHR 0x00 \<notin> set (ws_id w)"
  shows "map_of (rev (map (\<lambda>m. (mem_accountId m, m)) (listWorkspaceMembers localeCompare s (ws_id w)))) a
    = js_get (workspaceMembers s) (workspaceMemberKey (ws_id w) a)" (is "map_of ?rows a = _")
proof -
  have row: "(a, m) \<in> set ?rows \<longleftrightarrow> js_get (workspaceMembers s) (workspaceMemberKey (ws_id w) a) = Some m" for m
    using directory_member [OF assms, of m a] by (auto simp: listWorkspaceMembers_def)
  show ?thesis
  proof (cases "js_get (workspaceMembers s) (workspaceMemberKey (ws_id w) a)")
    case None
    then show ?thesis using row map_of_none [of a ?rows] by simp
  next
    case (Some m)
    then show ?thesis using row map_of_unique [of a ?rows m] by simp
  qed
qed

lemma account_role_lookup:
  assumes "directory_ok s" "CHR 0x00 \<notin> set (ws_id w)"
  shows "workspaceAllows (account_role w (listWorkspaceMembers localeCompare s (ws_id w)) a) cls = workspace_allows s w a cls"
  by (simp add: account_role_def member_lookup [OF assms] workspace_allows_def)

text \<open>The roster of a live app, stored or projected, gives the role the live resolver gives.\<close>

lemma roster_role:
  assumes ok: "app_ok s" and dir: "directory_ok s" and c: "js_get (capsules s) k = Some c" "cap_status c \<noteq> ''destroyed''"
    and w: "js_get (workspaces s) (cap_workspaceId c) = Some w" "ws_ownerUserId w \<noteq> []" and ne: "a \<noteq> []" "k \<noteq> []"
  shows "roleIn (buildRoster s w (listWorkspaceMembers localeCompare s (ws_id w)) k) a = map_option acc_role (resolveAppAccess s a k)"
proof (cases "getOwnership s k")
  case (Some own)
  have "a \<in> set (js_set_of (map cm_accountId (filter (\<lambda>m. cm_status m = ''active'') (listMembers s k)))) \<longleftrightarrow> active_on_roster s k a"
    by (auto simp: active_on_roster_def list_ex_iff)
  then show ?thesis using Some c ne
    by (simp add: roleIn_def buildRoster_def readOwnership_def readOwnershipFence_def resolveAppAccess_def getCapsule_def Let_def)
next
  case None
  note wid = directory_workspace(2) [OF dir w(1)]
  have "a \<in> set (js_set_of (map mem_accountId (filter manages_workspace (listWorkspaceMembers localeCompare s (ws_id w)))))
      \<longleftrightarrow> (\<exists>m. js_get (workspaceMembers s) (workspaceMemberKey (cap_workspaceId c) a) = Some m \<and> manages_workspace m)"
    using directory_member [OF dir, of "cap_workspaceId c" _ a] wid by (fastforce simp: listWorkspaceMembers_def)
  then show ?thesis using None c w ne
    by (auto simp: roleIn_def buildRoster_def readOwnership_def readOwnershipFence_def resolveAppAccess_def getCapsule_def Let_def split: option.split)
qed

lemma compare_class_row:
  "compare_class w k x src a wsRole roles cls \<noteq> [] \<longleftrightarrow> workspaceAllows wsRole cls \<noteq> (\<forall>r \<in> set roles. appAllows r cls)"
  "d \<in> set (compare_class w k x src a wsRole roles cls) \<Longrightarrow> cd_workspaceId d = ws_id w \<and> cd_capsuleId d = k \<and> cd_sourceId d = x
    \<and> cd_accountId d = a \<and> cd_accessClass d = cls"
  by (auto simp: compare_class_def Let_def list_all_iff split: if_split_asm)

lemma in_target_differences:
  "(\<exists>d \<in> target_differences w members k x apps. cd_accountId d = a \<and> cd_accessClass d = cls) \<longleftrightarrow>
    workspaceAllows (account_role w members a) cls \<noteq> (\<forall>r \<in> set apps. appAllows (roleIn r a) cls)"
proof -
  let ?C = "\<lambda>a cls. compare_class w k x (compare_source apps) a (account_role w members a) (map (\<lambda>r. roleIn r a) apps) cls"
  have "(\<exists>d \<in> target_differences w members k x apps. cd_accountId d = a \<and> cd_accessClass d = cls) \<longleftrightarrow> (\<exists>d. d \<in> set (?C a cls))"
    unfolding target_differences_def using compare_class_row(2) [of _ w k x "compare_source apps"] by blast
  also have "\<dots> \<longleftrightarrow> ?C a cls \<noteq> []" by (cases "?C a cls") auto
  finally show ?thesis unfolding compare_class_row(1) by simp
qed

lemma target_differences_target: "d \<in> target_differences w members k x apps \<Longrightarrow> cd_workspaceId d = ws_id w \<and> cd_capsuleId d = k \<and> cd_sourceId d = x"
  unfolding target_differences_def using compare_class_row(2) [of d w k x "compare_source apps"] by blast

text \<open>The differences reported for one app, and for one Source.\<close>

lemma capsule_differences:
  assumes ok: "app_ok s" and dir: "directory_ok s" and cs: "set cs = set (js_values (capsules s))"
    and c: "js_get (capsules s) k = Some c" "cap_status c \<noteq> ''destroyed''" and w: "js_get (workspaces s) (cap_workspaceId c) = Some w"
  shows "{d \<in> (\<Union>w \<in> set (js_values (workspaces s)). workspace_differences localeCompare s cs w). cd_capsuleId d = Some k}
    = target_differences w (listWorkspaceMembers localeCompare s (ws_id w)) (Some k) None [buildRoster s w (listWorkspaceMembers localeCompare s (ws_id w)) k]"
    (is "?L = ?R")
proof
  have id: "cap_id c = k" using app_ok_capsule [OF ok c(1)] by simp
  have wid: "ws_id w = cap_workspaceId c" using directory_workspace(2) [OF dir w] by simp
  show "?L \<subseteq> ?R"
  proof
    fix d
    assume "d \<in> ?L"
    then obtain w' c' where w': "w' \<in> set (js_values (workspaces s))" and c': "c' \<in> set (live_capsules cs w')"
      and d: "d \<in> target_differences w' (listWorkspaceMembers localeCompare s (ws_id w')) (Some (cap_id c')) None
        [buildRoster s w' (listWorkspaceMembers localeCompare s (ws_id w')) (cap_id c')]" "cd_capsuleId d = Some k"
      by (fastforce simp: workspace_differences_def Let_def dest: target_differences_target)
    have "cap_id c' = k" using target_differences_target [OF d(1)] d(2) by simp
    moreover have "js_get (capsules s) (cap_id c') = Some c'" using c' cs capsule_in_values [OF ok] by (auto simp: live_capsules_def)
    ultimately have "c' = c" using c(1) by simp
    then have "ws_id w' = cap_workspaceId c" using c' by (simp add: live_capsules_def)
    then have "w' = w" using directory_workspace(1) [OF dir, of w'] w' w by simp
    with \<open>c' = c\<close> d id show "d \<in> ?R" by simp
  qed
  have "c \<in> set (live_capsules cs w)" using c js_values_get [OF c(1)] cs wid by (simp add: live_capsules_def)
  then have "?R \<subseteq> workspace_differences localeCompare s cs w" unfolding workspace_differences_def Let_def using id by blast
  then show "?R \<subseteq> ?L" using js_values_get [OF w] by (auto dest: target_differences_target)
qed

definition sources_ok :: "app_store \<Rightarrow> bool" where
  "sources_ok s \<longleftrightarrow> js_wf (sources s) \<and> list_all (\<lambda>(k, x). src_id x = k) (sources s)"

lemma sources_ok_lookup:
  assumes "sources_ok s" shows "x \<in> set (js_values (sources s)) \<longleftrightarrow> js_get (sources s) (src_id x) = Some x"
    "js_get (sources s) i = Some x \<Longrightarrow> src_id x = i"
proof -
  show key: "js_get (sources s) i = Some x \<Longrightarrow> src_id x = i" for i x
    using assms by (auto simp: sources_ok_def list_all_iff dest: js_get_in_set)
  show "x \<in> set (js_values (sources s)) \<longleftrightarrow> js_get (sources s) (src_id x) = Some x"
  proof
    assume "x \<in> set (js_values (sources s))"
    then obtain i where "(i, x) \<in> set (sources s)" by (auto simp: js_values_def)
    then have g: "js_get (sources s) i = Some x" using assms js_get_iff [of "sources s" i x] by (simp add: sources_ok_def)
    from key [OF g] g show "js_get (sources s) (src_id x) = Some x" by simp
  qed (rule js_values_get)
qed

lemma source_differences:
  assumes dir: "directory_ok s" and src: "sources_ok s" and x: "js_get (sources s) i = Some x" and w: "js_get (workspaces s) (src_workspaceId x) = Some w"
    and apps: "source_apps s cs w (listWorkspaceMembers localeCompare s (ws_id w)) x \<noteq> []"
  shows "{d \<in> (\<Union>w \<in> set (js_values (workspaces s)). workspace_differences localeCompare s cs w). cd_sourceId d = Some i}
    = target_differences w (listWorkspaceMembers localeCompare s (ws_id w)) None (Some i) (source_apps s cs w (listWorkspaceMembers localeCompare s (ws_id w)) x)"
    (is "?L = ?R")
proof
  have id: "src_id x = i" by (rule sources_ok_lookup(2) [OF src x])
  have wid: "ws_id w = src_workspaceId x" using directory_workspace(2) [OF dir w] by simp
  show "?L \<subseteq> ?R"
  proof
    fix d
    assume "d \<in> ?L"
    then obtain w' x' where w': "w' \<in> set (js_values (workspaces s))" and x': "x' \<in> set (js_values (sources s))" "src_workspaceId x' = ws_id w'"
      and d: "d \<in> target_differences w' (listWorkspaceMembers localeCompare s (ws_id w')) None (Some (src_id x'))
        (source_apps s cs w' (listWorkspaceMembers localeCompare s (ws_id w')) x')" "cd_sourceId d = Some i"
      by (fastforce simp: workspace_differences_def Let_def dest: target_differences_target)
    have "src_id x' = i" using target_differences_target [OF d(1)] d(2) by simp
    then have "x' = x" using sources_ok_lookup(1) [OF src, of x'] x'(1) x by simp
    then have "w' = w" using directory_workspace(1) [OF dir, of w'] w' w x'(2) by simp
    with \<open>x' = x\<close> d id show "d \<in> ?R" by simp
  qed
  have m: "x \<in> {x \<in> set (js_values (sources s)). src_workspaceId x = ws_id w \<and> source_apps s cs w (listWorkspaceMembers localeCompare s (ws_id w)) x \<noteq> []}"
    using js_values_get [OF x] apps wid by simp
  have "?R \<subseteq> workspace_differences localeCompare s cs w"
    unfolding workspace_differences_def Let_def by (rule le_supI2, rule subset_trans [OF _ UN_upper [OF m]]) (simp add: id)
  then show "?R \<subseteq> ?L" using js_values_get [OF w] by (auto dest: target_differences_target)
qed

lemma report_capsule:
  assumes R: "planAppAccessCutoverDiff localeCompare s = Inr report" and ok: "app_ok s" "directory_ok s" and ne: "a \<noteq> []" "k \<noteq> []"
    and c: "js_get (capsules s) k = Some c" "cap_status c \<noteq> ''destroyed''" and w: "js_get (workspaces s) (cap_workspaceId c) = Some w"
  shows "(\<exists>d \<in> set (cr_differences report). cd_capsuleId d = Some k \<and> cd_accountId d = a \<and> cd_accessClass d = cls)
    \<longleftrightarrow> workspace_allows s w a cls \<noteq> live_allows s a k cls"
proof -
  let ?ms = "listWorkspaceMembers localeCompare s (ws_id w)"
  obtain cs where cs: "set cs = set (js_values (capsules s))"
      "set (cr_differences report) = (\<Union>w \<in> set (js_values (workspaces s)). workspace_differences localeCompare s cs w)"
    and own: "ws_ownerUserId w \<noteq> []" using report_differences [OF R ok(1)] js_values_get [OF w] by blast
  note wid = directory_workspace(2) [OF ok(2) w]
  have "{d \<in> set (cr_differences report). cd_capsuleId d = Some k} = target_differences w ?ms (Some k) None [buildRoster s w ?ms k]"
    unfolding cs(2) by (rule capsule_differences [OF ok cs(1) c w])
  then have "(\<exists>d \<in> set (cr_differences report). cd_capsuleId d = Some k \<and> cd_accountId d = a \<and> cd_accessClass d = cls)
      \<longleftrightarrow> (\<exists>d \<in> target_differences w ?ms (Some k) None [buildRoster s w ?ms k]. cd_accountId d = a \<and> cd_accessClass d = cls)" by blast
  also have "\<dots> \<longleftrightarrow> workspaceAllows (account_role w ?ms a) cls \<noteq> appAllows (roleIn (buildRoster s w ?ms k) a) cls"
    by (simp add: in_target_differences)
  also have "\<dots> \<longleftrightarrow> workspace_allows s w a cls \<noteq> live_allows s a k cls"
    using account_role_lookup [OF ok(2), of w] wid roster_role [OF ok c w own ne] by (simp add: live_allows_def)
  finally show ?thesis .
qed

text \<open>A Source without an owner app stands by every live app built from it.\<close>

definition built_from :: "workspace \<Rightarrow> source_row \<Rightarrow> capsule \<Rightarrow> bool" where
  "built_from w x c \<longleftrightarrow> cap_workspaceId c = ws_id w \<and> cap_status c \<noteq> ''destroyed'' \<and> cap_sourceId c = src_id x"

lemma report_source:
  assumes R: "planAppAccessCutoverDiff localeCompare s = Inr report" and ok: "app_ok s" "directory_ok s" "sources_ok s" and a: "a \<noteq> []"
    and ids: "\<forall>c \<in> set (js_values (capsules s)). cap_id c \<noteq> []"
    and x: "js_get (sources s) i = Some x" "falsy (src_ownerCapsuleId x)" and w: "js_get (workspaces s) (src_workspaceId x) = Some w"
    and some: "\<exists>c \<in> set (js_values (capsules s)). built_from w x c"
  shows "(\<exists>d \<in> set (cr_differences report). cd_sourceId d = Some i \<and> cd_accountId d = a \<and> cd_accessClass d = cls)
    \<longleftrightarrow> workspace_allows s w a cls \<noteq> (\<forall>c \<in> set (js_values (capsules s)). built_from w x c \<longrightarrow> live_allows s a (cap_id c) cls)"
proof -
  let ?ms = "listWorkspaceMembers localeCompare s (ws_id w)"
  obtain cs where cs: "set cs = set (js_values (capsules s))"
      "set (cr_differences report) = (\<Union>w \<in> set (js_values (workspaces s)). workspace_differences localeCompare s cs w)"
    and own: "ws_ownerUserId w \<noteq> []" using report_differences [OF R ok(1)] js_values_get [OF w] by blast
  note wid = directory_workspace(2) [OF ok(2) w]
  let ?apps = "source_apps s cs w ?ms x"
  have apps: "set ?apps = (\<lambda>c. buildRoster s w ?ms (cap_id c)) ` {c \<in> set (js_values (capsules s)). built_from w x c}"
    using x(2) cs(1) by (auto simp: source_apps_def live_capsules_def built_from_def)
  have role: "roleIn (buildRoster s w ?ms (cap_id c)) a = map_option acc_role (resolveAppAccess s a (cap_id c))"
    if "c \<in> set (js_values (capsules s))" "built_from w x c" for c
    using roster_role [OF ok(1,2), of "cap_id c" c w a] that capsule_in_values [OF ok(1), of c] w wid own a ids by (auto simp: built_from_def)
  have "?apps \<noteq> []" using apps some by fastforce
  then have "{d \<in> set (cr_differences report). cd_sourceId d = Some i} = target_differences w ?ms None (Some i) ?apps"
    unfolding cs(2) by (rule source_differences [OF ok(2,3) x(1) w])
  then have "(\<exists>d \<in> set (cr_differences report). cd_sourceId d = Some i \<and> cd_accountId d = a \<and> cd_accessClass d = cls)
      \<longleftrightarrow> (\<exists>d \<in> target_differences w ?ms None (Some i) ?apps. cd_accountId d = a \<and> cd_accessClass d = cls)" by blast
  also have "\<dots> \<longleftrightarrow> workspaceAllows (account_role w ?ms a) cls
      \<noteq> (\<forall>c \<in> set (js_values (capsules s)). built_from w x c \<longrightarrow> appAllows (roleIn (buildRoster s w ?ms (cap_id c)) a) cls)"
    unfolding in_target_differences apps by blast
  also have "(\<forall>c \<in> set (js_values (capsules s)). built_from w x c \<longrightarrow> appAllows (roleIn (buildRoster s w ?ms (cap_id c)) a) cls)
      \<longleftrightarrow> (\<forall>c \<in> set (js_values (capsules s)). built_from w x c \<longrightarrow> live_allows s a (cap_id c) cls)"
    by (intro ball_cong refl imp_cong) (simp add: role live_allows_def)
  finally show ?thesis using account_role_lookup [OF ok(2), of w] wid by simp
qed

end
