(* ===== verification/App_Properties.thy ===== *)
theory App_Properties
  imports App_Cutover
begin

text \<open>
  The properties of app ownership, access, pagination and the ownership backfill, with the concrete stores of their witnesses.
\<close>

section \<open>Concrete stores\<close>

definition empty_app_store :: app_store where
  "empty_app_store = run_store.extend empty_run_store
     \<lparr>capsuleMembers = [], connections = [], usageEvents = [], sources = [], installConfigs = [],
      providerBindingSets = [], accountBilling = []\<rparr>"

definition ex_capsule :: "string \<Rightarrow> capsule" where
  "ex_capsule k = \<lparr>cap_id = k, cap_workspaceId = ''ws_1'', cap_environment = ''production'', cap_status = ''active'',
     cap_installConfigId = ''ic_1'', cap_currentStateVersionId = None, cap_currentStateGeneration = 0, cap_uninstall = None,
     cap_ownerAccountId = None, cap_ownershipEpoch = None, cap_managementState = None, cap_managementEpoch = None,
     cap_scopeRef = None, cap_projectId = ''prj_1'', cap_name = k, cap_slug = k, cap_sourceId = k @ ''_src'',
     cap_compatibilityStatus = None, cap_storageRoot = None, cap_createdAt = ''2024-01-01T00:00:00.000Z'', cap_rest = []\<rparr>"

definition ex_own :: "string \<Rightarrow> string \<Rightarrow> int \<Rightarrow> capsule_ownership" where
  "ex_own k owner epoch = \<lparr>own_capsuleId = k, own_ownerAccountId = owner, own_ownershipEpoch = epoch,
     own_managementState = Active, own_managementEpoch = 0, own_storageRoot = ''apps/'' @ k\<rparr>"

definition ex_roster :: "string \<Rightarrow> string \<Rightarrow> capsule_member" where
  "ex_roster k a = \<lparr>cm_capsuleId = k, cm_accountId = a, cm_status = ''active'', cm_addedBy = None,
     cm_createdAt = ''t'', cm_updatedAt = ''t''\<rparr>"

definition ex_apps :: app_store where
  "ex_apps = empty_app_store\<lparr>
     capsules := [(''cap_2'', ex_capsule ''cap_2''), (''cap_1'', ex_capsule ''cap_1''), (''cap_3'', ex_capsule ''cap_3'')],
     capsuleOwnership := [(''cap_1'', ex_own ''cap_1'' ''ann'' 0), (''cap_2'', ex_own ''cap_2'' ''ben'' 3), (''cap_3'', ex_own ''cap_3'' ''ben'' 0)],
     capsuleMembers := [(capsuleMemberKey ''cap_2'' ''ann'', ex_roster ''cap_2'' ''ann'')]\<rparr>"

lemma ex_apps_simps [simp]:
  "capsules ex_apps = [(''cap_2'', ex_capsule ''cap_2''), (''cap_1'', ex_capsule ''cap_1''), (''cap_3'', ex_capsule ''cap_3'')]"
  "capsuleOwnership ex_apps = [(''cap_1'', ex_own ''cap_1'' ''ann'' 0), (''cap_2'', ex_own ''cap_2'' ''ben'' 3), (''cap_3'', ex_own ''cap_3'' ''ben'' 0)]"
  "capsuleMembers ex_apps = [(capsuleMemberKey ''cap_2'' ''ann'', ex_roster ''cap_2'' ''ann'')]"
  by (simp_all add: ex_apps_def)

lemma ex_apps_ok: "app_ok ex_apps"
  by (simp add: app_ok_def js_wf_def js_keys_def js_has_def js_get_def roster_row_ok_def ex_capsule_def ex_own_def ex_roster_def)

section \<open>Ownership\<close>

text \<open>C34: the ownership epoch identifies the owner. Take any moment at which an app has an ownership row and no
  write is in flight. Whatever calls then run interleaved, each split at its await (transfers, initialisations, roster
  changes, Capsule creations and writes), the row stays, its epoch never goes back, and while the epoch is the same so is
  the owner; and the roster never names the owner.\<close>

theorem ownership_epoch_identifies_owner:
  assumes "own_reach w w'" "app_ok (ow_store w)" "ow_calls w = []" "getOwnership (ow_store w) k = Some own"
  shows "\<exists>own'. getOwnership (ow_store w') k = Some own' \<and> own_ownershipEpoch own \<le> own_ownershipEpoch own'
    \<and> (own_ownershipEpoch own' = own_ownershipEpoch own \<longrightarrow> own_ownerAccountId own' = own_ownerAccountId own)
    \<and> (\<forall>m \<in> set (listMembers (ow_store w') k). cm_accountId m \<noteq> own_ownerAccountId own')"
proof -
  have "calls_fenced (ow_calls w) own" using assms(3) by (simp add: calls_fenced_def)
  from own_reach_fence [OF assms(1,2) _ this, of k] assms(4) obtain own' where
    own': "js_get (capsuleOwnership (ow_store w')) k = Some own'" "own_ownershipEpoch own \<le> own_ownershipEpoch own'"
    "own_ownershipEpoch own' = own_ownershipEpoch own \<longrightarrow> own_ownerAccountId own' = own_ownerAccountId own"
    by (auto simp: getOwnership_def getCapsuleOwnership_def)
  from owner_not_on_roster [OF own_reach_ok [OF assms(1,2)] own'(1)] own' show ?thesis
    by (auto simp: getOwnership_def getCapsuleOwnership_def)
qed

definition ex_w0 :: own_world where
  "ex_w0 = \<lparr>ow_store = ex_apps, ow_calls = []\<rparr>"

definition ex_w1 :: own_world where
  "ex_w1 = \<lparr>ow_store = ex_apps, ow_calls = [CallPut (ex_own ''cap_2'' ''ann'' 4) 3]\<rparr>"

definition ex_w2 :: own_world where
  "ex_w2 = \<lparr>ow_store = snd (own_resume (CallPut (ex_own ''cap_2'' ''ann'' 4) 3) ex_apps), ow_calls = []\<rparr>"

lemma ex_transfer: "own_reach ex_w0 ex_w2"
proof -
  have d: "putOwnership_decide (ex_own ''cap_2'' ''ann'' 4) (Some 3) ex_apps = Inr (Some 3)"
    by (simp add: putOwnership_decide_def validOwnership_def validOwnershipEpochCas_def getCapsule_def getOwnership_def
      getCapsuleOwnership_def js_get_def ex_own_def is_safe_integer_def max_safe_integer_def)
  have "own_step ex_w0 (ex_w0\<lparr>ow_calls := CallPut (ex_own ''cap_2'' ''ann'' 4) 3 # ow_calls ex_w0\<rparr>)"
    by (rule own_step.begin_put [where ex = "Some 3"]) (simp add: ex_w0_def d)
  then have "own_step ex_w0 ex_w1" by (simp add: ex_w0_def ex_w1_def)
  moreover have "own_step ex_w1 ex_w2"
    using own_step.resume [of ex_w1 "[]" "CallPut (ex_own ''cap_2'' ''ann'' 4) 3" "[]"] by (simp add: ex_w1_def ex_w2_def prod_eq_iff)
  ultimately show ?thesis by (meson rtranclp.rtrancl_into_rtrancl rtranclp.rtrancl_refl)
qed

theorem ownership_epoch_identifies_owner_witness:
  "\<exists>own'. getOwnership (ow_store ex_w2) ''cap_2'' = Some own' \<and> 3 \<le> own_ownershipEpoch own'
    \<and> (own_ownershipEpoch own' = 3 \<longrightarrow> own_ownerAccountId own' = ''ben'')
    \<and> (\<forall>m \<in> set (listMembers (ow_store ex_w2) ''cap_2''). cm_accountId m \<noteq> own_ownerAccountId own')"
proof -
  have "app_ok (ow_store ex_w0)" "ow_calls ex_w0 = []" "getOwnership (ow_store ex_w0) ''cap_2'' = Some (ex_own ''cap_2'' ''ben'' 3)"
    by (simp_all add: ex_w0_def ex_apps_ok getOwnership_def getCapsuleOwnership_def js_get_def)
  from ownership_epoch_identifies_owner [OF ex_transfer this] show ?thesis by (simp add: ex_own_def)
qed
text \<open>Of several transfers that expect the same epoch at most one succeeds: once one has, the others change nothing,
  whenever they resume.\<close>

theorem ownership_transfer_one_winner:
  assumes "own_resume (CallPut r e) s = (True, s1)" "own_ownershipEpoch r = e + 1" "app_ok s" "calls_fenced calls r"
    and "own_reach \<lparr>ow_store = s1, ow_calls = calls\<rparr> w" "own_capsuleId r2 = own_capsuleId r"
  shows "own_resume (CallPut r2 e) (ow_store w) = (False, ow_store w)"
proof -
  have s1: "js_get (capsuleOwnership s1) (own_capsuleId r) = Some r" "app_ok s1"
    using assms(1) own_resume_ok [OF assms(3), of "CallPut r e"]
    by (cases rule: commit_ownership_cases [of r False "Some e" s]; auto)+
  from own_reach_fence [OF assms(5), of "own_capsuleId r" r] s1 assms(4) obtain own where
    own: "js_get (capsuleOwnership (ow_store w)) (own_capsuleId r2) = Some own" "e < own_ownershipEpoch own"
    using assms(2,6) by auto
  show ?thesis
  proof (cases rule: commit_ownership_cases [of r2 False "Some e" "ow_store w"])
    case won
    with own show ?thesis by simp
  qed simp
qed

text \<open>The first owner is not protected in this way: two writes that both found no ownership row commit one after the other,
  and the second takes the app from the first at the same epoch. The durable stores repeat the test
  on the owner in their update statement.\<close>

definition unowned_app :: app_store where
  "unowned_app = empty_app_store\<lparr>capsules := [(''cap_1'', ex_capsule ''cap_1'')]\<rparr>"

theorem first_ownership_race:
  "putOwnership_decide (ex_own ''cap_1'' ''ann'' 0) None unowned_app = Inr (Some 0)
   \<and> putOwnership_decide (ex_own ''cap_1'' ''ben'' 0) None unowned_app = Inr (Some 0)
   \<and> (let (first, s1) = own_resume (CallPut (ex_own ''cap_1'' ''ann'' 0) 0) unowned_app;
          (second, s2) = own_resume (CallPut (ex_own ''cap_1'' ''ben'' 0) 0) s1
      in first \<and> second \<and> getOwnership s1 ''cap_1'' = Some (ex_own ''cap_1'' ''ann'' 0)
         \<and> getOwnership s2 ''cap_1'' = Some (ex_own ''cap_1'' ''ben'' 0))"
  by (simp add: unowned_app_def empty_app_store_def empty_run_store_def empty_workspace_store_def run_store.extend_def run_store.defs
    workspace_store.extend_def workspace_store.defs putOwnership_decide_def validOwnership_def validOwnershipEpochCas_def getCapsule_def
    getOwnership_def getCapsuleOwnership_def js_get_def js_has_def ex_own_def is_safe_integer_def max_safe_integer_def
    commit_ownership_def setCapsuleOwnership_def deleteCapsuleMember_def Let_def)

section \<open>Access\<close>

text \<open>C35: for an app that is installed and has an owner, the separately written deciders agree. The list query of the control
  store hides the app from a viewer, and the batch read of the ownership store reports it hidden, exactly when the viewer's
  account resolves to no role or the credential is limited to other apps; and the decision on its Interfaces allows
  an action exactly when the resolved role allows it.\<close>

theorem access_decisions_agree:
  assumes "app_ok s" "getCapsule s k = Some c" "cap_status c \<noteq> ''destroyed''" "getOwnership s k = Some own"
    and "own_ownerAccountId own \<noteq> []" "k \<noteq> []" "vw_accountId viewer \<noteq> []"
  shows "(hidden_capsule s viewer (Some k) \<longleftrightarrow>
      resolveAppAccess s (vw_accountId viewer) k = None \<or> (\<exists>ids. vw_appIds viewer = Some ids \<and> k \<notin> set ids))
    \<and> (k \<in> set (listHiddenCapsuleIds s viewer ks) \<longleftrightarrow> k \<in> set ks \<and> hidden_capsule s viewer (Some k))
    \<and> decideInterfaceAppAccess (Inr (getOwnership s k)) (Inr (resolveAppAccess s a k)) k action =
        Some (case resolveAppAccess s a k of None \<Rightarrow> False | Some acc \<Rightarrow> appActionAllowed (acc_role acc) action)"
proof -
  have row: "js_get (capsuleOwnership s) k = Some own" "js_get (capsules s) k = Some c"
    using assms(2,4) by (simp_all add: getOwnership_def getCapsuleOwnership_def getCapsule_def)
  show ?thesis
    using hidden_by_roster_access [OF row(2) assms(3) row(1) assms(5-7)] decide_interface [OF row(1)]
    by (simp add: hidden_capsule_roster [OF assms(1,6)] listHiddenCapsuleIds_set)
qed

theorem access_decisions_agree_witness:
  "resolveAppAccess ex_apps ''ann'' ''cap_2'' \<noteq> None \<and> \<not> hidden_capsule ex_apps \<lparr>vw_accountId = ''ann'', vw_appIds = None\<rparr> (Some ''cap_2'')
   \<and> decideInterfaceAppAccess (Inr (getOwnership ex_apps ''cap_2'')) (Inr (resolveAppAccess ex_apps ''ann'' ''cap_2'')) ''cap_2'' ActUninstall = Some False"
proof -
  have p: "getCapsule ex_apps ''cap_2'' = Some (ex_capsule ''cap_2'')" "cap_status (ex_capsule ''cap_2'') \<noteq> ''destroyed''"
    "getOwnership ex_apps ''cap_2'' = Some (ex_own ''cap_2'' ''ben'' 3)" "own_ownerAccountId (ex_own ''cap_2'' ''ben'' 3) \<noteq> []"
    "''cap_2'' \<noteq> ([] :: string)" "vw_accountId \<lparr>vw_accountId = ''ann'', vw_appIds = None\<rparr> \<noteq> []"
    by (simp_all add: getCapsule_def getOwnership_def getCapsuleOwnership_def js_get_def ex_capsule_def ex_own_def)
  have "active_on_roster ex_apps ''cap_2'' ''ann''"
    by (simp add: active_on_roster_def listMembers_def listCapsuleMembers_def js_values_def ex_roster_def)
  then have r: "resolveAppAccess ex_apps ''ann'' ''cap_2'' =
      Some \<lparr>acc_capsuleId = ''cap_2'', acc_role = AppMember, acc_ownerAccountId = ''ben'', acc_ownershipEpoch = 3\<rparr>"
    using p by (simp add: resolveAppAccess_def ex_own_def)
  from access_decisions_agree [OF ex_apps_ok p, where ks = "[]" and a = "''ann''" and action = ActUninstall] show ?thesis
    by (simp add: r)
qed

section \<open>Pages\<close>

text \<open>C38: the pages of a Workspace's Capsules are complete. A client that follows the tokens of \<open>listCapsulesPage\<close> until none
  comes back gets every Capsule the viewer may see exactly once and in list order, with at most the clamped
  limit of rows on each page, provided \<open>localeCompare\<close> orders the ids and creation times as their code units do.\<close>

theorem capsule_pages_complete:
  assumes "app_ok s" "capsule_order_ok localeCompare s" "length (js_values (capsules s)) < n"
  shows "read_pages n (\<lambda>tok. listCapsulesPage localeCompare s ws \<lparr>pp_limit = l, pp_cursor = tok\<rparr> d viewer) None
      = Some (visible_capsules localeCompare s ws d viewer)
    \<and> distinct (visible_capsules localeCompare s ws d viewer)
    \<and> set (visible_capsules localeCompare s ws d viewer) =
        {c \<in> set (js_values (capsules s)). cap_workspaceId c = ws \<and> (d = Some False \<longrightarrow> cap_status c \<noteq> ''destroyed'')
          \<and> (\<forall>v. viewer = Some v \<longrightarrow> \<not> hidden_capsule s v (Some (cap_id c)))}
    \<and> length (fst (listCapsulesPage localeCompare s ws \<lparr>pp_limit = l, pp_cursor = tok\<rparr> d viewer)) \<le> clampPageLimit l"
proof (intro conjI)
  let ?r = "(localeCompare, \<lparr>cr_store = s, cr_workspace = ws, cr_limit = l, cr_includeDestroyed = d, cr_viewer = viewer\<rparr>)"
  let ?rows = "visible_capsules localeCompare s ws d viewer"
  have "length (listCapsules localeCompare s (Some ws)) \<le> length (js_values (capsules s))" by (simp add: listCapsules_def)
  then have "length ?rows \<le> length (js_values (capsules s))"
    unfolding visible_capsules_def Let_def by (auto intro: order_trans [OF length_filter_le])
  then show "read_pages n (\<lambda>tok. listCapsulesPage localeCompare s ws \<lparr>pp_limit = l, pp_cursor = tok\<rparr> d viewer) None = Some ?rows"
    using capsule_pages.read_all [of ?r n] assms by simp
  have "distinct (map cap_id (listCapsules localeCompare s (Some ws)))"
    using app_ok_distinct_ids [OF assms(1)] by (simp add: listCapsules_def distinct_map distinct_js_sort inj_on_def)
  then show "distinct ?rows" by (auto simp: visible_capsules_def Let_def distinct_map)
  show "set ?rows = {c \<in> set (js_values (capsules s)). cap_workspaceId c = ws \<and> (d = Some False \<longrightarrow> cap_status c \<noteq> ''destroyed'')
          \<and> (\<forall>v. viewer = Some v \<longrightarrow> \<not> hidden_capsule s v (Some (cap_id c)))}"
    by (auto simp: visible_capsules_def listCapsules_def Let_def split: option.splits)
  show "length (fst (listCapsulesPage localeCompare s ws \<lparr>pp_limit = l, pp_cursor = tok\<rparr> d viewer)) \<le> clampPageLimit l"
    by (simp add: listCapsulesPage_def pageSortedBy_def page_window_def Let_def)
qed

theorem capsule_pages_complete_witness:
  "read_pages 4 (\<lambda>tok. listCapsulesPage code_unit_compare ex_apps ''ws_1'' \<lparr>pp_limit = Some 1, pp_cursor = tok\<rparr> None
     (Some \<lparr>vw_accountId = ''ann'', vw_appIds = None\<rparr>)) None = Some [ex_capsule ''cap_1'', ex_capsule ''cap_2'']"
proof -
  let ?v = "Some \<lparr>vw_accountId = ''ann'', vw_appIds = None\<rparr>"
  have o: "capsule_order_ok code_unit_compare ex_apps"
    by (simp add: capsule_order_ok_def agrees_with_code_units_def code_unit_compare_def js_values_def ex_capsule_def)
  have h: "hidden_capsule ex_apps \<lparr>vw_accountId = ''ann'', vw_appIds = None\<rparr> (Some k) \<longleftrightarrow> k = ''cap_3''"
    if "k \<in> {''cap_1'', ''cap_2'', ''cap_3''}" for k
    using that by (auto simp: hidden_capsule_def appHiddenFromViewer_def falsy_def js_get_def ex_own_def ex_roster_def capsuleMemberKey_def)
  have "visible_capsules code_unit_compare ex_apps ''ws_1'' None ?v = [ex_capsule ''cap_1'', ex_capsule ''cap_2'']"
    by (simp add: visible_capsules_def listCapsules_def js_values_def created_order_def code_unit_compare_def ex_capsule_def h)
  with capsule_pages_complete [OF ex_apps_ok o, where n = 4 and ws = "''ws_1''" and l = "Some 1" and d = None and viewer = ?v and tok = None]
  show ?thesis by (simp add: js_values_def)
qed

text \<open>Without that agreement a row can be lost. A locale's collation puts \<open>cap_a\<close> before \<open>cap_B\<close>, the code units after it: behind the
  token of \<open>cap_a\<close> the pager finds nothing, and \<open>cap_B\<close> is on no page.\<close>

definition case_blind :: "string \<Rightarrow> string \<Rightarrow> int" where
  "case_blind a b = (let c = code_unit_compare (map ascii_lower a) (map ascii_lower b) in if c \<noteq> 0 then c else code_unit_compare a b)"

definition mixed_case_apps :: app_store where
  "mixed_case_apps = empty_app_store\<lparr>capsules := [(''cap_a'', ex_capsule ''cap_a''), (''cap_B'', ex_capsule ''cap_B'')]\<rparr>"

theorem locale_order_loses_row:
  "visible_capsules case_blind mixed_case_apps ''ws_1'' None None = [ex_capsule ''cap_a'', ex_capsule ''cap_B'']
   \<and> read_pages n (\<lambda>tok. listCapsulesPage case_blind mixed_case_apps ''ws_1'' \<lparr>pp_limit = Some 1, pp_cursor = tok\<rparr> None None) None
       \<noteq> Some [ex_capsule ''cap_a'', ex_capsule ''cap_B'']"
proof
  show v: "visible_capsules case_blind mixed_case_apps ''ws_1'' None None = [ex_capsule ''cap_a'', ex_capsule ''cap_B'']"
    by (simp add: visible_capsules_def listCapsules_def js_values_def created_order_def case_blind_def code_unit_compare_def
      ascii_lower_def mixed_case_apps_def ex_capsule_def)
  let ?page = "\<lambda>tok. listCapsulesPage case_blind mixed_case_apps ''ws_1'' \<lparr>pp_limit = Some 1, pp_cursor = tok\<rparr> None None"
  let ?a = "capsule_key (ex_capsule ''cap_a'')"
  have first: "?page None = ([ex_capsule ''cap_a''], Some (encodeCursor ?a))"
    unfolding listCapsulesPage_def v pageSortedBy_def by (simp add: page_window_first page_of_def clampPageLimit_def)
  have "decodeCursor (Some (encodeCursor ?a)) = Some ?a"
    by (rule decode_encode_cursor) (simp add: capsule_key_def valid_string_cursor)
  moreover have "\<not> keyset_less ?a (capsule_key (ex_capsule ''cap_B''))"
    by (simp add: keyset_less_def capsule_key_def units_of_def ex_capsule_def)
  ultimately have second: "?page (Some (encodeCursor ?a)) = ([], None)"
    unfolding listCapsulesPage_def v pageSortedBy_def by (simp add: page_window_def)
  show "read_pages n ?page None \<noteq> Some [ex_capsule ''cap_a'', ex_capsule ''cap_B'']"
  proof (cases n)
    case (Suc m)
    then show ?thesis by (cases m) (simp_all add: first second)
  qed simp
qed



section \<open>The ownership backfill\<close>

text \<open>C36: the backfill keeps access. Take any series of calls of \<open>applyAppOwnershipBackfill\<close>, complete, partial, refused or
  thrown out of midway, up to a store whose inventory has no ownership or roster row left to write. For an app that had no
  ownership row every account then has the access the Workspace gave it before, no more and no less; on any app, whoever had
  access keeps it unchanged; and between two calls an account has either no access or the access it ends with, so no
  interrupted batch grants anything.\<close>

theorem backfill_keeps_access:
  assumes run: "backfill_run digest localeCompare s s1" "backfill_run digest localeCompare s1 s'" and s: "app_ok s" "directory_ok s"
    and plan: "planAppOwnershipBackfill localeCompare s' = Inr plan" "access_writes plan = []"
  shows "(getOwnership s k = None \<longrightarrow> resolveAppAccess s' a k = resolveAppAccess s a k)
    \<and> (resolveAppAccess s a k \<noteq> None \<longrightarrow> resolveAppAccess s' a k = resolveAppAccess s a k)
    \<and> (resolveAppAccess s1 a k = None \<or> resolveAppAccess s1 a k = resolveAppAccess s' a k)"
proof -
  note one = backfill_run_settled [OF run(1) s]
  have s1: "app_ok s1" "directory_ok s1" using one by simp_all
  note final = backfill_run_final [OF run(2) s1 plan]
  have plannable: "plannable s" using final(1) plannable_same(1) [of s s1] one by simp
  have "resolveAppAccess s' a k = settled_access s a k" using final(2) one by simp
  with settled_unowned [OF s plannable, of k a] settled_extends [OF s plannable, of a k] settled_extends [OF s1 final(1), of a k] one
  show ?thesis by (cases "resolveAppAccess s1 a k") auto
qed

definition ex_legacy :: app_store where
  "ex_legacy = empty_app_store\<lparr>
     workspaces := [(''ws_1'', \<lparr>ws_id = ''ws_1'', ws_handle = ''h'', ws_displayName = ''W'', ws_type = ''personal'', ws_ownerUserId = ''ann'',
       ws_archivedAt = None, ws_createdAt = ''t'', ws_updatedAt = ''t'', ws_rest = []\<rparr>)],
     workspaceMembers := map (\<lambda>(a, role). (workspaceMemberKey ''ws_1'' a, \<lparr>mem_id = a, mem_workspaceId = ''ws_1'', mem_accountId = a,
       mem_roles = [role], mem_status = ''active'', mem_createdAt = ''t'', mem_updatedAt = ''t''\<rparr>)) [(''ben'', ''admin''), (''cid'', ''viewer'')],
     capsules := [(''cap_1'', ex_capsule ''cap_1'')]\<rparr>"

definition ex_batch :: "app_store \<Rightarrow> (store_error + nat) \<times> app_store" where
  "ex_batch s = applyAppOwnershipBackfill (\<lambda>_. ''digest'') code_unit_compare True ''digest'' 1 s"

definition ex_legacy1 :: app_store where
  "ex_legacy1 = snd (ex_batch ex_legacy)"

definition ex_legacy2 :: app_store where
  "ex_legacy2 = snd (ex_batch ex_legacy1)"

lemma ex_legacy_ok: "app_ok ex_legacy" "directory_ok ex_legacy"
  by (code_simp, code_simp)

lemma ex_legacy_runs:
  "backfill_run (\<lambda>_. ''digest'') code_unit_compare ex_legacy ex_legacy1" "backfill_run (\<lambda>_. ''digest'') code_unit_compare ex_legacy1 ex_legacy2"
  using run_batch [OF run_start, of "\<lambda>_. ''digest''" code_unit_compare True "''digest''" 1 _ "fst (ex_batch s)" "snd (ex_batch s)" for s]
  by (simp_all add: ex_legacy1_def ex_legacy2_def ex_batch_def)

lemma ex_legacy_settled: "(case planAppOwnershipBackfill code_unit_compare ex_legacy2 of Inl _ \<Rightarrow> False | Inr plan \<Rightarrow> access_writes plan = [])"
  by code_simp

text \<open>At the boundary between the two batches the administrator has no access yet: the ownership row is written, the roster row not.\<close>

lemma ex_legacy_boundary:
  "resolveAppAccess ex_legacy ''ben'' ''cap_1'' \<noteq> None" "resolveAppAccess ex_legacy1 ''ben'' ''cap_1'' = None"
  by (code_simp, code_simp)

theorem backfill_keeps_access_witness:
  "getOwnership ex_legacy ''cap_1'' = None \<and> fst (ex_batch ex_legacy) = Inr 1 \<and> fst (ex_batch ex_legacy1) = Inr 1
    \<and> (\<forall>a. resolveAppAccess ex_legacy2 a ''cap_1'' = resolveAppAccess ex_legacy a ''cap_1'')
    \<and> resolveAppAccess ex_legacy2 ''ben'' ''cap_1'' \<noteq> None \<and> resolveAppAccess ex_legacy1 ''ben'' ''cap_1'' = None"
proof -
  obtain plan where plan: "planAppOwnershipBackfill code_unit_compare ex_legacy2 = Inr plan" "access_writes plan = []"
    using ex_legacy_settled by (auto split: sum.split_asm)
  have none: "getOwnership ex_legacy ''cap_1'' = None" by code_simp
  have "fst (ex_batch ex_legacy) = Inr 1" "fst (ex_batch ex_legacy1) = Inr 1" by (code_simp, code_simp)
  with none ex_legacy_boundary backfill_keeps_access [OF ex_legacy_runs ex_legacy_ok plan, of "''cap_1''"] show ?thesis by simp
qed

section \<open>The cutover comparison\<close>

text \<open>C37: the report of the cutover comparison is exact. For a live app it lists an account and an access class just when the
  Workspace rule and the live app decision differ; and for an app without an ownership row that is also the decision after
  the backfill, whatever batches it takes: the projection is what the rows will say.\<close>

theorem cutover_report_exact:
  assumes R: "planAppAccessCutoverDiff localeCompare s = Inr report" and s: "app_ok s" "directory_ok s" and ne: "a \<noteq> []" "k \<noteq> []"
    and c: "js_get (capsules s) k = Some c" "cap_status c \<noteq> ''destroyed''" and w: "js_get (workspaces s) (cap_workspaceId c) = Some w"
  shows "((\<exists>d \<in> set (cr_differences report). cd_capsuleId d = Some k \<and> cd_accountId d = a \<and> cd_accessClass d = cls)
      \<longleftrightarrow> workspace_allows s w a cls \<noteq> live_allows s a k cls)
    \<and> (\<forall>s' plan. getOwnership s k = None \<and> backfill_run digest localeCompare s s' \<and> planAppOwnershipBackfill localeCompare s' = Inr plan
        \<and> access_writes plan = [] \<longrightarrow> live_allows s' a k cls = live_allows s a k cls)"
proof (intro conjI allI impI)
  show "(\<exists>d \<in> set (cr_differences report). cd_capsuleId d = Some k \<and> cd_accountId d = a \<and> cd_accessClass d = cls)
      \<longleftrightarrow> workspace_allows s w a cls \<noteq> live_allows s a k cls"
    by (rule report_capsule [OF R s ne c w])
  fix s' plan
  assume p: "getOwnership s k = None \<and> backfill_run digest localeCompare s s' \<and> planAppOwnershipBackfill localeCompare s' = Inr plan \<and> access_writes plan = []"
  then have "resolveAppAccess s' a k = resolveAppAccess s a k" using backfill_run_unowned [OF _ s] by blast
  then show "live_allows s' a k cls = live_allows s a k cls" by (simp add: live_allows_def)
qed

theorem cutover_report_exact_witness:
  "(case planAppAccessCutoverDiff code_unit_compare ex_legacy of Inl _ \<Rightarrow> False | Inr report \<Rightarrow>
      (\<exists>d \<in> set (cr_differences report). cd_capsuleId d = Some ''cap_1'' \<and> cd_accountId d = ''ben'' \<and> cd_accessClass d = OwnerOnly)
      \<and> cr_differencesByClass report = (1, 0, 1))
    \<and> live_allows ex_legacy2 ''ben'' ''cap_1'' OwnerOnly = live_allows ex_legacy ''ben'' ''cap_1'' OwnerOnly"
proof -
  have counts: "(case planAppAccessCutoverDiff code_unit_compare ex_legacy of Inl _ \<Rightarrow> False | Inr report \<Rightarrow> cr_differencesByClass report = (1, 0, 1))"
    by code_simp
  then obtain report where R: "planAppAccessCutoverDiff code_unit_compare ex_legacy = Inr report" by (auto split: sum.split_asm)
  obtain plan where plan: "planAppOwnershipBackfill code_unit_compare ex_legacy2 = Inr plan" "access_writes plan = []"
    using ex_legacy_settled by (auto split: sum.split_asm)
  have run: "backfill_run (\<lambda>_. ''digest'') code_unit_compare ex_legacy ex_legacy2"
    by (rule run_batch [OF ex_legacy_runs(1)]) (auto simp: ex_legacy2_def ex_batch_def prod_eq_iff)
  have c: "js_get (capsules ex_legacy) ''cap_1'' = Some (ex_capsule ''cap_1'')" "cap_status (ex_capsule ''cap_1'') \<noteq> ''destroyed''" by (code_simp, code_simp)
  obtain w where w: "js_get (workspaces ex_legacy) (cap_workspaceId (ex_capsule ''cap_1'')) = Some w" by (simp add: ex_legacy_def ex_capsule_def js_get_def)
  have none: "getOwnership ex_legacy ''cap_1'' = None" by code_simp
  have "(case js_get (workspaces ex_legacy) (cap_workspaceId (ex_capsule ''cap_1'')) of None \<Rightarrow> False
      | Some w \<Rightarrow> workspace_allows ex_legacy w ''ben'' OwnerOnly \<noteq> live_allows ex_legacy ''ben'' ''cap_1'' OwnerOnly)" by code_simp
  with w counts R none run plan cutover_report_exact [OF R ex_legacy_ok _ _ c w, of "''ben''" OwnerOnly "\<lambda>_. ''digest''"] show ?thesis by auto
qed

end
