(* ===== verification/Install_Plans.thy ===== *)
theory Install_Plans
  imports Run_Ledger Json Cursor_Codec
begin

text \<open>
  The Git install plan coordinator rows, \<open>core/domains/install-plans/store.ts\<close>: the rows of
  \<open>contract/install-plans.ts\<close> with their private fields, the predicates and assertions, and
  \<open>InMemoryGitInstallPlanStore\<close> with every operation. The Workspace management validator it is constructed
  with is the paired control store, passed as an option; the nested request objects are JSON values.
\<close>

section \<open>Rows\<close>

datatype git_phase = SyncingSource | CompilingInstall | AnalyzingCompatibility | AwaitingInput | CreatingCapsule
  | Planning | Reviewable | FailedPhase | Discarded

record git_plan =
  gp_id :: string
  gp_workspaceId :: string
  gp_createdBy :: string
  gp_operation :: "string option"
  gp_requestDigest :: string
  gp_source :: json
  gp_capsule :: "json option"
  gp_options :: "json option"
  gp_implicitInterfaceKeys :: "string list option"
  gp_preflight :: "json option"
  gp_mode :: "string option"
  gp_awaitingInput :: "string option"
  gp_expiresAt :: "string option"
  gp_revision :: "json option"
  gp_sourceId :: "string option"
  gp_sourceSyncRunId :: "string option"
  gp_sourceSnapshotId :: "string option"
  gp_installConfigBaseId :: "string option"
  gp_installConfigBaseDigest :: "string option"
  gp_installModulePath :: "string option"
  gp_compatibilityRequestDigest :: "string option"
  gp_compatibilityCheckRunId :: "string option"
  gp_compatibilityReportId :: "string option"
  gp_installConfigId :: "string option"
  gp_capsuleId :: "string option"
  gp_planRunId :: "string option"
  gp_phase :: git_phase
  gp_generation :: int
  gp_diagnostic :: "(string \<times> string) option"
  gp_createdAt :: string
  gp_updatedAt :: string
  gp_completedAt :: "string option"

record stored_plan = git_plan +
  sp_actorSubject :: string
  sp_delegateCapsuleId :: "string option"
  sp_idempotencyKeyHash :: string
  sp_authority :: "management option"
  sp_capsuleExecutionAuthorityEpoch :: "int option"
  sp_initialVariables :: "json option"
  sp_transientVariableNames :: "string list option"
  sp_creationAttempted :: bool
  sp_sourcePollingEnabledByAttempt :: bool
  sp_sourceCreatedByAttempt :: bool
  sp_autoSelectedInterfaceKeys :: "string list option"
  sp_attemptFacts :: "json option"
  sp_initialConfiguration :: "json option"
  sp_preflightInstallConfigDigest :: "string option"

text \<open>Key-order independent JSON: the objects of the value with their keys in code-unit order, as text.
  (An engine moves array-index keys of an object to its front; the store only compares these texts, which this does not change.)\<close>

fun json_sorted :: "json \<Rightarrow> json" where
  "json_sorted (JArr xs) = JArr (map json_sorted xs)"
| "json_sorted (JObj kvs) = JObj (js_sort (\<lambda>a b. code_unit_compare (fst a) (fst b)) (map (\<lambda>p. (fst p, json_sorted (snd p))) kvs))"
| "json_sorted v = v"

fun comma_join :: "units list \<Rightarrow> units" where
  "comma_join [] = []"
| "comma_join [x] = x"
| "comma_join (x # y # ys) = x @ units_of '','' @ comma_join (y # ys)"

definition json_string_text :: "string \<Rightarrow> units" where
  "json_string_text s = units_of [CHR 0x22] @ json_quote (units_of s) @ units_of [CHR 0x22]"

fun json_text :: "json \<Rightarrow> units" where
  "json_text JNull = units_of ''null''"
| "json_text (JBool b) = units_of (if b then ''true'' else ''false'')"
| "json_text (JNum n) = units_of (show_int n)"
| "json_text (JStr s) = json_string_text s"
| "json_text (JArr xs) = units_of ''['' @ comma_join (map json_text xs) @ units_of '']''"
| "json_text (JObj kvs) = units_of ''{'' @ comma_join (map (\<lambda>p. json_string_text (fst p) @ units_of '':'' @ json_text (snd p)) kvs) @ units_of ''}''"

definition canonicalJson :: "json option \<Rightarrow> units" where
  "canonicalJson v = (case v of None \<Rightarrow> units_of ''undefined'' | Some j \<Rightarrow> json_text (json_sorted j))"

section \<open>Phases and predicates\<close>

definition isTerminalGitInstallPlanPhase :: "git_phase \<Rightarrow> bool" where
  "isTerminalGitInstallPlanPhase phase \<longleftrightarrow> phase \<in> {Reviewable, FailedPhase, Discarded}"

definition isReconcileableGitInstallPlanPhase :: "git_phase \<Rightarrow> bool" where
  "isReconcileableGitInstallPlanPhase phase \<longleftrightarrow>
     phase \<in> {SyncingSource, CompilingInstall, AnalyzingCompatibility, CreatingCapsule, Planning}"

definition gitInstallPlanPhaseBlocksWorkspaceManagement :: "git_phase \<Rightarrow> bool" where
  "gitInstallPlanPhaseBlocksWorkspaceManagement phase \<longleftrightarrow> \<not> isTerminalGitInstallPlanPhase phase \<and> phase \<noteq> AwaitingInput"

definition expirable_coordinator_phases :: "git_phase list" where
  "expirable_coordinator_phases = [SyncingSource, CompilingInstall, AnalyzingCompatibility]"

definition isExpiredIdleGitInstallAttempt :: "'a git_plan_scheme \<Rightarrow> string \<Rightarrow> bool" where
  "isExpiredIdleGitInstallAttempt plan nowIso \<longleftrightarrow>
     gp_mode plan = Some ''attempt'' \<and> gp_phase plan \<in> set expirable_coordinator_phases
     \<and> (case gp_expiresAt plan of None \<Rightarrow> False | Some e \<Rightarrow> js_le e nowIso)"

definition isOpenGitInstallAttemptPhase :: "git_phase \<Rightarrow> bool" where
  "isOpenGitInstallAttemptPhase phase \<longleftrightarrow> phase \<noteq> FailedPhase \<and> phase \<noteq> Discarded"

definition unfinished_non_attempt_install_phases :: "git_phase list" where
  "unfinished_non_attempt_install_phases = [SyncingSource, CompilingInstall, AnalyzingCompatibility, CreatingCapsule]"

definition isUnfinishedNonAttemptInstall :: "stored_plan \<Rightarrow> bool" where
  "isUnfinishedNonAttemptInstall plan \<longleftrightarrow>
     gp_mode plan \<noteq> Some ''attempt'' \<and> gp_phase plan \<in> set unfinished_non_attempt_install_phases \<and> gp_capsuleId plan = None"

definition operation_of :: "'a git_plan_scheme \<Rightarrow> string" where
  "operation_of plan = (case gp_operation plan of None \<Rightarrow> ''install'' | Some op \<Rightarrow> op)"

definition git_revision_preparation_stall_after_ms :: int where
  "git_revision_preparation_stall_after_ms = 10 * 60 * 1000"

definition gitRevisionPreparationStalled :: "string \<Rightarrow> int \<Rightarrow> bool" where
  "gitRevisionPreparationStalled updatedAt now =
     (case date_parse updatedAt of None \<Rightarrow> False | Some t \<Rightarrow> now - t \<ge> git_revision_preparation_stall_after_ms)"

section \<open>Authority and scope\<close>

definition sameWorkspaceManagementAuthority :: "management option \<Rightarrow> management option \<Rightarrow> bool" where
  "sameWorkspaceManagementAuthority left right \<longleftrightarrow>
     map_option mgmt_workspaceId left = map_option mgmt_workspaceId right
     \<and> map_option managementState left = map_option managementState right
     \<and> map_option managementEpoch left = map_option managementEpoch right"

definition assert_optional_authority :: "management option \<Rightarrow> string \<Rightarrow> store_error + unit" where
  "assert_optional_authority a ws = (case a of None \<Rightarrow> Inr () | Some m \<Rightarrow> assertWorkspaceManagementAuthorityInput m ws)"

definition gitInstallPlanManagementAuthority :: "stored_plan \<Rightarrow> management option \<Rightarrow> store_error + management" where
  "gitInstallPlanManagementAuthority plan expected =
     (case sp_authority plan of
        None \<Rightarrow> Inl (WorkspaceManagementAdmissionConflictError (gp_workspaceId plan))
      | Some authority \<Rightarrow>
          chain (assertWorkspaceManagementAuthorityInput authority (gp_workspaceId plan)) (\<lambda>_.
          chain (assert_optional_authority expected (gp_workspaceId plan)) (\<lambda>_.
            if expected \<noteq> None \<and> \<not> sameWorkspaceManagementAuthority (Some authority) expected
            then Inl (WorkspaceManagementAdmissionConflictError (gp_workspaceId plan))
            else Inr authority)))"

definition scopeKey :: "stored_plan \<Rightarrow> string" where
  "scopeKey plan = gp_workspaceId plan @ CHR 0x00 # sp_actorSubject plan @ CHR 0x00 # sp_idempotencyKeyHash plan"

text \<open>What both assertions require to be unchanged.\<close>

definition same_request_identity :: "stored_plan \<Rightarrow> stored_plan \<Rightarrow> bool" where
  "same_request_identity current n \<longleftrightarrow>
     gp_id current = gp_id n \<and> gp_workspaceId current = gp_workspaceId n \<and> sp_actorSubject current = sp_actorSubject n
     \<and> sp_delegateCapsuleId current = sp_delegateCapsuleId n \<and> sp_idempotencyKeyHash current = sp_idempotencyKeyHash n
     \<and> sameWorkspaceManagementAuthority (sp_authority current) (sp_authority n)
     \<and> sp_capsuleExecutionAuthorityEpoch current = sp_capsuleExecutionAuthorityEpoch n
     \<and> sp_preflightInstallConfigDigest current = sp_preflightInstallConfigDigest n
     \<and> gp_requestDigest current = gp_requestDigest n \<and> gp_createdBy current = gp_createdBy n
     \<and> gp_createdAt current = gp_createdAt n \<and> operation_of current = operation_of n
     \<and> canonicalJson (Some (gp_source current)) = canonicalJson (Some (gp_source n))
     \<and> canonicalJson (gp_preflight current) = canonicalJson (gp_preflight n)
     \<and> canonicalJson (gp_revision current) = canonicalJson (gp_revision n)"

definition assertImmutableScope :: "stored_plan \<Rightarrow> stored_plan \<Rightarrow> store_error + unit" where
  "assertImmutableScope current n =
     chain (assert_optional_authority (sp_authority n) (gp_workspaceId n)) (\<lambda>_.
       throw_if
         (\<not> same_request_identity current n
          \<or> canonicalJson (gp_capsule current) \<noteq> canonicalJson (gp_capsule n)
          \<or> canonicalJson (gp_options current) \<noteq> canonicalJson (gp_options n)
          \<or> gp_preflight current \<noteq> None
              \<and> (gp_installConfigBaseId current \<noteq> gp_installConfigBaseId n
                 \<or> gp_installConfigBaseDigest current \<noteq> gp_installConfigBaseDigest n)
          \<or> gp_operation current = Some ''revision''
              \<and> (gp_sourceId current \<noteq> gp_sourceId n \<or> gp_capsuleId current \<noteq> gp_capsuleId n
                 \<or> gp_installConfigId current \<noteq> gp_installConfigId n
                 \<or> gp_installConfigBaseId current \<noteq> gp_installConfigBaseId n
                 \<or> gp_installConfigBaseDigest current \<noteq> gp_installConfigBaseDigest n
                 \<or> gp_installModulePath current \<noteq> gp_installModulePath n))
         (TypeError ''Git install plan immutable request scope changed''))"

definition assertCompletionGeneration :: "int \<Rightarrow> stored_plan \<Rightarrow> store_error + unit" where
  "assertCompletionGeneration expectedGeneration plan =
     throw_if (gp_generation plan \<noteq> expectedGeneration) (TypeError ''Git install plan completion generation changed'')"

record transition_plan_input =
  tp_id :: string
  tp_expectedGeneration :: int
  tp_expectedPhase :: git_phase
  tp_plan :: stored_plan
  tp_at :: string
  tp_lease :: "(string \<times> string) option"
  tp_expectedAuthority :: "management option"

definition capsule_environment :: "json option \<Rightarrow> json option" where
  "capsule_environment v = (case v of Some (JObj kvs) \<Rightarrow> json_field kvs ''environment'' | _ \<Rightarrow> None)"

definition assertTransitionGitInstallPlanInput :: "stored_plan \<Rightarrow> transition_plan_input \<Rightarrow> store_error + unit" where
  "assertTransitionGitInstallPlanInput current input =
     (let n = tp_plan input in
      chain (throw_if
        (gp_generation n \<noteq> tp_expectedGeneration input + 1 \<or> gp_id n \<noteq> tp_id input \<or> date_parse (tp_at input) = None
         \<or> (case tp_lease input of None \<Rightarrow> False | Some (token, expiresAt) \<Rightarrow> token = [] \<or> date_parse expiresAt = None))
        (TypeError ''Git install plan transition input is invalid'')) (\<lambda>_.
      chain (assert_optional_authority (tp_expectedAuthority input) (gp_workspaceId current)) (\<lambda>_.
      chain (assert_optional_authority (sp_authority n) (gp_workspaceId n)) (\<lambda>_.
        throw_if (\<not> same_request_identity current n \<or> gp_mode current \<noteq> gp_mode n
                  \<or> capsule_environment (gp_capsule current) \<noteq> capsule_environment (gp_capsule n))
          (TypeError ''Git install plan immutable request scope changed'')))))"

section \<open>Drain settlement\<close>

record fail_unclaimed_input =
  fu_id :: string
  fu_expected :: management
  fu_completedAt :: string

definition assertGitInstallPlanDrainFailureInput :: "fail_unclaimed_input \<Rightarrow> store_error + unit" where
  "assertGitInstallPlanDrainFailureInput input =
     chain (throw_if (js_blank (fu_id input)) (TypeError ''Git drain settlement requires one existing plan ID'')) (\<lambda>_.
     chain (assertWorkspaceFreezeExpectation (fu_expected input)) (\<lambda>_.
       throw_if (\<not> isCanonicalMemberTimestamp (fu_completedAt input))
         (TypeError ''Git drain settlement requires an ISO UTC completion time'')))"

definition initial_phase :: "stored_plan \<Rightarrow> bool" where
  "initial_phase plan =
     (if gp_phase plan = SyncingSource then gp_preflight plan = None
      else gp_phase plan = CreatingCapsule \<and> operation_of plan = ''install''
        \<and> (case gp_preflight plan of Some (JObj _) \<Rightarrow> True | _ \<Rightarrow> False))"

definition gitInstallPlanForDrainFailure :: "stored_plan \<Rightarrow> fail_unclaimed_input \<Rightarrow> stored_plan option" where
  "gitInstallPlanForDrainFailure plan input =
     (let expected = fu_expected input in
      if gp_id plan \<noteq> fu_id input \<or> gp_workspaceId plan \<noteq> mgmt_workspaceId expected
         \<or> operation_of plan \<noteq> ''install'' \<and> operation_of plan \<noteq> ''revision''
         \<or> gp_generation plan \<noteq> 0 \<or> \<not> initial_phase plan
         \<or> gp_completedAt plan \<noteq> None \<or> gp_diagnostic plan \<noteq> None \<or> gp_sourceSyncRunId plan \<noteq> None \<or> gp_planRunId plan \<noteq> None
         \<or> gp_compatibilityRequestDigest plan \<noteq> None
         \<or> (case sp_authority plan of None \<Rightarrow> True
            | Some original \<Rightarrow> mgmt_workspaceId original \<noteq> gp_workspaceId plan \<or> managementState original \<noteq> Active
                \<or> \<not> is_safe_integer (managementEpoch original) \<or> managementEpoch original < 1
                \<or> managementEpoch original \<ge> managementEpoch expected)
      then None
      else if list_ex js_blank [sp_actorSubject plan, sp_idempotencyKeyHash plan, gp_requestDigest plan] then None
      else if \<not> isCanonicalMemberTimestamp (gp_createdAt plan) \<or> gp_updatedAt plan \<noteq> gp_createdAt plan
              \<or> the (date_parse (fu_completedAt input)) < the (date_parse (gp_createdAt plan))
      then None
      else Some (plan\<lparr>sp_initialVariables := None, gp_phase := FailedPhase,
              gp_diagnostic := Some (''workspace_management_draining'', ''Workspace management stopped before this install plan was claimed.''),
              gp_updatedAt := fu_completedAt input, gp_completedAt := Some (fu_completedAt input)\<rparr>))"

section \<open>The store\<close>

record git_entry =
  ge_plan :: stored_plan
  ge_leaseToken :: "string option"
  ge_leaseExpiresAt :: "string option"

record git_store =
  git_entries :: "(string, git_entry) js_map"
  git_scopeIndex :: "(string, string) js_map"

text \<open>A lease token that is absent or empty.\<close>

definition falsy_token :: "string option \<Rightarrow> bool" where
  "falsy_token t \<longleftrightarrow> t = None \<or> t = Some []"

datatype create_plan_result = PlanCreated stored_plan | PlanReplayed stored_plan | PlanConflict stored_plan

datatype claim_plan_result = Claimed stored_plan string string | ClaimBusy stored_plan | ClaimConflict stored_plan | ClaimNotFound

datatype complete_plan_result = PlanCompleted stored_plan | CompleteConflict stored_plan | CompleteNotFound

datatype transition_plan_result = PlanUpdated stored_plan | TransitionBusy stored_plan | TransitionConflict stored_plan | TransitionNotFound

type_synonym 'a validator = "'a run_store_scheme option"

definition assertNewAdmission :: "'a validator \<Rightarrow> string \<Rightarrow> management \<Rightarrow> store_error + unit" where
  "assertNewAdmission v ws authority =
     (case v of None \<Rightarrow> Inl (WorkspaceManagementAdmissionConflictError ws)
      | Some control \<Rightarrow>
          chain (isWorkspaceManagementAdmissionAllowed control ws (Some authority)) (\<lambda>allowed.
            throw_if (\<not> allowed) (WorkspaceManagementAdmissionConflictError ws)))"

definition create_plan ::
    "'a validator \<Rightarrow> stored_plan \<Rightarrow> management option \<Rightarrow> git_store \<Rightarrow> store_error + (create_plan_result \<times> git_store)" where
  "create_plan v plan expected g =
     chain (assert_optional_authority (sp_authority plan) (gp_workspaceId plan)) (\<lambda>_.
     chain (assert_optional_authority expected (gp_workspaceId plan)) (\<lambda>_.
       let existingId = js_get (git_scopeIndex g) (scopeKey plan) in
       if \<not> (case existingId of None \<Rightarrow> True | Some i \<Rightarrow> i = [])
       then let existing = ge_plan (the (js_get (git_entries g) (the existingId))) in
         Inr (if gp_requestDigest existing = gp_requestDigest plan then PlanReplayed existing else PlanConflict existing, g)
       else if js_has (git_entries g) (gp_id plan) then Inl (PlainError ''Git install plan id collision'')
       else chain (gitInstallPlanManagementAuthority plan expected) (\<lambda>authority.
            chain (assertNewAdmission v (gp_workspaceId plan) authority) (\<lambda>_.
              Inr (PlanCreated plan,
                   g\<lparr>git_entries := js_set (gp_id plan) \<lparr>ge_plan = plan, ge_leaseToken = None, ge_leaseExpiresAt = None\<rparr> (git_entries g),
                     git_scopeIndex := js_set (scopeKey plan) (gp_id plan) (git_scopeIndex g)\<rparr>)))))"

definition get_plan :: "git_store \<Rightarrow> string \<Rightarrow> stored_plan option" where
  "get_plan g k = map_option ge_plan (js_get (git_entries g) k)"

definition getByScope :: "git_store \<Rightarrow> stored_plan \<Rightarrow> stored_plan option" where
  "getByScope g scope = (case js_get (git_scopeIndex g) (scopeKey scope) of None \<Rightarrow> None | Some k \<Rightarrow> get_plan g k)"

record preparing_coordinator =
  pc_coordinatorId :: string
  pc_operation :: string
  pc_phase :: git_phase
  pc_actorSubject :: string
  pc_updatedAt :: string

definition revision_base :: "stored_plan \<Rightarrow> string \<Rightarrow> json option" where
  "revision_base plan field =
     (case gp_revision plan of Some (JObj kvs) \<Rightarrow>
        (case json_field kvs ''base'' of Some (JObj base) \<Rightarrow> json_field base field | _ \<Rightarrow> None) | _ \<Rightarrow> None)"

definition preparingCoordinatorForCapsule ::
    "(string \<Rightarrow> string \<Rightarrow> int) \<Rightarrow> git_store \<Rightarrow> string \<Rightarrow> string \<Rightarrow> bool \<Rightarrow> int \<Rightarrow> string \<Rightarrow> preparing_coordinator option" where
  "preparingCoordinatorForCapsule localeCompare g capsuleId workspaceId includeInstall currentStateGeneration currentInstallConfigId =
     (let candidates = js_sort
        (\<lambda>a b. let c = localeCompare (gp_updatedAt b) (gp_updatedAt a) in if c \<noteq> 0 then c else localeCompare (gp_id b) (gp_id a))
        (filter (\<lambda>plan. gp_workspaceId plan = workspaceId \<and> gp_capsuleId plan = Some capsuleId
            \<and> \<not> isTerminalGitInstallPlanPhase (gp_phase plan) \<and> gp_planRunId plan = None \<and> sp_authority plan \<noteq> None
            \<and> (if gp_operation plan = Some ''revision''
               then revision_base plan ''capsuleStateGeneration'' = Some (JNum currentStateGeneration)
                    \<and> revision_base plan ''installConfigId'' = Some (JStr currentInstallConfigId)
               else includeInstall))
          (map ge_plan (js_values (git_entries g)))) in
      case candidates of [] \<Rightarrow> None
      | newest # _ \<Rightarrow> Some \<lparr>pc_coordinatorId = gp_id newest,
          pc_operation = (if gp_operation newest = Some ''revision'' then ''revision'' else ''install''),
          pc_phase = gp_phase newest, pc_actorSubject = sp_actorSubject newest, pc_updatedAt = gp_updatedAt newest\<rparr>)"

definition activeGitRevisionPreparation ::
    "(string \<Rightarrow> string \<Rightarrow> int) \<Rightarrow> git_store \<Rightarrow> capsule \<Rightarrow> int \<Rightarrow> preparing_coordinator option" where
  "activeGitRevisionPreparation localeCompare g c now =
     (case preparingCoordinatorForCapsule localeCompare g (cap_id c) (cap_workspaceId c) False
             (cap_currentStateGeneration c) (cap_installConfigId c) of
        None \<Rightarrow> None
      | Some coordinator \<Rightarrow>
          if pc_operation coordinator = ''revision'' \<and> \<not> gitRevisionPreparationStalled (pc_updatedAt coordinator) now
          then Some coordinator else None)"

definition entry_blocks :: "string \<Rightarrow> git_entry \<Rightarrow> bool" where
  "entry_blocks nowIso e \<longleftrightarrow>
     ge_leaseToken e \<noteq> None \<or> ge_leaseExpiresAt e \<noteq> None
     \<or> gitInstallPlanPhaseBlocksWorkspaceManagement (gp_phase (ge_plan e)) \<and> \<not> isExpiredIdleGitInstallAttempt (ge_plan e) nowIso"

definition hasWorkspaceManagementBlockersNow :: "git_store \<Rightarrow> string \<Rightarrow> string \<Rightarrow> bool" where
  "hasWorkspaceManagementBlockersNow g nowIso ws \<longleftrightarrow>
     list_ex (\<lambda>e. gp_workspaceId (ge_plan e) = ws \<and> entry_blocks nowIso e) (js_values (git_entries g))"

definition hasNonterminalPlanSourceReference :: "git_store \<Rightarrow> string \<Rightarrow> string \<Rightarrow> string \<Rightarrow> bool" where
  "hasNonterminalPlanSourceReference g ws sourceId expiredBefore \<longleftrightarrow>
     list_ex (\<lambda>plan. gp_workspaceId plan = ws \<and> gp_sourceId plan = Some sourceId \<and> \<not> isTerminalGitInstallPlanPhase (gp_phase plan)
         \<and> \<not> (case gp_expiresAt plan of None \<Rightarrow> False | Some e \<Rightarrow> e \<noteq> [] \<and> js_le e expiredBefore))
       (map ge_plan (js_values (git_entries g)))"

definition failUnclaimedDuringDrain ::
    "'a validator \<Rightarrow> fail_unclaimed_input \<Rightarrow> git_store \<Rightarrow> store_error + (complete_plan_result \<times> git_store)" where
  "failUnclaimedDuringDrain v input g =
     chain (assertGitInstallPlanDrainFailureInput input) (\<lambda>_.
       case js_get (git_entries g) (fu_id input) of
         None \<Rightarrow> Inr (CompleteNotFound, g)
       | Some e \<Rightarrow>
           (case gitInstallPlanForDrainFailure (ge_plan e) input of
              None \<Rightarrow> Inr (CompleteConflict (ge_plan e), g)
            | Some n \<Rightarrow>
                if ge_leaseToken e \<noteq> None \<or> ge_leaseExpiresAt e \<noteq> None then Inr (CompleteConflict (ge_plan e), g)
                else (case v of
                  None \<Rightarrow> Inr (CompleteConflict (ge_plan e), g)
                | Some control \<Rightarrow>
                    chain (isWorkspaceManagementDraining control (fu_expected input)) (\<lambda>draining.
                      if \<not> draining then Inr (CompleteConflict (ge_plan e), g)
                      else Inr (PlanCompleted n, g\<lparr>git_entries := js_set (fu_id input) (e\<lparr>ge_plan := n\<rparr>) (git_entries g)\<rparr>)))))"

record claim_input =
  ci_id :: string
  ci_expectedGeneration :: int
  ci_leaseToken :: string
  ci_claimedAt :: string
  ci_leaseExpiresAt :: string
  ci_expectedAuthority :: "management option"

definition claimReconcile :: "'a validator \<Rightarrow> claim_input \<Rightarrow> git_store \<Rightarrow> store_error + (claim_plan_result \<times> git_store)" where
  "claimReconcile v input g =
     (case js_get (git_entries g) (ci_id input) of
        None \<Rightarrow> Inr (ClaimNotFound, g)
      | Some e \<Rightarrow>
          (let plan = ge_plan e in
           chain (assert_optional_authority (ci_expectedAuthority input) (gp_workspaceId plan)) (\<lambda>_.
             if gp_generation plan \<noteq> ci_expectedGeneration input then Inr (ClaimConflict plan, g)
             else if \<not> isReconcileableGitInstallPlanPhase (gp_phase plan) then Inr (ClaimConflict plan, g)
             else if (case (ge_leaseToken e, ge_leaseExpiresAt e) of
                        (Some t, Some x) \<Rightarrow> t \<noteq> [] \<and> x \<noteq> [] \<and> js_less (ci_claimedAt input) x | _ \<Rightarrow> False)
             then Inr (ClaimBusy plan, g)
             else chain (gitInstallPlanManagementAuthority plan (ci_expectedAuthority input)) (\<lambda>authority.
                  chain (assertNewAdmission v (gp_workspaceId plan) authority) (\<lambda>_.
                    let n = plan\<lparr>gp_generation := gp_generation plan + 1, gp_updatedAt := ci_claimedAt input\<rparr> in
                    Inr (Claimed n (ci_leaseToken input) (ci_leaseExpiresAt input),
                         g\<lparr>git_entries := js_set (ci_id input) \<lparr>ge_plan = n, ge_leaseToken = Some (ci_leaseToken input),
                             ge_leaseExpiresAt = Some (ci_leaseExpiresAt input)\<rparr> (git_entries g)\<rparr>))))))"

record complete_input =
  co_id :: string
  co_expectedGeneration :: int
  co_leaseToken :: string
  co_plan :: stored_plan

definition completeReconcile :: "complete_input \<Rightarrow> git_store \<Rightarrow> store_error + (complete_plan_result \<times> git_store)" where
  "completeReconcile input g =
     (case js_get (git_entries g) (co_id input) of
        None \<Rightarrow> Inr (CompleteNotFound, g)
      | Some e \<Rightarrow>
          if gp_generation (ge_plan e) \<noteq> co_expectedGeneration input \<or> falsy_token (ge_leaseToken e)
             \<or> ge_leaseToken e \<noteq> Some (co_leaseToken input)
          then Inr (CompleteConflict (ge_plan e), g)
          else chain (assertCompletionGeneration (co_expectedGeneration input) (co_plan input)) (\<lambda>_.
               chain (assertImmutableScope (ge_plan e) (co_plan input)) (\<lambda>_.
                 Inr (PlanCompleted (co_plan input),
                      g\<lparr>git_entries := js_set (co_id input) \<lparr>ge_plan = co_plan input, ge_leaseToken = None, ge_leaseExpiresAt = None\<rparr>
                          (git_entries g)\<rparr>))))"

definition transitionUnleased ::
    "'a validator \<Rightarrow> transition_plan_input \<Rightarrow> git_store \<Rightarrow> store_error + (transition_plan_result \<times> git_store)" where
  "transitionUnleased v input g =
     (case js_get (git_entries g) (tp_id input) of
        None \<Rightarrow> Inr (TransitionNotFound, g)
      | Some e \<Rightarrow>
          chain (assertTransitionGitInstallPlanInput (ge_plan e) input) (\<lambda>_.
            if gp_generation (ge_plan e) \<noteq> tp_expectedGeneration input \<or> gp_phase (ge_plan e) \<noteq> tp_expectedPhase input
            then Inr (TransitionConflict (ge_plan e), g)
            else if (case ge_leaseExpiresAt e of None \<Rightarrow> False | Some x \<Rightarrow> js_less (tp_at input) x)
            then Inr (TransitionBusy (ge_plan e), g)
            else chain (if tp_expectedAuthority input = None then Inr ()
                        else chain (gitInstallPlanManagementAuthority (ge_plan e) (tp_expectedAuthority input)) (\<lambda>authority.
                             assertNewAdmission v (gp_workspaceId (ge_plan e)) authority)) (\<lambda>_.
                 Inr (PlanUpdated (tp_plan input),
                      g\<lparr>git_entries := js_set (tp_id input)
                          \<lparr>ge_plan = tp_plan input, ge_leaseToken = map_option fst (tp_lease input),
                           ge_leaseExpiresAt = map_option snd (tp_lease input)\<rparr> (git_entries g)\<rparr>))))"

definition isNeverAppliedCapsule :: "'a run_store_scheme \<Rightarrow> string \<Rightarrow> bool" where
  "isNeverAppliedCapsule s k =
     (case js_get (capsules s) k of None \<Rightarrow> False
      | Some c \<Rightarrow> cap_status c \<noteq> ''destroyed'' \<and> cap_currentStateGeneration c = 0 \<and> cap_currentStateVersionId c = None)"

definition js_slice_to :: "int \<Rightarrow> 'a list \<Rightarrow> 'a list" where
  "js_slice_to n xs = take (if n \<ge> 0 then nat n else length xs - nat (- n)) xs"

definition assertListOpenGitInstallAttemptsScope :: "string option \<Rightarrow> string option \<Rightarrow> store_error + unit" where
  "assertListOpenGitInstallAttemptsScope ws actor =
     throw_if (falsy_token ws \<and> falsy_token actor) (TypeError ''listOpenAttempts requires a workspaceId or an actorSubject'')"

definition listOpenAttempts ::
    "(string \<Rightarrow> string \<Rightarrow> int) \<Rightarrow> 'a validator \<Rightarrow> git_store \<Rightarrow> string option \<Rightarrow> string option \<Rightarrow> int \<Rightarrow> store_error + stored_plan list" where
  "listOpenAttempts localeCompare v g ws actor limit =
     chain (assertListOpenGitInstallAttemptsScope ws actor) (\<lambda>_.
       Inr (js_slice_to limit
         (js_sort (\<lambda>a b. let c = localeCompare (gp_updatedAt b) (gp_updatedAt a) in if c \<noteq> 0 then c else code_unit_compare (gp_id a) (gp_id b))
           (filter (\<lambda>plan. (ws = None \<or> ws = Some (gp_workspaceId plan)) \<and> (actor = None \<or> actor = Some (sp_actorSubject plan))
               \<and> operation_of plan = ''install''
               \<and> (if gp_mode plan = Some ''attempt''
                  then isOpenGitInstallAttemptPhase (gp_phase plan)
                       \<and> (gp_phase plan \<noteq> Reviewable \<or> gp_capsuleId plan = None
                          \<or> (case v of None \<Rightarrow> True | Some control \<Rightarrow> isNeverAppliedCapsule control (the (gp_capsuleId plan))))
                  else isUnfinishedNonAttemptInstall plan))
             (map ge_plan (js_values (git_entries g)))))))"

definition publicGitInstallPlan :: "stored_plan \<Rightarrow> git_plan" where
  "publicGitInstallPlan plan =
     (let p = git_plan.truncate plan in
      case sp_autoSelectedInterfaceKeys plan of None \<Rightarrow> p | Some keys \<Rightarrow> p\<lparr>gp_implicitInterfaceKeys := Some keys\<rparr>)"

section \<open>Calls\<close>

text \<open>The writing operations as data; a call that throws leaves the store as it was.\<close>

datatype git_call =
    CallCreate stored_plan "management option"
  | CallClaim claim_input
  | CallComplete complete_input
  | CallTransition transition_plan_input
  | CallDrain fail_unclaimed_input

definition after :: "git_store \<Rightarrow> store_error + ('r \<times> git_store) \<Rightarrow> git_store" where
  "after g r = (case r of Inl _ \<Rightarrow> g | Inr (_, g') \<Rightarrow> g')"

fun git_apply :: "'a validator \<Rightarrow> git_call \<Rightarrow> git_store \<Rightarrow> git_store" where
  "git_apply v (CallCreate plan expected) g = after g (create_plan v plan expected g)"
| "git_apply v (CallClaim input) g = after g (claimReconcile v input g)"
| "git_apply v (CallComplete input) g = after g (completeReconcile input g)"
| "git_apply v (CallTransition input) g = after g (transitionUnleased v input g)"
| "git_apply v (CallDrain input) g = after g (failUnclaimedDuringDrain v input g)"

definition git_run :: "('a validator \<times> git_call) list \<Rightarrow> git_store \<Rightarrow> git_store" where
  "git_run calls g = foldl (\<lambda>g (v, c). git_apply v c g) g calls"

lemma git_run_simps [simp]: "git_run [] g = g" "git_run ((v, c) # calls) g = git_run calls (git_apply v c g)"
  by (simp_all add: git_run_def)

definition admits :: "'a validator \<Rightarrow> stored_plan \<Rightarrow> bool" where
  "admits v plan \<longleftrightarrow> (\<exists>control m a. v = Some control \<and> sp_authority plan = Some a
     \<and> js_get (workspaceManagement control) (gp_workspaceId plan) = Some m \<and> managementState m = Active
     \<and> managementEpoch a = managementEpoch m \<and> mgmt_workspaceId a = gp_workspaceId plan)"

lemma authority_admits:
  assumes "gitInstallPlanManagementAuthority plan expected = Inr a" "assertNewAdmission v (gp_workspaceId plan) a = Inr u"
  shows "admits v plan"
proof -
  have a: "sp_authority plan = Some a" using assms(1)
    by (auto simp: gitInstallPlanManagementAuthority_def chain_Inr_iff split: option.split_asm if_split_asm)
  obtain control where v: "v = Some control" "isWorkspaceManagementAdmissionAllowed control (gp_workspaceId plan) (Some a) = Inr True"
    using assms(2) by (auto simp: assertNewAdmission_def chain_Inr_iff split: option.split_asm)
  from v(2) show ?thesis unfolding admits_def using a v(1)
    by (auto simp: isWorkspaceManagementAdmissionAllowed_def chain_Inr_iff split: option.split_asm)
qed

lemma create_planD:
  assumes "create_plan v plan expected g = Inr (r, g')"
  shows "(g' = g \<and> (\<exists>i. js_get (git_scopeIndex g) (scopeKey plan) = Some i \<and> i \<noteq> []
        \<and> r = (if gp_requestDigest (ge_plan (the (js_get (git_entries g) i))) = gp_requestDigest plan
               then PlanReplayed (ge_plan (the (js_get (git_entries g) i))) else PlanConflict (ge_plan (the (js_get (git_entries g) i))))))
    \<or> (r = PlanCreated plan \<and> js_get (git_entries g) (gp_id plan) = None \<and> falsy_token (js_get (git_scopeIndex g) (scopeKey plan)) \<and> admits v plan
        \<and> g' = g\<lparr>git_entries := js_set (gp_id plan) \<lparr>ge_plan = plan, ge_leaseToken = None, ge_leaseExpiresAt = None\<rparr> (git_entries g),
                 git_scopeIndex := js_set (scopeKey plan) (gp_id plan) (git_scopeIndex g)\<rparr>)"
proof (cases "falsy_token (js_get (git_scopeIndex g) (scopeKey plan))")
  case True
  then have f: "(case js_get (git_scopeIndex g) (scopeKey plan) of None \<Rightarrow> True | Some i \<Rightarrow> i = [])" by (auto simp: falsy_token_def)
  obtain a u where a: "gitInstallPlanManagementAuthority plan expected = Inr a" "assertNewAdmission v (gp_workspaceId plan) a = Inr u"
    and rest: "js_get (git_entries g) (gp_id plan) = None" "r = PlanCreated plan"
      "g' = g\<lparr>git_entries := js_set (gp_id plan) \<lparr>ge_plan = plan, ge_leaseToken = None, ge_leaseExpiresAt = None\<rparr> (git_entries g),
              git_scopeIndex := js_set (scopeKey plan) (gp_id plan) (git_scopeIndex g)\<rparr>"
    using assms f unfolding create_plan_def by (auto simp: chain_Inr_iff js_has_def split: if_split_asm)
  from authority_admits [OF a] rest True show ?thesis by blast
next
  case False
  then obtain i where i: "js_get (git_scopeIndex g) (scopeKey plan) = Some i" "i \<noteq> []"
    by (cases "js_get (git_scopeIndex g) (scopeKey plan)") (auto simp: falsy_token_def)
  with assms have "g' = g \<and> r = (if gp_requestDigest (ge_plan (the (js_get (git_entries g) i))) = gp_requestDigest plan
               then PlanReplayed (ge_plan (the (js_get (git_entries g) i))) else PlanConflict (ge_plan (the (js_get (git_entries g) i))))"
    by (auto simp: create_plan_def chain_Inr_iff Let_def)
  with i show ?thesis by blast
qed

definition lease_live :: "git_entry \<Rightarrow> string \<Rightarrow> bool" where
  "lease_live e at \<longleftrightarrow> (\<exists>t x. ge_leaseToken e = Some t \<and> t \<noteq> [] \<and> ge_leaseExpiresAt e = Some x \<and> x \<noteq> [] \<and> js_less at x)"

lemma claimD:
  assumes "claimReconcile v input g = Inr (r, g')"
  shows "(g' = g \<and> (\<forall>p t x. r \<noteq> Claimed p t x))
    \<or> (\<exists>e. js_get (git_entries g) (ci_id input) = Some e \<and> gp_generation (ge_plan e) = ci_expectedGeneration input
        \<and> isReconcileableGitInstallPlanPhase (gp_phase (ge_plan e)) \<and> \<not> lease_live e (ci_claimedAt input) \<and> admits v (ge_plan e)
        \<and> g' = g\<lparr>git_entries := js_set (ci_id input)
            \<lparr>ge_plan = (ge_plan e)\<lparr>gp_generation := gp_generation (ge_plan e) + 1, gp_updatedAt := ci_claimedAt input\<rparr>,
             ge_leaseToken = Some (ci_leaseToken input), ge_leaseExpiresAt = Some (ci_leaseExpiresAt input)\<rparr> (git_entries g)\<rparr>)"
proof (cases "js_get (git_entries g) (ci_id input)")
  case None
  then show ?thesis using assms by (simp add: claimReconcile_def)
next
  case (Some e)
  have live: "(case ge_leaseToken e of None \<Rightarrow> False | Some t \<Rightarrow> case ge_leaseExpiresAt e of None \<Rightarrow> False
        | Some x \<Rightarrow> t \<noteq> [] \<and> x \<noteq> [] \<and> js_less (ci_claimedAt input) x)
      \<longleftrightarrow> lease_live e (ci_claimedAt input)"
    by (auto simp: lease_live_def split: option.split)
  from assms Some consider "g' = g" "\<forall>p t x. r \<noteq> Claimed p t x"
    | a u where "gp_generation (ge_plan e) = ci_expectedGeneration input" "isReconcileableGitInstallPlanPhase (gp_phase (ge_plan e))"
      "\<not> lease_live e (ci_claimedAt input)" "gitInstallPlanManagementAuthority (ge_plan e) (ci_expectedAuthority input) = Inr a"
      "assertNewAdmission v (gp_workspaceId (ge_plan e)) a = Inr u"
      "g' = g\<lparr>git_entries := js_set (ci_id input)
          \<lparr>ge_plan = (ge_plan e)\<lparr>gp_generation := gp_generation (ge_plan e) + 1, gp_updatedAt := ci_claimedAt input\<rparr>,
           ge_leaseToken = Some (ci_leaseToken input), ge_leaseExpiresAt = Some (ci_leaseExpiresAt input)\<rparr> (git_entries g)\<rparr>"
    unfolding claimReconcile_def Let_def by (auto simp: chain_Inr_iff live split: if_split_asm)
  then show ?thesis
  proof cases
    case 2
    then show ?thesis using Some authority_admits [OF 2(4,5)] by blast
  qed blast
qed

lemma completeD:
  assumes "completeReconcile input g = Inr (r, g')"
  shows "(g' = g \<and> (\<forall>p. r \<noteq> PlanCompleted p))
    \<or> (\<exists>e. js_get (git_entries g) (co_id input) = Some e \<and> gp_generation (ge_plan e) = co_expectedGeneration input
        \<and> ge_leaseToken e = Some (co_leaseToken input) \<and> co_leaseToken input \<noteq> [] \<and> gp_generation (co_plan input) = co_expectedGeneration input
        \<and> same_request_identity (ge_plan e) (co_plan input) \<and> assert_optional_authority (sp_authority (co_plan input)) (gp_workspaceId (co_plan input)) = Inr ()
        \<and> g' = g\<lparr>git_entries := js_set (co_id input) \<lparr>ge_plan = co_plan input, ge_leaseToken = None, ge_leaseExpiresAt = None\<rparr> (git_entries g)\<rparr>)"
proof (cases "js_get (git_entries g) (co_id input)")
  case (Some e)
  from assms Some show ?thesis
    by (auto simp: completeReconcile_def chain_Inr_iff falsy_token_def assertCompletionGeneration_def assertImmutableScope_def split: if_split_asm)
qed (use assms in \<open>simp add: completeReconcile_def\<close>)

lemma transitionD:
  assumes "transitionUnleased v input g = Inr (r, g')"
  shows "(g' = g \<and> (\<forall>p. r \<noteq> PlanUpdated p))
    \<or> (\<exists>e. js_get (git_entries g) (tp_id input) = Some e \<and> gp_generation (ge_plan e) = tp_expectedGeneration input
        \<and> gp_phase (ge_plan e) = tp_expectedPhase input \<and> gp_generation (tp_plan input) = tp_expectedGeneration input + 1
        \<and> \<not> lease_live e (tp_at input) \<and> same_request_identity (ge_plan e) (tp_plan input)
        \<and> assert_optional_authority (sp_authority (tp_plan input)) (gp_workspaceId (tp_plan input)) = Inr ()
        \<and> (tp_expectedAuthority input \<noteq> None \<longrightarrow> admits v (ge_plan e))
        \<and> g' = g\<lparr>git_entries := js_set (tp_id input)
            \<lparr>ge_plan = tp_plan input, ge_leaseToken = map_option fst (tp_lease input), ge_leaseExpiresAt = map_option snd (tp_lease input)\<rparr>
            (git_entries g)\<rparr>)"
proof (cases "js_get (git_entries g) (tp_id input)")
  case (Some e)
  from assms Some consider "g' = g" "\<forall>p. r \<noteq> PlanUpdated p"
    | u where "assertTransitionGitInstallPlanInput (ge_plan e) input = Inr ()" "gp_generation (ge_plan e) = tp_expectedGeneration input"
      "gp_phase (ge_plan e) = tp_expectedPhase input" "\<not> (case ge_leaseExpiresAt e of None \<Rightarrow> False | Some x \<Rightarrow> js_less (tp_at input) x)"
      "tp_expectedAuthority input = None \<or> (\<exists>a. gitInstallPlanManagementAuthority (ge_plan e) (tp_expectedAuthority input) = Inr a
         \<and> assertNewAdmission v (gp_workspaceId (ge_plan e)) a = Inr u)"
      "g' = g\<lparr>git_entries := js_set (tp_id input) \<lparr>ge_plan = tp_plan input, ge_leaseToken = map_option fst (tp_lease input),
            ge_leaseExpiresAt = map_option snd (tp_lease input)\<rparr> (git_entries g)\<rparr>"
    unfolding transitionUnleased_def by (auto simp: chain_Inr_iff split: if_split_asm)
  then show ?thesis
  proof cases
    case 2
    then have "\<not> lease_live e (tp_at input)" by (auto simp: lease_live_def split: option.split_asm)
    then show ?thesis using 2 Some authority_admits [of "ge_plan e" "tp_expectedAuthority input" _ v]
      by (auto simp: assertTransitionGitInstallPlanInput_def chain_Inr_iff Let_def)
  qed blast
qed (use assms in \<open>simp add: transitionUnleased_def\<close>)

lemma drainD:
  assumes "failUnclaimedDuringDrain v input g = Inr (r, g')"
  shows "(g' = g \<and> (\<forall>p. r \<noteq> PlanCompleted p))
    \<or> (\<exists>e n. js_get (git_entries g) (fu_id input) = Some e \<and> gitInstallPlanForDrainFailure (ge_plan e) input = Some n
        \<and> ge_leaseToken e = None \<and> ge_leaseExpiresAt e = None \<and> r = PlanCompleted n
        \<and> g' = g\<lparr>git_entries := js_set (fu_id input) (e\<lparr>ge_plan := n\<rparr>) (git_entries g)\<rparr>)"
  using assms by (auto simp: failUnclaimedDuringDrain_def chain_Inr_iff split: option.split_asm if_split_asm)

lemma drain_plan:
  "gitInstallPlanForDrainFailure p input = Some n \<Longrightarrow> gp_phase n = FailedPhase \<and> gp_generation n = gp_generation p
    \<and> gp_workspaceId n = gp_workspaceId p \<and> same_request_identity p n \<and> sp_authority n = sp_authority p"
  by (auto simp: gitInstallPlanForDrainFailure_def Let_def same_request_identity_def operation_of_def sameWorkspaceManagementAuthority_def split: if_split_asm)

section \<open>What every call keeps\<close>

text \<open>Rows sit under their own id, and the scope index and the rows point at each other.\<close>

definition git_ok :: "git_store \<Rightarrow> bool" where
  "git_ok g \<longleftrightarrow> js_wf (git_entries g)
     \<and> (\<forall>k e. js_get (git_entries g) k = Some e \<longrightarrow> k = gp_id (ge_plan e) \<and> k \<noteq> [] \<and> js_get (git_scopeIndex g) (scopeKey (ge_plan e)) = Some k)
     \<and> (\<forall>sc k. js_get (git_scopeIndex g) sc = Some k \<longrightarrow> (\<exists>e. js_get (git_entries g) k = Some e \<and> scopeKey (ge_plan e) = sc))"

text \<open>A row may be replaced by one of the same request with no smaller generation.\<close>

definition row_advances :: "stored_plan \<Rightarrow> stored_plan \<Rightarrow> bool" where
  "row_advances p p' \<longleftrightarrow> same_request_identity p p' \<and> gp_generation p \<le> gp_generation p'"

lemma same_request_identity_refl [simp]: "same_request_identity p p"
  by (simp add: same_request_identity_def sameWorkspaceManagementAuthority_def)

lemma same_request_identity_trans: "same_request_identity p q \<Longrightarrow> same_request_identity q r \<Longrightarrow> same_request_identity p r"
  by (simp add: same_request_identity_def sameWorkspaceManagementAuthority_def)

lemma same_request_scope: "same_request_identity p p' \<Longrightarrow> scopeKey p' = scopeKey p \<and> gp_id p' = gp_id p"
  by (simp add: same_request_identity_def scopeKey_def)

lemma row_advances_refl [simp]: "row_advances p p"
  by (simp add: row_advances_def)

lemma row_advances_trans: "row_advances p q \<Longrightarrow> row_advances q r \<Longrightarrow> row_advances p r"
  using same_request_identity_trans by (auto simp: row_advances_def)

text \<open>Every write is the creation of a fresh row or the replacement of one row by an advanced one.\<close>

lemma afterE:
  assumes "after g r = g'" obtains "g' = g" | x where "r = Inr (x, g')"
  using assms by (cases r) (auto simp: after_def)

lemma claimed_identity: "same_request_identity p (p\<lparr>gp_generation := n, gp_updatedAt := u\<rparr>)"
  by (simp add: same_request_identity_def sameWorkspaceManagementAuthority_def operation_of_def)

lemma claimed_advances: "p' = p\<lparr>gp_generation := gp_generation p + 1, gp_updatedAt := u\<rparr> \<Longrightarrow> row_advances p p'"
  by (simp add: row_advances_def claimed_identity)

lemma git_apply_effect:
  obtains (same) "git_apply v c g = g"
  | (created) plan expected where "c = CallCreate plan expected" "js_get (git_entries g) (gp_id plan) = None" "falsy_token (js_get (git_scopeIndex g) (scopeKey plan))" "admits v plan"
      "git_apply v c g = g\<lparr>git_entries := js_set (gp_id plan) \<lparr>ge_plan = plan, ge_leaseToken = None, ge_leaseExpiresAt = None\<rparr> (git_entries g),
         git_scopeIndex := js_set (scopeKey plan) (gp_id plan) (git_scopeIndex g)\<rparr>"
  | (replaced) k e e' where "js_get (git_entries g) k = Some e" "row_advances (ge_plan e) (ge_plan e')"
      "git_apply v c g = g\<lparr>git_entries := js_set k e' (git_entries g)\<rparr>"
proof -
  have wrote: thesis if "js_get (git_entries g) k = Some e" "git_apply v c g = g\<lparr>git_entries := js_set k e' (git_entries g)\<rparr>"
    "row_advances (ge_plan e) (ge_plan e')" for k e e'
    by (rule replaced [OF that(1,3,2)])
  show thesis
  proof (cases c)
    case (CallCreate plan expected)
    then have "after g (create_plan v plan expected g) = git_apply v c g" by simp
    then show thesis
    proof (cases rule: afterE)
      case (2 x)
      from create_planD [OF 2] show thesis using same created [OF CallCreate] by blast
    qed (rule same)
  next
    case (CallClaim input)
    then have "after g (claimReconcile v input g) = git_apply v c g" by simp
    then show thesis
    proof (cases rule: afterE)
      case (2 x)
      from claimD [OF 2] show thesis
        by (elim disjE exE conjE) (rule same, assumption, rule wrote, assumption, assumption, rule claimed_advances [where u = "ci_claimedAt input"], simp)
    qed (rule same)
  next
    case (CallComplete input)
    then have "after g (completeReconcile input g) = git_apply v c g" by simp
    then show thesis
    proof (cases rule: afterE)
      case (2 x)
      from completeD [OF 2] show thesis
        by (elim disjE exE conjE) (rule same, assumption, rule wrote, assumption, assumption, simp add: row_advances_def)
    qed (rule same)
  next
    case (CallTransition input)
    then have "after g (transitionUnleased v input g) = git_apply v c g" by simp
    then show thesis
    proof (cases rule: afterE)
      case (2 x)
      from transitionD [OF 2] show thesis
        by (elim disjE exE conjE) (rule same, assumption, rule wrote, assumption, assumption, simp add: row_advances_def)
    qed (rule same)
  next
    case (CallDrain input)
    then have "after g (failUnclaimedDuringDrain v input g) = git_apply v c g" by simp
    then show thesis
    proof (cases rule: afterE)
      case (2 x)
      from drainD [OF 2] show thesis
        by (elim disjE exE conjE) (rule same, assumption, rule wrote, assumption, assumption, simp add: row_advances_def drain_plan)
    qed (rule same)
  qed
qed

lemma git_apply_row:
  assumes "js_get (git_entries g) k = Some e"
  shows "\<exists>e'. js_get (git_entries (git_apply v c g)) k = Some e' \<and> row_advances (ge_plan e) (ge_plan e')"
proof (cases rule: git_apply_effect [of v c g])
  case (replaced k' d d')
  then show ?thesis using assms by (cases "k' = k") auto
qed (use assms in auto)

lemma git_run_row:
  "js_get (git_entries g) k = Some e \<Longrightarrow> \<exists>e'. js_get (git_entries (git_run calls g)) k = Some e' \<and> row_advances (ge_plan e) (ge_plan e')"
proof (induction calls arbitrary: g e)
  case (Cons x calls)
  obtain v c where x: "x = (v, c)" by (cases x)
  obtain e1 where e1: "js_get (git_entries (git_apply v c g)) k = Some e1" "row_advances (ge_plan e) (ge_plan e1)"
    using git_apply_row [OF Cons.prems] by blast
  from Cons.IH [OF e1(1)] obtain e' where "js_get (git_entries (git_run calls (git_apply v c g))) k = Some e'" "row_advances (ge_plan e1) (ge_plan e')"
    by blast
  with e1(2) x show ?case by (auto intro: row_advances_trans)
qed simp

text \<open>Plan ids are not empty; the scope index relies on it.\<close>

fun proper_call :: "git_call \<Rightarrow> bool" where
  "proper_call (CallCreate plan _) \<longleftrightarrow> gp_id plan \<noteq> []"
| "proper_call _ \<longleftrightarrow> True"

lemma git_okD:
  assumes "git_ok g"
  shows "js_get (git_entries g) k = Some e \<Longrightarrow> k = gp_id (ge_plan e) \<and> k \<noteq> [] \<and> js_get (git_scopeIndex g) (scopeKey (ge_plan e)) = Some k"
    "js_get (git_scopeIndex g) sc = Some k \<Longrightarrow> \<exists>e. js_get (git_entries g) k = Some e \<and> scopeKey (ge_plan e) = sc"
  using assms by (simp_all add: git_ok_def)

lemma git_okI:
  assumes "js_wf (git_entries g)"
    "\<And>k e. js_get (git_entries g) k = Some e \<Longrightarrow> k = gp_id (ge_plan e) \<and> k \<noteq> [] \<and> js_get (git_scopeIndex g) (scopeKey (ge_plan e)) = Some k"
    "\<And>sc k. js_get (git_scopeIndex g) sc = Some k \<Longrightarrow> \<exists>e. js_get (git_entries g) k = Some e \<and> scopeKey (ge_plan e) = sc"
  shows "git_ok g"
  using assms by (simp add: git_ok_def)

lemma git_apply_ok:
  assumes ok: "git_ok g" and c: "proper_call c"
  shows "git_ok (git_apply v c g)"
proof (cases rule: git_apply_effect [of v c g])
  case (created plan expected)
  have none: "js_get (git_scopeIndex g) (scopeKey plan) = None"
    using created(3) git_okD(2) [OF ok, of "scopeKey plan" "[]"] git_okD(1) [OF ok, of "[]"] by (auto simp: falsy_token_def)
  then have scope: "scopeKey (ge_plan e) \<noteq> scopeKey plan" if "js_get (git_entries g) k = Some e" for k e
    using git_okD(1) [OF ok that] by auto
  have id: "gp_id plan \<noteq> []" using c created(1) by simp
  have wf: "js_wf (git_entries g)" using ok by (simp add: git_ok_def)
  show ?thesis
  proof (rule git_okI)
    fix k e
    assume "js_get (git_entries (git_apply v c g)) k = Some e"
    then show "k = gp_id (ge_plan e) \<and> k \<noteq> [] \<and> js_get (git_scopeIndex (git_apply v c g)) (scopeKey (ge_plan e)) = Some k"
      using git_okD(1) [OF ok, of k e] scope [of k e] id by (auto simp: created(5) split: if_split_asm)
  next
    fix sc k
    assume "js_get (git_scopeIndex (git_apply v c g)) sc = Some k"
    then show "\<exists>e. js_get (git_entries (git_apply v c g)) k = Some e \<and> scopeKey (ge_plan e) = sc"
      using git_okD(2) [OF ok, of sc k] created(2) by (auto simp: created(5) split: if_split_asm)
  qed (simp add: created(5) wf)
next
  case (replaced k e e')
  have "scopeKey (ge_plan e') = scopeKey (ge_plan e)" "gp_id (ge_plan e') = gp_id (ge_plan e)"
    using replaced(2) same_request_scope by (auto simp: row_advances_def)
  note same = this
  have wf: "js_wf (git_entries g)" using ok by (simp add: git_ok_def)
  show ?thesis
  proof (rule git_okI)
    fix q d
    assume "js_get (git_entries (git_apply v c g)) q = Some d"
    then show "q = gp_id (ge_plan d) \<and> q \<noteq> [] \<and> js_get (git_scopeIndex (git_apply v c g)) (scopeKey (ge_plan d)) = Some q"
      using git_okD(1) [OF ok, of q] replaced(1) same by (auto simp: replaced(3) split: if_split_asm)
  next
    fix sc q
    assume "js_get (git_scopeIndex (git_apply v c g)) sc = Some q"
    then show "\<exists>d. js_get (git_entries (git_apply v c g)) q = Some d \<and> scopeKey (ge_plan d) = sc"
      using git_okD(2) [OF ok, of sc q] replaced(1) same by (auto simp: replaced(3))
  qed (simp add: replaced(3) wf)
qed (use ok in simp)

lemma git_run_ok: "git_ok g \<Longrightarrow> \<forall>(v, c) \<in> set calls. proper_call c \<Longrightarrow> git_ok (git_run calls g)"
  by (induction calls arbitrary: g) (auto simp: git_apply_ok)

section \<open>Leases and generations\<close>

text \<open>A write that expects an older generation is refused.\<close>

lemma stale_refused:
  assumes "js_get (git_entries g) k = Some e" "n < gp_generation (ge_plan e)"
  shows "ci_id i = k \<Longrightarrow> ci_expectedGeneration i = n \<Longrightarrow> git_apply v (CallClaim i) g = g"
    "tp_id t = k \<Longrightarrow> tp_expectedGeneration t = n \<Longrightarrow> git_apply v (CallTransition t) g = g"
    "co_id o1 = k \<Longrightarrow> co_expectedGeneration o1 = n \<Longrightarrow> git_apply v (CallComplete o1) g = g"
proof -
  show "git_apply v (CallClaim i) g = g" if "ci_id i = k" "ci_expectedGeneration i = n"
    using claimD [of v i g] assms that by (auto simp: after_def split: sum.split)
  show "git_apply v (CallTransition t) g = g" if "tp_id t = k" "tp_expectedGeneration t = n"
    using transitionD [of v t g] assms that by (auto simp: after_def split: sum.split)
  show "git_apply v (CallComplete o1) g = g" if "co_id o1 = k" "co_expectedGeneration o1 = n"
    using completeD [of o1 g] assms that by (auto simp: after_def split: sum.split)
qed

lemma claimed_entry:
  assumes "claimReconcile v i g = Inr (Claimed p token expiry, g1)"
  shows "\<exists>e. js_get (git_entries g1) (ci_id i) = Some e \<and> ge_plan e = p \<and> ge_leaseToken e = Some token \<and> ge_leaseExpiresAt e = Some expiry
    \<and> gp_generation p = ci_expectedGeneration i + 1"
  using assms by (auto simp: claimReconcile_def chain_Inr_iff Let_def split: option.split_asm if_split_asm)

text \<open>A call that could end the lease on row \<open>k\<close>: the holder's own completion, or a claim or transition timed at or after its end.\<close>

fun interferes :: "string \<Rightarrow> string \<Rightarrow> string \<Rightarrow> git_call \<Rightarrow> bool" where
  "interferes k token expiry (CallClaim i) \<longleftrightarrow> ci_id i = k \<and> \<not> js_less (ci_claimedAt i) expiry"
| "interferes k token expiry (CallTransition t) \<longleftrightarrow> tp_id t = k \<and> \<not> js_less (tp_at t) expiry"
| "interferes k token expiry (CallComplete c) \<longleftrightarrow> co_id c = k \<and> co_leaseToken c = token"
| "interferes k token expiry _ \<longleftrightarrow> False"

lemma leased_call:
  assumes e: "js_get (git_entries g) k = Some e" "ge_leaseToken e = Some token" "ge_leaseExpiresAt e = Some expiry" "token \<noteq> []" "expiry \<noteq> []"
    and c: "\<not> interferes k token expiry c"
  shows "js_get (git_entries (git_apply v c g)) k = Some e"
proof (cases c)
  case (CallCreate plan expected)
  show ?thesis
  proof (cases rule: git_apply_effect [of v c g])
    case (created p x)
    then show ?thesis using e(1) by auto
  next
    case (replaced k' d d')
    have "after g (create_plan v plan expected g) = git_apply v c g" using CallCreate by simp
    then show ?thesis
      by (cases rule: afterE) (use e(1) create_planD [of v plan expected g _ "git_apply v c g"] in auto)
  qed (use e(1) in simp)
next
  case (CallClaim i)
  have "lease_live e (ci_claimedAt i)" if "ci_id i = k" using c that e CallClaim by (auto simp: lease_live_def)
  then show ?thesis using CallClaim e(1) claimD [of v i g] by (fastforce simp: after_def split: sum.split)
next
  case (CallComplete i)
  then show ?thesis using c e completeD [of i g] by (fastforce simp: after_def split: sum.split)
next
  case (CallTransition i)
  have "lease_live e (tp_at i)" if "tp_id i = k" using c that e CallTransition by (auto simp: lease_live_def)
  then show ?thesis using CallTransition e(1) transitionD [of v i g] by (fastforce simp: after_def split: sum.split)
next
  case (CallDrain i)
  then show ?thesis using e drainD [of v i g] by (fastforce simp: after_def split: sum.split)
qed

lemma leased_run:
  assumes "js_get (git_entries g) k = Some e" "ge_leaseToken e = Some token" "ge_leaseExpiresAt e = Some expiry" "token \<noteq> []" "expiry \<noteq> []"
    "\<forall>(v, c) \<in> set calls. \<not> interferes k token expiry c"
  shows "js_get (git_entries (git_run calls g)) k = Some e"
  using assms(1,6) by (induction calls arbitrary: g) (auto simp: leased_call [OF _ assms(2-5)])

section \<open>Quiescence\<close>

definition quiet :: "string \<Rightarrow> string \<Rightarrow> git_store \<Rightarrow> bool" where
  "quiet ws nowIso g \<longleftrightarrow> (\<forall>k e. js_get (git_entries g) k = Some e \<and> gp_workspaceId (ge_plan e) = ws \<longrightarrow> \<not> entry_blocks nowIso e)"

lemma quiet_iff:
  assumes "js_wf (git_entries g)" shows "quiet ws nowIso g \<longleftrightarrow> \<not> hasWorkspaceManagementBlockersNow g nowIso ws"
  using js_get_iff [OF assms] by (fastforce simp: quiet_def hasWorkspaceManagementBlockersNow_def list_ex_iff js_values_def)

lemma quiet_later:
  assumes "quiet ws nowIso g" "js_le nowIso later" shows "quiet ws later g"
proof -
  have "isExpiredIdleGitInstallAttempt p nowIso \<Longrightarrow> isExpiredIdleGitInstallAttempt p later" for p :: stored_plan
    using js_le_trans [OF _ assms(2)] by (auto simp: isExpiredIdleGitInstallAttempt_def split: option.split_asm)
  then show ?thesis using assms(1) by (auto simp: quiet_def entry_blocks_def)
qed

text \<open>The caller's contract for \<open>transitionUnleased\<close>: a transition that can lead to new work names the admission it relies
  on; only one that ends the plan, without a lease, omits it.\<close>

fun disciplined :: "git_call \<Rightarrow> bool" where
  "disciplined (CallTransition t) \<longleftrightarrow>
     tp_expectedAuthority t \<noteq> None \<or> tp_lease t = None \<and> isTerminalGitInstallPlanPhase (gp_phase (tp_plan t))"
| "disciplined _ \<longleftrightarrow> True"

definition stopped :: "'a run_store_scheme \<Rightarrow> string \<Rightarrow> bool" where
  "stopped control ws \<longleftrightarrow> (\<forall>m. js_get (workspaceManagement control) ws = Some m \<longrightarrow> managementState m \<noteq> Active)"

lemma stopped_not_admitted: "stopped control ws \<Longrightarrow> admits (Some control) plan \<Longrightarrow> gp_workspaceId plan \<noteq> ws"
  by (auto simp: stopped_def admits_def)

lemma quiet_set:
  assumes "quiet ws nowIso g" "gp_workspaceId (ge_plan e) = ws \<Longrightarrow> \<not> entry_blocks nowIso e" "git_entries g' = js_set k e (git_entries g)"
  shows "quiet ws nowIso g'"
  using assms by (auto simp: quiet_def split: if_split_asm)

lemma quiet_other:
  assumes "quiet ws nowIso g" "gp_workspaceId (ge_plan e) \<noteq> ws"
  shows "quiet ws nowIso (g\<lparr>git_entries := js_set k e (git_entries g)\<rparr>)"
    "quiet ws nowIso (g\<lparr>git_entries := js_set k e (git_entries g), git_scopeIndex := idx\<rparr>)"
  using assms by (auto simp: quiet_def split: if_split_asm)

lemma same_request_workspace: "same_request_identity p p' \<Longrightarrow> gp_workspaceId p' = gp_workspaceId p"
  by (simp add: same_request_identity_def)

lemma ended_not_blocking:
  "ge_leaseToken e = None \<Longrightarrow> ge_leaseExpiresAt e = None \<Longrightarrow> isTerminalGitInstallPlanPhase (gp_phase (ge_plan e)) \<Longrightarrow> \<not> entry_blocks nowIso e"
  by (simp add: entry_blocks_def gitInstallPlanPhaseBlocksWorkspaceManagement_def)

lemma quiet_claim:
  assumes q: "quiet ws nowIso g" and s: "stopped control ws"
  shows "quiet ws nowIso (git_apply (Some control) (CallClaim i) g)"
proof -
  have "quiet ws nowIso g'" if "claimReconcile (Some control) i g = Inr (r, g')" for r g'
    using claimD [OF that] stopped_not_admitted [OF s] by (auto simp: quiet_other [OF q] q)
  then show ?thesis using q by (auto simp: after_def split: sum.split)
qed

lemma quiet_complete:
  assumes q: "quiet ws nowIso g" shows "quiet ws nowIso (git_apply v (CallComplete i) g)"
proof -
  have "quiet ws nowIso g'" if call: "completeReconcile i g = Inr (r, g')" for r g'
    using completeD [OF call]
  proof (elim disjE exE conjE)
    fix e
    assume e: "js_get (git_entries g) (co_id i) = Some e" "ge_leaseToken e = Some (co_leaseToken i)" "same_request_identity (ge_plan e) (co_plan i)"
      and g': "g' = g\<lparr>git_entries := js_set (co_id i) \<lparr>ge_plan = co_plan i, ge_leaseToken = None, ge_leaseExpiresAt = None\<rparr> (git_entries g)\<rparr>"
    have "gp_workspaceId (co_plan i) \<noteq> ws" using q e same_request_workspace by (auto simp: quiet_def entry_blocks_def)
    then show ?thesis by (intro quiet_set [OF q]) (simp_all add: g')
  qed (use q in simp)
  then show ?thesis using q by (auto simp: after_def split: sum.split)
qed

lemma quiet_transition:
  assumes q: "quiet ws nowIso g" and s: "stopped control ws" and d: "disciplined (CallTransition t)"
  shows "quiet ws nowIso (git_apply (Some control) (CallTransition t) g)"
proof -
  have "quiet ws nowIso g'" if call: "transitionUnleased (Some control) t g = Inr (r, g')" for r g'
    using transitionD [OF call]
  proof (elim disjE exE conjE)
    fix e
    assume e: "same_request_identity (ge_plan e) (tp_plan t)" "tp_expectedAuthority t \<noteq> None \<longrightarrow> admits (Some control) (ge_plan e)"
      and g': "g' = g\<lparr>git_entries := js_set (tp_id t) \<lparr>ge_plan = tp_plan t, ge_leaseToken = map_option fst (tp_lease t),
           ge_leaseExpiresAt = map_option snd (tp_lease t)\<rparr> (git_entries g)\<rparr>"
    show ?thesis
    proof (rule quiet_set [OF q])
      assume "gp_workspaceId (ge_plan \<lparr>ge_plan = tp_plan t, ge_leaseToken = map_option fst (tp_lease t), ge_leaseExpiresAt = map_option snd (tp_lease t)\<rparr>) = ws"
      then have "tp_expectedAuthority t = None" using e stopped_not_admitted [OF s, of "ge_plan e"] same_request_workspace by auto
      then show "\<not> entry_blocks nowIso \<lparr>ge_plan = tp_plan t, ge_leaseToken = map_option fst (tp_lease t), ge_leaseExpiresAt = map_option snd (tp_lease t)\<rparr>"
        using d by (intro ended_not_blocking) simp_all
    qed (simp add: g')
  qed (use q in simp)
  then show ?thesis using q by (auto simp: after_def split: sum.split)
qed

lemma quiet_drain:
  assumes q: "quiet ws nowIso g" shows "quiet ws nowIso (git_apply v (CallDrain i) g)"
proof -
  have "quiet ws nowIso g'" if call: "failUnclaimedDuringDrain v i g = Inr (r, g')" for r g'
    using drainD [OF call]
  proof (elim disjE exE conjE)
    fix e n
    assume e: "gitInstallPlanForDrainFailure (ge_plan e) i = Some n" "ge_leaseToken e = None" "ge_leaseExpiresAt e = None"
      and g': "g' = g\<lparr>git_entries := js_set (fu_id i) (e\<lparr>ge_plan := n\<rparr>) (git_entries g)\<rparr>"
    have "\<not> entry_blocks nowIso (e\<lparr>ge_plan := n\<rparr>)"
      using drain_plan [OF e(1)] e(2,3) by (intro ended_not_blocking) (simp_all add: isTerminalGitInstallPlanPhase_def)
    then show ?thesis by (intro quiet_set [OF q]) (simp_all add: g')
  qed (use q in simp)
  then show ?thesis using q by (auto simp: after_def split: sum.split)
qed

lemma quiet_create:
  assumes q: "quiet ws nowIso g" and s: "stopped control ws"
  shows "quiet ws nowIso (git_apply (Some control) (CallCreate plan expected) g)"
proof -
  have "quiet ws nowIso g'" if "create_plan (Some control) plan expected g = Inr (r, g')" for r g'
    using create_planD [OF that] stopped_not_admitted [OF s] by (auto simp: quiet_other [OF q] q)
  then show ?thesis using q by (auto simp: after_def split: sum.split)
qed

lemma quiet_apply:
  assumes "quiet ws nowIso g" "stopped control ws" "disciplined c"
  shows "quiet ws nowIso (git_apply (Some control) c g)"
  using assms
  by (cases c) (simp_all only: quiet_create quiet_claim quiet_complete quiet_transition quiet_drain)

text \<open>The paired stores: the control store takes any step that does not delete the Workspace, the Git store any disciplined call
  with the control store as its validator.\<close>

inductive paired_step :: "string \<Rightarrow> run_store \<times> git_store \<Rightarrow> run_store \<times> git_store \<Rightarrow> bool" for ws where
  pair_control: "step_keeping ws c c' \<Longrightarrow> paired_step ws (c, g) (c', g)"
| pair_git: "proper_call call \<Longrightarrow> disciplined call \<Longrightarrow> paired_step ws (c, g) (c, git_apply (Some c) call g)"

lemma frozen_management:
  assumes "freezeWorkspaceManagementIfQuiescent (Some git) now e c = Inr (Frozen_now f, c')"
  shows "js_get (workspaceManagement c') (mgmt_workspaceId e) = Some f \<and> managementState f = Frozen \<and> \<not> git (mgmt_workspaceId e)"
  using assms
proof (cases rule: freeze_cases)
  case (frozen m g)
  then show ?thesis using putManagement_frame [OF frozen(10)] by simp
qed simp

lemma step_keeping_stopped:
  assumes "step_keeping ws c c'" "ws_inv c" "js_get (workspaceManagement c) ws = Some m" "managementState m \<noteq> Active"
  shows "ws_inv c' \<and> (\<exists>m'. js_get (workspaceManagement c') ws = Some m' \<and> managementState m' \<noteq> Active)"
proof -
  obtain l where l: "l \<noteq> Some ws" "ledger_step l c c'" using assms(1) by (auto simp: step_keeping_def)
  from ledger_step_workspace [OF l(2) assms(2)] l(1) assms(3,4) show ?thesis by (fastforce simp: management_advances_def)
qed

lemma paired_quiet:
  assumes "(paired_step ws)\<^sup>*\<^sup>* p p'" "ws_inv (fst p)" "git_ok (snd p)" "js_get (workspaceManagement (fst p)) ws = Some m" "managementState m \<noteq> Active"
    "quiet ws nowIso (snd p)"
  shows "ws_inv (fst p') \<and> git_ok (snd p') \<and> (\<exists>m'. js_get (workspaceManagement (fst p')) ws = Some m' \<and> managementState m' \<noteq> Active)
    \<and> quiet ws nowIso (snd p')"
  using assms(1)
proof (induction rule: rtranclp_induct)
  case base
  then show ?case using assms(2-) by blast
next
  case (step y z)
  from step.hyps(2) show ?case
  proof (cases rule: paired_step.cases)
    case (pair_control c c' g)
    then show ?thesis using step.IH step_keeping_stopped [of ws c c'] by auto
  next
    case (pair_git call c g)
    moreover from this step.IH have "stopped c ws" by (auto simp: stopped_def)
    ultimately show ?thesis using step.IH quiet_apply git_apply_ok by auto
  qed
qed

end
