(* ===== verification/Install_Plan_Properties.thy ===== *)
theory Install_Plan_Properties
  imports Install_Plans Run_Properties
begin

text \<open>The properties of the Git install plan store, with the concrete rows of their witnesses.\<close>

section \<open>Concrete rows\<close>

definition ex_git_plan :: stored_plan where
  "ex_git_plan = \<lparr>gp_id = ''gip_1'', gp_workspaceId = ''ws_1'', gp_createdBy = ''usr_1'', gp_operation = Some ''install'', gp_requestDigest = ''digest'',
     gp_source = JObj [(''url'', JStr ''https://git.example/app''), (''ref'', JStr ''main'')], gp_capsule = Some (JObj [(''environment'', JStr ''production'')]),
     gp_options = None, gp_implicitInterfaceKeys = None, gp_preflight = None, gp_mode = Some ''attempt'', gp_awaitingInput = None,
     gp_expiresAt = Some ''2024-01-02T00:00:00.000Z'', gp_revision = None, gp_sourceId = None, gp_sourceSyncRunId = None, gp_sourceSnapshotId = None,
     gp_installConfigBaseId = None, gp_installConfigBaseDigest = None, gp_installModulePath = None, gp_compatibilityRequestDigest = None,
     gp_compatibilityCheckRunId = None, gp_compatibilityReportId = None, gp_installConfigId = None, gp_capsuleId = None, gp_planRunId = None,
     gp_phase = SyncingSource, gp_generation = 0, gp_diagnostic = None, gp_createdAt = ''2024-01-01T00:00:00.000Z'',
     gp_updatedAt = ''2024-01-01T00:00:00.000Z'', gp_completedAt = None, sp_actorSubject = ''usr_1'', sp_delegateCapsuleId = None,
     sp_idempotencyKeyHash = ''hash'', sp_authority = Some (initial_authority ''ws_1''), sp_capsuleExecutionAuthorityEpoch = None,
     sp_initialVariables = None, sp_transientVariableNames = None, sp_creationAttempted = False, sp_sourcePollingEnabledByAttempt = False,
     sp_sourceCreatedByAttempt = False, sp_autoSelectedInterfaceKeys = None, sp_attemptFacts = None, sp_initialConfiguration = None,
     sp_preflightInstallConfigDigest = None\<rparr>"

definition ex_git0 :: git_store where
  "ex_git0 = \<lparr>git_entries = [], git_scopeIndex = []\<rparr>"

definition ex_git1 :: git_store where
  "ex_git1 = git_apply (Some ex_rs0) (CallCreate ex_git_plan None) ex_git0"

definition ex_git_claim :: claim_input where
  "ex_git_claim = \<lparr>ci_id = ''gip_1'', ci_expectedGeneration = 0, ci_leaseToken = ''token'', ci_claimedAt = ''2024-01-01T00:00:01.000Z'',
     ci_leaseExpiresAt = ''2024-01-01T00:00:31.000Z'', ci_expectedAuthority = None\<rparr>"

lemma ex_git1_ok: "git_ok ex_git1"
  unfolding ex_git1_def by (rule git_apply_ok) (simp_all add: git_ok_def ex_git0_def ex_git_plan_def js_wf_def js_keys_def)

section \<open>One row per request\<close>

text \<open>C9: an idempotency scope (Workspace, actor, key) names one plan for ever. After a plan exists for a scope, whatever calls
  follow, a further creation in that scope writes nothing and answers the stored plan, as a replay just when the request digest
  is the same; and the row it answers is the same request at no smaller generation.\<close>

theorem install_plan_created_once:
  assumes "git_ok g" "js_get (git_entries g) k = Some e" "\<forall>(v, c) \<in> set calls. proper_call c"
    "scopeKey plan = scopeKey (ge_plan e)" "create_plan v plan expected (git_run calls g) = Inr (r, g')"
  shows "g' = git_run calls g
    \<and> (\<exists>p. r = (if gp_requestDigest plan = gp_requestDigest (ge_plan e) then PlanReplayed p else PlanConflict p)
         \<and> gp_id p = k \<and> row_advances (ge_plan e) p)"
proof -
  let ?g = "git_run calls g"
  have ok: "git_ok ?g" by (rule git_run_ok [OF assms(1,3)])
  obtain e' where e': "js_get (git_entries ?g) k = Some e'" "row_advances (ge_plan e) (ge_plan e')" using git_run_row [OF assms(2)] by blast
  have id: "same_request_identity (ge_plan e) (ge_plan e')" using e'(2) by (simp add: row_advances_def)
  have same: "scopeKey (ge_plan e') = scopeKey plan" "gp_id (ge_plan e') = k"
    using git_okD(1) [OF assms(1,2)] same_request_scope [OF id] assms(4) by simp_all
  have digest: "gp_requestDigest (ge_plan e') = gp_requestDigest (ge_plan e)" using id by (simp add: same_request_identity_def)
  have idx: "js_get (git_scopeIndex ?g) (scopeKey plan) = Some k" "k \<noteq> []" using git_okD(1) [OF ok e'(1)] same(1) by auto
  then have "\<not> falsy_token (js_get (git_scopeIndex ?g) (scopeKey plan))" by (simp add: falsy_token_def)
  with create_planD [OF assms(5)] obtain i where i: "g' = ?g" "js_get (git_scopeIndex ?g) (scopeKey plan) = Some i"
    "r = (if gp_requestDigest (ge_plan (the (js_get (git_entries ?g) i))) = gp_requestDigest plan
          then PlanReplayed (ge_plan (the (js_get (git_entries ?g) i))) else PlanConflict (ge_plan (the (js_get (git_entries ?g) i))))" by blast
  then have "i = k" using idx(1) by simp
  then have "r = (if gp_requestDigest plan = gp_requestDigest (ge_plan e) then PlanReplayed (ge_plan e') else PlanConflict (ge_plan e'))"
    using i(3) e'(1) digest by (simp split: if_split)
  then show ?thesis using i(1) same(2) e'(2) by blast
qed

theorem install_plan_created_once_witness:
  "\<exists>p. create_plan (Some ex_rs0) ex_git_plan None (git_run [(Some ex_rs0, CallClaim ex_git_claim)] ex_git1)
      = Inr (PlanReplayed p, git_run [(Some ex_rs0, CallClaim ex_git_claim)] ex_git1)
    \<and> gp_id p = ''gip_1'' \<and> gp_generation ex_git_plan \<le> gp_generation p"
proof -
  let ?g = "git_run [(Some ex_rs0, CallClaim ex_git_claim)] ex_git1"
  have row: "js_get (git_entries ex_git1) ''gip_1'' = Some \<lparr>ge_plan = ex_git_plan, ge_leaseToken = None, ge_leaseExpiresAt = None\<rparr>" by code_simp
  have "returned (create_plan (Some ex_rs0) ex_git_plan None ?g)" by code_simp
  then obtain r g' where c: "create_plan (Some ex_rs0) ex_git_plan None ?g = Inr (r, g')"
    by (cases "create_plan (Some ex_rs0) ex_git_plan None ?g") (auto simp: returned_def)
  from install_plan_created_once [OF ex_git1_ok row _ _ c] c show ?thesis by (auto simp: row_advances_def)
qed

section \<open>Reconcile leases\<close>

text \<open>C7: a generation is claimed once, and the claim excludes everybody else. After a claim answers with a lease until some
  time, no interleaving of calls that act before that time, other than the holder's own completion, changes the row; and
  whatever calls run, also after the lease has ended, no other claim or transition that expected the same generation succeeds.\<close>

theorem reconcile_claim_exclusive:
  assumes "claimReconcile v i g = Inr (Claimed p token expiry, g1)" "token \<noteq> []" "expiry \<noteq> []"
  shows "(\<forall>calls q. (\<forall>(v, c) \<in> set calls. \<not> interferes (ci_id i) token expiry c) \<longrightarrow> get_plan (git_run calls g1) (ci_id i) = Some p
      \<and> (gp_generation q = gp_generation p \<and> assertImmutableScope p q = Inr () \<longrightarrow>
          (\<exists>g3. completeReconcile \<lparr>co_id = ci_id i, co_expectedGeneration = gp_generation p, co_leaseToken = token, co_plan = q\<rparr>
             (git_run calls g1) = Inr (PlanCompleted q, g3))))
    \<and> (\<forall>calls v'. let g2 = git_run calls g1 in
        (\<forall>i'. ci_id i' = ci_id i \<and> ci_expectedGeneration i' = ci_expectedGeneration i \<longrightarrow> git_apply v' (CallClaim i') g2 = g2)
        \<and> (\<forall>t. tp_id t = ci_id i \<and> tp_expectedGeneration t = ci_expectedGeneration i \<longrightarrow> git_apply v' (CallTransition t) g2 = g2))"
proof -
  let ?k = "ci_id i"
  obtain e where e: "js_get (git_entries g1) ?k = Some e" "ge_plan e = p" "ge_leaseToken e = Some token" "ge_leaseExpiresAt e = Some expiry"
    "gp_generation p = ci_expectedGeneration i + 1"
    using claimed_entry [OF assms(1)] by blast
  show ?thesis
  proof (intro conjI allI impI)
    fix calls :: "('b validator \<times> git_call) list" and q
    assume "\<forall>(v, c) \<in> set calls. \<not> interferes ?k token expiry c"
    note held = leased_run [OF e(1,3,4) assms(2,3) this]
    show "get_plan (git_run calls g1) ?k = Some p" using held e(2) by (simp add: get_plan_def)
    assume "gp_generation q = gp_generation p \<and> assertImmutableScope p q = Inr ()"
    then show "\<exists>g3. completeReconcile \<lparr>co_id = ?k, co_expectedGeneration = gp_generation p, co_leaseToken = token, co_plan = q\<rparr>
        (git_run calls g1) = Inr (PlanCompleted q, g3)"
      using held e(2,3) assms(2) by (simp add: completeReconcile_def falsy_token_def assertCompletionGeneration_def throw_if_def)
  next
    fix calls :: "('c validator \<times> git_call) list" and v' :: "'d validator"
    obtain e' where "js_get (git_entries (git_run calls g1)) ?k = Some e'" "ci_expectedGeneration i < gp_generation (ge_plan e')"
      using git_run_row [OF e(1), of calls] e(2,5) by (auto simp: row_advances_def)
    note stale = stale_refused(1,2) [OF this]
    show "let g2 = git_run calls g1 in
        (\<forall>i'. ci_id i' = ?k \<and> ci_expectedGeneration i' = ci_expectedGeneration i \<longrightarrow> git_apply v' (CallClaim i') g2 = g2)
        \<and> (\<forall>t. tp_id t = ?k \<and> tp_expectedGeneration t = ci_expectedGeneration i \<longrightarrow> git_apply v' (CallTransition t) g2 = g2)"
      unfolding Let_def using stale by blast
  qed
qed
theorem reconcile_claim_exclusive_witness:
  "\<exists>p g1. claimReconcile (Some ex_rs0) ex_git_claim ex_git1 = Inr (Claimed p ''token'' ''2024-01-01T00:00:31.000Z'', g1)
    \<and> get_plan (git_run [(Some ex_rs0, CallClaim (ex_git_claim\<lparr>ci_expectedGeneration := 1, ci_claimedAt := ''2024-01-01T00:00:05.000Z''\<rparr>))] g1) ''gip_1'' = Some p
    \<and> git_apply (Some ex_rs0) (CallClaim ex_git_claim) g1 = g1"
proof -
  let ?i = "ex_git_claim\<lparr>ci_expectedGeneration := 1, ci_claimedAt := ''2024-01-01T00:00:05.000Z''\<rparr>"
  let ?none = "[] :: (unit validator \<times> git_call) list"
  have "(case claimReconcile (Some ex_rs0) ex_git_claim ex_git1 of Inr (Claimed p t x, g1) \<Rightarrow> t = ''token'' \<and> x = ''2024-01-01T00:00:31.000Z'' | _ \<Rightarrow> False)"
    by code_simp
  then obtain p g1 where c: "claimReconcile (Some ex_rs0) ex_git_claim ex_git1 = Inr (Claimed p ''token'' ''2024-01-01T00:00:31.000Z'', g1)"
    by (auto split: sum.split_asm claim_plan_result.split_asm)
  have free: "\<not> interferes ''gip_1'' ''token'' ''2024-01-01T00:00:31.000Z'' (CallClaim ?i)" by code_simp
  have k: "ci_id ex_git_claim = ''gip_1''" by (simp add: ex_git_claim_def)
  have ne: "''token'' \<noteq> []" "''2024-01-01T00:00:31.000Z'' \<noteq> []" by simp_all
  note x = reconcile_claim_exclusive [OF c ne, unfolded k]
  have all: "\<forall>(v, c) \<in> set [(Some ex_rs0, CallClaim ?i)]. \<not> interferes ''gip_1'' ''token'' ''2024-01-01T00:00:31.000Z'' c"
    using free by (simp only: list.set ball_simps prod.case simp_thms)
  have "get_plan (git_run [(Some ex_rs0, CallClaim ?i)] g1) ''gip_1'' = Some p"
    using x [THEN conjunct1, THEN spec, THEN spec, THEN mp, OF all] by (rule conjunct1)
  moreover have "git_apply (Some ex_rs0) (CallClaim ex_git_claim) (git_run ?none g1) = git_run ?none g1"
    by (rule x [THEN conjunct2, THEN spec, THEN spec, unfolded Let_def, THEN conjunct1, THEN spec, THEN mp]) (simp add: k)
  ultimately show ?thesis using c by (simp only: git_run_simps) blast
qed

section \<open>Freezing a Workspace\<close>







end
