(* ===== verification/Ip_Classification.thy ===== *)
theory Ip_Classification
  imports Js_Date "HOL-Library.Word"
begin

text \<open>
  The address classifier of the source fetchers, \<open>contract/reference/ip-classification.ts\<close>, and the host guard over it,
  \<open>contract/reference/host-blocklist.ts\<close>: which IP literals a caller-supplied URL may not name. The model follows the
  text handling of the source; the specification is about addresses as machine words, a table of address
  blocks and the spellings of an address.
\<close>

unbundle bit_operations_syntax

section \<open>Numbers and strings of the language\<close>

text \<open>Bitwise operators work on 32-bit two's complement.\<close>

definition js_bitand :: "int \<Rightarrow> int \<Rightarrow> int" where
  "js_bitand a b = sint ((word_of_int a :: 32 word) AND word_of_int b)"

definition js_bitor :: "int \<Rightarrow> int \<Rightarrow> int" where
  "js_bitor a b = sint ((word_of_int a :: 32 word) OR word_of_int b)"

definition js_shl :: "int \<Rightarrow> nat \<Rightarrow> int" where
  "js_shl a k = sint (push_bit k (word_of_int a :: 32 word))"

definition js_shr :: "int \<Rightarrow> nat \<Rightarrow> int" where
  "js_shr a k = sint (signed_drop_bit k (word_of_int a :: 32 word))"

text \<open>The value of a digit character up to base 36, and \<open>Number.parseInt\<close>: \<^const>\<open>None\<close> is \<open>NaN\<close>.\<close>

definition digit36 :: "char \<Rightarrow> nat option" where
  "digit36 c =
     (let k = of_char c in
      if 48 \<le> k \<and> k \<le> 57 then Some (k - 48)
      else if 97 \<le> k \<and> k \<le> 122 then Some (k - 87)
      else if 65 \<le> k \<and> k \<le> 90 then Some (k - 55)
      else None)"

definition radix_digit :: "nat \<Rightarrow> char \<Rightarrow> bool" where
  "radix_digit radix c = (case digit36 c of None \<Rightarrow> False | Some v \<Rightarrow> v < radix)"

definition radix_value :: "nat \<Rightarrow> string \<Rightarrow> int" where
  "radix_value radix s = foldl (\<lambda>acc c. int radix * acc + int (the (digit36 c))) 0 s"

definition js_parseInt :: "nat \<Rightarrow> string \<Rightarrow> int option" where
  "js_parseInt radix s =
     (let s1 = dropWhile js_space s;
          neg = (s1 \<noteq> [] \<and> hd s1 = CHR ''-'');
          s2 = (if s1 \<noteq> [] \<and> (hd s1 = CHR ''-'' \<or> hd s1 = CHR ''+'') then tl s1 else s1);
          s3 = (if radix = 16 \<and> (take 2 s2 = ''0x'' \<or> take 2 s2 = ''0X'') then drop 2 s2 else s2);
          digits = takeWhile (radix_digit radix) s3 in
      if digits = [] then None
      else Some (if neg then - radix_value radix digits else radix_value radix digits))"

text \<open>\<open>k.toString(16)\<close> of a number that is not negative.\<close>

definition hex_char :: "nat \<Rightarrow> char" where
  "hex_char d = (if d < 10 then digit_char d else char_of (87 + d))"

function show_hex :: "int \<Rightarrow> string" where
  "show_hex k = (if k < 16 then [hex_char (nat k)] else show_hex (k div 16) @ [hex_char (nat (k mod 16))])"
  by auto
termination by (relation "measure nat") auto

declare show_hex.simps [simp del]

text \<open>\<open>s.indexOf(t, from)\<close> and \<open>s.lastIndexOf(c)\<close>; \<^const>\<open>None\<close> is \<open>-1\<close>.\<close>

fun index_of :: "string \<Rightarrow> string \<Rightarrow> nat option" where
  "index_of t [] = (if t = [] then Some 0 else None)"
| "index_of t (x # s) = (if take (length t) (x # s) = t then Some 0 else map_option Suc (index_of t s))"

definition js_indexOf :: "string \<Rightarrow> string \<Rightarrow> nat \<Rightarrow> nat option" where
  "js_indexOf s t k = map_option (\<lambda>i. k + i) (index_of t (drop k s))"

fun js_lastIndexOf :: "string \<Rightarrow> char \<Rightarrow> nat option" where
  "js_lastIndexOf [] c = None"
| "js_lastIndexOf (x # s) c =
     (case js_lastIndexOf s c of Some i \<Rightarrow> Some (Suc i) | None \<Rightarrow> if x = c then Some 0 else None)"

section \<open>Classification\<close>

definition isIpv4Literal :: "string \<Rightarrow> bool" where
  "isIpv4Literal s \<longleftrightarrow>
     (let parts = js_split (CHR ''.'') s in
      length parts = 4 \<and> list_all (\<lambda>p. 1 \<le> length p \<and> length p \<le> 3 \<and> list_all is_digit p) parts)"

definition isPrivateIpv4 :: "string \<Rightarrow> bool" where
  "isPrivateIpv4 s =
     (let parts = map (js_parseInt 10) (js_split (CHR ''.'') s) in
      if length parts \<noteq> 4 \<or> list_ex (\<lambda>p. case p of None \<Rightarrow> True | Some n \<Rightarrow> n < 0 \<or> n > 255) parts then True
      else let a = the (parts ! 0); b = the (parts ! 1); c = the (parts ! 2); d = the (parts ! 3) in
        if a = 0 then True
        else if a = 10 then True
        else if a = 127 then True
        else if a = 169 \<and> b = 254 then True
        else if a = 172 \<and> b \<ge> 16 \<and> b \<le> 31 then True
        else if a = 192 \<and> b = 168 then True
        else if a = 100 \<and> b \<ge> 64 \<and> b \<le> 127 then True
        else if a = 192 \<and> b = 0 \<and> c = 0 then True
        else if a = 192 \<and> b = 0 \<and> c = 2 then True
        else if a = 198 \<and> (b = 18 \<or> b = 19) then True
        else if a = 198 \<and> b = 51 \<and> c = 100 then True
        else if a = 203 \<and> b = 0 \<and> c = 113 then True
        else if a \<ge> 224 then True
        else if a = 255 \<and> b = 255 \<and> c = 255 \<and> d = 255 then True
        else False)"

text \<open>The rewriting of an embedded dotted quad to two hexadecimal groups.\<close>

definition fold_embedded_ipv4 :: "string \<Rightarrow> string option" where
  "fold_embedded_ipv4 addr =
     (let after_colon = (case js_lastIndexOf addr (CHR '':'') of None \<Rightarrow> 0 | Some i \<Rightarrow> Suc i);
          tail = drop after_colon addr in
      if CHR ''.'' \<in> set tail then
        if \<not> isIpv4Literal tail then None
        else let octets = map (js_parseInt 10) (js_split (CHR ''.'') tail) in
          if list_ex (\<lambda>p. case p of None \<Rightarrow> True | Some n \<Rightarrow> n < 0 \<or> n > 255) octets then None
          else let hi = js_bitand (js_bitor (js_shl (the (octets ! 0)) 8) (the (octets ! 1))) 0xffff;
                   lo = js_bitand (js_bitor (js_shl (the (octets ! 2)) 8) (the (octets ! 3))) 0xffff in
            Some (take after_colon addr @ show_hex hi @ '':'' @ show_hex lo)
      else Some addr)"

definition parse_group :: "string \<Rightarrow> int option" where
  "parse_group token =
     (if length token = 0 \<or> length token > 4 then None
      else if \<not> list_all (radix_digit 16) token then None
      else Some (js_bitand (the (js_parseInt 16 token)) 0xffff))"

definition parseGroups :: "string \<Rightarrow> int list option" where
  "parseGroups part = (if length part = 0 then Some [] else those (map parse_group (js_split (CHR '':'') part)))"

definition parse_groups_text :: "string \<Rightarrow> int list option" where
  "parse_groups_text head =
     (case js_indexOf head ''::'' 0 of
        Some doubleColon \<Rightarrow>
          if js_indexOf head ''::'' (doubleColon + 1) \<noteq> None then None
          else (case (parseGroups (take doubleColon head), parseGroups (drop (doubleColon + 2) head)) of
              (Some left, Some right) \<Rightarrow>
                if length left + length right > 8 then None
                else let groups = left @ replicate (8 - (length left + length right)) 0 @ right in
                  if length groups \<noteq> 8 then None else Some groups
            | _ \<Rightarrow> None)
      | None \<Rightarrow>
          (case (parseGroups (if head \<noteq> [] \<and> last head = CHR '':'' then butlast head else head), parseGroups []) of
              (Some left, Some right) \<Rightarrow> if length (left @ right) \<noteq> 8 then None else Some (left @ right)
            | _ \<Rightarrow> None))"

definition parseIpv6 :: "string \<Rightarrow> int list option" where
  "parseIpv6 s =
     (if CHR '':'' \<notin> set s then None
      else let addr = (case js_indexOf s ''%'' 0 of None \<Rightarrow> s | Some z \<Rightarrow> take z s) in
        case fold_embedded_ipv4 addr of None \<Rightarrow> None | Some head \<Rightarrow> parse_groups_text head)"

definition groupsToDotted :: "int \<Rightarrow> int \<Rightarrow> string" where
  "groupsToDotted high low =
     show_int (js_bitand (js_shr high 8) 0xff) @ ''.'' @ show_int (js_bitand high 0xff) @ ''.''
     @ show_int (js_bitand (js_shr low 8) 0xff) @ ''.'' @ show_int (js_bitand low 0xff)"

text \<open>An element beyond the end of the array is \<open>undefined\<close>: equal to no number, and zero as an operand of a bitwise operator.\<close>

definition group_is :: "int list \<Rightarrow> nat \<Rightarrow> int \<Rightarrow> bool" where
  "group_is gs i v \<longleftrightarrow> i < length gs \<and> gs ! i = v"

definition group_bits :: "int list \<Rightarrow> nat \<Rightarrow> int" where
  "group_bits gs i = (if i < length gs then gs ! i else 0)"

definition isPrivateIpv6Groups :: "int list \<Rightarrow> bool" where
  "isPrivateIpv6Groups gs =
     (if list_all (\<lambda>g. g = 0) gs then True
      else if group_is gs 0 0 \<and> group_is gs 1 0 \<and> group_is gs 2 0 \<and> group_is gs 3 0 \<and> group_is gs 4 0 \<and> group_is gs 5 0
              \<and> group_is gs 6 0 \<and> group_is gs 7 1 then True
      else if js_bitand (group_bits gs 0) 0xfe00 = 0xfc00 then True
      else if js_bitand (group_bits gs 0) 0xffc0 = 0xfe80 then True
      else if js_bitand (group_bits gs 0) 0xff00 = 0xff00 then True
      else if group_is gs 0 0 \<and> group_is gs 1 0 \<and> group_is gs 2 0 \<and> group_is gs 3 0 \<and> group_is gs 4 0 \<and> group_is gs 5 0xffff
              \<and> isPrivateIpv4 (groupsToDotted (group_bits gs 6) (group_bits gs 7)) then True
      else if group_is gs 0 0 \<and> group_is gs 1 0 \<and> group_is gs 2 0 \<and> group_is gs 3 0 \<and> group_is gs 4 0 \<and> group_is gs 5 0
              \<and> \<not> (group_is gs 6 0 \<and> 7 < length gs \<and> gs ! 7 \<le> 1)
              \<and> isPrivateIpv4 (groupsToDotted (group_bits gs 6) (group_bits gs 7)) then True
      else if group_is gs 0 0x64 \<and> group_is gs 1 0xff9b \<and> group_is gs 2 0 \<and> group_is gs 3 0 \<and> group_is gs 4 0 \<and> group_is gs 5 0
              \<and> isPrivateIpv4 (groupsToDotted (group_bits gs 6) (group_bits gs 7)) then True
      else if group_is gs 0 0x2002 \<and> isPrivateIpv4 (groupsToDotted (group_bits gs 1) (group_bits gs 2)) then True
      else False)"

definition stripIpv6Brackets :: "string \<Rightarrow> string" where
  "stripIpv6Brackets host =
     (if host \<noteq> [] \<and> hd host = CHR ''['' \<and> last host = CHR '']'' then butlast (tl host) else host)"

definition isPrivateIP :: "string \<Rightarrow> bool" where
  "isPrivateIP ip =
     (let literal = (if ip \<noteq> [] \<and> hd ip = CHR ''['' \<and> last ip = CHR '']'' then butlast (tl ip) else ip) in
      if isIpv4Literal literal then isPrivateIpv4 literal
      else case parseIpv6 literal of None \<Rightarrow> False | Some groups \<Rightarrow> isPrivateIpv6Groups groups)"

datatype host_error = BlockedHostError string string

definition assertHostNotBlocked :: "string \<Rightarrow> string \<Rightarrow> host_error + unit" where
  "assertHostNotBlocked host label =
     (let literal = stripIpv6Brackets host in
      if isIpv4Literal literal then
        if isPrivateIpv4 literal then Inl (BlockedHostError label host) else Inr ()
      else case parseIpv6 literal of
          Some groups \<Rightarrow> if isPrivateIpv6Groups groups then Inl (BlockedHostError label host) else Inr ()
        | None \<Rightarrow> Inr ())"

section \<open>Bitwise operators on small numbers\<close>

lemma js_bitand_code [code]: "js_bitand a b = signed_take_bit 31 (a AND b)"
  unfolding js_bitand_def by transfer simp
lemma js_bitor_code [code]: "js_bitor a b = signed_take_bit 31 (a OR b)"
  unfolding js_bitor_def by transfer simp
lemma js_shl_code [code]: "js_shl a k = signed_take_bit 31 (push_bit k a)"
  unfolding js_shl_def by transfer (simp add: signed_take_bit_take_bit)
lemma js_shr_code [code]: "js_shr a k = drop_bit k (signed_take_bit 31 a)"
  unfolding js_shr_def by transfer (rule bit_eqI, auto simp: bit_simps min_def)

lemma int32_small: "0 \<le> a \<Longrightarrow> a < 2 ^ 31 \<Longrightarrow> signed_take_bit 31 a = (a :: int)"
  by (simp add: signed_take_bit_int_eq_self_iff)

lemma int_and_bound: "0 \<le> (a :: int) \<Longrightarrow> 0 \<le> b \<Longrightarrow> b < 2 ^ 31 \<Longrightarrow> js_bitand a b = a AND b"
  unfolding js_bitand_code by (rule int32_small) (auto intro: order.strict_trans1 [OF AND_upper2])

lemma js_bitand_mask: "0 \<le> a \<Longrightarrow> k < 31 \<Longrightarrow> js_bitand a (mask k) = a mod 2 ^ k"
proof -
  assume a: "0 \<le> a" "k < 31"
  have "(mask k :: int) < 2 ^ 31" using power_strict_increasing [OF a(2), of "2 :: int"] by (simp add: mask_eq_exp_minus_1)
  then have "js_bitand a (mask k) = a AND mask k" using a by (intro int_and_bound) simp_all
  then show ?thesis by (simp add: take_bit_eq_mask [symmetric] take_bit_eq_mod)
qed

lemma js_bitand_ff: "0 \<le> a \<Longrightarrow> js_bitand a 0xff = a mod 256" using js_bitand_mask [of a 8] by (simp add: mask_numeral)
lemma js_bitand_ffff: "0 \<le> a \<Longrightarrow> js_bitand a 0xffff = a mod 65536" using js_bitand_mask [of a 16] by (simp add: mask_numeral)

lemma int_div_less_if: "(a :: int) < c * b \<Longrightarrow> 0 < b \<Longrightarrow> a div b < c"
  using mult_right_mono [of c "a div b" b] pos_mod_sign [of b a] div_mult_mod_eq [of a b] by linarith

lemma js_bitand_high:
  assumes "0 \<le> a" "a < 65536"
  shows "js_bitand a 0xfe00 = a div 512 * 512" "js_bitand a 0xffc0 = a div 64 * 64" "js_bitand a 0xff00 = a div 256 * 256"
proof -
  have hi: "a AND push_bit k (mask (16 - k)) = a div 2 ^ k * 2 ^ k" if "k \<le> 16" for k
  proof -
    have "a AND push_bit k (mask (16 - k)) = push_bit k (take_bit (16 - k) (drop_bit k a))"
      by (rule bit_eqI) (auto simp: bit_simps)
    also have "take_bit (16 - k) (drop_bit k a) = drop_bit k a"
    proof -
      have "2 ^ k * (2 :: int) ^ (16 - k) = 65536" using that power_add [of "2 :: int" k "16 - k"] by simp
      then have "a div 2 ^ k < 2 ^ (16 - k)" using assms by (intro int_div_less_if) (simp_all add: mult.commute)
      then show ?thesis using assms by (simp add: take_bit_int_eq_self_iff drop_bit_eq_div pos_imp_zdiv_nonneg_iff)
    qed
    finally show ?thesis by (simp add: drop_bit_eq_div push_bit_eq_mult)
  qed
  show "js_bitand a 0xfe00 = a div 512 * 512" "js_bitand a 0xffc0 = a div 64 * 64" "js_bitand a 0xff00 = a div 256 * 256"
    using hi [of 9] hi [of 6] hi [of 8] assms by (simp_all add: int_and_bound mask_numeral push_bit_eq_mult)
qed

lemma js_shr_8: "0 \<le> a \<Longrightarrow> a < 65536 \<Longrightarrow> js_shr a 8 = a div 256"
  by (simp add: js_shr_code int32_small drop_bit_eq_div)

lemma js_pack: 
  assumes "0 \<le> a" "a < 256" "0 \<le> b" "b < 256"
  shows "js_bitand (js_bitor (js_shl a 8) b) 0xffff = a * 256 + b"
proof -
  have "take_bit 8 b = b" using assms by (simp add: take_bit_int_eq_self_iff)
  then have low: "bit b n \<Longrightarrow> n < 8" for n by (metis bit_take_bit_iff)
  have "push_bit 8 a OR b = push_bit 8 a + b"
    by (rule disjunctive_add [symmetric])
       (auto simp: bit_simps dest: low)
  then show ?thesis using assms by (simp add: js_shl_code js_bitor_code int32_small push_bit_eq_mult js_bitand_ffff)
qed

section \<open>Digits\<close>

lemma radix_digit_10: "radix_digit 10 c \<longleftrightarrow> is_digit c"
  by (simp add: radix_digit_def digit36_def is_digit_def Let_def split: if_splits) linarith

lemma digit36_digit: "is_digit c \<Longrightarrow> digit36 c = Some (digit_value c)"
  by (simp add: digit36_def is_digit_def digit_value_def Let_def)

lemma radix_value_snoc: "radix_value r (s @ [c]) = int r * radix_value r s + int (the (digit36 c))"
  by (simp add: radix_value_def)

lemma radix_value_decimal: "list_all is_digit s \<Longrightarrow> radix_value 10 s = int (decimal_value 0 s)"
  by (induction s rule: rev_induct) (simp_all add: radix_value_snoc decimal_value_append digit36_digit, simp add: radix_value_def)

lemma radix_digit_plain: "radix_digit r c \<Longrightarrow> r \<le> 36 \<Longrightarrow> \<not> js_space c \<and> c \<noteq> CHR ''-'' \<and> c \<noteq> CHR ''+'' \<and> c \<noteq> CHR '':'' \<and> c \<noteq> CHR ''.'' \<and> c \<noteq> CHR ''%'' \<and> c \<noteq> CHR ''['' \<and> c \<noteq> CHR '']''"
  by (auto simp: radix_digit_def digit36_def js_space_def Let_def split: if_splits)

lemma radix_16_not_x: "\<not> radix_digit 16 CHR ''x''" "\<not> radix_digit 16 CHR ''X''"
  by code_simp+

lemma js_parseInt_digits:
  assumes "s \<noteq> []" "list_all (radix_digit r) s" "r \<le> 36"
  shows "js_parseInt r s = Some (radix_value r s)"
proof -
  obtain c t where s: "s = c # t" using assms(1) by (cases s) auto
  have c: "\<not> js_space c" "c \<noteq> CHR ''-''" "c \<noteq> CHR ''+''" using radix_digit_plain assms(2,3) by (auto simp: s)
  have x: "(r = 16 \<and> (take 2 s = ''0x'' \<or> take 2 s = ''0X'')) = False"
    using assms(2) radix_16_not_x by (cases t) (auto simp: s)
  have "takeWhile (radix_digit r) s = s" using assms(2) by (simp add: takeWhile_eq_all_conv list_all_iff)
  moreover have "dropWhile js_space s = s" "(s \<noteq> [] \<and> hd s = CHR ''-'') = False" "(s \<noteq> [] \<and> (hd s = CHR ''-'' \<or> hd s = CHR ''+'')) = False"
    using c by (simp_all add: s)
  ultimately show ?thesis using assms(1) by (simp only: js_parseInt_def Let_def x if_False)
qed

lemma radix_value_nonneg [simp]: "0 \<le> radix_value r s"
  by (induction s rule: rev_induct) (simp_all add: radix_value_snoc, simp add: radix_value_def)

lemma radix_value_bound: "list_all (radix_digit r) s \<Longrightarrow> radix_value r s < int r ^ length s"
proof (induction s rule: rev_induct)
  case Nil
  then show ?case by (simp add: radix_value_def)
next
  case (snoc c s)
  then have "the (digit36 c) < r" by (auto simp: radix_digit_def split: option.splits)
  moreover have "radix_value r s + 1 \<le> int r ^ length s" using snoc by simp
  then have "int r * (radix_value r s + 1) \<le> int r * int r ^ length s" by (rule mult_left_mono) simp
  ultimately show ?case by (simp add: radix_value_snoc algebra_simps)
qed

lemma hex_char_simps: "d < 16 \<Longrightarrow> radix_digit 16 (hex_char d) \<and> digit36 (hex_char d) = Some d"
  by (auto simp: hex_char_def digit_char_def radix_digit_def digit36_def Let_def)

lemma show_hex_value: "0 \<le> k \<Longrightarrow> list_all (radix_digit 16) (show_hex k) \<and> radix_value 16 (show_hex k) = k \<and> show_hex k \<noteq> []"
proof (induction k rule: show_hex.induct)
  case (1 k)
  show ?case
  proof (cases "k < 16")
    case True
    then show ?thesis using 1(2) hex_char_simps [of "nat k"] by (simp add: show_hex.simps [of k] radix_value_def)
  next
    case False
    then show ?thesis using 1 hex_char_simps [of "nat (k mod 16)"]
      by (subst (1 2 3) show_hex.simps) (simp add: radix_value_snoc)
  qed
qed

lemma show_hex_length: "0 \<le> k \<Longrightarrow> k < 16 ^ Suc n \<Longrightarrow> length (show_hex k) \<le> Suc n"
proof (induction n arbitrary: k)
  case 0
  then show ?case by (subst show_hex.simps) simp
next
  case (Suc n)
  then have "k div 16 < 16 ^ Suc n" by (intro int_div_less_if) (simp_all add: mult.commute)
  then have "length (show_hex (k div 16)) \<le> Suc n" using Suc by (simp add: pos_imp_zdiv_nonneg_iff)
  then show ?case by (subst show_hex.simps) simp
qed

section \<open>Address blocks\<close>

text \<open>An address is a machine word; a block is a network with the number of its leading bits.\<close>

definition in_block :: "'a::len word \<Rightarrow> 'a word \<times> nat \<Rightarrow> bool" where
  "in_block w b \<longleftrightarrow> drop_bit (LENGTH('a) - snd b) w = drop_bit (LENGTH('a) - snd b) (fst b)"

definition quad :: "int \<Rightarrow> int \<Rightarrow> int \<Rightarrow> int \<Rightarrow> 32 word" where
  "quad a b c d = word_of_int (a * 2 ^ 24 + b * 2 ^ 16 + c * 2 ^ 8 + d)"

definition blocked_ipv4_blocks :: "(32 word \<times> nat) list" where
  "blocked_ipv4_blocks =
     [(quad 0 0 0 0, 8), (quad 10 0 0 0, 8), (quad 127 0 0 0, 8), (quad 169 254 0 0, 16), (quad 172 16 0 0, 12),
      (quad 192 168 0 0, 16), (quad 100 64 0 0, 10), (quad 192 0 0 0, 24), (quad 192 0 2 0, 24), (quad 198 18 0 0, 15),
      (quad 198 51 100 0, 24), (quad 203 0 113 0, 24), (quad 224 0 0 0, 3)]"

definition blocked_ipv4 :: "32 word \<Rightarrow> bool" where
  "blocked_ipv4 w \<longleftrightarrow> list_ex (in_block w) blocked_ipv4_blocks"

lemma in_block_int:
  assumes "0 \<le> x" "x < 2 ^ LENGTH('a)" "0 \<le> n" "n < 2 ^ LENGTH('a)"
  shows "in_block (word_of_int x :: 'a::len word) (word_of_int n, l) \<longleftrightarrow> x div 2 ^ (LENGTH('a) - l) = n div 2 ^ (LENGTH('a) - l)"
proof -
  have "uint (drop_bit k (word_of_int y :: 'a word)) = y div 2 ^ k" if "0 \<le> y" "y < 2 ^ LENGTH('a)" for y k
    using that by (simp only: unsigned_drop_bit_eq) (simp add: drop_bit_eq_div take_bit_int_eq_self_iff uint_word_of_int take_bit_eq_mod)
  with assms show ?thesis by (simp add: in_block_def word_uint_eq_iff)
qed

lemma quad_in_block:
  assumes "0 \<le> a" "a < 256" "0 \<le> b" "b < 256" "0 \<le> c" "c < 256" "0 \<le> d" "d < 256"
    and "0 \<le> n" "n < 2 ^ 32"
  shows "in_block (quad a b c d) (word_of_int n, l)
    \<longleftrightarrow> (a * 16777216 + b * 65536 + c * 256 + d) div 2 ^ (32 - l) = n div 2 ^ (32 - l)"
  unfolding quad_def using assms by (subst in_block_int) simp_all

lemma int_div_pack: "x = q * k + r \<Longrightarrow> 0 \<le> r \<Longrightarrow> r < k \<Longrightarrow> x div k = (q :: int)"
  by simp

lemma pack_eq:
  assumes "0 \<le> b" "b < k" "0 \<le> q" "q < k"
  shows "a * k + b = p * k + q \<longleftrightarrow> a = p \<and> b = (q :: int)"
proof
  assume e: "a * k + b = p * k + q"
  have "(a * k + b) div k = a" "(a * k + b) div k = p"
    by (rule int_div_pack [OF refl assms(1,2)], rule int_div_pack [OF e assms(3,4)])
  then show "a = p \<and> b = q" using e by simp
qed simp

lemma blocked_quad:
  assumes "0 \<le> a" "a < 256" "0 \<le> b" "b < 256" "0 \<le> c" "c < 256" "0 \<le> d" "d < 256"
  shows "blocked_ipv4 (quad a b c d) \<longleftrightarrow>
    a = 0 \<or> a = 10 \<or> a = 127 \<or> a = 169 \<and> b = 254 \<or> a = 172 \<and> 16 \<le> b \<and> b \<le> 31 \<or> a = 192 \<and> b = 168 \<or> a = 100 \<and> 64 \<le> b \<and> b \<le> 127
    \<or> a = 192 \<and> b = 0 \<and> c = 0 \<or> a = 192 \<and> b = 0 \<and> c = 2 \<or> a = 198 \<and> (b = 18 \<or> b = 19) \<or> a = 198 \<and> b = 51 \<and> c = 100
    \<or> a = 203 \<and> b = 0 \<and> c = 113 \<or> 224 \<le> a"
proof -
  let ?x = "a * 16777216 + b * 65536 + c * 256 + d"
  have net: "quad p q r s = word_of_int (p * 16777216 + q * 65536 + r * 256 + s)" for p q r s by (simp add: quad_def)
  have three: "a * 65536 + b * 256 + c = (p * 256 + q) * 256 + r \<longleftrightarrow> a = p \<and> b = q \<and> c = r" if "0 \<le> q" "q < 256" "0 \<le> r" "r < 256" for r p q
    using pack_eq [of c 256 r "a * 256 + b" "p * 256 + q"] pack_eq [of b 256 q a p] assms that by (simp add: algebra_simps)
  have b16: "b = b div 16 * 16 + b mod 16" "b = b div 64 * 64 + b mod 64" "b = b div 2 * 2 + b mod 2" "a = a div 32 * 32 + a mod 32" by simp_all
  have m: "0 \<le> b mod 16" "b mod 16 < 16" "0 \<le> b mod 64" "b mod 64 < 64" "0 \<le> b mod 2" "b mod 2 < 2" "0 \<le> a mod 32" "a mod 32 < 32" by simp_all
  have "?x div 16777216 = a" "?x div 65536 = a * 256 + b" "?x div 256 = a * 65536 + b * 256 + c"
    "?x div 1048576 = a * 16 + b div 16" "?x div 4194304 = a * 4 + b div 64" "?x div 131072 = a * 128 + b div 2" "?x div 536870912 = a div 32"
    subgoal by (rule int_div_pack [where r = "b * 65536 + c * 256 + d"]) (use assms in linarith)+
    subgoal by (rule int_div_pack [where r = "c * 256 + d"]) (use assms in \<open>simp only: distrib_right mult.assoc; linarith\<close>)+
    subgoal by (rule int_div_pack [where r = d]) (use assms in \<open>simp only: distrib_right mult.assoc; linarith\<close>)+
    subgoal by (rule int_div_pack [where r = "b mod 16 * 65536 + c * 256 + d"]) (use assms b16 m in \<open>simp only: distrib_right mult.assoc; linarith\<close>)+
    subgoal by (rule int_div_pack [where r = "b mod 64 * 65536 + c * 256 + d"]) (use assms b16 m in \<open>simp only: distrib_right mult.assoc; linarith\<close>)+
    subgoal by (rule int_div_pack [where r = "b mod 2 * 65536 + c * 256 + d"]) (use assms b16 m in \<open>simp only: distrib_right mult.assoc; linarith\<close>)+
    subgoal by (rule int_div_pack [where r = "a mod 32 * 16777216 + b * 65536 + c * 256 + d"]) (use assms b16 m in \<open>simp only: distrib_right mult.assoc; linarith\<close>)+
    done
  note d = this
  have e: "in_block (quad a b c d) (quad p q r s, l)
      \<longleftrightarrow> ?x div 2 ^ (32 - l) = (p * 16777216 + q * 65536 + r * 256 + s) div 2 ^ (32 - l)"
    if "0 \<le> p * 16777216 + q * 65536 + r * 256 + s" "p * 16777216 + q * 65536 + r * 256 + s < 2 ^ 32" for p q r s l
    unfolding net [of p] by (rule quad_in_block [OF assms that])
  have "blocked_ipv4 (quad a b c d) \<longleftrightarrow> a = 0 \<or> a = 10 \<or> a = 127 \<or> a * 256 + b = 43518 \<or> a * 16 + b div 16 = 2753 \<or> a * 256 + b = 49320
    \<or> a * 4 + b div 64 = 401 \<or> a * 65536 + b * 256 + c = 12582912 \<or> a * 65536 + b * 256 + c = 12582914 \<or> a * 128 + b div 2 = 25353
    \<or> a * 65536 + b * 256 + c = 12989284 \<or> a * 65536 + b * 256 + c = 13303921 \<or> a div 32 = 7"
    by (simp add: blocked_ipv4_def blocked_ipv4_blocks_def e d)
  moreover have "a * 256 + b = 43518 \<longleftrightarrow> a = 169 \<and> b = 254" "a * 256 + b = 49320 \<longleftrightarrow> a = 192 \<and> b = 168"
    using pack_eq [of b 256 254 a 169] pack_eq [of b 256 168 a 192] assms by simp_all
  moreover have "a * 65536 + b * 256 + c = 12582912 \<longleftrightarrow> a = 192 \<and> b = 0 \<and> c = 0" "a * 65536 + b * 256 + c = 12582914 \<longleftrightarrow> a = 192 \<and> b = 0 \<and> c = 2"
    "a * 65536 + b * 256 + c = 12989284 \<longleftrightarrow> a = 198 \<and> b = 51 \<and> c = 100" "a * 65536 + b * 256 + c = 13303921 \<longleftrightarrow> a = 203 \<and> b = 0 \<and> c = 113"
    using three [of 0 0 192] three [of 0 2 192] three [of 51 100 198] three [of 0 113 203] by simp_all
  moreover have "a * 16 + b div 16 = 2753 \<longleftrightarrow> a = 172 \<and> b div 16 = 1" "a * 4 + b div 64 = 401 \<longleftrightarrow> a = 100 \<and> b div 64 = 1"
    "a * 128 + b div 2 = 25353 \<longleftrightarrow> a = 198 \<and> b div 2 = 9"
    using pack_eq [of "b div 16" 16 1 a 172] pack_eq [of "b div 64" 4 1 a 100] pack_eq [of "b div 2" 128 9 a 198] assms b16 m by simp_all
  moreover have "b div 16 = 1 \<longleftrightarrow> 16 \<le> b \<and> b \<le> 31" "b div 64 = 1 \<longleftrightarrow> 64 \<le> b \<and> b \<le> 127" "b div 2 = 9 \<longleftrightarrow> b = 18 \<or> b = 19" "a div 32 = 7 \<longleftrightarrow> 224 \<le> a"
    using assms by arith+
  ultimately show ?thesis by simp
qed

section \<open>Spellings of an IPv4 address\<close>

definition octet_text :: "string \<Rightarrow> int \<Rightarrow> bool" where
  "octet_text s n \<longleftrightarrow> 1 \<le> length s \<and> length s \<le> 3 \<and> list_all is_digit s \<and> radix_value 10 s = n \<and> n < 256"

definition ipv4_text :: "string \<Rightarrow> 32 word \<Rightarrow> bool" where
  "ipv4_text s w \<longleftrightarrow> (\<exists>sa sb sc sd a b c d. s = join_with ''.'' [sa, sb, sc, sd]
     \<and> octet_text sa a \<and> octet_text sb b \<and> octet_text sc c \<and> octet_text sd d \<and> w = quad a b c d)"

lemma octet_text_parse:
  assumes "octet_text s n"
  shows "js_parseInt 10 s = Some n" "CHR ''.'' \<notin> set s" "0 \<le> n" "n < 256"
proof -
  have "list_all (radix_digit 10) s" using assms by (auto simp: octet_text_def list_all_iff radix_digit_10)
  then show "js_parseInt 10 s = Some n" using assms by (auto simp: octet_text_def intro!: js_parseInt_digits)
  show "CHR ''.'' \<notin> set s" using assms by (auto simp: octet_text_def list_all_iff is_digit_def)
  show "0 \<le> n" "n < 256" using assms radix_value_nonneg [of 10 s] by (auto simp: octet_text_def simp del: radix_value_nonneg)
qed

lemma ipv4_text_split:
  assumes "octet_text sa a" "octet_text sb b" "octet_text sc c" "octet_text sd d"
  shows "js_split (CHR ''.'') (join_with ''.'' [sa, sb, sc, sd]) = [sa, sb, sc, sd]"
  using octet_text_parse(2) [OF assms(1)] octet_text_parse(2) [OF assms(2)] octet_text_parse(2) [OF assms(3)] octet_text_parse(2) [OF assms(4)]
  by (intro js_split_join) auto

lemma ipv4_text_literal: "ipv4_text s w \<Longrightarrow> isIpv4Literal s"
  unfolding ipv4_text_def isIpv4Literal_def by (auto simp: ipv4_text_split Let_def simp del: join_with.simps) (auto simp: octet_text_def)

lemma isPrivateIpv4_text:
  assumes "ipv4_text s w"
  shows "isPrivateIpv4 s \<longleftrightarrow> blocked_ipv4 w"
proof -
  obtain sa sb sc sd a b c d where s: "s = join_with ''.'' [sa, sb, sc, sd]" and w: "w = quad a b c d"
    and t: "octet_text sa a" "octet_text sb b" "octet_text sc c" "octet_text sd d" using assms unfolding ipv4_text_def by blast
  note p = octet_text_parse(1) [OF t(1)] octet_text_parse(1) [OF t(2)] octet_text_parse(1) [OF t(3)] octet_text_parse(1) [OF t(4)]
  note r = octet_text_parse(3,4) [OF t(1)] octet_text_parse(3,4) [OF t(2)] octet_text_parse(3,4) [OF t(3)] octet_text_parse(3,4) [OF t(4)]
  have "isPrivateIpv4 s \<longleftrightarrow> a = 0 \<or> a = 10 \<or> a = 127 \<or> a = 169 \<and> b = 254 \<or> a = 172 \<and> 16 \<le> b \<and> b \<le> 31 \<or> a = 192 \<and> b = 168
    \<or> a = 100 \<and> 64 \<le> b \<and> b \<le> 127
    \<or> a = 192 \<and> b = 0 \<and> c = 0 \<or> a = 192 \<and> b = 0 \<and> c = 2 \<or> a = 198 \<and> (b = 18 \<or> b = 19) \<or> a = 198 \<and> b = 51 \<and> c = 100
    \<or> a = 203 \<and> b = 0 \<and> c = 113 \<or> 224 \<le> a"
    unfolding isPrivateIpv4_def s ipv4_text_split [OF t] Let_def list.map p using r by auto
  then show ?thesis using blocked_quad [OF r] by (simp add: w)
qed

lemma show_nat_length: "k < 10 ^ Suc n \<Longrightarrow> length (show_nat k) \<le> Suc n"
proof (induction n arbitrary: k)
  case 0
  then show ?case by (subst show_nat.simps) simp
next
  case (Suc n)
  then have "k div 10 < 10 ^ Suc n" by (simp add: div_less_iff_less_mult)
  from Suc.IH [OF this] show ?case by (subst show_nat.simps) simp
qed

lemma show_int_octet: "0 \<le> n \<Longrightarrow> n < 256 \<Longrightarrow> octet_text (show_int n) n"
  using show_nat_length [of "nat n" 2] show_nat_nonempty [of "nat n"] show_nat_digits [of _ "nat n"] radix_value_decimal [of "show_nat (nat n)"]
    decimal_value_show_nat [of "nat n"]
  by (auto simp: octet_text_def show_int_def list_all_iff Suc_le_eq)

lemma groupsToDotted_text:
  assumes "0 \<le> high" "high < 65536" "0 \<le> low" "low < 65536"
  shows "ipv4_text (groupsToDotted high low) (word_of_int (high * 65536 + low))"
proof -
  let ?a = "high div 256" and ?b = "high mod 256" and ?c = "low div 256" and ?d = "low mod 256"
  have r: "0 \<le> ?a" "?a < 256" "0 \<le> ?c" "?c < 256" using assms by (simp_all add: pos_imp_zdiv_nonneg_iff int_div_less_if)
  have "groupsToDotted high low = join_with ''.'' [show_int ?a, show_int ?b, show_int ?c, show_int ?d]"
    using assms r by (simp add: groupsToDotted_def js_shr_8 js_bitand_ff)
  moreover have "word_of_int (high * 65536 + low) = quad ?a ?b ?c ?d"
  proof -
    have "high = ?a * 256 + ?b" "low = ?c * 256 + ?d" by simp_all
    then have "high * 65536 + low = ?a * 16777216 + ?b * 65536 + ?c * 256 + ?d" by linarith
    then show ?thesis by (simp add: quad_def)
  qed
  ultimately show ?thesis unfolding ipv4_text_def using show_int_octet r by (metis pos_mod_bound pos_mod_sign zero_less_numeral)
qed

section \<open>IPv6 address blocks\<close>

definition group_range :: "int \<Rightarrow> bool" where
  "group_range g \<longleftrightarrow> 0 \<le> g \<and> g < 65536"

definition groups_value :: "int list \<Rightarrow> int" where
  "groups_value gs = foldl (\<lambda>acc g. acc * 65536 + g) 0 gs"

definition ipv6_word :: "int list \<Rightarrow> 128 word" where
  "ipv6_word gs = word_of_int (groups_value gs)"

text \<open>The blocks of IPv4 addresses below a prefix, \<open>shift\<close> bits above the end.\<close>

definition embedded_blocks :: "int list \<Rightarrow> nat \<Rightarrow> (128 word \<times> nat) list" where
  "embedded_blocks prefix shift =
     map (\<lambda>(net, len). (word_of_int ((groups_value prefix * 2 ^ 32 + uint net) * 2 ^ shift), 16 * length prefix + len)) blocked_ipv4_blocks"

definition blocked_ipv6_blocks :: "(128 word \<times> nat) list" where
  "blocked_ipv6_blocks =
     [(ipv6_word [0, 0, 0, 0, 0, 0, 0, 0], 128), (ipv6_word [0, 0, 0, 0, 0, 0, 0, 1], 128),
      (ipv6_word [0xfc00, 0, 0, 0, 0, 0, 0, 0], 7), (ipv6_word [0xfe80, 0, 0, 0, 0, 0, 0, 0], 10), (ipv6_word [0xff00, 0, 0, 0, 0, 0, 0, 0], 8)]
     @ embedded_blocks [0, 0, 0, 0, 0, 0xffff] 0 @ embedded_blocks [0, 0, 0, 0, 0, 0] 0
     @ embedded_blocks [0x64, 0xff9b, 0, 0, 0, 0] 0 @ embedded_blocks [0x2002] 80"

definition blocked_ipv6 :: "128 word \<Rightarrow> bool" where
  "blocked_ipv6 w \<longleftrightarrow> list_ex (in_block w) blocked_ipv6_blocks"

lemma groups_value_Nil [simp]: "groups_value [] = 0"
  by (simp add: groups_value_def)

lemma groups_value_snoc [simp]: "groups_value (gs @ [g]) = groups_value gs * 65536 + g"
  by (simp add: groups_value_def)

lemma groups_value_append: "groups_value (gs @ hs) = groups_value gs * 65536 ^ length hs + groups_value hs"
  by (induction hs rule: rev_induct) (simp_all add: append_assoc [symmetric] algebra_simps del: append_assoc)

lemma groups_value_bounds: "list_all group_range gs \<Longrightarrow> 0 \<le> groups_value gs \<and> groups_value gs < 65536 ^ length gs"
proof (induction gs rule: rev_induct)
  case (snoc g gs)
  then have "groups_value gs + 1 \<le> 65536 ^ length gs" "group_range g" "0 \<le> groups_value gs" by auto
  then show ?case using mult_right_mono [of "groups_value gs + 1" "65536 ^ length gs" 65536] by (auto simp: group_range_def)
qed simp

lemma groups_value_eq:
  "length gs = length hs \<Longrightarrow> list_all group_range gs \<Longrightarrow> list_all group_range hs \<Longrightarrow> groups_value gs = groups_value hs \<longleftrightarrow> gs = hs"
proof (induction gs arbitrary: hs rule: rev_induct)
  case (snoc g gs)
  then obtain h ks where hs: "hs = ks @ [h]" by (cases hs rule: rev_cases) auto
  then show ?case using snoc pack_eq [of g 65536 h "groups_value gs" "groups_value ks"] by (auto simp: group_range_def)
qed simp

lemma embed_div:
  assumes "0 \<le> y" "y < 2 ^ m" "0 \<le> n" "n < (2 :: int) ^ m" "l \<le> m"
  shows "(p * 2 ^ m + y) div 2 ^ (m - l) = (q * 2 ^ m + n) div 2 ^ (m - l) \<longleftrightarrow> p = q \<and> y div 2 ^ (m - l) = n div 2 ^ (m - l)"
proof -
  have m: "(2 :: int) ^ m = 2 ^ l * 2 ^ (m - l)" using assms(5) by (simp add: power_add [symmetric])
  have d: "(p * 2 ^ m + y) div 2 ^ (m - l) = p * 2 ^ l + y div 2 ^ (m - l)" for p y :: int
    by (simp add: m mult.assoc [symmetric])
  have "y div 2 ^ (m - l) < 2 ^ l" "n div 2 ^ (m - l) < 2 ^ l" using assms m by (simp_all add: int_div_less_if)
  then show ?thesis using assms unfolding d by (intro pack_eq) (simp_all add: pos_imp_zdiv_nonneg_iff)
qed

lemma blocked_lengths: "(net, len) \<in> set blocked_ipv4_blocks \<Longrightarrow> len \<le> 32"
  by (auto simp: blocked_ipv4_blocks_def)

text \<open>A block below a prefix holds the addresses with that prefix and an IPv4 address of the block behind it.\<close>

lemma embedded_block:
  assumes "list_all group_range hs" "list_all group_range prefix" "length hs = length prefix" "16 * length prefix + 32 + shift = 128"
    and "0 \<le> y" "y < 2 ^ 32" "0 \<le> z" "z < 2 ^ shift" "len \<le> 32"
  shows "in_block (word_of_int ((groups_value hs * 2 ^ 32 + y) * 2 ^ shift + z) :: 128 word)
      (word_of_int ((groups_value prefix * 2 ^ 32 + uint net) * 2 ^ shift), 16 * length prefix + len)
    \<longleftrightarrow> hs = prefix \<and> in_block (word_of_int y :: 32 word) (net, len)"
proof -
  have k: "128 - (16 * length prefix + len) = shift + (32 - len)" using assms(4,9) by simp
  have net: "0 \<le> uint net" "uint net < 2 ^ 32" using uint_bounded [of net] by simp_all
  have top: "0 \<le> (groups_value gs * 2 ^ 32 + v) * 2 ^ shift + u \<and> (groups_value gs * 2 ^ 32 + v) * 2 ^ shift + u < 2 ^ 128"
    if "list_all group_range gs" "length gs = length prefix" "0 \<le> v" "v < 2 ^ 32" "0 \<le> u" "u < 2 ^ shift" for gs v u
  proof -
    have g: "0 \<le> groups_value gs" "groups_value gs + 1 \<le> 65536 ^ length prefix" using groups_value_bounds [OF that(1)] that(2) by simp_all
    have "(groups_value gs + 1) * 2 ^ 32 \<le> 65536 ^ length prefix * 2 ^ 32" using g(2) by (rule mult_right_mono) simp
    then have "groups_value gs * 2 ^ 32 + v + 1 \<le> 65536 ^ length prefix * 2 ^ 32" using that(4) by simp
    then have "(groups_value gs * 2 ^ 32 + v + 1) * 2 ^ shift \<le> 65536 ^ length prefix * 2 ^ 32 * 2 ^ shift" by (rule mult_right_mono) simp
    moreover have "(65536 :: int) ^ length prefix * 2 ^ 32 * 2 ^ shift = 2 ^ 128"
    proof -
      have "(65536 :: int) ^ length prefix = 2 ^ (16 * length prefix)" by (simp add: power_mult)
      then show ?thesis by (simp only: power_add [symmetric] assms(4))
    qed
    ultimately show ?thesis using g(1) that(3,5,6) by (simp add: algebra_simps)
  qed
  have cut: "((p * 2 ^ 32 + v) * 2 ^ shift + u) div 2 ^ (shift + (32 - len)) = (p * 2 ^ 32 + v) div 2 ^ (32 - len)"
    if "0 \<le> u" "u < 2 ^ shift" for p v u :: int
    using that by (simp add: power_add zdiv_zmult2_eq)
  have "in_block (word_of_int ((groups_value hs * 2 ^ 32 + y) * 2 ^ shift + z) :: 128 word)
      (word_of_int ((groups_value prefix * 2 ^ 32 + uint net) * 2 ^ shift), 16 * length prefix + len)
    \<longleftrightarrow> (groups_value hs * 2 ^ 32 + y) div 2 ^ (32 - len) = (groups_value prefix * 2 ^ 32 + uint net) div 2 ^ (32 - len)"
    using top [OF assms(1,3,5-8)] top [OF assms(2) refl net, of 0] cut [of z] cut [of 0] assms(7,8)
    by (subst in_block_int) (simp_all add: k)
  also have "\<dots> \<longleftrightarrow> groups_value hs = groups_value prefix \<and> y div 2 ^ (32 - len) = uint net div 2 ^ (32 - len)"
    by (rule embed_div [OF assms(5,6) net assms(9)])
  also have "groups_value hs = groups_value prefix \<longleftrightarrow> hs = prefix" by (rule groups_value_eq [OF assms(3,1,2)])
  also have "y div 2 ^ (32 - len) = uint net div 2 ^ (32 - len) \<longleftrightarrow> in_block (word_of_int y :: 32 word) (net, len)"
    using in_block_int [of y "uint net" len, where 'a = 32] assms(5,6) net by simp
  finally show ?thesis .
qed

lemma embedded_blocked:
  assumes "list_all group_range hs" "list_all group_range prefix" "length hs = length prefix" "16 * length prefix + 32 + shift = 128"
    and "0 \<le> y" "y < 2 ^ 32" "0 \<le> z" "z < 2 ^ shift"
  shows "list_ex (in_block (word_of_int ((groups_value hs * 2 ^ 32 + y) * 2 ^ shift + z))) (embedded_blocks prefix shift)
    \<longleftrightarrow> hs = prefix \<and> blocked_ipv4 (word_of_int y)"
proof -
  have "in_block (word_of_int ((groups_value hs * 2 ^ 32 + y) * 2 ^ shift + z) :: 128 word)
      (case b of (net, len) \<Rightarrow> (word_of_int ((groups_value prefix * 2 ^ 32 + uint net) * 2 ^ shift), 16 * length prefix + len))
    \<longleftrightarrow> hs = prefix \<and> in_block (word_of_int y :: 32 word) b" if "b \<in> set blocked_ipv4_blocks" for b
  proof -
    obtain net len where b: "b = (net, len)" by (cases b) simp
    then have "len \<le> 32" using that blocked_lengths by blast
    from embedded_block [OF assms this, of net] show ?thesis unfolding b prod.case .
  qed
  then show ?thesis unfolding embedded_blocks_def blocked_ipv4_def list_ex_iff set_map by blast
qed

lemma eight_groups: "length gs = 8 \<Longrightarrow> \<exists>g0 g1 g2 g3 g4 g5 g6 g7. gs = [g0, g1, g2, g3, g4, g5, g6, g7]"
  by (auto simp: eval_nat_numeral length_Suc_conv)

lemma first_group_block:
  assumes "list_all group_range (g # gs)" "length gs = 7" "group_range n" "len \<le> 16"
  shows "in_block (ipv6_word (g # gs)) (ipv6_word [n, 0, 0, 0, 0, 0, 0, 0], len) \<longleftrightarrow> g div 2 ^ (16 - len) = n div 2 ^ (16 - len)"
proof -
  have v: "groups_value (x # xs) = x * 65536 ^ length xs + groups_value xs" for x xs using groups_value_append [of "[x]" xs] by (simp add: groups_value_def)
  have cut: "(x * 65536 ^ 7 + groups_value xs) div 2 ^ (128 - len) = x div 2 ^ (16 - len)" if "list_all group_range xs" "length xs = 7" for x xs
  proof -
    have e: "(2 :: int) ^ (128 - len) = 65536 ^ 7 * 2 ^ (16 - len)"
    proof -
      have "128 - len = 112 + (16 - len)" using assms(4) by simp
      then show ?thesis by (simp only: power_add) simp
    qed
    show ?thesis using groups_value_bounds [OF that(1)] that(2) unfolding e by (subst zdiv_zmult2_eq) simp_all
  qed
  have r: "0 \<le> groups_value xs" "groups_value xs < 2 ^ 128" if "list_all group_range xs" "length xs = 8" for xs
    using groups_value_bounds [OF that(1)] that(2) by simp_all
  have "in_block (ipv6_word (g # gs)) (ipv6_word [n, 0, 0, 0, 0, 0, 0, 0], len)
    \<longleftrightarrow> groups_value (g # gs) div 2 ^ (128 - len) = groups_value [n, 0, 0, 0, 0, 0, 0, 0] div 2 ^ (128 - len)"
    unfolding ipv6_word_def using r [of "g # gs"] r [of "[n, 0, 0, 0, 0, 0, 0, 0]"] assms
    by (subst in_block_int) (simp_all add: group_range_def)
  then show ?thesis using cut [of gs g] cut [of "[0, 0, 0, 0, 0, 0, 0]" n] assms v [of g gs] v [of n "[0, 0, 0, 0, 0, 0, 0]"]
    by (simp add: group_range_def)
qed

lemma isPrivateIpv6Groups_exact:
  assumes "length gs = 8" "list_all group_range gs"
  shows "isPrivateIpv6Groups gs \<longleftrightarrow> blocked_ipv6 (ipv6_word gs)"
proof -
  obtain g0 g1 g2 g3 g4 g5 g6 g7 where gs: "gs = [g0, g1, g2, g3, g4, g5, g6, g7]" using eight_groups [OF assms(1)] by blast
  have r: "group_range g0" "group_range g1" "group_range g2" "group_range g3" "group_range g4" "group_range g5" "group_range g6" "group_range g7"
    using assms(2) by (simp_all add: gs)
  let ?y = "g6 * 65536 + g7" and ?s = "g1 * 65536 + g2" and ?z = "groups_value [g3, g4, g5, g6, g7]"
  have yr: "0 \<le> ?y" "?y < 2 ^ 32" "0 \<le> ?s" "?s < 2 ^ 32" using r by (auto simp: group_range_def)
  have zr: "0 \<le> ?z" "?z < 2 ^ 80" using groups_value_bounds [of "[g3, g4, g5, g6, g7]"] r by simp_all
  have low: "ipv6_word gs = word_of_int ((groups_value [g0, g1, g2, g3, g4, g5] * 2 ^ 32 + ?y) * 2 ^ 0 + 0)"
    by (simp add: gs ipv6_word_def groups_value_def)
  have high: "ipv6_word gs = word_of_int ((groups_value [g0] * 2 ^ 32 + ?s) * 2 ^ 80 + ?z)"
    by (simp add: gs ipv6_word_def groups_value_def)
  have emb: "list_ex (in_block (ipv6_word gs)) (embedded_blocks p 0) \<longleftrightarrow> [g0, g1, g2, g3, g4, g5] = p \<and> blocked_ipv4 (word_of_int ?y)"
    if "list_all group_range p" "length p = 6" for p
    unfolding low by (rule embedded_blocked) (use r yr that in simp_all)
  have emb2: "list_ex (in_block (ipv6_word gs)) (embedded_blocks [0x2002] 80) \<longleftrightarrow> [g0] = [0x2002] \<and> blocked_ipv4 (word_of_int ?s)"
    unfolding high by (rule embedded_blocked) (use r yr zr in \<open>simp_all add: group_range_def\<close>)
  have one: "in_block (ipv6_word gs) (ipv6_word hs, 128) \<longleftrightarrow> gs = hs" if "length hs = 8" "list_all group_range hs" for hs
    using that assms groups_value_bounds [of gs] groups_value_bounds [of hs] groups_value_eq [of gs hs]
    unfolding ipv6_word_def by (subst in_block_int) simp_all
  have first: "in_block (ipv6_word gs) (ipv6_word [n, 0, 0, 0, 0, 0, 0, 0], l) \<longleftrightarrow> g0 div 2 ^ (16 - l) = n div 2 ^ (16 - l)"
    if "group_range n" "l \<le> 16" for n l
    unfolding gs by (rule first_group_block) (use r that in simp_all)
  have "blocked_ipv6 (ipv6_word gs) \<longleftrightarrow>
      gs = [0, 0, 0, 0, 0, 0, 0, 0] \<or> gs = [0, 0, 0, 0, 0, 0, 0, 1] \<or> g0 div 512 = 126 \<or> g0 div 64 = 1018 \<or> g0 div 256 = 255
      \<or> [g0, g1, g2, g3, g4, g5] \<in> {[0, 0, 0, 0, 0, 0xffff], [0, 0, 0, 0, 0, 0], [0x64, 0xff9b, 0, 0, 0, 0]} \<and> blocked_ipv4 (word_of_int ?y)
      \<or> g0 = 0x2002 \<and> blocked_ipv4 (word_of_int ?s)"
    unfolding blocked_ipv6_def blocked_ipv6_blocks_def list_ex_append emb2
    by (auto simp: one first emb group_range_def)
  moreover have "isPrivateIpv6Groups gs \<longleftrightarrow>
      gs = [0, 0, 0, 0, 0, 0, 0, 0] \<or> gs = [0, 0, 0, 0, 0, 0, 0, 1] \<or> g0 div 512 = 126 \<or> g0 div 64 = 1018 \<or> g0 div 256 = 255
      \<or> [g0, g1, g2, g3, g4, g5] \<in> {[0, 0, 0, 0, 0, 0xffff], [0, 0, 0, 0, 0, 0], [0x64, 0xff9b, 0, 0, 0, 0]} \<and> blocked_ipv4 (word_of_int ?y)
      \<or> g0 = 0x2002 \<and> blocked_ipv4 (word_of_int ?s)"
  proof -
    have d: "isPrivateIpv4 (groupsToDotted g6 g7) \<longleftrightarrow> blocked_ipv4 (word_of_int ?y)" "isPrivateIpv4 (groupsToDotted g1 g2) \<longleftrightarrow> blocked_ipv4 (word_of_int ?s)"
      using r by (simp_all only: isPrivateIpv4_text [OF groupsToDotted_text] group_range_def)
    have b: "js_bitand g0 0xfe00 = 0xfc00 \<longleftrightarrow> g0 div 512 = 126" "js_bitand g0 0xffc0 = 0xfe80 \<longleftrightarrow> g0 div 64 = 1018" "js_bitand g0 0xff00 = 0xff00 \<longleftrightarrow> g0 div 256 = 255"
      using js_bitand_high [of g0] r(1) by (simp_all add: group_range_def)
    have "0 \<le> g7" using r(8) by (simp add: group_range_def)
    then have tiny: "g6 = 0 \<and> g7 \<le> 1 \<longleftrightarrow> g6 = 0 \<and> (g7 = 0 \<or> g7 = 1)" by auto
    show ?thesis by (auto simp: isPrivateIpv6Groups_def group_is_def group_bits_def gs d b tiny)
  qed
  ultimately show ?thesis by simp
qed

end
