(* ===== verification/Ip_Text.thy ===== *)
theory Ip_Text
  imports Ip_Classification
begin

text \<open>
  Which texts the classifier reads as an IPv6 address, and as which one: the spellings of RFC 4291 (groups of one to four
  hexadecimal digits, one run of groups left out, a dotted quad at the end, a zone). The parser of the
  source is shown to accept exactly these, with two liberties noted at \<open>ipv6_spelling\<close>.
\<close>

section \<open>Spellings of an IPv6 address\<close>

definition h16_text :: "string \<Rightarrow> int \<Rightarrow> bool" where
  "h16_text s g \<longleftrightarrow> 1 \<le> length s \<and> length s \<le> 4 \<and> list_all (radix_digit 16) s \<and> radix_value 16 s = g"

definition hex_run :: "string list \<Rightarrow> int list \<Rightarrow> bool" where
  "hex_run ts gs \<longleftrightarrow> list_all2 h16_text ts gs"

text \<open>A run at the end of a text may close with a dotted quad in place of two groups.\<close>

definition tail_run :: "string list \<Rightarrow> int list \<Rightarrow> bool" where
  "tail_run ts gs \<longleftrightarrow> hex_run ts gs
     \<or> (\<exists>us hs q w. ts = us @ [q] \<and> hex_run us hs \<and> ipv4_text q w \<and> gs = hs @ [uint w div 65536, uint w mod 65536])"

abbreviation colons :: "string list \<Rightarrow> string" where
  "colons ts \<equiv> join_with '':'' ts"

text \<open>All eight groups, or a run left out. The parser also takes a colon after the eighth group, and a \<open>::\<close> that stands for no group.\<close>

definition full_form :: "(string list \<Rightarrow> int list \<Rightarrow> bool) \<Rightarrow> string \<Rightarrow> int list \<Rightarrow> bool" where
  "full_form run s gs \<longleftrightarrow> length gs = 8 \<and> (\<exists>ts. s = colons ts \<and> run ts gs \<or> s = colons ts @ '':'' \<and> hex_run ts gs)"

definition short_form :: "(string list \<Rightarrow> int list \<Rightarrow> bool) \<Rightarrow> string \<Rightarrow> int list \<Rightarrow> bool" where
  "short_form run s gs \<longleftrightarrow> (\<exists>ls hs rs ks. s = colons ls @ ''::'' @ colons rs \<and> hex_run ls hs \<and> run rs ks
     \<and> length hs + length ks \<le> 8 \<and> gs = hs @ replicate (8 - (length hs + length ks)) 0 @ ks)"

definition ipv6_spelling :: "string \<Rightarrow> int list \<Rightarrow> bool" where
  "ipv6_spelling s gs \<longleftrightarrow> full_form tail_run s gs \<or> short_form tail_run s gs"

definition ipv6_text :: "string \<Rightarrow> int list \<Rightarrow> bool" where
  "ipv6_text v gs \<longleftrightarrow> (\<exists>s zone. v = s @ zone \<and> (zone = [] \<or> hd zone = CHR ''%'') \<and> ipv6_spelling s gs)"

section \<open>Texts\<close>

lemma join_js_split: "join_with [c] (js_split c s) = s"
proof (induction s)
  case (Cons x s)
  obtain p ps where p: "js_split c s = p # ps" by (cases "js_split c s") auto
  then show ?case using Cons by (cases ps) auto
qed simp

lemma js_split_parts: "t \<in> set (js_split c s) \<Longrightarrow> c \<notin> set t"
  by (induction s arbitrary: t) (auto split: list.splits if_splits)

lemma colons_append: "xs \<noteq> [] \<Longrightarrow> ys \<noteq> [] \<Longrightarrow> colons (xs @ ys) = colons xs @ '':'' @ colons ys"
proof (induction xs rule: induct_list012)
  case (2 x)
  then show ?case by (cases ys) auto
next
  case (3 x y zs)
  then show ?case by simp
qed simp

lemma js_split_after: "js_split c (p @ c # b) = js_split c p @ js_split c b"
  by (induction p) (auto split: list.splits)

lemma index_of_skip: "CHR '':'' \<notin> set a \<Longrightarrow> index_of ''::'' (a @ s) = map_option (\<lambda>i. length a + i) (index_of ''::'' s)"
  by (cases "index_of ''::'' s") (induction a; auto)+

lemma index_of_Some: "index_of t s = Some i \<Longrightarrow> s = take i s @ t @ drop (i + length t) s"
proof (induction s arbitrary: i)
  case (Cons x s)
  show ?case
  proof (cases "take (length t) (x # s) = t")
    case True
    then show ?thesis using Cons.prems append_take_drop_id [of "length t" "x # s"] by simp
  next
    case False
    then obtain j where "index_of t s = Some j" "i = Suc j" using Cons.prems by auto
    then show ?thesis using Cons.IH by simp
  qed
qed (simp split: if_splits)

definition plain_tokens :: "string list \<Rightarrow> bool" where
  "plain_tokens ts \<longleftrightarrow> list_all (\<lambda>t. t \<noteq> [] \<and> CHR '':'' \<notin> set t) ts"

lemma index_of_token: "t \<noteq> [] \<Longrightarrow> CHR '':'' \<notin> set t \<Longrightarrow> s = [] \<or> hd s \<noteq> CHR '':'' \<Longrightarrow>
    index_of ''::'' (t @ CHR '':'' # s) = map_option (\<lambda>i. length t + Suc i) (index_of ''::'' s)"
  by (subst index_of_skip) (cases s; auto simp: option.map_comp o_def)+

lemma colons_hd: "plain_tokens ts \<Longrightarrow> colons ts = [] \<or> hd (colons ts) \<noteq> CHR '':''"
  by (induction ts rule: induct_list012) (auto simp: plain_tokens_def hd_append neq_Nil_conv)

lemma index_of_colons: "plain_tokens ts \<Longrightarrow> index_of ''::'' (colons ts) = None" "plain_tokens ts \<Longrightarrow> index_of ''::'' (colons ts @ '':'') = None"
  "plain_tokens ts \<Longrightarrow> index_of ''::'' (colons ts @ ''::'' @ s) = Some (length (colons ts))"
proof (induction ts rule: induct_list012)
  case (2 t)
  { case 1 then show ?case using index_of_skip [of t "[]"] by (simp add: plain_tokens_def) }
  { case 2 then show ?case using index_of_skip [of t "'':''"] by (simp add: plain_tokens_def) }
  { case 3 then show ?case using index_of_skip [of t "''::'' @ s"] by (simp add: plain_tokens_def) }
next
  case (3 t u ts)
  note ih = 3
  have hd: "hd (colons (u # ts) @ r) \<noteq> CHR '':''" if "plain_tokens (u # ts)" for r
    using that by (cases ts) (auto simp: plain_tokens_def hd_append neq_Nil_conv)
  { case 1 then show ?case using ih(4) index_of_token [of t "colons (u # ts)"] hd [of "[]"] by (simp add: plain_tokens_def) }
  { case 2 then show ?case using ih(5) index_of_token [of t "colons (u # ts) @ '':''"] hd [of "'':''"] by (simp add: plain_tokens_def) }
  { case 3 then show ?case using ih(6) index_of_token [of t "colons (u # ts) @ ''::'' @ s"] hd [of "''::'' @ s"] by (simp add: plain_tokens_def) }
qed simp_all

section \<open>Reading groups\<close>

lemma those_map: "those (map f xs) = Some ys \<longleftrightarrow> list_all2 (\<lambda>x y. f x = Some y) xs ys"
  by (induction xs arbitrary: ys) (auto simp: list_all2_Cons1 split: option.splits)

lemma parse_group_iff: "parse_group t = Some g \<longleftrightarrow> h16_text t g"
proof -
  have v: "js_bitand (the (js_parseInt 16 t)) 0xffff = radix_value 16 t" if "t \<noteq> []" "length t \<le> 4" "list_all (radix_digit 16) t"
  proof -
    have "radix_value 16 t < 65536"
      using radix_value_bound [OF that(3)] that(2) power_increasing [of "length t" 4 "16 :: int"] by simp
    then show ?thesis using js_parseInt_digits [OF that(1,3)] by (simp add: js_bitand_ffff)
  qed
  show ?thesis using v by (auto simp: parse_group_def h16_text_def Suc_le_eq not_le split: if_splits)
qed

lemma h16_plain: "h16_text t g \<Longrightarrow> t \<noteq> [] \<and> CHR '':'' \<notin> set t \<and> CHR ''.'' \<notin> set t \<and> CHR ''%'' \<notin> set t \<and> group_range g"
  using radix_digit_plain [of 16] radix_value_bound [of 16 t] power_increasing [of "length t" 4 "16 :: int"]
  by (auto simp: h16_text_def list_all_iff group_range_def)

lemma hex_run_plain:
  assumes "hex_run ts gs"
  shows "plain_tokens ts" "list_all group_range gs" "length ts = length gs" "\<And>c. c \<in> {CHR ''.'', CHR ''%''} \<Longrightarrow> t \<in> set ts \<Longrightarrow> c \<notin> set t"
proof -
  have len: "length ts = length gs" and nth: "i < length ts \<Longrightarrow> h16_text (ts ! i) (gs ! i)" for i
    using assms by (simp_all add: hex_run_def list_all2_conv_all_nth)
  then show "plain_tokens ts" "list_all group_range gs" "length ts = length gs"
    by (auto simp: plain_tokens_def list_all_length dest!: h16_plain)
  show "\<And>c. c \<in> {CHR ''.'', CHR ''%''} \<Longrightarrow> t \<in> set ts \<Longrightarrow> c \<notin> set t"
  proof -
    fix c assume c: "c \<in> {CHR ''.'', CHR ''%''}" "t \<in> set ts"
    then obtain i where "i < length ts" "t = ts ! i" by (auto simp: in_set_conv_nth)
    then show "c \<notin> set t" using h16_plain [OF nth] c(1) by auto
  qed
qed

lemma colons_last: "ts \<noteq> [] \<Longrightarrow> plain_tokens ts \<Longrightarrow> colons ts \<noteq> [] \<and> last (colons ts) \<noteq> CHR '':''"
  by (induction ts rule: induct_list012) (auto simp: plain_tokens_def dest: last_in_set)

lemma parseGroups_iff: "parseGroups s = Some gs \<longleftrightarrow> (\<exists>ts. s = colons ts \<and> hex_run ts gs)"
proof
  assume p: "parseGroups s = Some gs"
  show "\<exists>ts. s = colons ts \<and> hex_run ts gs"
  proof (cases "s = []")
    case True
    then show ?thesis using p by (intro exI [of _ "[]"]) (simp add: parseGroups_def hex_run_def)
  next
    case False
    then show ?thesis using p
      by (intro exI [of _ "js_split (CHR '':'') s"]) (simp add: parseGroups_def those_map parse_group_iff hex_run_def join_js_split)
  qed
next
  assume "\<exists>ts. s = colons ts \<and> hex_run ts gs"
  then obtain ts where s: "s = colons ts" and r: "hex_run ts gs" by blast
  show "parseGroups s = Some gs"
  proof (cases "ts = []")
    case True
    then show ?thesis using r by (simp add: s parseGroups_def hex_run_def)
  next
    case False
    moreover have "js_split (CHR '':'') s = ts" unfolding s
      using hex_run_plain(1) [OF r] False by (intro js_split_join) (auto simp: plain_tokens_def list_all_iff)
    moreover have "s \<noteq> []" using colons_last [OF False hex_run_plain(1) [OF r]] by (simp add: s)
    ultimately show ?thesis using r by (simp add: parseGroups_def those_map parse_group_iff hex_run_def)
  qed
qed

lemma no_second: "plain_tokens rs \<Longrightarrow> index_of ''::'' (CHR '':'' # colons rs) = None"
  using index_of_colons(1) [of rs] colons_hd [of rs] by (cases "colons rs") auto

lemma parse_full:
  assumes p: "parse_groups_text s = Some gs" and None: "index_of ''::'' s = None"
  shows "full_form hex_run s gs"
proof -
  define l where "l = (if s \<noteq> [] \<and> last s = CHR '':'' then butlast s else s)"
  have e: "parseGroups [] = Some []" by (simp add: parseGroups_def)
  have "parseGroups l = Some gs \<and> length gs = 8"
    using p None unfolding parse_groups_text_def js_indexOf_def l_def [symmetric]
    by (cases "parseGroups l") (simp_all add: e split: if_split_asm)
  then obtain ts where "l = colons ts" "hex_run ts gs" "length gs = 8" using parseGroups_iff by blast
  moreover have "s = l \<or> s = l @ '':''" unfolding l_def using append_butlast_last_id [of s] by metis
  ultimately show ?thesis unfolding full_form_def by metis
qed

lemma parse_short:
  assumes p: "parse_groups_text s = Some gs" and Some: "index_of ''::'' s = Some i"
  shows "short_form hex_run s gs"
proof -
  obtain left right where lr: "parseGroups (take i s) = Some left" "parseGroups (drop (i + 2) s) = Some right" "length left + length right \<le> 8"
    "gs = left @ replicate (8 - (length left + length right)) 0 @ right"
    using p Some by (cases "parseGroups (take i s)"; cases "parseGroups (drop (i + 2) s)")
      (simp_all add: parse_groups_text_def js_indexOf_def Let_def split: if_split_asm)
  obtain ls rs where "take i s = colons ls" "hex_run ls left" "drop (i + 2) s = colons rs" "hex_run rs right"
    using lr(1,2) parseGroups_iff by blast
  moreover have "s = take i s @ ''::'' @ drop (i + 2) s" using index_of_Some [OF Some] by simp
  ultimately show ?thesis using lr(3,4) unfolding short_form_def by metis
qed

lemma full_parse:
  assumes "full_form hex_run s gs"
  shows "parse_groups_text s = Some gs"
proof -
  obtain ts where ts: "hex_run ts gs" "length gs = 8" "s = colons ts \<or> s = colons ts @ '':''" using assms by (auto simp: full_form_def)
  note p = hex_run_plain(1,3) [OF ts(1)]
  have ne: "ts \<noteq> []" using p(2) ts(2) by auto
  have n: "index_of ''::'' s = None" using ts(3) index_of_colons(1,2) [OF p(1)] by auto
  have l: "(if s \<noteq> [] \<and> last s = CHR '':'' then butlast s else s) = colons ts" using ts(3) colons_last [OF ne p(1)] by auto
  have "parseGroups (colons ts) = Some gs" "parseGroups [] = Some []" using ts(1) parseGroups_iff by (auto simp: parseGroups_def)
  then show ?thesis unfolding parse_groups_text_def js_indexOf_def l using n ts(2) by simp
qed

lemma short_parse:
  assumes "short_form hex_run s gs"
  shows "parse_groups_text s = Some gs"
proof -
  obtain ls hs rs ks where f: "s = colons ls @ ''::'' @ colons rs" "hex_run ls hs" "hex_run rs ks" "length hs + length ks \<le> 8"
    "gs = hs @ replicate (8 - (length hs + length ks)) 0 @ ks" using assms by (auto simp: short_form_def)
  have i: "index_of ''::'' s = Some (length (colons ls))" unfolding f(1) by (rule index_of_colons(3) [OF hex_run_plain(1) [OF f(2)]])
  have j: "index_of ''::'' (drop (length (colons ls) + 1) s) = None" using no_second [OF hex_run_plain(1) [OF f(3)]] by (simp add: f(1))
  have "parseGroups (colons ls) = Some hs" "parseGroups (colons rs) = Some ks" using f(2,3) parseGroups_iff by auto
  moreover have "take (length (colons ls)) s = colons ls" "drop (length (colons ls) + 2) s = colons rs" by (simp_all add: f(1))
  ultimately show ?thesis using f(4,5) i j by (simp add: parse_groups_text_def js_indexOf_def)
qed

lemma parse_groups_text_iff: "parse_groups_text s = Some gs \<longleftrightarrow> full_form hex_run s gs \<or> short_form hex_run s gs"
  using parse_full parse_short full_parse short_parse by (cases "index_of ''::'' s") blast+

section \<open>The dotted quad\<close>

lemma no_colon: "CHR '':'' \<notin> set t \<Longrightarrow> js_lastIndexOf t (CHR '':'') = None"
  by (induction t) auto

lemma last_colon: "CHR '':'' \<notin> set t \<Longrightarrow> js_lastIndexOf (p @ CHR '':'' # t) (CHR '':'') = Some (length p)"
  by (induction p) (auto simp: no_colon)

lemma last_colon_split:
  obtains p t where "s = p @ t" "CHR '':'' \<notin> set t" "p = [] \<or> last p = CHR '':''"
    "(case js_lastIndexOf s (CHR '':'') of None \<Rightarrow> 0 | Some i \<Rightarrow> Suc i) = length p"
proof (cases "CHR '':'' \<in> set s")
  case True
  then obtain p t where s: "s = p @ CHR '':'' # t" "CHR '':'' \<notin> set t" using split_list_last by fastforce
  with last_colon [OF s(2), of p] that [of "p @ '':''" t] show ?thesis by simp
next
  case False
  with no_colon that [of "[]" s] show ?thesis by simp
qed

lemma quad_uint:
  assumes "0 \<le> a" "a < 256" "0 \<le> b" "b < 256" "0 \<le> c" "c < 256" "0 \<le> d" "d < 256"
  shows "uint (quad a b c d) div 65536 = a * 256 + b" "uint (quad a b c d) mod 65536 = c * 256 + d"
proof -
  let ?x = "(a * 256 + b) * 65536 + (c * 256 + d)"
  have e: "uint (quad a b c d) = ?x"
    unfolding quad_def by (subst uint_word_of_int) (use assms in \<open>simp add: algebra_simps\<close>)
  show "uint (quad a b c d) div 65536 = a * 256 + b" unfolding e by (rule int_div_pack [OF refl]) (use assms in simp_all)
  have "(c * 256 + d) mod 65536 = c * 256 + d" using assms by (intro mod_pos_pos_trivial) simp_all
  then show "uint (quad a b c d) mod 65536 = c * 256 + d" by (simp only: e mod_mult_self3)
qed

lemma ipv4_text_dot: "ipv4_text q w \<Longrightarrow> CHR ''.'' \<in> set q"
  by (auto simp: ipv4_text_def)

lemma ipv4_text_plain: "ipv4_text q w \<Longrightarrow> c \<in> set q \<Longrightarrow> is_digit c \<or> c = CHR ''.''"
  by (auto simp: ipv4_text_def octet_text_def list_all_iff)

lemma four_parts: "length xs = 4 \<Longrightarrow> \<exists>a b c d. xs = [a, b, c, d]"
  by (auto simp: eval_nat_numeral length_Suc_conv)

lemma ipv4_literal_text:
  assumes "isIpv4Literal q"
  shows "list_ex (\<lambda>p. case p of None \<Rightarrow> True | Some n \<Rightarrow> n < 0 \<or> n > 255) (map (js_parseInt 10) (js_split (CHR ''.'') q)) \<longleftrightarrow> \<not> (\<exists>w. ipv4_text q w)"
proof -
  obtain sa sb sc sd where sp: "js_split (CHR ''.'') q = [sa, sb, sc, sd]"
    using assms four_parts [of "js_split (CHR ''.'') q"] by (auto simp: isIpv4Literal_def Let_def)
  have dig: "s \<noteq> [] \<and> list_all (radix_digit 10) s \<and> length s \<le> 3 \<and> list_all is_digit s" if "s \<in> {sa, sb, sc, sd}" for s
    using assms that unfolding isIpv4Literal_def sp Let_def by (auto simp: list_all_iff radix_digit_10)
  then have val: "js_parseInt 10 s = Some (radix_value 10 s)" if "s \<in> {sa, sb, sc, sd}" for s using that by (intro js_parseInt_digits) auto
  have oct: "octet_text s n \<longleftrightarrow> n = radix_value 10 s \<and> n < 256" if "s \<in> {sa, sb, sc, sd}" for s n
    using dig [OF that] by (auto simp: octet_text_def Suc_le_eq)
  have q: "q = join_with ''.'' [sa, sb, sc, sd]" using join_js_split [of "CHR ''.''" q] by (simp add: sp)
  have "(\<exists>w. ipv4_text q w) \<longleftrightarrow> (\<forall>s \<in> {sa, sb, sc, sd}. radix_value 10 s < 256)"
  proof
    assume "\<exists>w. ipv4_text q w"
    then obtain ta tb tc td a b c d where t: "q = join_with ''.'' [ta, tb, tc, td]" "octet_text ta a" "octet_text tb b" "octet_text tc c" "octet_text td d"
      unfolding ipv4_text_def by blast
    have "[ta, tb, tc, td] = [sa, sb, sc, sd]" using ipv4_text_split [OF t(2-5)] sp by (simp only: t(1) [symmetric])
    with t(2-5) show "\<forall>s \<in> {sa, sb, sc, sd}. radix_value 10 s < 256" by (auto simp: octet_text_def)
  next
    assume "\<forall>s \<in> {sa, sb, sc, sd}. radix_value 10 s < 256"
    then have "octet_text sa (radix_value 10 sa)" "octet_text sb (radix_value 10 sb)" "octet_text sc (radix_value 10 sc)" "octet_text sd (radix_value 10 sd)"
      using oct by auto
    then show "\<exists>w. ipv4_text q w" unfolding ipv4_text_def q by blast
  qed
  moreover have "js_parseInt 10 sa = Some (radix_value 10 sa)" "js_parseInt 10 sb = Some (radix_value 10 sb)"
    "js_parseInt 10 sc = Some (radix_value 10 sc)" "js_parseInt 10 sd = Some (radix_value 10 sd)" using val by simp_all
  moreover have "(n < 0 \<or> n > 255) = (\<not> n < 256)" if "0 \<le> n" for n :: int using that by arith
  moreover have "\<not> radix_value 10 s < 0" for s using radix_value_nonneg [of 10 s] by linarith
  ultimately show ?thesis unfolding sp by simp
qed

lemma fold_embedded_split:
  assumes "CHR '':'' \<notin> set t" "p = [] \<or> last p = CHR '':''"
  shows "CHR ''.'' \<notin> set t \<Longrightarrow> fold_embedded_ipv4 (p @ t) = Some (p @ t)"
    "CHR ''.'' \<in> set t \<Longrightarrow> \<nexists>w. ipv4_text t w \<Longrightarrow> fold_embedded_ipv4 (p @ t) = None"
    "ipv4_text t w \<Longrightarrow> fold_embedded_ipv4 (p @ t) = Some (p @ show_hex (uint w div 65536) @ '':'' @ show_hex (uint w mod 65536))"
proof -
  have k: "(case js_lastIndexOf (p @ t) (CHR '':'') of None \<Rightarrow> 0 | Some i \<Rightarrow> Suc i) = length p"
  proof (cases "p = []")
    case False
    then obtain r where "p = r @ '':''" using assms(2) append_butlast_last_id by metis
    then show ?thesis using last_colon [OF assms(1), of r] by simp
  qed (use no_colon [OF assms(1)] in simp)
  show "CHR ''.'' \<notin> set t \<Longrightarrow> fold_embedded_ipv4 (p @ t) = Some (p @ t)" by (simp add: fold_embedded_ipv4_def k)
  show "CHR ''.'' \<in> set t \<Longrightarrow> \<nexists>w. ipv4_text t w \<Longrightarrow> fold_embedded_ipv4 (p @ t) = None"
    using ipv4_literal_text [of t] by (auto simp: fold_embedded_ipv4_def k Let_def)
  assume t: "ipv4_text t w"
  then obtain sa sb sc sd a b c d where s: "t = join_with ''.'' [sa, sb, sc, sd]" and w: "w = quad a b c d"
    and o: "octet_text sa a" "octet_text sb b" "octet_text sc c" "octet_text sd d" unfolding ipv4_text_def by blast
  note r = octet_text_parse(3,4) [OF o(1)] octet_text_parse(3,4) [OF o(2)] octet_text_parse(3,4) [OF o(3)] octet_text_parse(3,4) [OF o(4)]
  have octets: "map (js_parseInt 10) (js_split (CHR ''.'') t) = [Some a, Some b, Some c, Some d]"
    using octet_text_parse(1) [OF o(1)] octet_text_parse(1) [OF o(2)] octet_text_parse(1) [OF o(3)] octet_text_parse(1) [OF o(4)]
    unfolding s ipv4_text_split [OF o] by simp
  show "fold_embedded_ipv4 (p @ t) = Some (p @ show_hex (uint w div 65536) @ '':'' @ show_hex (uint w mod 65536))"
    unfolding fold_embedded_ipv4_def k Let_def octets w quad_uint [OF r]
    using ipv4_text_literal [OF t] ipv4_text_dot [OF t] r by (simp add: js_pack octets)
qed

section \<open>The whole parser\<close>

text \<open>The hexadecimal groups that replace a dotted quad.\<close>

lemma quad_groups:
  assumes "ipv4_text q w"
  shows "h16_text (show_hex (uint w div 65536)) (uint w div 65536)" "h16_text (show_hex (uint w mod 65536)) (uint w mod 65536)"
proof -
  have "h16_text (show_hex g) g" if "0 \<le> g" "g < 65536" for g
    using show_hex_value [OF that(1)] show_hex_length [OF that(1), of 3] that(2) by (auto simp: h16_text_def Suc_le_eq)
  moreover have "0 \<le> uint w div 65536" "uint w div 65536 < 65536"
    using uint_bounded [of w] by (simp_all add: pos_imp_zdiv_nonneg_iff int_div_less_if)
  ultimately show "h16_text (show_hex (uint w div 65536)) (uint w div 65536)" "h16_text (show_hex (uint w mod 65536)) (uint w mod 65536)" by simp_all
qed

definition upto_colon :: "string list \<Rightarrow> string" where
  "upto_colon us = (if us = [] then [] else colons us @ '':'')"

lemma upto_colon_simps: "colons (us @ [q]) = upto_colon us @ q" "colons (us @ [a, b]) = upto_colon us @ a @ '':'' @ b"
  "upto_colon us = [] \<or> last (upto_colon us) = CHR '':''"
  by (simp_all add: upto_colon_def colons_append)

lemma quad_no_colon: "ipv4_text q w \<Longrightarrow> CHR '':'' \<notin> set q \<and> CHR ''%'' \<notin> set q"
  using ipv4_text_plain [of q w] by (force simp: is_digit_def)

lemma hex_run_snoc: "hex_run us hs \<Longrightarrow> h16_text a x \<Longrightarrow> h16_text b y \<Longrightarrow> hex_run (us @ [a, b]) (hs @ [x, y])"
  by (simp add: hex_run_def list_all2_appendI)

lemma join_chars: "c \<in> set (join_with sep ts) \<Longrightarrow> c \<in> set sep \<or> (\<exists>t \<in> set ts. c \<in> set t)"
  by (induction ts rule: induct_list012) auto

lemma hex_run_chars: "hex_run ts gs \<Longrightarrow> CHR ''.'' \<notin> set (colons ts) \<and> CHR ''%'' \<notin> set (colons ts)"
proof -
  assume r: "hex_run ts gs"
  have "c \<notin> set (colons ts)" if c: "c \<in> {CHR ''.'', CHR ''%''}" for c
  proof
    assume "c \<in> set (colons ts)"
    moreover have "c \<noteq> CHR '':''" using c by auto
    ultimately obtain t where "t \<in> set ts" "c \<in> set t" using join_chars [of c "'':''" ts] by auto
    then show False using hex_run_plain(4) [OF r c] by blast
  qed
  then show ?thesis by blast
qed

lemma fold_hex: "CHR ''.'' \<notin> set s \<Longrightarrow> fold_embedded_ipv4 s = Some s"
proof -
  assume "CHR ''.'' \<notin> set s"
  moreover obtain p t where "s = p @ t" "CHR '':'' \<notin> set t" "p = [] \<or> last p = CHR '':''" using last_colon_split [of s] by metis
  ultimately show ?thesis using fold_embedded_split(1) [of t p] by simp
qed

text \<open>Folding the quad turns a spelling into one of hexadecimal groups only.\<close>

lemma full_folds:
  assumes "full_form tail_run s gs"
  shows "\<exists>head. fold_embedded_ipv4 s = Some head \<and> full_form hex_run head gs"
proof -
  obtain ts where len: "length gs = 8" and ts: "s = colons ts \<and> tail_run ts gs \<or> s = colons ts @ '':'' \<and> hex_run ts gs"
    using assms unfolding full_form_def by blast
  show ?thesis
  proof (cases "hex_run ts gs")
    case True
    then have "fold_embedded_ipv4 s = Some s" using ts hex_run_chars [OF True] by (intro fold_hex) auto
    then show ?thesis using ts len True unfolding full_form_def by blast
  next
    case False
    then obtain us hs q w where q: "s = colons (us @ [q])" "hex_run us hs" "ipv4_text q w" "gs = hs @ [uint w div 65536, uint w mod 65536]"
      using ts unfolding tail_run_def by blast
    note r = hex_run_snoc [OF q(2) quad_groups [OF q(3)]]
    have "fold_embedded_ipv4 s = Some (colons (us @ [show_hex (uint w div 65536), show_hex (uint w mod 65536)]))"
      unfolding q(1) upto_colon_simps(1,2) using fold_embedded_split(3) [OF _ upto_colon_simps(3) q(3)] quad_no_colon [OF q(3)] by simp
    then show ?thesis using r q(4) len unfolding full_form_def by blast
  qed
qed

lemma short_folds:
  assumes "short_form tail_run s gs"
  shows "\<exists>head. fold_embedded_ipv4 s = Some head \<and> short_form hex_run head gs"
proof -
  obtain ls hs rs ks where f: "s = colons ls @ ''::'' @ colons rs" "hex_run ls hs" "tail_run rs ks" "length hs + length ks \<le> 8"
    "gs = hs @ replicate (8 - (length hs + length ks)) 0 @ ks" using assms unfolding short_form_def by blast
  show ?thesis
  proof (cases "hex_run rs ks")
    case True
    then have "fold_embedded_ipv4 s = Some s" using f(1) hex_run_chars [OF True] hex_run_chars [OF f(2)] by (intro fold_hex) auto
    then show ?thesis using f True unfolding short_form_def by blast
  next
    case False
    then obtain us ms q w where q: "rs = us @ [q]" "hex_run us ms" "ipv4_text q w" "ks = ms @ [uint w div 65536, uint w mod 65536]"
      using f(3) unfolding tail_run_def by blast
    note r = hex_run_snoc [OF q(2) quad_groups [OF q(3)]]
    have "colons ls @ ''::'' @ upto_colon us = [] \<or> last (colons ls @ ''::'' @ upto_colon us) = CHR '':''" using upto_colon_simps(3) [of us] by auto
    from fold_embedded_split(3) [OF _ this q(3)] quad_no_colon [OF q(3)]
    have "fold_embedded_ipv4 s = Some (colons ls @ ''::'' @ colons (us @ [show_hex (uint w div 65536), show_hex (uint w mod 65536)]))"
      unfolding f(1) q(1) upto_colon_simps(1,2) by simp
    then show ?thesis using r f(2,4,5) q(4) unfolding short_form_def by blast
  qed
qed

text \<open>And back: what the groups of the folded text say about the text itself.\<close>

lemma h16_value: "h16_text s g \<Longrightarrow> h16_text s g' \<Longrightarrow> g = g'"
  by (simp add: h16_text_def)

lemma hex_run_quad:
  assumes "hex_run (us @ [show_hex (uint w div 65536), show_hex (uint w mod 65536)]) gs" "ipv4_text q w"
  shows "tail_run (us @ [q]) gs"
proof -
  obtain hs x y where "gs = hs @ [x, y]" "hex_run us hs" "h16_text (show_hex (uint w div 65536)) x" "h16_text (show_hex (uint w mod 65536)) y"
    using assms(1) unfolding hex_run_def by (auto simp: list_all2_append1 list_all2_Cons1)
  then show ?thesis using assms(2) h16_value quad_groups [OF assms(2)] unfolding tail_run_def by metis
qed

lemma colon_prefix_tokens:
  assumes "p = [] \<or> last p = CHR '':''"
  obtains us where "p = upto_colon us" "\<forall>u \<in> set us. CHR '':'' \<notin> set u"
proof (cases "p = []")
  case True
  with that [of "[]"] show ?thesis by (simp add: upto_colon_def)
next
  case False
  then obtain r where "p = r @ '':''" using assms append_butlast_last_id by metis
  with that [of "js_split (CHR '':'') r"] show ?thesis by (simp add: upto_colon_def join_js_split js_split_parts)
qed

lemma full_unfolds:
  assumes "full_form hex_run (upto_colon us @ a @ '':'' @ b) gs" "\<forall>u \<in> set us. CHR '':'' \<notin> set u"
    "ipv4_text q w" "a = show_hex (uint w div 65536)" "b = show_hex (uint w mod 65536)"
  shows "full_form tail_run (upto_colon us @ q) gs"
proof -
  let ?head = "upto_colon us @ a @ '':'' @ b"
  note ab = h16_plain [OF quad_groups(1) [OF assms(3)], folded assms(4)] h16_plain [OF quad_groups(2) [OF assms(3)], folded assms(5)]
  have "last b \<in> set b" using ab(2) by simp
  then have "last b \<noteq> CHR '':''" using ab(2) by metis
  then have "last ?head \<noteq> CHR '':''" using ab(2) by simp
  then obtain ts where ts: "?head = colons ts" "hex_run ts gs" "length gs = 8"
    using assms(1) unfolding full_form_def by (metis last_snoc)
  have "js_split (CHR '':'') ?head = ts" unfolding ts(1)
    using hex_run_plain(1,3) [OF ts(2)] ts(3) by (intro js_split_join) (auto simp: plain_tokens_def list_all_iff)
  moreover have "js_split (CHR '':'') ?head = us @ [a, b]" unfolding upto_colon_simps(2) [symmetric]
    using assms(2) ab by (intro js_split_join) auto
  ultimately have "hex_run (us @ [a, b]) gs" using ts(2) by simp
  then have "tail_run (us @ [q]) gs" using assms(3-5) hex_run_quad by simp
  then show ?thesis using ts(3) unfolding full_form_def upto_colon_simps(1) [symmetric] by blast
qed

lemma short_unfolds:
  assumes "short_form hex_run (upto_colon us @ a @ '':'' @ b) gs" "\<forall>u \<in> set us. CHR '':'' \<notin> set u"
    "ipv4_text q w" "a = show_hex (uint w div 65536)" "b = show_hex (uint w mod 65536)"
  shows "short_form tail_run (upto_colon us @ q) gs"
proof -
  let ?head = "upto_colon us @ a @ '':'' @ b"
  note ab = h16_plain [OF quad_groups(1) [OF assms(3)], folded assms(4)] h16_plain [OF quad_groups(2) [OF assms(3)], folded assms(5)]
  obtain ls hs rs ks where f: "?head = colons ls @ ''::'' @ colons rs" "hex_run ls hs" "hex_run rs ks" "length hs + length ks \<le> 8"
    "gs = hs @ replicate (8 - (length hs + length ks)) 0 @ ks" using assms(1) unfolding short_form_def by blast
  let ?L = "js_split (CHR '':'') (colons ls)"
  have "js_split (CHR '':'') ?head = ?L @ [] # js_split (CHR '':'') (colons rs)"
    unfolding f(1) using js_split_after [of "CHR '':''" "colons ls" "CHR '':'' # colons rs"] by simp
  moreover have "js_split (CHR '':'') ?head = us @ [a, b]" unfolding upto_colon_simps(2) [symmetric]
    using assms(2) ab by (intro js_split_join) auto
  ultimately have eq: "us @ [a, b] = ?L @ [] # js_split (CHR '':'') (colons rs)" by simp
  have "rs \<noteq> []" using eq ab(2) by auto
  moreover from this have "js_split (CHR '':'') (colons rs) = rs"
    using hex_run_plain(1) [OF f(3)] by (intro js_split_join) (auto simp: plain_tokens_def list_all_iff)
  ultimately have eq': "us @ [a, b] = ?L @ [] # rs" "rs \<noteq> []" using eq by simp_all
  obtain rs' where rs: "rs = rs' @ [a, b]" "us = ?L @ [] # rs'"
  proof (cases rs rule: rev_cases)
    case (snoc r2 b2)
    then show ?thesis using eq' ab(1) that by (cases r2 rule: rev_cases) auto
  qed (use eq'(2) in simp)
  have "upto_colon us @ q = colons (us @ [q])" by (simp only: upto_colon_simps)
  also have "\<dots> = colons ?L @ '':'' @ colons ([] # rs' @ [q])" unfolding rs(2) by (subst append_assoc, subst colons_append) simp_all
  also have "colons ([] # rs' @ [q]) = '':'' @ colons (rs' @ [q])" by (cases rs') simp_all
  finally have "upto_colon us @ q = colons ls @ ''::'' @ colons (rs' @ [q])" by (simp add: join_js_split)
  moreover have "tail_run (rs' @ [q]) ks" using f(3) assms(3-5) hex_run_quad unfolding rs(1) by simp
  ultimately show ?thesis using f(2,4,5) unfolding short_form_def by blast
qed

lemma unfold_spelling:
  assumes "fold_embedded_ipv4 s = Some head" "full_form hex_run head gs \<or> short_form hex_run head gs"
  shows "ipv6_spelling s gs"
proof -
  obtain p t where s: "s = p @ t" "CHR '':'' \<notin> set t" "p = [] \<or> last p = CHR '':''" using last_colon_split [of s] by metis
  have weaken: "tail_run ts ks" if "hex_run ts ks" for ts ks using that by (simp add: tail_run_def)
  show ?thesis
  proof (cases "CHR ''.'' \<in> set t")
    case False
    then have "head = s" using fold_embedded_split(1) [OF s(2,3)] assms(1) by (simp add: s(1))
    then show ?thesis using assms(2) weaken unfolding ipv6_spelling_def full_form_def short_form_def by blast
  next
    case True
    then obtain w where w: "ipv4_text t w" using fold_embedded_split(2) [OF s(2,3)] assms(1) by (auto simp: s(1))
    obtain us where us: "p = upto_colon us" "\<forall>u \<in> set us. CHR '':'' \<notin> set u" using colon_prefix_tokens [OF s(3)] by blast
    have "head = upto_colon us @ show_hex (uint w div 65536) @ '':'' @ show_hex (uint w mod 65536)"
      using fold_embedded_split(3) [OF s(2,3) w] assms(1) by (simp add: s(1) us(1))
    then show ?thesis using assms(2) full_unfolds [OF _ us(2) w refl refl] short_unfolds [OF _ us(2) w refl refl]
      unfolding ipv6_spelling_def s(1) us(1) by blast
  qed
qed

lemma zone_cut: "(case js_indexOf s ''%'' 0 of None \<Rightarrow> s | Some z \<Rightarrow> take z s) = takeWhile (\<lambda>c. c \<noteq> CHR ''%'') s"
proof -
  have "(case index_of ''%'' s of None \<Rightarrow> s | Some z \<Rightarrow> take z s) = takeWhile (\<lambda>c. c \<noteq> CHR ''%'') s"
    by (induction s) (auto split: option.splits)
  then show ?thesis by (simp add: js_indexOf_def option.map_ident)
qed

lemma tail_run_chars:
  assumes "tail_run ts ks"
  shows "CHR ''%'' \<notin> set (colons ts)" "list_all group_range ks" "length ks \<le> length ts + 1"
proof -
  have "CHR ''%'' \<notin> set (colons ts) \<and> list_all group_range ks \<and> length ks \<le> length ts + 1"
  proof (cases "hex_run ts ks")
    case True
    then show ?thesis using hex_run_chars hex_run_plain(2,3) by simp
  next
    case False
    then obtain us hs q w where q: "ts = us @ [q]" "hex_run us hs" "ipv4_text q w" "ks = hs @ [uint w div 65536, uint w mod 65536]"
      using assms unfolding tail_run_def by blast
    have "CHR ''%'' \<notin> set (colons ts)"
      using hex_run_chars [OF q(2)] quad_no_colon [OF q(3)] unfolding q(1) upto_colon_simps(1) by (simp add: upto_colon_def)
    then show ?thesis using q(4) hex_run_plain(2,3) [OF q(2)] h16_plain [OF quad_groups(1) [OF q(3)]] h16_plain [OF quad_groups(2) [OF q(3)]]
      by (simp add: q(1))
  qed
  then show "CHR ''%'' \<notin> set (colons ts)" "list_all group_range ks" "length ks \<le> length ts + 1" by simp_all
qed

lemma colons_two: "2 \<le> length ts \<Longrightarrow> CHR '':'' \<in> set (colons ts)"
  by (cases ts; cases "tl ts") auto

lemma hex_run_tail: "hex_run ts gs \<Longrightarrow> tail_run ts gs"
  by (simp add: tail_run_def)

lemma spelling_chars:
  assumes "ipv6_spelling s gs"
  shows "CHR '':'' \<in> set s" "CHR ''%'' \<notin> set s" "length gs = 8" "list_all group_range gs"
proof -
  have "CHR '':'' \<in> set s \<and> CHR ''%'' \<notin> set s \<and> length gs = 8 \<and> list_all group_range gs"
  proof (cases "full_form tail_run s gs")
    case True
    then obtain ts where "length gs = 8" "tail_run ts gs" "s = colons ts \<or> s = colons ts @ '':''"
      unfolding full_form_def using hex_run_tail by blast
    then show ?thesis using tail_run_chars [of ts gs] colons_two [of ts] by auto
  next
    case False
    then obtain ls hs rs ks where "s = colons ls @ ''::'' @ colons rs" "hex_run ls hs" "tail_run rs ks" "length hs + length ks \<le> 8"
      "gs = hs @ replicate (8 - (length hs + length ks)) 0 @ ks" using assms unfolding ipv6_spelling_def short_form_def by blast
    then show ?thesis using tail_run_chars [of rs ks] hex_run_chars [of ls hs] hex_run_plain(2) [of ls hs]
      by (auto simp: group_range_def list_all_iff)
  qed
  then show "CHR '':'' \<in> set s" "CHR ''%'' \<notin> set s" "length gs = 8" "list_all group_range gs" by simp_all
qed

text \<open>The parser reads exactly the spellings.\<close>

lemma parseIpv6_iff: "parseIpv6 v = Some gs \<longleftrightarrow> ipv6_text v gs"
proof
  assume p: "parseIpv6 v = Some gs"
  let ?s = "takeWhile (\<lambda>c. c \<noteq> CHR ''%'') v"
  obtain head where "fold_embedded_ipv4 ?s = Some head" "parse_groups_text head = Some gs"
    using p unfolding parseIpv6_def zone_cut Let_def by (auto split: if_splits option.splits)
  then have "ipv6_spelling ?s gs" using unfold_spelling parse_groups_text_iff by blast
  moreover have "v = ?s @ dropWhile (\<lambda>c. c \<noteq> CHR ''%'') v" by simp
  moreover have "dropWhile (\<lambda>c. c \<noteq> CHR ''%'') v = [] \<or> hd (dropWhile (\<lambda>c. c \<noteq> CHR ''%'') v) = CHR ''%''"
    using hd_dropWhile by blast
  ultimately show "ipv6_text v gs" unfolding ipv6_text_def by blast
next
  assume "ipv6_text v gs"
  then obtain s zone where v: "v = s @ zone" "zone = [] \<or> hd zone = CHR ''%''" "ipv6_spelling s gs" unfolding ipv6_text_def by blast
  note c = spelling_chars [OF v(3)]
  have "takeWhile (\<lambda>c. c \<noteq> CHR ''%'') v = s" using v(1,2) c(2) by (cases zone) (auto simp: takeWhile_append)
  moreover obtain head where "fold_embedded_ipv4 s = Some head" "full_form hex_run head gs \<or> short_form hex_run head gs"
    using v(3) full_folds short_folds unfolding ipv6_spelling_def by blast
  ultimately show "parseIpv6 v = Some gs" using c(1) parse_groups_text_iff by (simp add: parseIpv6_def zone_cut v(1))
qed

end
