(* ===== verification/Source_Url.thy ===== *)
theory Source_Url
  imports Ip_Text Json
begin

text \<open>
  The URL policy of Git sources, \<open>core/domains/sources/url-policy.ts\<close>, and the validation of a source in
  \<open>core/domains/deploy-control/validation.ts\<close>. The URL parser of the platform is the argument \<open>new_URL\<close>:
  the parts of a URL, or \<^const>\<open>None\<close> when the constructor throws.
\<close>

section \<open>Strings\<close>

text \<open>\<open>toLowerCase\<close> on the characters modelled here.\<close>

definition js_lower_char :: "char \<Rightarrow> char" where
  "js_lower_char c =
     (let k = (of_char c :: nat) in
      if 65 \<le> k \<and> k \<le> 90 \<or> 192 \<le> k \<and> k \<le> 222 \<and> k \<noteq> 215 then char_of (k + 32) else c)"

definition js_lower :: "string \<Rightarrow> string" where
  "js_lower s = map js_lower_char s"

definition js_startsWith :: "string \<Rightarrow> string \<Rightarrow> bool" where
  "js_startsWith s t \<longleftrightarrow> take (length t) s = t"

definition js_endsWith :: "string \<Rightarrow> string \<Rightarrow> bool" where
  "js_endsWith s t \<longleftrightarrow> length t \<le> length s \<and> drop (length s - length t) s = t"

text \<open>A regular expression that is a fixed lower-case text at the start, without regard to case.\<close>

definition starts_ci :: "string \<Rightarrow> string \<Rightarrow> bool" where
  "starts_ci s t \<longleftrightarrow> js_lower (take (length t) s) = t"

definition ascii_alpha :: "char \<Rightarrow> bool" where
  "ascii_alpha c \<longleftrightarrow> (let k = (of_char c :: nat) in 65 \<le> k \<and> k \<le> 90 \<or> 97 \<le> k \<and> k \<le> 122)"

definition scheme_char :: "char \<Rightarrow> bool" where
  "scheme_char c \<longleftrightarrow> ascii_alpha c \<or> is_digit c \<or> c \<in> set ''+.-''"

definition scheme_then :: "string \<Rightarrow> string \<Rightarrow> bool" where
  "scheme_then s sep \<longleftrightarrow> s \<noteq> [] \<and> ascii_alpha (hd s) \<and> js_startsWith (dropWhile scheme_char (tl s)) sep"

section \<open>The URL policy\<close>

datatype url_scheme = Https | Ssh | Scp

datatype url_reason = Empty | EmbeddedCredentials | ForbiddenSchemeFile | ForbiddenSchemeGit | ForbiddenSchemeExt | ForbiddenSchemeOther
  | AbsolutePath | RelativePath | MissingHost | BlockedHost | Malformed

datatype url_policy = UrlOk url_scheme string | UrlDenied url_reason

record url_parts =
  url_protocol :: string
  url_username :: string
  url_password :: string
  url_hostname :: string

definition okHost :: "url_scheme \<Rightarrow> string \<Rightarrow> url_policy" where
  "okHost scheme host =
     (let normalized = js_lower host in
      if normalized = ''localhost'' \<or> js_endsWith normalized ''.localhost'' then UrlDenied BlockedHost
      else case assertHostNotBlocked normalized ''source URL host'' of
          Inl (BlockedHostError _ _) \<Rightarrow> UrlDenied BlockedHost
        | Inr _ \<Rightarrow> UrlOk scheme normalized)"

definition evaluateUrlForm :: "(string \<Rightarrow> url_parts option) \<Rightarrow> string \<Rightarrow> url_scheme \<Rightarrow> url_policy" where
  "evaluateUrlForm new_URL value scheme =
     (case new_URL value of
        None \<Rightarrow> UrlDenied Malformed
      | Some url \<Rightarrow>
          if (length (url_username url) > 0 \<or> length (url_password url) > 0) \<and> \<not> (scheme = Ssh \<and> length (url_password url) = 0)
          then UrlDenied EmbeddedCredentials
          else if length (url_hostname url) = 0 then UrlDenied MissingHost
          else okHost scheme (url_hostname url))"

text \<open>The expression \<open>SCP_LIKE\<close>: user, host and path of \<open>user@host:path\<close>.\<close>

definition user_char :: "char \<Rightarrow> bool" where
  "user_char c \<longleftrightarrow> c \<notin> set ''@/:''"

definition host_char :: "char \<Rightarrow> bool" where
  "host_char c \<longleftrightarrow> c \<notin> set '':/''"

definition scp_like :: "string \<Rightarrow> (string \<times> string \<times> string) option" where
  "scp_like s =
     (let user = takeWhile user_char s; r1 = dropWhile user_char s;
          host = takeWhile host_char (tl r1); r2 = dropWhile host_char (tl r1) in
      if user \<noteq> [] \<and> r1 \<noteq> [] \<and> hd r1 = CHR ''@'' \<and> host \<noteq> [] \<and> r2 \<noteq> [] \<and> hd r2 = CHR '':''
         \<and> tl r2 \<noteq> [] \<and> CHR 0x0A \<notin> set (tl r2) \<and> CHR 0x0D \<notin> set (tl r2)
      then Some (user, host, tl r2) else None)"

definition evaluateSourceUrl :: "(string \<Rightarrow> url_parts option) \<Rightarrow> string \<Rightarrow> url_policy" where
  "evaluateSourceUrl new_URL raw =
     (let value = js_trim raw in
      if length value = 0 then UrlDenied Empty
      else if list_ex (\<lambda>c. c \<in> {CHR 0x5C, CHR 0x0D, CHR 0x0A, CHR 0x00}) value then UrlDenied Malformed
      else if starts_ci value ''file://'' then UrlDenied ForbiddenSchemeFile
      else if starts_ci value ''git://'' then UrlDenied ForbiddenSchemeGit
      else if starts_ci value ''ext::'' then UrlDenied ForbiddenSchemeExt
      else if js_startsWith value ''/'' then UrlDenied AbsolutePath
      else if js_startsWith value ''./'' \<or> js_startsWith value ''../'' then UrlDenied RelativePath
      else if starts_ci value ''https://'' then evaluateUrlForm new_URL value Https
      else if starts_ci value ''ssh://'' then evaluateUrlForm new_URL value Ssh
      else if scheme_then value ''://'' then UrlDenied ForbiddenSchemeOther
      else case scp_like value of
          Some (user, host, path) \<Rightarrow>
            if CHR ''['' \<in> set user \<or> CHR '']'' \<in> set user \<or> CHR ''['' \<in> set host \<or> CHR '']'' \<in> set host then UrlDenied Malformed
            else if CHR '':'' \<in> set user then UrlDenied EmbeddedCredentials
            else if length host = 0 then UrlDenied MissingHost
            else okHost Scp host
        | None \<Rightarrow>
            if scheme_then value '':'' then UrlDenied ForbiddenSchemeOther
            else UrlDenied RelativePath)"

definition isAllowedSourceUrl :: "(string \<Rightarrow> url_parts option) \<Rightarrow> string \<Rightarrow> bool" where
  "isAllowedSourceUrl new_URL raw = (case evaluateSourceUrl new_URL raw of UrlOk _ _ \<Rightarrow> True | UrlDenied _ \<Rightarrow> False)"

section \<open>Validation of a source\<close>

datatype controller_error = OpenTofuControllerError string string

definition invalid_argument :: "string \<Rightarrow> controller_error" where
  "invalid_argument msg = OpenTofuControllerError ''invalid_argument'' msg"

definition requireNonEmptyString :: "json option \<Rightarrow> string \<Rightarrow> controller_error + string" where
  "requireNonEmptyString v field =
     (case v of Some (JStr s) \<Rightarrow> if js_blank s then Inl (invalid_argument (field @ '' must be a non-empty string'')) else Inr s
      | _ \<Rightarrow> Inl (invalid_argument (field @ '' must be a non-empty string'')))"

definition validateHttpsSourceUrl :: "(string \<Rightarrow> url_parts option) \<Rightarrow> string \<Rightarrow> string \<Rightarrow> controller_error + unit" where
  "validateHttpsSourceUrl new_URL url label =
     (case new_URL url of
        None \<Rightarrow> Inl (invalid_argument (label @ '' must be a valid URL''))
      | Some parsed \<Rightarrow>
          if url_protocol parsed \<noteq> ''https:'' then Inl (invalid_argument (label @ '' must use https://''))
          else if url_hostname parsed = [] then Inl (invalid_argument (label @ '' must include a host''))
          else if url_username parsed \<noteq> [] \<or> url_password parsed \<noteq> [] then Inl (invalid_argument (label @ '' must not embed credentials''))
          else case assertHostNotBlocked (url_hostname parsed) (label @ '' host'') of
              Inl (BlockedHostError l h) \<Rightarrow> Inl (invalid_argument (l @ '' is not allowed: '' @ h))
            | Inr _ \<Rightarrow> Inr ())"

definition validateSafeGitSelector :: "string \<Rightarrow> string \<Rightarrow> controller_error + unit" where
  "validateSafeGitSelector v label =
     throw_if (js_startsWith v ''-'' \<or> list_ex (\<lambda>c. c \<in> {CHR 0x0D, CHR 0x0A, CHR 0x00}) v)
       (invalid_argument (label @ [CHR '' ''] @ ''must not start with '' @ [CHR 0x27, CHR ''-'', CHR 0x27] @ '' or contain control characters''))"

text \<open>The parts of a path between runs of slashes and backslashes; an empty part between two separators of a run is no \<open>..\<close>.\<close>

definition path_parts :: "string \<Rightarrow> string list" where
  "path_parts p = js_split (CHR ''/'') (map (\<lambda>c. if c = CHR 0x5C then CHR ''/'' else c) p)"

definition validateSafeModulePath :: "string \<Rightarrow> controller_error + unit" where
  "validateSafeModulePath modulePath =
     throw_if (js_startsWith modulePath ''/''
         \<or> (length modulePath \<ge> 3 \<and> ascii_alpha (modulePath ! 0) \<and> modulePath ! 1 = CHR '':'' \<and> modulePath ! 2 \<in> {CHR 0x5C, CHR ''/''})
         \<or> list_ex (\<lambda>part. part = ''..'') (path_parts modulePath))
       (invalid_argument ''source.modulePath must stay inside the source root'')"

definition is_object_id :: "string \<Rightarrow> bool" where
  "is_object_id s \<longleftrightarrow> (length s = 40 \<or> length s = 64) \<and> list_all (radix_digit 16) s"

definition when_present :: "json option \<Rightarrow> (json option \<Rightarrow> controller_error + unit) \<Rightarrow> controller_error + unit" where
  "when_present v check = (if v = None then Inr () else check v)"

definition validateSource :: "(string \<Rightarrow> url_parts option) \<Rightarrow> json \<Rightarrow> controller_error + unit" where
  "validateSource new_URL source =
     (case source of
        JObj kvs \<Rightarrow>
          chain (throw_if (json_field kvs ''kind'' \<noteq> Some (JStr ''git'')) (invalid_argument ''source.kind must be git'')) (\<lambda>_.
          chain (requireNonEmptyString (json_field kvs ''url'') ''source.url'') (\<lambda>url.
          chain (validateHttpsSourceUrl new_URL url ''git source url'') (\<lambda>_.
          chain (when_present (json_field kvs ''ref'') (\<lambda>v. chain (requireNonEmptyString v ''source.ref'') (\<lambda>_. Inr ()))) (\<lambda>_.
          chain (when_present (json_field kvs ''commit'') (\<lambda>v. chain (requireNonEmptyString v ''source.commit'') (\<lambda>commit.
                   throw_if (\<not> is_object_id commit) (invalid_argument ''source.commit must be a full git object id'')))) (\<lambda>_.
          chain (when_present (json_field kvs ''ref'') (\<lambda>v. case v of Some (JStr ref) \<Rightarrow> validateSafeGitSelector ref ''source.ref'' | _ \<Rightarrow> Inr ())) (\<lambda>_.
            when_present (json_field kvs ''modulePath'') (\<lambda>v. chain (requireNonEmptyString v ''source.modulePath'') validateSafeModulePath)))))))
      | _ \<Rightarrow> Inl (invalid_argument ''source must be a JSON object''))"

end
