(* ===== verification/Host_Properties.thy ===== *)
theory Host_Properties
  imports Source_Url
begin

text \<open>The properties of the host guard and of the URL policy of sources.\<close>

section \<open>The host guard\<close>

text \<open>A host may be dialled unless it spells a blocked address, or is a dotted quad with an octet above 255.\<close>

definition public_literal :: "string \<Rightarrow> bool" where
  "public_literal l \<longleftrightarrow>
     (isIpv4Literal l \<longrightarrow> (\<exists>w. ipv4_text l w \<and> \<not> blocked_ipv4 w)) \<and> (\<forall>gs. ipv6_text l gs \<longrightarrow> \<not> blocked_ipv6 (ipv6_word gs))"

lemma ipv6_text_groups: "ipv6_text l gs \<Longrightarrow> length gs = 8 \<and> list_all group_range gs \<and> CHR '':'' \<in> set l"
  using spelling_chars unfolding ipv6_text_def by auto

lemma literal_not_ipv6: "isIpv4Literal l \<Longrightarrow> \<not> ipv6_text l gs"
proof
  assume l: "isIpv4Literal l" and t: "ipv6_text l gs"
  have "CHR '':'' \<in> set (join_with ''.'' (js_split (CHR ''.'') l))" using ipv6_text_groups [OF t] by (simp add: join_js_split)
  then obtain p where "p \<in> set (js_split (CHR ''.'') l)" "CHR '':'' \<in> set p"
    using join_chars [of "CHR '':''" "''.''" "js_split (CHR ''.'') l"] by auto
  then have "is_digit (CHR '':'')" using l unfolding isIpv4Literal_def Let_def list_all_iff by blast
  then show False by (simp add: is_digit_def)
qed

lemma literal_class:
  "(if isIpv4Literal l then isPrivateIpv4 l else case parseIpv6 l of None \<Rightarrow> False | Some gs \<Rightarrow> isPrivateIpv6Groups gs) \<longleftrightarrow> \<not> public_literal l"
proof (cases "isIpv4Literal l")
  case True
  have "isPrivateIpv4 l \<longleftrightarrow> \<not> (\<exists>w. ipv4_text l w \<and> \<not> blocked_ipv4 w)"
  proof (cases "\<exists>w. ipv4_text l w")
    case w: True
    then show ?thesis using isPrivateIpv4_text by blast
  next
    case False
    then have "list_ex (\<lambda>p. case p of None \<Rightarrow> True | Some n \<Rightarrow> n < 0 \<or> n > 255) (map (js_parseInt 10) (js_split (CHR ''.'') l))"
      using ipv4_literal_text [OF True] by simp
    then show ?thesis using False by (simp add: isPrivateIpv4_def Let_def)
  qed
  then show ?thesis using True literal_not_ipv6 by (simp add: public_literal_def)
next
  case False
  show ?thesis
  proof (cases "parseIpv6 l")
    case None
    then have "\<not> ipv6_text l gs" for gs using parseIpv6_iff [of l gs] by simp
    then show ?thesis using False None by (simp add: public_literal_def)
  next
    case (Some gs)
    then have "ipv6_text l hs \<longleftrightarrow> hs = gs" for hs using parseIpv6_iff [of l hs] by auto
    then show ?thesis using False Some isPrivateIpv6Groups_exact [of gs] ipv6_text_groups [of l gs] by (simp add: public_literal_def)
  qed
qed

lemma assert_public: "returned (assertHostNotBlocked host label) \<longleftrightarrow> public_literal (stripIpv6Brackets host)"
proof -
  have "returned (assertHostNotBlocked host label) \<longleftrightarrow>
      \<not> (if isIpv4Literal (stripIpv6Brackets host) then isPrivateIpv4 (stripIpv6Brackets host)
         else case parseIpv6 (stripIpv6Brackets host) of None \<Rightarrow> False | Some gs \<Rightarrow> isPrivateIpv6Groups gs)"
    by (simp add: assertHostNotBlocked_def Let_def returned_def split: option.split)
  then show ?thesis unfolding literal_class by simp
qed

lemma isPrivateIP_public: "isPrivateIP host \<longleftrightarrow> \<not> public_literal (stripIpv6Brackets host)"
  using literal_class [of "stripIpv6Brackets host"] unfolding isPrivateIP_def stripIpv6Brackets_def by (simp only: Let_def)

text \<open>C28: the host guard decides by the address, not by its spelling. A host is refused exactly when, without brackets, it is some
  spelling of an address in a blocked block (a dotted quad; IPv6 groups of either case and with leading zeros, with a run left out, with
  a quad at the end, with a zone; an IPv4 address inside an IPv4-mapped, IPv4-compatible, NAT64 or 6to4 address) or a quad with an octet above 255; the
  classifier for resolved addresses decides the same.\<close>

theorem host_guard_exact:
  "(returned (assertHostNotBlocked host label) \<longleftrightarrow> public_literal (stripIpv6Brackets host))
    \<and> (isPrivateIP host \<longleftrightarrow> \<not> public_literal (stripIpv6Brackets host))"
  using assert_public isPrivateIP_public by blast

section \<open>The URL policy\<close>

text \<open>How an accepted text names its host, for each scheme.\<close>

fun names_host :: "(string \<Rightarrow> url_parts option) \<Rightarrow> string \<Rightarrow> url_scheme \<Rightarrow> string \<Rightarrow> bool" where
  "names_host new_URL v Https h \<longleftrightarrow> starts_ci v ''https://''
     \<and> (\<exists>u. new_URL v = Some u \<and> url_username u = [] \<and> url_password u = [] \<and> url_hostname u = h)"
| "names_host new_URL v Ssh h \<longleftrightarrow> starts_ci v ''ssh://'' \<and> (\<exists>u. new_URL v = Some u \<and> url_password u = [] \<and> url_hostname u = h)"
| "names_host new_URL v Scp h \<longleftrightarrow> (\<exists>user path. v = user @ ''@'' @ h @ '':'' @ path \<and> user \<noteq> [] \<and> path \<noteq> []
     \<and> set user \<inter> set ''@/:[]'' = {} \<and> set h \<inter> set '':/[]'' = {})"

lemma okHost_ok: "okHost scheme h = UrlOk scheme' host \<longleftrightarrow> scheme' = scheme \<and> host = js_lower h
    \<and> host \<noteq> ''localhost'' \<and> \<not> js_endsWith host ''.localhost'' \<and> public_literal (stripIpv6Brackets host)"
  using assert_public [of "js_lower h" "''source URL host''"]
  by (auto simp: okHost_def Let_def returned_def split: sum.splits host_error.splits)

definition first_separator :: "string \<Rightarrow> string" where
  "first_separator v = take 1 (dropWhile user_char v)"

lemma first_separator_at: "list_all user_char a \<Longrightarrow> \<not> user_char c \<Longrightarrow> first_separator (a @ c # r) = [c]"
  by (induction a) (simp_all add: first_separator_def)

lemma lower_plain:
  assumes "d \<in> set ''@/:.-''"
  shows "js_lower_char c = d \<longleftrightarrow> c = d"
proof -
  have d: "(of_char d :: nat) \<in> {64, 47, 58, 46, 45}" using assms by auto
  show ?thesis
  proof (cases "65 \<le> (of_char c :: nat) \<and> (of_char c :: nat) \<le> 90 \<or> 192 \<le> (of_char c :: nat) \<and> (of_char c :: nat) \<le> 222 \<and> (of_char c :: nat) \<noteq> 215")
    case True
    then have "(of_char (js_lower_char c) :: nat) = of_char c + 32" by (auto simp: js_lower_char_def Let_def)
    then show ?thesis using d True by auto
  next
    case False
    then show ?thesis by (auto simp: js_lower_char_def Let_def)
  qed
qed

lemma starts_ci_Cons: "starts_ci v (y # t) \<longleftrightarrow> (\<exists>x r. v = x # r \<and> js_lower_char x = y \<and> starts_ci r t)"
  by (cases v) (auto simp: starts_ci_def js_lower_def)

lemma starts_ci_separator: "starts_ci v (a @ CHR '':'' # b) \<Longrightarrow> list_all user_char a \<Longrightarrow> first_separator v = '':''"
proof (induction a arbitrary: v)
  case Nil
  then obtain x r where "v = x # r" "js_lower_char x = CHR '':''" by (auto simp: starts_ci_Cons)
  then show ?case using lower_plain [of "CHR '':''" x] by (simp add: first_separator_def user_char_def)
next
  case (Cons y a)
  then obtain x r where v: "v = x # r" "js_lower_char x = y" "starts_ci r (a @ CHR '':'' # b)" by (auto simp: starts_ci_Cons)
  have "user_char x"
  proof (rule ccontr)
    assume n: "\<not> user_char x"
    then have "x \<in> set ''@/:.-''" by (auto simp: user_char_def)
    then have "y = x" using lower_plain [of x x] v(2) by blast
    then show False using Cons.prems(2) n by simp
  qed
  then show ?case using Cons.IH [OF v(3)] Cons.prems(2) by (simp add: v(1) first_separator_def)
qed

lemma scheme_then_separator:
  assumes "scheme_then v (CHR '':'' # b)"
  shows "first_separator v = '':''"
proof -
  let ?run = "takeWhile scheme_char (tl v)"
  have ne: "v \<noteq> []" "ascii_alpha (hd v)" and st: "js_startsWith (dropWhile scheme_char (tl v)) (CHR '':'' # b)" using assms by (simp_all add: scheme_then_def)
  obtain r where r: "dropWhile scheme_char (tl v) = CHR '':'' # r"
    using st by (cases "dropWhile scheme_char (tl v)") (simp_all add: js_startsWith_def)
  have v: "v = (hd v # ?run) @ CHR '':'' # r" using ne(1) r takeWhile_dropWhile_id [of scheme_char "tl v"] by (cases v) simp_all
  have sep: "scheme_char c \<Longrightarrow> user_char c" for c by (auto simp: ascii_alpha_def scheme_char_def is_digit_def user_char_def)
  have "list_all scheme_char (hd v # ?run)" using ne(2) set_takeWhileD [of _ scheme_char] by (auto simp: list_all_iff scheme_char_def)
  then have "list_all user_char (hd v # ?run)" using sep by (simp add: list_all_iff)
  from first_separator_at [OF this, of "CHR '':''" r] show ?thesis using v by (simp add: user_char_def)
qed

lemma scp_like_iff:
  "scp_like v = Some (user, host, path) \<longleftrightarrow> v = user @ ''@'' @ host @ '':'' @ path \<and> user \<noteq> [] \<and> host \<noteq> [] \<and> path \<noteq> []
     \<and> list_all user_char user \<and> list_all host_char host \<and> CHR 0x0A \<notin> set path \<and> CHR 0x0D \<notin> set path" (is "?L \<longleftrightarrow> ?R")
proof
  let ?r1 = "dropWhile user_char v"
  let ?r2 = "dropWhile host_char (tl ?r1)"
  assume ?L
  then have u: "takeWhile user_char v = user" "user \<noteq> []" "?r1 \<noteq> []" "hd ?r1 = CHR ''@''"
    and h: "takeWhile host_char (tl ?r1) = host" "host \<noteq> []" "?r2 \<noteq> []" "hd ?r2 = CHR '':''" "tl ?r2 = path"
    and p: "path \<noteq> []" "CHR 0x0A \<notin> set path" "CHR 0x0D \<notin> set path"
    unfolding scp_like_def Let_def by (simp_all split: if_split_asm)
  have "v = user @ ?r1" using takeWhile_dropWhile_id [of user_char v] by (simp only: u(1))
  also have "?r1 = CHR ''@'' # tl ?r1" using u(3,4) by (metis list.collapse)
  also have "tl ?r1 = host @ ?r2" using takeWhile_dropWhile_id [of host_char "tl ?r1"] by (simp only: h(1))
  also have "?r2 = CHR '':'' # path" using h(3,4,5) by (metis list.collapse)
  finally have "v = user @ ''@'' @ host @ '':'' @ path" by simp
  moreover have "list_all user_char user" "list_all host_char host" unfolding list_all_iff u(1) [symmetric] h(1) [symmetric] using set_takeWhileD by fast+
  ultimately show ?R using u(2) h(2) p by blast
next
  assume a: ?R
  then have u: "\<And>c. c \<in> set user \<Longrightarrow> user_char c" and h: "\<And>c. c \<in> set host \<Longrightarrow> host_char c" by (simp_all add: list_all_iff)
  have n: "\<not> user_char (CHR ''@'')" "\<not> host_char (CHR '':'')" by (simp_all add: user_char_def host_char_def)
  have "v = user @ ''@'' @ host @ '':'' @ path" using a by blast
  then have d: "takeWhile user_char v = user" "dropWhile user_char v = CHR ''@'' # host @ '':'' @ path"
    using u n(1) by (simp_all add: takeWhile_append2 dropWhile_append2)
  have "takeWhile host_char (host @ '':'' @ path) = host" "dropWhile host_char (host @ '':'' @ path) = '':'' @ path"
    using h n(2) by (simp_all add: takeWhile_append2 dropWhile_append2)
  then show ?L unfolding scp_like_def Let_def d using a by simp
qed

definition refused_early :: "string \<Rightarrow> bool" where
  "refused_early v \<longleftrightarrow> starts_ci v ''file://'' \<or> starts_ci v ''git://'' \<or> starts_ci v ''ext::'' \<or> js_startsWith v ''/''
     \<or> js_startsWith v ''./'' \<or> js_startsWith v ''../''"

lemma early_separator: "refused_early v \<or> starts_ci v ''https://'' \<or> starts_ci v ''ssh://'' \<or> scheme_then v ''://'' \<Longrightarrow> first_separator v \<in> {'':'', ''/''}"
proof -
  have ci: "starts_ci v t \<Longrightarrow> first_separator v = '':''" if "t = a @ CHR '':'' # b" "list_all user_char a" for t a b
    using starts_ci_separator that by blast
  have "starts_ci v ''file://'' \<Longrightarrow> first_separator v = '':''" "starts_ci v ''git://'' \<Longrightarrow> first_separator v = '':''"
    "starts_ci v ''ext::'' \<Longrightarrow> first_separator v = '':''" "starts_ci v ''https://'' \<Longrightarrow> first_separator v = '':''" "starts_ci v ''ssh://'' \<Longrightarrow> first_separator v = '':''"
    using ci [of _ "''file''" "''//''"] ci [of _ "''git''" "''//''"] ci [of _ "''ext''" "'':''"] ci [of _ "''https''" "''//''"] ci [of _ "''ssh''" "''//''"]
    by (simp_all add: user_char_def)
  moreover have "js_startsWith v (a @ ''/'') \<Longrightarrow> first_separator v = ''/''" if "list_all user_char a" for a
  proof -
    assume "js_startsWith v (a @ ''/'')"
    then have "v = a @ CHR ''/'' # drop (length a + 1) v" using append_take_drop_id [of "length a + 1" v] by (simp add: js_startsWith_def)
    then show ?thesis using first_separator_at [OF that, of "CHR ''/''" "drop (length a + 1) v"] by (simp add: user_char_def)
  qed
  from this [of "[]"] this [of "''.''"] this [of "''..''"]
  have "js_startsWith v ''/'' \<or> js_startsWith v ''./'' \<or> js_startsWith v ''../'' \<Longrightarrow> first_separator v = ''/''" by (auto simp: user_char_def)
  moreover have "scheme_then v ''://'' \<Longrightarrow> first_separator v = '':''" by (rule scheme_then_separator)
  ultimately show "refused_early v \<or> starts_ci v ''https://'' \<or> starts_ci v ''ssh://'' \<or> scheme_then v ''://'' \<Longrightarrow> first_separator v \<in> {'':'', ''/''}"
    unfolding refused_early_def by blast
qed

lemma early_first: "refused_early v \<Longrightarrow> v \<noteq> [] \<and> js_lower_char (hd v) \<in> set ''fge/.''"
  using lower_plain [of "CHR ''/''" "hd v"] lower_plain [of "CHR ''.''" "hd v"]
  by (cases v) (auto simp: refused_early_def starts_ci_Cons js_startsWith_def)

lemma https_ssh_first: "starts_ci v ''https://'' \<Longrightarrow> js_lower_char (hd v) = CHR ''h''" "starts_ci v ''ssh://'' \<Longrightarrow> js_lower_char (hd v) = CHR ''s''"
  by (auto simp: starts_ci_Cons)

lemma url_form_ok:
  "evaluateUrlForm new_URL v sc = UrlOk scheme host \<longleftrightarrow> (\<exists>u. new_URL v = Some u \<and> url_password u = [] \<and> (url_username u = [] \<or> sc = Ssh)
     \<and> url_hostname u \<noteq> [] \<and> okHost sc (url_hostname u) = UrlOk scheme host)"
  by (auto simp: evaluateUrlForm_def split: option.splits if_splits)

definition line_safe :: "string \<Rightarrow> bool" where
  "line_safe v \<longleftrightarrow> list_all (\<lambda>c. c \<notin> {CHR 0x5C, CHR 0x0D, CHR 0x0A, CHR 0x00}) v"

lemma evaluate_ok:
  "evaluateSourceUrl new_URL raw = UrlOk scheme host \<longleftrightarrow>
     js_trim raw \<noteq> [] \<and> line_safe (js_trim raw) \<and> \<not> refused_early (js_trim raw)
     \<and> (if starts_ci (js_trim raw) ''https://'' then evaluateUrlForm new_URL (js_trim raw) Https = UrlOk scheme host
        else if starts_ci (js_trim raw) ''ssh://'' then evaluateUrlForm new_URL (js_trim raw) Ssh = UrlOk scheme host
        else \<not> scheme_then (js_trim raw) ''://'' \<and> (\<exists>user h path. scp_like (js_trim raw) = Some (user, h, path)
          \<and> \<not> (CHR ''['' \<in> set user \<or> CHR '']'' \<in> set user \<or> CHR ''['' \<in> set h \<or> CHR '']'' \<in> set h)
          \<and> \<not> CHR '':'' \<in> set user \<and> h \<noteq> [] \<and> okHost Scp h = UrlOk scheme host))"
  unfolding evaluateSourceUrl_def Let_def refused_early_def line_safe_def
  by (simp add: list_ex_iff list_all_iff split: option.split)

lemma scp_separator: "names_host new_URL v Scp h \<Longrightarrow> first_separator v = ''@'' \<and> v \<noteq> []"
proof -
  assume "names_host new_URL v Scp h"
  then obtain user path where v: "v = user @ CHR ''@'' # h @ '':'' @ path" "set user \<inter> set ''@/:[]'' = {}" by auto
  have "list_all user_char user" using v(2) by (auto simp: list_all_iff user_char_def)
  from first_separator_at [OF this, of "CHR ''@''"] show ?thesis by (simp add: v(1) user_char_def)
qed

lemma names_scp_iff:
  assumes "line_safe v"
  shows "h \<noteq> [] \<and> names_host new_URL v Scp h \<longleftrightarrow> (\<exists>user path. scp_like v = Some (user, h, path)
    \<and> \<not> (CHR ''['' \<in> set user \<or> CHR '']'' \<in> set user \<or> CHR ''['' \<in> set h \<or> CHR '']'' \<in> set h) \<and> \<not> CHR '':'' \<in> set user \<and> h \<noteq> [])"
proof -
  have u: "list_all user_char user \<longleftrightarrow> CHR ''@'' \<notin> set user \<and> CHR ''/'' \<notin> set user \<and> CHR '':'' \<notin> set user" for user
    by (auto simp: list_all_iff user_char_def)
  have hc: "list_all host_char x \<longleftrightarrow> CHR '':'' \<notin> set x \<and> CHR ''/'' \<notin> set x" for x by (auto simp: list_all_iff host_char_def)
  have p: "CHR 0x0A \<notin> set path \<and> CHR 0x0D \<notin> set path" if "v = a @ path" for a path
    using assms that by (auto simp: line_safe_def list_all_iff)
  show ?thesis unfolding scp_like_iff names_host.simps u hc using p [of "_ @ ''@'' @ h @ '':''"] by auto
qed

text \<open>C29: the URL policy accepts exactly the addresses it means to. A text is accepted, as a scheme and a host in lower case, just
  when after trimming it holds no backslash, line break or NUL and is an https URL without credentials, an ssh URL without a
  password or \<open>user@host:path\<close> without brackets, and that host is not empty, not localhost or below it, and not the spelling of a
  blocked address.\<close>

theorem source_url_exact:
  "evaluateSourceUrl new_URL raw = UrlOk scheme host \<longleftrightarrow>
     line_safe (js_trim raw) \<and> (\<exists>h. h \<noteq> [] \<and> names_host new_URL (js_trim raw) scheme h \<and> host = js_lower h)
     \<and> host \<noteq> ''localhost'' \<and> \<not> js_endsWith host ''.localhost'' \<and> public_literal (stripIpv6Brackets host)"
proof -
  let ?v = "js_trim raw"
  have scp: "names_host new_URL ?v Scp h \<Longrightarrow> \<not> refused_early ?v \<and> \<not> starts_ci ?v ''https://'' \<and> \<not> starts_ci ?v ''ssh://'' \<and> \<not> scheme_then ?v ''://''" for h
    using early_separator [of ?v] scp_separator [of new_URL ?v h] by auto
  show ?thesis
  proof (cases "starts_ci ?v ''https://'' \<or> starts_ci ?v ''ssh://''")
    case True
    then have "\<not> refused_early ?v" "?v \<noteq> []" "starts_ci ?v ''https://'' \<longleftrightarrow> \<not> starts_ci ?v ''ssh://''"
      using early_first [of ?v] https_ssh_first [of ?v] by (auto simp: starts_ci_Cons)
    then show ?thesis unfolding evaluate_ok url_form_ok okHost_ok using True scp by (cases scheme) auto
  next
    case False
    show ?thesis
    proof (cases "line_safe ?v")
      case safe: True
      have "evaluateSourceUrl new_URL raw = UrlOk scheme host \<longleftrightarrow> ?v \<noteq> [] \<and> \<not> refused_early ?v \<and> \<not> scheme_then ?v ''://''
          \<and> (\<exists>h. (h \<noteq> [] \<and> names_host new_URL ?v Scp h) \<and> okHost Scp h = UrlOk scheme host)"
        unfolding evaluate_ok names_scp_iff [OF safe] using False safe by auto
      then show ?thesis unfolding okHost_ok using False safe scp scp_separator [of new_URL ?v] by (cases scheme) auto
    qed (simp add: evaluate_ok)
  qed
qed

section \<open>Validated sources\<close>

text \<open>Walking a path: the number of directories below the root, and whether a step ever leaves it.\<close>

fun stays_inside :: "nat \<Rightarrow> string list \<Rightarrow> bool" where
  "stays_inside depth [] = True"
| "stays_inside depth (p # ps) =
     (if p = [] \<or> p = ''.'' then stays_inside depth ps
      else if p = ''..'' then depth > 0 \<and> stays_inside (depth - 1) ps
      else stays_inside (Suc depth) ps)"

lemma no_parent_inside: "''..'' \<notin> set ps \<Longrightarrow> stays_inside depth ps"
  by (induction depth ps rule: stays_inside.induct) auto

lemma requireNonEmpty_Some: "requireNonEmptyString v field = Inr s \<longleftrightarrow> v = Some (JStr s) \<and> \<not> js_blank s"
  by (auto simp: requireNonEmptyString_def split: option.splits json.splits if_splits)

lemma https_source_ok:
  "validateHttpsSourceUrl new_URL url label = Inr () \<longleftrightarrow> (\<exists>u. new_URL url = Some u \<and> url_protocol u = ''https:'' \<and> url_hostname u \<noteq> []
     \<and> url_username u = [] \<and> url_password u = [] \<and> public_literal (stripIpv6Brackets (url_hostname u)))"
  unfolding assert_public [symmetric, of _ "label @ '' host''"]
  by (auto simp: validateHttpsSourceUrl_def returned_def split: option.splits if_splits sum.splits host_error.splits)

theorem validated_source:
  assumes "validateSource new_URL source = Inr ()"
  obtains kvs url u where "source = JObj kvs" "json_field kvs ''url'' = Some (JStr url)" "new_URL url = Some u" "url_protocol u = ''https:''"
    "url_username u = []" "url_password u = []" "public_literal (stripIpv6Brackets (url_hostname u))"
    "\<And>ref. json_field kvs ''ref'' = Some (JStr ref) \<Longrightarrow> \<not> js_startsWith ref ''-''"
    "\<And>p. json_field kvs ''modulePath'' = Some (JStr p) \<Longrightarrow> \<not> js_startsWith p ''/'' \<and> stays_inside 0 (path_parts p)"
proof -
  obtain kvs where s: "source = JObj kvs" using assms by (cases source) (simp_all add: validateSource_def)
  obtain url where url: "json_field kvs ''url'' = Some (JStr url)" "validateHttpsSourceUrl new_URL url ''git source url'' = Inr ()"
    and ref: "when_present (json_field kvs ''ref'') (\<lambda>v. case v of Some (JStr ref) \<Rightarrow> validateSafeGitSelector ref ''source.ref'' | _ \<Rightarrow> Inr ()) = Inr ()"
    and mp: "when_present (json_field kvs ''modulePath'') (\<lambda>v. chain (requireNonEmptyString v ''source.modulePath'') validateSafeModulePath) = Inr ()"
    using assms unfolding validateSource_def s json.case chain_Inr_iff requireNonEmpty_Some by auto
  obtain u where u: "new_URL url = Some u" "url_protocol u = ''https:''" "url_username u = []" "url_password u = []"
    "public_literal (stripIpv6Brackets (url_hostname u))" using url(2) unfolding https_source_ok by blast
  have "\<not> js_startsWith ref ''-''" if "json_field kvs ''ref'' = Some (JStr ref)" for ref
    using ref that by (simp add: when_present_def validateSafeGitSelector_def)
  moreover have "\<not> js_startsWith p ''/'' \<and> stays_inside 0 (path_parts p)" if "json_field kvs ''modulePath'' = Some (JStr p)" for p
  proof -
    have "validateSafeModulePath p = Inr ()" using mp that by (auto simp: when_present_def requireNonEmpty_Some)
    then have "\<not> js_startsWith p ''/''" "''..'' \<notin> set (path_parts p)" by (auto simp: validateSafeModulePath_def list_ex_iff)
    then show ?thesis using no_parent_inside by blast
  qed
  ultimately show thesis using that [OF s url(1) u] by blast
qed

section \<open>Spellings beyond the guard\<close>

text \<open>Leading zeros are read as decimal digits and a quad is the only numeric form: a host that a resolver reads in base eight passes as another, public
  address, and so does \<open>localhost\<close> with a closing dot.\<close>

definition no_URL :: "string \<Rightarrow> url_parts option" where
  "no_URL _ = None"

lemma octal_quad_passes: "evaluateSourceUrl no_URL ''git@0177.0.0.1:app'' = UrlOk Scp ''0177.0.0.1''"
  by code_simp

lemma rooted_localhost_passes: "evaluateSourceUrl no_URL ''git@localhost.:app'' = UrlOk Scp ''localhost.''"
  by code_simp

end
