(* ===== verification/Spec2Isabelle.thy ===== *)
theory Spec2Isabelle
  imports Run_Properties Lease_Properties Cron_Properties Queue_Properties Policy_Properties App_Properties Install_Plan_Properties Host_Properties
begin

text \<open>
  \<^bold>\<open>Takosumi control plane.\<close> Takosumi runs OpenTofu for its users: a Workspace owns Capsules, a
  Capsule is planned and applied by runs, a runner claims a run under a lease, and a drained
  Workspace is frozen once nothing of it is in flight. The ledgers behind this are stores with
  compare-and-set operations; several workers race on them, and the fences of the stores are
  what keeps them apart. This development models the ledgers, the leases and the contracts
  around them, and proves what the callers rely on.

  \<^bold>\<open>Theories and sources.\<close> Paths are under \<open>src/\<close>.

  \<^item> \<open>Prelude\<close>, \<open>Js_Date\<close>, \<open>Json\<close>: JavaScript's \<open>Map\<close>, \<open>Set\<close>, stable \<open>sort\<close>, string order, numbers,
    \<open>Date\<close> (calendar, ISO strings, \<open>Date.parse\<close>) and JSON values. Errors are \<^const>\<open>Inl\<close>, results
    \<^const>\<open>Inr\<close>; \<^const>\<open>chain\<close> is sequencing.
  \<^item> \<open>Workspace_Rows\<close>, \<open>Financial_Source\<close>, \<open>Workspace_Store\<close>:
    \<open>core/domains/deploy-control/store.ts\<close> and \<open>store_row_mappers.ts\<close> (Workspace, member, management and
    billing rows, their validators and the operations of \<open>InMemoryOpenTofuControlStore\<close>),
    \<open>core/domains/workspaces/financial-source.ts\<close> (the append-only financial journal).
    Shown: a membership mutation keeps an owner, draining closes admission, management epochs only
    grow, billing bindings are unique, the journal is a gap-free chain that loses nothing, and
    its operations can be repeated.
  \<^item> \<open>Run_Rows\<close>, \<open>Management_Blockers\<close>, \<open>Run_Ledger\<close>, \<open>Run_Properties\<close>: the run ledger of \<open>store.ts\<close>
    (\<open>preparePlanRun\<close>, \<open>beginApplyRun\<close>, \<open>putPlanRun\<close>, \<open>putApplyRun\<close>, \<open>transitionRun\<close>, audit events, freeze
    and exclusive deletion), \<open>workspace_management_blockers.ts\<close>, \<open>run_finalization.ts\<close>,
    \<open>app_run_admission.ts\<close>. Shown: a transition is a compare-and-set with one winner, leases need the
    authority stored at admission, the stored authority never changes, no lease is granted
    after a drain, a freeze is quiescent, audit histories only grow.
  \<^item> \<open>Capsule_Lease\<close>, \<open>Coordination_Object\<close>, \<open>Lease_Properties\<close>: \<open>capsule_lease.ts\<close>,
    \<open>worker/src/durable/CoordinationObject.ts\<close> and the adapter of \<open>worker/src/worker_service.ts\<close>. The
    contract of a coordinator is the locale \<open>capsule_coordination\<close>, stated against one abstract
    lease cell per scope and interpreted both for the in-memory coordinator and for the Durable Object
    reached through its HTTP interface; the client lemmas are proved once in the locale. The
    storage of a Durable Object is a parameter with the locale \<open>durable_storage\<close>.
    Shown: exclusion, refinement of the cells, the leased section, the bounded wait, the alarms.
  \<^item> \<open>Portable_Cron\<close>, \<open>Cron_Properties\<close>: \<open>contract/cron.ts\<close>. Shown: the search returns the first
    occurrence, the normal form is stable and keeps its meaning, except for a wildcard day of week.
  \<^item> \<open>Memory_Queue\<close>, \<open>Queue_Properties\<close>: \<open>core/adapters/queue\<close>. Shown: leases exclude, messages follow
    their life cycle and are never lost, and repeated leasing delivers every message by priority.
  \<^item> \<open>Plan_Scope\<close>, \<open>Plan_Policy\<close>, \<open>Policy_Properties\<close>: \<open>contract/plan-scope.ts\<close>, \<open>lib/policy\<close>,
    \<open>contract/provider-env-rules.ts\<close>, \<open>policy.ts\<close>, \<open>provider_policy.ts\<close> and the verdict of the run engine on a completed plan.
    Shown: the glob matcher is the meaning of the glob, validation normalises, the composition of policies
    never widens, and the verdict passes exactly what every layer admits.
  \<^item> \<open>Cursor_Codec\<close>, \<open>Pagination\<close>: \<open>contract/pagination.ts\<close> with the parts of the platform under its tokens (JSON
    text, UTF-8, base64). A pager's contract is the locale \<open>keyset_pages\<close>. Shown: tokens are inverted, and a client that
    follows them reads every row once.
  \<^item> \<open>App_Ownership\<close>, \<open>App_Access\<close>, \<open>App_Backfill\<close>, \<open>App_Cutover\<close>, \<open>App_Properties\<close>: \<open>core/domains/app-ownership\<close>
    (\<open>store.ts\<close>, \<open>list-visibility.ts\<close>, \<open>interface-app-decision.ts\<close>, \<open>backfill.ts\<close>, \<open>access-cutover-diff.ts\<close>), \<open>contract/app-access.ts\<close> and the ownership, roster, Capsule
    creation and list-page operations of the in-memory control store. Calls are split at their awaits and interleaved by the step relation
    \<open>own_step\<close>. Shown: the ownership epoch identifies the owner, the access deciders agree, and the pages of
    Capsules and of accessible apps (interpretations of \<open>keyset_pages\<close>) are complete, and a run of the backfill, however interrupted, ends with the access each
    account had (against the specification \<open>settled_access\<close>); the cutover comparison reports exactly the differing decisions.
  \<^item> \<open>Install_Plans\<close>, \<open>Install_Plan_Properties\<close>: \<open>core/domains/install-plans/store.ts\<close> and \<open>contract/install-plans.ts\<close>, the
    coordinator rows of installs and revisions from Git with their reconcile leases. The store admits work through the control store it is
    paired with, and that control store freezes a Workspace with the blocker test of the Git store; the pair is interleaved by
    the step relation \<open>paired_step\<close>. Shown: one plan for each request scope, a generation is claimed once and its lease excludes
    everybody else, and a freeze stops the install plans of its Workspace.
  \<^item> \<open>Ip_Classification\<close>, \<open>Ip_Text\<close>, \<open>Source_Url\<close>, \<open>Host_Properties\<close>: \<open>contract/reference/ip-classification.ts\<close>,
    \<open>host-blocklist.ts\<close>, \<open>core/domains/sources/url-policy.ts\<close> and the source part of \<open>validation.ts\<close>: which hosts a caller-supplied Git URL may
    name. The specification has addresses as words of 32 and 128 bits, blocks as a network and a prefix length, and the spellings of
    an address as a relation between texts and groups. Shown: the parser reads exactly the spellings, the guard refuses
    exactly the spellings of blocked addresses, the policy accepts exactly its three forms, and a validated module path stays below its root.

  \<^bold>\<open>State and time.\<close> The private maps of a class are the fields of a record, in insertion order;
  an operation takes the record and returns the result with the new record. An \<open>await\<close> between
  two operations is where another caller may run; an operation that does not give way in the source is one
  step here, and interleavings are sequences of such steps. The clock and the id generator
  are fields that the environment may set. Numbers are integers, with \<open>Number.isSafeInteger\<close> written out.

  \<^bold>\<open>Bounds.\<close> No definition needs fuel to be meaningful: the cron search has the 1832 days of the
  source as its bound, and the wait for a joined lease recurses on the time that is left,
  which the source bounds by five seconds. The JSON parser of the cursor tokens takes twice the length of
  its text as nesting fuel, and more fuel changes no result; a reader of pages stops after one page more than there are rows.

  \<^bold>\<open>Parameters.\<close> \<open>localeCompare\<close>, the Durable Object storage, the URL parser of the platform, digests, the blocker test of the Git
  store in the theorems about the control store alone (the theorem on frozen install plans supplies the modelled Git store) and the reasons of the compatibility and billing layers of a plan are arguments; what is used of them is stated where it is used.

  \<^bold>\<open>Not modelled.\<close> The SQL and D1 stores of the same interface (\<open>store_sql.ts\<close>,
  \<open>worker/src/d1_opentofu_store.ts\<close>), whose meaning is that of the database; the run engine and the services
  (\<open>run-engine\<close>, \<open>controller.ts\<close>), which sequence awaited calls of stores, vault, runner and object
  storage; the runner, HTTP routes, accounts service, CLI, dashboard, provider packages and release
  scripts, which are input and output around the modelled logic; credential mint evidence and the baking of Workspace policies. Outside the cursor tokens, characters beyond Latin-1
  are not modelled, nor are fractional numbers and keys inherited from \<open>Object.prototype\<close>.
\<close>

end
